(* ===== verification/Prelude.thy ===== *)
theory Prelude
  imports Complex_Main "HOL-Library.Char_ord" "HOL-Library.List_Lexorder"
begin

text \<open>
  Shared vocabulary of the development: Go errors as values, the string functions of the
  standard library that the program calls, decimal printing and parsing of numbers, and
  generic list lemmas. The component theories collect their own rewrite rules in the
  named collections declared here.
\<close>

named_theorems ledger_simps \<open>defining equations of balance and transaction operations\<close>
named_theorems inv_intros \<open>preservation rules of the component invariants\<close>

subsection \<open>Errors\<close>

text \<open>
  A Go \<open>error\<close> is a plain message, an error wrapped with \<open>%w\<close> behind a prefix, an
  \<open>apierror.APIError\<close> (code and message; it has no \<open>Unwrap\<close>, so what it carries in
  \<open>Details\<close> is invisible to \<open>errors.Is\<close> and \<open>errors.As\<close>), \<open>sql.ErrNoRows\<close>, a PostgreSQL
  driver error (SQLSTATE, constraint, message), one of the two lock sentinels, or, for a nil
  dereference, the runtime panic that the HTTP and worker frames recover from.
\<close>

datatype err_code = ErrNotFound | ErrConflict | ErrBadRequest | ErrInvalidInput
  | ErrInternalServer | ErrRateLimited

datatype error =
    Errorf string
  | Wrap string error
  | APIError err_code string
  | SqlErrNoRows
  | PqError string string string
  | ErrLockHeld string
  | ErrLockWaitTimeout string
  | NilPanic

fun code_string :: "err_code \<Rightarrow> string" where
  "code_string ErrNotFound = ''NOT_FOUND''"
| "code_string ErrConflict = ''CONFLICT''"
| "code_string ErrBadRequest = ''BAD_REQUEST''"
| "code_string ErrInvalidInput = ''INVALID_INPUT''"
| "code_string ErrInternalServer = ''INTERNAL_SERVER_ERROR''"
| "code_string ErrRateLimited = ''RATE_LIMITED''"

text \<open>\<open>err.Error()\<close>.\<close>

fun err_msg :: "error \<Rightarrow> string" where
  "err_msg (Errorf m) = m"
| "err_msg (Wrap p e) = p @ '': '' @ err_msg e"
| "err_msg (APIError c m) = code_string c @ '': '' @ m"
| "err_msg SqlErrNoRows = ''sql: no rows in result set''"
| "err_msg (PqError c k m) = ''pq: '' @ m"
| "err_msg (ErrLockHeld m) = m"
| "err_msg (ErrLockWaitTimeout m) = m"
| "err_msg NilPanic = ''runtime error: invalid memory address or nil pointer dereference''"

type_synonym 'a res = "error + 'a"

text \<open>A chain of \<open>if err != nil { return ... }\<close> steps succeeds exactly when every step does.\<close>

lemma res_bind_Inr:
  "(case r of Inl e \<Rightarrow> Inl (h e) | Inr p \<Rightarrow> g p) = Inr y \<longleftrightarrow> (\<exists>p. r = Inr p \<and> g p = Inr y)"
  by (cases r) auto

lemma opt_bind_Some:
  "(case r of None \<Rightarrow> None | Some p \<Rightarrow> g p) = Some y \<longleftrightarrow> (\<exists>p. r = Some p \<and> g p = Some y)"
  by (cases r) auto

subsection \<open>Strings\<close>

text \<open>
  Go strings are byte strings, compared bytewise; \<open>string\<close> with the lexicographic order
  over \<open>char\<close> is the same order. \<open>strings.HasPrefix\<close>, \<open>HasSuffix\<close>, \<open>Contains\<close>, \<open>Join\<close>.
\<close>

definition has_prefix :: "string \<Rightarrow> string \<Rightarrow> bool" where
  "has_prefix s p \<longleftrightarrow> take (length p) s = p"

definition has_suffix :: "string \<Rightarrow> string \<Rightarrow> bool" where
  "has_suffix s p \<longleftrightarrow> length p \<le> length s \<and> drop (length s - length p) s = p"

fun str_contains :: "string \<Rightarrow> string \<Rightarrow> bool" where
  "str_contains [] p \<longleftrightarrow> p = []"
| "str_contains (c # cs) p \<longleftrightarrow> has_prefix (c # cs) p \<or> str_contains cs p"

fun str_join :: "string \<Rightarrow> string list \<Rightarrow> string" where
  "str_join sep [] = []"
| "str_join sep [s] = s"
| "str_join sep (s # t # ss) = s @ sep @ str_join sep (t # ss)"

text \<open>\<open>'%s'\<close> inside a format string.\<close>

definition quoted :: "string \<Rightarrow> string" where
  "quoted s = CHR 0x27 # s @ [CHR 0x27]"

lemma has_prefix_append [simp]: "has_prefix (p @ s) p"
  by (simp add: has_prefix_def)

lemma has_prefix_empty [simp]: "has_prefix s []"
  by (simp add: has_prefix_def)

lemma str_contains_empty [simp]: "str_contains s []"
  by (cases s) simp_all

lemma str_contains_prefix: "str_contains (p @ s) p"
proof (cases "p @ s")
  case (Cons c cs)
  then show ?thesis by (metis has_prefix_append str_contains.simps(2))
qed simp

lemma str_contains_append_left: "str_contains s p \<Longrightarrow> str_contains (q @ s) p"
  by (induction q) auto

lemma str_contains_middle: "str_contains (q @ p @ s) p"
  by (intro str_contains_append_left str_contains_prefix)

text \<open>Pipe-joined keys are injective on fields that hold no separator.\<close>

lemma append_sep_inj:
  assumes "c \<notin> set xs" "c \<notin> set ys" "xs @ c # us = ys @ c # vs"
  shows "xs = ys \<and> us = vs"
  using assms
proof (induction xs arbitrary: ys)
  case Nil
  then show ?case by (cases ys) auto
next
  case (Cons x xs)
  then show ?case by (cases ys) auto
qed

lemma str_join_inj:
  assumes "length xs = length ys" "xs \<noteq> []"
    and "\<forall>x \<in> set xs. c \<notin> set x" "\<forall>y \<in> set ys. c \<notin> set y"
    and "str_join [c] xs = str_join [c] ys"
  shows "xs = ys"
  using assms
proof (induction xs ys rule: list_induct2)
  case Nil
  then show ?case by simp
next
  case (Cons x xs y ys)
  show ?case
  proof (cases xs)
    case Nil
    with Cons show ?thesis by simp
  next
    case (Cons x' xs')
    with Cons.hyps obtain y' ys' where ys: "ys = y' # ys'" by (cases ys) auto
    with Cons Cons.prems have "x = y \<and> str_join [c] xs = str_join [c] ys"
      by (intro append_sep_inj) auto
    with Cons Cons.IH Cons.prems show ?thesis by auto
  qed
qed

subsection \<open>First-occurrence deduplication\<close>

text \<open>The \<open>seen\<close>-map loops of the program: keep the first occurrence of each key.\<close>

fun dedup_acc :: "'a list \<Rightarrow> 'a list \<Rightarrow> 'a list" where
  "dedup_acc seen [] = []"
| "dedup_acc seen (x # xs) =
     (if x \<in> set seen then dedup_acc seen xs else x # dedup_acc (x # seen) xs)"

lemma set_dedup_acc: "set (dedup_acc seen xs) = set xs - set seen"
  by (induction seen xs rule: dedup_acc.induct) auto

lemma distinct_dedup_acc: "distinct (dedup_acc seen xs)"
  by (induction seen xs rule: dedup_acc.induct) (auto simp: set_dedup_acc)

subsection \<open>Sums over tables\<close>

lemma sum_upd_diff:
  fixes f :: "'b \<Rightarrow> int"
  assumes "finite A" "a \<in> A" and "\<And>x. x \<in> A \<Longrightarrow> x \<noteq> a \<Longrightarrow> g x = h x"
  shows "(\<Sum>x\<in>A. f (g x)) = (\<Sum>x\<in>A. f (h x)) + f (g a) - f (h a)"
proof -
  have "(\<Sum>x\<in>A. f (g x)) = f (g a) + (\<Sum>x\<in>A - {a}. f (g x))"
    and "(\<Sum>x\<in>A. f (h x)) = f (h a) + (\<Sum>x\<in>A - {a}. f (h x))"
    using assms(1,2) by (simp_all add: sum.remove)
  moreover have "(\<Sum>x\<in>A - {a}. f (g x)) = (\<Sum>x\<in>A - {a}. f (h x))"
    using assms(3) by (intro sum.cong) auto
  ultimately show ?thesis by simp
qed

subsection \<open>Keyed tables\<close>

text \<open>A table is a list of rows; \<open>key\<close> reads a row's primary key.\<close>

definition find_row :: "('r \<Rightarrow> 'k) \<Rightarrow> 'k \<Rightarrow> 'r list \<Rightarrow> 'r option" where
  "find_row key k rows = find (\<lambda>r. key r = k) rows"

definition set_row :: "('r \<Rightarrow> 'k) \<Rightarrow> 'r \<Rightarrow> 'r list \<Rightarrow> 'r list" where
  "set_row key new rows = map (\<lambda>r. if key r = key new then new else r) rows"

lemma find_row_Some: "find_row key k rows = Some r \<Longrightarrow> key r = k \<and> r \<in> set rows"
  by (auto simp: find_row_def find_Some_iff in_set_conv_nth)

lemma find_row_None: "find_row key k rows = None \<longleftrightarrow> k \<notin> key ` set rows"
  by (auto simp: find_row_def find_None_iff)

lemma find_row_Nil [simp]: "find_row key k [] = None"
  and find_row_Cons [simp]: "find_row key k (r # rows) = (if key r = k then Some r else find_row key k rows)"
  by (simp_all add: find_row_def)

lemma find_row_mem: "distinct (map key rows) \<Longrightarrow> r \<in> set rows \<Longrightarrow> find_row key (key r) rows = Some r"
  by (induction rows) (auto simp: rev_image_eqI)

lemma keys_set_row [simp]: "map key (set_row key new rows) = map key rows"
  by (auto simp: set_row_def)

lemma find_row_set_row:
  "find_row key k (set_row key new rows) =
     (if k = key new then (if find_row key k rows = None then None else Some new) else find_row key k rows)"
  by (induction rows) (auto simp: set_row_def)

lemma sum_list_set_row:
  fixes f :: "'r \<Rightarrow> int"
  assumes "distinct (map key rows)" "find_row key (key new) rows = Some old"
  shows "sum_list (map f (set_row key new rows)) = sum_list (map f rows) - f old + f new"
  using assms
proof (induction rows)
  case (Cons r rows)
  show ?case
  proof (cases "key r = key new")
    case True
    then have "set_row key new rows = rows"
      using Cons.prems(1) by (auto simp: set_row_def intro!: map_idI) (metis imageI)
    with True Cons.prems show ?thesis by (simp add: set_row_def)
  next
    case False
    with Cons show ?thesis by (auto simp: set_row_def)
  qed
qed simp

lemma set_row_all: "(\<And>r. r \<in> set rows \<Longrightarrow> P r) \<Longrightarrow> P new \<Longrightarrow> r \<in> set (set_row key new rows) \<Longrightarrow> P r"
  by (auto simp: set_row_def split: if_splits)

end
