(* ===== verification/Decimals.thy ===== *)
theory Decimals
  imports Prelude
begin

text \<open>
  Numbers: decimal printing and parsing (\<open>strconv.FormatFloat\<close>, \<open>big.Int.String\<close>), the
  rounding modes of the program, and the interface of the third-party package
  \<open>github.com/shopspring/decimal\<close>, which is a parameter of every definition that uses it.
  The locale \<open>decimal_pkg\<close> states the documented behaviour of that package as laws over a
  valuation into the rationals.

  A finite \<open>float64\<close> is represented by the rational that its shortest round-tripping
  decimal denotes: this determines the float, preserves comparisons, and is what
  \<open>strconv.FormatFloat(x, 'f', -1, 64)\<close> and \<open>decimal.NewFromFloat\<close> read. Infinities and
  NaN are not represented (JSON cannot carry them).
\<close>

type_synonym float64 = rat

subsection \<open>Rounding\<close>

definition trunc :: "rat \<Rightarrow> int" where
  "trunc x = (if x < 0 then - \<lfloor>- x\<rfloor> else \<lfloor>x\<rfloor>)"

definition round_half_away :: "rat \<Rightarrow> int" where
  "round_half_away x = (if x < 0 then - \<lfloor>- x + 1 / 2\<rfloor> else \<lfloor>x + 1 / 2\<rfloor>)"

definition round_half_even :: "rat \<Rightarrow> int" where
  "round_half_even x =
     (let n = \<lfloor>x\<rfloor>; f = x - of_int n
      in if f < 1 / 2 then n else if 1 / 2 < f then n + 1 else if even n then n else n + 1)"

definition round_places :: "(rat \<Rightarrow> int) \<Rightarrow> nat \<Rightarrow> rat \<Rightarrow> rat" where
  "round_places r k x = of_int (r (x * 10 ^ k)) / 10 ^ k"

lemma trunc_of_int [simp]: "trunc (of_int n) = n"
  by (simp add: trunc_def)

lemma round_half_away_of_int [simp]: "round_half_away (of_int n) = n"
proof -
  have "\<lfloor>(of_int m :: rat) + 1 / 2\<rfloor> = m" for m by linarith
  from this [of n] this [of "- n"] show ?thesis by (simp add: round_half_away_def)
qed

lemma round_half_away_nonneg: "0 \<le> x \<Longrightarrow> 0 \<le> round_half_away x"
  by (simp add: round_half_away_def)

lemma round_half_away_error: "\<bar>of_int (round_half_away x) - x\<bar> \<le> 1 / 2"
proof -
  have "\<bar>of_int \<lfloor>y + 1 / 2\<rfloor> - y\<bar> \<le> 1 / 2" for y :: rat by linarith
  from this [of x] this [of "- x"] show ?thesis
    using abs_minus_commute [of "- of_int \<lfloor>- x + 1 / 2\<rfloor>" x]
    by (cases "x < 0") (simp_all add: round_half_away_def add.commute)
qed

lemma round_half_even_error: "\<bar>of_int (round_half_even x) - x\<bar> \<le> 1 / 2"
proof -
  have "of_int \<lfloor>x\<rfloor> \<le> x" and "x < of_int \<lfloor>x\<rfloor> + 1" by linarith+
  then show ?thesis by (simp add: round_half_even_def Let_def)
qed

lemma round_half_even_of_int [simp]: "round_half_even (of_int n) = n"
  by (simp add: round_half_even_def Let_def)

lemma round_half_even_tie:
  assumes "x = of_int n + 1 / 2"
  shows "even (round_half_even x)"
proof -
  have "\<lfloor>x\<rfloor> = n" using assms by linarith
  with assms show ?thesis by (auto simp: round_half_even_def Let_def)
qed

subsection \<open>Decimal digits\<close>

fun digits10 :: "nat \<Rightarrow> nat list" where
  "digits10 n = (if n < 10 then [n] else digits10 (n div 10) @ [n mod 10])"

declare digits10.simps [simp del]

definition digit_char :: "nat \<Rightarrow> char" where
  "digit_char d = char_of (48 + d)"

definition char_digit :: "char \<Rightarrow> nat option" where
  "char_digit c = (let k = of_char c in if 48 \<le> k \<and> k \<le> 57 then Some (k - 48) else None)"

definition show_nat :: "nat \<Rightarrow> string" where
  "show_nat n = map digit_char (digits10 n)"

definition show_int :: "int \<Rightarrow> string" where
  "show_int i = (if i < 0 then ''-'' @ show_nat (nat (- i)) else show_nat (nat i))"

fun parse_digits :: "nat \<Rightarrow> string \<Rightarrow> nat option" where
  "parse_digits acc [] = Some acc"
| "parse_digits acc (c # cs) =
     (case char_digit c of None \<Rightarrow> None | Some d \<Rightarrow> parse_digits (10 * acc + d) cs)"

lemma char_digit_inverse: "d < 10 \<Longrightarrow> char_digit (digit_char d) = Some d"
  by (simp add: char_digit_def digit_char_def Let_def)

lemma digits10_small: "\<forall>d \<in> set (digits10 n). d < 10"
proof (induction n rule: digits10.induct)
  case (1 n)
  then show ?case by (cases "n < 10") (auto simp: digits10.simps [of n])
qed

lemma digits10_nonempty: "digits10 n \<noteq> []"
  by (subst digits10.simps) simp

fun digits_value :: "nat \<Rightarrow> nat list \<Rightarrow> nat" where
  "digits_value acc [] = acc"
| "digits_value acc (d # ds) = digits_value (10 * acc + d) ds"

lemma digits_value_append: "digits_value a (xs @ ys) = digits_value (digits_value a xs) ys"
  by (induction a xs rule: digits_value.induct) simp_all

lemma digits_value_digits10: "digits_value 0 (digits10 n) = n"
proof (induction n rule: digits10.induct)
  case (1 n)
  then show ?case
    by (cases "n < 10") (simp_all add: digits10.simps [of n] digits_value_append)
qed

lemma parse_digits_map:
  "\<forall>d \<in> set ds. d < 10 \<Longrightarrow> parse_digits acc (map digit_char ds) = Some (digits_value acc ds)"
  by (induction acc ds rule: digits_value.induct) (simp_all add: char_digit_inverse)

lemma parse_show_nat: "parse_digits 0 (show_nat n) = Some n"
  by (simp add: show_nat_def parse_digits_map digits10_small digits_value_digits10)

subsection \<open>Decimal literals\<close>

text \<open>
  \<open>parse_decimal\<close> reads a plain decimal literal: an optional sign, at least one digit, and
  optionally a point followed by digits. The result is the number it denotes.
\<close>

fun split_point :: "string \<Rightarrow> string \<times> string option" where
  "split_point [] = ([], None)"
| "split_point (c # cs) =
     (if c = CHR ''.'' then ([], Some cs)
      else (case split_point cs of (a, b) \<Rightarrow> (c # a, b)))"

definition parse_unsigned :: "string \<Rightarrow> rat option" where
  "parse_unsigned s =
     (case split_point s of
        (ip, None) \<Rightarrow> (if ip = [] then None else map_option of_nat (parse_digits 0 ip))
      | (ip, Some fp) \<Rightarrow>
          (if ip = [] \<or> fp = [] then None
           else map_option (\<lambda>m. of_nat m / 10 ^ length fp) (parse_digits 0 (ip @ fp))))"

definition parse_decimal :: "string \<Rightarrow> rat option" where
  "parse_decimal s =
     (case s of
        [] \<Rightarrow> None
      | c # cs \<Rightarrow> if c = CHR ''-'' then map_option uminus (parse_unsigned cs)
                  else parse_unsigned s)"

text \<open>
  The number of decimals of a rational whose denominator divides a power of ten, and the
  plain decimal literal \<open>FormatFloat(x, 'f', -1, 64)\<close> prints.
\<close>

fun places_from :: "nat \<Rightarrow> nat \<Rightarrow> nat \<Rightarrow> nat" where
  "places_from 0 q k = k"
| "places_from (Suc n) q k = (if q dvd 10 ^ k then k else places_from n q (Suc k))"

definition places :: "rat \<Rightarrow> nat" where
  "places x = (let q = nat (snd (quotient_of x)) in places_from q q 0)"

definition is_decimal :: "rat \<Rightarrow> bool" where
  "is_decimal x \<longleftrightarrow> nat (snd (quotient_of x)) dvd 10 ^ places x"

definition show_scaled :: "nat \<Rightarrow> nat \<Rightarrow> string" where
  "show_scaled m k =
     (if k = 0 then show_nat m
      else show_nat (m div 10 ^ k) @ ''.'' @
           map digit_char (replicate (k - length (digits10 (m mod 10 ^ k))) 0 @ digits10 (m mod 10 ^ k)))"

definition FormatFloat :: "float64 \<Rightarrow> string" where
  "FormatFloat x =
     (let k = places x; m = nat \<lfloor>\<bar>x\<bar> * 10 ^ k\<rfloor>
      in if x < 0 then ''-'' @ show_scaled m k else show_scaled m k)"

text \<open>\<open>FormatFloat(x, 'f', 0, 64)\<close>: no decimals, ties to even.\<close>

definition FormatFloat0 :: "float64 \<Rightarrow> string" where
  "FormatFloat0 x = show_int (round_half_even x)"

lemma char_digit_not_point: "char_digit c = Some d \<Longrightarrow> c \<noteq> CHR ''.'' \<and> c \<noteq> CHR ''-''"
  by (auto simp: char_digit_def Let_def split: if_splits)

lemma digit_char_not_point: "d < 10 \<Longrightarrow> digit_char d \<noteq> CHR ''.'' \<and> digit_char d \<noteq> CHR ''-''"
  using char_digit_inverse char_digit_not_point by blast

lemma split_point_none: "CHR ''.'' \<notin> set s \<Longrightarrow> split_point s = (s, None)"
  by (induction s) auto

lemma split_point_some: "CHR ''.'' \<notin> set s \<Longrightarrow> split_point (s @ CHR ''.'' # t) = (s, Some t)"
  by (induction s) auto

lemma show_nat_no_point: "CHR ''.'' \<notin> set (show_nat n)" and show_nat_no_minus: "CHR ''-'' \<notin> set (show_nat n)"
  using digits10_small [of n] digit_char_not_point by (fastforce simp: show_nat_def)+

lemma show_nat_nonempty [simp]: "show_nat n \<noteq> []"
  by (simp add: show_nat_def digits10_nonempty)

lemma digits_value_zeros: "digits_value a (replicate n 0) = a * 10 ^ n"
  by (induction n arbitrary: a) (simp_all add: algebra_simps)

lemma digits_value_shift: "digits_value a ds = a * 10 ^ length ds + digits_value 0 ds"
proof (induction ds arbitrary: a)
  case (Cons d ds)
  have "digits_value a (d # ds) = (10 * a + d) * 10 ^ length ds + digits_value 0 ds"
    using Cons.IH [of "10 * a + d"] by simp
  moreover have "digits_value 0 (d # ds) = d * 10 ^ length ds + digits_value 0 ds"
    using Cons.IH [of d] by simp
  ultimately show ?case by (simp add: algebra_simps)
qed simp

lemma length_digits10: "n < 10 ^ k \<Longrightarrow> 0 < k \<Longrightarrow> length (digits10 n) \<le> k"
proof (induction n arbitrary: k rule: digits10.induct)
  case (1 n)
  show ?case
  proof (cases "n < 10")
    case True
    with "1.prems" show ?thesis by (simp add: digits10.simps [of n])
  next
    case False
    with "1.prems" obtain j where k: "k = Suc j" and "0 < j" by (cases k; cases "k - 1") auto
    moreover from "1.prems" k have "n div 10 < 10 ^ j" by (simp add: less_mult_imp_div_less mult.commute)
    ultimately have "length (digits10 (n div 10)) \<le> j" using "1.IH" False by blast
    with False k show ?thesis by (simp add: digits10.simps [of n])
  qed
qed

text \<open>Printing a scaled integer and parsing it back gives the same number.\<close>

lemma parse_show_scaled: "parse_unsigned (show_scaled m k) = Some (of_nat m / 10 ^ k)"
proof (cases "k = 0")
  case True
  then show ?thesis
    by (simp add: show_scaled_def parse_unsigned_def split_point_none show_nat_no_point parse_show_nat)
next
  case False
  let ?r = "m mod 10 ^ k" and ?q = "m div 10 ^ k"
  let ?ds = "replicate (k - length (digits10 ?r)) 0 @ digits10 ?r"
  have len: "length ?ds = k" using length_digits10 [of ?r k] False by simp
  have small: "\<forall>d \<in> set (digits10 ?q @ ?ds). d < 10"
    using digits10_small [of ?q] digits10_small [of ?r] by auto
  have "digits_value 0 ?ds = ?r"
    by (simp add: digits_value_append digits_value_zeros digits_value_digits10)
  then have v: "digits_value ?q ?ds = m"
    using digits_value_shift [of ?q ?ds] len by (metis div_mult_mod_eq)
  have "parse_digits 0 (show_nat ?q @ map digit_char ?ds) = Some m"
    using parse_digits_map [OF small, of 0] v
    by (simp add: show_nat_def digits_value_append [of _ "digits10 ?q"] digits_value_digits10 del: append_assoc)
  moreover have "split_point (show_scaled m k) = (show_nat ?q, Some (map digit_char ?ds))"
    using False split_point_some [OF show_nat_no_point, of ?q] by (simp add: show_scaled_def)
  ultimately show ?thesis using len False by (auto simp: parse_unsigned_def)
qed

lemma show_scaled_head: "\<exists>c cs. show_scaled m k = c # cs \<and> c \<noteq> CHR ''-''"
proof -
  have "\<exists>c cs. show_nat n = c # cs \<and> c \<noteq> CHR ''-''" for n
    using show_nat_no_minus [of n] show_nat_nonempty [of n] by (cases "show_nat n") auto
  then show ?thesis by (auto simp: show_scaled_def) (metis append_Cons)
qed

lemma parse_decimal_show: "parse_decimal (show_scaled m k) = Some (of_nat m / 10 ^ k)"
  and parse_decimal_show_neg: "parse_decimal (CHR ''-'' # show_scaled m k) = Some (- (of_nat m / 10 ^ k))"
  using show_scaled_head [of m k] parse_show_scaled [of m k]
  by (auto simp: parse_decimal_def split: list.splits)

text \<open>\<open>FormatFloat\<close> prints a literal that denotes the float it was given.\<close>

lemma is_decimal_scaled:
  assumes "is_decimal x"
  shows "of_nat (nat \<lfloor>\<bar>x\<bar> * 10 ^ places x\<rfloor>) = \<bar>x\<bar> * 10 ^ places x"
proof -
  obtain p q where pq: "quotient_of x = (p, q)" by force
  then have q: "0 < q" and x: "x = of_int p / of_int q"
    by (auto simp: quotient_of_denom_pos quotient_of_div)
  from assms pq obtain c where c: "10 ^ places x = nat q * c" by (auto simp: is_decimal_def dvd_def)
  have "(10 :: rat) ^ places x = of_nat (nat q) * of_nat c"
    using arg_cong [OF c, of "of_nat :: nat \<Rightarrow> rat"] by simp
  then have "\<bar>x\<bar> * 10 ^ places x = of_int (\<bar>p\<bar> * int c)" using q by (simp add: x)
  then show ?thesis by (simp add: of_nat_nat)
qed

text \<open>Every rational with a power-of-ten denominator is a decimal in this sense.\<close>

lemma dvd_pow10_bound: "0 < q \<Longrightarrow> q dvd 10 ^ k \<Longrightarrow> (q :: nat) dvd 10 ^ q"
proof (induction q rule: less_induct)
  case (less q)
  show ?case
  proof (cases "q = 1")
    case False
    define p where "p = gcd q 10"
    have p10: "p dvd 10" and "p dvd q" by (simp_all add: p_def)
    then obtain r where r: "q = p * r" by (auto elim: dvdE)
    have "p \<noteq> 1"
    proof
      assume "p = 1"
      then have "coprime q 10" by (simp add: p_def coprime_iff_gcd_eq_1)
      then have "coprime q (10 ^ k)" by simp
      with less.prems False show False by (metis coprime_absorb_left nat_dvd_1_iff_1)
    qed
    then have "1 < p" by (cases p) (auto simp: p_def)
    with r less.prems have "r < q" "0 < r" by auto
    moreover have "r dvd 10 ^ k" using r less.prems dvd_mult_right by blast
    ultimately have "r dvd 10 ^ r" using less.IH by blast
    then have "q dvd 10 ^ Suc r" using p10 r by (simp add: mult_dvd_mono)
    moreover have "(10 :: nat) ^ Suc r dvd 10 ^ q" using \<open>r < q\<close> by (intro le_imp_power_dvd) simp
    ultimately show ?thesis using dvd_trans by blast
  qed simp
qed

lemma places_from_dvd: "q dvd 10 ^ (k + n) \<Longrightarrow> q dvd 10 ^ places_from n q k"
  by (induction n q k rule: places_from.induct) auto

lemma is_decimal_scaled_int: "is_decimal (of_int m / 10 ^ k)"
proof -
  let ?x = "of_int m / 10 ^ k :: rat"
  obtain a b where ab: "quotient_of ?x = (a, b)" by force
  then have b: "0 < b" and x: "?x = of_int a / of_int b" and co: "coprime a b"
    by (auto simp: quotient_of_denom_pos quotient_of_div quotient_of_coprime)
  have "of_int (m * b) = (of_int (a * 10 ^ k) :: rat)"
    using x b by (simp add: divide_simps)
  then have "m * b = a * 10 ^ k" by (simp only: of_int_eq_iff)
  then have "b dvd a * 10 ^ k" by (metis dvd_triv_right)
  then have "b dvd 10 ^ k" using co by (simp add: coprime_dvd_mult_right_iff coprime_commute)
  then have "nat b dvd 10 ^ k"
    using b by (metis int_dvd_int_iff int_nat_eq less_le_not_le of_nat_numeral of_nat_power)
  then have "nat b dvd 10 ^ nat b" using b by (intro dvd_pow10_bound [of _ k]) auto
  then show ?thesis
    using places_from_dvd [of "nat b" 0 "nat b"] by (simp add: is_decimal_def places_def ab Let_def)
qed

lemma parse_FormatFloat:
  assumes "is_decimal x"
  shows "parse_decimal (FormatFloat x) = Some x"
proof -
  have "of_nat (nat \<lfloor>\<bar>x\<bar> * 10 ^ places x\<rfloor>) / 10 ^ places x = \<bar>x\<bar>"
    by (simp add: is_decimal_scaled [OF assms])
  then show ?thesis
    by (cases "x < 0") (simp_all add: FormatFloat_def Let_def parse_decimal_show parse_decimal_show_neg)
qed

lemma show_int_scaled: "show_int i = (if i < 0 then ''-'' @ show_scaled (nat (- i)) 0 else show_scaled (nat i) 0)"
  by (simp add: show_int_def show_scaled_def)

lemma parse_show_int: "parse_decimal (show_int i) = Some (of_int i)"
  using parse_decimal_show [of "nat i" 0] parse_decimal_show_neg [of "nat (- i)" 0]
  by (auto simp: show_int_scaled)

lemma parse_FormatFloat0: "parse_decimal (FormatFloat0 x) = Some (of_int (round_half_even x))"
  by (simp add: FormatFloat0_def parse_show_int)

subsection \<open>The decimal package\<close>

text \<open>
  The operations of \<open>shopspring/decimal\<close> that the program calls, over an abstract type of
  decimals. \<open>NewFromBigInt(v, 0)\<close> is \<open>NewFromInt\<close> on unbounded integers; \<open>IsZero\<close> and
  \<open>IsNegative\<close> are tests of \<open>Sign\<close>.
\<close>

record 'd decimal =
  NewFromString :: "string \<Rightarrow> 'd option"
  NewFromFloat :: "float64 \<Rightarrow> 'd"
  NewFromInt :: "int \<Rightarrow> 'd"
  Add :: "'d \<Rightarrow> 'd \<Rightarrow> 'd"
  Sub :: "'d \<Rightarrow> 'd \<Rightarrow> 'd"
  Mul :: "'d \<Rightarrow> 'd \<Rightarrow> 'd"
  Div :: "'d \<Rightarrow> 'd \<Rightarrow> 'd"
  Cmp :: "'d \<Rightarrow> 'd \<Rightarrow> int"
  Sign :: "'d \<Rightarrow> int"
  Round0 :: "'d \<Rightarrow> 'd"
  RoundBank :: "'d \<Rightarrow> nat \<Rightarrow> 'd"
  BigInt :: "'d \<Rightarrow> int"
  IntPart :: "'d \<Rightarrow> int"
  String :: "'d \<Rightarrow> string"
  StringFixed :: "'d \<Rightarrow> nat \<Rightarrow> string"
  Float64 :: "'d \<Rightarrow> float64"

text \<open>
  The documented behaviour: construction, addition, subtraction, multiplication and
  comparison are exact; \<open>Div\<close> is rounded half away from zero at \<open>DivisionPrecision\<close> = 16
  decimals; \<open>Round\<close> rounds half away from zero and \<open>RoundBank\<close> half to even; \<open>BigInt\<close>
  truncates, and \<open>IntPart\<close> is its int64 (exact when the value fits); \<open>Float64\<close> is the
  nearest float, which identifies a decimal of at most 15 significant digits; \<open>String\<close> prints a literal of the value.
\<close>

locale decimal_pkg =
  fixes D :: "'d decimal" and val :: "'d \<Rightarrow> rat"
  assumes new_string: "parse_decimal s = Some q \<Longrightarrow> \<exists>d. NewFromString D s = Some d \<and> val d = q"
    and new_float: "val (NewFromFloat D x) = x"
    and new_int: "val (NewFromInt D n) = of_int n"
    and add: "val (Add D a b) = val a + val b"
    and sub: "val (Sub D a b) = val a - val b"
    and mul: "val (Mul D a b) = val a * val b"
    and div: "val b \<noteq> 0 \<Longrightarrow> val (Div D a b) = round_places round_half_away 16 (val a / val b)"
    and cmp: "Cmp D a b = (if val a < val b then - 1 else if val a = val b then 0 else 1)"
    and sign: "Sign D a = (if val a < 0 then - 1 else if val a = 0 then 0 else 1)"
    and round0: "val (Round0 D a) = of_int (round_half_away (val a))"
    and round_bank: "val (RoundBank D a k) = round_places round_half_even k (val a)"
    and big_int: "BigInt D a = trunc (val a)"
    and int_part: "\<bar>trunc (val a)\<bar> < 2 ^ 63 \<Longrightarrow> IntPart D a = trunc (val a)"
    and to_float: "val a * 10 ^ k = of_int n \<Longrightarrow> k \<le> 16 \<Longrightarrow> \<bar>n\<bar> < 10 ^ 15 \<Longrightarrow> Float64 D a = val a"
    and to_string: "of_int (trunc (val a)) = val a \<Longrightarrow> String D a = show_int (trunc (val a))"
    and string_parse: "is_decimal (val a) \<Longrightarrow> parse_decimal (String D a) = Some (val a)"
begin

lemma from_string: "NewFromString D s = Some d \<Longrightarrow> parse_decimal s = Some q \<Longrightarrow> val d = q"
  using new_string by fastforce

lemmas exact = new_float new_int add sub mul

lemma from_formatted:
  assumes "is_decimal x"
  obtains d where "NewFromString D (FormatFloat x) = Some d" "val d = x"
  using new_string [OF parse_FormatFloat [OF assms]] by blast

lemma from_formatted0:
  obtains d where "NewFromString D (FormatFloat0 x) = Some d" "val d = of_int (round_half_even x)"
  using new_string [OF parse_FormatFloat0] by blast

lemma div_exact:
  assumes "val b \<noteq> 0" and "val a / val b * 10 ^ 16 = of_int n"
  shows "val (Div D a b) = val a / val b"
proof -
  have "val (Div D a b) = of_int n / 10 ^ 16"
    using div [OF assms(1), of a] by (simp only: round_places_def assms(2) round_half_away_of_int)
  also have "\<dots> = (val a / val b * 10 ^ 16) / 10 ^ 16" by (simp only: assms(2))
  finally show ?thesis by simp
qed

lemma round0_int: "BigInt D (Round0 D a) = round_half_away (val a)"
  by (simp add: big_int round0)

end

text \<open>
  The reference decimals: rationals, with every operation as documented. They discharge the
  laws, so the contract is satisfiable, and they evaluate the witnesses.
\<close>

definition rat_cmp :: "rat \<Rightarrow> rat \<Rightarrow> int" where
  "rat_cmp a b = (if a < b then - 1 else if a = b then 0 else 1)"

definition rat_decimal :: "rat decimal" where
  "rat_decimal = \<lparr>
     NewFromString = parse_decimal, NewFromFloat = (\<lambda>x. x), NewFromInt = of_int,
     Add = (+), Sub = (-), Mul = (*), Div = (\<lambda>a b. round_places round_half_away 16 (a / b)),
     Cmp = rat_cmp, Sign = (\<lambda>a. rat_cmp a 0), Round0 = (\<lambda>a. of_int (round_half_away a)),
     RoundBank = (\<lambda>a k. round_places round_half_even k a), BigInt = trunc, IntPart = trunc,
     String = (\<lambda>a. if of_int (trunc a) = a then show_int (trunc a) else FormatFloat a),
     StringFixed = (\<lambda>a k. FormatFloat (round_places round_half_away k a)),
     Float64 = (\<lambda>a. a) \<rparr>"

interpretation ratdec: decimal_pkg rat_decimal "\<lambda>x. x"
proof
  show "is_decimal a \<Longrightarrow> parse_decimal (String rat_decimal a) = Some a" for a
    using parse_show_int [of "trunc a"] parse_FormatFloat [of a] by (simp add: rat_decimal_def)
qed (auto simp: rat_decimal_def rat_cmp_def)

end
