(* ===== verification/Balances.thy ===== *)
theory Balances
  imports Decimals
begin

text \<open>
  The balance arithmetic of \<open>model/balance.go\<close> and \<open>model/model.go\<close>: the \<open>Balance\<close> and
  \<open>Transaction\<close> structs, precision handling, the funds check, and the functions that move
  an amount between the credit, debit and inflight fields. Pointers to \<open>big.Int\<close> that may be
  nil are options; functions that mutate through a pointer return the new value. Times are
  nanoseconds since Go's zero time, so the zero time is 0.
\<close>

subsection \<open>Data\<close>

text \<open>
  The fields the modelled operations read or write. Left out are the surrogate row number
  \<open>ID\<close>, the unused \<open>SkipBalanceUpdate\<close> and \<open>GroupIds\<close>, and the balance's joined \<open>Identity\<close>,
  \<open>Ledger\<close>, \<open>InflightExpiresAt\<close> and \<open>MetaData\<close>, which no modelled operation consults.
\<close>

datatype json = JNull | JBool bool | JNum rat | JStr string | JList "json list" | JInt int | JObj "(string \<times> json) list"

type_synonym metadata = "(string \<rightharpoonup> json) option"

record Distribution =
  d_Identifier :: string
  d_Distribution :: string
  d_PreciseDistribution :: string
  d_TransactionID :: string

record Transaction =
  t_PreciseAmount :: "int option"
  t_Amount :: float64
  t_AmountString :: string
  t_Precision :: float64
  t_OverdraftLimit :: float64
  t_TransactionID :: string
  t_ParentTransaction :: string
  t_Source :: string
  t_Destination :: string
  t_Reference :: string
  t_Currency :: string
  t_Description :: string
  t_Status :: string
  t_Hash :: string
  t_AllowOverdraft :: bool
  t_Inflight :: bool
  t_SkipQueue :: bool
  t_Atomic :: bool
  t_Sources :: "Distribution list"
  t_Destinations :: "Distribution list"
  t_CreatedAt :: int
  t_EffectiveDate :: "int option"
  t_ScheduledFor :: int
  t_InflightExpiryDate :: int
  t_InflightCommitDate :: int
  t_MetaData :: metadata

record Balance =
  b_BalanceID :: string
  b_Balance :: "int option"
  b_Version :: int
  b_InflightBalance :: "int option"
  b_CreditBalance :: "int option"
  b_InflightCreditBalance :: "int option"
  b_DebitBalance :: "int option"
  b_InflightDebitBalance :: "int option"
  b_QueuedDebitBalance :: "int option"
  b_QueuedCreditBalance :: "int option"
  b_LedgerID :: string
  b_IdentityID :: string
  b_Indicator :: string
  b_Currency :: string
  b_CreatedAt :: int
  b_TrackFundLineage :: bool
  b_AllocationStrategy :: string
  b_AccountRef :: string
  b_Instrument :: string
  b_SettleDate :: "int option"
  b_SettleCode :: "int option"
  b_WAPrice :: string

record AlertCondition =
  a_PreciseValue :: "int option"
  a_Field :: string
  a_Operator :: string

text \<open>The zero value of each struct (Go composite literals set the named fields on it).\<close>

definition zero_Transaction :: Transaction where
  "zero_Transaction = \<lparr>t_PreciseAmount = None, t_Amount = 0, t_AmountString = [], t_Precision = 0,
     t_OverdraftLimit = 0, t_TransactionID = [], t_ParentTransaction = [], t_Source = [],
     t_Destination = [], t_Reference = [], t_Currency = [], t_Description = [], t_Status = [],
     t_Hash = [], t_AllowOverdraft = False, t_Inflight = False, t_SkipQueue = False,
     t_Atomic = False, t_Sources = [], t_Destinations = [], t_CreatedAt = 0,
     t_EffectiveDate = None, t_ScheduledFor = 0, t_InflightExpiryDate = 0,
     t_InflightCommitDate = 0, t_MetaData = None\<rparr>"

definition zero_Balance :: Balance where
  "zero_Balance = \<lparr>b_BalanceID = [], b_Balance = None, b_Version = 0, b_InflightBalance = None,
     b_CreditBalance = None, b_InflightCreditBalance = None, b_DebitBalance = None,
     b_InflightDebitBalance = None, b_QueuedDebitBalance = None, b_QueuedCreditBalance = None,
     b_LedgerID = [], b_IdentityID = [], b_Indicator = [], b_Currency = [], b_CreatedAt = 0,
     b_TrackFundLineage = False, b_AllocationStrategy = [], b_AccountRef = [], b_Instrument = [],
     b_SettleDate = None, b_SettleCode = None, b_WAPrice = []\<rparr>"

subsection \<open>Fields that may be nil\<close>

definition or0 :: "int option \<Rightarrow> int" where
  "or0 x = (case x of None \<Rightarrow> 0 | Some v \<Rightarrow> v)"

lemma or0_simps [simp]: "or0 None = 0" "or0 (Some v) = v"
  by (simp_all add: or0_def)

definition InitializeBalanceFields :: "Balance \<Rightarrow> Balance" where
  "InitializeBalanceFields b = b\<lparr>
     b_InflightDebitBalance := Some (or0 (b_InflightDebitBalance b)),
     b_InflightCreditBalance := Some (or0 (b_InflightCreditBalance b)),
     b_InflightBalance := Some (or0 (b_InflightBalance b)),
     b_DebitBalance := Some (or0 (b_DebitBalance b)),
     b_CreditBalance := Some (or0 (b_CreditBalance b)),
     b_Balance := Some (or0 (b_Balance b))\<rparr>"

definition addCredit :: "int \<Rightarrow> bool \<Rightarrow> Balance \<Rightarrow> Balance" where
  "addCredit amount inflight b0 =
     (let b = InitializeBalanceFields b0
      in if inflight
         then b\<lparr>b_InflightCreditBalance := Some (or0 (b_InflightCreditBalance b) + amount)\<rparr>
         else b\<lparr>b_CreditBalance := Some (or0 (b_CreditBalance b) + amount)\<rparr>)"

definition addDebit :: "int \<Rightarrow> bool \<Rightarrow> Balance \<Rightarrow> Balance" where
  "addDebit amount inflight b0 =
     (let b = InitializeBalanceFields b0
      in if inflight
         then b\<lparr>b_InflightDebitBalance := Some (or0 (b_InflightDebitBalance b) + amount)\<rparr>
         else b\<lparr>b_DebitBalance := Some (or0 (b_DebitBalance b) + amount)\<rparr>)"

definition computeBalance :: "bool \<Rightarrow> Balance \<Rightarrow> Balance" where
  "computeBalance inflight b0 =
     (let b = InitializeBalanceFields b0
      in if inflight
         then b\<lparr>b_InflightBalance := Some (or0 (b_InflightCreditBalance b) - or0 (b_InflightDebitBalance b))\<rparr>
         else b\<lparr>b_Balance := Some (or0 (b_CreditBalance b) - or0 (b_DebitBalance b))\<rparr>)"

subsection \<open>Precision\<close>

text \<open>\<open>big.Int.SetString(s, 10)\<close>: an optional sign and decimal digits.\<close>

definition SetString10 :: "string \<Rightarrow> int option" where
  "SetString10 s =
     (case s of
        [] \<Rightarrow> None
      | c # cs \<Rightarrow>
          if c = CHR ''-'' then (if cs = [] then None else map_option (\<lambda>n. - int n) (parse_digits 0 cs))
          else if c = CHR ''+'' then (if cs = [] then None else map_option int (parse_digits 0 cs))
          else map_option int (parse_digits 0 s))"

lemma SetString10_show_int [simp]: "SetString10 (show_int i) = Some i"
proof -
  have "SetString10 (show_nat n) = Some (int n)" for n
  proof -
    obtain c cs where c: "show_nat n = c # cs" "char_digit c \<noteq> None"
      using parse_show_nat [of n] show_nat_nonempty [of n]
      by (cases "show_nat n") (auto split: option.splits)
    then have "c \<noteq> CHR ''-''" "c \<noteq> CHR ''+''" by (auto simp: char_digit_def Let_def)
    with c parse_show_nat [of n] show ?thesis by (simp add: SetString10_def)
  qed
  moreover have "SetString10 (CHR ''-'' # show_nat n) = Some (- int n)" for n
    by (simp add: SetString10_def parse_show_nat)
  ultimately show ?thesis by (simp add: show_int_def)
qed

text \<open>\<open>d, _ := decimal.NewFromString(s)\<close>: a failed parse leaves the zero decimal.\<close>

definition dec_or_zero :: "'d decimal \<Rightarrow> string \<Rightarrow> 'd" where
  "dec_or_zero D s = (case NewFromString D s of Some d \<Rightarrow> d | None \<Rightarrow> NewFromInt D 0)"

definition convertPreciseToDecimal :: "'d decimal \<Rightarrow> Transaction \<Rightarrow> Transaction" where
  "convertPreciseToDecimal D t =
     (let preciseAmountDec = dec_or_zero D (show_int (or0 (t_PreciseAmount t)));
          precisionDec = NewFromFloat D (t_Precision t);
          resultDec = Div D preciseAmountDec precisionDec
      in t\<lparr>t_AmountString := String D resultDec, t_Amount := Float64 D resultDec\<rparr>)"

definition convertDecimalToPrecise :: "'d decimal \<Rightarrow> Transaction \<Rightarrow> int" where
  "convertDecimalToPrecise D t =
     (let amountDec = dec_or_zero D (FormatFloat (t_Amount t));
          precisionDec = dec_or_zero D (FormatFloat0 (t_Precision t));
          preciseAmount = Round0 D (Mul D amountDec precisionDec)
      in or0 (SetString10 (String D preciseAmount)))"

definition applyPrecisionLogic :: "'d decimal \<Rightarrow> Transaction \<Rightarrow> Transaction" where
  "applyPrecisionLogic D t0 =
     (let t = (if t_Precision t0 = 0 then t0\<lparr>t_Precision := 1\<rparr> else t0)
      in case t_PreciseAmount t of
           Some p \<Rightarrow> if 0 < p then convertPreciseToDecimal D t
                     else t\<lparr>t_PreciseAmount := Some (convertDecimalToPrecise D t)\<rparr>
         | None \<Rightarrow> t\<lparr>t_PreciseAmount := Some (convertDecimalToPrecise D t)\<rparr>)"

text \<open>\<open>ApplyPrecision\<close> returns the transaction's new \<open>PreciseAmount\<close>, read off the result.\<close>

definition ApplyPrecision :: "'d decimal \<Rightarrow> Transaction \<Rightarrow> Transaction" where
  "ApplyPrecision D t =
     applyPrecisionLogic D (if t_Precision t = 0 then t\<lparr>t_Precision := 1\<rparr> else t)"

definition validate :: "Transaction \<Rightarrow> unit res" where
  "validate t =
     (case t_PreciseAmount t of
        Some p \<Rightarrow> if p \<le> 0 then Inl (Errorf ''transaction precise amount must be positive'') else Inr ()
      | None \<Rightarrow> if t_Amount t \<le> 0 then Inl (Errorf ''transaction amount must be positive'') else Inr ())"

subsection \<open>The funds check\<close>

definition availableBalance :: "Balance \<Rightarrow> int" where
  "availableBalance b =
     (let available = or0 (b_Balance b) - or0 (b_InflightDebitBalance b)
      in case b_QueuedDebitBalance b of None \<Rightarrow> available | Some q \<Rightarrow> available - q)"

definition overdraftLimitPrecise :: "'d decimal \<Rightarrow> Transaction \<Rightarrow> int" where
  "overdraftLimitPrecise D t =
     IntPart D (Round0 D (Mul D (NewFromFloat D (t_OverdraftLimit t)) (NewFromFloat D (t_Precision t))))"

text \<open>The result is the source balance with its nil fields initialised, as the code leaves it.\<close>

definition canProcessTransaction :: "'d decimal \<Rightarrow> Transaction \<Rightarrow> Balance \<Rightarrow> Balance res" where
  "canProcessTransaction D t b0 =
     (if t_AllowOverdraft t \<and> t_OverdraftLimit t = 0 then Inr b0
      else let b = InitializeBalanceFields b0 in
        case t_PreciseAmount t of
          None \<Rightarrow> Inl NilPanic
        | Some amount \<Rightarrow>
            if amount \<le> availableBalance b then Inr b
            else if 0 < t_OverdraftLimit t then
              (if - overdraftLimitPrecise D t \<le> availableBalance b - amount then Inr b
               else Inl (Errorf ''transaction exceeds overdraft limit''))
            else Inl (Errorf ''insufficient funds in source balance''))"

subsection \<open>Inflight holds\<close>

definition checkSufficientInflightDebit :: "int \<Rightarrow> Balance \<Rightarrow> unit res" where
  "checkSufficientInflightDebit amount b =
     (if or0 (b_InflightDebitBalance b) < amount
      then Inl (Errorf (''insufficient inflight debit balance: have '' @
             show_int (or0 (b_InflightDebitBalance b)) @ '', need '' @ show_int amount))
      else Inr ())"

definition checkSufficientInflightCredit :: "int \<Rightarrow> Balance \<Rightarrow> unit res" where
  "checkSufficientInflightCredit amount b =
     (if or0 (b_InflightCreditBalance b) < amount
      then Inl (Errorf (''insufficient inflight credit balance: have '' @
             show_int (or0 (b_InflightCreditBalance b)) @ '', need '' @ show_int amount))
      else Inr ())"

definition CommitInflightDebit :: "'d decimal \<Rightarrow> Transaction \<Rightarrow> Balance \<Rightarrow> (Transaction \<times> Balance) res" where
  "CommitInflightDebit D t0 b0 =
     (let b = InitializeBalanceFields b0; t = ApplyPrecision D t0; amount = or0 (t_PreciseAmount t)
      in case checkSufficientInflightDebit amount b of
           Inl e \<Rightarrow> Inl e
         | Inr _ \<Rightarrow> Inr (t, computeBalance False (computeBalance True
             (b\<lparr>b_InflightDebitBalance := Some (or0 (b_InflightDebitBalance b) - amount),
                b_DebitBalance := Some (or0 (b_DebitBalance b) + amount)\<rparr>))))"

definition CommitInflightCredit :: "'d decimal \<Rightarrow> Transaction \<Rightarrow> Balance \<Rightarrow> (Transaction \<times> Balance) res" where
  "CommitInflightCredit D t0 b0 =
     (let b = InitializeBalanceFields b0; t = ApplyPrecision D t0; amount = or0 (t_PreciseAmount t)
      in case checkSufficientInflightCredit amount b of
           Inl e \<Rightarrow> Inl e
         | Inr _ \<Rightarrow> Inr (t, computeBalance False (computeBalance True
             (b\<lparr>b_InflightCreditBalance := Some (or0 (b_InflightCreditBalance b) - amount),
                b_CreditBalance := Some (or0 (b_CreditBalance b) + amount)\<rparr>))))"

definition RollbackInflightCredit :: "int \<Rightarrow> Balance \<Rightarrow> Balance res" where
  "RollbackInflightCredit amount b0 =
     (let b = InitializeBalanceFields b0
      in case checkSufficientInflightCredit amount b of
           Inl e \<Rightarrow> Inl e
         | Inr _ \<Rightarrow> Inr (computeBalance True
             (b\<lparr>b_InflightCreditBalance := Some (or0 (b_InflightCreditBalance b) - amount)\<rparr>)))"

definition RollbackInflightDebit :: "int \<Rightarrow> Balance \<Rightarrow> Balance res" where
  "RollbackInflightDebit amount b0 =
     (let b = InitializeBalanceFields b0
      in case checkSufficientInflightDebit amount b of
           Inl e \<Rightarrow> Inl e
         | Inr _ \<Rightarrow> Inr (computeBalance True
             (b\<lparr>b_InflightDebitBalance := Some (or0 (b_InflightDebitBalance b) - amount)\<rparr>)))"

subsection \<open>UpdateBalances\<close>

text \<open>
  \<open>UpdateBalances(transaction, source, destination)\<close> mutates two balances through pointers,
  which may be the same pointer. The pointers are addresses into a heap of balances, so the
  debit is visible to the credit when they alias.
\<close>

definition UpdateBalances ::
    "'d decimal \<Rightarrow> Transaction \<Rightarrow> 'a \<Rightarrow> 'a \<Rightarrow> ('a \<Rightarrow> Balance) \<Rightarrow> (Transaction \<times> ('a \<Rightarrow> Balance)) res" where
  "UpdateBalances D t0 source destination h0 =
     (let t = ApplyPrecision D t0 in
      case validate t of
        Inl e \<Rightarrow> Inl e
      | Inr _ \<Rightarrow>
        (case canProcessTransaction D t (h0 source) of
           Inl e \<Rightarrow> Inl e
         | Inr b \<Rightarrow>
           let h1 = h0(source := b);
               h2 = h1(source := InitializeBalanceFields (h1 source));
               h3 = h2(destination := InitializeBalanceFields (h2 destination));
               amount = or0 (t_PreciseAmount t);
               h4 = h3(source := addDebit amount (t_Inflight t) (h3 source));
               h5 = h4(source := computeBalance (t_Inflight t) (h4 source));
               h6 = h5(destination := addCredit amount (t_Inflight t) (h5 destination));
               h7 = h6(destination := computeBalance (t_Inflight t) (h6 destination))
           in Inr (t, h7)))"

subsection \<open>Balance monitors\<close>

definition compare :: "int \<Rightarrow> string \<Rightarrow> int \<Rightarrow> bool" where
  "compare v condition compareTo =
     (if condition = ''>'' then compareTo < v
      else if condition = ''<'' then v < compareTo
      else if condition = ''>='' then compareTo \<le> v
      else if condition = ''<='' then v \<le> compareTo
      else if condition = ''!='' then v \<noteq> compareTo
      else if condition = ''=='' then v = compareTo
      else False)"

text \<open>Comparing a nil balance field or against a nil value panics.\<close>

definition compare_ptr :: "int option \<Rightarrow> string \<Rightarrow> int option \<Rightarrow> bool res" where
  "compare_ptr v c w = (case (v, w) of (Some x, Some y) \<Rightarrow> Inr (compare x c y) | _ \<Rightarrow> Inl NilPanic)"

definition CheckCondition :: "AlertCondition \<Rightarrow> Balance \<Rightarrow> bool res" where
  "CheckCondition c b =
     (if a_Field c = ''debit_balance'' then compare_ptr (b_DebitBalance b) (a_Operator c) (a_PreciseValue c)
      else if a_Field c = ''credit_balance'' then compare_ptr (b_CreditBalance b) (a_Operator c) (a_PreciseValue c)
      else if a_Field c = ''balance'' then compare_ptr (b_Balance b) (a_Operator c) (a_PreciseValue c)
      else if a_Field c = ''inflight_debit_balance'' then compare_ptr (b_InflightDebitBalance b) (a_Operator c) (a_PreciseValue c)
      else if a_Field c = ''inflight_credit_balance'' then compare_ptr (b_InflightCreditBalance b) (a_Operator c) (a_PreciseValue c)
      else if a_Field c = ''inflight_balance'' then compare_ptr (b_InflightBalance b) (a_Operator c) (a_PreciseValue c)
      else Inr False)"

subsection \<open>Precision looked up in the database\<close>

text \<open>
  The process-wide precision cache (entries are immutable, a reset only forces a refetch).
  The query \<open>SELECT precision ... WHERE transaction_id = $1 OR parent_transaction = $1
  LIMIT 1\<close> is the argument \<open>query\<close>: \<open>Inl\<close> a driver error (\<open>SqlErrNoRows\<close> when nothing matches).
\<close>

type_synonym precision_cache = "(string \<times> float64) list"

definition precisionCacheMaxEntries :: nat where
  "precisionCacheMaxEntries = 100000"

definition getCachedPrecision :: "string \<Rightarrow> precision_cache \<Rightarrow> float64 option" where
  "getCachedPrecision k c = map_of c k"

definition setCachedPrecision :: "string \<Rightarrow> float64 \<Rightarrow> precision_cache \<Rightarrow> precision_cache" where
  "setCachedPrecision k p c0 =
     (let c = (if precisionCacheMaxEntries \<le> length c0 then [] else c0)
      in (k, p) # filter (\<lambda>e. fst e \<noteq> k) c)"

definition fetchTransactionPrecisionFromDB ::
    "(string \<Rightarrow> float64 res) \<Rightarrow> string \<Rightarrow> precision_cache \<Rightarrow> precision_cache \<times> float64 option res" where
  "fetchTransactionPrecisionFromDB query k c =
     (case getCachedPrecision k c of
        Some p \<Rightarrow> (c, Inr (Some p))
      | None \<Rightarrow>
          (case query k of
             Inl e \<Rightarrow> if e = SqlErrNoRows then (c, Inr None) else (c, Inl e)
           | Inr p \<Rightarrow> if p \<le> 0 then (c, Inr None) else (setCachedPrecision k p c, Inr (Some p))))"

definition ApplyPrecisionWithDBLookup ::
    "'d decimal \<Rightarrow> (string \<Rightarrow> float64 res) option \<Rightarrow> Transaction \<Rightarrow> precision_cache
       \<Rightarrow> precision_cache \<times> Transaction" where
  "ApplyPrecisionWithDBLookup D db t c0 =
     (let (c, r) = (case db of
            Some query \<Rightarrow> if t_TransactionID t \<noteq> []
                          then fetchTransactionPrecisionFromDB query (t_TransactionID t) c0 else (c0, Inr None)
          | None \<Rightarrow> (c0, Inr None));
          local = (if t_Precision t = 0 then t\<lparr>t_Precision := 1\<rparr> else t);
          t' = (case r of
                  Inr (Some p) \<Rightarrow> if 0 < p then t\<lparr>t_Precision := p\<rparr> else local
                | _ \<Rightarrow> local)
      in (c, applyPrecisionLogic D t'))"

text \<open>The transaction hash: \<open>H\<close> is hex-encoded SHA-256.\<close>

definition HashTxn :: "(string \<Rightarrow> string) \<Rightarrow> Transaction \<Rightarrow> string" where
  "HashTxn H t = H (FormatFloat (t_Amount t) @ t_Reference t @ t_Currency t @ t_Source t @ t_Destination t)"

text \<open>\<open>ExternalTransaction.ToInternalTransaction\<close>.\<close>

record ExternalTransaction =
  x_ID :: string
  x_Amount :: float64
  x_Reference :: string
  x_Currency :: string
  x_Description :: string
  x_Date :: int
  x_Source :: string

definition ToInternalTransaction :: "ExternalTransaction \<Rightarrow> Transaction" where
  "ToInternalTransaction et = zero_Transaction\<lparr>t_TransactionID := x_ID et, t_Amount := x_Amount et,
     t_Reference := x_Reference et, t_Currency := x_Currency et, t_CreatedAt := x_Date et,
     t_Description := x_Description et\<rparr>"

section \<open>Facts\<close>

text \<open>The numeric fields with nil read as zero.\<close>

abbreviation cr :: "Balance \<Rightarrow> int" where "cr b \<equiv> or0 (b_CreditBalance b)"
abbreviation dr :: "Balance \<Rightarrow> int" where "dr b \<equiv> or0 (b_DebitBalance b)"
abbreviation icr :: "Balance \<Rightarrow> int" where "icr b \<equiv> or0 (b_InflightCreditBalance b)"
abbreviation idr :: "Balance \<Rightarrow> int" where "idr b \<equiv> or0 (b_InflightDebitBalance b)"
abbreviation bal :: "Balance \<Rightarrow> int" where "bal b \<equiv> or0 (b_Balance b)"
abbreviation ibal :: "Balance \<Rightarrow> int" where "ibal b \<equiv> or0 (b_InflightBalance b)"

text \<open>
  The invariant of a balance row: the net fields are the difference of the gross fields.
  \<open>holds_ok\<close> adds that no hold is negative.
\<close>

definition consistent :: "Balance \<Rightarrow> bool" where
  "consistent b \<longleftrightarrow> bal b = cr b - dr b \<and> ibal b = icr b - idr b"

definition holds_ok :: "Balance \<Rightarrow> bool" where
  "holds_ok b \<longleftrightarrow> consistent b \<and> 0 \<le> icr b \<and> 0 \<le> idr b"

definition initialised :: "Balance \<Rightarrow> bool" where
  "initialised b \<longleftrightarrow> InitializeBalanceFields b = b"

lemmas balance_ops [ledger_simps] =
  InitializeBalanceFields_def addCredit_def addDebit_def computeBalance_def Let_def

lemma Init_idem [simp]: "InitializeBalanceFields (InitializeBalanceFields b) = InitializeBalanceFields b"
  by (simp add: InitializeBalanceFields_def)

lemma Init_absorbed [simp]:
  "addCredit a i (InitializeBalanceFields b) = addCredit a i b"
  "addDebit a i (InitializeBalanceFields b) = addDebit a i b"
  "InitializeBalanceFields (addCredit a i b) = addCredit a i b"
  "InitializeBalanceFields (addDebit a i b) = addDebit a i b"
  "InitializeBalanceFields (computeBalance i b) = computeBalance i b"
  by (simp_all add: ledger_simps)

lemma Init_fields [simp]:
  "cr (InitializeBalanceFields b) = cr b" "dr (InitializeBalanceFields b) = dr b"
  "icr (InitializeBalanceFields b) = icr b" "idr (InitializeBalanceFields b) = idr b"
  "bal (InitializeBalanceFields b) = bal b" "ibal (InitializeBalanceFields b) = ibal b"
  "b_QueuedDebitBalance (InitializeBalanceFields b) = b_QueuedDebitBalance b"
  by (simp_all add: InitializeBalanceFields_def)

lemma availableBalance_Init [simp]: "availableBalance (InitializeBalanceFields b) = availableBalance b"
  by (simp add: availableBalance_def)

lemma availableBalance_eq:
  "availableBalance b = bal b - idr b - or0 (b_QueuedDebitBalance b)"
  by (simp add: availableBalance_def Let_def split: option.splits)

lemma ApplyPrecision_precise: "\<exists>a. t_PreciseAmount (ApplyPrecision D t) = Some a"
  by (auto simp: ApplyPrecision_def applyPrecisionLogic_def convertPreciseToDecimal_def Let_def
      split: option.splits)

lemma ApplyPrecision_keeps [simp]:
  "t_Inflight (ApplyPrecision D t) = t_Inflight t"
  "t_AllowOverdraft (ApplyPrecision D t) = t_AllowOverdraft t"
  "t_OverdraftLimit (ApplyPrecision D t) = t_OverdraftLimit t"
  "t_Reference (ApplyPrecision D t) = t_Reference t"
  "t_Status (ApplyPrecision D t) = t_Status t"
  "t_TransactionID (ApplyPrecision D t) = t_TransactionID t"
  "t_ParentTransaction (ApplyPrecision D t) = t_ParentTransaction t"
  "t_Source (ApplyPrecision D t) = t_Source t"
  "t_Destination (ApplyPrecision D t) = t_Destination t"
  "t_Currency (ApplyPrecision D t) = t_Currency t"
  "t_MetaData (ApplyPrecision D t) = t_MetaData t"
  "t_Precision (ApplyPrecision D t) = (if t_Precision t = 0 then 1 else t_Precision t)"
  by (auto simp: ApplyPrecision_def applyPrecisionLogic_def convertPreciseToDecimal_def Let_def
      split: option.splits)

lemma ApplyPrecision_pos:
  "t_PreciseAmount t = Some a \<Longrightarrow> 0 < a \<Longrightarrow> t_PreciseAmount (ApplyPrecision D t) = Some a"
  by (auto simp: ApplyPrecision_def applyPrecisionLogic_def convertPreciseToDecimal_def Let_def)

subsection \<open>Posting a movement\<close>

text \<open>
  What a successful \<open>UpdateBalances\<close> does to the heap: one debit posting at the source, then
  one credit posting at the destination.
\<close>

definition post_debit :: "int \<Rightarrow> bool \<Rightarrow> Balance \<Rightarrow> Balance" where
  "post_debit a i b = computeBalance i (addDebit a i b)"

definition post_credit :: "int \<Rightarrow> bool \<Rightarrow> Balance \<Rightarrow> Balance" where
  "post_credit a i b = computeBalance i (addCredit a i b)"

lemma post_debit_fields [simp]:
  "cr (post_debit a i b) = cr b"
  "dr (post_debit a i b) = dr b + (if i then 0 else a)"
  "icr (post_debit a i b) = icr b"
  "idr (post_debit a i b) = idr b + (if i then a else 0)"
  "bal (post_debit a i b) = (if i then bal b else cr b - dr b - a)"
  "ibal (post_debit a i b) = (if i then icr b - idr b - a else ibal b)"
  by (simp_all add: post_debit_def ledger_simps)

lemma post_credit_fields [simp]:
  "cr (post_credit a i b) = cr b + (if i then 0 else a)"
  "dr (post_credit a i b) = dr b"
  "icr (post_credit a i b) = icr b + (if i then a else 0)"
  "idr (post_credit a i b) = idr b"
  "bal (post_credit a i b) = (if i then bal b else cr b + a - dr b)"
  "ibal (post_credit a i b) = (if i then icr b + a - idr b else ibal b)"
  by (simp_all add: post_credit_def ledger_simps)

lemma post_keeps [simp]:
  "b_BalanceID (post_debit a i b) = b_BalanceID b" "b_BalanceID (post_credit a i b) = b_BalanceID b"
  "b_Version (post_debit a i b) = b_Version b" "b_Version (post_credit a i b) = b_Version b"
  "b_Currency (post_debit a i b) = b_Currency b" "b_Currency (post_credit a i b) = b_Currency b"
  "b_QueuedDebitBalance (post_debit a i b) = b_QueuedDebitBalance b"
  "b_QueuedDebitBalance (post_credit a i b) = b_QueuedDebitBalance b"
  by (simp_all add: post_debit_def post_credit_def ledger_simps)

lemma post_consistent [inv_intros]:
  "consistent b \<Longrightarrow> consistent (post_debit a i b)"
  "consistent b \<Longrightarrow> consistent (post_credit a i b)"
  by (simp_all add: consistent_def)

lemma post_holds_ok [inv_intros]:
  "holds_ok b \<Longrightarrow> 0 \<le> a \<Longrightarrow> holds_ok (post_debit a i b)"
  "holds_ok b \<Longrightarrow> 0 \<le> a \<Longrightarrow> holds_ok (post_credit a i b)"
  by (simp_all add: holds_ok_def post_consistent)

lemma canProcess_result:
  "canProcessTransaction D t b = Inr b' \<Longrightarrow> b' = b \<or> b' = InitializeBalanceFields b"
  by (auto simp: canProcessTransaction_def Let_def split: if_splits option.splits)

lemma canProcess_ok:
  assumes "canProcessTransaction D t b = Inr b'" and "t_PreciseAmount t = Some a"
  shows "t_AllowOverdraft t \<and> t_OverdraftLimit t = 0 \<or> a \<le> availableBalance b \<or>
         0 < t_OverdraftLimit t \<and> - overdraftLimitPrecise D t \<le> availableBalance b - a"
  using assms by (auto simp: canProcessTransaction_def Let_def split: if_splits)

definition posted :: "int \<Rightarrow> bool \<Rightarrow> 'a \<Rightarrow> 'a \<Rightarrow> ('a \<Rightarrow> Balance) \<Rightarrow> 'a \<Rightarrow> Balance" where
  "posted a i source destination h =
     (let h1 = h(source := post_debit a i (h source))
      in h1(destination := post_credit a i (h1 destination)))"

lemma validate_ok: "validate t = Inr u \<Longrightarrow> t_PreciseAmount t = Some a \<Longrightarrow> 0 < a"
  by (simp add: validate_def split: if_splits)

lemma UpdateBalances_iff:
  "UpdateBalances D t0 s d h = Inr (t, h') \<longleftrightarrow>
     t = ApplyPrecision D t0 \<and>
     (\<exists>a b. t_PreciseAmount t = Some a \<and> 0 < a \<and> canProcessTransaction D t (h s) = Inr b \<and>
            h' = posted a (t_Inflight t0) s d h)"
  (is "?L \<longleftrightarrow> ?R")
proof -
  obtain a where a: "t_PreciseAmount (ApplyPrecision D t0) = Some a"
    using ApplyPrecision_precise [of D t0] by blast
  let ?t = "ApplyPrecision D t0"
  have heap: "(let h1 = h(s := b); h2 = h1(s := InitializeBalanceFields (h1 s));
               h3 = h2(d := InitializeBalanceFields (h2 d));
               h4 = h3(s := addDebit a i (h3 s)); h5 = h4(s := computeBalance i (h4 s));
               h6 = h5(d := addCredit a i (h5 d)) in h6(d := computeBalance i (h6 d)))
              = posted a i s d h"
    if "b = h s \<or> b = InitializeBalanceFields (h s)" for b i
    using that by (auto simp: posted_def post_debit_def post_credit_def Let_def fun_eq_iff)
  show ?thesis
  proof (cases "0 < a")
    case False
    then show ?thesis by (auto simp: UpdateBalances_def Let_def validate_def a)
  next
    case True
    show ?thesis
    proof (cases "canProcessTransaction D ?t (h s)")
      case (Inl e)
      then show ?thesis using True by (auto simp: UpdateBalances_def Let_def validate_def a)
    next
      case (Inr b)
      then have "b = h s \<or> b = InitializeBalanceFields (h s)" by (rule canProcess_result)
      from heap [OF this, of "t_Inflight t0"] show ?thesis
        using True Inr by (auto simp: UpdateBalances_def Let_def validate_def a)
    qed
  qed
qed

text \<open>Errors: which condition of the code refuses the movement, in the order it tests them.\<close>

lemma UpdateBalances_err:
  "UpdateBalances D t0 s d h = Inl e \<longleftrightarrow>
     (let t = ApplyPrecision D t0 in
      validate t = Inl e \<or> (validate t = Inr () \<and> canProcessTransaction D t (h s) = Inl e))"
  by (auto simp: UpdateBalances_def Let_def split: sum.splits)

lemma posted_fields:
  "cr (posted a i s d h x) = cr (h x) + (if x = d \<and> \<not> i then a else 0)"
  "dr (posted a i s d h x) = dr (h x) + (if x = s \<and> \<not> i then a else 0)"
  "icr (posted a i s d h x) = icr (h x) + (if x = d \<and> i then a else 0)"
  "idr (posted a i s d h x) = idr (h x) + (if x = s \<and> i then a else 0)"
  by (auto simp: posted_def Let_def)

lemma posted_consistent [inv_intros]:
  "consistent (h x) \<Longrightarrow> consistent (posted a i s d h x)"
  by (auto simp: posted_def Let_def intro!: post_consistent)

lemma posted_holds_ok [inv_intros]:
  "holds_ok (h x) \<Longrightarrow> 0 \<le> a \<Longrightarrow> holds_ok (posted a i s d h x)"
  by (auto simp: posted_def Let_def intro!: post_holds_ok)

lemma posted_other: "x \<noteq> s \<Longrightarrow> x \<noteq> d \<Longrightarrow> posted a i s d h x = h x"
  by (simp add: posted_def Let_def)

lemma posted_keeps [simp]:
  "b_BalanceID (posted a i s d h x) = b_BalanceID (h x)"
  "b_Version (posted a i s d h x) = b_Version (h x)"
  "b_Currency (posted a i s d h x) = b_Currency (h x)"
  by (auto simp: posted_def Let_def)

subsection \<open>Settling and releasing holds\<close>

definition settle_debit :: "int \<Rightarrow> Balance \<Rightarrow> Balance" where
  "settle_debit a b0 = (let b = InitializeBalanceFields b0 in
     b\<lparr>b_InflightDebitBalance := Some (idr b - a), b_DebitBalance := Some (dr b + a),
       b_InflightBalance := Some (icr b - (idr b - a)), b_Balance := Some (cr b - (dr b + a))\<rparr>)"

definition settle_credit :: "int \<Rightarrow> Balance \<Rightarrow> Balance" where
  "settle_credit a b0 = (let b = InitializeBalanceFields b0 in
     b\<lparr>b_InflightCreditBalance := Some (icr b - a), b_CreditBalance := Some (cr b + a),
       b_InflightBalance := Some (icr b - a - idr b), b_Balance := Some (cr b + a - dr b)\<rparr>)"

definition release_debit :: "int \<Rightarrow> Balance \<Rightarrow> Balance" where
  "release_debit a b0 = (let b = InitializeBalanceFields b0 in
     b\<lparr>b_InflightDebitBalance := Some (idr b - a), b_InflightBalance := Some (icr b - (idr b - a))\<rparr>)"

definition release_credit :: "int \<Rightarrow> Balance \<Rightarrow> Balance" where
  "release_credit a b0 = (let b = InitializeBalanceFields b0 in
     b\<lparr>b_InflightCreditBalance := Some (icr b - a), b_InflightBalance := Some (icr b - a - idr b)\<rparr>)"

lemmas hold_ops = settle_debit_def settle_credit_def release_debit_def release_credit_def

lemma CommitInflightDebit_iff:
  "CommitInflightDebit D t0 b = Inr (t, b') \<longleftrightarrow>
     t = ApplyPrecision D t0 \<and> or0 (t_PreciseAmount t) \<le> idr b \<and> b' = settle_debit (or0 (t_PreciseAmount t)) b"
  by (auto simp: CommitInflightDebit_def checkSufficientInflightDebit_def hold_ops ledger_simps)

lemma CommitInflightCredit_iff:
  "CommitInflightCredit D t0 b = Inr (t, b') \<longleftrightarrow>
     t = ApplyPrecision D t0 \<and> or0 (t_PreciseAmount t) \<le> icr b \<and> b' = settle_credit (or0 (t_PreciseAmount t)) b"
  by (auto simp: CommitInflightCredit_def checkSufficientInflightCredit_def hold_ops ledger_simps)

lemma RollbackInflightDebit_iff:
  "RollbackInflightDebit a b = Inr b' \<longleftrightarrow> a \<le> idr b \<and> b' = release_debit a b"
  by (auto simp: RollbackInflightDebit_def checkSufficientInflightDebit_def hold_ops ledger_simps)

lemma RollbackInflightCredit_iff:
  "RollbackInflightCredit a b = Inr b' \<longleftrightarrow> a \<le> icr b \<and> b' = release_credit a b"
  by (auto simp: RollbackInflightCredit_def checkSufficientInflightCredit_def hold_ops ledger_simps)

text \<open>The same as equations, with the error of the refused case.\<close>

lemma inflight_eqs:
  "CommitInflightDebit D t b =
     (let t' = ApplyPrecision D t; a = or0 (t_PreciseAmount t') in
      if a \<le> idr b then Inr (t', settle_debit a b)
      else Inl (Errorf (''insufficient inflight debit balance: have '' @ show_int (idr b) @ '', need '' @ show_int a)))"
  "CommitInflightCredit D t b =
     (let t' = ApplyPrecision D t; a = or0 (t_PreciseAmount t') in
      if a \<le> icr b then Inr (t', settle_credit a b)
      else Inl (Errorf (''insufficient inflight credit balance: have '' @ show_int (icr b) @ '', need '' @ show_int a)))"
  "RollbackInflightDebit c b =
     (if c \<le> idr b then Inr (release_debit c b)
      else Inl (Errorf (''insufficient inflight debit balance: have '' @ show_int (idr b) @ '', need '' @ show_int c)))"
  "RollbackInflightCredit c b =
     (if c \<le> icr b then Inr (release_credit c b)
      else Inl (Errorf (''insufficient inflight credit balance: have '' @ show_int (icr b) @ '', need '' @ show_int c)))"
  by (auto simp: CommitInflightDebit_def CommitInflightCredit_def RollbackInflightDebit_def
      RollbackInflightCredit_def checkSufficientInflightDebit_def checkSufficientInflightCredit_def hold_ops ledger_simps)

lemmas inflight_iffs = CommitInflightDebit_iff CommitInflightCredit_iff
  RollbackInflightDebit_iff RollbackInflightCredit_iff

lemma hold_op_fields [simp]:
  "cr (settle_debit a b) = cr b" "dr (settle_debit a b) = dr b + a"
  "icr (settle_debit a b) = icr b" "idr (settle_debit a b) = idr b - a"
  "cr (settle_credit a b) = cr b + a" "dr (settle_credit a b) = dr b"
  "icr (settle_credit a b) = icr b - a" "idr (settle_credit a b) = idr b"
  "cr (release_debit a b) = cr b" "dr (release_debit a b) = dr b"
  "icr (release_debit a b) = icr b" "idr (release_debit a b) = idr b - a"
  "cr (release_credit a b) = cr b" "dr (release_credit a b) = dr b"
  "icr (release_credit a b) = icr b - a" "idr (release_credit a b) = idr b"
  by (simp_all add: hold_ops Let_def)

lemma hold_op_keeps [simp]:
  "b_Version (settle_debit a b) = b_Version b" "b_Version (settle_credit a b) = b_Version b"
  "b_Version (release_debit a b) = b_Version b" "b_Version (release_credit a b) = b_Version b"
  "b_BalanceID (settle_debit a b) = b_BalanceID b" "b_BalanceID (settle_credit a b) = b_BalanceID b"
  "b_BalanceID (release_debit a b) = b_BalanceID b" "b_BalanceID (release_credit a b) = b_BalanceID b"
  "b_Currency (settle_debit a b) = b_Currency b" "b_Currency (settle_credit a b) = b_Currency b"
  "b_Currency (release_debit a b) = b_Currency b" "b_Currency (release_credit a b) = b_Currency b"
  by (simp_all add: hold_ops Let_def InitializeBalanceFields_def)

lemma hold_op_consistent [inv_intros]:
  "consistent b \<Longrightarrow> consistent (settle_debit a b)" "consistent b \<Longrightarrow> consistent (settle_credit a b)"
  "consistent b \<Longrightarrow> consistent (release_debit a b)" "consistent b \<Longrightarrow> consistent (release_credit a b)"
  by (simp_all add: consistent_def hold_ops Let_def)

lemma hold_op_holds_ok [inv_intros]:
  "holds_ok b \<Longrightarrow> a \<le> idr b \<Longrightarrow> holds_ok (settle_debit a b)"
  "holds_ok b \<Longrightarrow> a \<le> icr b \<Longrightarrow> holds_ok (settle_credit a b)"
  "holds_ok b \<Longrightarrow> a \<le> idr b \<Longrightarrow> holds_ok (release_debit a b)"
  "holds_ok b \<Longrightarrow> a \<le> icr b \<Longrightarrow> holds_ok (release_credit a b)"
  by (simp_all add: holds_ok_def hold_op_consistent)

text \<open>Settling what was held is the direct posting; releasing it undoes the hold.\<close>

lemma Balance_eqI:
  assumes "initialised b" "initialised c"
    and "cr b = cr c" "dr b = dr c" "icr b = icr c" "idr b = idr c" "bal b = bal c" "ibal b = ibal c"
    and "b\<lparr>b_InflightDebitBalance := None, b_InflightCreditBalance := None, b_InflightBalance := None,
           b_DebitBalance := None, b_CreditBalance := None, b_Balance := None\<rparr> =
         c\<lparr>b_InflightDebitBalance := None, b_InflightCreditBalance := None, b_InflightBalance := None,
           b_DebitBalance := None, b_CreditBalance := None, b_Balance := None\<rparr>"
  shows "b = c"
proof -
  have "InitializeBalanceFields b = InitializeBalanceFields c"
    using assms(3-) by (cases b, cases c) (simp add: InitializeBalanceFields_def)
  with assms(1,2) show ?thesis by (simp add: initialised_def)
qed

lemma initialised_ops [simp]:
  "initialised (post_debit a i b)" "initialised (post_credit a i b)"
  "initialised (settle_debit a b)" "initialised (settle_credit a b)"
  "initialised (release_debit a b)" "initialised (release_credit a b)"
  "initialised (InitializeBalanceFields b)"
  by (simp_all add: initialised_def hold_ops post_debit_def post_credit_def ledger_simps)

lemma settle_hold_debit: "consistent b \<Longrightarrow> settle_debit a (post_debit a True b) = post_debit a False b"
  by (rule Balance_eqI) (simp_all add: consistent_def initialised_def settle_debit_def post_debit_def ledger_simps)

lemma settle_hold_credit: "consistent b \<Longrightarrow> settle_credit a (post_credit a True b) = post_credit a False b"
  by (rule Balance_eqI) (simp_all add: consistent_def initialised_def settle_credit_def post_credit_def ledger_simps)

lemma release_hold_debit:
  "consistent b \<Longrightarrow> release_debit a (post_debit a True b) = InitializeBalanceFields b"
  by (rule Balance_eqI) (simp_all add: consistent_def initialised_def release_debit_def post_debit_def ledger_simps)

lemma release_hold_credit:
  "consistent b \<Longrightarrow> release_credit a (post_credit a True b) = InitializeBalanceFields b"
  by (rule Balance_eqI) (simp_all add: consistent_def initialised_def release_credit_def post_credit_def ledger_simps)

text \<open>Settling in parts: settlements of the same hold add up.\<close>

lemma settle_debit_add: "settle_debit a (settle_debit c b) = settle_debit (c + a) b"
  and settle_credit_add: "settle_credit a (settle_credit c b) = settle_credit (c + a) b"
  by (simp_all add: hold_ops Let_def InitializeBalanceFields_def algebra_simps)

subsection \<open>Precision\<close>

context decimal_pkg
begin

lemma dec_or_zero_val: "parse_decimal s = Some q \<Longrightarrow> val (dec_or_zero D s) = q"
  using new_string [of s q] by (auto simp: dec_or_zero_def)

lemma convertDecimalToPrecise_val:
  assumes "is_decimal (t_Amount t)"
  shows "convertDecimalToPrecise D t = round_half_away (t_Amount t * of_int (round_half_even (t_Precision t)))"
proof -
  have a: "val (dec_or_zero D (FormatFloat (t_Amount t))) = t_Amount t"
    by (rule dec_or_zero_val) (rule parse_FormatFloat [OF assms])
  have p: "val (dec_or_zero D (FormatFloat0 (t_Precision t))) = of_int (round_half_even (t_Precision t))"
    by (rule dec_or_zero_val) (rule parse_FormatFloat0)
  show ?thesis by (simp add: convertDecimalToPrecise_def Let_def to_string round0 mul a p)
qed

lemma convertPreciseToDecimal_val:
  assumes "t_PreciseAmount t = Some p" "t_Precision t = 10 ^ k" "k \<le> 16" "0 < p" "p < 10 ^ 15"
  shows "t_Amount (convertPreciseToDecimal D t) = of_int p / 10 ^ k"
proof -
  let ?a = "dec_or_zero D (show_int p)" and ?b = "NewFromFloat D (10 ^ k)"
  have a: "val ?a = of_int p" by (rule dec_or_zero_val) (rule parse_show_int)
  have b: "val ?b = 10 ^ k" by (rule new_float)
  have "(10 :: rat) ^ 16 = 10 ^ (16 - k) * 10 ^ k" using assms(3) by (simp flip: power_add)
  then have "val ?a / val ?b * 10 ^ 16 = of_int (p * 10 ^ (16 - k))"
    by (simp add: a b divide_eq_eq del: power_numeral)
  then have q: "val (Div D ?a ?b) = of_int p / 10 ^ k" using div_exact [of ?b ?a "p * 10 ^ (16 - k)"] by (simp add: a b)
  then have "Float64 D (Div D ?a ?b) = of_int p / 10 ^ k"
    using to_float [of "Div D ?a ?b" k p] assms(3,4,5) by simp
  then show ?thesis using assms(1,2) by (simp add: convertPreciseToDecimal_def Let_def)
qed

lemma overdraftLimit_val:
  assumes "\<bar>t_OverdraftLimit t * t_Precision t\<bar> < 10 ^ 18"
  shows "overdraftLimitPrecise D t = round_half_away (t_OverdraftLimit t * t_Precision t)"
proof -
  let ?x = "t_OverdraftLimit t * t_Precision t"
  have "\<bar>of_int (round_half_away ?x)\<bar> \<le> \<bar>?x\<bar> + 1 / 2" using round_half_away_error [of ?x] by linarith
  then have "\<bar>of_int (round_half_away ?x)\<bar> < (of_int (2 ^ 63) :: rat)" using assms by simp
  then have "\<bar>round_half_away ?x\<bar> < 2 ^ 63" by (simp only: of_int_abs [symmetric] of_int_less_iff)
  then show ?thesis by (simp add: overdraftLimitPrecise_def int_part round0 mul new_float)
qed

end

section \<open>Properties\<close>

text \<open>
  C3: A successful \<open>UpdateBalances\<close> is a double entry. One positive amount \<open>a\<close>, the
  transaction's precise amount, is added to exactly one debit field of the source and to the
  matching credit field of the destination (the inflight pair for an inflight transaction,
  the settled pair otherwise), also when both pointers are the same balance; every other
  gross field and every other balance is untouched, so over any set of balances that
  contains both ends the total of credits minus debits is the same before and after.
\<close>
theorem update_balances_double_entry:
  assumes "UpdateBalances D t0 s d h = Inr (t, h')" and "finite A" "s \<in> A" "d \<in> A"
  shows "\<exists>a > 0. t_PreciseAmount t = Some a \<and>
      (\<forall>x. cr (h' x) = cr (h x) + (if x = d \<and> \<not> t_Inflight t0 then a else 0) \<and>
           dr (h' x) = dr (h x) + (if x = s \<and> \<not> t_Inflight t0 then a else 0) \<and>
           icr (h' x) = icr (h x) + (if x = d \<and> t_Inflight t0 then a else 0) \<and>
           idr (h' x) = idr (h x) + (if x = s \<and> t_Inflight t0 then a else 0) \<and>
           (x \<noteq> s \<and> x \<noteq> d \<longrightarrow> h' x = h x)) \<and>
      (\<Sum>x\<in>A. cr (h' x) - dr (h' x)) = (\<Sum>x\<in>A. cr (h x) - dr (h x)) \<and>
      (\<Sum>x\<in>A. icr (h' x) - idr (h' x)) = (\<Sum>x\<in>A. icr (h x) - idr (h x))"
proof -
  obtain a where a: "t_PreciseAmount t = Some a" "0 < a" and h': "h' = posted a (t_Inflight t0) s d h"
    using assms(1) by (auto simp: UpdateBalances_iff)
  have if_sum: "(\<Sum>x\<in>A. if x = y \<and> P then a else 0) = (if P then a else 0)" if "y \<in> A" for y P
    using that assms(2) by (cases P) simp_all
  have "(\<Sum>x\<in>A. cr (h' x) - dr (h' x)) = (\<Sum>x\<in>A. cr (h x) - dr (h x))"
    and "(\<Sum>x\<in>A. icr (h' x) - idr (h' x)) = (\<Sum>x\<in>A. icr (h x) - idr (h x))"
    using assms(2-) by (simp_all add: h' posted_fields sum_subtractf sum.distrib if_sum)
  with a show ?thesis by (intro exI [of _ a]) (simp add: h' posted_fields posted_other)
qed

text \<open>A funded account, an empty one, and a transfer of 2.50 at precision 100 between them.\<close>

definition ex_funded :: Balance where
  "ex_funded = zero_Balance\<lparr>b_CreditBalance := Some 1000, b_Balance := Some 1000\<rparr>"

definition ex_heap :: "bool \<Rightarrow> Balance" where
  "ex_heap x = (if x then ex_funded else zero_Balance)"

definition ex_transfer :: Transaction where
  "ex_transfer = zero_Transaction\<lparr>t_Amount := 5 / 2, t_Precision := 100\<rparr>"

lemma ex_transfer_precise: "t_PreciseAmount (ApplyPrecision rat_decimal ex_transfer) = Some 250"
  by code_simp

lemma ex_transfer_runs:
  "UpdateBalances rat_decimal ex_transfer True False ex_heap =
     Inr (ApplyPrecision rat_decimal ex_transfer, posted 250 False True False ex_heap)"
proof -
  have "canProcessTransaction rat_decimal (ApplyPrecision rat_decimal ex_transfer) (ex_heap True) =
      Inr (InitializeBalanceFields (ex_heap True))"
    by (simp add: canProcessTransaction_def ex_transfer_precise availableBalance_eq)
       (simp add: ex_transfer_def ex_heap_def ex_funded_def zero_Transaction_def zero_Balance_def)
  then show ?thesis
    by (auto simp: UpdateBalances_iff ex_transfer_precise) (simp add: ex_transfer_def zero_Transaction_def)
qed

theorem update_balances_double_entry_witness:
  "\<exists>a > 0. t_PreciseAmount (ApplyPrecision rat_decimal ex_transfer) = Some a \<and>
     cr (posted 250 False True False ex_heap False) = 0 + a \<and>
     (\<Sum>x\<in>{True, False}. cr (posted 250 False True False ex_heap x) - dr (posted 250 False True False ex_heap x))
       = 1000"
  using update_balances_double_entry [OF ex_transfer_runs, of "{True, False}"]
  by (auto simp: ex_heap_def ex_funded_def ex_transfer_def zero_Transaction_def zero_Balance_def)

text \<open>
  The funds check decides exactly the rule the code means. For a transaction with a
  precise amount, on a decimal package that behaves as documented and a limit that fits in
  64 bits: unconditional overdraft always passes; otherwise the amount must be covered by
  the available balance (settled balance minus inflight debits minus queued debits when
  loaded), or a positive overdraft limit, scaled by the precision and rounded half away from
  zero, must cover the shortfall. Otherwise the error says which of the two was exceeded.
\<close>
lemma can_process_transaction_spec:
  assumes "decimal_pkg D val" and "\<bar>t_OverdraftLimit t * t_Precision t\<bar> < 10 ^ 18"
    and "t_PreciseAmount t = Some a"
  shows "canProcessTransaction D t b =
    (let free = bal b - idr b - or0 (b_QueuedDebitBalance b);
         limit = round_half_away (t_OverdraftLimit t * t_Precision t)
     in if t_AllowOverdraft t \<and> t_OverdraftLimit t = 0 then Inr b
        else if a \<le> free then Inr (InitializeBalanceFields b)
        else if t_OverdraftLimit t \<le> 0 then Inl (Errorf ''insufficient funds in source balance'')
        else if a \<le> free + limit then Inr (InitializeBalanceFields b)
        else Inl (Errorf ''transaction exceeds overdraft limit''))"
  using decimal_pkg.overdraftLimit_val [OF assms(1,2)] assms(3)
  by (auto simp: canProcessTransaction_def availableBalance_eq Let_def)



text \<open>
  Holds cannot be over-drawn and the balance invariant is kept. On a row whose net fields
  are the difference of its gross fields and whose holds are not negative, settling or
  releasing part of an inflight debit or credit succeeds exactly when the hold covers the
  amount, and then the row satisfies the same invariant; when it does not, the operation is
  refused with the error that reports the hold and the amount.
\<close>
lemma inflight_holds_never_negative:
  assumes "holds_ok b" and "a = or0 (t_PreciseAmount (ApplyPrecision D t))"
  shows "(if a \<le> idr b then \<exists>b'. CommitInflightDebit D t b = Inr (ApplyPrecision D t, b') \<and> holds_ok b' \<and>
                               dr b' = dr b + a \<and> idr b' = idr b - a
          else CommitInflightDebit D t b = Inl (Errorf (''insufficient inflight debit balance: have '' @
                 show_int (idr b) @ '', need '' @ show_int a))) \<and>
         (if a \<le> icr b then \<exists>b'. CommitInflightCredit D t b = Inr (ApplyPrecision D t, b') \<and> holds_ok b' \<and>
                               cr b' = cr b + a \<and> icr b' = icr b - a
          else CommitInflightCredit D t b = Inl (Errorf (''insufficient inflight credit balance: have '' @
                 show_int (icr b) @ '', need '' @ show_int a))) \<and>
         (if c \<le> idr b then \<exists>b'. RollbackInflightDebit c b = Inr b' \<and> holds_ok b' \<and> idr b' = idr b - c
          else \<exists>e. RollbackInflightDebit c b = Inl e) \<and>
         (if c \<le> icr b then \<exists>b'. RollbackInflightCredit c b = Inr b' \<and> holds_ok b' \<and> icr b' = icr b - c
          else \<exists>e. RollbackInflightCredit c b = Inl e)"
  using assms(1) by (simp add: inflight_eqs assms(2) [symmetric] hold_op_holds_ok Let_def)

text \<open>
  \<open>ApplyPrecision\<close> turns a decimal amount into minor units: with no positive precise
  amount given, the precise amount is the amount times the (integer-rounded) precision,
  rounded half away from zero, so it differs from the exact product by at most half a minor
  unit. A missing precision counts as 1.
\<close>
lemma apply_precision_rounds:
  assumes "decimal_pkg D val" and "is_decimal (t_Amount t)"
    and "t_PreciseAmount t = None \<or> or0 (t_PreciseAmount t) \<le> 0"
    and "scale = of_int (round_half_even (if t_Precision t = 0 then 1 else t_Precision t))"
  shows "\<exists>a. t_PreciseAmount (ApplyPrecision D t) = Some a \<and> a = round_half_away (t_Amount t * scale) \<and>
             \<bar>of_int a - t_Amount t * scale\<bar> \<le> 1 / 2"
proof -
  let ?t = "if t_Precision t = 0 then t\<lparr>t_Precision := 1\<rparr> else t"
  have "ApplyPrecision D t = ?t\<lparr>t_PreciseAmount := Some (convertDecimalToPrecise D ?t)\<rparr>"
    using assms(3) by (auto simp: ApplyPrecision_def applyPrecisionLogic_def Let_def split: option.splits)
  moreover have "convertDecimalToPrecise D ?t = round_half_away (t_Amount t * scale)"
    using decimal_pkg.convertDecimalToPrecise_val [OF assms(1), of ?t] assms(2,4) by simp
  ultimately show ?thesis using round_half_away_error [of "t_Amount t * scale"] by simp
qed

text \<open>
  C37: Minor units survive the round trip through the decimal amount: for a positive precise
  amount below \<open>10 ^ 15\<close> and a power-of-ten precision up to \<open>10 ^ 16\<close>, \<open>ApplyPrecision\<close> keeps the
  precise amount and sets an \<open>Amount\<close> from which \<open>ApplyPrecision\<close> recomputes the same precise
  amount once the field is cleared.
\<close>
theorem apply_precision_roundtrip:
  assumes "decimal_pkg D val" and "t_PreciseAmount t = Some p" "0 < p" "p < 10 ^ 15"
    and "t_Precision t = 10 ^ k" "k \<le> 16"
  shows "t_PreciseAmount (ApplyPrecision D t) = Some p \<and> t_Amount (ApplyPrecision D t) = of_int p / 10 ^ k \<and>
         t_PreciseAmount (ApplyPrecision D ((ApplyPrecision D t)\<lparr>t_PreciseAmount := None\<rparr>)) = Some p"
proof -
  have k0: "(10 :: rat) ^ k \<noteq> 0" by simp
  have at: "ApplyPrecision D t = convertPreciseToDecimal D t"
    using assms k0 by (simp add: ApplyPrecision_def applyPrecisionLogic_def del: power_eq_0_iff)
  then have amt: "t_Amount (ApplyPrecision D t) = of_int p / 10 ^ k"
    using decimal_pkg.convertPreciseToDecimal_val [OF assms(1,2,5,6,3,4)] by simp
  let ?t = "(ApplyPrecision D t)\<lparr>t_PreciseAmount := None\<rparr>"
  have prec: "t_Precision ?t = of_int (10 ^ k)" using assms(5) k0 by (simp del: power_eq_0_iff)
  have "convertDecimalToPrecise D ?t = round_half_away (of_int p / 10 ^ k * of_int (round_half_even (of_int (10 ^ k))))"
    using decimal_pkg.convertDecimalToPrecise_val [OF assms(1), of ?t] amt prec
    by (simp add: is_decimal_scaled_int del: of_int_power)
  then have "convertDecimalToPrecise D ?t = p" by (simp only: round_half_even_of_int) simp
  moreover have "ApplyPrecision D ?t = ?t\<lparr>t_PreciseAmount := Some (convertDecimalToPrecise D ?t)\<rparr>"
    using prec by (simp add: ApplyPrecision_def applyPrecisionLogic_def Let_def)
  ultimately show ?thesis using amt ApplyPrecision_pos [OF assms(2,3)] by simp
qed

theorem apply_precision_roundtrip_witness:
  "t_Amount (ApplyPrecision rat_decimal (zero_Transaction\<lparr>t_PreciseAmount := Some 1999, t_Precision := 100\<rparr>)) = 1999 / 100"
  using apply_precision_roundtrip [OF ratdec.decimal_pkg_axioms,
      of "zero_Transaction\<lparr>t_PreciseAmount := Some 1999, t_Precision := 100\<rparr>" 1999 2]
  by (simp add: zero_Transaction_def)

text \<open>
  The precision cache returns what was stored last for a key, never holds two entries
  for one key, and never grows beyond its bound of 100000 entries; the database lookup goes
  through it, so a positive precision found in the database is what the transaction is
  scaled with, and a second lookup does not query again.
\<close>
lemma precision_cache_correct:
  assumes "distinct (map fst c)" "length c \<le> precisionCacheMaxEntries"
    and "t_TransactionID t \<noteq> []" "getCachedPrecision (t_TransactionID t) c = None"
    and "query (t_TransactionID t) = Inr p" "0 < p"
    and "ApplyPrecisionWithDBLookup D (Some query) t c = (c', t')"
  shows "t_Precision t' = p \<and> getCachedPrecision (t_TransactionID t) c' = Some p \<and>
         distinct (map fst c') \<and> length c' \<le> precisionCacheMaxEntries \<and>
         ApplyPrecisionWithDBLookup D (Some other) t c' = (c', t')"
proof -
  have c': "c' = setCachedPrecision (t_TransactionID t) p c"
    and t': "t' = applyPrecisionLogic D (t\<lparr>t_Precision := p\<rparr>)"
    using assms by (auto simp: ApplyPrecisionWithDBLookup_def fetchTransactionPrecisionFromDB_def)
  have hit: "getCachedPrecision (t_TransactionID t) c' = Some p"
    by (simp add: c' setCachedPrecision_def getCachedPrecision_def Let_def)
  have "t_Precision t' = p"
    using assms(6) by (auto simp: t' applyPrecisionLogic_def convertPreciseToDecimal_def Let_def split: option.splits)
  moreover have "distinct (map fst c')"
    using assms(1) by (auto simp: c' setCachedPrecision_def Let_def distinct_map_filter)
  moreover have "length c' \<le> precisionCacheMaxEntries"
    by (auto simp: c' setCachedPrecision_def Let_def Suc_le_eq not_le precisionCacheMaxEntries_def
        intro: le_less_trans [OF length_filter_le])
  moreover have "ApplyPrecisionWithDBLookup D (Some other) t c' = (c', t')"
    using hit assms(3,6) by (simp add: ApplyPrecisionWithDBLookup_def fetchTransactionPrecisionFromDB_def t')
  ultimately show ?thesis using hit by blast
qed

end
