(* ===== verification/Locks.thy ===== *)
theory Locks
  imports Prelude Decimals
begin

text \<open>
  The distributed locks of \<open>internal/lock/lock.go\<close>. Redis is a service: its client is the
  parameter \<open>R\<close> of every operation, with the five commands the package issues, and what the
  package relies on is the locale \<open>redis_laws\<close>. The Lua scripts are those of the source, run
  atomically by \<open>Eval\<close>. The locale is interpreted on a key-value store with expiry times.
\<close>

record 'r redis =
  SetNX :: "string \<Rightarrow> string \<Rightarrow> int \<Rightarrow> 'r \<Rightarrow> 'r \<times> bool res"
  Eval :: "('r \<Rightarrow> 'r \<times> int) \<Rightarrow> 'r \<Rightarrow> 'r \<times> int res"
  Get :: "string \<Rightarrow> 'r \<Rightarrow> string option"
  Del :: "string \<Rightarrow> 'r \<Rightarrow> 'r \<times> int"
  PExpire :: "string \<Rightarrow> int \<Rightarrow> 'r \<Rightarrow> 'r \<times> int"

record Locker =
  lk_key :: string
  lk_value :: string

record MultiLocker =
  ml_lockers :: "Locker list"
  ml_keys :: "string list"
  ml_value :: string

subsection \<open>One lock\<close>

definition NewLocker :: "string \<Rightarrow> string \<Rightarrow> Locker" where
  "NewLocker key v = \<lparr>lk_key = key, lk_value = v\<rparr>"

definition Lock :: "'r redis \<Rightarrow> Locker \<Rightarrow> int \<Rightarrow> 'r \<Rightarrow> 'r \<times> unit res" where
  "Lock R l timeout r =
     (case SetNX R (lk_key l) (lk_value l) timeout r of
        (r', Inl e) \<Rightarrow> (r', Inl e)
      | (r', Inr success) \<Rightarrow>
          (r', if success then Inr ()
               else Inl (ErrLockHeld (''lock for key '' @ lk_key l @ '' is already held''))))"

definition unlock_script :: "'r redis \<Rightarrow> Locker \<Rightarrow> 'r \<Rightarrow> 'r \<times> int" where
  "unlock_script R l r = (if Get R (lk_key l) r = Some (lk_value l) then Del R (lk_key l) r else (r, 0))"

definition Unlock :: "'r redis \<Rightarrow> Locker \<Rightarrow> 'r \<Rightarrow> 'r \<times> unit res" where
  "Unlock R l r =
     (case Eval R (unlock_script R l) r of
        (r', Inl e) \<Rightarrow> (r', Inl e)
      | (r', Inr n) \<Rightarrow>
          (r', if n = 0 then Inl (Errorf (''unlock failed, either lock expired or you're not the lock holder for key ''
                                 @ lk_key l))
               else Inr ()))"

definition extend_script :: "'r redis \<Rightarrow> Locker \<Rightarrow> int \<Rightarrow> 'r \<Rightarrow> 'r \<times> int" where
  "extend_script R l ms r =
     (if Get R (lk_key l) r = Some (lk_value l) then PExpire R (lk_key l) ms r else (r, 0))"

text \<open>\<open>extension\<close> is in nanoseconds; the script receives whole milliseconds, truncated.\<close>

definition ExtendLock :: "'r redis \<Rightarrow> Locker \<Rightarrow> int \<Rightarrow> 'r \<Rightarrow> 'r \<times> unit res" where
  "ExtendLock R l extension r =
     (case Eval R (extend_script R l (sgn extension * (\<bar>extension\<bar> div 1000000))) r of
        (r', Inl e) \<Rightarrow> (r', Inl e)
      | (r', Inr n) \<Rightarrow>
          (r', if n = 0 then Inl (Errorf (''lock extension failed for key '' @ lk_key l @
                                 '', either lock expired or you're not the holder''))
               else Inr ()))"

subsection \<open>Several locks\<close>

definition NewMultiLocker :: "string list \<Rightarrow> string \<Rightarrow> MultiLocker" where
  "NewMultiLocker keys v =
     (let uniqueKeys = sort (dedup_acc [] (filter (\<lambda>k. k \<noteq> []) keys))
      in \<lparr>ml_lockers = map (\<lambda>k. NewLocker k v) uniqueKeys, ml_keys = uniqueKeys, ml_value = v\<rparr>)"

text \<open>\<open>rollback(ctx, count)\<close> over the lockers acquired so far, most recent first.\<close>

fun rollback :: "'r redis \<Rightarrow> Locker list \<Rightarrow> 'r \<Rightarrow> 'r" where
  "rollback R [] r = r"
| "rollback R (l # ls) r = rollback R ls (fst (Unlock R l r))"

fun multi_lock_loop :: "'r redis \<Rightarrow> int \<Rightarrow> Locker list \<Rightarrow> Locker list \<Rightarrow> 'r \<Rightarrow> 'r \<times> unit res" where
  "multi_lock_loop R timeout acquired [] r = (r, Inr ())"
| "multi_lock_loop R timeout acquired (l # ls) r =
     (case Lock R l timeout r of
        (r', Inl e) \<Rightarrow> (rollback R acquired r', Inl (Wrap (''failed to acquire lock for key '' @ lk_key l) e))
      | (r', Inr _) \<Rightarrow> multi_lock_loop R timeout (l # acquired) ls r')"

definition MultiLock :: "'r redis \<Rightarrow> MultiLocker \<Rightarrow> int \<Rightarrow> 'r \<Rightarrow> 'r \<times> unit res" where
  "MultiLock R m timeout r = multi_lock_loop R timeout [] (ml_lockers m) r"

fun multi_unlock_loop :: "'r redis \<Rightarrow> Locker list \<Rightarrow> error option \<Rightarrow> 'r \<Rightarrow> 'r \<times> error option" where
  "multi_unlock_loop R [] lastErr r = (r, lastErr)"
| "multi_unlock_loop R (l # ls) lastErr r =
     (case Unlock R l r of
        (r', Inl e) \<Rightarrow> multi_unlock_loop R ls (Some e) r'
      | (r', Inr _) \<Rightarrow> multi_unlock_loop R ls lastErr r')"

definition MultiUnlock :: "'r redis \<Rightarrow> MultiLocker \<Rightarrow> 'r \<Rightarrow> 'r \<times> unit res" where
  "MultiUnlock R m r =
     (case multi_unlock_loop R (rev (ml_lockers m)) None r of
        (r', None) \<Rightarrow> (r', Inr ()) | (r', Some e) \<Rightarrow> (r', Inl e))"

subsection \<open>Waiting\<close>

text \<open>
  \<open>sleepWithJitter\<close>: the delay in nanoseconds before the next attempt, \<open>rnd\<close> being the draw of
  \<open>rand.Int63n(backoff)\<close>; 0 when the deadline has passed.
\<close>

definition lockBackoffBase :: int where "lockBackoffBase = 5000000"
definition lockBackoffMax :: int where "lockBackoffMax = 100000000"

fun backoff_loop :: "nat \<Rightarrow> int \<Rightarrow> int" where
  "backoff_loop 0 b = b"
| "backoff_loop (Suc n) b = (if b < lockBackoffMax then backoff_loop n (2 * b) else b)"

definition backoff_cap :: "nat \<Rightarrow> int" where
  "backoff_cap attempt =
     (let b = backoff_loop attempt lockBackoffBase in if lockBackoffMax < b then lockBackoffMax else b)"

definition sleepDelay :: "int \<Rightarrow> nat \<Rightarrow> (int \<Rightarrow> int) \<Rightarrow> int" where
  "sleepDelay remaining attempt Int63n =
     (if remaining \<le> 0 then 0
      else let delay0 = Int63n (backoff_cap attempt);
               delay = (if delay0 \<le> 0 then 1000000 else delay0)
           in if remaining < delay then remaining else delay)"

text \<open>\<open>errors.Is(err, ErrLockHeld)\<close>.\<close>

fun is_lock_held :: "error \<Rightarrow> bool" where
  "is_lock_held (ErrLockHeld m) = True"
| "is_lock_held (Wrap p e) = is_lock_held e"
| "is_lock_held e = False"

text \<open>
  What one round of the wait loop sees from outside: the clock when the loop condition is
  tested, what the rest of the world did to Redis since the last attempt, \<open>ctx.Err()\<close> after
  a failed attempt, the clock and the error of the sleep (\<open>Some\<close> when the context is
  cancelled before the timer fires).
\<close>

record 'r tick =
  tk_now :: int
  tk_world :: "'r \<Rightarrow> 'r"
  tk_ctx :: "error option"
  tk_sleep :: "error option"

text \<open>
  The loop over the rounds; \<open>None\<close> when the rounds given end before the loop does. \<open>try\<close> is one
  attempt, \<open>cancelled\<close> wraps a context error, \<open>timeout_err\<close> is returned past the deadline.
\<close>

fun wait_loop :: "('r \<Rightarrow> 'r \<times> unit res) \<Rightarrow> (error \<Rightarrow> error) \<Rightarrow> error \<Rightarrow> int \<Rightarrow> 'r tick list \<Rightarrow> 'r
    \<Rightarrow> ('r \<times> unit res) option" where
  "wait_loop try cancelled timeout_err deadline [] r = None"
| "wait_loop try cancelled timeout_err deadline (k # ks) r =
     (let r0 = tk_world k r in
      if \<not> tk_now k < deadline then Some (r0, Inl timeout_err)
      else case try r0 of
        (r1, Inr _) \<Rightarrow> Some (r1, Inr ())
      | (r1, Inl e) \<Rightarrow>
          if \<not> is_lock_held e then
            Some (r1, Inl (case tk_ctx k of Some c \<Rightarrow> cancelled c | None \<Rightarrow> e))
          else (case tk_sleep k of
                  Some c \<Rightarrow> Some (r1, Inl (cancelled c))
                | None \<Rightarrow> wait_loop try cancelled timeout_err deadline ks r1))"

definition WaitLock :: "'r redis \<Rightarrow> Locker \<Rightarrow> int \<Rightarrow> int \<Rightarrow> int \<Rightarrow> error option \<Rightarrow> 'r tick list \<Rightarrow> 'r
    \<Rightarrow> ('r \<times> unit res) option" where
  "WaitLock R l lockTimeout waitTimeout start ctxErr ticks r =
     (case ctxErr of
        Some e \<Rightarrow> Some (r, Inl (Wrap (''lock wait cancelled for key '' @ lk_key l) e))
      | None \<Rightarrow> wait_loop (Lock R l lockTimeout) (Wrap (''lock wait cancelled for key '' @ lk_key l))
          (ErrLockWaitTimeout (''failed to acquire lock for key '' @ lk_key l @ '' within the wait timeout''))
          (start + waitTimeout) ticks r)"

definition MultiWaitLock :: "'r redis \<Rightarrow> MultiLocker \<Rightarrow> int \<Rightarrow> int \<Rightarrow> int \<Rightarrow> error option \<Rightarrow> 'r tick list \<Rightarrow> 'r
    \<Rightarrow> ('r \<times> unit res) option" where
  "MultiWaitLock R m lockTimeout waitTimeout start ctxErr ticks r =
     (case ctxErr of
        Some e \<Rightarrow> Some (r, Inl (Wrap ''lock wait cancelled'' e))
      | None \<Rightarrow> wait_loop (MultiLock R m lockTimeout) (Wrap ''lock wait cancelled'')
          (ErrLockWaitTimeout ''failed to acquire all locks within the wait timeout'')
          (start + waitTimeout) ticks r)"

section \<open>What the package relies on\<close>

definition kv :: "'r redis \<Rightarrow> 'r \<Rightarrow> string \<rightharpoonup> string" where
  "kv R r = (\<lambda>k. Get R k r)"

text \<open>No script call fails (no connection is lost while a lock is released).\<close>

definition reliable :: "'r redis \<Rightarrow> bool" where
  "reliable R \<longleftrightarrow> (\<forall>s r. \<exists>q n. Eval R s r = (q, Inr n))"

definition keys_of :: "Locker list \<Rightarrow> string set" where
  "keys_of ls = lk_key ` set ls"

lemma keys_of_simps [simp]: "keys_of [] = {}" "keys_of (l # ls) = insert (lk_key l) (keys_of ls)"
  by (simp_all add: keys_of_def)

lemma key_in_keys_of: "l \<in> set ls \<Longrightarrow> lk_key l \<in> keys_of ls"
  by (simp add: keys_of_def)

lemma distinct_keys_Cons:
  "distinct (map lk_key (l # ls)) \<longleftrightarrow> lk_key l \<notin> keys_of ls \<and> distinct (map lk_key ls)"
  by (simp add: keys_of_def)

text \<open>
  The documented behaviour of the commands: \<open>SET NX PX\<close> writes exactly when the key is absent
  and never reports a lock error; a failed call may or may not have taken effect; a script
  runs atomically; \<open>DEL\<close> and \<open>PEXPIRE\<close> report whether the key existed.
\<close>

locale redis_laws =
  fixes R :: "'r redis"
  assumes setnx: "0 < ttl \<Longrightarrow> SetNX R k v ttl r = (r', Inr b) \<Longrightarrow>
      (b \<longleftrightarrow> kv R r k = None) \<and> kv R r' = (if b then (kv R r)(k \<mapsto> v) else kv R r)"
    and setnx_err: "0 < ttl \<Longrightarrow> SetNX R k v ttl r = (r', Inl e) \<Longrightarrow>
      \<not> is_lock_held e \<and> (kv R r' = kv R r \<or> kv R r k = None \<and> kv R r' = (kv R r)(k \<mapsto> v))"
    and eval: "Eval R s r = (r', Inr n) \<Longrightarrow> s r = (r', n)"
    and eval_err: "Eval R s r = (r', Inl e) \<Longrightarrow> r' = r \<or> r' = fst (s r)"
    and del: "Del R k r = (r', n) \<Longrightarrow> kv R r' = (kv R r)(k := None) \<and> (n = 0 \<longleftrightarrow> kv R r k = None)"
    and pexpire: "0 < ms \<Longrightarrow> PExpire R k ms r = (r', n) \<Longrightarrow> kv R r' = kv R r \<and> (n = 0 \<longleftrightarrow> kv R r k = None)"
begin

lemma script_kv:
  "kv R (fst (unlock_script R l r)) =
     (if kv R r (lk_key l) = Some (lk_value l) then (kv R r)(lk_key l := None) else kv R r)"
  using del [of "lk_key l" r] by (auto simp: unlock_script_def kv_def [of R r] split: prod.splits)
     (metis prod.collapse kv_def)+

lemma unlock_cases:
  assumes "Unlock R l r = (r', res)"
  shows "kv R r' = kv R r \<and> (\<forall>u. res = Inr u \<longrightarrow> False) \<or>
         kv R r (lk_key l) = Some (lk_value l) \<and> kv R r' = (kv R r)(lk_key l := None)"
proof (cases "Eval R (unlock_script R l) r")
  case (Pair q y)
  show ?thesis
  proof (cases y)
    case (Inl e)
    with Pair assms eval_err [of "unlock_script R l" r q e] script_kv [of l r] show ?thesis
      by (auto simp: Unlock_def split: if_splits)
  next
    case (Inr n)
    have q: "unlock_script R l r = (q, n)" using eval Pair Inr by simp
    show ?thesis
    proof (cases "kv R r (lk_key l) = Some (lk_value l)")
      case True
      with q have "Del R (lk_key l) r = (q, n)" by (simp add: unlock_script_def kv_def)
      from del [OF this] True assms Pair Inr show ?thesis by (auto simp: Unlock_def)
    next
      case False
      with q assms Pair Inr show ?thesis by (auto simp: Unlock_def unlock_script_def kv_def)
    qed
  qed
qed

lemma unlock_reliable:
  assumes "reliable R"
  shows "kv R (fst (Unlock R l r)) =
     (if kv R r (lk_key l) = Some (lk_value l) then (kv R r)(lk_key l := None) else kv R r)"
proof -
  obtain q n where E: "Eval R (unlock_script R l) r = (q, Inr n)" using assms unfolding reliable_def by blast
  from eval [OF this] script_kv [of l r] show ?thesis by (simp add: Unlock_def E)
qed

lemma rollback_kv:
  assumes "reliable R" "distinct (map lk_key ls)" "\<forall>l \<in> set ls. kv R r (lk_key l) = Some (lk_value l)"
  shows "kv R (rollback R ls r) = (\<lambda>k. if k \<in> keys_of ls then None else kv R r k)"
  using assms(2,3)
proof (induction ls arbitrary: r)
  case (Cons l ls)
  have r: "kv R (fst (Unlock R l r)) = (kv R r)(lk_key l := None)"
    using Cons.prems unlock_reliable [OF assms(1)] by simp
  have "\<forall>l' \<in> set ls. kv R (fst (Unlock R l r)) (lk_key l') = Some (lk_value l')"
    using Cons.prems key_in_keys_of unfolding r distinct_keys_Cons by fastforce
  with Cons r show ?case by (auto simp: fun_eq_iff)
qed simp

lemma lock_cases:
  assumes "0 < ttl" "Lock R l ttl r = (r', x)"
  shows "(x = Inr () \<and> kv R r (lk_key l) = None \<and> kv R r' = (kv R r)(lk_key l \<mapsto> lk_value l)) \<or>
         (\<exists>e. x = Inl e \<and> is_lock_held e \<and> kv R r (lk_key l) \<noteq> None \<and> kv R r' = kv R r) \<or>
         (\<exists>e. x = Inl e \<and> \<not> is_lock_held e \<and>
            (kv R r' = kv R r \<or> kv R r (lk_key l) = None \<and> kv R r' = (kv R r)(lk_key l \<mapsto> lk_value l)))"
proof (cases "SetNX R (lk_key l) (lk_value l) ttl r")
  case (Pair q y)
  then show ?thesis
    using assms setnx [OF assms(1), of "lk_key l" "lk_value l" r q] setnx_err [OF assms(1), of "lk_key l" "lk_value l" r q]
    by (cases y) (auto simp: Lock_def split: if_splits)
qed

lemma multi_lock_all_or_nothing:
  assumes "0 < ttl" "distinct (map lk_key (acq @ ls))" "\<forall>l \<in> set (acq @ ls). lk_value l = v"
    and "\<forall>l \<in> set acq. kv R r (lk_key l) = Some v" and "multi_lock_loop R ttl acq ls r = (r', x)"
  shows "(x = Inr () \<longrightarrow> (\<forall>k \<in> keys_of ls. kv R r k = None) \<and>
            kv R r' = (\<lambda>k. if k \<in> keys_of ls then Some v else kv R r k)) \<and>
         (\<forall>e. x = Inl e \<and> is_lock_held e \<and> reliable R \<longrightarrow>
            (\<exists>k \<in> keys_of ls. kv R r k \<noteq> None) \<and>
            kv R r' = (\<lambda>k. if k \<in> keys_of acq then None else kv R r k))"
  using assms(2-)
proof (induction ls arbitrary: acq r)
  case Nil
  then show ?case by (auto simp: keys_of_def)
next
  case (Cons l ls)
  obtain q y where L: "Lock R l ttl r = (q, y)" by force
  show ?case
  proof (cases y)
    case (Inl e)
    then have r': "r' = rollback R acq q" "x = Inl (Wrap (''failed to acquire lock for key '' @ lk_key l) e)"
      using Cons.prems L by auto
    show ?thesis
    proof (cases "is_lock_held e \<and> reliable R")
      case True
      then have q: "kv R q = kv R r" "kv R r (lk_key l) \<noteq> None"
        using lock_cases [OF assms(1) L] Inl by auto
      have "kv R (rollback R acq q) = (\<lambda>k. if k \<in> keys_of acq then None else kv R q k)"
        using Cons.prems q True by (intro rollback_kv) auto
      with q r' show ?thesis by (auto simp: keys_of_def)
    qed (use r' in auto)
  next
    case (Inr u)
    then have q: "kv R r (lk_key l) = None" "kv R q = (kv R r)(lk_key l \<mapsto> v)"
      using lock_cases [OF assms(1) L] Cons.prems(2) by auto
    have run: "multi_lock_loop R ttl (l # acq) ls q = (r', x)" using Cons.prems L Inr by simp
    have "\<forall>m \<in> set (l # acq). kv R q (lk_key m) = Some v" using Cons.prems q by auto
    note IH = Cons.IH [OF _ _ this run]
    have old: "k \<noteq> lk_key l" if "k \<in> keys_of ls" for k
      using that Cons.prems(1) by (auto simp: keys_of_def image_iff)
    have "(x = Inr () \<longrightarrow> (\<forall>k \<in> keys_of ls. kv R q k = None) \<and>
            kv R r' = (\<lambda>k. if k \<in> keys_of ls then Some v else kv R q k)) \<and>
         (\<forall>e. x = Inl e \<and> is_lock_held e \<and> reliable R \<longrightarrow>
            (\<exists>k \<in> keys_of ls. kv R q k \<noteq> None) \<and>
            kv R r' = (\<lambda>k. if k \<in> keys_of (l # acq) then None else kv R q k))"
      using Cons.prems by (intro IH) auto
    with q old show ?thesis by (auto simp: keys_of_def fun_eq_iff)
  qed
qed

end

text \<open>Free keys are taken, when Redis answers.\<close>

definition setnx_answers :: "'r redis \<Rightarrow> bool" where
  "setnx_answers R \<longleftrightarrow> (\<forall>k v ttl r. \<exists>q b. SetNX R k v ttl r = (q, Inr b))"

context redis_laws
begin

lemma multi_lock_free:
  assumes "setnx_answers R" "0 < ttl" "distinct (map lk_key ls)" "\<forall>k \<in> keys_of ls. kv R r k = None"
  shows "\<exists>r'. multi_lock_loop R ttl acq ls r = (r', Inr ())"
  using assms(3,4)
proof (induction ls arbitrary: acq r)
  case (Cons l ls)
  obtain q b where S: "SetNX R (lk_key l) (lk_value l) ttl r = (q, Inr b)"
    using assms(1) unfolding setnx_answers_def by blast
  with setnx [OF assms(2) S] Cons.prems have b: "b" and q: "kv R q = (kv R r)(lk_key l \<mapsto> lk_value l)" by auto
  have "\<forall>k \<in> keys_of ls. kv R q k = None" using Cons.prems q by (auto simp: keys_of_def image_iff)
  from Cons.IH [OF _ this, of "l # acq"] Cons.prems obtain r' where "multi_lock_loop R ttl (l # acq) ls q = (r', Inr ())"
    by auto
  with S b show ?case by (simp add: Lock_def)
qed simp

end

section \<open>A reference store\<close>

text \<open>
  A key-value store with expiry times and a clock: an entry is visible until its expiry. The
  interpretation shows that the laws can hold, and evaluates the witnesses.
\<close>

record rstore =
  rs_now :: int
  rs_map :: "string \<rightharpoonup> string \<times> int"

definition rs_get :: "string \<Rightarrow> rstore \<Rightarrow> string option" where
  "rs_get k r = (case rs_map r k of Some (v, t) \<Rightarrow> if rs_now r < t then Some v else None | None \<Rightarrow> None)"

definition rs_setnx :: "string \<Rightarrow> string \<Rightarrow> int \<Rightarrow> rstore \<Rightarrow> rstore \<times> bool res" where
  "rs_setnx k v ttl r =
     (if rs_get k r = None then (r\<lparr>rs_map := (rs_map r)(k \<mapsto> (v, rs_now r + ttl))\<rparr>, Inr True) else (r, Inr False))"

definition rs_del :: "string \<Rightarrow> rstore \<Rightarrow> rstore \<times> int" where
  "rs_del k r = (r\<lparr>rs_map := (rs_map r)(k := None)\<rparr>, if rs_get k r = None then 0 else 1)"

definition rs_pexpire :: "string \<Rightarrow> int \<Rightarrow> rstore \<Rightarrow> rstore \<times> int" where
  "rs_pexpire k ms r =
     (case rs_get k r of
        None \<Rightarrow> (r, 0)
      | Some v \<Rightarrow> (r\<lparr>rs_map := (rs_map r)(k \<mapsto> (v, rs_now r + ms * 1000000))\<rparr>, 1))"

definition rs_redis :: "rstore redis" where
  "rs_redis = \<lparr>SetNX = rs_setnx, Eval = (\<lambda>s r. case s r of (r', n) \<Rightarrow> (r', Inr n)), Get = rs_get,
               Del = rs_del, PExpire = rs_pexpire\<rparr>"

lemma rs_redis_sel [simp]:
  "SetNX rs_redis = rs_setnx" "Get rs_redis = rs_get" "Del rs_redis = rs_del" "PExpire rs_redis = rs_pexpire"
  "Eval rs_redis s r = (fst (s r), Inr (snd (s r)))"
  by (simp_all add: rs_redis_def split: prod.splits)

lemma rs_get_upd:
  "rs_get j (r\<lparr>rs_map := (rs_map r)(k := e)\<rparr>) =
     (if j = k then (case e of Some (v, t) \<Rightarrow> if rs_now r < t then Some v else None | None \<Rightarrow> None) else rs_get j r)"
  by (auto simp: rs_get_def split: option.splits)

interpretation rs: redis_laws rs_redis
proof
  have kv: "kv rs_redis r k = rs_get k r" for r k by (simp add: kv_def)
  fix ttl :: int and ms :: int and k v :: string and r r' :: rstore and b and e :: error and s and n :: int
  show "0 < ttl \<Longrightarrow> SetNX rs_redis k v ttl r = (r', Inr b) \<Longrightarrow>
      (b \<longleftrightarrow> kv rs_redis r k = None) \<and> kv rs_redis r' = (if b then (kv rs_redis r)(k \<mapsto> v) else kv rs_redis r)"
    by (auto simp: kv fun_eq_iff rs_setnx_def rs_get_upd split: if_splits)
  show "0 < ttl \<Longrightarrow> SetNX rs_redis k v ttl r = (r', Inl e) \<Longrightarrow> \<not> is_lock_held e \<and>
      (kv rs_redis r' = kv rs_redis r \<or> kv rs_redis r k = None \<and> kv rs_redis r' = (kv rs_redis r)(k \<mapsto> v))"
    by (simp add: rs_setnx_def split: if_splits)
  show "Eval rs_redis s r = (r', Inr n) \<Longrightarrow> s r = (r', n)"
    and "Eval rs_redis s r = (r', Inl e) \<Longrightarrow> r' = r \<or> r' = fst (s r)"
    by (auto simp: prod_eq_iff)
  show "Del rs_redis k r = (r', n) \<Longrightarrow>
      kv rs_redis r' = (kv rs_redis r)(k := None) \<and> (n = 0 \<longleftrightarrow> kv rs_redis r k = None)"
    by (auto simp: kv fun_eq_iff rs_del_def rs_get_upd split: if_splits)
  show "0 < ms \<Longrightarrow> PExpire rs_redis k ms r = (r', n) \<Longrightarrow>
      kv rs_redis r' = kv rs_redis r \<and> (n = 0 \<longleftrightarrow> kv rs_redis r k = None)"
    by (auto simp: kv fun_eq_iff rs_pexpire_def rs_get_upd split: option.splits if_splits)
qed

lemma rs_reliable: "reliable rs_redis"
  by (simp add: reliable_def)

lemma rs_answers: "setnx_answers rs_redis"
  by (auto simp: setnx_answers_def rs_setnx_def)

section \<open>Competing clients\<close>

text \<open>
  Any number of clients run the multi-lock protocol, interleaved at the granularity of single
  Redis commands: each step is one \<open>Lock\<close> or \<open>Unlock\<close> call of the loops above. A client is idle,
  acquiring (locks taken so far, most recent first, and those still to take), in its critical
  section, or giving back a list of locks. Leases outlive the critical sections: no step
  drops a key that a client counts on.
\<close>

datatype client = Idle | Acquiring "Locker list" "Locker list" | Critical "Locker list" | Releasing "Locker list"

fun held_locks :: "client \<Rightarrow> Locker list" where
  "held_locks Idle = []"
| "held_locks (Acquiring acq todo) = acq"
| "held_locks (Critical ls) = ls"
| "held_locks (Releasing ls) = ls"

inductive lock_step :: "'r redis \<Rightarrow> ('p \<Rightarrow> string) \<Rightarrow> 'r \<times> ('p \<Rightarrow> client) \<Rightarrow> 'r \<times> ('p \<Rightarrow> client) \<Rightarrow> bool"
  for R :: "'r redis" and token :: "'p \<Rightarrow> string" where
  start: "c p = Idle \<Longrightarrow>
     lock_step R token (r, c) (r, c(p := Acquiring [] (ml_lockers (NewMultiLocker keys (token p)))))"
| acquire: "c p = Acquiring acq (l # todo) \<Longrightarrow> 0 < ttl \<Longrightarrow> Lock R l ttl r = (r', Inr u) \<Longrightarrow>
     lock_step R token (r, c) (r', c(p := Acquiring (l # acq) todo))"
| refused: "c p = Acquiring acq (l # todo) \<Longrightarrow> 0 < ttl \<Longrightarrow> Lock R l ttl r = (r', Inl e) \<Longrightarrow>
     lock_step R token (r, c) (r', c(p := Releasing acq))"
| enter: "c p = Acquiring acq [] \<Longrightarrow> lock_step R token (r, c) (r, c(p := Critical acq))"
| leave: "c p = Critical ls \<Longrightarrow> lock_step R token (r, c) (r, c(p := Releasing ls))"
| release: "c p = Releasing (l # ls) \<Longrightarrow> Unlock R l r = (r', x) \<Longrightarrow>
     lock_step R token (r, c) (r', c(p := Releasing ls))"
| finish: "c p = Releasing [] \<Longrightarrow> lock_step R token (r, c) (r, c(p := Idle))"

inductive lock_reach :: "'r redis \<Rightarrow> ('p \<Rightarrow> string) \<Rightarrow> 'r \<times> ('p \<Rightarrow> client) \<Rightarrow> bool"
  for R :: "'r redis" and token :: "'p \<Rightarrow> string" where
  init: "lock_reach R token (r, \<lambda>_. Idle)"
| step: "lock_reach R token s \<Longrightarrow> lock_step R token s s' \<Longrightarrow> lock_reach R token s'"

text \<open>
  The invariant: what a client counts as taken carries its token in Redis, and its keys are
  pairwise different.
\<close>

fun todo_locks :: "client \<Rightarrow> Locker list" where
  "todo_locks (Acquiring acq todo) = todo"
| "todo_locks _ = []"

definition lock_inv :: "'r redis \<Rightarrow> ('p \<Rightarrow> string) \<Rightarrow> 'r \<times> ('p \<Rightarrow> client) \<Rightarrow> bool" where
  "lock_inv R token = (\<lambda>(r, c). \<forall>p.
     distinct (map lk_key (held_locks (c p) @ todo_locks (c p))) \<and>
     (\<forall>l \<in> set (held_locks (c p) @ todo_locks (c p)). lk_value l = token p) \<and>
     (\<forall>l \<in> set (held_locks (c p)). kv R r (lk_key l) = Some (token p)))"

lemma lock_invD:
  assumes "lock_inv R token (r, c)"
  shows "distinct (map lk_key (held_locks (c p) @ todo_locks (c p)))"
    and "l \<in> set (held_locks (c p) @ todo_locks (c p)) \<Longrightarrow> lk_value l = token p"
    and "l \<in> set (held_locks (c p)) \<Longrightarrow> kv R r (lk_key l) = Some (token p)"
  using assms by (auto simp: lock_inv_def)

lemma NewMultiLocker_locks:
  "distinct (map lk_key (ml_lockers (NewMultiLocker ks v)))"
  "map lk_key (ml_lockers (NewMultiLocker ks v)) = sort (dedup_acc [] (filter (\<lambda>k. k \<noteq> []) ks))"
  "l \<in> set (ml_lockers (NewMultiLocker ks v)) \<Longrightarrow> lk_value l = v"
  by (auto simp: NewMultiLocker_def Let_def NewLocker_def comp_def distinct_dedup_acc)

lemma lock_invI:
  assumes "lock_inv R token (r, c)"
    and "distinct (map lk_key (held_locks cl @ todo_locks cl))"
    and "\<forall>l \<in> set (held_locks cl @ todo_locks cl). lk_value l = token p"
    and "\<forall>l \<in> set (held_locks cl). kv R r' (lk_key l) = Some (token p)"
    and "\<And>q l. q \<noteq> p \<Longrightarrow> l \<in> set (held_locks (c q)) \<Longrightarrow> kv R r' (lk_key l) = Some (token q)"
  shows "lock_inv R token (r', c(p := cl))"
  using assms by (auto simp: lock_inv_def)

context redis_laws
begin

lemma inv_acquire:
  assumes inv: "lock_inv R token (r, c)" and p: "c p = Acquiring acq (l # todo)" and "0 < ttl"
    and L: "Lock R l ttl r = (r', x)"
  shows "x = Inr () \<Longrightarrow> lock_inv R token (r', c(p := Acquiring (l # acq) todo))"
    and "x = Inl e \<Longrightarrow> lock_inv R token (r', c(p := Releasing acq))"
proof -
  note D = lock_invD [OF inv, where p = p, unfolded p, simplified] and Dq = lock_invD(3) [OF inv]
  have other: "kv R r' k = Some w" if "kv R r k = Some w" for k w
    using lock_cases [OF assms(3) L] that by auto
  have mine: "lk_value l = token p" using D(2) by simp
  show "lock_inv R token (r', c(p := Acquiring (l # acq) todo))" if "x = Inr ()"
    using D lock_cases [OF assms(3) L] that mine other Dq by (intro lock_invI [OF inv]) auto
  show "lock_inv R token (r', c(p := Releasing acq))" if "x = Inl e"
    using D other Dq by (intro lock_invI [OF inv]) auto
qed

lemma inv_release:
  assumes inv: "lock_inv R token (r, c)" and "inj token" and p: "c p = Releasing (l # ls)"
    and U: "Unlock R l r = (r', x)"
  shows "lock_inv R token (r', c(p := Releasing ls))"
proof -
  note D = lock_invD [OF inv, where p = p, unfolded p, simplified] and Dq = lock_invD(3) [OF inv]
  have mine: "lk_value l = token p" using D(2) by simp
  have fresh: "lk_key m \<noteq> lk_key l" if "m \<in> set ls" for m using D(1) that by (auto simp: image_iff)
  have "kv R r' (lk_key m) = Some (token q)" if "q \<noteq> p" "m \<in> set (held_locks (c q))" for q m
  proof -
    have "token q \<noteq> token p" using assms(2) that(1) by (simp add: inj_eq)
    with unlock_cases [OF U] Dq [OF that(2)] mine show ?thesis by auto
  qed
  moreover have "kv R r' (lk_key m) = Some (token p)" if "m \<in> set ls" for m
    using unlock_cases [OF U] D(3) fresh [OF that] that by auto
  ultimately show ?thesis using D by (intro lock_invI [OF inv]) auto
qed

lemma inv_step:
  assumes "lock_step R token s s'" "inj token" "lock_inv R token s"
  shows "lock_inv R token s'"
  using assms
proof cases
  case (start c p r keys)
  then show ?thesis
    using assms(3) NewMultiLocker_locks [where ks = keys and v = "token p"]
    by (auto intro!: lock_invI dest: lock_invD(3))
next
  case (acquire c p acq l todo ttl r r' u)
  then show ?thesis using inv_acquire(1) assms(3) by (metis unit.exhaust)
next
  case (refused c p acq l todo ttl r r' e)
  then show ?thesis using inv_acquire(2) assms(3) by metis
next
  case (enter c p acq r)
  then show ?thesis using assms(3) lock_invD [where p = p and r = r and c = c]
    by (auto intro!: lock_invI dest: lock_invD(3))
next
  case (leave c p ls r)
  then show ?thesis using assms(3) lock_invD [where p = p and r = r and c = c]
    by (auto intro!: lock_invI dest: lock_invD(3))
next
  case (release c p l ls r r' x)
  then show ?thesis using inv_release assms(2,3) by simp
next
  case (finish c p r)
  then show ?thesis using assms(3) by (auto intro!: lock_invI dest: lock_invD(3))
qed

lemma inv_reach: "lock_reach R token s \<Longrightarrow> inj token \<Longrightarrow> lock_inv R token s"
proof (induction rule: lock_reach.induct)
  case (init r)
  show ?case by (simp add: lock_inv_def)
next
  case (step s s')
  then show ?case using inv_step by blast
qed

lemma mutual_exclusion:
  assumes "lock_reach R token (r, c)" "inj token" "p \<noteq> q"
  shows "keys_of (held_locks (c p)) \<inter> keys_of (held_locks (c q)) = {}"
proof -
  note inv = lock_invD(3) [OF inv_reach [OF assms(1,2)]]
  have "token p \<noteq> token q" using assms by (simp add: inj_eq)
  then show ?thesis using inv by (auto simp: keys_of_def) (metis option.inject)
qed

end

lemma wait_loop_success:
  assumes "wait_loop try cancelled terr deadline ks r = Some (r', Inr u)"
  shows "\<exists>q. try q = (r', Inr ())"
  using assms
proof (induction ks arbitrary: r)
  case (Cons k ks)
  then show ?case by (auto simp: Let_def split: if_splits prod.splits sum.splits option.splits)
qed simp

lemma wait_loop_returns:
  "\<exists>k \<in> set ks. deadline \<le> tk_now k \<Longrightarrow> \<exists>y. wait_loop try cancelled terr deadline ks r = Some y"
  by (induction ks arbitrary: r) (auto simp: Let_def split: prod.splits sum.splits option.splits)

lemma keys_of_NewMultiLocker: "keys_of (ml_lockers (NewMultiLocker keys v)) = set keys - {[]}"
proof -
  have "keys_of (ml_lockers (NewMultiLocker keys v)) = set (map lk_key (ml_lockers (NewMultiLocker keys v)))"
    by (simp add: keys_of_def)
  also have "\<dots> = set keys - {[]}" by (simp only: NewMultiLocker_locks) (auto simp: set_dedup_acc)
  finally show ?thesis .
qed

lemma MultiLock_free:
  assumes "redis_laws R" "setnx_answers R" "0 < ttl" "\<forall>k \<in> set keys - {[]}. kv R r k = None"
  shows "\<exists>r'. MultiLock R (NewMultiLocker keys v) ttl r = (r', Inr ())"
  unfolding MultiLock_def
  by (rule redis_laws.multi_lock_free [OF assms(1-3)]) (use assms(4) in \<open>simp_all add: keys_of_NewMultiLocker NewMultiLocker_locks(1)\<close>)

lemma multi_lock_result:
  assumes "redis_laws R" and "0 < ttl"
    and "MultiLock R (NewMultiLocker keys v) ttl r = (r', x)"
  shows "(x = Inr () \<longrightarrow> (\<forall>k \<in> set keys - {[]}. kv R r k = None \<and> kv R r' k = Some v) \<and>
                         (\<forall>k. k \<notin> set keys - {[]} \<longrightarrow> kv R r' k = kv R r k)) \<and>
         (\<forall>e. x = Inl e \<and> is_lock_held e \<and> reliable R \<longrightarrow>
              kv R r' = kv R r \<and> (\<exists>k \<in> set keys - {[]}. kv R r k \<noteq> None))"
proof -
  let ?m = "NewMultiLocker keys v"
  note keys = keys_of_NewMultiLocker [of keys v]
  have "multi_lock_loop R ttl [] (ml_lockers ?m) r = (r', x)" using assms(3) by (simp add: MultiLock_def)
  from redis_laws.multi_lock_all_or_nothing [OF assms(1,2) _ _ _ this, of v] show ?thesis
    using NewMultiLocker_locks(1,3) [where ks = keys and v = v] by (auto simp: keys)
qed

section \<open>Properties\<close>

text \<open>
  The steps are those of the loops: a whole call of \<open>MultiLocker.Lock\<close> or \<open>MultiLocker.Unlock\<close> that no
  other client disturbs is a run of its steps.
\<close>

lemma rollback_steps:
  "c p = Releasing ls \<Longrightarrow> (lock_step R token)\<^sup>*\<^sup>* (r, c) (rollback R ls r, c(p := Idle))"
proof (induction ls arbitrary: r c)
  case Nil
  then show ?case using r_into_rtranclp [of "lock_step R token", OF lock_step.finish [of c p R token r]] by (simp add: fun_upd_def)
next
  case (Cons l ls)
  obtain r' x where U: "Unlock R l r = (r', x)" by (cases "Unlock R l r")
  have "lock_step R token (r, c) (r', c(p := Releasing ls))" by (rule lock_step.release [where c = c and p = p, OF Cons.prems U])
  also have "(lock_step R token)\<^sup>*\<^sup>* (r', c(p := Releasing ls)) (rollback R ls r', (c(p := Releasing ls))(p := Idle))"
    by (rule Cons.IH) simp
  finally have "(lock_step R token)\<^sup>*\<^sup>* (r, c) (rollback R ls r', c(p := Idle))" unfolding fun_upd_upd .
  moreover have "rollback R (l # ls) r = rollback R ls r'" using U by simp
  ultimately show ?case by (simp only:)
qed

lemma multi_lock_steps:
  assumes "0 < ttl" "c p = Acquiring acq todo" "multi_lock_loop R ttl acq todo r = (r', x)"
  shows "(lock_step R token)\<^sup>*\<^sup>* (r, c) (r', c(p := (case x of Inr _ \<Rightarrow> Critical (rev todo @ acq) | Inl _ \<Rightarrow> Idle)))"
  using assms(2,3)
proof (induction todo arbitrary: acq r c)
  case Nil
  then have "x = Inr ()" "r' = r" by simp_all
  then show ?case using r_into_rtranclp [of "lock_step R token", OF lock_step.enter [of c p acq R token r]] Nil.prems(1) by (simp add: fun_upd_def)
next
  case (Cons l todo)
  obtain r1 y where L: "Lock R l ttl r = (r1, y)" by (cases "Lock R l ttl r")
  show ?case
  proof (cases y)
    case (Inl e)
    have "lock_step R token (r, c) (r1, c(p := Releasing acq))"
      using lock_step.refused [where c = c and p = p, OF Cons.prems(1) assms(1)] L Inl by simp
    also have "(lock_step R token)\<^sup>*\<^sup>* (r1, c(p := Releasing acq)) (rollback R acq r1, (c(p := Releasing acq))(p := Idle))"
      by (rule rollback_steps) simp
    finally have run: "(lock_step R token)\<^sup>*\<^sup>* (r, c) (rollback R acq r1, c(p := Idle))" unfolding fun_upd_upd .
    obtain e' where "x = Inl e'" and "r' = rollback R acq r1" using Cons.prems(2) L Inl by auto
    with run show ?thesis by (simp only: sum.case)
  next
    case (Inr u)
    have "lock_step R token (r, c) (r1, c(p := Acquiring (l # acq) todo))"
      using lock_step.acquire [where c = c and p = p, OF Cons.prems(1) assms(1)] L Inr by simp
    also have "(lock_step R token)\<^sup>*\<^sup>* (r1, c(p := Acquiring (l # acq) todo))
      (r', (c(p := Acquiring (l # acq) todo))(p := (case x of Inr _ \<Rightarrow> Critical (rev todo @ l # acq) | Inl _ \<Rightarrow> Idle)))"
      by (rule Cons.IH) (use Cons.prems(2) L Inr in simp_all)
    finally show ?thesis unfolding fun_upd_upd rev.simps append_assoc append_Cons append_Nil .
  qed
qed

lemma multi_unlock_rollback: "fst (multi_unlock_loop R ls e r) = rollback R ls r"
  by (induction R ls e r rule: multi_unlock_loop.induct) (auto split: prod.splits sum.splits)

lemma lock_reach_steps: "(lock_step R token)\<^sup>*\<^sup>* s s' \<Longrightarrow> lock_reach R token s \<Longrightarrow> lock_reach R token s'"
  by (induction rule: rtranclp_induct) (auto intro: lock_reach.step)

text \<open>
  C8: Mutual exclusion of the multi-key locks. The commands of any number of clients interleave
  freely: acquiring, being refused or hitting a Redis error, rolling back, working, releasing; tokens
  are unique, and no lease expires. Then in every reachable state two clients have no key in
  common among those they have taken and not yet given back, whatever each of them is doing. The
  interleaved steps are those of the code: from a reachable state with an idle client, its whole call of
  \<open>MultiLocker.Lock\<close> leads to a reachable state in which it holds all its locks, or is idle again
  when the call fails; and from its critical section so does its whole call of \<open>MultiLocker.Unlock\<close>.
\<close>
theorem multi_lock_mutual_exclusion:
  assumes "redis_laws R" and "inj token" and "lock_reach R token (r, c)"
  shows "(\<forall>p q. p \<noteq> q \<longrightarrow> keys_of (held_locks (c p)) \<inter> keys_of (held_locks (c q)) = {}) \<and>
    (\<forall>p keys ttl r' x. c p = Idle \<and> 0 < ttl \<and> MultiLock R (NewMultiLocker keys (token p)) ttl r = (r', x) \<longrightarrow>
       lock_reach R token (r', c(p := (case x of Inl _ \<Rightarrow> Idle
         | Inr _ \<Rightarrow> Critical (rev (ml_lockers (NewMultiLocker keys (token p)))))))) \<and>
    (\<forall>p m r' x. c p = Critical (rev (ml_lockers m)) \<and> MultiUnlock R m r = (r', x) \<longrightarrow> lock_reach R token (r', c(p := Idle)))"
proof (intro conjI allI impI)
  fix p q :: 'b assume "p \<noteq> q"
  then show "keys_of (held_locks (c p)) \<inter> keys_of (held_locks (c q)) = {}"
    by (rule redis_laws.mutual_exclusion [OF assms(1,3,2)])
next
  fix p keys ttl r' x
  let ?ls = "ml_lockers (NewMultiLocker keys (token p))"
  assume A: "c p = Idle \<and> 0 < ttl \<and> MultiLock R (NewMultiLocker keys (token p)) ttl r = (r', x)"
  have "lock_step R token (r, c) (r, c(p := Acquiring [] ?ls))" using A by (intro lock_step.start) simp
  also have "(lock_step R token)\<^sup>*\<^sup>* (r, c(p := Acquiring [] ?ls))
    (r', (c(p := Acquiring [] ?ls))(p := (case x of Inr _ \<Rightarrow> Critical (rev ?ls @ []) | Inl _ \<Rightarrow> Idle)))"
    by (rule multi_lock_steps [where ttl = ttl]) (use A in \<open>simp_all add: MultiLock_def\<close>)
  finally have "(lock_step R token)\<^sup>*\<^sup>* (r, c) (r', c(p := (case x of Inr _ \<Rightarrow> Critical (rev ?ls) | Inl _ \<Rightarrow> Idle)))"
    unfolding append_Nil2 fun_upd_upd .
  then show "lock_reach R token (r', c(p := (case x of Inl _ \<Rightarrow> Idle | Inr _ \<Rightarrow> Critical (rev ?ls))))"
    using lock_reach_steps assms(3) by blast
next
  fix p m r' x assume A: "c p = Critical (rev (ml_lockers m)) \<and> MultiUnlock R m r = (r', x)"
  have r': "r' = rollback R (rev (ml_lockers m)) r"
    using A multi_unlock_rollback [of R "rev (ml_lockers m)" None r] by (auto simp: MultiUnlock_def split: prod.splits option.splits)
  have "lock_step R token (r, c) (r, c(p := Releasing (rev (ml_lockers m))))" using A by (intro lock_step.leave) simp
  also have "(lock_step R token)\<^sup>*\<^sup>* (r, c(p := Releasing (rev (ml_lockers m))))
    (r', (c(p := Releasing (rev (ml_lockers m))))(p := Idle))" unfolding r' by (rule rollback_steps) simp
  finally show "lock_reach R token (r', c(p := Idle))" using lock_reach_steps assms(3) by simp
qed

text \<open>Two clients in their critical sections, one with two locks and one with one.\<close>

theorem multi_lock_mutual_exclusion_witness:
  "\<exists>r. lock_reach rs_redis (\<lambda>b. if b then ''A'' else ''B'')
       (r, (\<lambda>_. Idle)(True := Critical [NewLocker ''j'' ''A''], False := Critical [NewLocker ''l'' ''B'', NewLocker ''k'' ''B''])) \<and>
     keys_of [NewLocker ''j'' ''A''] \<inter> keys_of [NewLocker ''l'' ''B'', NewLocker ''k'' ''B''] = {}"
proof -
  let ?tok = "\<lambda>b :: bool. if b then ''A'' else ''B''"
  let ?r0 = "\<lparr>rs_now = 0, rs_map = (\<lambda>_. None)\<rparr>"
  let ?r1 = "fst (MultiLock rs_redis (NewMultiLocker [''j''] ''A'') 9 ?r0)"
  let ?r2 = "fst (MultiLock rs_redis (NewMultiLocker [''l'', ''k''] ''B'') 9 ?r1)"
  have inj: "inj ?tok" by (auto simp: inj_def)
  have ml: "ml_lockers (NewMultiLocker [''j''] ''A'') = [NewLocker ''j'' ''A'']"
    "ml_lockers (NewMultiLocker [''l'', ''k''] ''B'') = [NewLocker ''k'' ''B'', NewLocker ''l'' ''B'']" by code_simp+
  have L: "MultiLock rs_redis (NewMultiLocker [''j''] ''A'') 9 ?r0 = (?r1, Inr ())"
    "MultiLock rs_redis (NewMultiLocker [''l'', ''k''] ''B'') 9 ?r1 = (?r2, Inr ())"
    by (simp_all add: MultiLock_def ml Lock_def NewLocker_def rs_setnx_def rs_get_def)
  note M = multi_lock_mutual_exclusion [OF rs.redis_laws_axioms inj]
  have "lock_reach rs_redis ?tok (?r0, \<lambda>_. Idle)" by (rule lock_reach.init)
  from conjunct1 [OF conjunct2 [OF M [OF this]], rule_format, where p = True and ttl = 9 and keys = "[''j'']" and r' = ?r1 and x = "Inr ()"] L(1)
  have "lock_reach rs_redis ?tok (?r1, (\<lambda>_. Idle)(True := Critical [NewLocker ''j'' ''A'']))" by (simp add: ml)
  from conjunct1 [OF conjunct2 [OF M [OF this]], rule_format, where p = False and ttl = 9 and keys = "[''l'', ''k'']" and r' = ?r2 and x = "Inr ()"] L(2)
  have R: "lock_reach rs_redis ?tok (?r2, (\<lambda>_. Idle)(True := Critical [NewLocker ''j'' ''A''], False := Critical [NewLocker ''l'' ''B'', NewLocker ''k'' ''B'']))"
    by (simp add: ml)
  from conjunct1 [OF M [OF R], rule_format, where p = True and q = False] R show ?thesis by auto
qed

text \<open>
  Taking several locks is all or nothing, when no other client acts during the call and the lease
  is positive. When \<open>MultiLocker.Lock\<close> succeeds, every requested
  key was free and now carries the caller's token, and no other key changed. When it is
  refused because some key is held, and Redis fails on none of the calls that release the locks already
  taken (the code ignores their errors), those are rolled back and Redis is
  exactly as before, so a waiter holds nothing while it waits (no deadlock by hold-and-wait).
\<close>
lemma multi_lock_atomic:
  assumes "redis_laws R" and "0 < ttl"
    and "MultiLock R (NewMultiLocker keys v) ttl r = (r', x)"
  shows "(x = Inr () \<longrightarrow> (\<forall>k \<in> set keys - {[]}. kv R r k = None \<and> kv R r' k = Some v) \<and>
                         (\<forall>k. k \<notin> set keys - {[]} \<longrightarrow> kv R r' k = kv R r k)) \<and>
         (\<forall>e. x = Inl e \<and> is_lock_held e \<and> reliable R \<longrightarrow>
              kv R r' = kv R r \<and> (\<exists>k \<in> set keys - {[]}. kv R r k \<noteq> None))"
  using multi_lock_result [OF assms] .

text \<open>
  \<open>NewMultiLocker\<close> puts the keys into a canonical order. The keys are strictly increasing
  (sorted, without duplicates or empty keys) and depend only on which keys were asked for,
  so any two callers take common keys in the same order.
\<close>
lemma new_multi_locker_canonical:
  assumes "set keys = set keys'"
  shows "NewMultiLocker keys v = NewMultiLocker keys' v \<and>
         sorted_wrt (<) (ml_keys (NewMultiLocker keys v)) \<and>
         set (ml_keys (NewMultiLocker keys v)) = set keys - {[]}"
proof -
  let ?f = "\<lambda>ks :: string list. sort (dedup_acc [] (filter (\<lambda>k. k \<noteq> []) ks))"
  have set: "set (?f ks) = set ks - {[]}" for ks by (auto simp: set_dedup_acc)
  have "sorted_wrt (<) (?f ks)" for ks by (simp add: strict_sorted_iff distinct_dedup_acc)
  moreover have "?f keys = ?f keys'"
    by (rule sorted_distinct_set_unique) (use assms in \<open>auto simp: distinct_dedup_acc set_dedup_acc\<close>)
  ultimately show ?thesis using set assms by (simp add: NewMultiLocker_def Let_def)
qed

text \<open>
  Only the holder releases or extends. \<open>Unlock\<close> removes the key exactly when it carries
  the caller's token, reports success only then, and never changes another key or a lock
  owned by someone else (for instance one taken after the caller's lease ran out).
  \<open>ExtendLock\<close> never changes who holds what and fails unless the caller is the holder.
\<close>
lemma unlock_only_by_holder:
  assumes "redis_laws R" and "reliable R" and "0 < ms"
    and "Unlock R l r = (r', x)" and "ExtendLock R l (ms * 1000000) r = (r'', y)"
  shows "kv R r' = (if kv R r (lk_key l) = Some (lk_value l) then (kv R r)(lk_key l := None) else kv R r) \<and>
         (x = Inr () \<longleftrightarrow> kv R r (lk_key l) = Some (lk_value l)) \<and>
         kv R r'' = kv R r \<and> (y = Inr () \<longleftrightarrow> kv R r (lk_key l) = Some (lk_value l))"
proof -
  have ms: "sgn (ms * 1000000) * (\<bar>ms * 1000000\<bar> div 1000000) = ms" using assms(3) by simp
  obtain q n where "Eval R (unlock_script R l) r = (q, Inr n)" using assms(2) unfolding reliable_def by blast
  with assms(4) have E: "Eval R (unlock_script R l) r = (r', Inr n)" by (simp add: Unlock_def)
  obtain p k where "Eval R (extend_script R l ms) r = (p, Inr k)" using assms(2) unfolding reliable_def by blast
  with assms(5) have X: "Eval R (extend_script R l ms) r = (r'', Inr k)" unfolding ExtendLock_def ms by simp
  note S = redis_laws.eval [OF assms(1) E] redis_laws.eval [OF assms(1) X]
  show ?thesis
  proof (cases "kv R r (lk_key l) = Some (lk_value l)")
    case True
    then have "Del R (lk_key l) r = (r', n)" "PExpire R (lk_key l) ms r = (r'', k)"
      using S by (simp_all add: unlock_script_def extend_script_def kv_def)
    from redis_laws.del [OF assms(1) this(1)] redis_laws.pexpire [OF assms(1,3) this(2)] True
    show ?thesis using assms(4,5) E X unfolding Unlock_def ExtendLock_def ms by auto
  next
    case False
    then show ?thesis using assms(4,5) E X S unfolding Unlock_def ExtendLock_def ms
      by (auto simp: unlock_script_def extend_script_def kv_def)
  qed
qed

text \<open>
  C39: Waiting for locks ends. Once the clock reaches the deadline \<open>MultiLocker.WaitLock\<close> has
  returned, whatever the other clients do; if it reports success every requested key carries
  the caller's token at that moment. Between attempts it sleeps a positive time of at most
  100 ms that never runs past the deadline.
\<close>
theorem multi_wait_lock_returns:
  assumes "redis_laws R" and "0 < ttl" and "k \<in> set ticks" "start + wait \<le> tk_now k"
    and "0 < remaining" and "\<forall>b > 0. 0 \<le> Int63n b \<and> Int63n b < b"
  shows "(\<exists>r' x. MultiWaitLock R (NewMultiLocker keys v) ttl wait start ctx ticks r = Some (r', x) \<and>
            (x = Inr () \<longrightarrow> (\<forall>k \<in> set keys - {[]}. kv R r' k = Some v))) \<and>
         0 < sleepDelay remaining n Int63n \<and> sleepDelay remaining n Int63n \<le> min remaining lockBackoffMax"
proof -
  have "\<exists>y. MultiWaitLock R (NewMultiLocker keys v) ttl wait start ctx ticks r = Some y"
    using wait_loop_returns [OF bexI, OF assms(4,3)] by (cases ctx) (simp_all add: MultiWaitLock_def)
  then obtain r' x where run: "MultiWaitLock R (NewMultiLocker keys v) ttl wait start ctx ticks r = Some (r', x)"
    by force
  moreover have "\<forall>k \<in> set keys - {[]}. kv R r' k = Some v" if "x = Inr ()"
  proof -
    from run that obtain q where "MultiLock R (NewMultiLocker keys v) ttl q = (r', Inr ())"
      using wait_loop_success by (fastforce simp: MultiWaitLock_def split: option.splits)
    from multi_lock_result [OF assms(1,2) this] show ?thesis by blast
  qed
  moreover have "0 < backoff_cap n \<and> backoff_cap n \<le> lockBackoffMax"
  proof -
    have "0 < b \<Longrightarrow> 0 < backoff_loop n b" for b by (induction n b rule: backoff_loop.induct) auto
    then show ?thesis by (simp add: backoff_cap_def lockBackoffBase_def lockBackoffMax_def Let_def)
  qed
  ultimately show ?thesis
    using assms(5) assms(6) [rule_format, of "backoff_cap n"]
    by (auto simp: sleepDelay_def lockBackoffMax_def Let_def)
qed

theorem multi_wait_lock_returns_witness:
  "\<exists>r' x. MultiWaitLock rs_redis (NewMultiLocker [''k''] ''v'') 5 10 0 None
      [\<lparr>tk_now = 10, tk_world = (\<lambda>r. r), tk_ctx = None, tk_sleep = None\<rparr>] \<lparr>rs_now = 0, rs_map = Map.empty\<rparr> = Some (r', x)"
  using multi_wait_lock_returns [OF rs.redis_laws_axioms,
      of 5 "\<lparr>tk_now = 10, tk_world = (\<lambda>r. r), tk_ctx = None, tk_sleep = None\<rparr>"
         "[\<lparr>tk_now = 10, tk_world = (\<lambda>r. r), tk_ctx = None, tk_sleep = None\<rparr>]" 0 10 1 "\<lambda>_. 0"
         "[''k'']" "''v''" None "\<lparr>rs_now = 0, rs_map = Map.empty\<rparr>" 0]
  by auto

end
