(* ===== verification/Store.thy ===== *)
theory Store
  imports Balances
begin

text \<open>
  The PostgreSQL layer of the ledger (\<open>database/balance.go\<close>, \<open>database/transaction*.go\<close>,
  \<open>database/lineage.go\<close>): the tables as lists of rows, and each SQL statement of the source as
  an operation on them. A driver call can fail at any point: the argument \<open>F\<close> says which
  labelled calls do. A database transaction that returns an error leaves the tables as they
  were (\<open>defer tx.Rollback()\<close>). Numeric columns hold integers of any size; the columns an
  \<open>UPDATE\<close> or \<open>SELECT\<close> does not name keep their value, or are zero in the struct it fills.
\<close>

type_synonym faults = "string \<Rightarrow> bool"

record LineageOutbox =
  o_TransactionID :: string
  o_SourceBalanceID :: string
  o_DestinationBalanceID :: string
  o_Provider :: string
  o_LineageType :: string
  o_Amount :: float64
  o_PreciseAmount :: string
  o_Currency :: string
  o_Precision :: float64
  o_Reference :: string
  o_SkipQueue :: bool
  o_Status :: string
  o_MaxAttempts :: int
  o_Inflight :: bool
  o_ParentTransactionID :: string
  o_Attempts :: int
  o_LastError :: string
  o_ProcessedAt :: "int option"
  o_LockedUntil :: "int option"

record store =
  st_balances :: "Balance list"
  st_transactions :: "Transaction list"
  st_outbox :: "LineageOutbox list"
  st_ledgers :: "string list"

abbreviation StatusQueued :: string where "StatusQueued \<equiv> ''QUEUED''"
abbreviation StatusApplied :: string where "StatusApplied \<equiv> ''APPLIED''"
abbreviation StatusScheduled :: string where "StatusScheduled \<equiv> ''SCHEDULED''"
abbreviation StatusRejected :: string where "StatusRejected \<equiv> ''REJECTED''"
abbreviation StatusInflight :: string where "StatusInflight \<equiv> ''INFLIGHT''"
abbreviation StatusVoid :: string where "StatusVoid \<equiv> ''VOID''"
abbreviation StatusCommit :: string where "StatusCommit \<equiv> ''COMMIT''"

abbreviation internal :: "string \<Rightarrow> error" where "internal m \<equiv> APIError ErrInternalServer m"

subsection \<open>Reading balances\<close>

definition find_balance :: "string \<Rightarrow> store \<Rightarrow> Balance option" where
  "find_balance bid s = find_row b_BalanceID bid (st_balances s)"

text \<open>The struct that the lite queries fill: the brokerage and queued columns are not selected.\<close>

definition lite :: "Balance \<Rightarrow> Balance" where
  "lite b = b\<lparr>b_QueuedDebitBalance := None, b_QueuedCreditBalance := None, b_AccountRef := [],
     b_Instrument := [], b_SettleDate := None, b_SettleCode := None, b_WAPrice := [],
     b_AllocationStrategy := (if b_AllocationStrategy b = [] then ''FIFO'' else b_AllocationStrategy b)\<rparr>"

definition not_found_balance :: "string \<Rightarrow> error" where
  "not_found_balance bid = APIError ErrNotFound (''Balance with ID '' @ quoted bid @ '' not found'')"

definition GetBalanceByIDLite :: "faults \<Rightarrow> string \<Rightarrow> store \<Rightarrow> Balance res" where
  "GetBalanceByIDLite F bid s =
     (if F (''GetBalanceByIDLite:'' @ bid) then Inl (internal ''Failed to scan balance data'')
      else case find_balance bid s of
             None \<Rightarrow> Inl (not_found_balance bid)
           | Some b \<Rightarrow> Inr (lite b))"

text \<open>Queued amounts: QUEUED rows no processed child points back to.\<close>

definition still_queued :: "store \<Rightarrow> Transaction \<Rightarrow> bool" where
  "still_queued s t \<longleftrightarrow> t_Status t = StatusQueued \<and>
     \<not> (\<exists>c \<in> set (st_transactions s). t_ParentTransaction c = t_TransactionID t \<and>
          (t_Status c = StatusApplied \<or> t_Status c = StatusRejected \<or> t_Status c = StatusVoid \<or>
           t_Status c = StatusInflight))"

definition GetQueuedAmounts :: "faults \<Rightarrow> string \<Rightarrow> store \<Rightarrow> (int \<times> int) res" where
  "GetQueuedAmounts F bid s =
     (if F (''GetQueuedAmounts:'' @ bid) then Inl (Errorf ''sql: query failed'')
      else Inr (sum_list (map (\<lambda>t. or0 (t_PreciseAmount t))
                  (filter (\<lambda>t. t_Source t = bid \<and> still_queued s t) (st_transactions s))),
                sum_list (map (\<lambda>t. or0 (t_PreciseAmount t))
                  (filter (\<lambda>t. t_Destination t = bid \<and> t_Source t \<noteq> bid \<and> still_queued s t) (st_transactions s)))))"

definition GetBalanceByID :: "faults \<Rightarrow> string \<Rightarrow> bool \<Rightarrow> store \<Rightarrow> Balance res" where
  "GetBalanceByID F bid withQueued s =
     (if F (''GetBalanceByID:'' @ bid) then Inl (internal ''Failed to scan balance data'')
      else case find_balance bid s of
             None \<Rightarrow> Inl (not_found_balance bid)
           | Some b \<Rightarrow>
               if withQueued then
                 (case GetQueuedAmounts F bid s of
                    Inl e \<Rightarrow> Inl e
                  | Inr (d, c) \<Rightarrow> Inr ((lite b)\<lparr>b_QueuedDebitBalance := Some d, b_QueuedCreditBalance := Some c\<rparr>))
               else Inr (lite b))"

definition GetBalanceByIndicator :: "faults \<Rightarrow> string \<Rightarrow> string \<Rightarrow> string \<Rightarrow> store \<Rightarrow> Balance res" where
  "GetBalanceByIndicator F call indicator currency s =
     (if F (call @ indicator) then Inl (Errorf ''sql: query failed'')
      else case find (\<lambda>b. b_Indicator b = indicator \<and> b_Currency b = currency \<and> indicator \<noteq> []) (st_balances s) of
             None \<Rightarrow> Inl (Errorf (''balance with indicator '' @ quoted indicator @ '' not found''))
           | Some b \<Rightarrow> Inr (lite b))"

subsection \<open>Creating balances\<close>

text \<open>
  \<open>INSERT INTO blnk.balances\<close> with a fresh id and the current time as arguments. The inflight
  columns and the version are not named, so they take their defaults 0 and 1. The table has
  the constraint \<open>unique_indicator_currency\<close> over non-null indicators, a unique id and a
  foreign key to the ledgers.
\<close>

definition CreateBalance_db :: "faults \<Rightarrow> string \<Rightarrow> int \<Rightarrow> Balance \<Rightarrow> store \<Rightarrow> store \<times> Balance res" where
  "CreateBalance_db F bid now b0 s =
     (let b = InitializeBalanceFields (b0\<lparr>b_BalanceID := bid, b_CreatedAt := now\<rparr>);
          row = (lite b)\<lparr>b_InflightBalance := Some 0, b_InflightCreditBalance := Some 0,
                         b_InflightDebitBalance := Some 0, b_Version := 1\<rparr>
      in if F ''CreateBalance'' then (s, Inl (internal ''Failed to create balance''))
         else if b_Indicator b \<noteq> [] \<and>
             (\<exists>r \<in> set (st_balances s). b_Indicator r = b_Indicator b \<and> b_Currency r = b_Currency b)
           then (s, Inr zero_Balance)
         else if bid \<in> b_BalanceID ` set (st_balances s)
           then (s, Inl (APIError ErrConflict (''Balance already exists: '' @ bid)))
         else if b_LedgerID b \<notin> set (st_ledgers s) then (s, Inl (APIError ErrBadRequest ''Invalid ledger ID''))
         else (s\<lparr>st_balances := st_balances s @ [row]\<rparr>, Inr b))"

subsection \<open>Updating balances\<close>

definition conflict :: "string \<Rightarrow> error" where
  "conflict bid = APIError ErrConflict (''Optimistic locking failure: balance with ID '' @ quoted bid @
     '' may have been updated or deleted by another transaction'')"

definition nil_numeric :: "Balance \<Rightarrow> bool" where
  "nil_numeric b \<longleftrightarrow> None \<in> {b_Balance b, b_CreditBalance b, b_DebitBalance b, b_InflightBalance b,
     b_InflightCreditBalance b, b_InflightDebitBalance b}"

text \<open>The \<open>SET\<close> clause: the columns it writes, version + 1, every other column of the row kept.\<close>

definition written :: "Balance \<Rightarrow> Balance \<Rightarrow> Balance" where
  "written b row = row\<lparr>b_Balance := b_Balance b, b_CreditBalance := b_CreditBalance b,
     b_DebitBalance := b_DebitBalance b, b_InflightBalance := b_InflightBalance b,
     b_InflightCreditBalance := b_InflightCreditBalance b, b_InflightDebitBalance := b_InflightDebitBalance b,
     b_Currency := b_Currency b, b_LedgerID := b_LedgerID b, b_CreatedAt := b_CreatedAt b,
     b_Version := b_Version row + 1\<rparr>"

definition updateBalance :: "faults \<Rightarrow> Balance \<Rightarrow> store \<Rightarrow> (store \<times> Balance) res" where
  "updateBalance F b s =
     (if F (''updateBalance:'' @ b_BalanceID b) \<or> nil_numeric b then Inl (internal ''Failed to update balance'')
      else if F (''updateBalance.RowsAffected:'' @ b_BalanceID b) then Inl (internal ''Failed to get rows affected'')
      else case find_balance (b_BalanceID b) s of
             None \<Rightarrow> Inl (conflict (b_BalanceID b))
           | Some row \<Rightarrow>
               if b_Version row = b_Version b
               then Inr (s\<lparr>st_balances := set_row b_BalanceID (written b row) (st_balances s)\<rparr>,
                         b\<lparr>b_Version := b_Version b + 1\<rparr>)
               else Inl (conflict (b_BalanceID b)))"

text \<open>
  \<open>updateBalanceChunk\<close> is one \<open>UPDATE ... FROM (VALUES ...)\<close>: the rows whose id and version match
  are written at once; the first balance it did not update is reported.
\<close>

definition matches_row :: "store \<Rightarrow> Balance \<Rightarrow> bool" where
  "matches_row s b = (case find_balance (b_BalanceID b) s of None \<Rightarrow> False | Some row \<Rightarrow> b_Version row = b_Version b)"

fun write_matching :: "Balance list \<Rightarrow> store \<Rightarrow> store" where
  "write_matching [] s = s"
| "write_matching (b # bs) s =
     write_matching bs (case find_balance (b_BalanceID b) s of
        None \<Rightarrow> s
      | Some row \<Rightarrow> if b_Version row = b_Version b
                    then s\<lparr>st_balances := set_row b_BalanceID (written b row) (st_balances s)\<rparr> else s)"

definition updateBalanceChunk :: "faults \<Rightarrow> Balance list \<Rightarrow> store \<Rightarrow> store res" where
  "updateBalanceChunk F bs s =
     (if bs = [] then Inr s
      else if F ''updateBalanceChunk'' \<or> list_ex nil_numeric bs then Inl (internal ''Failed to update balance set'')
      else if F ''updateBalanceChunk.Scan'' then Inl (internal ''Failed to scan updated balance'')
      else if F ''updateBalanceChunk.Rows'' then Inl (internal ''Failed while iterating updated balances'')
      else case find (\<lambda>b. \<not> matches_row s b) bs of
             Some b \<Rightarrow> Inl (conflict (b_BalanceID b))
           | None \<Rightarrow> Inr (write_matching bs s))"

definition maxBalancesPerUpdateChunk :: nat where "maxBalancesPerUpdateChunk = 1000"

function update_chunks :: "faults \<Rightarrow> Balance list \<Rightarrow> store \<Rightarrow> store res" where
  "update_chunks F bs s =
     (if bs = [] then Inr s
      else case updateBalanceChunk F (take maxBalancesPerUpdateChunk bs) s of
             Inl e \<Rightarrow> Inl e
           | Inr s' \<Rightarrow> update_chunks F (drop maxBalancesPerUpdateChunk bs) s')"
  by pat_completeness auto
termination
  by (relation "measure (\<lambda>(F, bs, s). length bs)") (auto simp: maxBalancesPerUpdateChunk_def)

declare update_chunks.simps [simp del]

text \<open>\<open>updateBalanceSet\<close> on non-nil pointers: first occurrence per id, empty ids skipped.\<close>

fun unique_balances :: "string list \<Rightarrow> Balance list \<Rightarrow> Balance list" where
  "unique_balances seen [] = []"
| "unique_balances seen (b # bs) =
     (if b_BalanceID b = [] \<or> b_BalanceID b \<in> set seen then unique_balances seen bs
      else b # unique_balances (b_BalanceID b # seen) bs)"

definition updateBalanceSet :: "faults \<Rightarrow> Balance list \<Rightarrow> store \<Rightarrow> store res" where
  "updateBalanceSet F bs s = update_chunks F (unique_balances [] bs) s"

subsection \<open>Inserting transactions\<close>

text \<open>
  The sixteen columns of \<open>blnk.transactions\<close> as the struct that a full scan would fill: the
  \<open>amount\<close> column is numeric and receives \<open>AmountString\<close>.
\<close>

definition row_of :: "Transaction \<Rightarrow> rat \<Rightarrow> Transaction" where
  "row_of t amount = zero_Transaction\<lparr>t_TransactionID := t_TransactionID t, t_ParentTransaction := t_ParentTransaction t,
     t_Source := t_Source t, t_Reference := t_Reference t, t_Amount := amount, t_PreciseAmount := t_PreciseAmount t,
     t_Precision := t_Precision t, t_Currency := t_Currency t, t_Destination := t_Destination t,
     t_Description := t_Description t, t_Status := t_Status t, t_CreatedAt := t_CreatedAt t,
     t_MetaData := t_MetaData t, t_ScheduledFor := t_ScheduledFor t, t_Hash := t_Hash t,
     t_EffectiveDate := t_EffectiveDate t\<rparr>"

text \<open>
  The insert is refused by the driver or the server: an amount that is no numeric literal, a
  nil precise amount, a duplicate id or reference (\<open>idx_transactions_reference_unique\<close>), or a
  source or destination that is no balance.
\<close>

definition insert_row :: "faults \<Rightarrow> string \<Rightarrow> Transaction \<Rightarrow> store \<Rightarrow> store option" where
  "insert_row F call t s =
     (if F (call @ t_TransactionID t) \<or> t_PreciseAmount t = None \<or>
         t_TransactionID t \<in> t_TransactionID ` set (st_transactions s) \<or>
         t_Reference t \<in> t_Reference ` set (st_transactions s) \<or>
         find_balance (t_Source t) s = None \<or> find_balance (t_Destination t) s = None
      then None
      else case parse_decimal (t_AmountString t) of
             None \<Rightarrow> None
           | Some amount \<Rightarrow> Some (s\<lparr>st_transactions := st_transactions s @ [row_of t amount]\<rparr>))"

definition recordTransactionInTx :: "faults \<Rightarrow> Transaction \<Rightarrow> store \<Rightarrow> store res" where
  "recordTransactionInTx F t s =
     (case insert_row F ''recordTransactionInTx:'' t s of
        None \<Rightarrow> Inl (internal ''Failed to record transaction'') | Some s' \<Rightarrow> Inr s')"

text \<open>\<open>Datasource.RecordTransaction\<close>: a single statement outside any transaction.\<close>

definition RecordTransaction_db :: "faults \<Rightarrow> Transaction \<Rightarrow> store \<Rightarrow> store \<times> Transaction res" where
  "RecordTransaction_db F t s =
     (case insert_row F ''RecordTransaction:'' t s of
        None \<Rightarrow> (s, Inl (internal ''Failed to record transaction'')) | Some s' \<Rightarrow> (s', Inr t))"

text \<open>
  \<open>recordTransactionsInTx\<close> streams the rows with COPY: the server checks each row it receives,
  and reports a violation when a later row is sent, when the buffer is flushed or when the
  statement is closed. \<open>F ''copy.flush''\<close> chooses between the last two messages.
\<close>

fun copy_rows :: "faults \<Rightarrow> Transaction list \<Rightarrow> store \<Rightarrow> store option" where
  "copy_rows F [] s = Some s"
| "copy_rows F (t # ts) s =
     (case insert_row (\<lambda>_. False) [] t s of None \<Rightarrow> None | Some s' \<Rightarrow> copy_rows F ts s')"

definition recordTransactionsInTx :: "faults \<Rightarrow> Transaction list \<Rightarrow> store \<Rightarrow> store res" where
  "recordTransactionsInTx F ts s =
     (if ts = [] then Inr s
      else if F ''copy.prepare'' then Inl (internal ''Failed to prepare transaction copy'')
      else if F ''copy.row'' then Inl (internal ''Failed to stream transaction copy row'')
      else case copy_rows F ts s of
             None \<Rightarrow> Inl (internal (if F ''copy.flush'' then ''Failed to flush transaction copy''
                                    else ''Failed to finalize transaction copy''))
           | Some s' \<Rightarrow>
               if F ''copy.flush'' then Inl (internal ''Failed to flush transaction copy'')
               else if F ''copy.close'' then Inl (internal ''Failed to finalize transaction copy'')
               else Inr s')"

subsection \<open>The lineage outbox\<close>

text \<open>The outbox has a unique index on the transaction id; rows are inserted as pending.\<close>

definition pending :: "LineageOutbox \<Rightarrow> LineageOutbox" where
  "pending o' = o'\<lparr>o_Status := ''pending'', o_Attempts := 0, o_LastError := [], o_ProcessedAt := None, o_LockedUntil := None\<rparr>"

definition outbox_insert :: "LineageOutbox \<Rightarrow> store \<Rightarrow> store option" where
  "outbox_insert o' s =
     (if o_TransactionID o' \<in> o_TransactionID ` set (st_outbox s) then None
      else Some (s\<lparr>st_outbox := st_outbox s @ [pending o']\<rparr>))"

definition InsertLineageOutboxInTx :: "faults \<Rightarrow> LineageOutbox \<Rightarrow> store \<Rightarrow> store res" where
  "InsertLineageOutboxInTx F o' s =
     (if F ''InsertLineageOutboxInTx'' then Inl (internal ''Failed to insert lineage outbox entry'')
      else case outbox_insert o' s of
             None \<Rightarrow> Inl (internal ''Failed to insert lineage outbox entry'') | Some s' \<Rightarrow> Inr s')"

definition InsertLineageOutbox :: "faults \<Rightarrow> LineageOutbox \<Rightarrow> store \<Rightarrow> store \<times> unit res" where
  "InsertLineageOutbox F o' s =
     (if F ''InsertLineageOutbox'' then (s, Inl (internal ''Failed to insert lineage outbox entry''))
      else case outbox_insert o' s of
             None \<Rightarrow> (s, Inl (internal ''Failed to insert lineage outbox entry'')) | Some s' \<Rightarrow> (s', Inr ()))"

fun outbox_insert_all :: "LineageOutbox list \<Rightarrow> store \<Rightarrow> store option" where
  "outbox_insert_all [] s = Some s"
| "outbox_insert_all (o' # os) s =
     (case outbox_insert o' s of None \<Rightarrow> None | Some s' \<Rightarrow> outbox_insert_all os s')"

text \<open>\<open>insertLineageOutboxesInTx\<close>: one multi-row insert of the non-nil entries.\<close>

definition insertLineageOutboxesInTx :: "faults \<Rightarrow> LineageOutbox option list \<Rightarrow> store \<Rightarrow> store res" where
  "insertLineageOutboxesInTx F outboxes s =
     (let os = map the (filter (\<lambda>x. x \<noteq> None) outboxes) in
      if os = [] then Inr s
      else if F ''outboxes.query'' then Inl (internal ''Failed to insert lineage outbox entries'')
      else case outbox_insert_all os s of
             None \<Rightarrow> Inl (internal ''Failed to insert lineage outbox entries'')
           | Some s' \<Rightarrow>
               if F ''outboxes.scan'' then Inl (internal ''Failed to scan inserted lineage outbox entry'')
               else if F ''outboxes.rows'' then Inl (internal ''Failed while iterating inserted lineage outbox entries'')
               else Inr s')"

subsection \<open>Atomic recording\<close>

text \<open>\<open>BeginTx\<close>, the body, \<open>Commit\<close>; on an error the deferred rollback restores the tables.\<close>

definition in_tx :: "faults \<Rightarrow> (store \<Rightarrow> (store \<times> 'a) res) \<Rightarrow> store \<Rightarrow> store \<times> 'a res" where
  "in_tx F body s =
     (if F ''BeginTx'' then (s, Inl (internal ''Failed to begin transaction''))
      else case body s of
             Inl e \<Rightarrow> (s, Inl e)
           | Inr (s', x) \<Rightarrow>
               if F ''Commit'' then (s, Inl (internal ''Failed to commit transaction'')) else (s', Inr x))"

definition RecordTransactionWithBalances ::
    "faults \<Rightarrow> Transaction \<Rightarrow> Balance \<Rightarrow> Balance \<Rightarrow> store \<Rightarrow> store \<times> Transaction res" where
  "RecordTransactionWithBalances F t sb db = in_tx F (\<lambda>s0.
     case updateBalance F sb s0 of Inl e \<Rightarrow> Inl e | Inr (s1, _) \<Rightarrow>
     (case updateBalance F db s1 of Inl e \<Rightarrow> Inl e | Inr (s2, _) \<Rightarrow>
      (case recordTransactionInTx F t s2 of Inl e \<Rightarrow> Inl e | Inr s3 \<Rightarrow> Inr (s3, t))))"

definition RecordTransactionWithBalancesAndOutbox ::
    "faults \<Rightarrow> Transaction \<Rightarrow> Balance \<Rightarrow> Balance \<Rightarrow> LineageOutbox option \<Rightarrow> store \<Rightarrow> store \<times> Transaction res" where
  "RecordTransactionWithBalancesAndOutbox F t sb db outbox = in_tx F (\<lambda>s0.
     case updateBalance F sb s0 of Inl e \<Rightarrow> Inl e | Inr (s1, _) \<Rightarrow>
     (case updateBalance F db s1 of Inl e \<Rightarrow> Inl e | Inr (s2, _) \<Rightarrow>
      (case recordTransactionInTx F t s2 of Inl e \<Rightarrow> Inl e | Inr s3 \<Rightarrow>
       (case outbox of
          None \<Rightarrow> Inr (s3, t)
        | Some o' \<Rightarrow>
            (case InsertLineageOutboxInTx F o' s3 of
               Inl e \<Rightarrow> Inl (Wrap ''failed to insert lineage outbox'' e)
             | Inr s4 \<Rightarrow> Inr (s4, t))))))"

definition RecordTransactionsWithBalanceSetAndOutboxes ::
    "faults \<Rightarrow> Transaction list \<Rightarrow> Balance list \<Rightarrow> LineageOutbox option list \<Rightarrow> store
       \<Rightarrow> store \<times> Transaction list res" where
  "RecordTransactionsWithBalanceSetAndOutboxes F ts bs outboxes = in_tx F (\<lambda>s0.
     case updateBalanceSet F bs s0 of Inl e \<Rightarrow> Inl e | Inr s1 \<Rightarrow>
     (case recordTransactionsInTx F ts s1 of Inl e \<Rightarrow> Inl e | Inr s2 \<Rightarrow>
      (case insertLineageOutboxesInTx F outboxes s2 of
         Inl e \<Rightarrow> Inl (Wrap ''failed to insert lineage outboxes'' e)
       | Inr s3 \<Rightarrow> Inr (s3, ts))))"

definition UpdateBalances_db :: "faults \<Rightarrow> Balance \<Rightarrow> Balance \<Rightarrow> store \<Rightarrow> store \<times> unit res" where
  "UpdateBalances_db F sb db = in_tx F (\<lambda>s0.
     case updateBalance F sb s0 of Inl e \<Rightarrow> Inl e | Inr (s1, _) \<Rightarrow>
     (case updateBalance F db s1 of Inl e \<Rightarrow> Inl e | Inr (s2, _) \<Rightarrow> Inr (s2, ())))"

subsection \<open>Transaction queries\<close>

definition TransactionExistsByRef :: "faults \<Rightarrow> string \<Rightarrow> store \<Rightarrow> bool res" where
  "TransactionExistsByRef F reference s =
     (if F ''TransactionExistsByRef'' then Inl (internal ''Failed to check if transaction exists'')
      else Inr (reference \<in> t_Reference ` set (st_transactions s)))"

definition TransactionExistsByIDOrParentID :: "faults \<Rightarrow> string \<Rightarrow> store \<Rightarrow> bool res" where
  "TransactionExistsByIDOrParentID F tid s =
     (if F ''TransactionExistsByIDOrParentID'' then Inl (internal ''Failed to check if transaction exists'')
      else Inr (\<exists>t \<in> set (st_transactions s). t_TransactionID t = tid \<or> t_ParentTransaction t = tid))"

text \<open>The map of references that exist, as the list of those asked for that do.\<close>

definition GetExistingTransactionReferences :: "faults \<Rightarrow> string list \<Rightarrow> store \<Rightarrow> string list res" where
  "GetExistingTransactionReferences F refs s =
     (if refs = [] then Inr []
      else if F ''GetExistingTransactionReferences'' then
        Inl (internal ''Failed to retrieve existing transaction references'')
      else Inr (filter (\<lambda>r. r \<in> t_Reference ` set (st_transactions s)) refs))"

text \<open>The columns \<open>GetTransaction\<close> selects; it never returns \<open>sql.ErrNoRows\<close> itself.\<close>

definition GetTransaction :: "faults \<Rightarrow> string \<Rightarrow> store \<Rightarrow> Transaction res" where
  "GetTransaction F tid s =
     (if F (''GetTransaction:'' @ tid) then Inl (internal ''Failed to retrieve transaction'')
      else case find_row t_TransactionID tid (st_transactions s) of
             None \<Rightarrow> Inl (APIError ErrNotFound (''Transaction with ID '' @ quoted tid @ '' not found''))
           | Some t \<Rightarrow> Inr (t\<lparr>t_ScheduledFor := 0, t_EffectiveDate := None\<rparr>))"

definition GetTransactionByRef :: "faults \<Rightarrow> string \<Rightarrow> store \<Rightarrow> Transaction res" where
  "GetTransactionByRef F reference s =
     (if F (''GetTransactionByRef:'' @ reference) then Inl (internal ''Failed to retrieve transaction'')
      else case find_row t_Reference reference (st_transactions s) of
             None \<Rightarrow> Inl (APIError ErrNotFound (''Transaction with reference '' @ quoted reference @ '' not found''))
           | Some t \<Rightarrow> Inr (t\<lparr>t_ScheduledFor := 0, t_EffectiveDate := None, t_Precision := 0, t_Hash := []\<rparr>))"

definition IsParentTransactionVoid :: "faults \<Rightarrow> string \<Rightarrow> store \<Rightarrow> bool res" where
  "IsParentTransactionVoid F pid s =
     (if F ''IsParentTransactionVoid'' then Inl (internal ''Failed to check if parent transaction is void'')
      else Inr (\<exists>t \<in> set (st_transactions s). t_ParentTransaction t = pid \<and> t_Status t = StatusVoid))"

definition committed_children :: "string \<Rightarrow> store \<Rightarrow> Transaction list" where
  "committed_children pid s =
     filter (\<lambda>t. t_ParentTransaction t = pid \<and> t_Status t = StatusApplied) (st_transactions s)"

definition total_committed :: "string \<Rightarrow> store \<Rightarrow> int" where
  "total_committed pid s = sum_list (map (\<lambda>t. or0 (t_PreciseAmount t)) (committed_children pid s))"

definition GetTotalCommittedTransactions :: "faults \<Rightarrow> string \<Rightarrow> store \<Rightarrow> int res" where
  "GetTotalCommittedTransactions F pid s =
     (if F ''GetTotalCommittedTransactions'' then Inl (internal ''Failed to get total committed transactions'')
      else Inr (total_committed pid s))"

definition IsTransactionRefunded :: "faults \<Rightarrow> Transaction \<Rightarrow> store \<Rightarrow> bool res" where
  "IsTransactionRefunded F t s =
     (if F ''IsTransactionRefunded'' then Inl (internal ''Failed to check refund status'')
      else Inr (\<exists>r \<in> set (st_transactions s). t_ParentTransaction r = t_TransactionID t \<and>
                  t_Source r = t_Destination t \<and> t_Destination r = t_Source t))"

section \<open>Facts\<close>

text \<open>
  The integrity of the tables: unique keys, initialised and consistent rows, non-negative
  holds, and precise amounts that are never null.
\<close>

definition row_ok :: "Balance \<Rightarrow> bool" where
  "row_ok b \<longleftrightarrow> initialised b \<and> holds_ok b \<and> b_BalanceID b \<noteq> [] \<and>
     b_QueuedDebitBalance b = None \<and> b_QueuedCreditBalance b = None"

definition store_ok :: "store \<Rightarrow> bool" where
  "store_ok s \<longleftrightarrow> distinct (map b_BalanceID (st_balances s)) \<and> (\<forall>b \<in> set (st_balances s). row_ok b) \<and>
     distinct (map t_TransactionID (st_transactions s)) \<and> distinct (map t_Reference (st_transactions s)) \<and>
     (\<forall>t \<in> set (st_transactions s). t_PreciseAmount t \<noteq> None)"

text \<open>Column totals over the whole balance table.\<close>

definition total :: "(Balance \<Rightarrow> int) \<Rightarrow> store \<Rightarrow> int" where
  "total f s = sum_list (map f (st_balances s))"

abbreviation net :: "Balance \<Rightarrow> int" where "net b \<equiv> cr b - dr b"
abbreviation inet :: "Balance \<Rightarrow> int" where "inet b \<equiv> icr b - idr b"

lemma in_tx_cases:
  assumes "in_tx F body s = (s', x)"
  shows "(\<exists>e. x = Inl e \<and> s' = s) \<or> (\<exists>y. x = Inr y \<and> body s = Inr (s', y))"
  using assms by (cases "body s") (auto simp: in_tx_def split: if_splits prod.splits)

lemma find_balance_SomeD:
  "find_balance bid s = Some b \<Longrightarrow> b_BalanceID b = bid \<and> b \<in> set (st_balances s)"
  unfolding find_balance_def by (rule find_row_Some)

lemma store_okD:
  assumes "store_ok s"
  shows "distinct (map b_BalanceID (st_balances s))" "find_balance bid s = Some b \<Longrightarrow> row_ok b"
  using assms by (auto simp: store_ok_def dest: find_balance_SomeD)

lemma lite_fields [simp]:
  "cr (lite b) = cr b" "dr (lite b) = dr b" "icr (lite b) = icr b" "idr (lite b) = idr b"
  "bal (lite b) = bal b" "ibal (lite b) = ibal b" "b_BalanceID (lite b) = b_BalanceID b"
  "b_Version (lite b) = b_Version b" "b_Currency (lite b) = b_Currency b" "b_LedgerID (lite b) = b_LedgerID b"
  "b_CreatedAt (lite b) = b_CreatedAt b" "b_QueuedDebitBalance (lite b) = None"
  by (simp_all add: lite_def)

lemma written_fields [simp]:
  "cr (written b r) = cr b" "dr (written b r) = dr b" "icr (written b r) = icr b" "idr (written b r) = idr b"
  "bal (written b r) = bal b" "ibal (written b r) = ibal b" "b_BalanceID (written b r) = b_BalanceID r"
  "b_Version (written b r) = b_Version r + 1"
  by (simp_all add: written_def)

lemma updateBalance_ok:
  assumes "updateBalance F b s = Inr (s', b')"
  obtains row where "find_balance (b_BalanceID b) s = Some row" "b_Version row = b_Version b"
    "s' = s\<lparr>st_balances := set_row b_BalanceID (written b row) (st_balances s)\<rparr>" "\<not> nil_numeric b"
  using assms by (auto simp: updateBalance_def split: if_splits option.splits)

text \<open>Both rows of a movement written: what is in the table afterwards, for different ids.\<close>

lemma find_balance_set:
  "find_balance k (s\<lparr>st_balances := set_row b_BalanceID new (st_balances s)\<rparr>) =
     (if k = b_BalanceID new then (if find_balance k s = None then None else Some new) else find_balance k s)"
  by (simp add: find_balance_def find_row_set_row)

lemma total_set:
  assumes "distinct (map b_BalanceID (st_balances s))" "find_balance (b_BalanceID new) s = Some old"
  shows "total f (s\<lparr>st_balances := set_row b_BalanceID new (st_balances s)\<rparr>) = total f s - f old + f new"
  using sum_list_set_row [of b_BalanceID "st_balances s" new old f] assms
  by (simp add: total_def find_balance_def)

subsection \<open>The table interface\<close>

text \<open>
  What the ledger needs of the balance table: lookups by id, a write that replaces one row,
  and column totals. \<open>movement\<close>: replacing two rows by rows with the same combined value
  leaves a column total unchanged.
\<close>

locale balance_table =
  fixes get :: "'s \<Rightarrow> string \<Rightarrow> Balance option" and put :: "Balance \<Rightarrow> 's \<Rightarrow> 's"
    and tot :: "(Balance \<Rightarrow> int) \<Rightarrow> 's \<Rightarrow> int" and keyed :: "'s \<Rightarrow> bool"
  assumes get_id: "get s k = Some b \<Longrightarrow> b_BalanceID b = k"
    and get_put: "get s (b_BalanceID b) = Some old \<Longrightarrow> get (put b s) k = (if k = b_BalanceID b then Some b else get s k)"
    and tot_put: "keyed s \<Longrightarrow> get s (b_BalanceID b) = Some old \<Longrightarrow> tot f (put b s) = tot f s - f old + f b"
    and keyed_put: "keyed s \<Longrightarrow> keyed (put b s)"
begin

lemma get_two:
  assumes "get s (b_BalanceID b) = Some x" "get s (b_BalanceID c) = Some y" "b_BalanceID b \<noteq> b_BalanceID c"
  shows "get (put c (put b s)) k =
    (if k = b_BalanceID c then Some c else if k = b_BalanceID b then Some b else get s k)"
  using assms get_put [of s b x] get_put [of "put b s" c y] by simp

lemma tot_two:
  assumes "keyed s" "get s (b_BalanceID b) = Some x" "get s (b_BalanceID c) = Some y" "b_BalanceID b \<noteq> b_BalanceID c"
  shows "tot f (put c (put b s)) = tot f s - f x + f b - f y + f c"
  using assms get_put [of s b x] tot_put [of s b x] tot_put [of "put b s" c y] keyed_put by simp

lemma movement:
  assumes "keyed s" "get s (b_BalanceID b) = Some x" "get s (b_BalanceID c) = Some y" "b_BalanceID b \<noteq> b_BalanceID c"
    and "f b + f c = f x + f y"
  shows "tot f (put c (put b s)) = tot f s"
  using tot_two [OF assms(1-4), of f] assms(5) by simp

end

definition put_balance :: "Balance \<Rightarrow> store \<Rightarrow> store" where
  "put_balance b s = s\<lparr>st_balances := set_row b_BalanceID b (st_balances s)\<rparr>"

interpretation tbl: balance_table "\<lambda>s k. find_balance k s" put_balance total
    "\<lambda>s. distinct (map b_BalanceID (st_balances s))"
  by unfold_locales
     (auto simp: put_balance_def find_balance_set total_set dest: find_balance_SomeD)

lemma put_balance_keeps [simp]:
  "st_transactions (put_balance b s) = st_transactions s" "st_outbox (put_balance b s) = st_outbox s"
  "map b_BalanceID (st_balances (put_balance b s)) = map b_BalanceID (st_balances s)"
  by (simp_all add: put_balance_def)

lemma updateBalance_put:
  assumes "updateBalance F b s = Inr (s', b')"
  obtains row where "find_balance (b_BalanceID b) s = Some row" "b_Version row = b_Version b"
    "s' = put_balance (written b row) s" "\<not> nil_numeric b"
  using updateBalance_ok [OF assms] by (auto simp: put_balance_def)

text \<open>Row invariants survive a write, and an insert appends exactly one row.\<close>

lemma initialised_iff: "initialised b \<longleftrightarrow> \<not> nil_numeric b"
  by (cases b) (auto simp: initialised_def nil_numeric_def InitializeBalanceFields_def or0_def split: option.splits)

lemma nil_numeric_written [simp]: "nil_numeric (written b row) \<longleftrightarrow> nil_numeric b"
  by (simp add: nil_numeric_def written_def)

lemma row_ok_written: "row_ok row \<Longrightarrow> holds_ok b \<Longrightarrow> \<not> nil_numeric b \<Longrightarrow> row_ok (written b row)"
  by (simp add: row_ok_def holds_ok_def consistent_def initialised_iff) (simp add: written_def)

lemma store_ok_put:
  assumes "store_ok s" "row_ok b"
  shows "store_ok (put_balance b s)"
  using assms set_row_all [of "st_balances s" row_ok b _ b_BalanceID]
  by (auto simp: store_ok_def put_balance_def)

lemma insert_row_ok:
  assumes "insert_row F call t s = Some s'"
  obtains amount where "s' = s\<lparr>st_transactions := st_transactions s @ [row_of t amount]\<rparr>"
    "t_PreciseAmount t \<noteq> None" "t_TransactionID t \<notin> t_TransactionID ` set (st_transactions s)"
    "t_Reference t \<notin> t_Reference ` set (st_transactions s)"
  using assms by (auto simp: insert_row_def split: if_splits option.splits)

lemma row_of_sel [simp]:
  "t_TransactionID (row_of t a) = t_TransactionID t" "t_Reference (row_of t a) = t_Reference t"
  "t_PreciseAmount (row_of t a) = t_PreciseAmount t" "t_Status (row_of t a) = t_Status t"
  "t_ParentTransaction (row_of t a) = t_ParentTransaction t" "t_Source (row_of t a) = t_Source t"
  "t_Destination (row_of t a) = t_Destination t" "t_Currency (row_of t a) = t_Currency t"
  by (simp_all add: row_of_def)

lemma insert_row_store_ok:
  assumes "insert_row F call t s = Some s'" "store_ok s"
  shows "store_ok s'"
  using assms(1) by (rule insert_row_ok) (use assms(2) in \<open>auto simp: store_ok_def\<close>)

end
