(* ===== verification/Ledger.thy ===== *)
theory Ledger
  imports Store Locks
begin

text \<open>
  Recording one transaction (\<open>transaction_execution.go\<close>, with \<open>getOrCreateBalanceByIndicator\<close> of
  \<open>balance.go\<close> and \<open>PrepareLineageOutbox\<close> of \<open>lineage_outbox.go\<close>): resolve the balance ids, take
  the distributed locks, validate, apply the movement in memory, persist atomically, release.
  The surroundings are arguments collected in \<open>env\<close>: the decimal package, the Redis client,
  which database calls fail, the configuration, the clock, the UUID generator and the
  pre-transaction hook. Search indexing, webhooks, monitors, metrics and tracing run after the
  commit and do not touch this state.
\<close>

record ('d, 'r) env =
  e_D :: "'d decimal"
  e_R :: "'r redis"
  e_F :: faults
  e_EnableQueuedChecks :: bool
  e_LockDuration :: int
  e_LockWaitTimeout :: int
  e_ctxErr :: "error option"
  e_ticks :: "'r tick list"
  e_now :: int
  e_uuid :: "string \<Rightarrow> string"
  e_preHook :: "Transaction \<Rightarrow> unit res"

record 'r world =
  w_store :: store
  w_redis :: 'r

abbreviation GeneralLedgerID :: string where "GeneralLedgerID \<equiv> ''general_ledger_id''"

definition logAndRecordError :: "string \<Rightarrow> error \<Rightarrow> error" where
  "logAndRecordError msg e = Wrap msg e"

subsection \<open>Finding the balances\<close>

definition getOrCreateBalanceByIndicator ::
    "('d, 'r) env \<Rightarrow> string \<Rightarrow> string \<Rightarrow> store \<Rightarrow> store \<times> Balance res" where
  "getOrCreateBalanceByIndicator E indicator currency s =
     (let F = e_F E;
          with_queued = (\<lambda>s' b. if e_EnableQueuedChecks E then GetBalanceByID F (b_BalanceID b) True s' else Inr b)
      in if F ''config.Fetch'' then (s, Inl (Errorf ''config fetch failed''))
         else case GetBalanceByIndicator F ''GetBalanceByIndicator:'' indicator currency s of
           Inr b \<Rightarrow> (s, with_queued s b)
         | Inl _ \<Rightarrow>
             (case CreateBalance_db F (e_uuid E (''bln:'' @ indicator)) (e_now E)
                     (zero_Balance\<lparr>b_Indicator := indicator, b_LedgerID := GeneralLedgerID, b_Currency := currency\<rparr>) s of
                (s', created) \<Rightarrow>
                  (case (case created of Inl e \<Rightarrow> if str_contains (err_msg e) ''Balance already exist'' then None else Some e
                                       | Inr _ \<Rightarrow> None) of
                     Some e \<Rightarrow> (s', Inl e)
                   | None \<Rightarrow>
                       (case GetBalanceByIndicator F ''GetBalanceByIndicator.again:'' indicator currency s' of
                          Inl e \<Rightarrow> (s', Inl e)
                        | Inr b \<Rightarrow> (s', with_queued s' b)))))"

definition lookup_balance :: "('d, 'r) env \<Rightarrow> string \<Rightarrow> store \<Rightarrow> Balance res" where
  "lookup_balance E bid s =
     (if e_EnableQueuedChecks E then GetBalanceByID (e_F E) bid True s else GetBalanceByIDLite (e_F E) bid s)"

text \<open>One side of \<open>getSourceAndDestination\<close>: an indicator is resolved, an id is looked up.\<close>

definition side_balance :: "('d, 'r) env \<Rightarrow> string \<Rightarrow> string \<Rightarrow> store \<Rightarrow> store \<times> Balance res" where
  "side_balance E bid currency s =
     (if has_prefix bid ''@'' then getOrCreateBalanceByIndicator E bid currency s
      else (s, lookup_balance E bid s))"

definition getSourceAndDestination ::
    "('d, 'r) env \<Rightarrow> Transaction \<Rightarrow> store \<Rightarrow> store \<times> (Transaction \<times> Balance \<times> Balance) res" where
  "getSourceAndDestination E t0 s0 =
     (case side_balance E (t_Source t0) (t_Currency t0) s0 of
        (s1, Inl e) \<Rightarrow> (s1, Inl e)
      | (s1, Inr sb) \<Rightarrow>
          (let t1 = (if has_prefix (t_Source t0) ''@'' then t0\<lparr>t_Source := b_BalanceID sb\<rparr> else t0)
           in case side_balance E (t_Destination t1) (t_Currency t1) s1 of
                (s2, Inl e) \<Rightarrow> (s2, Inl e)
              | (s2, Inr db) \<Rightarrow>
                  (let t2 = (if has_prefix (t_Destination t1) ''@'' then t1\<lparr>t_Destination := b_BalanceID db\<rparr> else t1)
                   in (s2, Inr (t2, sb, db)))))"

definition resolve_side :: "('d, 'r) env \<Rightarrow> string \<Rightarrow> string \<Rightarrow> string \<Rightarrow> store \<Rightarrow> store \<times> string res" where
  "resolve_side E what bid currency s =
     (if has_prefix bid ''@''
      then case getOrCreateBalanceByIndicator E bid currency s of
             (s', Inl e) \<Rightarrow> (s', Inl (Wrap (''failed to resolve '' @ what @ '' balance indicator'') e))
           | (s', Inr b) \<Rightarrow> (s', Inr (b_BalanceID b))
      else (s, Inr bid))"

definition resolveBalanceIDs :: "('d, 'r) env \<Rightarrow> Transaction \<Rightarrow> store \<Rightarrow> store \<times> (string \<times> string) res" where
  "resolveBalanceIDs E t s0 =
     (case resolve_side E ''source'' (t_Source t) (t_Currency t) s0 of
        (s1, Inl e) \<Rightarrow> (s1, Inl e)
      | (s1, Inr sid) \<Rightarrow>
          (case resolve_side E ''destination'' (t_Destination t) (t_Currency t) s1 of
             (s2, Inl e) \<Rightarrow> (s2, Inl e)
           | (s2, Inr did) \<Rightarrow> (s2, Inr (sid, did))))"

subsection \<open>Locks\<close>

definition acquireTransactionLocker :: "('d, 'r) env \<Rightarrow> MultiLocker \<Rightarrow> 'r \<Rightarrow> ('r \<times> unit res) option" where
  "acquireTransactionLocker E m r =
     (if 0 < e_LockWaitTimeout E
      then MultiWaitLock (e_R E) m (e_LockDuration E) (e_LockWaitTimeout E) (e_now E) (e_ctxErr E) (e_ticks E) r
      else Some (MultiLock (e_R E) m (e_LockDuration E) r))"

definition acquireLock :: "('d, 'r) env \<Rightarrow> string \<Rightarrow> string \<Rightarrow> 'r \<Rightarrow> ('r \<times> MultiLocker res) option" where
  "acquireLock E sid did r =
     (let m = NewMultiLocker [sid, did] (e_uuid E ''loc'')
      in case acquireTransactionLocker E m r of
           None \<Rightarrow> None
         | Some (r', Inl e) \<Rightarrow> Some (r', Inl e)
         | Some (r', Inr _) \<Rightarrow> Some (r', Inr m))"

text \<open>A failed release is only logged: the lease expires on its own.\<close>

definition releaseLock :: "('d, 'r) env \<Rightarrow> MultiLocker \<Rightarrow> 'r \<Rightarrow> 'r" where
  "releaseLock E m r = fst (MultiUnlock (e_R E) m r)"

text \<open>\<open>executeWithLock\<close>; \<open>None\<close> while the locks are still being waited for.\<close>

definition executeWithLock ::
    "('d, 'r) env \<Rightarrow> Transaction \<Rightarrow> (Transaction \<Rightarrow> store \<Rightarrow> store \<times> Transaction res) \<Rightarrow> 'r world
       \<Rightarrow> ('r world \<times> Transaction res) option" where
  "executeWithLock E t fn w =
     (case resolveBalanceIDs E t (w_store w) of
        (s1, Inl e) \<Rightarrow> Some (w\<lparr>w_store := s1\<rparr>, Inl (Wrap ''failed to resolve balance IDs'' e))
      | (s1, Inr (sid, did)) \<Rightarrow>
          (let t' = t\<lparr>t_Source := sid, t_Destination := did\<rparr>
           in case acquireLock E sid did (w_redis w) of
                None \<Rightarrow> None
              | Some (r1, Inl e) \<Rightarrow>
                  Some (\<lparr>w_store = s1, w_redis = r1\<rparr>, Inl (Wrap ''failed to acquire lock'' e))
              | Some (r1, Inr m) \<Rightarrow>
                  (case fn t' s1 of (s2, x) \<Rightarrow> Some (\<lparr>w_store = s2, w_redis = releaseLock E m r1\<rparr>, x))))"

subsection \<open>Validation\<close>

definition validateTxn :: "('d, 'r) env \<Rightarrow> Transaction \<Rightarrow> store \<Rightarrow> unit res" where
  "validateTxn E t s =
     (case TransactionExistsByRef (e_F E) (t_Reference t) s of
        Inl e \<Rightarrow> Inl e
      | Inr used \<Rightarrow> if used then Inl (Errorf (''reference '' @ t_Reference t @ '' has already been used'')) else Inr ())"

text \<open>\<open>strings.ToLower\<close> on ASCII.\<close>

definition to_lower :: "string \<Rightarrow> string" where
  "to_lower = map (\<lambda>c. let k = (of_char c :: nat) in if 65 \<le> k \<and> k \<le> 90 then char_of (k + 32) else c)"

text \<open>\<open>errors.As(err, &pqErr)\<close>: through \<open>%w\<close> wrapping, but not into an \<open>APIError\<close>.\<close>

fun as_pq :: "error \<Rightarrow> (string \<times> string) option" where
  "as_pq (PqError code constraint m) = Some (code, constraint)"
| "as_pq (Wrap p e) = as_pq e"
| "as_pq _ = None"

definition IsDuplicateReferenceError :: "error option \<Rightarrow> bool" where
  "IsDuplicateReferenceError err =
     (case err of
        None \<Rightarrow> False
      | Some e \<Rightarrow>
          (case as_pq e of
             Some (code, constraint) \<Rightarrow> code = ''23505'' \<and> str_contains (to_lower constraint) ''reference''
           | None \<Rightarrow>
               let msg = to_lower (err_msg e)
               in str_contains msg ''duplicate key value violates unique constraint'' \<and> str_contains msg ''reference'' \<or>
                  str_contains msg ''reference'' \<and> str_contains msg ''already been used''))"

definition validateAndPrepareTransaction ::
    "('d, 'r) env \<Rightarrow> Transaction \<Rightarrow> store \<Rightarrow> store \<times> (Transaction \<times> Balance \<times> Balance) res" where
  "validateAndPrepareTransaction E t s =
     (case validateTxn E t s of
        Inl e \<Rightarrow> (s, Inl (logAndRecordError ''transaction validation failed'' e))
      | Inr _ \<Rightarrow>
          (case getSourceAndDestination E t s of
             (s', Inl e) \<Rightarrow> (s', Inl (logAndRecordError ''failed to get source and destination balances'' e))
           | (s', Inr (t', sb, db)) \<Rightarrow>
               (s', Inr (t'\<lparr>t_Source := b_BalanceID sb, t_Destination := b_BalanceID db\<rparr>, sb, db))))"

subsection \<open>Applying the movement\<close>

text \<open>
  \<open>applyTransactionToBalances\<close> works through two pointers \<open>s\<close> and \<open>d\<close> into a heap of balances;
  the single path holds two separately loaded structs, the batch path may pass one twice.
\<close>

definition applyTransactionToBalances ::
    "'d decimal \<Rightarrow> Transaction \<Rightarrow> 'a \<Rightarrow> 'a \<Rightarrow> ('a \<Rightarrow> Balance) \<Rightarrow> (Transaction \<times> ('a \<Rightarrow> Balance)) res" where
  "applyTransactionToBalances D t s d h =
     (if t_Status t = StatusCommit then
        (case CommitInflightDebit D t (h s) of
           Inl e \<Rightarrow> Inl (Wrap ''commit inflight debit failed'' e)
         | Inr (t1, b1) \<Rightarrow>
             (let h1 = h(s := b1) in
              case CommitInflightCredit D t1 (h1 d) of
                Inl e \<Rightarrow> Inl (Wrap ''commit inflight credit failed'' e)
              | Inr (t2, b2) \<Rightarrow> Inr (t2, h1(d := b2))))
      else if t_Status t = StatusVoid then
        (case t_PreciseAmount t of
           None \<Rightarrow> Inl NilPanic
         | Some amount \<Rightarrow>
             (case RollbackInflightDebit amount (h s) of
                Inl e \<Rightarrow> Inl (Wrap ''void inflight debit failed'' e)
              | Inr b1 \<Rightarrow>
                  (let h1 = h(s := b1) in
                   case RollbackInflightCredit amount (h1 d) of
                     Inl e \<Rightarrow> Inl (Wrap ''void inflight credit failed'' e)
                   | Inr b2 \<Rightarrow> Inr (t, h1(d := b2)))))
      else UpdateBalances D t s d h)"

text \<open>The single path: address \<open>True\<close> is the source struct, \<open>False\<close> the destination struct.\<close>

definition two_balances :: "Balance \<Rightarrow> Balance \<Rightarrow> bool \<Rightarrow> Balance" where
  "two_balances sb db x = (if x then sb else db)"

definition processBalances ::
    "('d, 'r) env \<Rightarrow> Transaction \<Rightarrow> Balance \<Rightarrow> Balance \<Rightarrow> (Transaction \<times> Balance \<times> Balance) res" where
  "processBalances E t sb db =
     (case applyTransactionToBalances (e_D E) t True False (two_balances sb db) of
        Inl e \<Rightarrow> Inl (logAndRecordError ''failed to apply transaction to balances'' e)
      | Inr (t', h) \<Rightarrow> Inr (t', h True, h False))"

subsection \<open>What is persisted\<close>

definition applicableStatus :: "string \<Rightarrow> string" where
  "applicableStatus st =
     (if st = StatusQueued \<or> st = StatusApplied \<or> st = StatusScheduled \<or> st = StatusCommit then StatusApplied
      else if st = StatusVoid then StatusVoid else [])"

definition updateTransactionDetails :: "Transaction \<Rightarrow> Balance \<Rightarrow> Balance \<Rightarrow> Transaction" where
  "updateTransactionDetails t sb db =
     t\<lparr>t_Source := b_BalanceID sb, t_Destination := b_BalanceID db,
       t_Status := (if t_Inflight t then StatusInflight else applicableStatus (t_Status t))\<rparr>"

definition LineageProviderKey :: string where "LineageProviderKey = ''BLNK_LINEAGE_PROVIDER''"

definition meta_get :: "metadata \<Rightarrow> string \<Rightarrow> json option" where
  "meta_get m k = (case m of None \<Rightarrow> None | Some f \<Rightarrow> f k)"

definition getLineageProvider :: "Transaction \<Rightarrow> string" where
  "getLineageProvider t =
     (case meta_get (t_MetaData t) LineageProviderKey of Some (JStr p) \<Rightarrow> p | _ \<Rightarrow> [])"

definition PrepareLineageOutbox :: "Transaction \<Rightarrow> Balance \<Rightarrow> Balance \<Rightarrow> LineageOutbox option" where
  "PrepareLineageOutbox t sb db =
     (let provider = getLineageProvider t;
          needsCredit = (provider \<noteq> [] \<and> b_TrackFundLineage db);
          needsDebit = b_TrackFundLineage sb
      in if \<not> needsCredit \<and> \<not> needsDebit then None
         else Some \<lparr>o_TransactionID = t_TransactionID t, o_SourceBalanceID = b_BalanceID sb,
                o_DestinationBalanceID = b_BalanceID db, o_Provider = provider,
                o_LineageType = (if needsCredit \<and> \<not> needsDebit then ''credit''
                                 else if needsDebit \<and> \<not> needsCredit then ''debit'' else ''both''),
                o_Amount = t_Amount t, o_PreciseAmount = show_int (or0 (t_PreciseAmount t)),
                o_Currency = t_Currency t, o_Precision = t_Precision t, o_Reference = t_Reference t,
                o_SkipQueue = True, o_Status = [], o_MaxAttempts = 5, o_Inflight = t_Inflight t,
                o_ParentTransactionID = [], o_Attempts = 0, o_LastError = [], o_ProcessedAt = None, o_LockedUntil = None\<rparr>)"

definition prepareTransactionOutbox :: "Transaction \<Rightarrow> Balance \<Rightarrow> Balance \<Rightarrow> LineageOutbox option" where
  "prepareTransactionOutbox t sb db =
     (if t_Status t \<noteq> StatusApplied \<and> t_Status t \<noteq> StatusInflight then None
      else if t_ParentTransaction t \<noteq> [] \<and> meta_get (t_MetaData t) ''inflight'' = Some (JBool True) then None
      else PrepareLineageOutbox t sb db)"

text \<open>The work item and whether it is skipped (a precise amount of zero is never persisted).\<close>

definition buildTransactionExecutionWork ::
    "Transaction \<Rightarrow> Balance \<Rightarrow> Balance \<Rightarrow> (Transaction \<times> LineageOutbox option) \<times> bool" where
  "buildTransactionExecutionWork t0 sb db =
     (let t = updateTransactionDetails t0 sb db
      in if t_PreciseAmount t = Some 0 then ((t, None), True)
         else ((t, prepareTransactionOutbox t sb db), False))"

definition persistSingleTransactionExecutionWork ::
    "('d, 'r) env \<Rightarrow> Transaction \<Rightarrow> LineageOutbox option \<Rightarrow> Balance \<Rightarrow> Balance \<Rightarrow> store \<Rightarrow> store \<times> Transaction res" where
  "persistSingleTransactionExecutionWork E t outbox sb db s =
     (case RecordTransactionWithBalancesAndOutbox (e_F E) t sb db outbox s of
        (s', Inl e) \<Rightarrow> (s', Inl (logAndRecordError ''failed to persist transaction with balances'' e))
      | (s', Inr t') \<Rightarrow> (s', Inr t'))"

subsection \<open>Recording\<close>

text \<open>The function that runs under the lock in \<open>recordTransactionSingle\<close>.\<close>

definition record_locked :: "('d, 'r) env \<Rightarrow> Transaction \<Rightarrow> store \<Rightarrow> store \<times> Transaction res" where
  "record_locked E t0 s0 =
     (case e_preHook E t0 of
        Inl e \<Rightarrow> (s0, Inl e)
      | Inr _ \<Rightarrow>
        (case validateAndPrepareTransaction E t0 s0 of
           (s1, Inl e) \<Rightarrow> (s1, Inl e)
         | (s1, Inr (t1, sb, db)) \<Rightarrow>
           (case processBalances E t1 sb db of
              Inl e \<Rightarrow> (s1, Inl e)
            | Inr (t2, sb', db') \<Rightarrow>
              (case buildTransactionExecutionWork t2 sb' db' of
                 ((t3, outbox), skipPersist) \<Rightarrow>
                   if skipPersist then (s1, Inr t3)
                   else persistSingleTransactionExecutionWork E t3 outbox sb' db' s1))))"

definition recordTransactionSingle :: "('d, 'r) env \<Rightarrow> Transaction \<Rightarrow> 'r world \<Rightarrow> ('r world \<times> Transaction res) option" where
  "recordTransactionSingle E t w = executeWithLock E t (record_locked E) w"

datatype execution_mode = ModeSingle | ModeQueuedBatch | ModeHotQueuedBatch

definition planTransactionExecution :: "bool \<Rightarrow> bool \<Rightarrow> execution_mode" where
  "planTransactionExecution allowQueuedBatch hotLane =
     (if allowQueuedBatch then (if hotLane then ModeHotQueuedBatch else ModeQueuedBatch) else ModeSingle)"

text \<open>\<open>RecordTransaction\<close> plans the single mode; \<open>executeTransactionPlan\<close> then records directly.\<close>

definition RecordTransaction :: "('d, 'r) env \<Rightarrow> Transaction \<Rightarrow> 'r world \<Rightarrow> ('r world \<times> Transaction res) option" where
  "RecordTransaction E t w =
     (case planTransactionExecution False False of
        ModeSingle \<Rightarrow> recordTransactionSingle E t w
      | _ \<Rightarrow> recordTransactionSingle E t w)"

section \<open>Facts\<close>

subsection \<open>Movements on a heap\<close>

lemma ApplyPrecision_precise_idem:
  "t_PreciseAmount (ApplyPrecision D (ApplyPrecision D t)) = t_PreciseAmount (ApplyPrecision D t)"
  by (auto simp: ApplyPrecision_def applyPrecisionLogic_def convertPreciseToDecimal_def
      convertDecimalToPrecise_def Let_def split: option.splits)

text \<open>
  What every successful movement between two different balances has in common: the two net
  columns keep their sum, the row invariants survive, and nothing else changes.
\<close>

definition moved :: "'a \<Rightarrow> 'a \<Rightarrow> ('a \<Rightarrow> Balance) \<Rightarrow> ('a \<Rightarrow> Balance) \<Rightarrow> bool" where
  "moved s d h h' \<longleftrightarrow>
     net (h' s) + net (h' d) = net (h s) + net (h d) \<and> inet (h' s) + inet (h' d) = inet (h s) + inet (h d) \<and>
     (\<forall>x \<in> {s, d}. (holds_ok (h x) \<longrightarrow> holds_ok (h' x)) \<and> initialised (h' x) \<and>
        b_BalanceID (h' x) = b_BalanceID (h x) \<and> b_Version (h' x) = b_Version (h x)) \<and>
     (\<forall>x. x \<notin> {s, d} \<longrightarrow> h' x = h x)"

lemma apply_commit:
  assumes "t_Status t = StatusCommit" "s \<noteq> d"
  shows "applyTransactionToBalances D t s d h = Inr (t', h') \<longleftrightarrow>
    t' = ApplyPrecision D (ApplyPrecision D t) \<and>
    (let a = or0 (t_PreciseAmount (ApplyPrecision D t)) in
     a \<le> idr (h s) \<and> a \<le> icr (h d) \<and> h' = h(s := settle_debit a (h s), d := settle_credit a (h d)))"
  using assms
  by (auto simp: applyTransactionToBalances_def inflight_eqs
      ApplyPrecision_precise_idem Let_def split: sum.splits)

lemma apply_void:
  assumes "t_Status t = StatusVoid" "s \<noteq> d"
  shows "applyTransactionToBalances D t s d h = Inr (t', h') \<longleftrightarrow>
    t' = t \<and> (\<exists>a. t_PreciseAmount t = Some a \<and> a \<le> idr (h s) \<and> a \<le> icr (h d) \<and>
                    h' = h(s := release_debit a (h s), d := release_credit a (h d)))"
  using assms
  by (auto simp: applyTransactionToBalances_def inflight_eqs Let_def split: option.splits)

lemma apply_other:
  "t_Status t \<noteq> StatusCommit \<Longrightarrow> t_Status t \<noteq> StatusVoid \<Longrightarrow>
     applyTransactionToBalances D t s d h = UpdateBalances D t s d h"
  by (simp add: applyTransactionToBalances_def)

lemma moved_posted: "s \<noteq> d \<Longrightarrow> 0 < a \<Longrightarrow> moved s d h (posted a i s d h)"
  by (auto simp: moved_def posted_fields posted_other intro: posted_holds_ok)
     (auto simp: posted_def Let_def)

lemma apply_moved:
  assumes "applyTransactionToBalances D t s d h = Inr (t', h')" "s \<noteq> d"
  shows "moved s d h h'"
proof -
  consider "t_Status t = StatusCommit" | "t_Status t = StatusVoid"
    | "t_Status t \<noteq> StatusCommit" "t_Status t \<noteq> StatusVoid" by blast
  then show ?thesis
  proof cases
    case 1
    with assms show ?thesis
      by (auto simp: apply_commit Let_def moved_def intro: hold_op_holds_ok)
  next
    case 2
    with assms show ?thesis
      by (auto simp: apply_void moved_def intro: hold_op_holds_ok)
  next
    case 3
    with assms show ?thesis by (auto simp: apply_other UpdateBalances_iff moved_posted)
  qed
qed

subsection \<open>Loading balances\<close>

text \<open>\<open>loaded row b\<close>: the struct \<open>b\<close> was read from \<open>row\<close>, perhaps with its queued amounts.\<close>

definition loaded :: "Balance \<Rightarrow> Balance \<Rightarrow> bool" where
  "loaded row b \<longleftrightarrow> (\<exists>q c. b = (lite row)\<lparr>b_QueuedDebitBalance := q, b_QueuedCreditBalance := c\<rparr>)"

lemma loaded_fields:
  assumes "loaded row b"
  shows "cr b = cr row" "dr b = dr row" "icr b = icr row" "idr b = idr row" "bal b = bal row" "ibal b = ibal row"
    "b_BalanceID b = b_BalanceID row" "b_Version b = b_Version row" "b_Currency b = b_Currency row"
  using assms by (auto simp: loaded_def)

lemma loaded_lite: "loaded row (lite row)"
proof -
  have "lite row = (lite row)\<lparr>b_QueuedDebitBalance := None, b_QueuedCreditBalance := None\<rparr>"
    by (simp add: lite_def)
  then show ?thesis unfolding loaded_def by blast
qed

lemma loaded_holds_ok: "loaded row b \<Longrightarrow> holds_ok row \<Longrightarrow> holds_ok b"
  by (simp add: holds_ok_def consistent_def loaded_fields)

text \<open>
  The table after balances have been created on the way: the ledger rows are untouched, old
  rows are still there, and new rows carry no value.
\<close>

definition grows :: "store \<Rightarrow> store \<Rightarrow> bool" where
  "grows s s' \<longleftrightarrow> store_ok s' \<and> st_transactions s' = st_transactions s \<and> st_outbox s' = st_outbox s \<and>
     (\<forall>k b. find_balance k s = Some b \<longrightarrow> find_balance k s' = Some b) \<and>
     (\<forall>k b. find_balance k s' = Some b \<longrightarrow> find_balance k s = Some b \<or> cr b = 0 \<and> dr b = 0) \<and>
     total net s' = total net s \<and> total inet s' = total inet s"

lemma grows_refl: "store_ok s \<Longrightarrow> grows s s"
  by (simp add: grows_def)

lemma grows_trans: "grows s s' \<Longrightarrow> grows s' s'' \<Longrightarrow> grows s s''"
  unfolding grows_def by (elim conjE, intro conjI) (simp_all, blast)

lemma grows_ok: "grows s s' \<Longrightarrow> store_ok s'"
  by (simp add: grows_def)

lemma find_balance_append:
  "find_balance k (s\<lparr>st_balances := st_balances s @ [b]\<rparr>) =
     (case find_balance k s of Some r \<Rightarrow> Some r | None \<Rightarrow> if b_BalanceID b = k then Some b else None)"
proof -
  have "find P (xs @ [b]) = (case find P xs of Some r \<Rightarrow> Some r | None \<Rightarrow> if P b then Some b else None)" for P xs
    by (induction xs) auto
  then show ?thesis by (simp add: find_balance_def find_row_def)
qed

lemma CreateBalance_grows:
  assumes "store_ok s" "bid \<noteq> []" "CreateBalance_db F bid now b0 s = (s', x)"
    and "cr b0 = 0" "dr b0 = 0" "bal b0 = 0"
  shows "grows s s'"
proof -
  define b where "b = InitializeBalanceFields (b0\<lparr>b_BalanceID := bid, b_CreatedAt := now\<rparr>)"
  define row where "row = (lite b)\<lparr>b_InflightBalance := Some 0, b_InflightCreditBalance := Some 0,
                         b_InflightDebitBalance := Some 0, b_Version := 1\<rparr>"
  have ini: "b_BalanceID b = bid" "b_Balance b = Some 0" "b_CreditBalance b = Some 0" "b_DebitBalance b = Some 0"
    using assms(4-) by (simp_all add: b_def InitializeBalanceFields_def)
  have row: "b_BalanceID row = bid" "row_ok row" "net row = 0" "inet row = 0" "cr row = 0" "dr row = 0"
    using assms(2) ini
    by (simp_all add: row_def row_ok_def holds_ok_def consistent_def initialised_iff nil_numeric_def lite_def)
  have "s' = s \<or> s' = s\<lparr>st_balances := st_balances s @ [row]\<rparr> \<and> bid \<notin> b_BalanceID ` set (st_balances s)"
    using assms(3) by (auto simp: CreateBalance_db_def Let_def row_def b_def split: if_splits)
  then show ?thesis
  proof
    assume "s' = s"
    with assms(1) show ?thesis by (simp add: grows_refl)
  next
    assume s': "s' = s\<lparr>st_balances := st_balances s @ [row]\<rparr> \<and> bid \<notin> b_BalanceID ` set (st_balances s)"
    then have "store_ok s'" using assms(1) row by (auto simp: store_ok_def)
    moreover have "find_balance k s' = Some r" if "find_balance k s = Some r" for k r
      using that s' by (simp add: find_balance_append)
    moreover have "find_balance k s = Some r \<or> cr r = 0 \<and> dr r = 0" if "find_balance k s' = Some r" for k r
      using that s' row by (auto simp: find_balance_append split: option.splits if_splits)
    ultimately show ?thesis using s' row by (simp add: grows_def total_def)
  qed
qed

lemma GetBalanceByID_loaded:
  assumes "GetBalanceByID F bid q s = Inr b"
  obtains row where "find_balance bid s = Some row" "loaded row b" "b_BalanceID b = bid"
proof -
  obtain row where row: "find_balance bid s = Some row"
    and "b = lite row \<or> (\<exists>x y. b = (lite row)\<lparr>b_QueuedDebitBalance := Some x, b_QueuedCreditBalance := Some y\<rparr>)"
    using assms by (auto simp: GetBalanceByID_def split: if_splits option.splits sum.splits)
  then have "loaded row b" using loaded_lite unfolding loaded_def by blast
  with row show ?thesis using that loaded_fields(7) find_balance_SomeD by metis
qed

lemma GetBalanceByIDLite_loaded:
  assumes "GetBalanceByIDLite F bid s = Inr b"
  obtains row where "find_balance bid s = Some row" "loaded row b" "b_BalanceID b = bid"
  using assms loaded_lite find_balance_SomeD
  by (fastforce simp: GetBalanceByIDLite_def split: if_splits option.splits)

lemma GetBalanceByIndicator_loaded:
  assumes "store_ok s" "GetBalanceByIndicator F call i c s = Inr b"
  obtains row where "find_balance (b_BalanceID b) s = Some row" "loaded row b"
proof -
  from assms(2) obtain row where "row \<in> set (st_balances s)" "b = lite row"
    by (auto simp: GetBalanceByIndicator_def find_Some_iff in_set_conv_nth split: if_splits option.splits)
  moreover have "find_balance (b_BalanceID row) s = Some row"
    using find_row_mem [OF store_okD(1) [OF assms(1)]] calculation(1) by (simp add: find_balance_def)
  ultimately show ?thesis using that loaded_lite by simp
qed

text \<open>An environment whose UUIDs are not empty.\<close>

definition uuids_ok :: "('d, 'r) env \<Rightarrow> bool" where
  "uuids_ok E \<longleftrightarrow> (\<forall>x. e_uuid E x \<noteq> [])"

lemma getOrCreate_spec:
  assumes "store_ok s" "uuids_ok E" "getOrCreateBalanceByIndicator E i c s = (s', x)"
  shows "grows s s'"
    and "x = Inr b \<Longrightarrow> \<exists>row. find_balance (b_BalanceID b) s' = Some row \<and> loaded row b"
proof -
  let ?z = "zero_Balance\<lparr>b_Indicator := i, b_LedgerID := GeneralLedgerID, b_Currency := c\<rparr>"
  obtain s1 y where C: "CreateBalance_db (e_F E) (e_uuid E (''bln:'' @ i)) (e_now E) ?z s = (s1, y)" by force
  have g: "grows s s1"
    by (rule CreateBalance_grows [OF assms(1) _ C]) (use assms(2) in \<open>simp_all add: uuids_ok_def zero_Balance_def\<close>)
  have "s' = s \<or> s' = s1"
    using assms(3) C
    by (auto simp: getOrCreateBalanceByIndicator_def Let_def split: if_splits sum.splits option.splits)
  then show g': "grows s s'" using g assms(1) grows_refl by blast
  show "\<exists>row. find_balance (b_BalanceID b) s' = Some row \<and> loaded row b" if "x = Inr b"
  proof -
    have "GetBalanceByID (e_F E) bid True s' = Inr b \<Longrightarrow> ?thesis" for bid
      using GetBalanceByID_loaded [of "e_F E" bid True s' b] by metis
    moreover have "GetBalanceByIndicator (e_F E) call i c s' = Inr b \<Longrightarrow> ?thesis" for call
      using GetBalanceByIndicator_loaded [OF grows_ok [OF g']] by metis
    moreover have "(\<exists>bid. GetBalanceByID (e_F E) bid True s' = Inr b) \<or>
        (\<exists>call. GetBalanceByIndicator (e_F E) call i c s' = Inr b)"
      using assms(3) that C
      by (auto simp: getOrCreateBalanceByIndicator_def Let_def split: if_splits sum.splits option.splits)
    ultimately show ?thesis by blast
  qed
qed

definition in_table :: "store \<Rightarrow> Balance \<Rightarrow> bool" where
  "in_table s b \<longleftrightarrow> (\<exists>row. find_balance (b_BalanceID b) s = Some row \<and> loaded row b)"

lemma in_table_grows: "in_table s b \<Longrightarrow> grows s s' \<Longrightarrow> in_table s' b"
  by (auto simp: in_table_def grows_def)

lemma side_balance_spec:
  assumes "store_ok s" "uuids_ok E" "side_balance E bid c s = (s', x)"
  shows "grows s s'" and "x = Inr b \<Longrightarrow> in_table s' b"
    and "x = Inr b \<Longrightarrow> \<not> has_prefix bid ''@'' \<Longrightarrow> b_BalanceID b = bid"
proof -
  show "grows s s'"
    using assms getOrCreate_spec(1) [OF assms(1,2)] grows_refl by (auto simp: side_balance_def split: if_splits)
  assume x: "x = Inr b"
  show "in_table s' b"
  proof (cases "has_prefix bid ''@''")
    case True
    with assms x show ?thesis
      using getOrCreate_spec(2) [OF assms(1,2)] by (simp add: side_balance_def in_table_def)
  next
    case False
    with assms x show ?thesis
      by (auto simp: side_balance_def lookup_balance_def in_table_def split: if_splits
          elim!: GetBalanceByID_loaded GetBalanceByIDLite_loaded)
  qed
  show "b_BalanceID b = bid" if "\<not> has_prefix bid ''@''"
    using assms(3) x that
    by (auto simp: side_balance_def lookup_balance_def split: if_splits
        elim: GetBalanceByID_loaded GetBalanceByIDLite_loaded)
qed

lemma gsd_run:
  assumes "getSourceAndDestination E t s = (s', x)"
  shows "(\<exists>e. side_balance E (t_Source t) (t_Currency t) s = (s', Inl e) \<and> x = Inl e) \<or>
    (\<exists>s1 sb. side_balance E (t_Source t) (t_Currency t) s = (s1, Inr sb) \<and>
       ((\<exists>e. side_balance E (t_Destination t) (t_Currency t) s1 = (s', Inl e) \<and> x = Inl e) \<or>
        (\<exists>db a b. side_balance E (t_Destination t) (t_Currency t) s1 = (s', Inr db) \<and>
           x = Inr (t\<lparr>t_Source := a, t_Destination := b\<rparr>, sb, db))))"
proof (cases "side_balance E (t_Source t) (t_Currency t) s")
  case (Pair s1 y)
  show ?thesis
  proof (cases y)
    case (Inl e)
    with assms Pair show ?thesis by (simp add: getSourceAndDestination_def)
  next
    case (Inr sb)
    define t1 where "t1 = (if has_prefix (t_Source t) ''@'' then t\<lparr>t_Source := b_BalanceID sb\<rparr> else t)"
    have t1: "t_Destination t1 = t_Destination t" "t_Currency t1 = t_Currency t" by (simp_all add: t1_def)
    obtain s2 z where B: "side_balance E (t_Destination t) (t_Currency t) s1 = (s2, z)" by force
    have run: "getSourceAndDestination E t s = (case z of Inl e \<Rightarrow> (s2, Inl e) | Inr db \<Rightarrow>
        (s2, Inr (if has_prefix (t_Destination t) ''@'' then t1\<lparr>t_Destination := b_BalanceID db\<rparr> else t1, sb, db)))"
      using Pair Inr B t1 by (simp add: getSourceAndDestination_def t1_def Let_def split: sum.splits)
    have "\<exists>a b. (if c then t1\<lparr>t_Destination := u\<rparr> else t1) = t\<lparr>t_Source := a, t_Destination := b\<rparr>" for c u
      by (rule exI [of _ "t_Source t1"], rule exI [of _ "if c then u else t_Destination t"]) (simp add: t1_def)
    with assms run B Pair Inr show ?thesis by (cases z) auto
  qed
qed

lemma gsd_spec:
  assumes "store_ok s" "uuids_ok E" "getSourceAndDestination E t s = (s', x)"
  shows "grows s s'"
    and "x = Inr (t', sb, db) \<Longrightarrow> in_table s' sb \<and> in_table s' db \<and> (\<exists>a b. t' = t\<lparr>t_Source := a, t_Destination := b\<rparr>)"
proof -
  have "grows s s' \<and> (x = Inr (t', sb, db) \<longrightarrow>
      in_table s' sb \<and> in_table s' db \<and> (\<exists>a b. t' = t\<lparr>t_Source := a, t_Destination := b\<rparr>))"
    using gsd_run [OF assms(3)]
  proof (elim disjE exE conjE)
    fix e assume "side_balance E (t_Source t) (t_Currency t) s = (s', Inl e)" "x = Inl e"
    then show ?thesis using side_balance_spec(1) [OF assms(1,2)] by simp
  next
    fix s1 sb' e assume A: "side_balance E (t_Source t) (t_Currency t) s = (s1, Inr sb')"
      and B: "side_balance E (t_Destination t) (t_Currency t) s1 = (s', Inl e)" "x = Inl e"
    have g: "grows s s1" using side_balance_spec(1) [OF assms(1,2) A] .
    with side_balance_spec(1) [OF grows_ok [OF g] assms(2) B(1)] B(2) grows_trans show ?thesis by blast
  next
    fix s1 sb' db' a b assume A: "side_balance E (t_Source t) (t_Currency t) s = (s1, Inr sb')"
      and B: "side_balance E (t_Destination t) (t_Currency t) s1 = (s', Inr db')"
      and x: "x = Inr (t\<lparr>t_Source := a, t_Destination := b\<rparr>, sb', db')"
    note a = side_balance_spec [OF assms(1,2) A]
    note b = side_balance_spec [OF grows_ok [OF a(1)] assms(2) B]
    show ?thesis using x a(1) a(2) [OF refl] b(1) b(2) [OF refl] grows_trans in_table_grows by blast
  qed
  then show "grows s s'" and "x = Inr (t', sb, db) \<Longrightarrow>
      in_table s' sb \<and> in_table s' db \<and> (\<exists>a b. t' = t\<lparr>t_Source := a, t_Destination := b\<rparr>)" by blast+
qed

text \<open>With plain ids (as under the lock, where indicators are resolved) the table does not grow.\<close>

definition plain_ids :: "Transaction \<Rightarrow> bool" where
  "plain_ids t \<longleftrightarrow> \<not> has_prefix (t_Source t) ''@'' \<and> \<not> has_prefix (t_Destination t) ''@''"

lemma lookup_balance_id: "lookup_balance E bid s = Inr b \<Longrightarrow> b_BalanceID b = bid"
  by (auto simp: lookup_balance_def split: if_splits elim: GetBalanceByID_loaded GetBalanceByIDLite_loaded)

lemma gsd_plain:
  assumes "getSourceAndDestination E t s = (s', Inr (t', sb, db))" "plain_ids t"
  shows "s' = s \<and> b_BalanceID sb = t_Source t \<and> b_BalanceID db = t_Destination t"
  using assms
  by (auto simp: plain_ids_def getSourceAndDestination_def side_balance_def Let_def lookup_balance_id split: sum.splits)

text \<open>What a successful atomic write leaves behind.\<close>

definition persisted :: "Transaction \<Rightarrow> Balance \<Rightarrow> Balance \<Rightarrow> LineageOutbox option \<Rightarrow> store \<Rightarrow> store \<Rightarrow> bool" where
  "persisted t sb db outbox s s' \<longleftrightarrow> (\<exists>rs rd amount.
     find_balance (b_BalanceID sb) s = Some rs \<and> b_Version rs = b_Version sb \<and> \<not> nil_numeric sb \<and>
     find_balance (b_BalanceID db) (put_balance (written sb rs) s) = Some rd \<and> b_Version rd = b_Version db \<and>
     \<not> nil_numeric db \<and> t_PreciseAmount t \<noteq> None \<and>
     t_TransactionID t \<notin> t_TransactionID ` set (st_transactions s) \<and>
     t_Reference t \<notin> t_Reference ` set (st_transactions s) \<and>
     s' = (put_balance (written db rd) (put_balance (written sb rs) s))
            \<lparr>st_transactions := st_transactions s @ [row_of t amount],
             st_outbox := st_outbox s @ (case outbox of None \<Rightarrow> [] | Some o' \<Rightarrow> [pending o'])\<rparr>)"

lemma RecordWithOutbox_ok:
  assumes "RecordTransactionWithBalancesAndOutbox F t sb db outbox s = (s', x)"
  shows "(\<exists>e. x = Inl e \<and> s' = s) \<or> (x = Inr t \<and> persisted t sb db outbox s s')"
proof (cases x)
  case (Inl e)
  with in_tx_cases [OF assms [unfolded RecordTransactionWithBalancesAndOutbox_def]] show ?thesis by auto
next
  case (Inr t')
  with in_tx_cases [OF assms [unfolded RecordTransactionWithBalancesAndOutbox_def]]
  obtain s1 b1 s2 b2 s3 where u1: "updateBalance F sb s = Inr (s1, b1)" and u2: "updateBalance F db s1 = Inr (s2, b2)"
    and i: "recordTransactionInTx F t s2 = Inr s3"
    and rest: "(case outbox of None \<Rightarrow> Inr (s3, t) | Some w \<Rightarrow>
        (case InsertLineageOutboxInTx F w s3 of Inl e \<Rightarrow> Inl (Wrap ''failed to insert lineage outbox'' e)
         | Inr s4 \<Rightarrow> Inr (s4, t))) = Inr (s', t')"
    by (auto simp: res_bind_Inr)
  then have t': "t' = t" and o': "case outbox of None \<Rightarrow> s' = s3 | Some w \<Rightarrow> InsertLineageOutboxInTx F w s3 = Inr s'"
    by (auto simp: res_bind_Inr split: option.splits)
  from u1 obtain rs where rs: "find_balance (b_BalanceID sb) s = Some rs" "b_Version rs = b_Version sb"
    "s1 = put_balance (written sb rs) s" "\<not> nil_numeric sb" by (rule updateBalance_put)
  from u2 obtain rd where rd: "find_balance (b_BalanceID db) s1 = Some rd" "b_Version rd = b_Version db"
    "s2 = put_balance (written db rd) s1" "\<not> nil_numeric db" by (rule updateBalance_put)
  from i have "insert_row F ''recordTransactionInTx:'' t s2 = Some s3"
    by (simp add: recordTransactionInTx_def split: option.splits)
  then obtain amount where a: "s3 = s2\<lparr>st_transactions := st_transactions s2 @ [row_of t amount]\<rparr>"
    "t_PreciseAmount t \<noteq> None" "t_TransactionID t \<notin> t_TransactionID ` set (st_transactions s2)"
    "t_Reference t \<notin> t_Reference ` set (st_transactions s2)" by (rule insert_row_ok)
  have "st_outbox s3 = st_outbox s" "st_transactions s2 = st_transactions s" using a rs rd by simp_all
  then have "s' = s3\<lparr>st_outbox := st_outbox s @ (case outbox of None \<Rightarrow> [] | Some o' \<Rightarrow> [pending o'])\<rparr>"
    using o' by (auto simp: InsertLineageOutboxInTx_def outbox_insert_def split: option.splits if_splits)
  then show ?thesis using Inr t' rs rd a \<open>st_transactions s2 = st_transactions s\<close> unfolding persisted_def by auto
qed

lemma find_written:
  assumes "find_balance k s = Some row"
  shows "find_balance j (put_balance (written b row) s) = (if j = k then Some (written b row) else find_balance j s)"
proof -
  have "b_BalanceID (written b row) = k" using find_balance_SomeD [OF assms] by simp
  with tbl.get_put [where s = s and b = "written b row"] assms show ?thesis by simp
qed

lemma persisted_self:
  assumes "in_table s sb" "in_table s db" "b_BalanceID sb = b_BalanceID db"
    and "b_BalanceID sb' = b_BalanceID sb" "b_Version sb' = b_Version sb"
    and "b_BalanceID db' = b_BalanceID db" "b_Version db' = b_Version db"
  shows "\<not> persisted t sb' db' o' s s'"
proof
  assume "persisted t sb' db' o' s s'"
  then obtain rs rd where rs: "find_balance (b_BalanceID sb) s = Some rs" "b_Version rs = b_Version sb"
    and rd: "find_balance (b_BalanceID sb) (put_balance (written sb' rs) s) = Some rd" "b_Version rd = b_Version db"
    using assms by (auto simp: persisted_def)
  have "b_Version sb = b_Version db" using assms(1-3) by (auto simp: in_table_def loaded_fields)
  moreover have "rd = written sb' rs"
    using rs rd find_written [OF rs(1)] by simp
  ultimately show False using rs rd by simp
qed

lemma persisted_two:
  assumes "persisted t sb' db' o' s s'" "b_BalanceID sb' \<noteq> b_BalanceID db'"
  obtains rs rd amount where
    "find_balance (b_BalanceID sb') s = Some rs" "b_Version rs = b_Version sb'" "\<not> nil_numeric sb'"
    "find_balance (b_BalanceID db') s = Some rd" "b_Version rd = b_Version db'" "\<not> nil_numeric db'"
    "s' = (put_balance (written db' rd) (put_balance (written sb' rs) s))
            \<lparr>st_transactions := st_transactions s @ [row_of t amount],
             st_outbox := st_outbox s @ (case o' of None \<Rightarrow> [] | Some w \<Rightarrow> [pending w])\<rparr>"
    "t_PreciseAmount t \<noteq> None" "t_TransactionID t \<notin> t_TransactionID ` set (st_transactions s)"
    "t_Reference t \<notin> t_Reference ` set (st_transactions s)"
proof -
  from assms(1) obtain rs rd amount where rs: "find_balance (b_BalanceID sb') s = Some rs" "b_Version rs = b_Version sb'"
    "\<not> nil_numeric sb'" and rd: "find_balance (b_BalanceID db') (put_balance (written sb' rs) s) = Some rd"
    "b_Version rd = b_Version db'" "\<not> nil_numeric db'"
    and rest: "s' = (put_balance (written db' rd) (put_balance (written sb' rs) s))
            \<lparr>st_transactions := st_transactions s @ [row_of t amount],
             st_outbox := st_outbox s @ (case o' of None \<Rightarrow> [] | Some w \<Rightarrow> [pending w])\<rparr>"
    "t_PreciseAmount t \<noteq> None" "t_TransactionID t \<notin> t_TransactionID ` set (st_transactions s)"
    "t_Reference t \<notin> t_Reference ` set (st_transactions s)"
    by (auto simp: persisted_def)
  moreover have "find_balance (b_BalanceID db') s = Some rd"
    using rd assms(2) find_written [OF rs(1)] by simp
  ultimately show ?thesis using that by blast
qed

lemma total_append [simp]: "total f (s\<lparr>st_transactions := ts, st_outbox := os\<rparr>) = total f s"
  by (simp add: total_def)

lemma find_balance_upd [simp]: "find_balance k (s\<lparr>st_transactions := ts, st_outbox := os\<rparr>) = find_balance k s"
  by (simp add: find_balance_def)

text \<open>A persisted movement keeps the tables sound and every net total.\<close>

lemma persisted_moved:
  assumes ok: "store_ok s" and sb: "in_table s sb" and db: "in_table s db" and ne: "b_BalanceID sb \<noteq> b_BalanceID db"
    and mv: "moved True False (two_balances sb db) (two_balances sb' db')"
    and pe: "persisted t sb' db' o' s s'"
  shows "store_ok s' \<and> total net s' = total net s \<and> total inet s' = total inet s"
proof -
  from sb db obtain rs rd where rs: "find_balance (b_BalanceID sb) s = Some rs" "loaded rs sb"
    and rd: "find_balance (b_BalanceID db) s = Some rd" "loaded rd db" by (auto simp: in_table_def)
  have ids: "b_BalanceID sb' = b_BalanceID sb" "b_BalanceID db' = b_BalanceID db"
    and ok': "holds_ok sb \<Longrightarrow> holds_ok sb'" "holds_ok db \<Longrightarrow> holds_ok db'"
    and nets: "net sb' + net db' = net sb + net db" "inet sb' + inet db' = inet sb + inet db"
    using mv by (auto simp: moved_def two_balances_def)
  have rows: "row_ok rs" "row_ok rd" using store_okD(2) [OF ok] rs rd by auto
  with ok' rs rd have ho: "holds_ok sb'" "holds_ok db'" using loaded_holds_ok by (auto simp: row_ok_def)
  have "b_BalanceID sb' \<noteq> b_BalanceID db'" using ne ids by simp
  from persisted_two [OF pe this] rs(1) rd(1) ids obtain amount where nn: "\<not> nil_numeric sb'" "\<not> nil_numeric db'"
    and s': "s' = (put_balance (written db' rd) (put_balance (written sb' rs) s))
            \<lparr>st_transactions := st_transactions s @ [row_of t amount],
             st_outbox := st_outbox s @ (case o' of None \<Rightarrow> [] | Some w \<Rightarrow> [pending w])\<rparr>"
    and fresh: "t_PreciseAmount t \<noteq> None" "t_TransactionID t \<notin> t_TransactionID ` set (st_transactions s)"
      "t_Reference t \<notin> t_Reference ` set (st_transactions s)" by (metis option.inject)
  have keys: "find_balance (b_BalanceID (written sb' rs)) s = Some rs" "find_balance (b_BalanceID (written db' rd)) s = Some rd"
    "b_BalanceID (written sb' rs) \<noteq> b_BalanceID (written db' rd)"
    using rs rd ne loaded_fields(7) [OF rs(2)] loaded_fields(7) [OF rd(2)] by auto
  let ?s2 = "put_balance (written db' rd) (put_balance (written sb' rs) s)"
  have "store_ok ?s2"
    by (intro store_ok_put ok row_ok_written rows ho nn)
  then have "store_ok s'" using fresh s' by (auto simp: store_ok_def)
  moreover have "total net s' = total net s" "total inet s' = total inet s"
    using tbl.movement [OF store_okD(1) [OF ok] keys, of net] tbl.movement [OF store_okD(1) [OF ok] keys, of inet]
      nets loaded_fields [OF rs(2)] loaded_fields [OF rd(2)] s' by auto
  ultimately show ?thesis by simp
qed

subsection \<open>Recording under the lock\<close>

lemma validate_prepare_spec:
  assumes "store_ok s" "uuids_ok E" "validateAndPrepareTransaction E t s = (s', x)"
  shows "grows s s'"
    and "x = Inr (t', sb, db) \<Longrightarrow> in_table s' sb \<and> in_table s' db \<and>
           t' = t\<lparr>t_Source := b_BalanceID sb, t_Destination := b_BalanceID db\<rparr> \<and>
           (plain_ids t \<longrightarrow> s' = s \<and> b_BalanceID sb = t_Source t \<and> b_BalanceID db = t_Destination t)"
proof -
  obtain s1 y where G: "getSourceAndDestination E t s = (s1, y)" by force
  note g = gsd_spec [OF assms(1,2) G]
  show "grows s s'"
    using assms(1,3) G g(1) grows_refl
    by (auto simp: validateAndPrepareTransaction_def split: sum.splits)
  assume "x = Inr (t', sb, db)"
  with assms(3) G obtain t1 where v: "validateTxn E t s = Inr ()" and y: "y = Inr (t1, sb, db)" and s': "s' = s1"
    and t': "t' = t1\<lparr>t_Source := b_BalanceID sb, t_Destination := b_BalanceID db\<rparr>"
    by (auto simp: validateAndPrepareTransaction_def split: sum.splits)
  with g(2) [OF y] gsd_plain [OF G [unfolded y]] show "in_table s' sb \<and> in_table s' db \<and>
      t' = t\<lparr>t_Source := b_BalanceID sb, t_Destination := b_BalanceID db\<rparr> \<and>
      (plain_ids t \<longrightarrow> s' = s \<and> b_BalanceID sb = t_Source t \<and> b_BalanceID db = t_Destination t)" by auto
qed

text \<open>
  The run of \<open>record_locked\<close>: it fails or discards a zero amount without touching the ledger rows,
  or it persists the applied movement.
\<close>

definition executed :: "('d, 'r) env \<Rightarrow> Transaction \<Rightarrow> store \<Rightarrow> store \<Rightarrow> Transaction \<Rightarrow> bool" where
  "executed E t s s' t3 \<longleftrightarrow> (\<exists>t2 h s1 sb db. grows s s1 \<and> in_table s1 sb \<and> in_table s1 db \<and>
     (plain_ids t \<longrightarrow> s1 = s \<and> b_BalanceID sb = t_Source t \<and> b_BalanceID db = t_Destination t) \<and>
     applyTransactionToBalances (e_D E) (t\<lparr>t_Source := b_BalanceID sb, t_Destination := b_BalanceID db\<rparr>)
       True False (two_balances sb db) = Inr (t2, h) \<and>
     t3 = updateTransactionDetails t2 (h True) (h False) \<and>
     (if t_PreciseAmount t2 = Some 0 then s' = s1
      else persisted t3 (h True) (h False) (prepareTransactionOutbox t3 (h True) (h False)) s1 s'))"

lemma record_locked_cases:
  assumes "store_ok s" "uuids_ok E" "record_locked E t s = (s', x)"
  shows "(\<exists>e. x = Inl e \<and> grows s s') \<or> (\<exists>t3. x = Inr t3 \<and> executed E t s s' t3)"
proof (cases "e_preHook E t")
  case (Inl e)
  with assms show ?thesis by (auto simp: record_locked_def grows_refl)
next
  case (Inr u)
  obtain s1 y where V: "validateAndPrepareTransaction E t s = (s1, y)" by force
  note v = validate_prepare_spec [OF assms(1,2) V]
  show ?thesis
  proof (cases y)
    case (Inl e)
    with Inr V assms(3) v(1) show ?thesis by (auto simp: record_locked_def)
  next
    case (Inr p)
    then obtain t1 sb db where y: "y = Inr (t1, sb, db)" by (cases p) auto
    note p = v(2) [OF y]
    show ?thesis
    proof (cases "applyTransactionToBalances (e_D E) t1 True False (two_balances sb db)")
      case (Inl e)
      with \<open>e_preHook E t = Inr u\<close> V y assms(3) v(1) show ?thesis
        by (auto simp: record_locked_def processBalances_def)
    next
      case (Inr q)
      obtain t2 h where q: "q = (t2, h)" by force
      let ?t3 = "updateTransactionDetails t2 (h True) (h False)"
      let ?o = "prepareTransactionOutbox ?t3 (h True) (h False)"
      have run: "record_locked E t s = (if t_PreciseAmount t2 = Some 0 then (s1, Inr ?t3)
          else persistSingleTransactionExecutionWork E ?t3 ?o (h True) (h False) s1)"
        using \<open>e_preHook E t = Inr u\<close> V y Inr q
        by (simp add: record_locked_def processBalances_def buildTransactionExecutionWork_def Let_def
            updateTransactionDetails_def)
      obtain s2 z where R: "RecordTransactionWithBalancesAndOutbox (e_F E) ?t3 (h True) (h False) ?o s1 = (s2, z)" by force
      have ex: "executed E t s s' ?t3"
        if "if t_PreciseAmount t2 = Some 0 then s' = s1 else persisted ?t3 (h True) (h False) ?o s1 s'"
        unfolding executed_def using that v(1) p Inr q
        by (intro exI [of _ t2] exI [of _ h] exI [of _ s1] exI [of _ sb] exI [of _ db]) simp
      show ?thesis
      proof (cases "t_PreciseAmount t2 = Some 0")
        case True
        with run assms(3) ex show ?thesis by simp
      next
        case False
        with run assms(3) R have "s' = s2 \<and> (\<forall>t'. z = Inr t' \<longrightarrow> x = Inr t') \<and> (\<forall>e. z = Inl e \<longrightarrow> (\<exists>e'. x = Inl e'))"
          by (cases z) (auto simp: persistSingleTransactionExecutionWork_def)
        with RecordWithOutbox_ok [OF R] False v(1) ex show ?thesis by auto
      qed
    qed
  qed
qed

text \<open>Every run of the locked section keeps the tables sound and the net totals.\<close>

lemma executed_safe:
  assumes "store_ok s" "executed E t s s' t3"
  shows "store_ok s' \<and> total net s' = total net s \<and> total inet s' = total inet s"
proof -
  from assms(2) obtain t2 h s1 sb db where g: "grows s s1" and sb: "in_table s1 sb" and db: "in_table s1 db"
    and ap: "applyTransactionToBalances (e_D E) (t\<lparr>t_Source := b_BalanceID sb, t_Destination := b_BalanceID db\<rparr>)
       True False (two_balances sb db) = Inr (t2, h)"
    and fin: "if t_PreciseAmount t2 = Some 0 then s' = s1
      else persisted t3 (h True) (h False) (prepareTransactionOutbox t3 (h True) (h False)) s1 s'"
    unfolding executed_def by blast
  have mv: "moved True False (two_balances sb db) h" using apply_moved [OF ap] by simp
  moreover have "h = two_balances (h True) (h False)" by (auto simp: fun_eq_iff two_balances_def)
  ultimately have mv': "moved True False (two_balances sb db) (two_balances (h True) (h False))" by simp
  show ?thesis
  proof (cases "t_PreciseAmount t2 = Some 0")
    case True
    with fin g show ?thesis by (simp add: grows_def)
  next
    case False
    with fin have pe: "persisted t3 (h True) (h False) (prepareTransactionOutbox t3 (h True) (h False)) s1 s'" by simp
    have keep: "b_BalanceID (h True) = b_BalanceID sb" "b_Version (h True) = b_Version sb"
      "b_BalanceID (h False) = b_BalanceID db" "b_Version (h False) = b_Version db"
      using mv by (auto simp: moved_def two_balances_def)
    have ne: "b_BalanceID sb \<noteq> b_BalanceID db" using persisted_self [OF sb db _ keep] pe by blast
    from persisted_moved [OF grows_ok [OF g] sb db ne mv' pe] g show ?thesis by (simp add: grows_def)
  qed
qed

subsection \<open>The whole operation\<close>

lemma resolve_side_spec:
  assumes "store_ok s" "uuids_ok E" "resolve_side E what bid c s = (s', x)"
  shows "grows s s'"
  using assms getOrCreate_spec(1) [OF assms(1,2)] grows_refl
  by (auto simp: resolve_side_def split: if_splits sum.splits prod.splits)

lemma resolveBalanceIDs_spec:
  assumes "store_ok s" "uuids_ok E" "resolveBalanceIDs E t s = (s', x)"
  shows "grows s s'"
proof -
  obtain s1 y where A: "resolve_side E ''source'' (t_Source t) (t_Currency t) s = (s1, y)" by force
  note a = resolve_side_spec [OF assms(1,2) A]
  obtain s2 z where B: "resolve_side E ''destination'' (t_Destination t) (t_Currency t) s1 = (s2, z)" by force
  note b = resolve_side_spec [OF grows_ok [OF a] assms(2) B]
  show ?thesis
    using assms(3) A B a grows_trans [OF a b]
    by (cases y; cases z) (auto simp: resolveBalanceIDs_def)
qed

lemma resolveBalanceIDs_plain:
  assumes "\<not> has_prefix (t_Source t) ''@''" "\<not> has_prefix (t_Destination t) ''@''"
  shows "resolveBalanceIDs E t s = (s, Inr (t_Source t, t_Destination t))"
  using assms by (simp add: resolveBalanceIDs_def resolve_side_def)

lemma RecordTransaction_cases:
  assumes "store_ok (w_store w)" "uuids_ok E" "RecordTransaction E t w = Some (w', x)"
  shows "(\<exists>e. x = Inl e \<and> grows (w_store w) (w_store w')) \<or>
    (\<exists>t3 s1 sid did. x = Inr t3 \<and> grows (w_store w) s1 \<and> resolveBalanceIDs E t (w_store w) = (s1, Inr (sid, did)) \<and>
       executed E (t\<lparr>t_Source := sid, t_Destination := did\<rparr>) s1 (w_store w') t3)"
proof -
  obtain s1 y where R: "resolveBalanceIDs E t (w_store w) = (s1, y)" by force
  note g = resolveBalanceIDs_spec [OF assms(1,2) R]
  have run: "executeWithLock E t (record_locked E) w = Some (w', x)"
    using assms(3) by (simp add: RecordTransaction_def recordTransactionSingle_def planTransactionExecution_def)
  show ?thesis
  proof (cases y)
    case (Inl e)
    with R run g show ?thesis by (auto simp: executeWithLock_def)
  next
    case (Inr ids)
    obtain sid did where ids: "ids = (sid, did)" by force
    let ?t = "t\<lparr>t_Source := sid, t_Destination := did\<rparr>"
    obtain r1 l where L: "acquireLock E sid did (w_redis w) = Some (r1, l)"
      using run R Inr ids by (auto simp: executeWithLock_def Let_def split: option.splits)
    show ?thesis
    proof (cases l)
      case (Inl e)
      with L R run g \<open>y = Inr ids\<close> ids show ?thesis by (auto simp: executeWithLock_def)
    next
      case (Inr m)
      obtain s2 z where F: "record_locked E ?t s1 = (s2, z)" by force
      with Inr L R run \<open>y = Inr ids\<close> ids have "w_store w' = s2" "x = z" by (auto simp: executeWithLock_def)
      with record_locked_cases [OF grows_ok [OF g] assms(2) F] g grows_trans R \<open>y = Inr ids\<close> ids
      show ?thesis by blast
    qed
  qed
qed

subsection \<open>Effect and progress\<close>

text \<open>\<open>field_moved\<close>: one row after another with the given changes of its gross columns.\<close>

definition row_moved :: "Balance \<Rightarrow> Balance \<Rightarrow> int \<Rightarrow> int \<Rightarrow> int \<Rightarrow> int \<Rightarrow> bool" where
  "row_moved r r' dcr ddr dicr didr \<longleftrightarrow> cr r' = cr r + dcr \<and> dr r' = dr r + ddr \<and> icr r' = icr r + dicr \<and>
     idr r' = idr r + didr \<and> b_Version r' = b_Version r + 1 \<and> b_BalanceID r' = b_BalanceID r"

lemma updateTransactionDetails_keeps [simp]:
  "t_PreciseAmount (updateTransactionDetails t sb db) = t_PreciseAmount t"
  "t_Reference (updateTransactionDetails t sb db) = t_Reference t"
  "t_TransactionID (updateTransactionDetails t sb db) = t_TransactionID t"
  "t_ParentTransaction (updateTransactionDetails t sb db) = t_ParentTransaction t"
  "t_AmountString (updateTransactionDetails t sb db) = t_AmountString t"
  "t_Source (updateTransactionDetails t sb db) = b_BalanceID sb"
  "t_Destination (updateTransactionDetails t sb db) = b_BalanceID db"
  "t_Inflight (updateTransactionDetails t sb db) = t_Inflight t"
  by (simp_all add: updateTransactionDetails_def)

lemma persisted_rows:
  assumes "persisted t sb' db' o' s s'" "b_BalanceID sb' \<noteq> b_BalanceID db'"
    and "find_balance (b_BalanceID sb') s = Some rs" "find_balance (b_BalanceID db') s = Some rd"
  shows "find_balance k s' = (if k = b_BalanceID db' then Some (written db' rd)
                              else if k = b_BalanceID sb' then Some (written sb' rs) else find_balance k s)"
    and "\<exists>am. st_transactions s' = st_transactions s @ [row_of t am]"
    and "t_Reference t \<notin> t_Reference ` set (st_transactions s)"
proof -
  from persisted_two [OF assms(1,2)] assms(3,4) obtain amount where
    s': "s' = (put_balance (written db' rd) (put_balance (written sb' rs) s))
            \<lparr>st_transactions := st_transactions s @ [row_of t amount],
             st_outbox := st_outbox s @ (case o' of None \<Rightarrow> [] | Some w \<Rightarrow> [pending w])\<rparr>"
    and fresh: "t_Reference t \<notin> t_Reference ` set (st_transactions s)" by (metis option.inject)
  have "find_balance (b_BalanceID db') (put_balance (written sb' rs) s) = Some rd"
    using find_written [OF assms(3)] assms(2,4) by simp
  from find_written [OF this] find_written [OF assms(3)] assms(2)
  show "find_balance k s' = (if k = b_BalanceID db' then Some (written db' rd)
                              else if k = b_BalanceID sb' then Some (written sb' rs) else find_balance k s)"
    by (simp add: s')
  show "\<exists>am. st_transactions s' = st_transactions s @ [row_of t am]" by (auto simp: s')
  show "t_Reference t \<notin> t_Reference ` set (st_transactions s)" by (rule fresh)
qed

text \<open>The effect of an executed transaction that is neither a commit nor a void.\<close>

lemma executed_effect:
  assumes "executed E t s s' t3" "t_Status t \<noteq> StatusCommit" "t_Status t \<noteq> StatusVoid"
  obtains a s1 rs rd where "0 < a" "t_PreciseAmount t3 = Some a" "grows s s1"
    "plain_ids t \<Longrightarrow> s1 = s \<and> t_Source t3 = t_Source t \<and> t_Destination t3 = t_Destination t"
    "t_Source t3 \<noteq> t_Destination t3" "t_Reference t3 = t_Reference t"
    "t_Status t3 = (if t_Inflight t then StatusInflight else applicableStatus (t_Status t))"
    "t_Reference t \<notin> t_Reference ` set (st_transactions s1)"
    "find_balance (t_Source t3) s1 = Some rs" "find_balance (t_Destination t3) s1 = Some rd"
    "\<exists>rs'. find_balance (t_Source t3) s' = Some rs' \<and>
       row_moved rs rs' 0 (if t_Inflight t then 0 else a) 0 (if t_Inflight t then a else 0)"
    "\<exists>rd'. find_balance (t_Destination t3) s' = Some rd' \<and>
       row_moved rd rd' (if t_Inflight t then 0 else a) 0 (if t_Inflight t then a else 0) 0"
    "\<forall>k. k \<noteq> t_Source t3 \<and> k \<noteq> t_Destination t3 \<longrightarrow> find_balance k s' = find_balance k s1"
    "\<exists>am. st_transactions s' = st_transactions s1 @ [row_of t3 am]"
proof -
  from assms(1) obtain t2 h s1 sb db where g: "grows s s1" and sb: "in_table s1 sb" and db: "in_table s1 db"
    and pl: "plain_ids t \<Longrightarrow> s1 = s \<and> b_BalanceID sb = t_Source t \<and> b_BalanceID db = t_Destination t"
    and ap: "applyTransactionToBalances (e_D E) (t\<lparr>t_Source := b_BalanceID sb, t_Destination := b_BalanceID db\<rparr>)
       True False (two_balances sb db) = Inr (t2, h)"
    and t3: "t3 = updateTransactionDetails t2 (h True) (h False)"
    and fin: "if t_PreciseAmount t2 = Some 0 then s' = s1
      else persisted t3 (h True) (h False) (prepareTransactionOutbox t3 (h True) (h False)) s1 s'"
    unfolding executed_def by blast
  let ?i = "t_Inflight t"
  from ap assms(2,3) obtain a where a: "0 < a" "t_PreciseAmount t2 = Some a"
    and t2: "t2 = ApplyPrecision (e_D E) (t\<lparr>t_Source := b_BalanceID sb, t_Destination := b_BalanceID db\<rparr>)"
    and h: "h = posted a ?i True False (two_balances sb db)"
    by (auto simp: apply_other UpdateBalances_iff)
  have hs: "h True = post_debit a ?i sb" "h False = post_credit a ?i db"
    by (simp_all add: h posted_def two_balances_def Let_def)
  from fin a have pe: "persisted t3 (h True) (h False) (prepareTransactionOutbox t3 (h True) (h False)) s1 s'" by simp
  have ne: "b_BalanceID sb \<noteq> b_BalanceID db" using persisted_self [OF sb db] pe hs by fastforce
  from sb db obtain rs rd where rs: "find_balance (b_BalanceID sb) s1 = Some rs" "loaded rs sb"
    and rd: "find_balance (b_BalanceID db) s1 = Some rd" "loaded rd db" by (auto simp: in_table_def)
  note rows = persisted_rows [OF pe, of rs rd]
  have ids: "b_BalanceID (h True) = b_BalanceID sb" "b_BalanceID (h False) = b_BalanceID db" by (simp_all add: hs)
  have fs: "find_balance (b_BalanceID sb) s' = Some (written (h True) rs)"
    and fd: "find_balance (b_BalanceID db) s' = Some (written (h False) rd)"
    using rows(1) ne rs(1) rd(1) ids by simp_all
  have rsm: "row_moved rs (written (h True) rs) 0 (if ?i then 0 else a) 0 (if ?i then a else 0)"
    by (simp add: row_moved_def hs loaded_fields(1-6,8) [OF rs(2)])
  have rdm: "row_moved rd (written (h False) rd) (if ?i then 0 else a) 0 (if ?i then a else 0) 0"
    by (simp add: row_moved_def hs loaded_fields(1-6,8) [OF rd(2)])
  have src: "t_Source t3 = b_BalanceID sb" "t_Destination t3 = b_BalanceID db" by (simp_all add: t3 ids)
  show ?thesis
  proof (rule that [of a s1 rs rd])
    show "\<exists>rs'. find_balance (t_Source t3) s' = Some rs' \<and> row_moved rs rs' 0 (if ?i then 0 else a) 0 (if ?i then a else 0)"
      using fs rsm src by auto
    show "\<exists>rd'. find_balance (t_Destination t3) s' = Some rd' \<and> row_moved rd rd' (if ?i then 0 else a) 0 (if ?i then a else 0) 0"
      using fd rdm src by auto
    show "\<forall>k. k \<noteq> t_Source t3 \<and> k \<noteq> t_Destination t3 \<longrightarrow> find_balance k s' = find_balance k s1"
      using rows(1) ne rs rd ids by (simp add: t3)
    show "\<exists>am. st_transactions s' = st_transactions s1 @ [row_of t3 am]" using rows(2) ne rs rd ids by simp
    show "t_Reference t \<notin> t_Reference ` set (st_transactions s1)"
      using rows(3) ne rs rd ids by (simp add: t3 t2)
  qed (use a g ne rs rd ids pl in \<open>simp_all add: t3 t2 updateTransactionDetails_def\<close>)
qed

lemma executed_amount:
  assumes "executed E t s s' t3" "t_Status t \<noteq> StatusCommit" "t_Status t \<noteq> StatusVoid"
    and "t_PreciseAmount t = Some a" "0 < a"
  shows "t_PreciseAmount t3 = Some a"
proof -
  from assms(1) obtain t2 h sb db where
    "applyTransactionToBalances (e_D E) (t\<lparr>t_Source := b_BalanceID sb, t_Destination := b_BalanceID db\<rparr>)
       True False (two_balances sb db) = Inr (t2, h)"
    and "t3 = updateTransactionDetails t2 (h True) (h False)"
    unfolding executed_def by blast
  moreover have "t_PreciseAmount (ApplyPrecision D (t\<lparr>t_Source := x, t_Destination := y\<rparr>)) = Some a" for D x y
    using assms(4,5) by (intro ApplyPrecision_pos) simp_all
  ultimately show ?thesis using assms(2,3) by (auto simp: apply_other UpdateBalances_iff)
qed

text \<open>Nothing fails: every call of the environment answers.\<close>

definition quiet :: "('d, 'r) env \<Rightarrow> bool" where
  "quiet E \<longleftrightarrow> (\<forall>p. \<not> e_F E p) \<and> (\<forall>t. e_preHook E t = Inr ()) \<and> e_LockWaitTimeout E \<le> 0 \<and> 0 < e_LockDuration E \<and>
     redis_laws (e_R E) \<and> setnx_answers (e_R E)"

lemma AmountString_parses:
  assumes "decimal_pkg D val" "t_PreciseAmount t = Some a" "0 < a"
  shows "\<exists>q. parse_decimal (t_AmountString (ApplyPrecision D t)) = Some q"
proof -
  let ?p = "if t_Precision t = 0 then 1 else t_Precision t"
  let ?d = "Div D (dec_or_zero D (show_int a)) (NewFromFloat D ?p)"
  have "val (NewFromFloat D ?p) = ?p" by (rule decimal_pkg.new_float [OF assms(1)])
  then have "val (NewFromFloat D ?p) \<noteq> 0" by (simp split: if_splits)
  from decimal_pkg.div [OF assms(1) this] have "is_decimal (val ?d)"
    by (simp only: round_places_def is_decimal_scaled_int)
  moreover have "t_AmountString (ApplyPrecision D t) = String D ?d"
    using assms(2,3) by (auto simp: ApplyPrecision_def applyPrecisionLogic_def convertPreciseToDecimal_def Let_def)
  ultimately show ?thesis using decimal_pkg.string_parse [OF assms(1)] by auto
qed

lemma updateBalance_succeeds:
  assumes "\<forall>p. \<not> F p" "\<not> nil_numeric b" "find_balance (b_BalanceID b) s = Some row" "b_Version row = b_Version b"
  shows "updateBalance F b s = Inr (put_balance (written b row) s, b\<lparr>b_Version := b_Version b + 1\<rparr>)"
  using assms by (simp add: updateBalance_def put_balance_def)

lemma RecordWithOutbox_succeeds:
  assumes "\<forall>p. \<not> F p" "\<not> nil_numeric sb" "\<not> nil_numeric db" "b_BalanceID sb \<noteq> b_BalanceID db"
    and rs: "find_balance (b_BalanceID sb) s = Some rs" "b_Version rs = b_Version sb"
    and rd: "find_balance (b_BalanceID db) s = Some rd" "b_Version rd = b_Version db"
    and t: "t_Source t = b_BalanceID sb" "t_Destination t = b_BalanceID db" "t_PreciseAmount t \<noteq> None"
      "t_TransactionID t \<notin> t_TransactionID ` set (st_transactions s)"
      "t_Reference t \<notin> t_Reference ` set (st_transactions s)" "parse_decimal (t_AmountString t) = Some q"
      "\<forall>w. outbox = Some w \<longrightarrow> o_TransactionID w \<notin> o_TransactionID ` set (st_outbox s)"
  shows "\<exists>s'. RecordTransactionWithBalancesAndOutbox F t sb db outbox s = (s', Inr t)"
proof -
  let ?s1 = "put_balance (written sb rs) s"
  have f1: "find_balance (b_BalanceID db) ?s1 = Some rd" using find_written [OF rs(1)] assms(4) rd by simp
  let ?s2 = "put_balance (written db rd) ?s1"
  have "find_balance (t_Source t) ?s2 \<noteq> None" "find_balance (t_Destination t) ?s2 \<noteq> None"
    using find_written [OF f1] find_written [OF rs(1)] assms(4) t by simp_all
  then have i: "recordTransactionInTx F t ?s2 = Inr (?s2\<lparr>st_transactions := st_transactions s @ [row_of t q]\<rparr>)"
    using assms(1) t by (simp add: recordTransactionInTx_def insert_row_def)
  have F: "F p = False" for p using assms(1) by simp
  note u = updateBalance_succeeds [OF assms(1,2) rs] updateBalance_succeeds [OF assms(1,3) f1 rd(2)]
  show ?thesis
    unfolding RecordTransactionWithBalancesAndOutbox_def in_tx_def u i sum.case prod.case F if_False
    using t(7) by (cases outbox) (simp_all add: InsertLineageOutboxInTx_def outbox_insert_def u i F)
qed

lemma apply_keeps_identity:
  assumes "applyTransactionToBalances D t0 True False h = Inr (t2, h')"
  shows "t_TransactionID t2 = t_TransactionID t0 \<and> t_ParentTransaction t2 = t_ParentTransaction t0 \<and>
     t_Reference t2 = t_Reference t0 \<and> t_Status t2 = t_Status t0 \<and> t_Inflight t2 = t_Inflight t0 \<and>
     (\<forall>a. t_PreciseAmount t0 = Some a \<longrightarrow> 0 < a \<longrightarrow> t_PreciseAmount t2 = Some a)"
proof -
  consider "t_Status t0 = StatusCommit" | "t_Status t0 = StatusVoid"
    | "t_Status t0 \<noteq> StatusCommit" "t_Status t0 \<noteq> StatusVoid" by blast
  then show ?thesis
  proof cases
    case 1
    with assms have "t2 = ApplyPrecision D (ApplyPrecision D t0)" by (simp add: apply_commit)
    then show ?thesis by (auto intro!: ApplyPrecision_pos)
  next
    case 2
    with assms show ?thesis by (auto simp: apply_void)
  next
    case 3
    with assms have "t2 = ApplyPrecision D t0" by (auto simp: apply_other UpdateBalances_iff)
    then show ?thesis by (auto intro!: ApplyPrecision_pos)
  qed
qed

lemma record_locked_persists:
  assumes q: "quiet E" and cfg: "\<not> e_EnableQueuedChecks E"
    and ids: "\<not> has_prefix (t_Source t) ''@''" "\<not> has_prefix (t_Destination t) ''@''" "t_Source t \<noteq> t_Destination t"
    and rs: "find_balance (t_Source t) s = Some rs" and rd: "find_balance (t_Destination t) s = Some rd"
    and fresh: "t_TransactionID t \<notin> t_TransactionID ` set (st_transactions s)"
      "t_Reference t \<notin> t_Reference ` set (st_transactions s)" "t_TransactionID t \<notin> o_TransactionID ` set (st_outbox s)"
    and ap: "applyTransactionToBalances (e_D E) (t\<lparr>t_Source := t_Source t, t_Destination := t_Destination t\<rparr>)
       True False (two_balances (lite rs) (lite rd)) = Inr (t2, h)"
    and t2: "t_PreciseAmount t2 = Some a" "a \<noteq> 0" "parse_decimal (t_AmountString t2) = Some am"
  shows "\<exists>s'. record_locked E t s = (s', Inr (updateTransactionDetails t2 (h True) (h False)))"
proof -
  let ?t = "t\<lparr>t_Source := b_BalanceID (lite rs), t_Destination := b_BalanceID (lite rd)\<rparr>"
  have F: "\<forall>p. \<not> e_F E p" using q by (simp add: quiet_def)
  have rid: "b_BalanceID rs = t_Source t" "b_BalanceID rd = t_Destination t"
    using rs rd by (auto dest: find_balance_SomeD)
  have g: "getSourceAndDestination E t s = (s, Inr (t, lite rs, lite rd))"
    using ids rs rd F cfg
    by (simp add: getSourceAndDestination_def side_balance_def lookup_balance_def GetBalanceByIDLite_def)
  have v: "validateAndPrepareTransaction E t s = (s, Inr (?t, lite rs, lite rd))"
    using F fresh(2) by (simp add: validateAndPrepareTransaction_def validateTxn_def TransactionExistsByRef_def g)
  have ap': "applyTransactionToBalances (e_D E) ?t True False (two_balances (lite rs) (lite rd)) = Inr (t2, h)"
    using ap rid by simp
  note keep = apply_keeps_identity [OF ap'] and mv = apply_moved [OF ap']
  have h: "initialised (h True)" "initialised (h False)" "b_BalanceID (h True) = t_Source t" "b_BalanceID (h False) = t_Destination t"
    "b_Version (h True) = b_Version rs" "b_Version (h False) = b_Version rd"
    using mv rid by (auto simp: moved_def two_balances_def)
  let ?t3 = "updateTransactionDetails t2 (h True) (h False)" and ?o = "prepareTransactionOutbox"
  have "\<exists>s'. RecordTransactionWithBalancesAndOutbox (e_F E) ?t3 (h True) (h False) (?o ?t3 (h True) (h False)) s = (s', Inr ?t3)"
    by (rule RecordWithOutbox_succeeds [where rs = rs and rd = rd and q = am])
       (use F rs rd h ids(3) fresh t2 keep in \<open>auto simp: initialised_iff [symmetric] prepareTransactionOutbox_def
           PrepareLineageOutbox_def Let_def split: if_splits\<close>)
  then obtain s' where
    "RecordTransactionWithBalancesAndOutbox (e_F E) ?t3 (h True) (h False) (?o ?t3 (h True) (h False)) s = (s', Inr ?t3)" ..
  moreover have "e_preHook E t = Inr ()" using q by (simp add: quiet_def)
  moreover have "buildTransactionExecutionWork t2 (h True) (h False) = ((?t3, ?o ?t3 (h True) (h False)), False)"
    using t2 by (simp add: buildTransactionExecutionWork_def Let_def)
  ultimately have "record_locked E t s = (s', Inr ?t3)"
    using ap' unfolding record_locked_def v persistSingleTransactionExecutionWork_def by (simp add: processBalances_def)
  then show ?thesis by blast
qed

lemma record_locked_succeeds:
  assumes dp: "decimal_pkg (e_D E) val" and q: "quiet E" and ok: "store_ok s" and cfg: "\<not> e_EnableQueuedChecks E"
    and ids: "\<not> has_prefix (t_Source t) ''@''" "\<not> has_prefix (t_Destination t) ''@''" "t_Source t \<noteq> t_Destination t"
    and rs: "find_balance (t_Source t) s = Some rs" and rd: "find_balance (t_Destination t) s = Some rd"
    and fresh: "t_TransactionID t \<notin> t_TransactionID ` set (st_transactions s)"
      "t_Reference t \<notin> t_Reference ` set (st_transactions s)" "t_TransactionID t \<notin> o_TransactionID ` set (st_outbox s)"
    and st: "t_Status t \<noteq> StatusCommit" "t_Status t \<noteq> StatusVoid"
    and a: "t_PreciseAmount t = Some a" "0 < a"
    and funds: "t_AllowOverdraft t \<and> t_OverdraftLimit t = 0 \<or> a \<le> bal rs - idr rs"
  shows "\<exists>s' t'. record_locked E t s = (s', Inr t')"
proof -
  let ?t = "t\<lparr>t_Source := t_Source t, t_Destination := t_Destination t\<rparr>"
  let ?t2 = "ApplyPrecision (e_D E) ?t" and ?i = "t_Inflight t"
  have pa: "t_PreciseAmount ?t2 = Some a" using a ApplyPrecision_pos [of ?t a] by simp
  have "\<exists>b. canProcessTransaction (e_D E) ?t2 (lite rs) = Inr b"
    using funds pa by (auto simp: canProcessTransaction_def availableBalance_eq Let_def)
  then have ap: "applyTransactionToBalances (e_D E) ?t True False (two_balances (lite rs) (lite rd)) =
      Inr (?t2, posted a ?i True False (two_balances (lite rs) (lite rd)))"
    using st pa a(2) by (auto simp: apply_other UpdateBalances_iff two_balances_def)
  obtain am where am: "parse_decimal (t_AmountString ?t2) = Some am"
    using AmountString_parses [OF dp, of ?t a] a by auto
  from record_locked_persists [OF q cfg ids rs rd fresh ap pa _ am] a(2) show ?thesis by auto
qed

text \<open>With free locks the operation is the locked section between taking and releasing them.\<close>

lemma RecordTransaction_locked:
  assumes "quiet E" "\<not> has_prefix (t_Source t) ''@''" "\<not> has_prefix (t_Destination t) ''@''"
    and "kv (e_R E) (w_redis w) (t_Source t) = None" "kv (e_R E) (w_redis w) (t_Destination t) = None"
    and "record_locked E t (w_store w) = (s', x)"
  shows "\<exists>r. RecordTransaction E t w = Some (\<lparr>w_store = s', w_redis = r\<rparr>, x)"
proof -
  have "\<exists>r1. MultiLock (e_R E) (NewMultiLocker [t_Source t, t_Destination t] (e_uuid E ''loc'')) (e_LockDuration E)
      (w_redis w) = (r1, Inr ())"
    using assms by (intro MultiLock_free) (auto simp: quiet_def)
  then have "\<exists>r1. acquireLock E (t_Source t) (t_Destination t) (w_redis w) =
      Some (r1, Inr (NewMultiLocker [t_Source t, t_Destination t] (e_uuid E ''loc'')))"
    using assms(1) by (auto simp: acquireLock_def acquireTransactionLocker_def quiet_def)
  then show ?thesis
    using assms(6) resolveBalanceIDs_plain [OF assms(2,3), of E]
    by (auto simp: RecordTransaction_def recordTransactionSingle_def planTransactionExecution_def executeWithLock_def)
qed

lemma RecordTransaction_succeeds:
  assumes "decimal_pkg (e_D E) val" "quiet E" "store_ok (w_store w)" "\<not> e_EnableQueuedChecks E"
    and ids: "\<not> has_prefix (t_Source t) ''@''" "\<not> has_prefix (t_Destination t) ''@''" "t_Source t \<noteq> t_Destination t"
    and "find_balance (t_Source t) (w_store w) = Some rs" "find_balance (t_Destination t) (w_store w) = Some rd"
    and free: "kv (e_R E) (w_redis w) (t_Source t) = None" "kv (e_R E) (w_redis w) (t_Destination t) = None"
    and "t_TransactionID t \<notin> t_TransactionID ` set (st_transactions (w_store w))"
      "t_Reference t \<notin> t_Reference ` set (st_transactions (w_store w))"
      "t_TransactionID t \<notin> o_TransactionID ` set (st_outbox (w_store w))"
    and "t_Status t \<noteq> StatusCommit" "t_Status t \<noteq> StatusVoid" "t_PreciseAmount t = Some a" "0 < a"
    and "t_AllowOverdraft t \<and> t_OverdraftLimit t = 0 \<or> a \<le> bal rs - idr rs"
  shows "\<exists>w' t'. RecordTransaction E t w = Some (w', Inr t')"
proof -
  obtain s' t' where "record_locked E t (w_store w) = (s', Inr t')"
    using record_locked_succeeds [OF assms(1-9,12-)] by blast
  from RecordTransaction_locked [OF assms(2) ids(1,2) free this] show ?thesis by blast
qed

text \<open>Without a wait timeout the operation always returns.\<close>

lemma RecordTransaction_returns: "e_LockWaitTimeout E \<le> 0 \<Longrightarrow> \<exists>w' x. RecordTransaction E t w = Some (w', x)"
  by (auto simp: RecordTransaction_def recordTransactionSingle_def planTransactionExecution_def executeWithLock_def
      acquireLock_def acquireTransactionLocker_def Let_def split: sum.splits prod.splits)

subsection \<open>A small world to run the ledger in\<close>

text \<open>Two accounts, no locks held, every call succeeding.\<close>

definition ex_env :: "(rat, rstore) env" where
  "ex_env = \<lparr>e_D = rat_decimal, e_R = rs_redis, e_F = (\<lambda>_. False), e_EnableQueuedChecks = False,
     e_LockDuration = 5, e_LockWaitTimeout = 0, e_ctxErr = None, e_ticks = [], e_now = 7,
     e_uuid = (\<lambda>x. ''id_'' @ x), e_preHook = (\<lambda>_. Inr ())\<rparr>"

definition ex_row :: "string \<Rightarrow> int \<Rightarrow> Balance" where
  "ex_row bid a = (InitializeBalanceFields zero_Balance)\<lparr>b_BalanceID := bid, b_CreditBalance := Some a,
     b_Balance := Some a, b_Version := 1, b_Currency := ''USD'', b_LedgerID := ''general_ledger_id''\<rparr>"

definition ex_store :: store where
  "ex_store = \<lparr>st_balances = [ex_row ''bln_a'' 1000, ex_row ''bln_b'' 0], st_transactions = [],
     st_outbox = [], st_ledgers = [''general_ledger_id'']\<rparr>"

definition ex_world :: "rstore world" where
  "ex_world = \<lparr>w_store = ex_store, w_redis = \<lparr>rs_now = 0, rs_map = Map.empty\<rparr>\<rparr>"

definition ex_txn :: Transaction where
  "ex_txn = zero_Transaction\<lparr>t_TransactionID := ''txn_1'', t_Reference := ''ref_1'', t_Source := ''bln_a'',
     t_Destination := ''bln_b'', t_Currency := ''USD'', t_PreciseAmount := Some 250, t_Precision := 100,
     t_Status := ''APPLIED''\<rparr>"

lemma ex_row_ok: "bid \<noteq> [] \<Longrightarrow> row_ok (ex_row bid a)"
  by (simp add: row_ok_def ex_row_def holds_ok_def consistent_def initialised_def InitializeBalanceFields_def zero_Balance_def)

lemma ex_store_ok: "store_ok ex_store"
  by (simp add: store_ok_def ex_store_def ex_row_ok) (simp add: ex_row_def)

lemma ex_env_ok: "uuids_ok ex_env" "quiet ex_env" "decimal_pkg (e_D ex_env) (\<lambda>x. x)" "\<not> e_EnableQueuedChecks ex_env"
  using ratdec.decimal_pkg_axioms rs.redis_laws_axioms rs_answers
  by (simp_all add: uuids_ok_def quiet_def ex_env_def)

lemma ex_find: "find_balance ''bln_a'' ex_store = Some (ex_row ''bln_a'' 1000)"
  "find_balance ''bln_b'' ex_store = Some (ex_row ''bln_b'' 0)"
  by (simp_all add: find_balance_def ex_store_def) (simp_all add: ex_row_def)

lemma ex_run: obtains w' t' where "RecordTransaction ex_env ex_txn ex_world = Some (w', Inr t')"
proof -
  have "\<exists>w' t'. RecordTransaction ex_env ex_txn ex_world = Some (w', Inr t')"
    by (rule RecordTransaction_succeeds [OF ex_env_ok(3,2) _ ex_env_ok(4), where rs = "ex_row ''bln_a'' 1000"
          and rd = "ex_row ''bln_b'' 0" and a = 250])
       (simp_all add: ex_world_def ex_store_ok ex_txn_def ex_find has_prefix_def ex_env_def kv_def rs_get_def
         zero_Transaction_def, simp_all add: ex_store_def ex_row_def InitializeBalanceFields_def zero_Balance_def)
  then show ?thesis using that by blast
qed

lemma canProcess_inflight: "canProcessTransaction D (t\<lparr>t_Inflight := i\<rparr>) b = canProcessTransaction D t b"
  by (cases "t_PreciseAmount t") (simp_all add: canProcessTransaction_def overdraftLimitPrecise_def Let_def)

subsection \<open>Settling a hold in parts\<close>

text \<open>Several transactions applied one after the other to the same two balances.\<close>

fun apply_seq :: "'d decimal \<Rightarrow> Transaction list \<Rightarrow> 'a \<Rightarrow> 'a \<Rightarrow> ('a \<Rightarrow> Balance) \<Rightarrow> ('a \<Rightarrow> Balance) res" where
  "apply_seq D [] s d h = Inr h"
| "apply_seq D (t # ts) s d h =
     (case applyTransactionToBalances D t s d h of Inl e \<Rightarrow> Inl e | Inr (_, h') \<Rightarrow> apply_seq D ts s d h')"

definition commit_amount :: "'d decimal \<Rightarrow> Transaction \<Rightarrow> int" where
  "commit_amount D t = or0 (t_PreciseAmount (ApplyPrecision D t))"

lemma apply_seq_commits:
  assumes "s \<noteq> d" "\<forall>t \<in> set (t0 # ts). t_Status t = StatusCommit \<and> 0 \<le> commit_amount D t"
    and "sum_list (map (commit_amount D) (t0 # ts)) \<le> idr (h s)" "sum_list (map (commit_amount D) (t0 # ts)) \<le> icr (h d)"
  shows "apply_seq D (t0 # ts) s d h =
    Inr (h(s := settle_debit (sum_list (map (commit_amount D) (t0 # ts))) (h s),
           d := settle_credit (sum_list (map (commit_amount D) (t0 # ts))) (h d)))"
  using assms(2-)
proof (induction ts arbitrary: t0 h)
  case Nil
  then have "applyTransactionToBalances D t0 s d h = Inr (ApplyPrecision D (ApplyPrecision D t0),
      h(s := settle_debit (commit_amount D t0) (h s), d := settle_credit (commit_amount D t0) (h d)))"
    using assms(1) by (simp add: apply_commit commit_amount_def Let_def)
  then show ?case by (simp add: fun_eq_iff)
next
  case (Cons t1 ts)
  let ?c = "commit_amount D t0" and ?r = "sum_list (map (commit_amount D) (t1 # ts))"
  let ?h = "h(s := settle_debit ?c (h s), d := settle_credit ?c (h d))"
  have "0 \<le> ?r" using Cons.prems(1) by (auto intro!: sum_list_nonneg add_nonneg_nonneg)
  then have "?c \<le> idr (h s)" "?c \<le> icr (h d)" using Cons.prems(2,3) by auto
  then have "applyTransactionToBalances D t0 s d h = Inr (ApplyPrecision D (ApplyPrecision D t0), ?h)"
    using assms(1) Cons.prems(1) by (simp add: apply_commit commit_amount_def [symmetric] Let_def)
  moreover have "apply_seq D (t1 # ts) s d ?h = Inr (?h(s := settle_debit ?r (?h s), d := settle_credit ?r (?h d)))"
    by (rule Cons.IH) (use Cons.prems assms(1) in simp_all)
  ultimately show ?case
    using assms(1) settle_debit_add [of ?r ?c] settle_credit_add [of ?r ?c] by (simp add: fun_eq_iff)
qed

section \<open>Properties\<close>

text \<open>
  C1: The ledger balances at every step. Whatever \<open>RecordTransaction\<close> is given and whichever of
  its lookups, locks, hooks, checks or writes fails, if the tables are sound before (unique
  ids and references, every row's net fields equal to its gross fields, no negative hold)
  they are sound after, and the totals over all accounts of credits minus debits, settled and
  inflight, are exactly what they were: money is moved, never created or lost.
\<close>
theorem record_transaction_conserves:
  assumes "store_ok (w_store w)" and "uuids_ok E" and "RecordTransaction E t w = Some (w', x)"
  shows "store_ok (w_store w') \<and> total net (w_store w') = total net (w_store w) \<and>
         total inet (w_store w') = total inet (w_store w)"
  using RecordTransaction_cases [OF assms] executed_safe by (fastforce simp: grows_def)

theorem record_transaction_conserves_witness:
  "\<exists>w' t'. RecordTransaction ex_env ex_txn ex_world = Some (w', Inr t') \<and> total net (w_store w') = 1000"
proof -
  obtain w' t' where "RecordTransaction ex_env ex_txn ex_world = Some (w', Inr t')" by (rule ex_run)
  with record_transaction_conserves [OF _ ex_env_ok(1) this] show ?thesis
    by (simp add: ex_world_def ex_store_ok)
       (simp add: total_def ex_store_def ex_row_def InitializeBalanceFields_def zero_Balance_def)
qed

text \<open>
  C7: Recording is atomic. When \<open>RecordTransaction\<close> returns an error, no transaction row and no
  outbox row was written and every balance that existed still has exactly the row it had;
  the only trace can be new, empty balances for indicators that were resolved on the way.
\<close>
theorem record_transaction_atomic:
  assumes "store_ok (w_store w)" and "uuids_ok E" and "RecordTransaction E t w = Some (w', Inl e)"
  shows "st_transactions (w_store w') = st_transactions (w_store w) \<and>
         st_outbox (w_store w') = st_outbox (w_store w) \<and>
         (\<forall>k b. find_balance k (w_store w) = Some b \<longrightarrow> find_balance k (w_store w') = Some b)"
  using RecordTransaction_cases [OF assms] by (auto simp: grows_def)

theorem record_transaction_atomic_witness:
  "\<exists>w' e. RecordTransaction (ex_env\<lparr>e_preHook := \<lambda>_. Inl (Errorf ''hook refused'')\<rparr>) ex_txn
       ex_world = Some (w', Inl e) \<and> st_transactions (w_store w') = []"
proof -
  let ?E = "ex_env\<lparr>e_preHook := \<lambda>_. Inl (Errorf ''hook refused'')\<rparr>"
  obtain w' x where R: "RecordTransaction ?E ex_txn ex_world = Some (w', x)"
    using RecordTransaction_returns [of ?E ex_txn ex_world] by (auto simp: ex_env_def)
  then have "\<exists>e. x = Inl e"
    by (auto simp: RecordTransaction_def recordTransactionSingle_def planTransactionExecution_def executeWithLock_def
        record_locked_def Let_def split: prod.splits sum.splits option.splits)
  then obtain e where "x = Inl e" ..
  with record_transaction_atomic [of ex_world ?E ex_txn w' e] R show ?thesis
    using ex_env_ok(1) ex_store_ok by (auto simp: ex_world_def uuids_ok_def ex_store_def)
qed

text \<open>A funded transfer between two plain balance ids, end to end.\<close>

lemma RecordTransaction_transfers:
  assumes "decimal_pkg (e_D E) val" "quiet E" "uuids_ok E" "store_ok (w_store w)" "\<not> e_EnableQueuedChecks E"
    and ids: "\<not> has_prefix (t_Source t) ''@''" "\<not> has_prefix (t_Destination t) ''@''" "t_Source t \<noteq> t_Destination t"
    and rs: "find_balance (t_Source t) (w_store w) = Some rs" and rd: "find_balance (t_Destination t) (w_store w) = Some rd"
    and "kv (e_R E) (w_redis w) (t_Source t) = None" "kv (e_R E) (w_redis w) (t_Destination t) = None"
    and "t_TransactionID t \<notin> t_TransactionID ` set (st_transactions (w_store w))"
      "t_Reference t \<notin> t_Reference ` set (st_transactions (w_store w))"
      "t_TransactionID t \<notin> o_TransactionID ` set (st_outbox (w_store w))"
    and st: "t_Status t \<in> {StatusQueued, StatusApplied, StatusScheduled}"
    and a: "t_PreciseAmount t = Some a" "0 < a"
    and "t_AllowOverdraft t \<and> t_OverdraftLimit t = 0 \<or> a \<le> bal rs - idr rs"
    and i: "i = (if t_Inflight t then a else 0)"
  shows "\<exists>w' t' am rs' rd'. RecordTransaction E t w = Some (w', Inr t') \<and>
    t_Status t' = (if t_Inflight t then StatusInflight else StatusApplied) \<and>
    st_transactions (w_store w') = st_transactions (w_store w) @ [row_of t' am] \<and>
    find_balance (t_Source t) (w_store w') = Some rs' \<and> row_moved rs rs' 0 (a - i) 0 i \<and>
    find_balance (t_Destination t) (w_store w') = Some rd' \<and> row_moved rd rd' (a - i) 0 i 0 \<and>
    (\<forall>k. k \<noteq> t_Source t \<and> k \<noteq> t_Destination t \<longrightarrow> find_balance k (w_store w') = find_balance k (w_store w))"

proof -
  have pl: "plain_ids t" using ids by (simp add: plain_ids_def)
  have st': "t_Status t \<noteq> StatusCommit" "t_Status t \<noteq> StatusVoid" using st by auto
  obtain w' t' where run: "RecordTransaction E t w = Some (w', Inr t')"
    using RecordTransaction_succeeds [OF assms(1,2,4-15) st' assms(17-19)] by blast
  have "resolveBalanceIDs E t (w_store w) = (w_store w, Inr (t_Source t, t_Destination t))"
    using resolveBalanceIDs_plain ids by blast
  with RecordTransaction_cases [OF assms(4,3) run] have ex: "executed E t (w_store w) (w_store w') t'" by auto
  from ex st' show ?thesis
  proof (rule executed_effect)
    fix c s1 r q assume "plain_ids t \<Longrightarrow> s1 = w_store w \<and> t_Source t' = t_Source t \<and> t_Destination t' = t_Destination t"
      and c: "t_PreciseAmount t' = Some c" and "find_balance (t_Source t') s1 = Some r" "find_balance (t_Destination t') s1 = Some q"
      and eff: "\<exists>rs'. find_balance (t_Source t') (w_store w') = Some rs' \<and>
          row_moved r rs' 0 (if t_Inflight t then 0 else c) 0 (if t_Inflight t then c else 0)"
        "\<exists>rd'. find_balance (t_Destination t') (w_store w') = Some rd' \<and>
          row_moved q rd' (if t_Inflight t then 0 else c) 0 (if t_Inflight t then c else 0) 0"
        "\<forall>k. k \<noteq> t_Source t' \<and> k \<noteq> t_Destination t' \<longrightarrow> find_balance k (w_store w') = find_balance k s1"
        "\<exists>am. st_transactions (w_store w') = st_transactions s1 @ [row_of t' am]"
      and status: "t_Status t' = (if t_Inflight t then StatusInflight else applicableStatus (t_Status t))"
    moreover have "c = a" using executed_amount [OF ex st' a] c by simp
    ultimately show ?thesis using run pl rs rd st
      by (auto simp: i applicableStatus_def split: if_splits)
  qed
qed



text \<open>
  The single path refuses every transfer from a balance to itself: source and destination
  are loaded as two structs with the same version, so the second optimistic update finds the
  version already advanced by the first. \<open>RecordTransaction\<close> never returns such a transfer as
  recorded, and by atomicity it leaves no trace.
\<close>
lemma record_transaction_self_refused:
  assumes "store_ok (w_store w)" and "uuids_ok E" and "plain_ids t" and "t_Source t = t_Destination t"
    and "t_Status t \<notin> {StatusCommit, StatusVoid}" and "RecordTransaction E t w = Some (w', x)"
  shows "\<exists>e. x = Inl e"
proof (rule ccontr)
  assume "\<nexists>e. x = Inl e"
  with RecordTransaction_cases [OF assms(1,2,6)] resolveBalanceIDs_plain [of t E "w_store w"] assms(3)
  obtain t3 where "executed E t (w_store w) (w_store w') t3" by (auto simp: plain_ids_def)
  then show False by (rule executed_effect) (use assms(3-5) in auto)
qed

lemma to_lower_append: "to_lower (xs @ ys) = to_lower xs @ to_lower ys"
  by (simp add: to_lower_def)

lemma used_reference_recognised:
  "IsDuplicateReferenceError (Some (Wrap p (Errorf (''reference '' @ r @ '' has already been used''))))"
proof -
  let ?m = "to_lower (err_msg (Wrap p (Errorf (''reference '' @ r @ '' has already been used''))))"
  have "?m = to_lower (p @ '': '') @ ''reference'' @ ('' '' @ to_lower r @ '' has already been used'')"
    by (simp add: to_lower_append) (simp add: to_lower_def)
  moreover have "?m = (to_lower (p @ '': reference '' @ r @ '' has '')) @ ''already been used'' @ []"
    by (simp add: to_lower_append) (simp add: to_lower_def)
  ultimately have "str_contains ?m ''reference''" "str_contains ?m ''already been used''"
    using str_contains_middle by metis+
  then show ?thesis by (simp add: IsDuplicateReferenceError_def Let_def)
qed

text \<open>
  C10: References are idempotency keys, for transactions between plain balance ids. Once a reference
  is in the table, recording a transaction with it whose source and destination are no @indicators
  changes no table and returns the error that \<open>IsDuplicateReferenceError\<close> recognises, when its two
  locks are free and no call fails. (For a new @indicator \<open>resolveBalanceIDs\<close> creates the balance before the
  reference is checked.)
\<close>
theorem used_reference_refused:
  assumes "quiet E" and "plain_ids t"
    and "kv (e_R E) (w_redis w) (t_Source t) = None" "kv (e_R E) (w_redis w) (t_Destination t) = None"
    and "t_Reference t \<in> t_Reference ` set (st_transactions (w_store w))"
  shows "\<exists>w' e. RecordTransaction E t w = Some (w', Inl e) \<and> w_store w' = w_store w \<and>
           IsDuplicateReferenceError (Some e)"
proof -
  let ?e = "Wrap ''transaction validation failed'' (Errorf (''reference '' @ t_Reference t @ '' has already been used''))"
  have "record_locked E t (w_store w) = (w_store w, Inl ?e)"
    using assms(1,5) by (simp add: quiet_def record_locked_def validateAndPrepareTransaction_def validateTxn_def
        TransactionExistsByRef_def logAndRecordError_def)
  from RecordTransaction_locked [OF assms(1) _ _ assms(3,4) this] assms(2) used_reference_recognised
  show ?thesis unfolding plain_ids_def by fastforce
qed

theorem used_reference_refused_witness:
  "\<exists>w' e. RecordTransaction ex_env ex_txn (ex_world\<lparr>w_store := ex_store\<lparr>st_transactions := [ex_txn]\<rparr>\<rparr>) = Some (w', Inl e) \<and>
     IsDuplicateReferenceError (Some e)"
  using used_reference_refused [OF ex_env_ok(2), of ex_txn "ex_world\<lparr>w_store := ex_store\<lparr>st_transactions := [ex_txn]\<rparr>\<rparr>"]
  by (simp add: plain_ids_def ex_txn_def has_prefix_def zero_Transaction_def ex_world_def ex_env_def kv_def rs_get_def) blast

text \<open>
  C5: A hold settled in full, in any number of parts, is the direct transfer; a hold that is
  voided never happened. Let an inflight transaction be applied between two balances with
  sound fields. Committing it by any non-empty sequence of COMMIT transactions with
  non-negative amounts that add up to the held amount succeeds and leaves both balances
  exactly as applying the transaction without the inflight flag would; voiding the held
  amount instead restores both balances.
\<close>
theorem hold_commit_void:
  assumes "s \<noteq> d" and "holds_ok (h s)" "holds_ok (h d)"
    and "t_Status t \<notin> {StatusCommit, StatusVoid}" "t_Inflight t"
    and hold: "applyTransactionToBalances D t s d h = Inr (t1, h1)"
    and "ts \<noteq> []" "\<forall>c \<in> set ts. t_Status c = StatusCommit \<and> 0 \<le> commit_amount D c"
    and "sum_list (map (commit_amount D) ts) = or0 (t_PreciseAmount t1)"
    and "t_Status v = StatusVoid" "t_PreciseAmount v = t_PreciseAmount t1"
  shows "\<exists>h2 t2. applyTransactionToBalances D (t\<lparr>t_Inflight := False\<rparr>) s d h = Inr (t2, h2) \<and>
           apply_seq D ts s d h1 = Inr h2 \<and>
           applyTransactionToBalances D v s d h1 =
             Inr (v, h(s := InitializeBalanceFields (h s), d := InitializeBalanceFields (h d)))"
proof -
  from hold assms(4,5) obtain a b where a: "0 < a" "t_PreciseAmount (ApplyPrecision D t) = Some a"
    and t1: "t1 = ApplyPrecision D t" and can: "canProcessTransaction D (ApplyPrecision D t) (h s) = Inr b"
    and h1: "h1 = posted a True s d h" by (auto simp: apply_other UpdateBalances_iff)
  have h1': "h1 = h(s := post_debit a True (h s), d := post_credit a True (h d))"
    using assms(1) by (simp add: h1 posted_def Let_def)
  let ?h2 = "h(s := post_debit a False (h s), d := post_credit a False (h d))"
  have AP: "ApplyPrecision D (t\<lparr>t_Inflight := False\<rparr>) = (ApplyPrecision D t)\<lparr>t_Inflight := False\<rparr>"
    by (simp add: ApplyPrecision_def applyPrecisionLogic_def convertPreciseToDecimal_def convertDecimalToPrecise_def
        Let_def split: option.splits)
  have "canProcessTransaction D ((ApplyPrecision D t)\<lparr>t_Inflight := False\<rparr>) (h s) = Inr b"
    using can canProcess_inflight by metis
  then have direct: "applyTransactionToBalances D (t\<lparr>t_Inflight := False\<rparr>) s d h = Inr (ApplyPrecision D (t\<lparr>t_Inflight := False\<rparr>), ?h2)"
    using assms(1,4) a by (auto simp: apply_other UpdateBalances_iff AP posted_def Let_def)
  obtain c cs where ts: "ts = c # cs" using assms(7) by (cases ts) auto
  have sum: "sum_list (map (commit_amount D) (c # cs)) = a" using assms(9) a by (simp add: ts t1)
  have "apply_seq D ts s d h1 = Inr (h1(s := settle_debit a (h1 s), d := settle_credit a (h1 d)))"
    unfolding ts using apply_seq_commits [of s d c cs D h1] assms(1-3,8) sum
    by (simp add: ts h1' holds_ok_def)
  also have "h1(s := settle_debit a (h1 s), d := settle_credit a (h1 d)) = ?h2"
    using assms(1-3) by (simp add: h1' holds_ok_def settle_hold_debit settle_hold_credit fun_upd_twist [of s d])
  finally have "apply_seq D ts s d h1 = Inr ?h2" .
  moreover have "applyTransactionToBalances D v s d h1 =
      Inr (v, h(s := InitializeBalanceFields (h s), d := InitializeBalanceFields (h d)))"
    unfolding apply_void [OF assms(10,1)] using assms(1-3,11) a t1
    by (simp add: h1' holds_ok_def release_hold_debit release_hold_credit fun_upd_twist [of s d])
  ultimately show ?thesis using direct by blast
qed

definition ex_commit :: "int \<Rightarrow> Transaction" where
  "ex_commit a = zero_Transaction\<lparr>t_PreciseAmount := Some a, t_Precision := 100, t_Status := ''COMMIT''\<rparr>"

lemma ex_commit_amount: "0 < a \<Longrightarrow> commit_amount D (ex_commit a) = a"
  using ApplyPrecision_pos [of "ex_commit a" a D] by (simp add: commit_amount_def ex_commit_def)

theorem hold_commit_void_witness:
  "\<exists>h2 t2. applyTransactionToBalances rat_decimal (ex_txn\<lparr>t_Inflight := False\<rparr>) True False
       (two_balances (ex_row ''bln_a'' 1000) (ex_row ''bln_b'' 0)) = Inr (t2, h2) \<and>
     apply_seq rat_decimal [ex_commit 100, ex_commit 150] True False
       (posted 250 True True False (two_balances (ex_row ''bln_a'' 1000) (ex_row ''bln_b'' 0))) = Inr h2"
proof -
  let ?h = "two_balances (ex_row ''bln_a'' 1000) (ex_row ''bln_b'' 0)" and ?t = "ex_txn\<lparr>t_Inflight := True\<rparr>"
  have ap: "t_PreciseAmount (ApplyPrecision rat_decimal ?t) = Some 250"
    by (rule ApplyPrecision_pos) (simp_all add: ex_txn_def)
  have st: "t_Status ?t = ''APPLIED''" by (simp add: ex_txn_def)
  have "\<exists>b. canProcessTransaction rat_decimal (ApplyPrecision rat_decimal ?t) (?h True) = Inr b"
    by (simp add: canProcessTransaction_def ap availableBalance_eq Let_def)
       (simp add: two_balances_def ex_row_def InitializeBalanceFields_def zero_Balance_def)
  then have hold: "applyTransactionToBalances rat_decimal ?t True False ?h =
      Inr (ApplyPrecision rat_decimal ?t, posted 250 True True False ?h)"
    by (auto simp: st apply_other UpdateBalances_iff ap)
  have "holds_ok (?h True)" "holds_ok (?h False)" using ex_row_ok by (simp_all add: two_balances_def row_ok_def)
  from hold_commit_void [OF _ this _ _ hold, of "[ex_commit 100, ex_commit 150]"
      "(ex_commit 250)\<lparr>t_Status := ''VOID''\<rparr>"]
  show ?thesis by (auto simp: ap ex_commit_amount) (auto simp: ex_txn_def ex_commit_def zero_Transaction_def)
qed

lemma insert_error_not_duplicate:
  "\<not> IsDuplicateReferenceError (Some (Wrap ''failed to persist transaction with balances''
       (internal ''Failed to record transaction'')))"
  by code_simp

text \<open>
  A duplicate that slips past the reference check is not classified as a duplicate. When
  two workers pass \<open>validateTxn\<close> with the same reference, the second insert is stopped by the
  unique index; the error it returns is an \<open>APIError\<close> without \<open>Unwrap\<close> whose message does not
  mention the reference, so \<open>IsDuplicateReferenceError\<close> answers false for it.
\<close>
lemma duplicate_insert_not_classified:
  assumes "\<forall>p. \<not> e_F E p" and "\<not> nil_numeric sb" "\<not> nil_numeric db" "b_BalanceID sb \<noteq> b_BalanceID db"
    and "find_balance (b_BalanceID sb) s = Some rs" "b_Version rs = b_Version sb"
    and "find_balance (b_BalanceID db) s = Some rd" "b_Version rd = b_Version db"
    and "t_Reference t \<in> t_Reference ` set (st_transactions s)"
  shows "\<exists>e. persistSingleTransactionExecutionWork E t outbox sb db s = (s, Inl e) \<and>
             \<not> IsDuplicateReferenceError (Some e)"
proof -
  let ?s1 = "put_balance (written sb rs) s"
  have f1: "find_balance (b_BalanceID db) ?s1 = Some rd" using find_written [OF assms(5)] assms(4,7) by simp
  have i: "recordTransactionInTx (e_F E) t (put_balance (written db rd) ?s1) = Inl (internal ''Failed to record transaction'')"
    using assms(9) by (simp add: recordTransactionInTx_def insert_row_def)
  note u = updateBalance_succeeds [OF assms(1,2,5,6)] updateBalance_succeeds [OF assms(1,3) f1 assms(8)]
  have F: "e_F E p = False" for p using assms(1) by simp
  have "RecordTransactionWithBalancesAndOutbox (e_F E) t sb db outbox s = (s, Inl (internal ''Failed to record transaction''))"
    by (simp add: RecordTransactionWithBalancesAndOutbox_def in_tx_def u i F)
  then show ?thesis
    using insert_error_not_duplicate by (simp add: persistSingleTransactionExecutionWork_def logAndRecordError_def)
qed

end
