(* ===== verification/Distributions.thy ===== *)
theory Distributions
  imports Balances "HOL-Library.Multiset"
begin

text \<open>
  Splitting a transaction over several sources or destinations (\<open>model/transaction.go\<close>). Go maps
  are association lists without duplicate keys; the unspecified order in which \<open>range\<close> walks a
  map is the argument \<open>ord\<close>, of which only \<open>iterates\<close> (every entry once) is assumed. \<open>PF\<close> is
  \<open>strconv.ParseFloat\<close>, \<open>H\<close> the hash and \<open>uuid\<close> the fresh ids by counter.
\<close>

subsection \<open>Maps\<close>

definition map_put :: "string \<Rightarrow> 'v \<Rightarrow> (string \<times> 'v) list \<Rightarrow> (string \<times> 'v) list" where
  "map_put k v m = (if find_row fst k m = None then m @ [(k, v)] else set_row fst (k, v) m)"

text \<open>\<open>ParseInt(s, 10, 64)\<close>.\<close>

definition ParseInt64 :: "string \<Rightarrow> int option" where
  "ParseInt64 s = (case SetString10 s of
     Some n \<Rightarrow> if - (2 ^ 63) \<le> n \<and> n < 2 ^ 63 then Some n else None | None \<Rightarrow> None)"

record 'd distributionState =
  ds_totalAmountDec :: 'd
  ds_amountLeftDec :: 'd
  ds_precisionDec :: 'd
  ds_totalPercentage :: 'd
  ds_fixedTotalDec :: 'd
  ds_fixedAmounts :: "(string \<times> 'd) list"
  ds_percentAmounts :: "(string \<times> 'd) list"
  ds_result :: "(string \<times> int) list"

subsection \<open>The passes\<close>

definition isLeftDistribution :: "Distribution \<Rightarrow> bool" where
  "isLeftDistribution d \<longleftrightarrow> d_Distribution d = ''left'' \<or> d_PreciseDistribution d = ''left''"

definition isPercentageDistribution :: "Distribution \<Rightarrow> bool" where
  "isPercentageDistribution d \<longleftrightarrow> has_suffix (d_Distribution d) ''%''"

definition parseFixedAmount :: "'d decimal \<Rightarrow> (string \<Rightarrow> float64 option) \<Rightarrow> Distribution \<Rightarrow> 'd \<Rightarrow> 'd res" where
  "parseFixedAmount D PF d precisionDec =
     (if d_PreciseDistribution d \<noteq> [] then
        (case ParseInt64 (d_PreciseDistribution d) of
           None \<Rightarrow> Inl (Errorf ''invalid precise_distribution format: must be an integer value in minor units'')
         | Some n \<Rightarrow> Inr (NewFromInt D n))
      else if d_Distribution d \<noteq> [] then
        (case PF (d_Distribution d) of
           None \<Rightarrow> Inl (Errorf ''invalid fixed amount format'')
         | Some x \<Rightarrow> Inr (Mul D (NewFromFloat D x) precisionDec))
      else Inr (NewFromInt D 0))"

fun processFixedDistributions ::
    "'d decimal \<Rightarrow> (string \<Rightarrow> float64 option) \<Rightarrow> Distribution list \<Rightarrow> 'd distributionState \<Rightarrow> 'd distributionState res" where
  "processFixedDistributions D PF [] st = Inr st"
| "processFixedDistributions D PF (d # ds) st =
     (if isLeftDistribution d \<or> isPercentageDistribution d then processFixedDistributions D PF ds st
      else case parseFixedAmount D PF d (ds_precisionDec st) of
        Inl e \<Rightarrow> Inl e
      | Inr a \<Rightarrow>
          if Sign D a = 0 then processFixedDistributions D PF ds st
          else if 0 < Cmp D a (ds_amountLeftDec st)
            then Inl (Errorf ''fixed amount exceeds remaining transaction amount'')
          else processFixedDistributions D PF ds
                 (st\<lparr>ds_fixedAmounts := map_put (d_Identifier d) a (ds_fixedAmounts st),
                     ds_fixedTotalDec := Add D (ds_fixedTotalDec st) a,
                     ds_amountLeftDec := Sub D (ds_amountLeftDec st) a\<rparr>))"

fun processPercentageDistributions ::
    "'d decimal \<Rightarrow> (string \<Rightarrow> float64 option) \<Rightarrow> Distribution list \<Rightarrow> 'd distributionState \<Rightarrow> 'd distributionState res" where
  "processPercentageDistributions D PF [] st = Inr st"
| "processPercentageDistributions D PF (d # ds) st =
     (if isLeftDistribution d \<or> \<not> isPercentageDistribution d then processPercentageDistributions D PF ds st
      else case PF (butlast (d_Distribution d)) of
        None \<Rightarrow> Inl (Errorf ''invalid percentage format'')
      | Some percentage \<Rightarrow>
          (let percentageDec = NewFromFloat D percentage;
               rawAmountDec = Div D (Mul D (ds_totalAmountDec st) percentageDec) (NewFromInt D 100);
               a = (if 0 < Sign D rawAmountDec \<and> Cmp D rawAmountDec (NewFromInt D 1) < 0
                    then NewFromInt D 0 else rawAmountDec)
           in processPercentageDistributions D PF ds
                (st\<lparr>ds_totalPercentage := Add D (ds_totalPercentage st) percentageDec,
                    ds_percentAmounts := map_put (d_Identifier d) a (ds_percentAmounts st)\<rparr>)))"

definition validateDistributions :: "'d decimal \<Rightarrow> 'd distributionState \<Rightarrow> unit res" where
  "validateDistributions D st =
     (if 0 < Cmp D (ds_totalPercentage st) (NewFromInt D 100) \<or> 0 < Cmp D (ds_fixedTotalDec st) (ds_totalAmountDec st)
      then Inl (Errorf ''total distributions exceed 100% or total amount'') else Inr ())"

text \<open>The walk of \<open>findLargestDecimal\<close> over the entries in iteration order.\<close>

fun largest_dec :: "'d decimal \<Rightarrow> (string \<times> 'd) list \<Rightarrow> string \<Rightarrow> 'd \<Rightarrow> string \<times> 'd" where
  "largest_dec D [] k a = (k, a)"
| "largest_dec D ((i, x) # m) k a = (if 0 < Cmp D x a then largest_dec D m i x else largest_dec D m k a)"

definition findLargestDecimal :: "'d decimal \<Rightarrow> (string \<times> 'd) list \<Rightarrow> string \<times> 'd" where
  "findLargestDecimal D m = largest_dec D m [] (NewFromInt D 0)"

definition adjustPercentageAmounts ::
    "'d decimal \<Rightarrow> ((string \<times> 'd) list \<Rightarrow> (string \<times> 'd) list) \<Rightarrow> 'd distributionState \<Rightarrow> 'd distributionState" where
  "adjustPercentageAmounts D ord st =
     (if ds_percentAmounts st = [] then st
      else let targetTotal = Div D (Mul D (ds_totalAmountDec st) (ds_totalPercentage st)) (NewFromInt D 100);
               currentTotal = foldl (\<lambda>acc (k, a). Add D acc a) (NewFromInt D 0) (ord (ds_percentAmounts st));
               diff = Sub D targetTotal currentTotal
           in if Sign D diff = 0 then st
              else case findLargestDecimal D (ord (ds_percentAmounts st)) of (k, a) \<Rightarrow>
                if k \<noteq> [] \<and> 0 < Sign D a
                then st\<lparr>ds_percentAmounts := map_put k (Add D a diff) (ds_percentAmounts st)\<rparr> else st)"

text \<open>
  \<open>combineDistributions\<close>: fixed first, then percentages (which overwrite a fixed amount of the
  same identifier).
\<close>

definition combineDistributions ::
    "'d decimal \<Rightarrow> ((string \<times> 'd) list \<Rightarrow> (string \<times> 'd) list) \<Rightarrow> 'd distributionState \<Rightarrow> 'd distributionState" where
  "combineDistributions D ord st =
     st\<lparr>ds_result := foldl (\<lambda>m (k, a). map_put k (BigInt D a) m) (ds_result st)
                       (ord (ds_fixedAmounts st) @ ord (ds_percentAmounts st)),
        ds_amountLeftDec := foldl (\<lambda>left (k, a). Sub D left a) (ds_amountLeftDec st) (ord (ds_percentAmounts st))\<rparr>"

definition processLeftDistribution ::
    "'d decimal \<Rightarrow> Distribution list \<Rightarrow> 'd distributionState \<Rightarrow> 'd distributionState res" where
  "processLeftDistribution D ds st =
     (case find isLeftDistribution ds of
        None \<Rightarrow> Inr st
      | Some d \<Rightarrow>
          if find_row fst (d_Identifier d) (ds_result st) \<noteq> None
          then Inl (Errorf ''multiple identifiers with 'left' distribution'')
          else Inr (st\<lparr>ds_result := map_put (d_Identifier d) (BigInt D (ds_amountLeftDec st)) (ds_result st)\<rparr>))"

fun largest_int :: "(string \<times> int) list \<Rightarrow> string \<Rightarrow> int \<Rightarrow> string" where
  "largest_int [] k a = k"
| "largest_int ((i, x) # m) k a = (if a < x then largest_int m i x else largest_int m k a)"

definition balanceDistributions ::
    "'d decimal \<Rightarrow> ((string \<times> int) list \<Rightarrow> (string \<times> int) list) \<Rightarrow> 'd distributionState \<Rightarrow> 'd distributionState" where
  "balanceDistributions D ord st =
     (let sumDec = foldl (\<lambda>acc (k, a). Add D acc (NewFromInt D a)) (NewFromInt D 0) (ord (ds_result st))
      in if Cmp D sumDec (ds_totalAmountDec st) = 0 then st
         else let k = largest_int (ord (ds_result st)) [] 0
              in if k = [] then st
                 else case find_row fst k (ds_result st) of
                        None \<Rightarrow> st
                      | Some (_, a) \<Rightarrow>
                          st\<lparr>ds_result := map_put k (a + BigInt D (Sub D (ds_totalAmountDec st) sumDec)) (ds_result st)\<rparr>)"

definition handleZeroAmount :: "Distribution list \<Rightarrow> (string \<times> int) list" where
  "handleZeroAmount ds = foldl (\<lambda>m d. map_put (d_Identifier d) 0 m) [] ds"

definition handleSmallAmount :: "int \<Rightarrow> Distribution list \<Rightarrow> (string \<times> int) list option" where
  "handleSmallAmount totalAmt ds =
     (if 1 < totalAmt \<or> totalAmt \<le> 0 then None
      else case ds of [] \<Rightarrow> None
           | d # ds' \<Rightarrow> Some (foldl (\<lambda>m d. map_put (d_Identifier d) 0 m) [(d_Identifier d, totalAmt)] ds'))"

definition CalculateDistributionsPrecise ::
    "'d decimal \<Rightarrow> (string \<Rightarrow> float64 option) \<Rightarrow> ((string \<times> 'd) list \<Rightarrow> (string \<times> 'd) list)
       \<Rightarrow> ((string \<times> int) list \<Rightarrow> (string \<times> int) list) \<Rightarrow> int \<Rightarrow> Distribution list \<Rightarrow> int \<Rightarrow> (string \<times> int) list res" where
  "CalculateDistributionsPrecise D PF ordd ordi totalAmt ds precision =
     (if totalAmt = 0 then Inr (handleZeroAmount ds)
      else case handleSmallAmount totalAmt ds of
        Some m \<Rightarrow> Inr m
      | None \<Rightarrow>
          (let zero = NewFromInt D 0;
               st0 = \<lparr>ds_totalAmountDec = NewFromInt D totalAmt, ds_amountLeftDec = NewFromInt D totalAmt,
                      ds_precisionDec = NewFromInt D precision, ds_totalPercentage = zero, ds_fixedTotalDec = zero,
                      ds_fixedAmounts = [], ds_percentAmounts = [], ds_result = []\<rparr>
           in case processFixedDistributions D PF ds st0 of Inl e \<Rightarrow> Inl e | Inr st1 \<Rightarrow>
              (case processPercentageDistributions D PF ds st1 of Inl e \<Rightarrow> Inl e | Inr st2 \<Rightarrow>
               (case validateDistributions D st2 of Inl e \<Rightarrow> Inl e | Inr _ \<Rightarrow>
                (case processLeftDistribution D ds
                        (combineDistributions D ordd (adjustPercentageAmounts D ordd st2)) of
                   Inl e \<Rightarrow> Inl e
                 | Inr st3 \<Rightarrow> Inr (ds_result (balanceDistributions D ordi st3)))))))"

subsection \<open>Splitting\<close>

text \<open>
  One leg of \<open>SplitTransactionPrecise\<close>: \<open>counter\<close> starts at 1, \<open>direction\<close> is the identifier of
  the current map entry.
\<close>

definition split_leg ::
    "'d decimal \<Rightarrow> (string \<Rightarrow> string) \<Rightarrow> (nat \<Rightarrow> string) \<Rightarrow> Transaction \<Rightarrow> nat \<Rightarrow> string \<times> int \<Rightarrow> Transaction" where
  "split_leg D H uuid t counter e =
     (let t1 = convertPreciseToDecimal D (t\<lparr>t_TransactionID := uuid counter, t_PreciseAmount := Some (snd e)\<rparr>);
          t2 = t1\<lparr>t_Hash := HashTxn H t1, t_Sources := [], t_Destinations := [],
                  t_ParentTransaction := t_TransactionID t\<rparr>;
          t3 = (if t_Sources t \<noteq> [] then t2\<lparr>t_Source := fst e\<rparr>
                else if t_Destinations t \<noteq> [] then t2\<lparr>t_Destination := fst e\<rparr> else t2)
      in t3\<lparr>t_Reference := t_Reference t @ ''-'' @ show_nat counter\<rparr>)"

fun split_loop ::
    "'d decimal \<Rightarrow> (string \<Rightarrow> string) \<Rightarrow> (nat \<Rightarrow> string) \<Rightarrow> Transaction \<Rightarrow> nat \<Rightarrow> (string \<times> int) list \<Rightarrow> Transaction list" where
  "split_loop D H uuid t counter [] = []"
| "split_loop D H uuid t counter (e # m) = split_leg D H uuid t counter e # split_loop D H uuid t (Suc counter) m"

text \<open>The ids written back to \<open>Sources[counter-1]\<close> or \<open>Destinations[counter-1]\<close>.\<close>

definition record_ids :: "Transaction \<Rightarrow> Transaction list \<Rightarrow> Transaction" where
  "record_ids t legs =
     (let upd = (\<lambda>ds. map (\<lambda>(d, l). d\<lparr>d_TransactionID := t_TransactionID l\<rparr>) (zip ds legs) @ drop (length legs) ds)
      in if t_Sources t \<noteq> [] then t\<lparr>t_Sources := upd (t_Sources t)\<rparr>
         else if t_Destinations t \<noteq> [] then t\<lparr>t_Destinations := upd (t_Destinations t)\<rparr> else t)"

definition SplitTransactionPrecise ::
    "'d decimal \<Rightarrow> (string \<Rightarrow> float64 option) \<Rightarrow> ((string \<times> 'd) list \<Rightarrow> (string \<times> 'd) list)
       \<Rightarrow> ((string \<times> int) list \<Rightarrow> (string \<times> int) list) \<Rightarrow> (string \<Rightarrow> string) \<Rightarrow> (nat \<Rightarrow> string) \<Rightarrow> Transaction
       \<Rightarrow> (Transaction \<times> Transaction list) res" where
  "SplitTransactionPrecise D PF ordd ordi H uuid t =
     (let ds = (if t_Sources t \<noteq> [] then t_Sources t else t_Destinations t)
      in case t_PreciseAmount t of
           None \<Rightarrow> Inl NilPanic
         | Some amount \<Rightarrow>
             (case CalculateDistributionsPrecise D PF ordd ordi amount ds (trunc (t_Precision t)) of
                Inl e \<Rightarrow> Inl e
              | Inr m \<Rightarrow> let legs = split_loop D H uuid t 1 (ordi m) in Inr (record_ids t legs, legs)))"

section \<open>Facts\<close>

definition iterates :: "('a list \<Rightarrow> 'a list) \<Rightarrow> bool" where
  "iterates ord \<longleftrightarrow> (\<forall>m. mset (ord m) = mset m)"

lemma iterates_set: "iterates ord \<Longrightarrow> set (ord m) = set m"
  unfolding iterates_def by (metis set_mset_mset)

lemma iterates_sum: "iterates ord \<Longrightarrow> sum_list (map f (ord m)) = (sum_list (map f m) :: int)"
  unfolding iterates_def by (metis mset_map sum_mset_sum_list)

lemma iterates_distinct: "iterates ord \<Longrightarrow> distinct (map f (ord m)) = distinct (map f m)"
  unfolding iterates_def by (metis mset_eq_imp_distinct_iff mset_map)

lemma iterates_id: "iterates (\<lambda>m. m)"
  by (simp add: iterates_def)

definition keys_ok :: "(string \<times> 'v) list \<Rightarrow> bool" where
  "keys_ok m \<longleftrightarrow> distinct (map fst m)"

lemma map_put_keys: "keys_ok m \<Longrightarrow> keys_ok (map_put k v m)"
  by (auto simp: keys_ok_def map_put_def find_row_None)

definition map_keys :: "(string \<times> 'v) list \<Rightarrow> string set" where
  "map_keys m = fst ` set m"

lemma map_put_set: "map_keys (map_put k v m) = insert k (map_keys m)"
proof (cases "find_row fst k m")
  case None
  then show ?thesis by (simp add: map_put_def map_keys_def)
next
  case (Some r)
  then have "k \<in> fst ` set m" using find_row_Some [of fst k m r] by force
  moreover have "fst ` set (set_row fst (k, v) m) = fst ` set m"
    by (metis keys_set_row list.set_map)
  ultimately show ?thesis using Some by (auto simp: map_put_def map_keys_def)
qed

lemma iterates_keys: "iterates ord \<Longrightarrow> map_keys (ord m) = map_keys m"
  by (simp add: map_keys_def iterates_set)

lemma map_keys_simps [simp]: "map_keys [] = {}" "map_keys (e # m) = insert (fst e) (map_keys m)"
  "map_keys (m @ m') = map_keys m \<union> map_keys m'"
  by (auto simp: map_keys_def)

lemma fold_put_keys: "keys_ok m \<Longrightarrow> keys_ok (foldl (\<lambda>m (k, a). map_put k (f a) m) m xs)"
  by (induction xs arbitrary: m) (auto simp: map_put_keys)

lemma map_put_sum:
  assumes "keys_ok m" "find_row fst k m = Some (k', a)"
  shows "sum_list (map snd (map_put k (v :: int) m)) = sum_list (map snd m) - a + v"
  using sum_list_set_row [of fst m "(k, v)" "(k', a)" snd] assms by (simp add: map_put_def keys_ok_def)

text \<open>The walk for the largest entry: it finds a key exactly when some amount is positive.\<close>

lemma largest_int_spec:
  "largest_int m k a = k \<and> (\<forall>e \<in> set m. snd e \<le> a) \<or>
   (\<exists>x. (largest_int m k a, x) \<in> set m \<and> a < x)"
proof (induction m k a rule: largest_int.induct)
  case (2 i x m k a)
  then show ?case by (cases "a < x") (auto intro: order_trans less_imp_le less_trans)
qed simp

text \<open>Every map of the calculation is keyed by identifiers of the request.\<close>

definition ids_within :: "string set \<Rightarrow> 'd distributionState \<Rightarrow> bool" where
  "ids_within A st \<longleftrightarrow> map_keys (ds_fixedAmounts st) \<subseteq> A \<and> map_keys (ds_percentAmounts st) \<subseteq> A \<and>
     map_keys (ds_result st) \<subseteq> A \<and> keys_ok (ds_result st)"

lemma processFixed_within:
  "processFixedDistributions D PF ds st = Inr st' \<Longrightarrow> ids_within A st \<Longrightarrow> \<forall>d \<in> set ds. d_Identifier d \<in> A
     \<Longrightarrow> ids_within A st' \<and> ds_totalAmountDec st' = ds_totalAmountDec st"
proof (induction D PF ds st rule: processFixedDistributions.induct)
  case (2 D PF d ds st)
  show ?case
  proof (cases "isLeftDistribution d \<or> isPercentageDistribution d")
    case True
    with 2 show ?thesis by simp
  next
    case False
    with "2.prems"(1) obtain a where a: "parseFixedAmount D PF d (ds_precisionDec st) = Inr a"
      by (auto split: sum.splits)
    show ?thesis
    proof (cases "Sign D a = 0")
      case True
      with 2 False a show ?thesis by simp
    next
      case nz: False
      from "2.prems"(2,3) have "ids_within A (st\<lparr>ds_fixedAmounts := map_put (d_Identifier d) a (ds_fixedAmounts st),
          ds_fixedTotalDec := Add D (ds_fixedTotalDec st) a, ds_amountLeftDec := Sub D (ds_amountLeftDec st) a\<rparr>)"
        by (simp add: ids_within_def map_put_set)
      with 2 False a nz show ?thesis by (simp split: if_splits)
    qed
  qed
qed simp

lemma processPercentage_within:
  "processPercentageDistributions D PF ds st = Inr st' \<Longrightarrow> ids_within A st \<Longrightarrow> \<forall>d \<in> set ds. d_Identifier d \<in> A
     \<Longrightarrow> ids_within A st' \<and> ds_totalAmountDec st' = ds_totalAmountDec st"
proof (induction D PF ds st rule: processPercentageDistributions.induct)
  case (2 D PF d ds st)
  then show ?case
    by (auto simp: Let_def ids_within_def map_put_set split: if_splits option.splits)
qed simp

lemma largest_dec_mem: "fst (largest_dec D m k a) \<in> insert k (map_keys m)"
  by (induction m arbitrary: k a) (force simp: map_keys_def)+

lemma adjust_within:
  assumes "ids_within A st" "iterates ord"
  shows "ids_within A (adjustPercentageAmounts D ord st)"
    and "ds_totalAmountDec (adjustPercentageAmounts D ord st) = ds_totalAmountDec st"
  using assms largest_dec_mem [of D "ord (ds_percentAmounts st)" "[]" "NewFromInt D 0"]
    iterates_keys [OF assms(2), of "ds_percentAmounts st"]
  by (auto simp: adjustPercentageAmounts_def findLargestDecimal_def Let_def ids_within_def map_put_set
      split: prod.splits)

lemma fold_put_set: "map_keys (foldl (\<lambda>m (k, a). map_put k (f a) m) m xs) = map_keys m \<union> map_keys xs"
proof (induction xs arbitrary: m)
  case (Cons x xs)
  show ?case by (cases x) (simp add: Cons map_put_set)
qed simp

lemma combine_within:
  assumes "ids_within A st" "iterates ord"
  shows "ids_within A (combineDistributions D ord st)"
    and "ds_totalAmountDec (combineDistributions D ord st) = ds_totalAmountDec st"
proof -
  show "ids_within A (combineDistributions D ord st)"
    using assms unfolding ids_within_def combineDistributions_def
    by (auto simp: fold_put_set fold_put_keys iterates_keys simp del: foldl_append)
qed (simp add: combineDistributions_def)

lemma left_within:
  "processLeftDistribution D ds st = Inr st' \<Longrightarrow> ids_within A st \<Longrightarrow> \<forall>d \<in> set ds. d_Identifier d \<in> A
     \<Longrightarrow> ids_within A st' \<and> ds_totalAmountDec st' = ds_totalAmountDec st"
proof (cases "find isLeftDistribution ds")
  case (Some d)
  moreover assume "processLeftDistribution D ds st = Inr st'" "ids_within A st" "\<forall>d \<in> set ds. d_Identifier d \<in> A"
  moreover have "d \<in> set ds" using Some by (auto simp: find_Some_iff)
  ultimately show ?thesis
    unfolding processLeftDistribution_def ids_within_def
    by (auto simp: map_put_set map_put_keys split: if_splits)
qed (simp add: processLeftDistribution_def)

lemma zeros_bound:
  "keys_ok m \<Longrightarrow> \<forall>e \<in> set m. 0 \<le> snd e \<Longrightarrow> m' = foldl (\<lambda>m d. map_put (d_Identifier d) (0 :: int) m) m ds
     \<Longrightarrow> (\<forall>e \<in> set m'. 0 \<le> snd e) \<and> sum_list (map snd m') \<le> sum_list (map snd m)"
proof (induction ds arbitrary: m)
  case (Cons d ds)
  let ?m = "map_put (d_Identifier d) 0 m"
  have "\<forall>e \<in> set ?m. 0 \<le> snd e"
    using Cons.prems(2) by (auto simp: map_put_def set_row_def)
  moreover have "sum_list (map snd ?m) \<le> sum_list (map snd m)"
  proof (cases "find_row fst (d_Identifier d) m")
    case (Some e)
    with Cons.prems have "0 \<le> snd e" using find_row_Some by metis
    with Some map_put_sum [OF Cons.prems(1), of "d_Identifier d" "fst e" "snd e" 0] show ?thesis by simp
  qed (simp add: map_put_def)
  ultimately show ?case using Cons.IH [OF map_put_keys [OF Cons.prems(1)]] Cons.prems(3) by fastforce
qed simp

lemma zeros_keys: "keys_ok m \<Longrightarrow> keys_ok (foldl (\<lambda>m d. map_put (d_Identifier d) (0 :: int) m) m ds)"
  by (induction ds arbitrary: m) (auto simp: map_put_keys)

lemma zeros_set:
  "map_keys (foldl (\<lambda>m d. map_put (d_Identifier d) (0 :: int) m) m ds) = map_keys m \<union> d_Identifier ` set ds"
  by (induction ds arbitrary: m) (simp_all add: map_put_set)

context decimal_pkg
begin

lemma foldl_Add: "val (foldl (\<lambda>acc (k, a). Add D acc (NewFromInt D a)) z m) = val z + of_int (sum_list (map snd m))"
  by (induction m arbitrary: z) (auto simp: exact)

text \<open>The correction step: the amounts sum to the total unless none of them is positive.\<close>

lemma balance_total:
  assumes "val (ds_totalAmountDec st) = of_int n" "keys_ok (ds_result st)" "[] \<notin> map_keys (ds_result st)" "iterates ord"
    and m: "m = ds_result (balanceDistributions D ord st)"
  shows "(sum_list (map snd m) = n \<or> (\<forall>e \<in> set m. snd e \<le> 0)) \<and> keys_ok m \<and> map_keys m = map_keys (ds_result st)"
proof -
  let ?r = "ds_result st" and ?k = "largest_int (ord (ds_result st)) [] 0"
  let ?s = "foldl (\<lambda>acc (k, a). Add D acc (NewFromInt D a)) (NewFromInt D 0) (ord ?r)"
  have s: "val ?s = of_int (sum_list (map snd ?r))"
    using foldl_Add [of "NewFromInt D 0" "ord ?r"] iterates_sum [OF assms(4), of snd ?r] by (simp add: exact)
  have keep: "m = ?r" if "Cmp D ?s (ds_totalAmountDec st) = 0 \<or> ?k = []"
    using that by (auto simp: m balanceDistributions_def Let_def)
  show ?thesis
  proof (cases "Cmp D ?s (ds_totalAmountDec st) = 0 \<or> ?k = []")
    case True
    have "\<forall>e \<in> set ?r. snd e \<le> 0" if "?k = []"
      using largest_int_spec [of "ord ?r" "[]" 0] that assms(3) iterates_set [OF assms(4), of ?r]
      by (auto simp: map_keys_def image_iff)
    moreover have "sum_list (map snd ?r) = n" if "Cmp D ?s (ds_totalAmountDec st) = 0"
      using that s assms(1) by (simp add: cmp split: if_splits)
    ultimately show ?thesis using True keep assms(2) by blast
  next
    case False
    then obtain x where x: "(?k, x) \<in> set ?r"
      using largest_int_spec [of "ord ?r" "[]" 0] iterates_set [OF assms(4), of ?r] by auto
    then have f: "find_row fst ?k ?r = Some (?k, x)"
      using find_row_mem [of fst ?r "(?k, x)"] assms(2) by (simp add: keys_ok_def)
    have d: "BigInt D (Sub D (ds_totalAmountDec st) ?s) = n - sum_list (map snd ?r)"
      using s assms(1) by (simp add: big_int exact flip: of_int_diff)
    have "m = map_put ?k (x + (n - sum_list (map snd ?r))) ?r"
      using False f d by (simp add: m balanceDistributions_def Let_def)
    moreover have "?k \<in> map_keys ?r" using x by (force simp: map_keys_def)
    ultimately show ?thesis using map_put_sum [OF assms(2) f] map_put_keys [OF assms(2)]
      by (simp add: map_put_set insert_absorb)
  qed
qed

lemma calculate_total:
  assumes ids: "\<forall>d \<in> set ds. d_Identifier d \<noteq> []" and ords: "iterates ordd" "iterates ordi"
    and m: "CalculateDistributionsPrecise D PF ordd ordi n ds p = Inr m"
  shows "(sum_list (map snd m) = n \<or> (\<forall>e \<in> set m. snd e \<le> 0)) \<and> keys_ok m \<and> map_keys m \<subseteq> d_Identifier ` set ds"
proof (cases "n = 0")
  case True
  with m have "m = foldl (\<lambda>m d. map_put (d_Identifier d) 0 m) [] ds"
    by (simp add: CalculateDistributionsPrecise_def handleZeroAmount_def)
  then show ?thesis using True zeros_bound [of "[]" m ds] zeros_keys [of "[]" ds] zeros_set [of "[]" ds]
      sum_list_nonneg [of "map snd m"] by (fastforce simp: keys_ok_def)
next
  case nz: False
  show ?thesis
  proof (cases "handleSmallAmount n ds")
    case (Some m')
    with m nz have "m' = m" by (simp add: CalculateDistributionsPrecise_def)
    have "n = 1" using Some by (simp add: handleSmallAmount_def split: if_splits)
    with \<open>m' = m\<close> Some obtain d ds' where d: "ds = d # ds'" "n = 1"
      and z: "m = foldl (\<lambda>m d. map_put (d_Identifier d) 0 m) [(d_Identifier d, 1)] ds'"
      by (auto simp: handleSmallAmount_def split: if_splits list.splits)
    have k: "keys_ok [(d_Identifier d, 1 :: int)]" by (simp add: keys_ok_def)
    have pos: "\<forall>e \<in> set m. 0 \<le> snd e" "sum_list (map snd m) \<le> 1" using zeros_bound [OF k _ z] by auto
    moreover have "0 \<le> sum_list (map snd m)" by (rule sum_list_nonneg) (use pos in auto)
    moreover have "sum_list (map snd m) = 0 \<Longrightarrow> \<forall>e \<in> set m. snd e \<le> 0"
      using sum_list_nonneg_eq_0_iff [of "map snd m"] pos(1) by force
    ultimately show ?thesis using z zeros_keys [OF k, of ds'] zeros_set [of "[(d_Identifier d, 1)]" ds'] d by fastforce
  next
    case None
    let ?A = "d_Identifier ` set ds"
    let ?st0 = "\<lparr>ds_totalAmountDec = NewFromInt D n, ds_amountLeftDec = NewFromInt D n,
      ds_precisionDec = NewFromInt D p, ds_totalPercentage = NewFromInt D 0, ds_fixedTotalDec = NewFromInt D 0,
      ds_fixedAmounts = [], ds_percentAmounts = [], ds_result = []\<rparr>"
    have within: "ids_within ?A ?st0" by (simp add: ids_within_def keys_ok_def)
    from m nz None obtain st1 st2 st3 where
      1: "processFixedDistributions D PF ds ?st0 = Inr st1" "processPercentageDistributions D PF ds st1 = Inr st2"
      and 3: "processLeftDistribution D ds (combineDistributions D ordd (adjustPercentageAmounts D ordd st2)) = Inr st3"
      and 4: "m = ds_result (balanceDistributions D ordi st3)"
      by (auto simp: CalculateDistributionsPrecise_def Let_def res_bind_Inr split: sum.splits)
    have A: "\<forall>d \<in> set ds. d_Identifier d \<in> ?A" by simp
    have 2: "ids_within ?A st2" "ds_totalAmountDec st2 = NewFromInt D n"
      using processPercentage_within [OF 1(2) _ A] processFixed_within [OF 1(1) within A] by auto
    have st3: "ids_within ?A st3" "ds_totalAmountDec st3 = NewFromInt D n"
      using left_within [OF 3 combine_within(1) [OF adjust_within(1) [OF 2(1) ords(1)] ords(1)] A]
      by (simp_all add: adjust_within(2) [OF 2(1) ords(1)] combine_within(2) [OF adjust_within(1) [OF 2(1) ords(1)] ords(1)] 2(2))
    moreover have "[] \<notin> map_keys (ds_result st3)" using ids st3(1) unfolding ids_within_def by (metis imageE subsetD)
    ultimately show ?thesis using balance_total [of st3 n, OF _ _ _ ords(2) 4] by (auto simp: ids_within_def exact)
  qed
qed

end

lemma show_nat_inj: "show_nat a = show_nat b \<Longrightarrow> a = b"
  by (metis option.inject parse_show_nat)

lemma split_leg_fields [simp]:
  "t_PreciseAmount (split_leg D H uuid t c e) = Some (snd e)"
  "t_ParentTransaction (split_leg D H uuid t c e) = t_TransactionID t"
  "t_TransactionID (split_leg D H uuid t c e) = uuid c"
  "t_Reference (split_leg D H uuid t c e) = t_Reference t @ ''-'' @ show_nat c"
  "t_Sources (split_leg D H uuid t c e) = [] \<and> t_Destinations (split_leg D H uuid t c e) = []"
  "t_Source (split_leg D H uuid t c e) = (if t_Sources t \<noteq> [] then fst e else t_Source t)"
  "t_Destination (split_leg D H uuid t c e) =
     (if t_Sources t = [] \<and> t_Destinations t \<noteq> [] then fst e else t_Destination t)"
  by (simp_all add: split_leg_def convertPreciseToDecimal_def Let_def)

lemma split_loop_map: "split_loop D H uuid t c m = map (\<lambda>(i, e). split_leg D H uuid t i e) (zip [c..<c + length m] m)"
  by (induction m arbitrary: c) (simp_all add: upt_conv_Cons del: upt_Suc)

lemma split_loop_amounts: "map t_PreciseAmount (split_loop D H uuid t c m) = map (Some \<circ> snd) m"
  by (induction m arbitrary: c) simp_all

lemma split_loop_refs:
  "map t_Reference (split_loop D H uuid t c m) = map (\<lambda>i. t_Reference t @ ''-'' @ show_nat i) [c..<c + length m]"
  by (induction m arbitrary: c) (simp_all add: upt_conv_Cons del: upt_Suc)

section \<open>Properties\<close>

text \<open>
  C24: Splitting conserves the amount. When the identifiers are not empty, whatever order the maps
  are walked in, the amounts that \<open>CalculateDistributionsPrecise\<close> assigns to distinct identifiers
  of the request sum to exactly the transaction's amount in minor units, or none of them is
  positive (every share rounded down to nothing).
\<close>

theorem distributions_sum_to_total:
  assumes "decimal_pkg D val" "iterates ordd" "iterates ordi" "\<forall>d \<in> set ds. d_Identifier d \<noteq> []"
    and "CalculateDistributionsPrecise D PF ordd ordi n ds p = Inr m"
  shows "(sum_list (map snd m) = n \<or> (\<forall>e \<in> set m. snd e \<le> 0)) \<and> distinct (map fst m) \<and>
    fst ` set m \<subseteq> d_Identifier ` set ds"
  using decimal_pkg.calculate_total [OF assms(1,4,2,3,5)] by (simp add: keys_ok_def map_keys_def)

definition ex_dist :: "string \<Rightarrow> string \<Rightarrow> Distribution" where
  "ex_dist i s = \<lparr>d_Identifier = i, d_Distribution = s, d_PreciseDistribution = [], d_TransactionID = []\<rparr>"

theorem distributions_sum_to_total_witness:
  "\<exists>m. CalculateDistributionsPrecise rat_decimal parse_decimal id rev 1000
         [ex_dist ''a'' ''33%'', ex_dist ''b'' ''1.5'', ex_dist ''c'' ''left''] 100 = Inr m \<and>
       m = [(''b'', 150), (''a'', 330), (''c'', 520)] \<and> sum_list (map snd m) = 1000"
proof -
  have m: "CalculateDistributionsPrecise rat_decimal parse_decimal id rev 1000
      [ex_dist ''a'' ''33%'', ex_dist ''b'' ''1.5'', ex_dist ''c'' ''left''] 100 = Inr [(''b'', 150), (''a'', 330), (''c'', 520)]"
    by code_simp
  have "\<forall>d \<in> set [ex_dist ''a'' ''33%'', ex_dist ''b'' ''1.5'', ex_dist ''c'' ''left'']. d_Identifier d \<noteq> []"
    by (simp add: ex_dist_def)
  from distributions_sum_to_total [OF ratdec.decimal_pkg_axioms _ _ this m] m show ?thesis
    by (simp add: iterates_def)
qed

text \<open>
  C25: The legs of a split, when the transaction has an amount and sources or destinations to split
  over, none of them with an empty identifier. If \<open>SplitTransactionPrecise\<close> succeeds it returns
  exactly one transaction for each entry of the calculation, with the entry's identifier on the
  split side and the entry's amount: every leg has the original as its parent, no further sources or
  destinations, and its own reference; the parties on the split side are distinct identifiers of the
  request; and the legs' amounts add up to the original's, or none of them is positive.
\<close>

theorem split_transaction_legs:
  assumes "decimal_pkg D val" "iterates ordd" "iterates ordi" "t_PreciseAmount t = Some n"
    and ds: "ds = (if t_Sources t \<noteq> [] then t_Sources t else t_Destinations t)" "ds \<noteq> []"
    and ids: "\<forall>d \<in> set ds. d_Identifier d \<noteq> []"
    and ok: "SplitTransactionPrecise D PF ordd ordi H uuid t = Inr (t', legs)"
  shows "(\<exists>m. CalculateDistributionsPrecise D PF ordd ordi n ds (trunc (t_Precision t)) = Inr m \<and>
       mset (map (\<lambda>l. ((if t_Sources t \<noteq> [] then t_Source else t_Destination) l, t_PreciseAmount l)) legs) =
       mset (map (\<lambda>(i, k). (i, Some k)) m)) \<and>
    (\<forall>l \<in> set legs. t_ParentTransaction l = t_TransactionID t \<and> t_Sources l = [] \<and> t_Destinations l = []) \<and>
    distinct (map t_Reference legs) \<and>
    distinct (map (if t_Sources t \<noteq> [] then t_Source else t_Destination) legs) \<and>
    (if t_Sources t \<noteq> [] then t_Source else t_Destination) ` set legs \<subseteq> d_Identifier ` set ds \<and>
    (sum_list (map (or0 \<circ> t_PreciseAmount) legs) = n \<or> (\<forall>l \<in> set legs. or0 (t_PreciseAmount l) \<le> 0))"
proof -
  obtain m where m: "CalculateDistributionsPrecise D PF ordd ordi n ds (trunc (t_Precision t)) = Inr m"
    and legs: "legs = split_loop D H uuid t 1 (ordi m)"
    using ok assms(4) ds(1) by (auto simp: SplitTransactionPrecise_def Let_def split: sum.splits)
  note total = decimal_pkg.calculate_total [OF assms(1) ids assms(2,3) m]
  let ?party = "if t_Sources t \<noteq> [] then t_Source else t_Destination"
  have parties: "map ?party (split_loop D H uuid t c xs) = map fst xs" for c xs
    using ds by (induction xs arbitrary: c) auto
  have amounts: "map (or0 \<circ> t_PreciseAmount) legs = map snd (ordi m)"
    using arg_cong [OF split_loop_amounts [of D H uuid t 1 "ordi m"], of "map or0"]
    unfolding legs by (simp add: comp_def)
  have keys: "distinct (map fst (ordi m))"
    using total iterates_distinct [OF assms(3), of fst m] by (simp add: keys_ok_def)
  have refs: "distinct (map t_Reference legs)"
    unfolding legs split_loop_refs by (auto simp: distinct_map inj_on_def dest: show_nat_inj)
  have "sum_list (map snd (ordi m)) = sum_list (map snd m)" by (rule iterates_sum [OF assms(3)])
  moreover have "(\<forall>l \<in> set legs. or0 (t_PreciseAmount l) \<le> 0) \<longleftrightarrow> (\<forall>e \<in> set m. snd e \<le> 0)"
    using arg_cong [OF amounts, of "\<lambda>xs. \<forall>x \<in> set xs. x \<le> 0"] iterates_set [OF assms(3), of m] by simp
  moreover have "?party ` set legs = map_keys m"
    using arg_cong [OF parties [of 1 "ordi m"], of set] iterates_set [OF assms(3), of m]
    unfolding legs map_keys_def by simp
  moreover have "\<forall>l \<in> set legs. t_ParentTransaction l = t_TransactionID t \<and> t_Sources l = [] \<and> t_Destinations l = []"
    unfolding legs split_loop_map by auto
  moreover have "map ?party legs = map fst (ordi m)" unfolding legs by (rule parties)
  ultimately have rest: "(\<forall>l \<in> set legs. t_ParentTransaction l = t_TransactionID t \<and> t_Sources l = [] \<and> t_Destinations l = []) \<and>
      distinct (map t_Reference legs) \<and> distinct (map ?party legs) \<and> ?party ` set legs \<subseteq> d_Identifier ` set ds \<and>
      (sum_list (map (or0 \<circ> t_PreciseAmount) legs) = n \<or> (\<forall>l \<in> set legs. or0 (t_PreciseAmount l) \<le> 0))"
    using total keys refs amounts by metis
  have entries: "map (\<lambda>l. (?party l, t_PreciseAmount l)) (split_loop D H uuid t c xs) = map (\<lambda>(i, k). (i, Some k)) xs" for c xs
    using ds by (induction xs arbitrary: c) auto
  have "mset (map (\<lambda>l. (?party l, t_PreciseAmount l)) legs) = mset (map (\<lambda>(i, k). (i, Some k)) m)"
    unfolding legs entries using assms(3) by (simp add: iterates_def)
  with m have "\<exists>m. CalculateDistributionsPrecise D PF ordd ordi n ds (trunc (t_Precision t)) = Inr m \<and>
      mset (map (\<lambda>l. (?party l, t_PreciseAmount l)) legs) = mset (map (\<lambda>(i, k). (i, Some k)) m)" by (intro exI conjI)
  from this rest show ?thesis by (rule conjI)
qed

text \<open>
  When every share is below one minor unit and nothing takes the remainder, all legs are zero:
  the amount is not distributed at all.
\<close>

lemma tiny_shares_are_lost:
  "CalculateDistributionsPrecise rat_decimal parse_decimal id id 3
     (map (\<lambda>i. ex_dist i ''25%'') [''a'', ''b'', ''c'', ''d'']) 100 =
   Inr [(''a'', 0), (''b'', 0), (''c'', 0), (''d'', 0)]"
  by code_simp

definition ex_split :: Transaction where
  "ex_split = zero_Transaction\<lparr>t_TransactionID := ''txn_1'', t_Reference := ''r'', t_Source := ''bln_a'',
     t_PreciseAmount := Some 1000, t_Precision := 100, t_Currency := ''USD'',
     t_Destinations := [ex_dist ''bln_b'' ''10%'', ex_dist ''bln_c'' ''left'']\<rparr>"

theorem split_transaction_legs_witness:
  "\<exists>t' legs. SplitTransactionPrecise rat_decimal parse_decimal id id id (\<lambda>n. replicate n CHR ''x'') ex_split = Inr (t', legs) \<and>
     map t_Destination legs = [''bln_b'', ''bln_c''] \<and> map t_PreciseAmount legs = [Some 100, Some 900] \<and>
     map t_Reference legs = [''r-1'', ''r-2''] \<and> sum_list (map (or0 \<circ> t_PreciseAmount) legs) = 1000"
proof -
  let ?run = "SplitTransactionPrecise rat_decimal parse_decimal id id id (\<lambda>n. replicate n CHR ''x'') ex_split"
  have m: "CalculateDistributionsPrecise rat_decimal parse_decimal id id 1000
      [ex_dist ''bln_b'' ''10%'', ex_dist ''bln_c'' ''left''] 100 = Inr [(''bln_b'', 100), (''bln_c'', 900)]"
    by code_simp
  have d: "show_nat (Suc 0) = ''1''" "show_nat (Suc (Suc 0)) = ''2''" by code_simp+
  obtain t' legs where R: "?run = Inr (t', legs)" and
    l: "legs = split_loop rat_decimal id (\<lambda>n. replicate n CHR ''x'') ex_split 1 [(''bln_b'', 100), (''bln_c'', 900)]"
    using m trunc_of_int [of 100] by (simp add: SplitTransactionPrecise_def ex_split_def zero_Transaction_def Let_def)
  have legs: "map t_Destination legs = [''bln_b'', ''bln_c'']"
     "map t_PreciseAmount legs = [Some 100, Some 900]" "map t_Reference legs = [''r-1'', ''r-2'']"
    by (simp_all add: l d) (simp_all add: ex_split_def zero_Transaction_def)
  have i: "iterates id" by (simp add: iterates_def)
  have a: "t_PreciseAmount ex_split = Some 1000" by (simp add: ex_split_def)
  have ds: "(if t_Sources ex_split \<noteq> [] then t_Sources ex_split else t_Destinations ex_split) \<noteq> []"
    "\<forall>d \<in> set (if t_Sources ex_split \<noteq> [] then t_Sources ex_split else t_Destinations ex_split). d_Identifier d \<noteq> []"
    by (simp_all add: ex_split_def ex_dist_def zero_Transaction_def)
  have "sum_list (map (or0 \<circ> t_PreciseAmount) legs) = 1000 \<or> (\<forall>l \<in> set legs. or0 (t_PreciseAmount l) \<le> 0)"
    using split_transaction_legs [OF ratdec.decimal_pkg_axioms i i a refl ds R] by blast
  moreover have "(\<forall>l \<in> set legs. or0 (t_PreciseAmount l) \<le> 0) = (\<forall>x \<in> set (map t_PreciseAmount legs). or0 x \<le> 0)"
    by simp
  ultimately have "sum_list (map (or0 \<circ> t_PreciseAmount) legs) = 1000" unfolding legs(2) by simp
  with R legs show ?thesis by - (rule exI [of _ t'], rule exI [of _ legs], simp)
qed

end
