(* ===== verification/HotPairs.thy ===== *)
theory HotPairs
  imports Ledger
begin

text \<open>
  Routing of contended balance pairs to the hot queue lane (\<open>internal/hotpairs\<close>). The Redis client
  is the parameter \<open>C\<close>, with the commands the package issues; \<open>hot_redis\<close> states what the package
  relies on, \<open>live\<close> reading the keys that have not expired. The counter of queued transactions is
  the argument \<open>count\<close> (\<open>None\<close> for a nil interface).
\<close>

datatype hcmd = HSet string string int | HDel string | HIncr string | HExpire string int

record 'h hclient =
  HGet :: "string \<Rightarrow> 'h \<Rightarrow> string option res"
  HExists :: "string \<Rightarrow> 'h \<Rightarrow> nat res"
  HExec :: "hcmd list \<Rightarrow> 'h \<Rightarrow> 'h \<times> int list res"

definition LaneNormal :: string where "LaneNormal = ''normal''"
definition LaneHot :: string where "LaneHot = ''hot''"

datatype State = StateNormal | StatePromoting | StateHot | StateCoolingDown

fun state_string :: "State \<Rightarrow> string" where
  "state_string StateNormal = ''normal''"
| "state_string StatePromoting = ''promoting''"
| "state_string StateHot = ''hot''"
| "state_string StateCoolingDown = ''cooling_down''"

record Config =
  hc_Enabled :: bool
  hc_HotQueueName :: string
  hc_HotPairTTL :: int
  hc_LockContentionThreshold :: int

record 'h Manager =
  m_client :: "'h hclient option"
  m_enabled :: bool
  m_hotQueue :: string
  m_pairTTL :: int
  m_threshold :: int

definition NewManager :: "'h hclient option \<Rightarrow> Config \<Rightarrow> 'h Manager" where
  "NewManager client cfg =
     \<lparr>m_client = client,
      m_enabled = (hc_Enabled cfg \<and> client \<noteq> None),
      m_hotQueue = (if hc_HotQueueName cfg = [] then ''hot_transactions'' else hc_HotQueueName cfg),
      m_pairTTL = (if hc_HotPairTTL cfg \<le> 0 then 5 * 60 * 10 ^ 9 else hc_HotPairTTL cfg),
      m_threshold = (if hc_LockContentionThreshold cfg \<le> 0 then 3 else hc_LockContentionThreshold cfg)\<rparr>"

text \<open>A nil manager is \<open>None\<close>.\<close>

definition Enabled :: "'h Manager option \<Rightarrow> bool" where
  "Enabled m = (case m of None \<Rightarrow> False | Some M \<Rightarrow> m_enabled M)"

definition HotQueueName :: "'h Manager option \<Rightarrow> string" where
  "HotQueueName m = (case m of None \<Rightarrow> ''hot_transactions''
     | Some M \<Rightarrow> if m_hotQueue M = [] then ''hot_transactions'' else m_hotQueue M)"

definition to_upper :: "string \<Rightarrow> string" where
  "to_upper = map (\<lambda>c. let k = (of_char c :: nat) in if 97 \<le> k \<and> k \<le> 122 then char_of (k - 32) else c)"

definition PairKey :: "string \<Rightarrow> string \<Rightarrow> string \<Rightarrow> string" where
  "PairKey source destination currency = source @ ''|'' @ destination @ ''|'' @ to_upper currency"

definition stateKey :: "string \<Rightarrow> string" where "stateKey p = ''blnk:hot_pairs:state:'' @ p"
definition activityKey :: "string \<Rightarrow> string" where "activityKey p = ''blnk:hot_pairs:activity:'' @ p"
definition contentionKey :: "string \<Rightarrow> string" where "contentionKey p = ''blnk:hot_pairs:contention:'' @ p"

definition stateTTL :: "'h Manager \<Rightarrow> int" where "stateTTL M = m_pairTTL M * 4"

definition client_of :: "'h Manager \<Rightarrow> 'h hclient" where
  "client_of M = the (m_client M)"

definition parse_state :: "string \<Rightarrow> State" where
  "parse_state s = (if s = ''promoting'' then StatePromoting else if s = ''hot'' then StateHot
     else if s = ''cooling_down'' then StateCoolingDown else StateNormal)"

definition GetState :: "'h Manager \<Rightarrow> string \<Rightarrow> 'h \<Rightarrow> State res" where
  "GetState M p r =
     (if \<not> m_enabled M then Inr StateNormal
      else case HGet (client_of M) (stateKey p) r of
             Inl e \<Rightarrow> Inl e
           | Inr None \<Rightarrow> Inr StateNormal
           | Inr (Some s) \<Rightarrow> Inr (parse_state s))"

definition exec_unit :: "'h \<times> int list res \<Rightarrow> 'h \<times> unit res" where
  "exec_unit x = (case x of (r, Inl e) \<Rightarrow> (r, Inl e) | (r, Inr _) \<Rightarrow> (r, Inr ()))"

definition setState :: "'h Manager \<Rightarrow> string \<Rightarrow> State \<Rightarrow> 'h \<Rightarrow> 'h \<times> unit res" where
  "setState M p st r = exec_unit (HExec (client_of M) [HSet (stateKey p) (state_string st) (stateTTL M)] r)"

text \<open>The count, and whether the pair is now marked for promotion.\<close>

definition RecordContention_m :: "'h Manager \<Rightarrow> string \<Rightarrow> 'h \<Rightarrow> 'h \<times> (int \<times> bool) res" where
  "RecordContention_m M p r =
     (if \<not> m_enabled M then (r, Inr (0, False))
      else case HExec (client_of M) [HIncr (contentionKey p), HExpire (contentionKey p) (m_pairTTL M),
                  HSet (activityKey p) ''1'' (m_pairTTL M)] r of
        (r1, Inl e) \<Rightarrow> (r1, Inl e)
      | (r1, Inr out) \<Rightarrow>
          (let current = (case out of [] \<Rightarrow> 0 | n # _ \<Rightarrow> n)
           in if current < m_threshold M then (r1, Inr (current, False))
              else case GetState M p r1 of
                     Inl e \<Rightarrow> (r1, Inl e)
                   | Inr st \<Rightarrow>
                       if st \<noteq> StateNormal
                       then (fst (HExec (client_of M) [HExpire (stateKey p) (stateTTL M)] r1),
                             Inr (current, st = StatePromoting))
                       else (case setState M p StatePromoting r1 of
                               (r2, Inl e) \<Rightarrow> (r2, Inl e)
                             | (r2, Inr _) \<Rightarrow> (r2, Inr (current, True)))))"

definition HasRecentContention :: "'h Manager \<Rightarrow> string \<Rightarrow> 'h \<Rightarrow> bool res" where
  "HasRecentContention M p r =
     (if \<not> m_enabled M then Inr False
      else case HExists (client_of M) (activityKey p) r of Inl e \<Rightarrow> Inl e | Inr n \<Rightarrow> Inr (0 < n))"

definition ActivateHot :: "'h Manager \<Rightarrow> string \<Rightarrow> 'h \<Rightarrow> 'h \<times> unit res" where
  "ActivateHot M p r =
     (if \<not> m_enabled M then (r, Inr ())
      else exec_unit (HExec (client_of M) [HSet (stateKey p) (state_string StateHot) (stateTTL M),
             HSet (activityKey p) ''1'' (m_pairTTL M)] r))"

definition StartCoolingDown :: "'h Manager \<Rightarrow> string \<Rightarrow> 'h \<Rightarrow> 'h \<times> unit res" where
  "StartCoolingDown M p r = (if \<not> m_enabled M then (r, Inr ()) else setState M p StateCoolingDown r)"

definition SetNormal :: "'h Manager \<Rightarrow> string \<Rightarrow> 'h \<Rightarrow> 'h \<times> unit res" where
  "SetNormal M p r =
     (if \<not> m_enabled M then (r, Inr ())
      else exec_unit (HExec (client_of M) [HDel (stateKey p), HDel (activityKey p), HDel (contentionKey p)] r))"

subsection \<open>The router\<close>

type_synonym counter = "(string \<Rightarrow> string \<Rightarrow> string \<Rightarrow> string \<Rightarrow> int res) option"

definition pendingQueuedTransactionsForPairLane ::
    "counter \<Rightarrow> string \<Rightarrow> string \<Rightarrow> string \<Rightarrow> string \<Rightarrow> int res" where
  "pendingQueuedTransactionsForPairLane c source destination currency lane =
     (case c of None \<Rightarrow> Inr 0 | Some f \<Rightarrow> f source destination currency lane)"

text \<open>Changing the state before answering: an error of the change is the error of the call.\<close>

definition after :: "'h \<times> unit res \<Rightarrow> string \<Rightarrow> 'h \<times> string res" where
  "after x lane = (case x of (r, Inl e) \<Rightarrow> (r, Inl e) | (r, Inr _) \<Rightarrow> (r, Inr lane))"

definition ResolveQueueLane ::
    "'h Manager option \<Rightarrow> counter \<Rightarrow> string \<Rightarrow> string \<Rightarrow> string \<Rightarrow> 'h \<Rightarrow> 'h \<times> string res" where
  "ResolveQueueLane m counter source destination currency r =
     (case m of None \<Rightarrow> (r, Inr LaneNormal)
      | Some M \<Rightarrow>
        if \<not> m_enabled M then (r, Inr LaneNormal)
        else let p = PairKey source destination currency;
                 pending = pendingQueuedTransactionsForPairLane counter source destination currency
             in case GetState M p r of
                  Inl e \<Rightarrow> (r, Inl e)
                | Inr StatePromoting \<Rightarrow>
                    (case pending LaneNormal of Inl e \<Rightarrow> (r, Inl e)
                     | Inr n \<Rightarrow> if n = 0 then after (ActivateHot M p r) LaneHot else (r, Inr LaneNormal))
                | Inr StateHot \<Rightarrow>
                    (case HasRecentContention M p r of Inl e \<Rightarrow> (r, Inl e)
                     | Inr True \<Rightarrow> (r, Inr LaneHot)
                     | Inr False \<Rightarrow>
                         (case pending LaneHot of Inl e \<Rightarrow> (r, Inl e)
                          | Inr n \<Rightarrow> if 0 < n then after (StartCoolingDown M p r) LaneHot
                                     else after (SetNormal M p r) LaneNormal))
                | Inr StateCoolingDown \<Rightarrow>
                    (case pending LaneHot of Inl e \<Rightarrow> (r, Inl e)
                     | Inr n \<Rightarrow> if 0 < n then (r, Inr LaneHot) else after (SetNormal M p r) LaneNormal)
                | Inr StateNormal \<Rightarrow> (r, Inr LaneNormal))"

definition PairKeyForTransaction :: "'h Manager option \<Rightarrow> Transaction \<Rightarrow> string" where
  "PairKeyForTransaction m t =
     (if m = None \<or> t_Source t = [] \<or> t_Destination t = [] \<or> t_Currency t = [] then []
      else PairKey (t_Source t) (t_Destination t) (t_Currency t))"

definition QueueLaneMetaKey :: string where "QueueLaneMetaKey = ''queue_lane''"
definition QueuePairMetaKey :: string where "QueuePairMetaKey = ''queue_pair_key''"

definition meta_put :: "string \<Rightarrow> json \<Rightarrow> metadata \<Rightarrow> metadata" where
  "meta_put k v m = Some ((case m of None \<Rightarrow> Map.empty | Some f \<Rightarrow> f)(k \<mapsto> v))"

definition AssignQueueLane :: "'h Manager option \<Rightarrow> counter \<Rightarrow> Transaction \<Rightarrow> 'h \<Rightarrow> 'h \<times> Transaction" where
  "AssignQueueLane m counter t r =
     (let p = PairKeyForTransaction m t
      in if p = [] then (r, t\<lparr>t_MetaData := meta_put QueueLaneMetaKey (JStr LaneNormal) (t_MetaData t)\<rparr>)
         else case ResolveQueueLane m counter (t_Source t) (t_Destination t) (t_Currency t) r of
                (r', x) \<Rightarrow>
                  (let lane = (case x of Inl _ \<Rightarrow> LaneNormal | Inr l \<Rightarrow> l)
                   in (r', t\<lparr>t_MetaData := meta_put QueueLaneMetaKey (JStr lane)
                               (meta_put QueuePairMetaKey (JStr p) (t_MetaData t))\<rparr>)))"

definition QueueLaneFromMetadata :: "metadata \<Rightarrow> string" where
  "QueueLaneFromMetadata m =
     (case meta_get m QueueLaneMetaKey of Some (JStr l) \<Rightarrow> if l = LaneHot then LaneHot else LaneNormal | _ \<Rightarrow> LaneNormal)"

text \<open>\<open>errors.Is\<close> against the lock sentinels and against the context errors, through \<open>%w\<close>.\<close>

fun is_lock_sentinel :: "error \<Rightarrow> bool" where
  "is_lock_sentinel (ErrLockHeld m) = True"
| "is_lock_sentinel (ErrLockWaitTimeout m) = True"
| "is_lock_sentinel (Wrap p e) = is_lock_sentinel e"
| "is_lock_sentinel e = False"

fun is_ctx_error :: "error \<Rightarrow> bool" where
  "is_ctx_error (Errorf m) \<longleftrightarrow> m = ''context canceled'' \<or> m = ''context deadline exceeded''"
| "is_ctx_error (Wrap p e) = is_ctx_error e"
| "is_ctx_error e = False"

definition IsLockContentionError :: "error option \<Rightarrow> bool" where
  "IsLockContentionError err =
     (case err of None \<Rightarrow> False
      | Some e \<Rightarrow>
          if is_lock_sentinel e then True
          else if is_ctx_error e then False
          else let msg = to_lower (err_msg e)
               in str_contains msg ''already held'' \<or> str_contains msg ''failed to acquire lock'' \<or>
                  str_contains msg ''failed to acquire batch lock'')"

definition RecordContention ::
    "'h Manager option \<Rightarrow> string \<Rightarrow> string \<Rightarrow> string \<Rightarrow> error option \<Rightarrow> 'h \<Rightarrow> 'h" where
  "RecordContention m source destination currency err r =
     (case m of None \<Rightarrow> r
      | Some M \<Rightarrow>
          if \<not> IsLockContentionError err \<or> \<not> m_enabled M \<or> source = [] \<or> destination = [] \<or> currency = [] then r
          else fst (RecordContention_m M (PairKey source destination currency) r))"

section \<open>Facts\<close>

text \<open>What the commands do to the live keys.\<close>

fun run_cmd :: "hcmd \<Rightarrow> (string \<rightharpoonup> string) \<Rightarrow> (string \<rightharpoonup> string)" where
  "run_cmd (HSet k v ttl) m = m(k \<mapsto> v)"
| "run_cmd (HDel k) m = m(k := None)"
| "run_cmd (HIncr k) m = m(k \<mapsto> show_int (1 + (case m k of None \<Rightarrow> 0 | Some v \<Rightarrow> or0 (SetString10 v))))"
| "run_cmd (HExpire k ttl) m = m"

fun ttl_ok :: "hcmd \<Rightarrow> bool" where
  "ttl_ok (HSet k v ttl) \<longleftrightarrow> 0 < ttl"
| "ttl_ok (HExpire k ttl) \<longleftrightarrow> 0 < ttl"
| "ttl_ok c \<longleftrightarrow> True"

text \<open>The state of a pair as its key says; commands that do not write it.\<close>

definition pair_state :: "('h \<Rightarrow> string \<rightharpoonup> string) \<Rightarrow> string \<Rightarrow> 'h \<Rightarrow> State" where
  "pair_state live p r = (case live r (stateKey p) of None \<Rightarrow> StateNormal | Some s \<Rightarrow> parse_state s)"

definition off_state :: "string \<Rightarrow> hcmd \<Rightarrow> bool" where
  "off_state p c \<longleftrightarrow> (case c of HSet k _ _ \<Rightarrow> k \<noteq> stateKey p | HDel k \<Rightarrow> k \<noteq> stateKey p | HIncr k \<Rightarrow> k \<noteq> stateKey p | _ \<Rightarrow> True)"

lemma keys_differ [simp]: "activityKey p \<noteq> stateKey q" "contentionKey p \<noteq> stateKey q"
    "stateKey q \<noteq> activityKey p" "stateKey q \<noteq> contentionKey p"
  by (simp_all add: activityKey_def contentionKey_def stateKey_def)

lemma parse_state_string [simp]: "parse_state (state_string st) = st"
  by (cases st) (simp_all add: parse_state_def)

text \<open>
  One pair over time: the Redis state with the numbers of its transactions waiting in the normal
  and in the hot lane. A transaction is routed while the counter answers truthfully and no call
  fails; contention is recorded, whatever Redis answers; a waiting transaction is done; and keys
  other than the pair's state change or expire.
\<close>

definition truthful :: "nat \<Rightarrow> nat \<Rightarrow> counter" where
  "truthful n h = Some (\<lambda>s d c lane. Inr (if lane = LaneHot then int h else int n))"

inductive hp_step :: "'h Manager \<Rightarrow> ('h \<Rightarrow> string \<rightharpoonup> string) \<Rightarrow> string \<times> string \<times> string
    \<Rightarrow> 'h \<times> nat \<times> nat \<Rightarrow> 'h \<times> nat \<times> nat \<Rightarrow> bool"
  for M live q where
  route: "q = (src, dst, cur) \<Longrightarrow> ResolveQueueLane (Some M) (truthful n h) src dst cur r = (r', Inr lane)
     \<Longrightarrow> hp_step M live q (r, n, h) (if lane = LaneHot then (r', n, Suc h) else (r', Suc n, h))"
| contend: "q = (src, dst, cur) \<Longrightarrow> RecordContention (Some M) src dst cur err r = r'
     \<Longrightarrow> hp_step M live q (r, n, h) (r', n, h)"
| done_normal: "hp_step M live q (r, Suc n, h) (r, n, h)"
| done_hot: "hp_step M live q (r, n, Suc h) (r, n, h)"
| elsewhere: "q = (src, dst, cur) \<Longrightarrow> live r' (stateKey (PairKey src dst cur)) = live r (stateKey (PairKey src dst cur))
     \<Longrightarrow> hp_step M live q (r, n, h) (r', n, h)"

inductive hp_reach :: "'h Manager \<Rightarrow> ('h \<Rightarrow> string \<rightharpoonup> string) \<Rightarrow> string \<times> string \<times> string
    \<Rightarrow> 'h \<times> nat \<times> nat \<Rightarrow> bool"
  for M live q where
  start: "hp_reach M live q (r, 0, 0)"
| step: "hp_reach M live q c \<Longrightarrow> hp_step M live q c c' \<Longrightarrow> hp_reach M live q c'"

definition lanes_ok :: "('h \<Rightarrow> string \<rightharpoonup> string) \<Rightarrow> string \<times> string \<times> string \<Rightarrow> 'h \<times> nat \<times> nat \<Rightarrow> bool" where
  "lanes_ok live q c \<longleftrightarrow> (case (q, c) of ((src, dst, cur), (r, n, h)) \<Rightarrow>
     (if pair_state live (PairKey src dst cur) r \<in> {StateHot, StateCoolingDown} then n = 0 else h = 0))"

text \<open>
  The documented behaviour of the client: reads see the live keys, a pipeline that reports success
  ran all its commands, and one that reports an error ran none of them or all of them (the reply
  was lost).
\<close>

locale hot_redis =
  fixes C :: "'h hclient" and live :: "'h \<Rightarrow> string \<rightharpoonup> string"
  assumes get: "HGet C k r = Inr v \<Longrightarrow> v = live r k"
    and exec: "\<forall>c \<in> set cmds. ttl_ok c \<Longrightarrow> HExec C cmds r = (r', Inr out) \<Longrightarrow> live r' = fold run_cmd cmds (live r)"
    and exec_err: "\<forall>c \<in> set cmds. ttl_ok c \<Longrightarrow> HExec C cmds r = (r', Inl e) \<Longrightarrow>
      live r' = live r \<or> live r' = fold run_cmd cmds (live r)"
begin

lemma GetState_ok: "client_of M = C \<Longrightarrow> m_enabled M \<Longrightarrow> GetState M p r = Inr st \<Longrightarrow> st = pair_state live p r"
  using get [of "stateKey p" r]
  by (cases "HGet C (stateKey p) r") (auto simp: GetState_def pair_state_def split: option.splits)

text \<open>Commands on other keys leave the state of the pair.\<close>

lemma run_off: "\<forall>c \<in> set cmds. off_state p c \<Longrightarrow> fold run_cmd cmds m (stateKey p) = m (stateKey p)"
proof (induction cmds arbitrary: m)
  case (Cons c cmds)
  then have "run_cmd c m (stateKey p) = m (stateKey p)" by (cases c) (auto simp: off_state_def)
  with Cons show ?case by simp
qed simp

lemma exec_off:
  assumes "\<forall>c \<in> set cmds. ttl_ok c \<and> off_state p c" "HExec C cmds r = (r', x)"
  shows "pair_state live p r' = pair_state live p r"
proof -
  have t: "\<forall>c \<in> set cmds. ttl_ok c" and o: "\<forall>c \<in> set cmds. off_state p c" using assms(1) by auto
  have "live r' (stateKey p) = live r (stateKey p)"
  proof (cases x)
    case (Inl e)
    with exec_err [OF t, of r r' e] assms(2) run_off [OF o, of "live r"] show ?thesis by auto
  next
    case (Inr out)
    with exec [OF t, of r r' out] assms(2) run_off [OF o, of "live r"] show ?thesis by simp
  qed
  then show ?thesis by (simp add: pair_state_def)
qed

lemma setState_ok:
  assumes "client_of M = C" "0 < stateTTL M" "setState M p st r = (r', x)"
  shows "pair_state live p r' = st \<or> (\<exists>e. x = Inl e) \<and> pair_state live p r' = pair_state live p r"
  using assms exec [of "[HSet (stateKey p) (state_string st) (stateTTL M)]" r]
    exec_err [of "[HSet (stateKey p) (state_string st) (stateTTL M)]" r]
  by (cases "HExec C [HSet (stateKey p) (state_string st) (stateTTL M)] r")
     (auto simp: setState_def exec_unit_def pair_state_def split: sum.splits)

lemma ActivateHot_ok:
  assumes "client_of M = C" "0 < m_pairTTL M" "m_enabled M" "ActivateHot M p r = (r', Inr ())"
  shows "pair_state live p r' = StateHot"
proof -
  let ?c = "[HSet (stateKey p) (state_string StateHot) (stateTTL M), HSet (activityKey p) ''1'' (m_pairTTL M)]"
  obtain out where "HExec C ?c r = (r', Inr out)"
    using assms by (auto simp: ActivateHot_def exec_unit_def split: prod.splits sum.splits)
  from exec [OF _ this] assms(2) show ?thesis by (simp add: pair_state_def stateTTL_def parse_state_def)
qed

lemma SetNormal_ok:
  assumes "client_of M = C" "m_enabled M" "SetNormal M p r = (r', Inr ())"
  shows "pair_state live p r' = StateNormal"
proof -
  let ?c = "[HDel (stateKey p), HDel (activityKey p), HDel (contentionKey p)]"
  obtain out where "HExec C ?c r = (r', Inr out)"
    using assms by (auto simp: SetNormal_def exec_unit_def split: prod.splits sum.splits)
  from exec [OF _ this] show ?thesis by (simp add: pair_state_def)
qed

text \<open>Contention marks a normal pair for promotion and moves no other state.\<close>

lemma contention_state:
  assumes M: "client_of M = C" "m_enabled M" "0 < m_pairTTL M" and R: "RecordContention_m M p r = (r', x)"
  shows "pair_state live p r' = pair_state live p r \<or> pair_state live p r = StateNormal \<and> pair_state live p r' = StatePromoting"
proof -
  let ?c = "[HIncr (contentionKey p), HExpire (contentionKey p) (m_pairTTL M), HSet (activityKey p) ''1'' (m_pairTTL M)]"
  have ttl: "0 < stateTTL M" using M(3) by (simp add: stateTTL_def)
  obtain r1 y where X: "HExec C ?c r = (r1, y)" by force
  have 1: "pair_state live p r1 = pair_state live p r" by (rule exec_off [OF _ X]) (use M in \<open>simp add: off_state_def\<close>)
  obtain r2 z where E: "HExec C [HExpire (stateKey p) (stateTTL M)] r1 = (r2, z)" by force
  have 2: "pair_state live p r2 = pair_state live p r1" by (rule exec_off [OF _ E]) (use ttl in \<open>simp add: off_state_def\<close>)
  obtain r3 u where S: "setState M p StatePromoting r1 = (r3, u)" by force
  note 3 = setState_ok [OF M(1) ttl S]
  show ?thesis
  proof (cases "GetState M p r1")
    case (Inl e)
    with R X M 1 show ?thesis by (auto simp: RecordContention_m_def Let_def split: sum.splits if_splits)
  next
    case (Inr st)
    from GetState_ok [OF M(1,2) Inr] 1 have "st = pair_state live p r" by simp
    with R X E S M Inr 1 2 3 show ?thesis
      by (auto simp: RecordContention_m_def Let_def split: sum.splits if_splits)
  qed
qed

text \<open>The router moves a pair to another lane only when the lane it leaves is empty.\<close>

lemma route_keeps:
  assumes M: "client_of M = C" "m_enabled M" "0 < m_pairTTL M"
    and ok: "lanes_ok live (src, dst, cur) (r, n, h)"
    and R: "ResolveQueueLane (Some M) (truthful n h) src dst cur r = (r', Inr lane)"
  shows "lanes_ok live (src, dst, cur) (if lane = LaneHot then (r', n, Suc h) else (r', Suc n, h))"
proof -
  let ?p = "PairKey src dst cur"
  have ttl: "0 < stateTTL M" using M(3) by (simp add: stateTTL_def)
  have lanes: "LaneNormal \<noteq> LaneHot" by (simp add: LaneNormal_def LaneHot_def)
  obtain st where G: "GetState M ?p r = Inr st" using R M(2) by (auto simp: ResolveQueueLane_def Let_def split: sum.splits)
  have st: "st = pair_state live ?p r" by (rule GetState_ok [OF M(1,2) G])
  have cool: "pair_state live ?p r' = StateCoolingDown" if "StartCoolingDown M ?p r = (r', Inr ())"
    using that setState_ok [OF M(1) ttl, of ?p StateCoolingDown r r' "Inr ()"] M(2) by (simp add: StartCoolingDown_def)
  note hot = ActivateHot_ok [OF M(1,3,2), of ?p r r'] and norm = SetNormal_ok [OF M(1,2), of ?p r r']
  show ?thesis
  proof (cases st)
    case StateNormal
    with R M(2) G ok st lanes show ?thesis by (auto simp: ResolveQueueLane_def Let_def lanes_ok_def)
  next
    case StatePromoting
    with R M(2) G ok st lanes hot show ?thesis
      by (auto simp: ResolveQueueLane_def Let_def lanes_ok_def truthful_def after_def
          pendingQueuedTransactionsForPairLane_def split: if_splits prod.splits sum.splits)
  next
    case StateHot
    with R M(2) G ok st lanes norm cool show ?thesis
      by (auto simp: ResolveQueueLane_def Let_def lanes_ok_def truthful_def after_def
          pendingQueuedTransactionsForPairLane_def split: if_splits prod.splits sum.splits bool.splits)
  next
    case StateCoolingDown
    with R M(2) G ok st lanes norm show ?thesis
      by (auto simp: ResolveQueueLane_def Let_def lanes_ok_def truthful_def after_def
          pendingQueuedTransactionsForPairLane_def split: if_splits prod.splits sum.splits)
  qed
qed

lemma step_keeps:
  assumes M: "client_of M = C" "m_enabled M" "0 < m_pairTTL M" and ok: "lanes_ok live q c" and S: "hp_step M live q c c'"
  shows "lanes_ok live q c'"
  using S
proof cases
  case (route src dst cur n h r r' lane)
  with route_keeps [OF M, of src dst cur r n h r' lane] ok show ?thesis by simp
next
  case (contend src dst cur err r r' n h)
  show ?thesis
  proof (cases "r' = r")
    case False
    with contend have "\<exists>x. RecordContention_m M (PairKey src dst cur) r = (r', x)"
      by (auto simp: RecordContention_def prod_eq_iff split: if_splits)
    with contention_state [OF M, of "PairKey src dst cur" r r'] contend ok show ?thesis by (auto simp: lanes_ok_def)
  qed (use contend ok in simp)
next
  case (elsewhere src dst cur r' r n h)
  then have "pair_state live (PairKey src dst cur) r' = pair_state live (PairKey src dst cur) r" by (simp add: pair_state_def)
  with elsewhere ok show ?thesis by (simp add: lanes_ok_def)
qed (use ok in \<open>auto simp: lanes_ok_def split: if_splits prod.splits\<close>)

lemma reach_ok:
  assumes "client_of M = C" "m_enabled M" "0 < m_pairTTL M" "hp_reach M live q c"
  shows "lanes_ok live q c"
  using assms(4)
proof (induction rule: hp_reach.induct)
  case (start r)
  show ?case by (cases q) (simp add: lanes_ok_def)
next
  case (step c c')
  then show ?case using step_keeps [OF assms(1-3)] by blast
qed

end

subsection \<open>A key-value store with expiry\<close>

record hmem =
  hm_now :: int
  hm_map :: "string \<rightharpoonup> string \<times> int option"

definition hm_live :: "hmem \<Rightarrow> string \<rightharpoonup> string" where
  "hm_live r k = (case hm_map r k of
     Some (v, till) \<Rightarrow> (case till of None \<Rightarrow> Some v | Some x \<Rightarrow> if hm_now r < x then Some v else None) | None \<Rightarrow> None)"

fun hm_cmd :: "hcmd \<Rightarrow> hmem \<Rightarrow> hmem" where
  "hm_cmd (HSet k v ttl) r = r\<lparr>hm_map := (hm_map r)(k \<mapsto> (v, Some (hm_now r + ttl)))\<rparr>"
| "hm_cmd (HDel k) r = r\<lparr>hm_map := (hm_map r)(k := None)\<rparr>"
| "hm_cmd (HIncr k) r = r\<lparr>hm_map := (hm_map r)(k \<mapsto>
     (show_int (1 + (case hm_live r k of None \<Rightarrow> 0 | Some v \<Rightarrow> or0 (SetString10 v))),
      if hm_live r k = None then None else snd (the (hm_map r k))))\<rparr>"
| "hm_cmd (HExpire k ttl) r = (case hm_live r k of None \<Rightarrow> r
     | Some v \<Rightarrow> r\<lparr>hm_map := (hm_map r)(k \<mapsto> (v, Some (hm_now r + ttl)))\<rparr>)"

definition hm_reply :: "hcmd \<Rightarrow> hmem \<Rightarrow> int" where
  "hm_reply c r = (case c of HIncr k \<Rightarrow> or0 (SetString10 (the (hm_live (hm_cmd c r) k))) | _ \<Rightarrow> 1)"

fun hm_exec :: "hcmd list \<Rightarrow> hmem \<Rightarrow> hmem \<times> int list" where
  "hm_exec [] r = (r, [])"
| "hm_exec (c # cs) r = (let r1 = hm_cmd c r; (r2, out) = hm_exec cs r1 in (r2, hm_reply c r # out))"

definition hm_client :: "hmem hclient" where
  "hm_client = \<lparr>HGet = \<lambda>k r. Inr (hm_live r k), HExists = \<lambda>k r. Inr (if hm_live r k = None then 0 else 1),
     HExec = \<lambda>cs r. (case hm_exec cs r of (r', out) \<Rightarrow> (r', Inr out))\<rparr>"

lemma hm_cmd_live: "ttl_ok c \<Longrightarrow> hm_live (hm_cmd c r) = run_cmd c (hm_live r)"
  by (cases c) (auto simp: fun_eq_iff hm_live_def split: option.splits prod.splits if_splits)

lemma hm_exec_live: "\<forall>c \<in> set cs. ttl_ok c \<Longrightarrow> hm_live (fst (hm_exec cs r)) = fold run_cmd cs (hm_live r)"
proof (induction cs arbitrary: r)
  case (Cons c cs)
  obtain r2 out where e: "hm_exec cs (hm_cmd c r) = (r2, out)" by force
  from Cons.IH [of "hm_cmd c r"] Cons.prems e show ?case by (simp add: hm_cmd_live)
qed simp

interpretation hm: hot_redis hm_client hm_live
proof (unfold_locales, goal_cases)
  case (1 k r v)
  then show ?case by (simp add: hm_client_def)
next
  case (2 cmds r r' out)
  then show ?case using hm_exec_live [of cmds r] by (simp add: hm_client_def split: prod.splits)
next
  case (3 cmds r r' e)
  then show ?case by (simp add: hm_client_def split: prod.splits)
qed

section \<open>Properties\<close>

text \<open>
  C40: A balance pair never has transactions waiting in both lanes. Starting with empty lanes, while
  the manager is enabled, the counter is truthful, no routing call fails and the pair's state key
  does not expire under it, a pair is promoted only when its normal lane has drained and demoted
  only when its hot lane has drained, so its transactions are never spread over both queues.
\<close>

theorem hot_pair_one_lane:
  assumes "hot_redis (client_of M) live" "m_enabled M" "0 < m_pairTTL M"
    and "hp_reach M live (src, dst, cur) (r, n, h)"
  shows "n = 0 \<or> h = 0"
  using hot_redis.reach_ok [OF assms(1) refl assms(2-4)] by (auto simp: lanes_ok_def split: if_splits)

definition ex_manager :: "hmem Manager" where
  "ex_manager = NewManager (Some hm_client) \<lparr>hc_Enabled = True, hc_HotQueueName = [], hc_HotPairTTL = 0, hc_LockContentionThreshold = 1\<rparr>"

theorem hot_pair_one_lane_witness:
  "\<exists>r. hp_reach ex_manager hm_live (''a'', ''b'', ''usd'') (r, 0, 1) \<and> ((0 :: nat) = 0 \<or> (1 :: nat) = 0)"
proof -
  let ?q = "(''a'', ''b'', ''usd'')" and ?r0 = "\<lparr>hm_now = 0, hm_map = Map.empty\<rparr>"
  let ?r1 = "RecordContention (Some ex_manager) ''a'' ''b'' ''usd'' (Some (ErrLockHeld [])) ?r0"
  let ?res = "ResolveQueueLane (Some ex_manager) (truthful 0 0) ''a'' ''b'' ''usd'' ?r1"
  have "hp_reach ex_manager hm_live ?q (?r1, 0, 0)"
    by (rule hp_reach.step [OF hp_reach.start hp_step.contend]) (rule refl)+
  moreover have "snd ?res = Inr LaneHot" by code_simp
  then obtain r where "?res = (r, Inr LaneHot)" by (metis prod.collapse)
  then have "hp_step ex_manager hm_live ?q (?r1, 0, 0) (r, 0, 1)"
    using hp_step.route [where M = ex_manager and live = hm_live and q = ?q, OF refl] by fastforce
  ultimately have reach: "hp_reach ex_manager hm_live ?q (r, 0, 1)" by (rule hp_reach.step)
  have "hot_redis (client_of ex_manager) hm_live" "m_enabled ex_manager" "0 < m_pairTTL ex_manager"
    using hm.hot_redis_axioms by (simp_all add: ex_manager_def NewManager_def client_of_def)
  from hot_pair_one_lane [OF this reach] reach show ?thesis by blast
qed

end
