(* ===== verification/Queue.thy ===== *)
theory Queue
  imports HotPairs Distributions "HOL-Library.Word"
begin

text \<open>
  The task queue (\<open>queue.go\<close>). The asynq client and inspector are the parameter \<open>Q\<close>; what the
  package relies on is the locale \<open>asynq_laws\<close>. Payloads are the values that are marshalled: every
  modelled field of a transaction survives the JSON round trip.
\<close>

unbundle bit_operations_syntax

record InflightActionPayload =
  ip_TransactionID :: string
  ip_Action :: string
  ip_PreciseAmount :: string
  ip_ActionID :: string

datatype payload = PTransaction Transaction | PAction InflightActionPayload | PString string

record task =
  tk_type :: string
  tk_id :: string
  tk_queue :: string
  tk_payload :: payload
  tk_processIn :: "int option"
  tk_maxRetry :: "int option"

datatype enqueued = EnqOk | EnqConflict | EnqErr error

record 'q asynq =
  QEnqueue :: "task \<Rightarrow> 'q \<Rightarrow> 'q \<times> enqueued"
  QTaskInfo :: "string \<Rightarrow> string \<Rightarrow> 'q \<Rightarrow> payload option"

record QueueConfig =
  qc_TransactionQueue :: string
  qc_InflightCommitQueue :: string
  qc_InflightExpiryQueue :: string
  qc_HotQueueName :: string
  qc_EnableHotLane :: bool
  qc_NumberOfQueues :: int
  qc_MaxRetryAttempts :: int

definition InflightActionCommit :: string where "InflightActionCommit = ''commit''"
definition InflightActionVoid :: string where "InflightActionVoid = ''void''"

definition ErrInflightActionQueued :: error where
  "ErrInflightActionQueued = Errorf ''a commit or void is already queued for this transaction''"

definition ErrTaskIDConflict :: error where
  "ErrTaskIDConflict = Errorf ''task ID conflicts with another task''"

definition EnqueueInflightAction ::
    "'q asynq \<Rightarrow> QueueConfig \<Rightarrow> InflightActionPayload \<Rightarrow> 'q \<Rightarrow> 'q \<times> unit res" where
  "EnqueueInflightAction Q cfg p q =
     (let task = \<lparr>tk_type = qc_InflightCommitQueue cfg, tk_id = ''inflight-action:'' @ ip_TransactionID p,
                  tk_queue = qc_InflightCommitQueue cfg, tk_payload = PAction p, tk_processIn = None,
                  tk_maxRetry = Some (qc_MaxRetryAttempts cfg)\<rparr>
      in case QEnqueue Q task q of
           (q', EnqOk) \<Rightarrow> (q', Inr ())
         | (q', EnqConflict) \<Rightarrow> (q', Inl ErrInflightActionQueued)
         | (q', EnqErr e) \<Rightarrow> (q', Inl e))"

text \<open>Any other enqueue hands the client's error to its caller.\<close>

definition enqueue_task :: "'q asynq \<Rightarrow> task \<Rightarrow> 'q \<Rightarrow> 'q \<times> unit res" where
  "enqueue_task Q task q =
     (case QEnqueue Q task q of
        (q', EnqOk) \<Rightarrow> (q', Inr ())
      | (q', EnqConflict) \<Rightarrow> (q', Inl ErrTaskIDConflict)
      | (q', EnqErr e) \<Rightarrow> (q', Inl e))"

definition queueInflightExpiry :: "'q asynq \<Rightarrow> QueueConfig \<Rightarrow> int \<Rightarrow> string \<Rightarrow> int \<Rightarrow> 'q \<Rightarrow> 'q \<times> unit res" where
  "queueInflightExpiry Q cfg now tid expiresAt =
     enqueue_task Q \<lparr>tk_type = qc_InflightExpiryQueue cfg, tk_id = tid, tk_queue = qc_InflightExpiryQueue cfg,
       tk_payload = PString tid, tk_processIn = Some (expiresAt - now), tk_maxRetry = None\<rparr>"

definition QueueInflightExpiry :: "'q asynq \<Rightarrow> QueueConfig \<Rightarrow> int \<Rightarrow> Transaction \<Rightarrow> 'q \<Rightarrow> 'q \<times> unit res" where
  "QueueInflightExpiry Q cfg now t q =
     (if t_InflightExpiryDate t \<noteq> 0 then queueInflightExpiry Q cfg now (t_TransactionID t) (t_InflightExpiryDate t) q
      else (q, Inr ()))"

definition queueInflightCommit ::
    "'q asynq \<Rightarrow> QueueConfig \<Rightarrow> int \<Rightarrow> string \<Rightarrow> string \<Rightarrow> int \<Rightarrow> 'q \<Rightarrow> 'q \<times> unit res" where
  "queueInflightCommit Q cfg now actionID tid commitAt =
     enqueue_task Q \<lparr>tk_type = qc_InflightCommitQueue cfg, tk_id = tid, tk_queue = qc_InflightCommitQueue cfg,
       tk_payload = PAction \<lparr>ip_TransactionID = tid, ip_Action = InflightActionCommit, ip_PreciseAmount = ''0'', ip_ActionID = actionID\<rparr>,
       tk_processIn = Some (commitAt - now), tk_maxRetry = None\<rparr>"

definition QueueInflightCommit ::
    "'q asynq \<Rightarrow> QueueConfig \<Rightarrow> int \<Rightarrow> string \<Rightarrow> Transaction \<Rightarrow> 'q \<Rightarrow> 'q \<times> unit res" where
  "QueueInflightCommit Q cfg now actionID t q =
     (if t_InflightCommitDate t \<noteq> 0
      then queueInflightCommit Q cfg now actionID (t_TransactionID t) (t_InflightCommitDate t) q else (q, Inr ()))"

text \<open>\<open>hashBalanceID\<close>: FNV-1a on 32 bits (\<open>hash/fnv.New32a\<close>).\<close>

definition fnv1a_step :: "32 word \<Rightarrow> char \<Rightarrow> 32 word" where
  "fnv1a_step h c = (h XOR of_nat (of_char c)) * 16777619"

definition hashBalanceID :: "string \<Rightarrow> int" where
  "hashBalanceID s = uint (foldl fnv1a_step 2166136261 s)"

definition numbered_queue :: "QueueConfig \<Rightarrow> nat \<Rightarrow> string" where
  "numbered_queue cfg i = qc_TransactionQueue cfg @ ''_'' @ show_nat i"

text \<open>A count of queues that is zero divides by zero: the panic is \<open>None\<close>.\<close>

definition transactionQueueName :: "QueueConfig \<Rightarrow> Transaction \<Rightarrow> string option" where
  "transactionQueueName cfg t =
     (if qc_EnableHotLane cfg \<and> t_MetaData t \<noteq> None \<and> QueueLaneFromMetadata (t_MetaData t) = LaneHot
      then Some (qc_HotQueueName cfg)
      else if qc_NumberOfQueues cfg = 0 then None
      else Some (numbered_queue cfg (nat (hashBalanceID (t_Source t) mod \<bar>qc_NumberOfQueues cfg\<bar> + 1))))"

definition geTask :: "QueueConfig \<Rightarrow> int \<Rightarrow> Transaction \<Rightarrow> task option" where
  "geTask cfg now t =
     (case transactionQueueName cfg t of None \<Rightarrow> None
      | Some qn \<Rightarrow> Some \<lparr>tk_type = qn, tk_id = t_TransactionID t, tk_queue = qn, tk_payload = PTransaction t,
          tk_processIn = (if t_ScheduledFor t \<noteq> 0 then Some (t_ScheduledFor t - now) else None), tk_maxRetry = None\<rparr>)"

definition Enqueue :: "'q asynq \<Rightarrow> QueueConfig \<Rightarrow> int \<Rightarrow> Transaction \<Rightarrow> 'q \<Rightarrow> 'q \<times> unit res" where
  "Enqueue Q cfg now t q =
     (case geTask cfg now t of
        None \<Rightarrow> (q, Inl NilPanic)
      | Some task \<Rightarrow> enqueue_task Q (task\<lparr>tk_maxRetry := Some (qc_MaxRetryAttempts cfg)\<rparr>) q)"

text \<open>A task whose payload is no transaction does not unmarshal into one.\<close>

definition unmarshal_transaction :: "payload \<Rightarrow> Transaction res" where
  "unmarshal_transaction p = (case p of PTransaction t \<Rightarrow> Inr t
     | _ \<Rightarrow> Inl (Errorf ''json: cannot unmarshal value into Go value of type model.Transaction''))"

fun find_task :: "'q asynq \<Rightarrow> string list \<Rightarrow> string \<Rightarrow> 'q \<Rightarrow> payload option" where
  "find_task Q [] tid q = None"
| "find_task Q (qn # qs) tid q = (case QTaskInfo Q qn tid q of Some p \<Rightarrow> Some p | None \<Rightarrow> find_task Q qs tid q)"

definition GetTransactionFromQueue :: "'q asynq \<Rightarrow> QueueConfig \<Rightarrow> string \<Rightarrow> 'q \<Rightarrow> Transaction option res" where
  "GetTransactionFromQueue Q cfg tid q =
     (let queues = map (numbered_queue cfg) [1..<nat (qc_NumberOfQueues cfg) + 1]
            @ (if qc_EnableHotLane cfg then [qc_HotQueueName cfg] else [])
      in case find_task Q queues tid q of
           None \<Rightarrow> Inr None
         | Some p \<Rightarrow> (case unmarshal_transaction p of Inl e \<Rightarrow> Inl e | Inr t \<Rightarrow> Inr (Some t)))"

section \<open>Facts\<close>

text \<open>
  Task ids are unique within a queue: an enqueue is refused exactly when the queue holds the id,
  and a successful one adds that task and nothing else.
\<close>

locale asynq_laws =
  fixes Q :: "'q asynq"
  assumes ok: "QEnqueue Q t q = (q', EnqOk) \<Longrightarrow> QTaskInfo Q (tk_queue t) (tk_id t) q = None \<and>
      (\<forall>qn tid. QTaskInfo Q qn tid q' = (if qn = tk_queue t \<and> tid = tk_id t then Some (tk_payload t) else QTaskInfo Q qn tid q))"
    and refused: "QEnqueue Q t q = (q', EnqConflict) \<Longrightarrow> QTaskInfo Q (tk_queue t) (tk_id t) q \<noteq> None \<and> q' = q"
begin

lemma enqueue_task_ok:
  "enqueue_task Q t q = (q', Inr u) \<Longrightarrow>
   QTaskInfo Q qn tid q' = (if qn = tk_queue t \<and> tid = tk_id t then Some (tk_payload t) else QTaskInfo Q qn tid q)"
  using ok [of t q q'] by (auto simp: enqueue_task_def split: prod.splits enqueued.splits)

lemma find_task_enqueued:
  assumes "enqueue_task Q t q = (q', Inr u)" "\<forall>qn \<in> set qs. QTaskInfo Q qn (tk_id t) q = None"
  shows "find_task Q qs (tk_id t) q' = (if tk_queue t \<in> set qs then Some (tk_payload t) else None)"
  using assms(2) by (induction qs) (auto simp: enqueue_task_ok [OF assms(1)])

end

text \<open>A queue held as a list of tasks.\<close>

definition list_queue :: "task list asynq" where
  "list_queue = \<lparr>QEnqueue = \<lambda>t q. if \<exists>x \<in> set q. tk_queue x = tk_queue t \<and> tk_id x = tk_id t then (q, EnqConflict) else (q @ [t], EnqOk),
     QTaskInfo = \<lambda>qn tid q. map_option tk_payload (find (\<lambda>x. tk_queue x = qn \<and> tk_id x = tid) q)\<rparr>"

lemma find_snoc: "find P (xs @ [x]) = (case find P xs of None \<Rightarrow> if P x then Some x else None | Some y \<Rightarrow> Some y)"
  by (induction xs) auto

interpretation lq: asynq_laws list_queue
proof (unfold_locales, goal_cases)
  case (1 t q q')
  then have "find (\<lambda>x. tk_queue x = tk_queue t \<and> tk_id x = tk_id t) q = None" "q' = q @ [t]"
    by (auto simp: list_queue_def find_None_iff split: if_splits)
  then show ?case by (auto simp: list_queue_def find_snoc split: option.splits)
next
  case (2 t q q')
  then show ?case by (auto simp: list_queue_def find_None_iff split: if_splits)
qed

lemma hash_nonneg: "0 \<le> hashBalanceID s"
  by (simp add: hashBalanceID_def)

section \<open>Properties\<close>

text \<open>
  An enqueued transaction is found again, and only one queue ever serves a source. With a
  positive number of queues every transaction has a queue: a hot one goes to the hot queue, any
  other to one of the numbered queues, chosen by the FNV-1a hash of its source alone, so two
  normal transactions of one source share a queue. When \<open>Enqueue\<close> succeeds for an id no queue
  held, \<open>GetTransactionFromQueue\<close> returns exactly the enqueued transaction.
\<close>

lemma enqueue_lookup_roundtrip:
  assumes "asynq_laws Q" "0 < qc_NumberOfQueues cfg"
    and fresh: "\<forall>qn. QTaskInfo Q qn (t_TransactionID t) q = None"
    and enq: "Enqueue Q cfg now t q = (q', Inr ())"
    and normal: "QueueLaneFromMetadata (t_MetaData t) = LaneNormal" "QueueLaneFromMetadata (t_MetaData u) = LaneNormal"
      "t_Source u = t_Source t"
  shows "GetTransactionFromQueue Q cfg (t_TransactionID t) q' = Inr (Some t) \<and>
    (\<exists>i \<in> {1..nat (qc_NumberOfQueues cfg)}. transactionQueueName cfg t = Some (numbered_queue cfg i) \<and>
       transactionQueueName cfg u = Some (numbered_queue cfg i))"
proof -
  let ?n = "qc_NumberOfQueues cfg"
  let ?i = "nat (hashBalanceID (t_Source t) mod \<bar>?n\<bar> + 1)"
  let ?qs = "map (numbered_queue cfg) [1..<nat ?n + 1] @ (if qc_EnableHotLane cfg then [qc_HotQueueName cfg] else [])"
  have lanes: "LaneNormal \<noteq> LaneHot" by (simp add: LaneNormal_def LaneHot_def)
  have name: "transactionQueueName cfg t = Some (numbered_queue cfg ?i)"
    and name': "transactionQueueName cfg u = Some (numbered_queue cfg ?i)"
    using assms(2) normal lanes by (simp_all add: transactionQueueName_def)
  have "0 \<le> hashBalanceID (t_Source t) mod \<bar>?n\<bar>" "hashBalanceID (t_Source t) mod \<bar>?n\<bar> < ?n"
    using assms(2) pos_mod_bound [of ?n] pos_mod_sign [of ?n] by simp_all
  then have i: "?i \<in> {1..nat ?n}" by simp linarith
  obtain task where task: "geTask cfg now t = Some task" "tk_queue task = numbered_queue cfg ?i"
    "tk_id task = t_TransactionID t" "tk_payload task = PTransaction t" using name by (auto simp: geTask_def)
  let ?task = "task\<lparr>tk_maxRetry := Some (qc_MaxRetryAttempts cfg)\<rparr>"
  have e: "enqueue_task Q ?task q = (q', Inr ())" using enq task by (simp add: Enqueue_def)
  have "k \<in> {1..nat ?n} \<Longrightarrow> k \<in> set [1..<nat ?n + 1]" for k by auto
  from this [OF i] have "?i \<in> set [1..<nat ?n + 1]" .
  then have "numbered_queue cfg ?i \<in> set ?qs" by (simp only: set_append set_map) blast
  with asynq_laws.find_task_enqueued [OF assms(1) e, of ?qs] fresh task
  have "find_task Q ?qs (t_TransactionID t) q' = Some (PTransaction t)" by simp
  then have "GetTransactionFromQueue Q cfg (t_TransactionID t) q' = Inr (Some t)"
    unfolding GetTransactionFromQueue_def Let_def by (simp only: option.case unmarshal_transaction_def payload.case sum.case)
  with name name' i show ?thesis by blast
qed

definition ex_queue_cfg :: QueueConfig where
  "ex_queue_cfg = \<lparr>qc_TransactionQueue = ''new:transaction'', qc_InflightCommitQueue = ''new:inflight-commit'',
     qc_InflightExpiryQueue = ''new:inflight-expiry'', qc_HotQueueName = ''hot'', qc_EnableHotLane = False,
     qc_NumberOfQueues = 20, qc_MaxRetryAttempts = 5\<rparr>"

end
