(* ===== verification/Inflight.thy ===== *)
theory Inflight
  imports Queue
begin

text \<open>
  Committing and voiding inflight transactions (\<open>transaction_inflight.go\<close>), with the shadow
  transactions of \<open>lineage_shadow.go\<close> that follow their parent. An operation returns \<open>None\<close> while it
  waits for a lock, or when shadows of shadows nest deeper than its fuel \<open>n\<close>: one unit is enough
  for an inflight transaction without shadows, two when its shadows have none. The UUID generator is
  asked with a label that names the purpose and the number of transaction rows, so that successive
  calls receive different ids. A value that Go returns beside a non-nil error is dropped, and
  \<open>float64\<close> division is exact (a stored precision is never zero).
\<close>

record ('d, 'r, 'q) sys =
  y_env :: "('d, 'r) env"
  y_Q :: "'q asynq"
  y_cfg :: QueueConfig
  y_BatchSize :: int
  y_H :: "string \<Rightarrow> string"

abbreviation y_F :: "('d, 'r, 'q) sys \<Rightarrow> faults" where "y_F Y \<equiv> e_F (y_env Y)"
abbreviation y_now :: "('d, 'r, 'q) sys \<Rightarrow> int" where "y_now Y \<equiv> e_now (y_env Y)"

definition fresh_uuid :: "('d, 'r, 'q) sys \<Rightarrow> string \<Rightarrow> store \<Rightarrow> string" where
  "fresh_uuid Y suffix s = e_uuid (y_env Y) (suffix @ '':'' @ show_nat (length (st_transactions s)))"

subsection \<open>Queries\<close>

text \<open>
  The text \<open>meta_data->>k\<close> yields: a string as it is, anything else as \<open>jsonb\<close> prints it (quotes and
  backslashes are escaped; control characters do not occur in the metadata).
\<close>

definition json_string :: "string \<Rightarrow> string" where
  "json_string s = CHR 0x22 # concat (map (\<lambda>c. if c = CHR 0x22 \<or> c = CHR 0x5C then [CHR 0x5C, c] else [c]) s) @ [CHR 0x22]"

fun json_literal :: "json \<Rightarrow> string" where
  "json_literal JNull = ''null''"
| "json_literal (JBool b) = (if b then ''true'' else ''false'')"
| "json_literal (JNum x) = FormatFloat x"
| "json_literal (JStr s) = json_string s"
| "json_literal (JInt n) = show_int n"
| "json_literal (JList xs) = ''['' @ str_join '', '' (map json_literal xs) @ '']''"
| "json_literal (JObj kvs) = ''{'' @ str_join '', '' (map (\<lambda>(k, v). json_string k @ '': '' @ json_literal v) kvs) @ ''}''"

definition json_text :: "json \<Rightarrow> string" where
  "json_text j = (case j of JStr s \<Rightarrow> s | _ \<Rightarrow> json_literal j)"

lemma json_text_simps [simp]: "json_text (JStr s) = s" "json_text (JBool b) = (if b then ''true'' else ''false'')"
  by (simp_all add: json_text_def)

definition meta_text :: "metadata \<Rightarrow> string \<Rightarrow> string option" where
  "meta_text m k = (case meta_get m k of None \<Rightarrow> None | Some JNull \<Rightarrow> None | Some v \<Rightarrow> Some (json_text v))"

definition inflight_rows :: "string \<Rightarrow> store \<Rightarrow> Transaction list" where
  "inflight_rows pid s = filter (\<lambda>t. (t_TransactionID t = pid \<or> t_ParentTransaction t = pid \<or>
     meta_text (t_MetaData t) ''QUEUED_PARENT_TRANSACTION'' = Some pid) \<and> t_Status t = StatusInflight) (st_transactions s)"

definition queued_inflight_rows :: "string \<Rightarrow> store \<Rightarrow> Transaction list" where
  "queued_inflight_rows pid s = filter (\<lambda>t. (t_TransactionID t = pid \<or> t_ParentTransaction t = pid) \<and>
     t_Status t = StatusQueued \<and> meta_text (t_MetaData t) ''inflight'' = Some ''true'' \<and>
     \<not> (\<exists>r \<in> set (st_transactions s). t_Reference r = t_Reference t @ ''_q'' \<and> t_Status r = StatusRejected) \<and>
     \<not> (\<exists>c \<in> set (st_transactions s). t_ParentTransaction c = t_TransactionID t \<and> t_Status c = StatusInflight))
     (st_transactions s)"

text \<open>All the rows the query ranges over, newest first (rows of equal age keep one order).\<close>

definition legs_of :: "string \<Rightarrow> store \<Rightarrow> Transaction list" where
  "legs_of pid s = map (\<lambda>t. t\<lparr>t_EffectiveDate := None\<rparr>) (sort_key (\<lambda>t. - t_CreatedAt t)
     (if inflight_rows pid s \<noteq> [] then inflight_rows pid s else queued_inflight_rows pid s))"

definition GetInflightTransactionsByParentID :: "faults \<Rightarrow> string \<Rightarrow> nat \<Rightarrow> nat \<Rightarrow> store \<Rightarrow> Transaction list res" where
  "GetInflightTransactionsByParentID F pid batchSize offset s =
     (if F (''GetInflightTransactionsByParentID:'' @ show_nat offset)
      then Inl (internal ''Failed to retrieve inflight transactions'')
      else Inr (take batchSize (drop offset (legs_of pid s))))"

definition GetTransactionsByShadowFor :: "faults \<Rightarrow> string \<Rightarrow> store \<Rightarrow> Transaction list res" where
  "GetTransactionsByShadowFor F pid s =
     (if F ''GetTransactionsByShadowFor'' then Inl (internal ''Failed to retrieve shadow transactions'')
      else Inr (sort_key t_CreatedAt
             (filter (\<lambda>t. meta_text (t_MetaData t) ''_shadow_for'' = Some pid) (st_transactions s))))"

subsection \<open>Validation\<close>

definition IsInflightTransaction :: "Transaction \<Rightarrow> bool" where
  "IsInflightTransaction t \<longleftrightarrow> t_Status t = StatusInflight \<or>
     t_Status t = StatusQueued \<and> t_MetaData t \<noteq> None \<and> meta_get (t_MetaData t) ''inflight'' = Some (JBool True)"

definition validate_inflight :: "('d, 'r, 'q) sys \<Rightarrow> string \<Rightarrow> Transaction \<Rightarrow> store \<Rightarrow> Transaction res" where
  "validate_inflight Y tid t s =
     (if \<not> IsInflightTransaction t then Inl (Errorf ''transaction is not in inflight status'')
      else case IsParentTransactionVoid (y_F Y) tid s of
             Inl e \<Rightarrow> Inl (logAndRecordError ''error checking parent transaction status'' e)
           | Inr voided \<Rightarrow> if voided then Inl (Errorf ''transaction has already been voided'') else Inr t)"

definition fetchAndValidateInflightTransaction :: "('d, 'r, 'q) sys \<Rightarrow> 'q \<Rightarrow> string \<Rightarrow> store \<Rightarrow> Transaction res" where
  "fetchAndValidateInflightTransaction Y q tid s =
     (case GetTransaction (y_F Y) tid s of
        Inr t \<Rightarrow> validate_inflight Y tid t s
      | Inl SqlErrNoRows \<Rightarrow>
          (case GetTransactionFromQueue (y_Q Y) (y_cfg Y) tid q of
             Inl e \<Rightarrow> Inl e
           | Inr None \<Rightarrow> Inl (Errorf ''transaction not found'')
           | Inr (Some t) \<Rightarrow> validate_inflight Y tid t s)
      | Inl e \<Rightarrow> Inl e)"

definition calculateRemainingAmount :: "('d, 'r, 'q) sys \<Rightarrow> Transaction \<Rightarrow> store \<Rightarrow> int res" where
  "calculateRemainingAmount Y t s =
     (case GetTotalCommittedTransactions (y_F Y) (t_TransactionID t) s of
        Inl e \<Rightarrow> Inl (logAndRecordError ''error fetching committed amount'' e)
      | Inr committed \<Rightarrow> (case t_PreciseAmount t of None \<Rightarrow> Inl NilPanic | Some a \<Rightarrow> Inr (a - committed)))"

definition checkTransactionCommitStatus :: "int \<Rightarrow> unit res" where
  "checkTransactionCommitStatus amountLeft =
     (if amountLeft = 0 then Inl (Errorf ''cannot commit. Transaction already committed'') else Inr ())"

text \<open>\<open>%.2f\<close> of a float, and what \<open>%.2f\<close> prints for a \<open>*big.Int\<close>.\<close>

definition fmt_2f :: "float64 \<Rightarrow> string" where
  "fmt_2f x = (if x < 0 then ''-'' else []) @ show_scaled (nat \<bar>round_half_even (x * 100)\<bar>) 2"

definition fmt_2f_big :: "int \<Rightarrow> string" where
  "fmt_2f_big n = ''%!f(big.Int='' @ show_int n @ '')''"

definition convertPreciseToFloat :: "int \<Rightarrow> float64 \<Rightarrow> float64" where
  "convertPreciseToFloat p precision = of_int p / precision"

text \<open>A nil amount panics in \<open>Sign\<close>; zero stands for everything that is left.\<close>

definition validateRequestedAmount :: "Transaction \<Rightarrow> int option \<Rightarrow> int \<Rightarrow> unit res" where
  "validateRequestedAmount t amount amountLeft =
     (case amount of None \<Rightarrow> Inl NilPanic
      | Some a \<Rightarrow>
          if a < 0 then Inl (Errorf ''commit amount cannot be negative'')
          else if a = 0 then Inr ()
          else case t_PreciseAmount t of None \<Rightarrow> Inl NilPanic
             | Some p \<Rightarrow>
                 if p < a then Inl (Errorf (''cannot commit more than the original transaction amount. Original: '' @
                   t_Currency t @ fmt_2f (t_Amount t) @ '', Requested: '' @ t_Currency t @ fmt_2f_big a))
                 else if amountLeft < a then Inl (Errorf (''cannot commit more than the remaining amount. Available: '' @
                   t_Currency t @ fmt_2f (convertPreciseToFloat amountLeft (t_Precision t)) @ '', Requested: '' @
                   t_Currency t @ fmt_2f_big a))
                 else Inr ())"

definition updateTransactionAmount :: "Transaction \<Rightarrow> int \<Rightarrow> int \<Rightarrow> Transaction" where
  "updateTransactionAmount t amount amountLeft =
     (if amount \<noteq> 0 then t\<lparr>t_PreciseAmount := Some amount\<rparr>
      else t\<lparr>t_Amount := convertPreciseToFloat amountLeft (t_Precision t), t_PreciseAmount := Some amountLeft\<rparr>)"

definition validateAndUpdateAmount :: "('d, 'r, 'q) sys \<Rightarrow> Transaction \<Rightarrow> int option \<Rightarrow> store \<Rightarrow> Transaction res" where
  "validateAndUpdateAmount Y t amount s =
     (case calculateRemainingAmount Y t s of Inl e \<Rightarrow> Inl e
      | Inr amountLeft \<Rightarrow>
          (case checkTransactionCommitStatus amountLeft of Inl e \<Rightarrow> Inl e
           | Inr _ \<Rightarrow>
               (case validateRequestedAmount t amount amountLeft of Inl e \<Rightarrow> Inl e
                | Inr _ \<Rightarrow> Inr (updateTransactionAmount t (or0 amount) amountLeft))))"

subsection \<open>Finalizing\<close>

text \<open>The child row: a new identity under the inflight transaction.\<close>

definition child_of :: "('d, 'r, 'q) sys \<Rightarrow> string \<Rightarrow> string \<Rightarrow> store \<Rightarrow> Transaction \<Rightarrow> Transaction" where
  "child_of Y status reference s t =
     (let t1 = t\<lparr>t_Status := status, t_ParentTransaction := t_TransactionID t, t_CreatedAt := y_now Y,
                 t_EffectiveDate := (case t_EffectiveDate t of None \<Rightarrow> Some (y_now Y) | d \<Rightarrow> d),
                 t_TransactionID := fresh_uuid Y ''txn'' s,
                 t_Reference := (if reference \<noteq> [] then reference else fresh_uuid Y ''ref'' s)\<rparr>
      in t1\<lparr>t_Hash := HashTxn (y_H Y) t1\<rparr>)"

definition wrap_record ::
    "('r world \<times> Transaction res) option \<Rightarrow> ('r world \<times> Transaction res) option" where
  "wrap_record x = (case x of None \<Rightarrow> None
     | Some (w, Inl e) \<Rightarrow> Some (w, Inl (logAndRecordError ''saving transaction to db error'' e))
     | Some (w, Inr t) \<Rightarrow> Some (w, Inr t))"

definition finalizeCommitment ::
    "('d, 'r, 'q) sys \<Rightarrow> Transaction \<Rightarrow> string \<Rightarrow> 'r world \<Rightarrow> ('r world \<times> Transaction res) option" where
  "finalizeCommitment Y t reference w =
     wrap_record (RecordTransaction (y_env Y) (child_of Y StatusCommit reference (w_store w) t) w)"

definition finalizeCommitment_queued ::
    "('d, 'r, 'q) sys \<Rightarrow> Transaction \<Rightarrow> string \<Rightarrow> store \<Rightarrow> 'q \<Rightarrow> 'q \<times> Transaction res" where
  "finalizeCommitment_queued Y t reference s q =
     (let c = child_of Y StatusCommit reference s t
      in case Enqueue (y_Q Y) (y_cfg Y) (y_now Y) c q of
           (q', Inl e) \<Rightarrow> (q', Inl (logAndRecordError ''failed to enqueue transaction'' e))
         | (q', Inr _) \<Rightarrow> (q', Inr (c\<lparr>t_Status := StatusApplied\<rparr>)))"

definition finalizeVoidTransaction ::
    "('d, 'r, 'q) sys \<Rightarrow> Transaction \<Rightarrow> int \<Rightarrow> string \<Rightarrow> 'r world \<Rightarrow> ('r world \<times> Transaction res) option" where
  "finalizeVoidTransaction Y t amountLeft reference w =
     wrap_record (RecordTransaction (y_env Y) (ApplyPrecision (e_D (y_env Y))
       (child_of Y StatusVoid reference (w_store w) (t\<lparr>t_PreciseAmount := Some amountLeft\<rparr>))) w)"

subsection \<open>Under the lock\<close>

definition with_inflight_lock ::
    "('d, 'r, 'q) sys \<Rightarrow> string \<Rightarrow> string \<Rightarrow> ('r world \<Rightarrow> ('r world \<times> 'a res) option) \<Rightarrow> 'r world
       \<Rightarrow> ('r world \<times> 'a res) option" where
  "with_inflight_lock Y what tid body w =
     (let E = y_env Y; l = NewLocker (''inflight-commit:'' @ tid) (e_uuid E ''loc'')
      in case Lock (e_R E) l (e_LockDuration E) (w_redis w) of
           (r, Inl e) \<Rightarrow> Some (w\<lparr>w_redis := r\<rparr>, Inl (Wrap (''failed to acquire lock for inflight '' @ what) e))
         | (r, Inr _) \<Rightarrow>
             (case body (w\<lparr>w_redis := r\<rparr>) of None \<Rightarrow> None
              | Some (w', x) \<Rightarrow> Some (w'\<lparr>w_redis := fst (Unlock (e_R E) l (w_redis w'))\<rparr>, x)))"

text \<open>\<open>shadow\<close> is the shadow work that follows a success; its errors are only logged.\<close>

definition commit_inflight ::
    "('d, 'r, 'q) sys \<Rightarrow> 'q \<Rightarrow> (string \<Rightarrow> 'r world \<Rightarrow> 'r world option) \<Rightarrow> string \<Rightarrow> int option \<Rightarrow> string
       \<Rightarrow> 'r world \<Rightarrow> ('r world \<times> Transaction res) option" where
  "commit_inflight Y q shadow tid amount reference =
     with_inflight_lock Y ''commit'' tid (\<lambda>w.
       case fetchAndValidateInflightTransaction Y q tid (w_store w) of Inl e \<Rightarrow> Some (w, Inl e)
       | Inr t \<Rightarrow>
           (case validateAndUpdateAmount Y t amount (w_store w) of Inl e \<Rightarrow> Some (w, Inl e)
            | Inr t' \<Rightarrow>
                (case finalizeCommitment Y t' reference w of None \<Rightarrow> None
                 | Some (w', Inl e) \<Rightarrow> Some (w', Inl e)
                 | Some (w', Inr c) \<Rightarrow> (case shadow tid w' of None \<Rightarrow> None | Some w'' \<Rightarrow> Some (w'', Inr c)))))"

definition void_inflight ::
    "('d, 'r, 'q) sys \<Rightarrow> 'q \<Rightarrow> (string \<Rightarrow> 'r world \<Rightarrow> 'r world option) \<Rightarrow> string \<Rightarrow> string
       \<Rightarrow> 'r world \<Rightarrow> ('r world \<times> Transaction res) option" where
  "void_inflight Y q shadow tid reference =
     with_inflight_lock Y ''void'' tid (\<lambda>w.
       case fetchAndValidateInflightTransaction Y q tid (w_store w) of Inl e \<Rightarrow> Some (w, Inl e)
       | Inr t \<Rightarrow>
           (case calculateRemainingAmount Y t (w_store w) of Inl e \<Rightarrow> Some (w, Inl e)
            | Inr amountLeft \<Rightarrow>
                if amountLeft = 0 then Some (w, Inl (Errorf ''cannot void. Transaction already committed''))
                else (case finalizeVoidTransaction Y t amountLeft reference w of None \<Rightarrow> None
                 | Some (w', Inl e) \<Rightarrow> Some (w', Inl e)
                 | Some (w', Inr c) \<Rightarrow> (case shadow tid w' of None \<Rightarrow> None | Some w'' \<Rightarrow> Some (w'', Inr c)))))"

subsection \<open>Shadows\<close>

datatype shadow_kind = ShadowCommit | ShadowVoid

fun lineage_type :: "shadow_kind \<Rightarrow> string" where
  "lineage_type ShadowCommit = ''shadow_commit''"
| "lineage_type ShadowVoid = ''shadow_void''"

definition already_processed :: "error \<Rightarrow> bool" where
  "already_processed e \<longleftrightarrow> str_contains (err_msg e) ''already committed'' \<or> str_contains (err_msg e) ''not in inflight status''"

text \<open>The loop over the shadows; \<open>act\<close> commits or voids one. The ids that failed are returned.\<close>

fun shadow_loop ::
    "(Transaction \<Rightarrow> 'r world \<Rightarrow> ('r world \<times> Transaction res) option) \<Rightarrow> Transaction list \<Rightarrow> 'r world
       \<Rightarrow> ('r world \<times> string list) option" where
  "shadow_loop act [] w = Some (w, [])"
| "shadow_loop act (t # ts) w =
     (case act t w of None \<Rightarrow> None
      | Some (w', x) \<Rightarrow>
          (case shadow_loop act ts w' of None \<Rightarrow> None
           | Some (w'', failed) \<Rightarrow>
               Some (w'', case x of Inl e \<Rightarrow> if already_processed e then failed else t_TransactionID t # failed
                                  | Inr _ \<Rightarrow> failed)))"

fun verb :: "shadow_kind \<Rightarrow> string" where
  "verb ShadowCommit = ''commit''"
| "verb ShadowVoid = ''void''"

definition process_shadows ::
    "('d, 'r, 'q) sys \<Rightarrow> shadow_kind \<Rightarrow> (Transaction \<Rightarrow> 'r world \<Rightarrow> ('r world \<times> Transaction res) option) \<Rightarrow> string \<Rightarrow> 'r world
       \<Rightarrow> ('r world \<times> unit res) option" where
  "process_shadows Y kind act pid w =
     (case GetTransactionsByShadowFor (y_F Y) pid (w_store w) of
        Inl e \<Rightarrow> Some (w, Inl (Wrap ''failed to get shadow transactions'' e))
      | Inr shadows \<Rightarrow>
          (case shadow_loop act shadows w of None \<Rightarrow> None
           | Some (w', failed) \<Rightarrow>
               Some (w', if failed = [] then Inr ()
                     else Inl (Errorf (''failed to '' @ verb kind @ '' '' @ show_nat (length failed) @
                            '' shadow transactions: ['' @ str_join '' '' failed @ '']'')))))"

text \<open>\<open>queueShadowWork\<close>: a failure is queued in the outbox for the retry worker.\<close>

definition queueShadowWork ::
    "('d, 'r, 'q) sys \<Rightarrow> (Transaction \<Rightarrow> 'r world \<Rightarrow> ('r world \<times> Transaction res) option) \<Rightarrow> shadow_kind \<Rightarrow> string
       \<Rightarrow> 'r world \<Rightarrow> 'r world option" where
  "queueShadowWork Y act kind pid w =
     (case process_shadows Y kind act pid w of None \<Rightarrow> None
      | Some (w', Inr _) \<Rightarrow> Some w'
      | Some (w', Inl e) \<Rightarrow>
          Some (w'\<lparr>w_store := fst (InsertLineageOutbox (y_F Y)
            \<lparr>o_TransactionID = pid @ ''_'' @ lineage_type kind, o_SourceBalanceID = [], o_DestinationBalanceID = [],
             o_Provider = [], o_LineageType = lineage_type kind, o_Amount = 0, o_PreciseAmount = [], o_Currency = [],
             o_Precision = 0, o_Reference = [], o_SkipQueue = False, o_Status = [], o_MaxAttempts = 5, o_Inflight = False,
             o_ParentTransactionID = pid, o_Attempts = 0, o_LastError = [], o_ProcessedAt = None, o_LockedUntil = None\<rparr> (w_store w'))\<rparr>))"

fun shadow_work :: "('d, 'r, 'q) sys \<Rightarrow> 'q \<Rightarrow> nat \<Rightarrow> shadow_kind \<Rightarrow> string \<Rightarrow> 'r world \<Rightarrow> 'r world option" where
  "shadow_work Y q 0 kind pid w = None"
| "shadow_work Y q (Suc n) ShadowCommit pid w =
     queueShadowWork Y (\<lambda>t. commit_inflight Y q (shadow_work Y q n ShadowCommit) (t_TransactionID t) (t_PreciseAmount t) [])
       ShadowCommit pid w"
| "shadow_work Y q (Suc n) ShadowVoid pid w =
     queueShadowWork Y (\<lambda>t. void_inflight Y q (shadow_work Y q n ShadowVoid) (t_TransactionID t) []) ShadowVoid pid w"

subsection \<open>The operations\<close>

definition CommitInflightTransactionWithRef ::
    "('d, 'r, 'q) sys \<Rightarrow> 'q \<Rightarrow> nat \<Rightarrow> string \<Rightarrow> int option \<Rightarrow> string \<Rightarrow> 'r world \<Rightarrow> ('r world \<times> Transaction res) option" where
  "CommitInflightTransactionWithRef Y q n = commit_inflight Y q (shadow_work Y q n ShadowCommit)"

definition CommitInflightTransaction ::
    "('d, 'r, 'q) sys \<Rightarrow> 'q \<Rightarrow> nat \<Rightarrow> string \<Rightarrow> int option \<Rightarrow> 'r world \<Rightarrow> ('r world \<times> Transaction res) option" where
  "CommitInflightTransaction Y q n tid amount = CommitInflightTransactionWithRef Y q n tid amount []"

definition VoidInflightTransactionWithRef ::
    "('d, 'r, 'q) sys \<Rightarrow> 'q \<Rightarrow> nat \<Rightarrow> string \<Rightarrow> string \<Rightarrow> 'r world \<Rightarrow> ('r world \<times> Transaction res) option" where
  "VoidInflightTransactionWithRef Y q n = void_inflight Y q (shadow_work Y q n ShadowVoid)"

definition VoidInflightTransaction ::
    "('d, 'r, 'q) sys \<Rightarrow> 'q \<Rightarrow> nat \<Rightarrow> string \<Rightarrow> 'r world \<Rightarrow> ('r world \<times> Transaction res) option" where
  "VoidInflightTransaction Y q n tid = VoidInflightTransactionWithRef Y q n tid []"

text \<open>The queueing variant changes the queue; its balances move when the task is processed.\<close>

definition CommitInflightTransactionWithQueue ::
    "('d, 'r, 'q) sys \<Rightarrow> nat \<Rightarrow> string \<Rightarrow> int option \<Rightarrow> 'r world \<times> 'q \<Rightarrow> (('r world \<times> 'q) \<times> Transaction res) option" where
  "CommitInflightTransactionWithQueue Y n tid amount wq =
     (case wq of (w, q) \<Rightarrow>
        let run = with_inflight_lock Y ''commit'' tid (\<lambda>w.
              case fetchAndValidateInflightTransaction Y q tid (w_store w) of Inl e \<Rightarrow> Some (w, Inr (q, Inl e))
              | Inr t \<Rightarrow>
                  (case validateAndUpdateAmount Y t amount (w_store w) of Inl e \<Rightarrow> Some (w, Inr (q, Inl e))
                   | Inr t' \<Rightarrow>
                       (case finalizeCommitment_queued Y t' [] (w_store w) q of
                          (q', Inl e) \<Rightarrow> Some (w, Inr (q', Inl e))
                        | (q', Inr c) \<Rightarrow>
                            (case shadow_work Y q' n ShadowCommit tid w of None \<Rightarrow> None
                             | Some w' \<Rightarrow> Some (w', Inr (q', Inr c)))))) w
        in case run of None \<Rightarrow> None
           | Some (w', Inl e) \<Rightarrow> Some ((w', q), Inl e)
           | Some (w', Inr (q', x)) \<Rightarrow> Some ((w', q'), x))"

subsection \<open>Actions by parent\<close>

definition inflightActionReference :: "string \<Rightarrow> string \<Rightarrow> string \<Rightarrow> string" where
  "inflightActionReference legID action actionID =
     (if actionID = [] then [] else legID @ ''_'' @ action @ ''_'' @ actionID)"

definition classifyInflightError :: "error option \<Rightarrow> string" where
  "classifyInflightError err = (case err of None \<Rightarrow> [] | Some e \<Rightarrow>
     let msg = err_msg e in
     if str_contains msg ''transaction not found'' \<or> str_contains msg ''no rows in result set'' \<or> str_contains msg ''not found''
     then ''NOT_FOUND''
     else if str_contains msg ''has already been voided'' then ''ALREADY_VOIDED''
     else if str_contains msg ''Transaction already committed'' \<or>
       str_contains msg ''cannot void. Transaction already committed'' then ''ALREADY_COMMITTED''
     else if str_contains msg ''not in inflight status'' then ''NOT_INFLIGHT''
     else if str_contains msg ''cannot commit more than'' then ''INVALID_AMOUNT''
     else if str_contains msg ''failed to acquire lock'' then ''LOCKED''
     else ''INTERNAL_ERROR'')"

definition isTerminalInflightError :: "error \<Rightarrow> bool" where
  "isTerminalInflightError e \<longleftrightarrow> IsDuplicateReferenceError (Some e) \<or>
     classifyInflightError (Some e) \<in> {''ALREADY_COMMITTED'', ''ALREADY_VOIDED'', ''NOT_INFLIGHT'', ''INVALID_AMOUNT''}"

text \<open>The pages of \<open>collectInflightLegs\<close> from an offset on; a page that is not full is the last.\<close>

function collect_from :: "faults \<Rightarrow> string \<Rightarrow> nat \<Rightarrow> nat \<Rightarrow> store \<Rightarrow> Transaction list res" where
  "collect_from F pid batchSize offset s =
     (case GetInflightTransactionsByParentID F pid batchSize offset s of
        Inl e \<Rightarrow> Inl e
      | Inr batch \<Rightarrow>
          if length batch < batchSize \<or> batchSize = 0 then Inr batch
          else case collect_from F pid batchSize (offset + batchSize) s of
                 Inl e \<Rightarrow> Inl e | Inr rest \<Rightarrow> Inr (batch @ rest))"
  by pat_completeness auto
termination
  by (relation "measure (\<lambda>(F, pid, b, off, s). length (legs_of pid s) - off)")
     (auto simp: GetInflightTransactionsByParentID_def split: if_splits)

declare collect_from.simps [simp del]

definition collectInflightLegs :: "('d, 'r, 'q) sys \<Rightarrow> string \<Rightarrow> store \<Rightarrow> Transaction list res" where
  "collectInflightLegs Y pid s =
     collect_from (y_F Y) pid (if y_BatchSize Y \<le> 0 then 100 else nat (y_BatchSize Y)) 0 s"

definition applyInflightActionToLeg ::
    "('d, 'r, 'q) sys \<Rightarrow> 'q \<Rightarrow> nat \<Rightarrow> Transaction \<Rightarrow> string \<Rightarrow> int option \<Rightarrow> string \<Rightarrow> 'r world
       \<Rightarrow> ('r world \<times> Transaction res) option" where
  "applyInflightActionToLeg Y q n leg action amount actionID =
     (let ref = inflightActionReference (t_TransactionID leg) action actionID
      in if action = InflightActionVoid then VoidInflightTransactionWithRef Y q n (t_TransactionID leg) ref
         else CommitInflightTransactionWithRef Y q n (t_TransactionID leg) amount ref)"

text \<open>The loop over the legs keeps the last transient error.\<close>

fun run_legs ::
    "(Transaction \<Rightarrow> 'r world \<Rightarrow> ('r world \<times> Transaction res) option) \<Rightarrow> Transaction list \<Rightarrow> error option \<Rightarrow> 'r world
       \<Rightarrow> ('r world \<times> error option) option" where
  "run_legs act [] lastErr w = Some (w, lastErr)"
| "run_legs act (leg # legs) lastErr w =
     (case act leg w of None \<Rightarrow> None
      | Some (w', Inr _) \<Rightarrow> run_legs act legs lastErr w'
      | Some (w', Inl e) \<Rightarrow> run_legs act legs (if isTerminalInflightError e then lastErr else Some e) w')"

text \<open>Whether the task should be retried, and the error.\<close>

definition RunInflightActionByParent ::
    "('d, 'r, 'q) sys \<Rightarrow> 'q \<Rightarrow> nat \<Rightarrow> string \<Rightarrow> string \<Rightarrow> int option \<Rightarrow> string \<Rightarrow> 'r world
       \<Rightarrow> ('r world \<times> bool \<times> error option) option" where
  "RunInflightActionByParent Y q n pid action amount actionID w =
     (case collectInflightLegs Y pid (w_store w) of
        Inl e \<Rightarrow> Some (w, True, Some e)
      | Inr [] \<Rightarrow> Some (w, False, None)
      | Inr legs \<Rightarrow>
          (case run_legs (\<lambda>leg. applyInflightActionToLeg Y q n leg action amount actionID) legs None w of
             None \<Rightarrow> None
           | Some (w', Some e) \<Rightarrow> Some (w', True, Some e)
           | Some (w', None) \<Rightarrow> Some (w', False, None)))"

definition preValidateInflightAction ::
    "('d, 'r, 'q) sys \<Rightarrow> 'q \<Rightarrow> string \<Rightarrow> string \<Rightarrow> int option \<Rightarrow> store \<Rightarrow> Transaction res" where
  "preValidateInflightAction Y q tid action amount s =
     (case fetchAndValidateInflightTransaction Y q tid s of Inl e \<Rightarrow> Inl e
      | Inr t \<Rightarrow>
          (case calculateRemainingAmount Y t s of Inl e \<Rightarrow> Inl e
           | Inr amountLeft \<Rightarrow>
               (case checkTransactionCommitStatus amountLeft of Inl e \<Rightarrow> Inl e
                | Inr _ \<Rightarrow>
                    if action = InflightActionCommit \<and> amount \<noteq> None
                    then (case validateRequestedAmount t amount amountLeft of Inl e \<Rightarrow> Inl e | Inr _ \<Rightarrow> Inr t)
                    else Inr t)))"

definition QueueInflightAction ::
    "('d, 'r, 'q) sys \<Rightarrow> string \<Rightarrow> int option \<Rightarrow> string \<Rightarrow> store \<Rightarrow> 'q \<Rightarrow> 'q \<times> Transaction res" where
  "QueueInflightAction Y tid amount action s q =
     (case preValidateInflightAction Y q tid action amount s of Inl e \<Rightarrow> (q, Inl e)
      | Inr t \<Rightarrow>
          (case EnqueueInflightAction (y_Q Y) (y_cfg Y)
                  \<lparr>ip_TransactionID = tid, ip_Action = action,
                   ip_PreciseAmount = (case amount of None \<Rightarrow> ''0'' | Some a \<Rightarrow> show_int a),
                   ip_ActionID = fresh_uuid Y ''act'' s\<rparr> q of
             (q', Inl e) \<Rightarrow> (q', Inl e)
           | (q', Inr _) \<Rightarrow> (q', Inr t)))"

subsection \<open>Bulk\<close>

datatype BulkInflightAction = BulkInflightVoid | BulkInflightCommit

record BulkInflightItem =
  bi_TransactionID :: string
  bi_Amount :: "int option"

record BulkInflightOutcome =
  bo_TransactionID :: string
  bo_Txn :: "Transaction option"
  bo_Err :: "error option"
  bo_Code :: string

definition bulk_item ::
    "('d, 'r, 'q) sys \<Rightarrow> 'q \<Rightarrow> nat \<Rightarrow> BulkInflightAction \<Rightarrow> BulkInflightItem \<Rightarrow> 'r world
       \<Rightarrow> ('r world \<times> BulkInflightOutcome) option" where
  "bulk_item Y q n action item w =
     (case (case action of
              BulkInflightCommit \<Rightarrow> CommitInflightTransaction Y q n (bi_TransactionID item) (bi_Amount item) w
            | BulkInflightVoid \<Rightarrow> VoidInflightTransaction Y q n (bi_TransactionID item) w) of
        None \<Rightarrow> None
      | Some (w', x) \<Rightarrow>
          (let err = (case x of Inl e \<Rightarrow> Some e | Inr _ \<Rightarrow> None)
           in Some (w', \<lparr>bo_TransactionID = bi_TransactionID item, bo_Txn = (case x of Inl _ \<Rightarrow> None | Inr t \<Rightarrow> Some t),
                bo_Err = err, bo_Code = classifyInflightError err\<rparr>)))"

text \<open>
  The worker pool takes the jobs in the order \<open>sched\<close>, a permutation of the indices; each
  outcome is stored at the index of its item.
\<close>

fun bulk_run ::
    "('d, 'r, 'q) sys \<Rightarrow> 'q \<Rightarrow> nat \<Rightarrow> BulkInflightAction \<Rightarrow> BulkInflightItem list \<Rightarrow> nat list
       \<Rightarrow> (nat \<Rightarrow> BulkInflightOutcome option) \<Rightarrow> 'r world \<Rightarrow> ('r world \<times> (nat \<Rightarrow> BulkInflightOutcome option)) option" where
  "bulk_run Y q n action items [] results w = Some (w, results)"
| "bulk_run Y q n action items (i # sched) results w =
     (case bulk_item Y q n action (items ! i) w of None \<Rightarrow> None
      | Some (w', out) \<Rightarrow> bulk_run Y q n action items sched (results(i := Some out)) w')"

definition BulkInflightUpdate ::
    "('d, 'r, 'q) sys \<Rightarrow> 'q \<Rightarrow> nat \<Rightarrow> BulkInflightAction \<Rightarrow> BulkInflightItem list \<Rightarrow> nat list \<Rightarrow> 'r world
       \<Rightarrow> ('r world \<times> BulkInflightOutcome option list res) option" where
  "BulkInflightUpdate Y q n action items sched w =
     (if items = [] then Some (w, Inl (Errorf ''transaction_ids cannot be empty''))
      else case bulk_run Y q n action items sched (\<lambda>_. None) w of None \<Rightarrow> None
           | Some (w', results) \<Rightarrow> Some (w', Inr (map results [0..<length items])))"

section \<open>Facts\<close>

subsection \<open>The row a recorded transaction leaves\<close>

lemma executed_row:
  assumes "executed E t s s' t3" "t_PreciseAmount t = Some a" "0 < a"
  shows "\<exists>am. st_transactions s' = st_transactions s @ [row_of t3 am]"
    and "t_TransactionID t3 = t_TransactionID t" "t_ParentTransaction t3 = t_ParentTransaction t"
    and "t_Status t3 = (if t_Inflight t then StatusInflight else applicableStatus (t_Status t))"
    and "t_PreciseAmount t3 = Some a" "t_Reference t3 = t_Reference t"
    and "t_Reference t \<notin> t_Reference ` set (st_transactions s)"
proof -
  from assms(1) obtain t2 h s1 sb db where g: "grows s s1"
    and ap: "applyTransactionToBalances (e_D E) (t\<lparr>t_Source := b_BalanceID sb, t_Destination := b_BalanceID db\<rparr>)
       True False (two_balances sb db) = Inr (t2, h)"
    and t3: "t3 = updateTransactionDetails t2 (h True) (h False)"
    and fin: "if t_PreciseAmount t2 = Some 0 then s' = s1
      else persisted t3 (h True) (h False) (prepareTransactionOutbox t3 (h True) (h False)) s1 s'"
    unfolding executed_def by blast
  note t2 = apply_keeps_identity [OF ap]
  with assms(2,3) have pa: "t_PreciseAmount t2 = Some a" by simp
  with fin assms(3) have "persisted t3 (h True) (h False) (prepareTransactionOutbox t3 (h True) (h False)) s1 s'" by simp
  then show "\<exists>am. st_transactions s' = st_transactions s @ [row_of t3 am]"
    and "t_Reference t \<notin> t_Reference ` set (st_transactions s)"
    using g t2 by (auto simp: persisted_def grows_def t3)
  show "t_TransactionID t3 = t_TransactionID t" "t_ParentTransaction t3 = t_ParentTransaction t"
    "t_Status t3 = (if t_Inflight t then StatusInflight else applicableStatus (t_Status t))"
    "t_PreciseAmount t3 = Some a" "t_Reference t3 = t_Reference t"
    using t2 pa by (simp_all add: t3 updateTransactionDetails_def)
qed

lemma RecordTransaction_row:
  assumes "store_ok (w_store w)" "uuids_ok E" "RecordTransaction E t w = Some (w', x)"
    and "t_PreciseAmount t = Some a" "0 < a" "\<not> t_Inflight t"
  shows "store_ok (w_store w')"
    and "x = Inl e \<Longrightarrow> st_transactions (w_store w') = st_transactions (w_store w)"
    and "x = Inr t3 \<Longrightarrow> (\<exists>am. st_transactions (w_store w') = st_transactions (w_store w) @ [row_of t3 am]) \<and>
      t_TransactionID t3 = t_TransactionID t \<and> t_ParentTransaction t3 = t_ParentTransaction t \<and>
      t_Status t3 = applicableStatus (t_Status t) \<and> t_PreciseAmount t3 = Some a \<and> t_Reference t3 = t_Reference t \<and>
      t_Reference t \<notin> t_Reference ` set (st_transactions (w_store w))"
proof -
  note c = RecordTransaction_cases [OF assms(1-3)]
  have ex: "executed E (t\<lparr>t_Source := sid, t_Destination := did\<rparr>) s1 (w_store w') t3 \<Longrightarrow> grows (w_store w) s1 \<Longrightarrow>
      store_ok (w_store w') \<and> (\<exists>am. st_transactions (w_store w') = st_transactions (w_store w) @ [row_of t3 am]) \<and>
      t_TransactionID t3 = t_TransactionID t \<and> t_ParentTransaction t3 = t_ParentTransaction t \<and>
      t_Status t3 = applicableStatus (t_Status t) \<and> t_PreciseAmount t3 = Some a \<and> t_Reference t3 = t_Reference t \<and>
      t_Reference t \<notin> t_Reference ` set (st_transactions (w_store w))" for sid did s1 t3
    using executed_row [of E "t\<lparr>t_Source := sid, t_Destination := did\<rparr>" s1 "w_store w'" t3 a] assms(4-6)
      executed_safe [of s1 E] by (auto simp: grows_def)
  from c ex show "store_ok (w_store w')" by (auto simp: grows_def)
  from c show "x = Inl e \<Longrightarrow> st_transactions (w_store w') = st_transactions (w_store w)" by (auto simp: grows_def)
  from c ex show "x = Inr t3 \<Longrightarrow> (\<exists>am. st_transactions (w_store w') = st_transactions (w_store w) @ [row_of t3 am]) \<and>
      t_TransactionID t3 = t_TransactionID t \<and> t_ParentTransaction t3 = t_ParentTransaction t \<and>
      t_Status t3 = applicableStatus (t_Status t) \<and> t_PreciseAmount t3 = Some a \<and> t_Reference t3 = t_Reference t \<and>
      t_Reference t \<notin> t_Reference ` set (st_transactions (w_store w))" by blast
qed

subsection \<open>Settling a hold\<close>

text \<open>
  The books of the holds: what was committed and voided of a hold never exceeds it, and a voided
  hold is used up exactly. Rows have no inflight column.
\<close>

definition voided_children :: "string \<Rightarrow> store \<Rightarrow> Transaction list" where
  "voided_children pid s = filter (\<lambda>t. t_ParentTransaction t = pid \<and> t_Status t = StatusVoid) (st_transactions s)"

definition total_voided :: "string \<Rightarrow> store \<Rightarrow> int" where
  "total_voided pid s = sum_list (map (\<lambda>t. or0 (t_PreciseAmount t)) (voided_children pid s))"

definition hold_settled :: "Transaction \<Rightarrow> store \<Rightarrow> bool" where
  "hold_settled t s \<longleftrightarrow> total_committed (t_TransactionID t) s + total_voided (t_TransactionID t) s \<le> or0 (t_PreciseAmount t) \<and>
     (voided_children (t_TransactionID t) s \<noteq> [] \<longrightarrow>
      total_committed (t_TransactionID t) s + total_voided (t_TransactionID t) s = or0 (t_PreciseAmount t))"

definition holds_settled :: "store \<Rightarrow> bool" where
  "holds_settled s \<longleftrightarrow> store_ok s \<and> (\<forall>t \<in> set (st_transactions s). \<not> t_Inflight t \<and>
     (IsInflightTransaction t \<longrightarrow> hold_settled t s))"

lemma holds_settled_same:
  "holds_settled s \<Longrightarrow> store_ok s' \<Longrightarrow> st_transactions s' = st_transactions s \<Longrightarrow> holds_settled s'"
  by (simp add: holds_settled_def hold_settled_def total_committed_def total_voided_def committed_children_def
      voided_children_def)

text \<open>A new child under one hold that keeps its books keeps all of them.\<close>

lemma holds_settled_append:
  assumes "holds_settled s" "store_ok s'" and s': "st_transactions s' = st_transactions s @ [r]"
    and t: "t \<in> set (st_transactions s)" "t_ParentTransaction r = t_TransactionID t" "hold_settled t s'"
    and r: "\<not> t_Inflight r" "\<not> IsInflightTransaction r"
  shows "holds_settled s'"
proof -
  have "hold_settled u s'" if u: "u \<in> set (st_transactions s)" "IsInflightTransaction u" for u
  proof (cases "t_TransactionID u = t_TransactionID t")
    case True
    have "distinct (map t_TransactionID (st_transactions s))" using assms(1) by (simp add: holds_settled_def store_ok_def)
    with True u t have "u = t" by (auto simp: distinct_map dest: inj_onD)
    with t show ?thesis by simp
  next
    case False
    with assms(1) u t(2) show ?thesis
      by (auto simp: holds_settled_def hold_settled_def total_committed_def total_voided_def committed_children_def
          voided_children_def s')
  qed
  with assms show ?thesis by (auto simp: holds_settled_def s')
qed

lemma fetch_row:
  assumes "fetchAndValidateInflightTransaction Y q tid s = Inr t"
  obtains row where "row \<in> set (st_transactions s)" "t_TransactionID row = tid"
    "t = row\<lparr>t_ScheduledFor := 0, t_EffectiveDate := None\<rparr>" "IsInflightTransaction row" "voided_children tid s = []"
proof -
  from assms obtain row where r: "find_row t_TransactionID tid (st_transactions s) = Some row"
    and t: "t = row\<lparr>t_ScheduledFor := 0, t_EffectiveDate := None\<rparr>" and v: "validate_inflight Y tid t s = Inr t"
    by (auto simp: fetchAndValidateInflightTransaction_def GetTransaction_def validate_inflight_def
        split: if_splits option.splits sum.splits)
  have "IsInflightTransaction row" "voided_children tid s = []"
    using v by (auto simp: validate_inflight_def t IsInflightTransaction_def voided_children_def IsParentTransactionVoid_def
        filter_empty_conv split: if_splits sum.splits)
  with find_row_Some [OF r] t that show ?thesis by blast
qed

lemma remaining_eq:
  "calculateRemainingAmount Y t s = Inr l \<Longrightarrow>
   \<exists>p. t_PreciseAmount t = Some p \<and> l = p - total_committed (t_TransactionID t) s"
  by (auto simp: calculateRemainingAmount_def GetTotalCommittedTransactions_def split: sum.splits option.splits if_splits)

lemma update_amount:
  assumes "validateAndUpdateAmount Y t amount s = Inr t'"
  obtains p a where "t_PreciseAmount t = Some p" "t_PreciseAmount t' = Some a" "t_TransactionID t' = t_TransactionID t"
    "t_Inflight t' = t_Inflight t" "p \<noteq> total_committed (t_TransactionID t) s"
    "a = (if amount = Some 0 then p - total_committed (t_TransactionID t) s else or0 amount)" "amount \<noteq> None"
    "0 \<le> or0 amount" "or0 amount \<noteq> 0 \<longrightarrow> a \<le> p - total_committed (t_TransactionID t) s"
proof -
  from assms obtain l where l: "calculateRemainingAmount Y t s = Inr l" "l \<noteq> 0"
    and v: "validateRequestedAmount t amount l = Inr ()" "t' = updateTransactionAmount t (or0 amount) l"
    by (auto simp: validateAndUpdateAmount_def checkTransactionCommitStatus_def split: sum.splits if_splits)
  from remaining_eq [OF l(1)] obtain p where p: "t_PreciseAmount t = Some p" "l = p - total_committed (t_TransactionID t) s" by blast
  show ?thesis
  proof (rule that [of p])
    show "t_PreciseAmount t' = Some (if amount = Some 0 then p - total_committed (t_TransactionID t) s else or0 amount)"
      using v p by (auto simp: updateTransactionAmount_def validateRequestedAmount_def split: option.splits)
    show "0 \<le> or0 amount" "amount \<noteq> None" using v(1) by (auto simp: validateRequestedAmount_def split: option.splits if_splits)
    show "or0 amount \<noteq> 0 \<longrightarrow> (if amount = Some 0 then p - total_committed (t_TransactionID t) s else or0 amount)
        \<le> p - total_committed (t_TransactionID t) s"
      using v(1) p by (auto simp: validateRequestedAmount_def split: option.splits if_splits)
  qed (use p v l(2) in \<open>auto simp: updateTransactionAmount_def\<close>)
qed

lemma child_of_fields [simp]:
  "t_Status (child_of Y st ref s t) = st" "t_ParentTransaction (child_of Y st ref s t) = t_TransactionID t"
  "t_PreciseAmount (child_of Y st ref s t) = t_PreciseAmount t" "t_Inflight (child_of Y st ref s t) = t_Inflight t"
  "t_Reference (child_of Y st ref s t) = (if ref \<noteq> [] then ref else fresh_uuid Y ''ref'' s)"
  "t_TransactionID (child_of Y st ref s t) = fresh_uuid Y ''txn'' s"
  "t_Source (child_of Y st ref s t) = t_Source t" "t_Destination (child_of Y st ref s t) = t_Destination t"
  by (simp_all add: child_of_def Let_def)

lemma wrap_record_Some:
  "wrap_record r = Some (w', x) \<longleftrightarrow> (\<exists>x0. r = Some (w', x0) \<and>
     x = (case x0 of Inl e \<Rightarrow> Inl (logAndRecordError ''saving transaction to db error'' e) | Inr t \<Rightarrow> Inr t))"
  by (auto simp: wrap_record_def split: option.splits sum.splits prod.splits)

text \<open>The books, in a table that holds given references.\<close>

definition settled_with :: "string set \<Rightarrow> store \<Rightarrow> bool" where
  "settled_with R s \<longleftrightarrow> holds_settled s \<and> R \<subseteq> t_Reference ` set (st_transactions s)"

text \<open>Recording a child that settles at most what is left keeps the books.\<close>

lemma settle_child:
  assumes ok: "settled_with R (w_store w)" and u: "uuids_ok E"
    and row: "row \<in> set (st_transactions (w_store w))" "IsInflightTransaction row"
      "voided_children (t_TransactionID row) (w_store w) = []" "t_PreciseAmount row = Some p"
    and c: "t_ParentTransaction c = t_TransactionID row" "t_PreciseAmount c = Some a" "\<not> t_Inflight c"
      "0 < a" "a \<le> p - total_committed (t_TransactionID row) (w_store w)"
      "t_Status c = StatusCommit \<or> t_Status c = StatusVoid \<and> a = p - total_committed (t_TransactionID row) (w_store w)"
    and rec: "RecordTransaction E c w = Some (w', x)"
  shows "settled_with R (w_store w')"
    and "x = Inl e \<Longrightarrow> st_transactions (w_store w') = st_transactions (w_store w)"
    and "x = Inr t3 \<Longrightarrow> t_PreciseAmount t3 = Some a \<and> t_ParentTransaction t3 = t_TransactionID row \<and>
      t_Status t3 = (if t_Status c = StatusVoid then StatusVoid else StatusApplied) \<and> t_Reference t3 = t_Reference c \<and>
      t_Reference c \<notin> t_Reference ` set (st_transactions (w_store w)) \<and>
      (\<exists>am. st_transactions (w_store w') = st_transactions (w_store w) @ [row_of t3 am])"
proof -
  have hok: "holds_settled (w_store w)" and sok: "store_ok (w_store w)" using ok by (simp_all add: settled_with_def holds_settled_def)
  note r = RecordTransaction_row [OF sok u rec c(2) c(4) c(3)]
  show e: "x = Inl e \<Longrightarrow> st_transactions (w_store w') = st_transactions (w_store w)" for e by (rule r(2))
  have st: "applicableStatus (t_Status c) = (if t_Status c = StatusVoid then StatusVoid else StatusApplied)"
    using c(6) by (auto simp: applicableStatus_def)
  show i: "x = Inr t3 \<Longrightarrow> t_PreciseAmount t3 = Some a \<and> t_ParentTransaction t3 = t_TransactionID row \<and>
      t_Status t3 = (if t_Status c = StatusVoid then StatusVoid else StatusApplied) \<and> t_Reference t3 = t_Reference c \<and>
      t_Reference c \<notin> t_Reference ` set (st_transactions (w_store w)) \<and>
      (\<exists>am. st_transactions (w_store w') = st_transactions (w_store w) @ [row_of t3 am])" for t3
    using r(3) [of t3] c(1) st by auto
  show "settled_with R (w_store w')"
  proof (cases x)
    case (Inl e)
    with e [of e] r(1) ok show ?thesis by (auto simp: settled_with_def intro: holds_settled_same)
  next
    case (Inr t3)
    note i = i [OF Inr]
    then obtain am where s': "st_transactions (w_store w') = st_transactions (w_store w) @ [row_of t3 am]" by blast
    have "hold_settled row (w_store w')"
      using i c row(3,4) hok row(1,2)
      by (auto simp: hold_settled_def total_committed_def total_voided_def committed_children_def voided_children_def s'
          holds_settled_def split: if_splits)
    moreover have "\<not> IsInflightTransaction (row_of t3 am)" "\<not> t_Inflight (row_of t3 am)"
      using i by (auto simp: IsInflightTransaction_def row_of_def zero_Transaction_def split: if_splits)
    ultimately have "holds_settled (w_store w')"
      using holds_settled_append [OF hok r(1) s' row(1), OF _ _ _ _] i by simp
    with ok show ?thesis by (auto simp: settled_with_def s')
  qed
qed

lemma finalizeCommitment_keeps:
  assumes ok: "settled_with R (w_store w)" and u: "uuids_ok (y_env Y)"
    and f: "fetchAndValidateInflightTransaction Y q tid (w_store w) = Inr t"
    and v: "validateAndUpdateAmount Y t amount (w_store w) = Inr t'"
    and fin: "finalizeCommitment Y t' ref w = Some (w', x)"
  shows "settled_with R (w_store w')"
    and "x = Inl e \<Longrightarrow> st_transactions (w_store w') = st_transactions (w_store w)"
    and "x = Inr c \<Longrightarrow> ref \<noteq> [] \<Longrightarrow> ref \<notin> t_Reference ` set (st_transactions (w_store w)) \<and>
      settled_with (insert ref R) (w_store w')"
proof -
  obtain row where row: "row \<in> set (st_transactions (w_store w))" "t_TransactionID row = tid"
    "t = row\<lparr>t_ScheduledFor := 0, t_EffectiveDate := None\<rparr>" "IsInflightTransaction row" "voided_children tid (w_store w) = []"
    by (rule fetch_row [OF f])
  obtain p a where p: "t_PreciseAmount t = Some p" "t_PreciseAmount t' = Some a" "t_TransactionID t' = t_TransactionID t"
    "t_Inflight t' = t_Inflight t" "p \<noteq> total_committed (t_TransactionID t) (w_store w)"
    "a = (if amount = Some 0 then p - total_committed (t_TransactionID t) (w_store w) else or0 amount)"
    "amount \<noteq> None" "0 \<le> or0 amount"
    "or0 amount \<noteq> 0 \<longrightarrow> a \<le> p - total_committed (t_TransactionID t) (w_store w)" by (rule update_amount [OF v])
  have hs: "hold_settled row (w_store w)" "\<not> t_Inflight row" using ok row by (auto simp: settled_with_def holds_settled_def)
  then have left: "0 < p - total_committed tid (w_store w)"
    using p row by (auto simp: hold_settled_def total_voided_def)
  then have a: "0 < a" "a \<le> p - total_committed tid (w_store w)" using p row by (auto split: if_splits)
  from fin obtain x0 where R': "RecordTransaction (y_env Y) (child_of Y StatusCommit ref (w_store w) t') w = Some (w', x0)"
    and x0: "x = (case x0 of Inl e \<Rightarrow> Inl (logAndRecordError ''saving transaction to db error'' e) | Inr t \<Rightarrow> Inr t)"
    by (auto simp: finalizeCommitment_def wrap_record_Some)
  have pre: "voided_children (t_TransactionID row) (w_store w) = []" "t_PreciseAmount row = Some p"
    "t_ParentTransaction (child_of Y StatusCommit ref (w_store w) t') = t_TransactionID row" "t_PreciseAmount (child_of Y StatusCommit ref (w_store w) t') = Some a" "\<not> t_Inflight (child_of Y StatusCommit ref (w_store w) t')"
    "a \<le> p - total_committed (t_TransactionID row) (w_store w)" "t_Status (child_of Y StatusCommit ref (w_store w) t') = StatusCommit \<or>
       t_Status (child_of Y StatusCommit ref (w_store w) t') = StatusVoid \<and> a = p - total_committed (t_TransactionID row) (w_store w)"
    using row p hs a by auto
  note sc = settle_child [OF ok u row(1,4) pre(1-5) a(1) pre(6,7) R']
  show keep: "settled_with R (w_store w')" by (rule sc(1))
  show "x = Inl e \<Longrightarrow> st_transactions (w_store w') = st_transactions (w_store w)"
    using x0 sc(2) by (cases x0) auto
  assume x: "x = Inr c" "ref \<noteq> []"
  then have "x0 = Inr c" using x0 by (cases x0) auto
  from sc(3) [OF this] x(2) keep show "ref \<notin> t_Reference ` set (st_transactions (w_store w)) \<and> settled_with (insert ref R) (w_store w')"
    by (auto simp: settled_with_def)
qed

lemma finalizeVoid_keeps:
  assumes ok: "settled_with R (w_store w)" and u: "uuids_ok (y_env Y)"
    and f: "fetchAndValidateInflightTransaction Y q tid (w_store w) = Inr t"
    and l: "calculateRemainingAmount Y t (w_store w) = Inr l" "l \<noteq> 0"
    and fin: "finalizeVoidTransaction Y t l ref w = Some (w', x)"
  shows "settled_with R (w_store w')"
    and "x = Inl e \<Longrightarrow> st_transactions (w_store w') = st_transactions (w_store w)"
    and "x = Inr c \<Longrightarrow> ref \<noteq> [] \<Longrightarrow> ref \<notin> t_Reference ` set (st_transactions (w_store w)) \<and>
      settled_with (insert ref R) (w_store w')"
proof -
  obtain row where row: "row \<in> set (st_transactions (w_store w))" "t_TransactionID row = tid"
    "t = row\<lparr>t_ScheduledFor := 0, t_EffectiveDate := None\<rparr>" "IsInflightTransaction row" "voided_children tid (w_store w) = []"
    by (rule fetch_row [OF f])
  obtain p where p: "t_PreciseAmount t = Some p" "l = p - total_committed (t_TransactionID t) (w_store w)"
    using remaining_eq [OF l(1)] by blast
  have hs: "hold_settled row (w_store w)" "\<not> t_Inflight row" using ok row by (auto simp: settled_with_def holds_settled_def)
  then have left: "0 < l" using p row l(2) by (auto simp: hold_settled_def total_voided_def)
  let ?c = "ApplyPrecision (e_D (y_env Y)) (child_of Y StatusVoid ref (w_store w) (t\<lparr>t_PreciseAmount := Some l\<rparr>))"
  have pa: "t_PreciseAmount ?c = Some l" using left by (intro ApplyPrecision_pos) simp_all
  from fin obtain x0 where R': "RecordTransaction (y_env Y) ?c w = Some (w', x0)"
    and x0: "x = (case x0 of Inl e \<Rightarrow> Inl (logAndRecordError ''saving transaction to db error'' e) | Inr t \<Rightarrow> Inr t)"
    by (auto simp: finalizeVoidTransaction_def wrap_record_Some)
  have pre: "voided_children (t_TransactionID row) (w_store w) = []" "t_PreciseAmount row = Some p"
    "t_ParentTransaction (?c) = t_TransactionID row" "t_PreciseAmount (?c) = Some l" "\<not> t_Inflight (?c)"
    "l \<le> p - total_committed (t_TransactionID row) (w_store w)" "t_Status (?c) = StatusCommit \<or>
       t_Status (?c) = StatusVoid \<and> l = p - total_committed (t_TransactionID row) (w_store w)"
    using row p hs pa by auto
  note sc = settle_child [OF ok u row(1,4) pre(1-5) left pre(6,7) R']
  show keep: "settled_with R (w_store w')" by (rule sc(1))
  show "x = Inl e \<Longrightarrow> st_transactions (w_store w') = st_transactions (w_store w)"
    using x0 sc(2) by (cases x0) auto
  assume x: "x = Inr c" "ref \<noteq> []"
  then have "x0 = Inr c" using x0 by (cases x0) auto
  from sc(3) [OF this] x(2) keep show "ref \<notin> t_Reference ` set (st_transactions (w_store w)) \<and> settled_with (insert ref R) (w_store w')"
    by (auto simp: settled_with_def)
qed

subsection \<open>The operations keep the books\<close>

lemma with_inflight_lock_cases:
  assumes "with_inflight_lock Y what tid body w = Some (w', x)"
  shows "(\<exists>e. x = Inl e \<and> w_store w' = w_store w) \<or>
    (\<exists>r w1. body (w\<lparr>w_redis := r\<rparr>) = Some (w1, x) \<and> w_store w' = w_store w1)"
proof -
  let ?E = "y_env Y"
  obtain r y where L: "Lock (e_R ?E) (NewLocker (''inflight-commit:'' @ tid) (e_uuid ?E ''loc'')) (e_LockDuration ?E) (w_redis w) = (r, y)"
    by force
  show ?thesis
  proof (cases y)
    case (Inl e)
    with assms L show ?thesis by (auto simp: with_inflight_lock_def)
  next
    case (Inr u)
    with assms L obtain w1 where "body (w\<lparr>w_redis := r\<rparr>) = Some (w1, x)" "w_store w' = w_store w1"
      by (auto simp: with_inflight_lock_def Let_def split: option.splits)
    then show ?thesis by blast
  qed
qed

lemma commit_inflight_cases:
  assumes "commit_inflight Y q shadow tid amount ref w = Some (w', x)"
  shows "(\<exists>e. x = Inl e \<and> w_store w' = w_store w) \<or>
    (\<exists>w0 t t' w1 y. w_store w0 = w_store w \<and> fetchAndValidateInflightTransaction Y q tid (w_store w) = Inr t \<and>
       validateAndUpdateAmount Y t amount (w_store w) = Inr t' \<and> finalizeCommitment Y t' ref w0 = Some (w1, y) \<and>
       ((\<exists>e. y = Inl e \<and> x = Inl e \<and> w_store w' = w_store w1) \<or>
        (\<exists>c w2. y = Inr c \<and> x = Inr c \<and> shadow tid w1 = Some w2 \<and> w_store w' = w_store w2)))"
  using with_inflight_lock_cases [OF assms [unfolded commit_inflight_def]]
proof (elim disjE exE conjE)
  fix r w1
  let ?w0 = "w\<lparr>w_redis := r\<rparr>"
  assume B: "(case fetchAndValidateInflightTransaction Y q tid (w_store ?w0) of
      Inl e \<Rightarrow> Some (?w0, Inl e)
    | Inr t \<Rightarrow> (case validateAndUpdateAmount Y t amount (w_store ?w0) of
        Inl e \<Rightarrow> Some (?w0, Inl e)
      | Inr t' \<Rightarrow> (case finalizeCommitment Y t' ref ?w0 of None \<Rightarrow> None
        | Some (w', Inl e) \<Rightarrow> Some (w', Inl e)
        | Some (w', Inr c) \<Rightarrow> (case shadow tid w' of None \<Rightarrow> None | Some w'' \<Rightarrow> Some (w'', Inr c))))) = Some (w1, x)"
    and w': "w_store w' = w_store w1"
  show ?thesis
  proof (cases "fetchAndValidateInflightTransaction Y q tid (w_store w)")
    case (Inl e)
    with B w' show ?thesis by (intro disjI1 exI [of _ e]) auto
  next
    case (Inr t)
    note f = Inr
    show ?thesis
    proof (cases "validateAndUpdateAmount Y t amount (w_store w)")
      case (Inl e)
      with B w' f show ?thesis by (intro disjI1 exI [of _ e]) auto
    next
      case (Inr t')
      with B f obtain w2 y where fin: "finalizeCommitment Y t' ref ?w0 = Some (w2, y)" by (auto split: option.splits)
      with B w' f Inr show ?thesis
        by (intro disjI2 exI [of _ ?w0] exI [of _ t] exI [of _ t'] exI [of _ w2] exI [of _ y]) (auto split: sum.splits option.splits)
    qed
  qed
qed simp

lemma void_inflight_cases:
  assumes "void_inflight Y q shadow tid ref w = Some (w', x)"
  shows "(\<exists>e. x = Inl e \<and> w_store w' = w_store w) \<or>
    (\<exists>w0 t l w1 y. w_store w0 = w_store w \<and> fetchAndValidateInflightTransaction Y q tid (w_store w) = Inr t \<and>
       calculateRemainingAmount Y t (w_store w) = Inr l \<and> l \<noteq> 0 \<and> finalizeVoidTransaction Y t l ref w0 = Some (w1, y) \<and>
       ((\<exists>e. y = Inl e \<and> x = Inl e \<and> w_store w' = w_store w1) \<or>
        (\<exists>c w2. y = Inr c \<and> x = Inr c \<and> shadow tid w1 = Some w2 \<and> w_store w' = w_store w2)))"
  using with_inflight_lock_cases [OF assms [unfolded void_inflight_def]]
proof (elim disjE exE conjE)
  fix r w1
  let ?w0 = "w\<lparr>w_redis := r\<rparr>"
  assume B: "(case fetchAndValidateInflightTransaction Y q tid (w_store ?w0) of
      Inl e \<Rightarrow> Some (?w0, Inl e)
    | Inr t \<Rightarrow> (case calculateRemainingAmount Y t (w_store ?w0) of
        Inl e \<Rightarrow> Some (?w0, Inl e)
      | Inr l \<Rightarrow> if l = 0 then Some (?w0, Inl (Errorf ''cannot void. Transaction already committed''))
        else (case finalizeVoidTransaction Y t l ref ?w0 of None \<Rightarrow> None
        | Some (w', Inl e) \<Rightarrow> Some (w', Inl e)
        | Some (w', Inr c) \<Rightarrow> (case shadow tid w' of None \<Rightarrow> None | Some w'' \<Rightarrow> Some (w'', Inr c))))) = Some (w1, x)"
    and w': "w_store w' = w_store w1"
  show ?thesis
  proof (cases "fetchAndValidateInflightTransaction Y q tid (w_store w)")
    case (Inl e)
    with B w' show ?thesis by (intro disjI1 exI [of _ e]) auto
  next
    case (Inr t)
    note f = Inr
    show ?thesis
    proof (cases "calculateRemainingAmount Y t (w_store w)")
      case (Inl e)
      with B w' f show ?thesis by (intro disjI1 exI [of _ e]) auto
    next
      case (Inr l)
      show ?thesis
      proof (cases "l = 0")
        case True
        with B w' f Inr show ?thesis by (intro disjI1) auto
      next
        case False
        with B f Inr obtain w2 y where fin: "finalizeVoidTransaction Y t l ref ?w0 = Some (w2, y)" by (auto split: option.splits)
        with B w' f Inr False show ?thesis
          by (intro disjI2 exI [of _ ?w0] exI [of _ t] exI [of _ l] exI [of _ w2] exI [of _ y]) (auto split: sum.splits option.splits)
      qed
    qed
  qed
qed simp

lemma commit_inflight_settles:
  assumes C: "commit_inflight Y q shadow tid amount ref w = Some (w', x)" and ok: "settled_with R (w_store w)" and u: "uuids_ok (y_env Y)"
    and sh: "\<And>R pid w w'. shadow pid w = Some w' \<Longrightarrow> settled_with R (w_store w) \<Longrightarrow> settled_with R (w_store w')"
  shows "settled_with R (w_store w')"
    and "ref \<noteq> [] \<Longrightarrow> (\<exists>e. x = Inl e) \<and> st_transactions (w_store w') = st_transactions (w_store w) \<or>
      ref \<notin> t_Reference ` set (st_transactions (w_store w)) \<and> settled_with (insert ref R) (w_store w')"
proof -
  consider (refused) e where "x = Inl e" "w_store w' = w_store w"
    | (ran) w0 w1 y t t' where "fetchAndValidateInflightTransaction Y q tid (w_store w0) = Inr t"
      "validateAndUpdateAmount Y t amount (w_store w0) = Inr t'" "finalizeCommitment Y t' ref w0 = Some (w1, y)" "w_store w0 = w_store w"
      "(\<exists>e. y = Inl e \<and> x = Inl e \<and> w_store w' = w_store w1) \<or>
       (\<exists>c w2. y = Inr c \<and> x = Inr c \<and> shadow tid w1 = Some w2 \<and> w_store w' = w_store w2)"
    using commit_inflight_cases [OF C] by metis
  then have "settled_with R (w_store w') \<and> (ref \<noteq> [] \<longrightarrow> (\<exists>e. x = Inl e) \<and> st_transactions (w_store w') = st_transactions (w_store w) \<or>
      ref \<notin> t_Reference ` set (st_transactions (w_store w)) \<and> settled_with (insert ref R) (w_store w'))"
  proof cases
    case refused
    with ok show ?thesis by simp
  next
    case ran
    then have ok0: "settled_with R (w_store w0)" using ok by simp
    note k = finalizeCommitment_keeps [OF ok0 u ran(1-3)]
    from ran(5) show ?thesis
    proof (elim disjE exE conjE)
      fix e
      assume "y = Inl e" "x = Inl e" "w_store w' = w_store w1"
      with k(1,2) ran show ?thesis by simp
    next
      fix c w2
      assume y: "y = Inr c" "x = Inr c" "shadow tid w1 = Some w2" "w_store w' = w_store w2"
      with sh [OF y(3)] k(1) k(3) [OF y(1)] ran show ?thesis by auto
    qed
  qed
  then show "settled_with R (w_store w')"
    and "ref \<noteq> [] \<Longrightarrow> (\<exists>e. x = Inl e) \<and> st_transactions (w_store w') = st_transactions (w_store w) \<or>
      ref \<notin> t_Reference ` set (st_transactions (w_store w)) \<and> settled_with (insert ref R) (w_store w')" by blast+
qed

lemma void_inflight_settles:
  assumes C: "void_inflight Y q shadow tid ref w = Some (w', x)" and ok: "settled_with R (w_store w)" and u: "uuids_ok (y_env Y)"
    and sh: "\<And>R pid w w'. shadow pid w = Some w' \<Longrightarrow> settled_with R (w_store w) \<Longrightarrow> settled_with R (w_store w')"
  shows "settled_with R (w_store w')"
    and "ref \<noteq> [] \<Longrightarrow> (\<exists>e. x = Inl e) \<and> st_transactions (w_store w') = st_transactions (w_store w) \<or>
      ref \<notin> t_Reference ` set (st_transactions (w_store w)) \<and> settled_with (insert ref R) (w_store w')"
proof -
  consider (refused) e where "x = Inl e" "w_store w' = w_store w"
    | (ran) w0 w1 y t l where "fetchAndValidateInflightTransaction Y q tid (w_store w0) = Inr t"
      "calculateRemainingAmount Y t (w_store w0) = Inr l" "l \<noteq> 0" "finalizeVoidTransaction Y t l ref w0 = Some (w1, y)" "w_store w0 = w_store w"
      "(\<exists>e. y = Inl e \<and> x = Inl e \<and> w_store w' = w_store w1) \<or>
       (\<exists>c w2. y = Inr c \<and> x = Inr c \<and> shadow tid w1 = Some w2 \<and> w_store w' = w_store w2)"
    using void_inflight_cases [OF C] by metis
  then have "settled_with R (w_store w') \<and> (ref \<noteq> [] \<longrightarrow> (\<exists>e. x = Inl e) \<and> st_transactions (w_store w') = st_transactions (w_store w) \<or>
      ref \<notin> t_Reference ` set (st_transactions (w_store w)) \<and> settled_with (insert ref R) (w_store w'))"
  proof cases
    case refused
    with ok show ?thesis by simp
  next
    case ran
    then have ok0: "settled_with R (w_store w0)" using ok by simp
    note k = finalizeVoid_keeps [OF ok0 u ran(1-4)]
    from ran(6) show ?thesis
    proof (elim disjE exE conjE)
      fix e
      assume "y = Inl e" "x = Inl e" "w_store w' = w_store w1"
      with k(1,2) ran show ?thesis by simp
    next
      fix c w2
      assume y: "y = Inr c" "x = Inr c" "shadow tid w1 = Some w2" "w_store w' = w_store w2"
      with sh [OF y(3)] k(1) k(3) [OF y(1)] ran show ?thesis by auto
    qed
  qed
  then show "settled_with R (w_store w')"
    and "ref \<noteq> [] \<Longrightarrow> (\<exists>e. x = Inl e) \<and> st_transactions (w_store w') = st_transactions (w_store w) \<or>
      ref \<notin> t_Reference ` set (st_transactions (w_store w)) \<and> settled_with (insert ref R) (w_store w')" by blast+
qed

lemma shadow_loop_keeps:
  assumes "shadow_loop act ts w = Some (w', f)" "P (w_store w)"
    and "\<And>t w w' x. act t w = Some (w', x) \<Longrightarrow> P (w_store w) \<Longrightarrow> P (w_store w')"
  shows "P (w_store w')"
  using assms by (induction ts arbitrary: w f) (fastforce split: option.splits)+

lemma InsertLineageOutbox_keeps:
  "settled_with R s \<Longrightarrow> settled_with R (fst (InsertLineageOutbox F o' s))"
  by (auto simp: settled_with_def InsertLineageOutbox_def outbox_insert_def store_ok_def holds_settled_def split: option.splits
      intro: holds_settled_same) (auto simp: hold_settled_def total_committed_def total_voided_def committed_children_def
      voided_children_def)

lemma queueShadowWork_keeps:
  assumes "queueShadowWork Y act kind pid w = Some w'" "settled_with R (w_store w)"
    and "\<And>t w w' x. act t w = Some (w', x) \<Longrightarrow> settled_with R (w_store w) \<Longrightarrow> settled_with R (w_store w')"
  shows "settled_with R (w_store w')"
proof -
  from assms(1) obtain w1 x where p: "process_shadows Y kind act pid w = Some (w1, x)"
    by (auto simp: queueShadowWork_def split: option.splits)
  then have "settled_with R (w_store w1)"
    using assms(2) shadow_loop_keeps [where P = "settled_with R", OF _ assms(2,3)]
    by (auto simp: process_shadows_def split: sum.splits option.splits)
  with assms(1) p InsertLineageOutbox_keeps show ?thesis by (auto simp: queueShadowWork_def split: sum.splits)
qed

lemma shadow_work_keeps:
  assumes "uuids_ok (y_env Y)"
  shows "shadow_work Y q n kind pid w = Some w' \<Longrightarrow> settled_with R (w_store w) \<Longrightarrow> settled_with R (w_store w')"
proof (induction n arbitrary: R pid w w')
  case (Suc n)
  show ?case
  proof (cases kind)
    case ShadowCommit
    note ih = Suc.IH [unfolded ShadowCommit]
    from Suc.prems(1) have "queueShadowWork Y (\<lambda>t. commit_inflight Y q (shadow_work Y q n ShadowCommit) (t_TransactionID t)
        (t_PreciseAmount t) []) ShadowCommit pid w = Some w'" by (simp add: ShadowCommit)
    then show ?thesis
      by (rule queueShadowWork_keeps [OF _ Suc.prems(2)]) (erule commit_inflight_settles(1) [OF _ _ assms ih])
  next
    case ShadowVoid
    note ih = Suc.IH [unfolded ShadowVoid]
    from Suc.prems(1) have "queueShadowWork Y (\<lambda>t. void_inflight Y q (shadow_work Y q n ShadowVoid) (t_TransactionID t)
        []) ShadowVoid pid w = Some w'" by (simp add: ShadowVoid)
    then show ?thesis
      by (rule queueShadowWork_keeps [OF _ Suc.prems(2)]) (erule void_inflight_settles(1) [OF _ _ assms ih])
  qed
qed simp

lemma CommitInflight_keeps:
  "CommitInflightTransactionWithRef Y q n tid amount ref w = Some (w', x) \<Longrightarrow> uuids_ok (y_env Y) \<Longrightarrow>
     settled_with R (w_store w) \<Longrightarrow> settled_with R (w_store w')"
  unfolding CommitInflightTransactionWithRef_def
  by (rule commit_inflight_settles(1)) (auto intro: shadow_work_keeps)

lemma VoidInflight_keeps:
  "VoidInflightTransactionWithRef Y q n tid ref w = Some (w', x) \<Longrightarrow> uuids_ok (y_env Y) \<Longrightarrow>
     settled_with R (w_store w) \<Longrightarrow> settled_with R (w_store w')"
  unfolding VoidInflightTransactionWithRef_def
  by (rule void_inflight_settles(1)) (auto intro: shadow_work_keeps)

lemma run_legs_keeps:
  assumes "\<And>leg w w' x. act leg w = Some (w', x) \<Longrightarrow> P (w_store w) \<Longrightarrow> P (w_store w')"
  shows "run_legs act legs lastErr w = Some (w', e) \<Longrightarrow> P (w_store w) \<Longrightarrow> P (w_store w')"
proof (induction legs arbitrary: lastErr w)
  case (Cons leg legs)
  then show ?case using assms [of leg w] by (fastforce split: option.splits sum.splits)
qed simp

lemma applyAction_keeps:
  "applyInflightActionToLeg Y q n leg action amount aid w = Some (w', x) \<Longrightarrow> uuids_ok (y_env Y) \<Longrightarrow>
     settled_with R (w_store w) \<Longrightarrow> settled_with R (w_store w')"
  by (auto simp: applyInflightActionToLeg_def Let_def split: if_splits intro: VoidInflight_keeps CommitInflight_keeps)

lemma RunInflightAction_keeps:
  assumes "RunInflightActionByParent Y q n pid action amount aid w = Some (w', rt, e)" "uuids_ok (y_env Y)"
    and "settled_with R (w_store w)"
  shows "settled_with R (w_store w')"
proof (cases "collectInflightLegs Y pid (w_store w)")
  case (Inr legs)
  show ?thesis
  proof (cases legs)
    case (Cons l ls)
    with assms(1) Inr obtain e' where
      "run_legs (\<lambda>leg. applyInflightActionToLeg Y q n leg action amount aid) legs None w = Some (w', e')"
      by (auto simp: RunInflightActionByParent_def split: option.splits)
    then show ?thesis
      by (rule run_legs_keeps [where P = "settled_with R", rotated]) (use assms(2,3) applyAction_keeps in auto)
  qed (use Inr assms in \<open>simp add: RunInflightActionByParent_def\<close>)
qed (use assms in \<open>simp add: RunInflightActionByParent_def\<close>)

lemma bulk_item_keeps:
  "bulk_item Y q n action item w = Some (w', out) \<Longrightarrow> uuids_ok (y_env Y) \<Longrightarrow>
     settled_with R (w_store w) \<Longrightarrow> settled_with R (w_store w')"
  by (auto simp: bulk_item_def Let_def CommitInflightTransaction_def VoidInflightTransaction_def
      split: BulkInflightAction.splits option.splits intro: VoidInflight_keeps CommitInflight_keeps)

lemma bulk_run_keeps:
  "bulk_run Y q n action items sched results w = Some (w', out) \<Longrightarrow> uuids_ok (y_env Y) \<Longrightarrow>
     settled_with R (w_store w) \<Longrightarrow> settled_with R (w_store w')"
proof (induction sched arbitrary: results w)
  case (Cons i sched)
  then show ?case using bulk_item_keeps [of Y q n action "items ! i" w] by (fastforce split: option.splits)
qed simp

lemma BulkInflightUpdate_keeps:
  "BulkInflightUpdate Y q n action items sched w = Some (w', x) \<Longrightarrow> uuids_ok (y_env Y) \<Longrightarrow>
     settled_with R (w_store w) \<Longrightarrow> settled_with R (w_store w')"
  by (auto simp: BulkInflightUpdate_def split: if_splits option.splits intro: bulk_run_keeps)

text \<open>
  Any sequence of inflight operations; each runs in one of the surroundings \<open>Es\<close>, a system with the
  queue it sees.
\<close>

inductive inflight_step :: "(('d, 'r, 'q) sys \<times> 'q) set \<Rightarrow> 'r world \<Rightarrow> 'r world \<Rightarrow> bool" for Es where
  commit: "(Y, q) \<in> Es \<Longrightarrow> CommitInflightTransactionWithRef Y q n tid amount ref w = Some (w', x) \<Longrightarrow> inflight_step Es w w'"
| void: "(Y, q) \<in> Es \<Longrightarrow> VoidInflightTransactionWithRef Y q n tid ref w = Some (w', x) \<Longrightarrow> inflight_step Es w w'"
| action: "(Y, q) \<in> Es \<Longrightarrow> RunInflightActionByParent Y q n pid act amount aid w = Some (w', rt, e) \<Longrightarrow> inflight_step Es w w'"
| bulk: "(Y, q) \<in> Es \<Longrightarrow> BulkInflightUpdate Y q n ba items sched w = Some (w', out) \<Longrightarrow> inflight_step Es w w'"

lemma inflight_step_keeps:
  assumes "inflight_step Es w w'" "\<forall>(Y, q) \<in> Es. uuids_ok (y_env Y)" "settled_with R (w_store w)"
  shows "settled_with R (w_store w')"
  using assms(1)
proof cases
  case (commit Y q n tid amount ref x)
  then have "uuids_ok (y_env Y)" using assms(2) by blast
  from CommitInflight_keeps [OF commit(2) this assms(3)] show ?thesis .
next
  case (void Y q n tid ref x)
  then have "uuids_ok (y_env Y)" using assms(2) by blast
  from VoidInflight_keeps [OF void(2) this assms(3)] show ?thesis .
next
  case (action Y q n pid act amount aid rt e)
  then have "uuids_ok (y_env Y)" using assms(2) by blast
  from RunInflightAction_keeps [OF action(2) this assms(3)] show ?thesis .
next
  case (bulk Y q n ba items sched out)
  then have "uuids_ok (y_env Y)" using assms(2) by blast
  from BulkInflightUpdate_keeps [OF bulk(2) this assms(3)] show ?thesis .
qed

lemma inflight_steps_keep:
  assumes "(inflight_step Es)\<^sup>*\<^sup>* w w'" "\<forall>(Y, q) \<in> Es. uuids_ok (y_env Y)" "settled_with R (w_store w)"
  shows "settled_with R (w_store w')"
  using assms(1,3) by (induction rule: rtranclp_induct) (auto intro: inflight_step_keeps [OF _ assms(2)])

subsection \<open>Refusals\<close>

lemma settled_refused:
  assumes "store_ok (w_store w)" "t \<in> set (st_transactions (w_store w))"
    and "voided_children (t_TransactionID t) (w_store w) \<noteq> [] \<or>
         total_committed (t_TransactionID t) (w_store w) = or0 (t_PreciseAmount t)"
  shows "\<exists>w' e. commit_inflight Y q shadow (t_TransactionID t) amount ref w = Some (w', Inl e) \<and> w_store w' = w_store w"
    and "\<exists>w' e. void_inflight Y q shadow (t_TransactionID t) ref w = Some (w', Inl e) \<and> w_store w' = w_store w"
proof -
  let ?s = "w_store w" and ?tid = "t_TransactionID t"
  have same: "row = t" if "row \<in> set (st_transactions ?s)" "t_TransactionID row = ?tid" for row
    using that assms(1,2) by (auto simp: store_ok_def distinct_map dest: inj_onD)
  have rem: "\<not> (fetchAndValidateInflightTransaction Y q ?tid ?s = Inr u \<and> calculateRemainingAmount Y u ?s = Inr l \<and> l \<noteq> 0)" for u l
  proof
    assume h: "fetchAndValidateInflightTransaction Y q ?tid ?s = Inr u \<and> calculateRemainingAmount Y u ?s = Inr l \<and> l \<noteq> 0"
    obtain row where row: "row \<in> set (st_transactions ?s)" "t_TransactionID row = ?tid"
      "u = row\<lparr>t_ScheduledFor := 0, t_EffectiveDate := None\<rparr>" "voided_children ?tid ?s = []"
      using fetch_row [of Y q ?tid ?s u] h by metis
    with remaining_eq [of Y u ?s l] h same [OF row(1,2)] assms(3) show False by auto
  qed
  have c: "\<exists>e. validateAndUpdateAmount Y u amount ?s = Inl e" if "fetchAndValidateInflightTransaction Y q ?tid ?s = Inr u" for u
  proof (cases "calculateRemainingAmount Y u ?s")
    case (Inr l)
    with rem [of u l] that have "l = 0" by blast
    with Inr show ?thesis by (simp add: validateAndUpdateAmount_def checkTransactionCommitStatus_def)
  qed (simp add: validateAndUpdateAmount_def)
  show "\<exists>w' e. commit_inflight Y q shadow ?tid amount ref w = Some (w', Inl e) \<and> w_store w' = ?s"
  proof (cases "fetchAndValidateInflightTransaction Y q ?tid ?s")
    case (Inr u)
    with c [OF Inr] show ?thesis
      by (auto simp: commit_inflight_def with_inflight_lock_def Let_def split: prod.splits sum.splits)
  qed (auto simp: commit_inflight_def with_inflight_lock_def Let_def split: prod.splits sum.splits)
  show "\<exists>w' e. void_inflight Y q shadow ?tid ref w = Some (w', Inl e) \<and> w_store w' = ?s"
  proof (cases "fetchAndValidateInflightTransaction Y q ?tid ?s")
    case (Inr u)
    with rem [of u] show ?thesis
      by (cases "calculateRemainingAmount Y u ?s")
         (auto simp: void_inflight_def with_inflight_lock_def Let_def split: prod.splits sum.splits)
  qed (auto simp: void_inflight_def with_inflight_lock_def Let_def split: prod.splits sum.splits)
qed

lemma collect_from_all:
  assumes "\<forall>p. \<not> F p" "0 < b"
  shows "collect_from F pid b off s = Inr (drop off (legs_of pid s))"
proof (induction "length (legs_of pid s) - off" arbitrary: off rule: less_induct)
  case less
  let ?L = "legs_of pid s"
  have g: "GetInflightTransactionsByParentID F pid b off s = Inr (take b (drop off ?L))"
    using assms(1) by (simp add: GetInflightTransactionsByParentID_def)
  show ?case
  proof (cases "length ?L - off < b")
    case True
    then show ?thesis using g by (subst collect_from.simps) simp
  next
    case False
    with assms(2) have "length ?L - (off + b) < length ?L - off" by simp
    from less [OF this] g False have "collect_from F pid b off s = Inr (take b (drop off ?L) @ drop (off + b) ?L)"
      using assms(2) by (subst collect_from.simps) (simp add: min_def)
    then show ?thesis by (metis add.commute append_take_drop_id drop_drop)
  qed
qed

text \<open>The given reference of a child: a success adds it, and it cannot be used again.\<close>

lemma applyAction_ref:
  assumes "applyInflightActionToLeg Y q n leg action amount aid w = Some (w', x)" "settled_with R (w_store w)"
    and "uuids_ok (y_env Y)" "aid \<noteq> []" and ref: "ref = inflightActionReference (t_TransactionID leg) action aid"
  shows "(\<exists>e. x = Inl e) \<and> st_transactions (w_store w') = st_transactions (w_store w) \<or>
    ref \<notin> t_Reference ` set (st_transactions (w_store w)) \<and> settled_with (insert ref R) (w_store w')"
proof -
  have ne: "ref \<noteq> []" using ref assms(4) by (simp add: inflightActionReference_def)
  show ?thesis
  proof (cases "action = InflightActionVoid")
    case True
    then have "void_inflight Y q (shadow_work Y q n ShadowVoid) (t_TransactionID leg) ref w = Some (w', x)"
      using assms(1) ref by (simp add: applyInflightActionToLeg_def VoidInflightTransactionWithRef_def Let_def)
    then show ?thesis by (rule void_inflight_settles(2) [OF _ assms(2,3) _ ne]) (rule shadow_work_keeps [OF assms(3)])
  next
    case False
    then have "commit_inflight Y q (shadow_work Y q n ShadowCommit) (t_TransactionID leg) amount ref w = Some (w', x)"
      using assms(1) ref by (simp add: applyInflightActionToLeg_def CommitInflightTransactionWithRef_def Let_def)
    then show ?thesis by (rule commit_inflight_settles(2) [OF _ assms(2,3) _ ne]) (rule shadow_work_keeps [OF assms(3)])
  qed
qed

lemma action_twice:
  assumes "applyInflightActionToLeg Y q n leg action amount aid w = Some (w1, Inr c)" "aid \<noteq> []"
    and "(inflight_step Es)\<^sup>*\<^sup>* w1 w2" "\<forall>(Y, q) \<in> Es. uuids_ok (y_env Y)" "uuids_ok (y_env Y)" "uuids_ok (y_env Y')"
    and "holds_settled (w_store w)"
    and "applyInflightActionToLeg Y' q' n' leg action amount' aid w2 = Some (w3, x)"
  shows "(\<exists>e. x = Inl e) \<and> st_transactions (w_store w3) = st_transactions (w_store w2)"
proof -
  let ?ref = "inflightActionReference (t_TransactionID leg) action aid"
  have "settled_with {} (w_store w)" using assms(7) by (simp add: settled_with_def)
  from applyAction_ref [OF assms(1) this assms(5,2) refl] have "settled_with {?ref} (w_store w1)" by auto
  from inflight_steps_keep [OF assms(3,4) this] have w2: "settled_with {?ref} (w_store w2)" .
  then have "?ref \<in> t_Reference ` set (st_transactions (w_store w2))" by (simp add: settled_with_def)
  with applyAction_ref [OF assms(8) w2 assms(6,2) refl] show ?thesis by blast
qed

subsection \<open>Progress\<close>

text \<open>
  An inflight row whose two balances hold at least its remaining amount can be committed, in full
  or in part: the locks are free, nothing fails, the generated id is new and there are no shadows.
\<close>

definition committable :: "('d, 'r, 'q) sys \<Rightarrow> Transaction \<Rightarrow> 'r world \<Rightarrow> bool" where
  "committable Y t w \<longleftrightarrow> quiet (y_env Y) \<and> \<not> e_EnableQueuedChecks (y_env Y) \<and> holds_settled (w_store w) \<and>
     t \<in> set (st_transactions (w_store w)) \<and> t_Status t = StatusInflight \<and>
     voided_children (t_TransactionID t) (w_store w) = [] \<and>
     \<not> has_prefix (t_Source t) ''@'' \<and> \<not> has_prefix (t_Destination t) ''@'' \<and> t_Source t \<noteq> t_Destination t \<and>
     fresh_uuid Y ''txn'' (w_store w) \<notin> t_TransactionID ` set (st_transactions (w_store w)) \<and>
     fresh_uuid Y ''txn'' (w_store w) \<notin> o_TransactionID ` set (st_outbox (w_store w)) \<and>
     (\<forall>k \<in> {t_Source t, t_Destination t, ''inflight-commit:'' @ t_TransactionID t}. kv (e_R (y_env Y)) (w_redis w) k = None) \<and>
     ''inflight-commit:'' @ t_TransactionID t \<notin> {t_Source t, t_Destination t} \<and>
     (\<forall>u \<in> set (st_transactions (w_store w)). meta_text (t_MetaData u) ''_shadow_for'' \<noteq> Some (t_TransactionID t)) \<and>
     meta_text (t_MetaData t) ''_shadow_for'' \<noteq> Some (t_TransactionID t)"

lemma apply_commit_runs:
  assumes dp: "decimal_pkg (e_D E) val" and q: "quiet E" and cfg: "\<not> e_EnableQueuedChecks E"
    and ids: "\<not> has_prefix (t_Source c) ''@''" "\<not> has_prefix (t_Destination c) ''@''" "t_Source c \<noteq> t_Destination c"
    and rs: "find_balance (t_Source c) s = Some rs" and rd: "find_balance (t_Destination c) s = Some rd"
    and fresh: "t_TransactionID c \<notin> t_TransactionID ` set (st_transactions s)"
      "t_Reference c \<notin> t_Reference ` set (st_transactions s)" "t_TransactionID c \<notin> o_TransactionID ` set (st_outbox s)"
    and c: "t_Status c = StatusCommit" "t_PreciseAmount c = Some a" "0 < a"
    and held: "a \<le> idr rs" "a \<le> icr rd"
  shows "\<exists>s' t'. record_locked E c s = (s', Inr t') \<and> t_MetaData t' = t_MetaData c"
proof -
  let ?c = "c\<lparr>t_Source := t_Source c, t_Destination := t_Destination c\<rparr>"
  let ?t1 = "ApplyPrecision (e_D E) ?c"
  let ?t2 = "ApplyPrecision (e_D E) ?t1"
  have p1: "t_PreciseAmount ?t1 = Some a" using c ApplyPrecision_pos [of ?c a] by simp
  have p2: "t_PreciseAmount ?t2 = Some a" using p1 c(3) ApplyPrecision_pos [of ?t1 a] by simp
  obtain am where am: "parse_decimal (t_AmountString ?t2) = Some am" using AmountString_parses [OF dp p1 c(3)] by auto
  let ?h = "two_balances (lite rs) (lite rd)"
  have "applyTransactionToBalances (e_D E) ?c True False ?h =
      Inr (?t2, ?h(True := settle_debit a (lite rs), False := settle_credit a (lite rd)))"
    using c held p1 by (subst apply_commit) (simp_all add: two_balances_def Let_def)
  from record_locked_persists [OF q cfg ids rs rd fresh this p2 _ am] c(3) show ?thesis
    by (auto simp: updateTransactionDetails_def)
qed

lemma Lock_keeps_others:
  assumes "redis_laws R" "setnx_answers R" "0 < d" "kv R r (lk_key l) = None"
  obtains r' where "Lock R l d r = (r', Inr ())" "\<forall>k. k \<noteq> lk_key l \<longrightarrow> kv R r' k = kv R r k"
proof -
  obtain r' b where S: "SetNX R (lk_key l) (lk_value l) d r = (r', Inr b)"
    using assms(2,3) unfolding setnx_answers_def by (metis surj_pair)
  from redis_laws.setnx [OF assms(1,3) S] assms(4) have "b" "kv R r' = (kv R r)(lk_key l \<mapsto> lk_value l)" by auto
  with S that [of r'] show ?thesis by (simp add: Lock_def)
qed

lemma no_shadows_work:
  assumes "\<forall>p. \<not> y_F Y p" "\<forall>u \<in> set (st_transactions (w_store w)). meta_text (t_MetaData u) ''_shadow_for'' \<noteq> Some pid"
  shows "shadow_work Y q (Suc n) kind pid w = Some w"
proof -
  have "GetTransactionsByShadowFor (y_F Y) pid (w_store w) = Inr []"
    using assms by (simp add: GetTransactionsByShadowFor_def filter_empty_conv)
  then show ?thesis by (cases kind) (simp_all add: queueShadowWork_def process_shadows_def)
qed

lemma fetch_succeeds:
  assumes "\<forall>p. \<not> y_F Y p" "store_ok s" "t \<in> set (st_transactions s)" "t_Status t = StatusInflight"
    and "voided_children (t_TransactionID t) s = []"
  shows "fetchAndValidateInflightTransaction Y q (t_TransactionID t) s = Inr (t\<lparr>t_ScheduledFor := 0, t_EffectiveDate := None\<rparr>)"
proof -
  have "find_row t_TransactionID (t_TransactionID t) (st_transactions s) = Some t"
    using assms(2,3) by (intro find_row_mem) (simp_all add: store_ok_def)
  with assms show ?thesis
    by (auto simp: fetchAndValidateInflightTransaction_def GetTransaction_def validate_inflight_def IsInflightTransaction_def
        IsParentTransactionVoid_def voided_children_def filter_empty_conv)
qed

lemma update_succeeds:
  assumes "\<forall>p. \<not> y_F Y p" "t_PreciseAmount t = Some p" "0 \<le> amount"
    and "a = (if amount = 0 then p - total_committed (t_TransactionID t) s else amount)"
    and "0 < a" "a \<le> p - total_committed (t_TransactionID t) s" "0 \<le> total_committed (t_TransactionID t) s"
  shows "\<exists>t'. validateAndUpdateAmount Y t (Some amount) s = Inr t' \<and> t_PreciseAmount t' = Some a \<and> t_MetaData t' = t_MetaData t \<and>
    t_TransactionID t' = t_TransactionID t \<and> t_Source t' = t_Source t \<and> t_Destination t' = t_Destination t \<and> t_Inflight t' = t_Inflight t"
  using assms by (cases "amount = 0") (auto simp: validateAndUpdateAmount_def calculateRemainingAmount_def GetTotalCommittedTransactions_def
      checkTransactionCommitStatus_def validateRequestedAmount_def updateTransactionAmount_def)

lemma commit_succeeds:
  assumes dp: "decimal_pkg (e_D (y_env Y)) val" and u: "uuids_ok (y_env Y)" and C: "committable Y t w"
    and p: "t_PreciseAmount t = Some p" and k: "k = total_committed (t_TransactionID t) (w_store w)" "0 \<le> k"
    and a: "0 \<le> amount" "a = (if amount = 0 then p - k else amount)" "0 < a" "a \<le> p - k"
    and ref: "(if ref \<noteq> [] then ref else fresh_uuid Y ''ref'' (w_store w)) \<notin> t_Reference ` set (st_transactions (w_store w))"
    and rs: "find_balance (t_Source t) (w_store w) = Some rs" "a \<le> idr rs"
    and rd: "find_balance (t_Destination t) (w_store w) = Some rd" "a \<le> icr rd"
  shows "\<exists>w' c. CommitInflightTransactionWithRef Y q (Suc n) (t_TransactionID t) (Some amount) ref w = Some (w', Inr c) \<and>
    t_PreciseAmount c = Some a \<and> t_Status c = StatusApplied \<and> t_ParentTransaction c = t_TransactionID t \<and>
    (\<exists>am. st_transactions (w_store w') = st_transactions (w_store w) @ [row_of c am])"
proof -
  let ?E = "y_env Y" and ?s = "w_store w" and ?tid = "t_TransactionID t"
  let ?l = "NewLocker (''inflight-commit:'' @ ?tid) (e_uuid ?E ''loc'')"
  have c: "quiet ?E" "\<not> e_EnableQueuedChecks ?E" "holds_settled ?s" "t \<in> set (st_transactions ?s)" "t_Status t = StatusInflight"
    "voided_children ?tid ?s = []" "\<not> has_prefix (t_Source t) ''@''" "\<not> has_prefix (t_Destination t) ''@''"
    "t_Source t \<noteq> t_Destination t" using C by (simp_all add: committable_def)
  have sok: "store_ok ?s" and ni: "\<not> t_Inflight t" using c(3,4) by (auto simp: holds_settled_def)
  have F: "\<forall>p. \<not> y_F Y p" and rl: "redis_laws (e_R ?E)" "setnx_answers (e_R ?E)" "0 < e_LockDuration ?E"
    using c(1) by (simp_all add: quiet_def)
  obtain r1 where L: "Lock (e_R ?E) ?l (e_LockDuration ?E) (w_redis w) = (r1, Inr ())"
    and ko: "\<forall>k. k \<noteq> lk_key ?l \<longrightarrow> kv (e_R ?E) r1 k = kv (e_R ?E) (w_redis w) k"
    using Lock_keeps_others [OF rl, of "w_redis w" ?l] C by (auto simp: committable_def NewLocker_def)
  let ?w1 = "w\<lparr>w_redis := r1\<rparr>" and ?t0 = "t\<lparr>t_ScheduledFor := 0, t_EffectiveDate := None\<rparr>"
  note f = fetch_succeeds [OF F sok c(4,5,6), of q]
  have "\<exists>t'. validateAndUpdateAmount Y ?t0 (Some amount) ?s = Inr t' \<and> t_PreciseAmount t' = Some a \<and> t_MetaData t' = t_MetaData ?t0 \<and>
    t_TransactionID t' = t_TransactionID ?t0 \<and> t_Source t' = t_Source ?t0 \<and> t_Destination t' = t_Destination ?t0 \<and> t_Inflight t' = t_Inflight ?t0"
    by (rule update_succeeds [OF F]) (use p k a in auto)
  then obtain t1 where v: "validateAndUpdateAmount Y ?t0 (Some amount) ?s = Inr t1" and t1: "t_PreciseAmount t1 = Some a"
    "t_MetaData t1 = t_MetaData t" "t_TransactionID t1 = ?tid" "t_Source t1 = t_Source t" "t_Destination t1 = t_Destination t"
    "\<not> t_Inflight t1" using ni by auto
  let ?c = "child_of Y StatusCommit ref ?s t1"
  have md: "t_MetaData ?c = t_MetaData t" using t1 by (simp add: child_of_def Let_def)
  obtain s' t' where R: "record_locked ?E ?c ?s = (s', Inr t')" "t_MetaData t' = t_MetaData t"
    using apply_commit_runs [OF dp c(1,2), of ?c ?s rs rd a] c t1 rs rd a ref C md by (auto simp: committable_def)
  have "\<exists>r. RecordTransaction ?E ?c ?w1 = Some (\<lparr>w_store = s', w_redis = r\<rparr>, Inr t')"
    by (rule RecordTransaction_locked [OF c(1)]) (use c t1 R ko C in \<open>auto simp: committable_def NewLocker_def\<close>)
  then obtain r2 where RT: "RecordTransaction ?E ?c ?w1 = Some (\<lparr>w_store = s', w_redis = r2\<rparr>, Inr t')" by blast
  have "settled_with {} (w_store ?w1)" using c(3) by (simp add: settled_with_def)
  from settle_child(3) [OF this u, of t p ?c a, OF _ _ _ _ _ _ _ _ _ _ RT]
  have t': "t_PreciseAmount t' = Some a \<and> t_ParentTransaction t' = ?tid \<and> t_Status t' = StatusApplied \<and>
      (\<exists>am. st_transactions s' = st_transactions ?s @ [row_of t' am])"
    using c p k t1 a by (simp add: IsInflightTransaction_def)
  have "shadow_work Y q (Suc n) ShadowCommit ?tid \<lparr>w_store = s', w_redis = r2\<rparr> = Some \<lparr>w_store = s', w_redis = r2\<rparr>"
    using t' R(2) C by (intro no_shadows_work [OF F]) (auto simp: committable_def row_of_def)
  with L f v RT have "CommitInflightTransactionWithRef Y q (Suc n) ?tid (Some amount) ref w =
      Some (\<lparr>w_store = s', w_redis = fst (Unlock (e_R ?E) ?l r2)\<rparr>, Inr t')"
    by (simp add: CommitInflightTransactionWithRef_def commit_inflight_def with_inflight_lock_def finalizeCommitment_def
        wrap_record_def Let_def del: shadow_work.simps)
  with t' show ?thesis by (metis world.select_convs(1))
qed

subsection \<open>A small world with one hold\<close>

definition ex_sys :: "(rat, rstore, task list) sys" where
  "ex_sys = \<lparr>y_env = ex_env, y_Q = list_queue, y_cfg = ex_queue_cfg, y_BatchSize = 2, y_H = id\<rparr>"

definition ex_hold :: Transaction where
  "ex_hold = ex_txn\<lparr>t_Status := StatusInflight\<rparr>"

definition ex_held_world :: "rstore world" where
  "ex_held_world = \<lparr>w_store = \<lparr>st_balances = [(ex_row ''bln_a'' 1000)\<lparr>b_InflightDebitBalance := Some 250, b_InflightBalance := Some (- 250)\<rparr>,
       (ex_row ''bln_b'' 0)\<lparr>b_InflightCreditBalance := Some 250, b_InflightBalance := Some 250\<rparr>],
       st_transactions = [ex_hold], st_outbox = [], st_ledgers = []\<rparr>, w_redis = \<lparr>rs_now = 0, rs_map = Map.empty\<rparr>\<rparr>"

lemma ex_held_children [simp]: "total_committed tid (w_store ex_held_world) = 0" "voided_children tid (w_store ex_held_world) = []"
  by (simp_all add: total_committed_def committed_children_def voided_children_def ex_held_world_def ex_hold_def)

lemma ex_held_ok: "holds_settled (w_store ex_held_world)"
proof -
  have "store_ok (w_store ex_held_world)"
    by (auto simp: store_ok_def ex_held_world_def ex_row_def row_ok_def holds_ok_def consistent_def initialised_def
        InitializeBalanceFields_def zero_Balance_def ex_hold_def ex_txn_def)
  then show ?thesis
    by (simp add: holds_settled_def hold_settled_def total_voided_def)
       (simp add: ex_held_world_def ex_hold_def ex_txn_def zero_Transaction_def)
qed

lemma ex_committable: "committable ex_sys ex_hold ex_held_world"
  unfolding committable_def
  using ex_env_ok ex_held_ok
  by (simp add: ex_sys_def) (simp add: ex_held_world_def ex_hold_def ex_txn_def zero_Transaction_def has_prefix_def fresh_uuid_def
      ex_env_def kv_def rs_get_def meta_text_def meta_get_def)

lemma ex_commit:
  assumes "0 \<le> amount" "amount \<le> 250" "ref \<noteq> ''ref_1''"
  shows "\<exists>w' c. CommitInflightTransactionWithRef ex_sys q (Suc n) ''txn_1'' (Some amount) ref ex_held_world = Some (w', Inr c) \<and>
    t_PreciseAmount c = Some (if amount = 0 then 250 else amount) \<and> t_Status c = StatusApplied \<and> t_ParentTransaction c = ''txn_1'' \<and>
    (\<exists>am. st_transactions (w_store w') = st_transactions (w_store ex_held_world) @ [row_of c am])"
proof -
  have "t_TransactionID ex_hold = ''txn_1''" by (simp add: ex_hold_def ex_txn_def)
  moreover have "decimal_pkg (e_D (y_env ex_sys)) (\<lambda>x. x)" "uuids_ok (y_env ex_sys)" using ex_env_ok by (simp_all add: ex_sys_def)
  ultimately show ?thesis
    using commit_succeeds [OF _ _ ex_committable, of "\<lambda>x. x" 250 0 amount "if amount = 0 then 250 else amount" ref
        "(ex_row ''bln_a'' 1000)\<lparr>b_InflightDebitBalance := Some 250, b_InflightBalance := Some (- 250)\<rparr>"
        "(ex_row ''bln_b'' 0)\<lparr>b_InflightCreditBalance := Some 250, b_InflightBalance := Some 250\<rparr>" q n] assms
    by (auto simp: ex_held_world_def ex_hold_def ex_txn_def find_balance_def ex_row_def fresh_uuid_def ex_sys_def ex_env_def
        total_committed_def committed_children_def)
qed

section \<open>Properties\<close>

text \<open>
  C4: A hold is settled at most once. However many commits, partial commits, voids, queued actions
  and bulk updates run one after the other, and whichever of their calls fail, for every inflight
  transaction the amounts committed and voided never add up to more than the amount held; and once a
  hold is voided they add up to exactly it. Shadow transactions follow the same rule.
\<close>

theorem hold_settled_at_most_once:
  assumes "(inflight_step Es)\<^sup>*\<^sup>* w w'" "\<forall>(Y, q) \<in> Es. uuids_ok (y_env Y)" "holds_settled (w_store w)"
    and "t \<in> set (st_transactions (w_store w'))" "IsInflightTransaction t"
  shows "total_committed (t_TransactionID t) (w_store w') + total_voided (t_TransactionID t) (w_store w') \<le> or0 (t_PreciseAmount t) \<and>
    (voided_children (t_TransactionID t) (w_store w') \<noteq> [] \<longrightarrow>
     total_committed (t_TransactionID t) (w_store w') + total_voided (t_TransactionID t) (w_store w') = or0 (t_PreciseAmount t))"
  using inflight_steps_keep [OF assms(1,2), of "{}"] assms(3-)
  by (auto simp: settled_with_def holds_settled_def hold_settled_def)

theorem hold_settled_at_most_once_witness:
  "\<exists>w'. (inflight_step {(ex_sys, [])})\<^sup>*\<^sup>* ex_held_world w' \<and> ex_hold \<in> set (st_transactions (w_store w')) \<and>
     total_committed ''txn_1'' (w_store w') = 100 \<and> total_committed ''txn_1'' (w_store w') + total_voided ''txn_1'' (w_store w') \<le> 250"
proof -
  obtain w' c am where C: "CommitInflightTransactionWithRef ex_sys [] (Suc 0) ''txn_1'' (Some 100) ''r'' ex_held_world = Some (w', Inr c)"
    and c: "t_PreciseAmount c = Some 100" "t_Status c = StatusApplied" "t_ParentTransaction c = ''txn_1''"
      "st_transactions (w_store w') = st_transactions (w_store ex_held_world) @ [row_of c am]"
    using ex_commit [of 100 "''r''" "[]" 0] by auto
  have S: "(inflight_step {(ex_sys, [])})\<^sup>*\<^sup>* ex_held_world w'" by (rule r_into_rtranclp, rule inflight_step.commit [OF _ C]) simp
  have t: "ex_hold \<in> set (st_transactions (w_store w'))" "IsInflightTransaction ex_hold" "t_TransactionID ex_hold = ''txn_1''"
    "t_PreciseAmount ex_hold = Some 250"
    using c by (simp_all add: ex_held_world_def IsInflightTransaction_def ex_hold_def ex_txn_def)
  have "total_committed ''txn_1'' (w_store w') = total_committed ''txn_1'' (w_store ex_held_world) + 100"
    using c by (simp add: total_committed_def committed_children_def)
  with hold_settled_at_most_once [OF S _ ex_held_ok t(1,2)] t S ex_env_ok show ?thesis by (auto simp: ex_sys_def)
qed

text \<open>
  C33: Nothing is left to do on a settled hold. When an inflight transaction has been voided, or what
  was committed of it equals its amount, a further commit of any amount and a further void return an
  error and leave every table as it was, whatever the database, Redis and the queue answer.
\<close>

theorem settled_hold_refused:
  assumes "store_ok (w_store w)" "t \<in> set (st_transactions (w_store w))"
    and "voided_children (t_TransactionID t) (w_store w) \<noteq> [] \<or>
         total_committed (t_TransactionID t) (w_store w) = or0 (t_PreciseAmount t)"
  shows "(\<exists>w' e. CommitInflightTransactionWithRef Y q n (t_TransactionID t) amount ref w = Some (w', Inl e) \<and> w_store w' = w_store w) \<and>
         (\<exists>w' e. VoidInflightTransactionWithRef Y q n (t_TransactionID t) ref w = Some (w', Inl e) \<and> w_store w' = w_store w)"
  unfolding CommitInflightTransactionWithRef_def VoidInflightTransactionWithRef_def
  by (intro conjI settled_refused [OF assms])

theorem settled_hold_refused_witness:
  "\<exists>w1 w2 c e. CommitInflightTransactionWithRef ex_sys [] 1 ''txn_1'' (Some 0) [] ex_held_world = Some (w1, Inr c) \<and>
     VoidInflightTransactionWithRef ex_sys [] 1 ''txn_1'' [] w1 = Some (w2, Inl e) \<and> w_store w2 = w_store w1"
proof -
  obtain w1 c am where C: "CommitInflightTransactionWithRef ex_sys [] (Suc 0) ''txn_1'' (Some 0) [] ex_held_world = Some (w1, Inr c)"
    and c: "t_PreciseAmount c = Some 250" "t_Status c = StatusApplied" "t_ParentTransaction c = ''txn_1''"
      "st_transactions (w_store w1) = st_transactions (w_store ex_held_world) @ [row_of c am]"
    using ex_commit [of 0 "[]" "[]" 0] by auto
  have "total_committed ''txn_1'' (w_store w1) = total_committed ''txn_1'' (w_store ex_held_world) + 250"
    using c by (simp add: total_committed_def committed_children_def)
  moreover have "store_ok (w_store w1)"
    using CommitInflight_keeps [OF C, of "{}"] ex_held_ok ex_env_ok by (simp add: settled_with_def holds_settled_def ex_sys_def)
  moreover have "ex_hold \<in> set (st_transactions (w_store w1))" using c(4) by (simp add: ex_held_world_def)
  ultimately show ?thesis
    using settled_hold_refused [of w1 ex_hold ex_sys "[]" 1 _ "[]"] C by (simp add: ex_hold_def ex_txn_def)
qed



text \<open>
  C27: A retried action does nothing twice. The reference of a leg is a function of the leg, the action and
  the action id; after an action has been applied to a leg, applying the same action again, in any
  surroundings and after any further inflight operations, returns an error and adds no transaction.
\<close>

theorem inflight_action_idempotent:
  assumes "applyInflightActionToLeg Y q n leg action amount aid w = Some (w1, Inr c)" "aid \<noteq> []"
    and "(inflight_step Es)\<^sup>*\<^sup>* w1 w2" "\<forall>(Y, q) \<in> Es. uuids_ok (y_env Y)" "uuids_ok (y_env Y)" "uuids_ok (y_env Y')"
    and "holds_settled (w_store w)"
    and "applyInflightActionToLeg Y' q' n' leg action amount' aid w2 = Some (w3, x)"
  shows "(\<exists>e. x = Inl e) \<and> st_transactions (w_store w3) = st_transactions (w_store w2)"
  using action_twice [OF assms] .

theorem inflight_action_idempotent_witness:
  "\<exists>w1 w2 c e. applyInflightActionToLeg ex_sys [] (Suc 0) ex_hold ''commit'' (Some 0) ''act_1'' ex_held_world = Some (w1, Inr c) \<and>
     applyInflightActionToLeg ex_sys [] (Suc 0) ex_hold ''commit'' (Some 0) ''act_1'' w1 = Some (w2, Inl e) \<and>
     st_transactions (w_store w2) = st_transactions (w_store w1)"
proof -
  have id: "t_TransactionID ex_hold = ''txn_1''" "t_PreciseAmount ex_hold = Some 250" by (simp_all add: ex_hold_def ex_txn_def)
  have run: "applyInflightActionToLeg ex_sys [] (Suc 0) ex_hold ''commit'' (Some 0) ''act_1'' w =
      CommitInflightTransactionWithRef ex_sys [] (Suc 0) ''txn_1'' (Some 0) ''txn_1_commit_act_1'' w" for w
    by (simp add: applyInflightActionToLeg_def inflightActionReference_def InflightActionVoid_def id)
  obtain w1 c am where C: "applyInflightActionToLeg ex_sys [] (Suc 0) ex_hold ''commit'' (Some 0) ''act_1'' ex_held_world = Some (w1, Inr c)"
    and c: "t_PreciseAmount c = Some 250" "t_Status c = StatusApplied" "t_ParentTransaction c = ''txn_1''"
      "st_transactions (w_store w1) = st_transactions (w_store ex_held_world) @ [row_of c am]"
    using ex_commit [of 0 "''txn_1_commit_act_1''" "[]" 0] by (auto simp: run)
  have u: "uuids_ok (y_env ex_sys)" using ex_env_ok by (simp add: ex_sys_def)
  have "total_committed ''txn_1'' (w_store w1) = total_committed ''txn_1'' (w_store ex_held_world) + 250"
    using c by (simp add: total_committed_def committed_children_def)
  moreover have "store_ok (w_store w1)"
    using CommitInflight_keeps [OF C [unfolded run] u, of "{}"] ex_held_ok by (simp add: settled_with_def holds_settled_def)
  moreover have "ex_hold \<in> set (st_transactions (w_store w1))" using c(4) by (simp add: ex_held_world_def)
  ultimately obtain w2 x where D: "applyInflightActionToLeg ex_sys [] (Suc 0) ex_hold ''commit'' (Some 0) ''act_1'' w1 = Some (w2, x)"
    using settled_refused(1) [of w1 ex_hold] unfolding run CommitInflightTransactionWithRef_def by (fastforce simp: id)
  from inflight_action_idempotent [OF C _ rtranclp.rtrancl_refl [of "inflight_step {}"] _ u u ex_held_ok D] C D show ?thesis by auto
qed

text \<open>
  Paging is invisible. Whatever the configured batch size, when no query fails
  \<open>collectInflightLegs\<close> ends and returns exactly the legs the query ranges over, each once and
  newest first: the inflight rows of the parent if there are any, otherwise its queued ones.
\<close>

lemma collect_inflight_legs_complete:
  assumes "\<forall>p. \<not> y_F Y p"
  shows "collectInflightLegs Y pid s = Inr (legs_of pid s)"
  using collect_from_all [OF assms, of "if y_BatchSize Y \<le> 0 then 100 else nat (y_BatchSize Y)" pid 0 s]
  by (simp add: collectInflightLegs_def)

end
