(* ===== verification/Coalescing.thy ===== *)
theory Coalescing
  imports HotPairs Inflight
begin

text \<open>
  Coalescing of queued transactions (\<open>src/transaction_coalescing.go\<close>,
  \<open>src/database/transaction_coalescing.go\<close>): the queries that find siblings of a queued
  transaction, the choice of a batch, the reference checks, the application of the whole batch
  to balances held in memory and its commit in one database transaction. The main result is
  that a batch that is recorded has the effect of its transactions recorded one by one.
\<close>

section \<open>The model\<close>

subsection \<open>Queued transactions in the tables\<close>

text \<open>
  A row as \<open>scanQueuedTransactionsForCoalescing\<close> fills the struct: the effective date is not
  selected, the rows have no columns for the flags. \<open>ApplyPrecision\<close> runs on it.
\<close>

definition scan_queued :: "'d decimal \<Rightarrow> Transaction \<Rightarrow> Transaction" where
  "scan_queued D row = ApplyPrecision D (row\<lparr>t_EffectiveDate := None\<rparr>)"

definition scanQueuedTransactionsForCoalescing :: "faults \<Rightarrow> 'd decimal \<Rightarrow> Transaction list \<Rightarrow> Transaction list res" where
  "scanQueuedTransactionsForCoalescing F D rows =
     (if F ''coalescing.Scan'' then Inl (internal ''Failed to scan queued transaction for coalescing'')
      else if F ''coalescing.Unmarshal'' then Inl (internal ''Failed to unmarshal metadata'')
      else if \<exists>r \<in> set rows. t_PreciseAmount r = None then Inl (Wrap ''failed to parse precise_amount'' (Errorf ''invalid''))
      else if F ''coalescing.Rows'' then Inl (internal ''Error iterating queued transactions for coalescing'')
      else Inr (map (scan_queued D) rows))"

definition has_child :: "store \<Rightarrow> Transaction \<Rightarrow> bool" where
  "has_child s t = list_ex (\<lambda>c. t_ParentTransaction c = t_TransactionID t) (st_transactions s)"

text \<open>The rows of a query: queued, of the currency, not the leader's, not older than it, without a child.\<close>

definition queued_rows :: "(Transaction \<Rightarrow> bool) \<Rightarrow> string \<Rightarrow> string \<Rightarrow> int \<Rightarrow> nat \<Rightarrow> store \<Rightarrow> Transaction list" where
  "queued_rows scope currency exclude since limit s =
     take limit (sort_key t_CreatedAt (filter (\<lambda>t. t_Status t = StatusQueued \<and> scope t \<and> t_Currency t = currency \<and>
       t_TransactionID t \<noteq> exclude \<and> since \<le> t_CreatedAt t \<and> \<not> has_child s t) (st_transactions s)))"

definition GetQueuedTransactionsForCoalescing ::
    "faults \<Rightarrow> 'd decimal \<Rightarrow> string \<Rightarrow> string \<Rightarrow> string \<Rightarrow> string \<Rightarrow> int \<Rightarrow> nat \<Rightarrow> store \<Rightarrow> Transaction list res" where
  "GetQueuedTransactionsForCoalescing F D source destination currency exclude since limit s =
     (if F ''GetQueuedTransactionsForCoalescing'' then Inl (internal ''Failed to retrieve queued transactions for coalescing'')
      else scanQueuedTransactionsForCoalescing F D
             (queued_rows (\<lambda>t. t_Source t = source \<and> t_Destination t = destination) currency exclude since limit s))"

definition GetQueuedTransactionsForSourceCoalescing ::
    "faults \<Rightarrow> 'd decimal \<Rightarrow> string \<Rightarrow> string \<Rightarrow> string \<Rightarrow> int \<Rightarrow> nat \<Rightarrow> store \<Rightarrow> Transaction list res" where
  "GetQueuedTransactionsForSourceCoalescing F D source currency exclude since limit s =
     (if F ''GetQueuedTransactionsForSourceCoalescing'' then
        Inl (internal ''Failed to retrieve source-scoped queued transactions for coalescing'')
      else scanQueuedTransactionsForCoalescing F D (queued_rows (\<lambda>t. t_Source t = source) currency exclude since limit s))"

definition GetQueuedTransactionsForDestinationCoalescing ::
    "faults \<Rightarrow> 'd decimal \<Rightarrow> string \<Rightarrow> string \<Rightarrow> string \<Rightarrow> int \<Rightarrow> nat \<Rightarrow> store \<Rightarrow> Transaction list res" where
  "GetQueuedTransactionsForDestinationCoalescing F D destination currency exclude since limit s =
     (if F ''GetQueuedTransactionsForDestinationCoalescing'' then
        Inl (internal ''Failed to retrieve destination-scoped queued transactions for coalescing'')
      else scanQueuedTransactionsForCoalescing F D (queued_rows (\<lambda>t. t_Destination t = destination) currency exclude since limit s))"

text \<open>
  \<open>COALESCE(meta_data->>'queue_lane', 'normal')\<close>: the text of the value, where \<open>null\<close> is no value.
  The text of an array or object, which is the name of no lane, is abbreviated.
\<close>

definition lane_of :: "metadata \<Rightarrow> string" where
  "lane_of m = (case meta_get m QueueLaneMetaKey of
       None \<Rightarrow> ''normal''
     | Some JNull \<Rightarrow> ''normal''
     | Some (JStr l) \<Rightarrow> l
     | Some (JBool b) \<Rightarrow> if b then ''true'' else ''false''
     | Some (JInt i) \<Rightarrow> show_int i
     | Some (JNum q) \<Rightarrow> FormatFloat q
     | Some (JList _) \<Rightarrow> ''[...]''
     | Some (JObj _) \<Rightarrow> ''{...}'')"

definition CountQueuedTransactionsForPairLane ::
    "faults \<Rightarrow> string \<Rightarrow> string \<Rightarrow> string \<Rightarrow> string \<Rightarrow> store \<Rightarrow> int res" where
  "CountQueuedTransactionsForPairLane F source destination currency lane s =
     (if F ''CountQueuedTransactionsForPairLane'' then Inl (internal ''Failed to count queued transactions for pair lane'')
      else Inr (int (length (filter (\<lambda>t. t_Status t = StatusQueued \<and> t_Source t = source \<and> t_Destination t = destination \<and>
             t_Currency t = currency \<and> lane_of (t_MetaData t) = lane \<and> \<not> has_child s t) (st_transactions s)))))"

subsection \<open>Which transactions are coalesced\<close>

definition maxQueuedCoalescingBatchSize :: int where "maxQueuedCoalescingBatchSize = 10000"

datatype queuedCoalescingScope = ScopePair | ScopeSource | ScopeDestination

record coalescing_cfg =
  cc_EnableCoalescing :: bool
  cc_BatchSize :: int
  cc_DisableBatchReferenceCheck :: bool

definition queuedCoalescingBatchSize :: "coalescing_cfg \<Rightarrow> bool \<Rightarrow> int" where
  "queuedCoalescingBatchSize cfg force =
     (if \<not> force \<and> \<not> cc_EnableCoalescing cfg then 0
      else let size = cc_BatchSize cfg
           in if size \<le> 1 then size
              else if maxQueuedCoalescingBatchSize < size then maxQueuedCoalescingBatchSize else size)"

text \<open>The reason a transaction is left out; \<open>None\<close> when it is eligible.\<close>

definition canCoalesceQueuedOriginal :: "Transaction \<Rightarrow> string option" where
  "canCoalesceQueuedOriginal t =
     (if t_Status t \<noteq> StatusQueued then Some ''status_not_queued''
      else if t_Atomic t then Some ''atomic_transaction''
      else if t_SkipQueue t then Some ''skip_queue_enabled''
      else if t_Sources t \<noteq> [] \<or> t_Destinations t \<noteq> [] then Some ''split_transaction''
      else if t_ScheduledFor t \<noteq> 0 then Some ''scheduled_transaction''
      else if t_Source t = [] \<or> t_Destination t = [] \<or> t_Currency t = [] then Some ''missing_pair_or_currency''
      else None)"

definition canCoalesceQueuedTransaction :: "Transaction \<Rightarrow> string option" where
  "canCoalesceQueuedTransaction t =
     (if t_ParentTransaction t = [] then Some ''missing_parent_transaction'' else canCoalesceQueuedOriginal t)"

definition meta_flag :: "metadata \<Rightarrow> string \<Rightarrow> bool \<Rightarrow> bool" where
  "meta_flag m key old = (case meta_get m key of Some (JBool v) \<Rightarrow> v | _ \<Rightarrow> old)"

definition restoreTransactionFlagsFromMetadata :: "Transaction \<Rightarrow> Transaction" where
  "restoreTransactionFlagsFromMetadata t =
     t\<lparr>t_Inflight := meta_flag (t_MetaData t) ''inflight'' (t_Inflight t),
       t_Atomic := meta_flag (t_MetaData t) ''atomic'' (t_Atomic t),
       t_AllowOverdraft := meta_flag (t_MetaData t) ''allow_overdraft'' (t_AllowOverdraft t)\<rparr>"

text \<open>\<open>createQueueCopy\<close> with the fresh id as an argument.\<close>

definition createQueueCopy :: "string \<Rightarrow> Transaction \<Rightarrow> string \<Rightarrow> Transaction" where
  "createQueueCopy tid t originalRef = t\<lparr>t_TransactionID := tid, t_ParentTransaction := t_TransactionID t,
     t_Reference := originalRef @ ''_q''\<rparr>"

definition copy_uuid :: "('d, 'r) env \<Rightarrow> store \<Rightarrow> nat \<Rightarrow> string" where
  "copy_uuid E s i = e_uuid E (''txn:'' @ show_nat (length (st_transactions s)) @ ''/'' @ show_nat i)"

definition loadQueuedTransactionsForCoalescingScope ::
    "('d, 'r) env \<Rightarrow> Transaction \<Rightarrow> queuedCoalescingScope \<Rightarrow> nat \<Rightarrow> store \<Rightarrow> Transaction list res" where
  "loadQueuedTransactionsForCoalescingScope E leader scope limit s =
     (case scope of
        ScopePair \<Rightarrow> GetQueuedTransactionsForCoalescing (e_F E) (e_D E) (t_Source leader) (t_Destination leader)
          (t_Currency leader) (t_ParentTransaction leader) (t_CreatedAt leader) limit s
      | ScopeSource \<Rightarrow> GetQueuedTransactionsForSourceCoalescing (e_F E) (e_D E) (t_Source leader)
          (t_Currency leader) (t_ParentTransaction leader) (t_CreatedAt leader) limit s
      | ScopeDestination \<Rightarrow> GetQueuedTransactionsForDestinationCoalescing (e_F E) (e_D E) (t_Destination leader)
          (t_Currency leader) (t_ParentTransaction leader) (t_CreatedAt leader) limit s)"

fun copy_siblings :: "(nat \<Rightarrow> string) \<Rightarrow> nat \<Rightarrow> Transaction list \<Rightarrow> Transaction list" where
  "copy_siblings fresh i [] = []"
| "copy_siblings fresh i (t # ts) =
     (let sibling = restoreTransactionFlagsFromMetadata t
      in if canCoalesceQueuedOriginal sibling \<noteq> None then copy_siblings fresh i ts
         else createQueueCopy (fresh i) sibling (t_Reference sibling) # copy_siblings fresh (Suc i) ts)"

definition buildQueuedCoalescingBatchForScope ::
    "('d, 'r) env \<Rightarrow> Transaction \<Rightarrow> queuedCoalescingScope \<Rightarrow> int \<Rightarrow> store \<Rightarrow> Transaction list res" where
  "buildQueuedCoalescingBatchForScope E leader scope batchSize s =
     (case loadQueuedTransactionsForCoalescingScope E leader scope (nat (batchSize - 1)) s of
        Inl e \<Rightarrow> Inl e
      | Inr siblings \<Rightarrow> Inr (leader # copy_siblings (copy_uuid E s) 0 siblings))"

fun build_scopes ::
    "('d, 'r) env \<Rightarrow> Transaction \<Rightarrow> int \<Rightarrow> store \<Rightarrow> queuedCoalescingScope list \<Rightarrow> Transaction list res" where
  "build_scopes E leader batchSize s [] = Inr []"
| "build_scopes E leader batchSize s (sc # scs) =
     (case buildQueuedCoalescingBatchForScope E leader sc batchSize s of
        Inl e \<Rightarrow> Inl e
      | Inr batch \<Rightarrow> if 2 \<le> length batch then Inr batch else build_scopes E leader batchSize s scs)"

definition buildQueuedCoalescingBatch :: "('d, 'r) env \<Rightarrow> Transaction \<Rightarrow> int \<Rightarrow> store \<Rightarrow> Transaction list res" where
  "buildQueuedCoalescingBatch E leader batchSize s =
     build_scopes E leader batchSize s [ScopePair, ScopeSource, ScopeDestination]"

subsection \<open>Loading the balances\<close>

definition GetBalancesByIDsLite :: "faults \<Rightarrow> string list \<Rightarrow> store \<Rightarrow> (string \<rightharpoonup> Balance) res" where
  "GetBalancesByIDsLite F ids s =
     (if ids = [] then Inr Map.empty
      else if F ''GetBalancesByIDsLite'' then Inl (internal ''Failed to query balances'')
      else if F ''GetBalancesByIDsLite.Rows'' then Inl (internal ''Error iterating over balances'')
      else Inr (\<lambda>i. if i \<in> set ids \<and> \<not> F (''GetBalancesByIDsLite.Scan:'' @ i) then map_option lite (find_balance i s) else None))"

fun load_queued_balances :: "faults \<Rightarrow> string list \<Rightarrow> (string \<rightharpoonup> Balance) \<Rightarrow> store \<Rightarrow> (string \<rightharpoonup> Balance) res" where
  "load_queued_balances F [] m s = Inr m"
| "load_queued_balances F (i # ids) m s =
     (case GetBalanceByID F i True s of Inl e \<Rightarrow> Inl e | Inr b \<Rightarrow> load_queued_balances F ids (m(i \<mapsto> b)) s)"

definition loadBalancesForQueuedBatch :: "('d, 'r) env \<Rightarrow> string list \<Rightarrow> store \<Rightarrow> (string \<rightharpoonup> Balance) res" where
  "loadBalancesForQueuedBatch E ids s =
     (case (if e_EnableQueuedChecks E then load_queued_balances (e_F E) ids Map.empty s
            else GetBalancesByIDsLite (e_F E) ids s) of
        Inl e \<Rightarrow> Inl e
      | Inr m \<Rightarrow>
          (case find (\<lambda>i. m i = None) ids of
             Some i \<Rightarrow> Inl (Errorf (''failed to load balance '' @ i @ '' for coalesced batch''))
           | None \<Rightarrow> Inr m))"

definition collectQueuedCoalescingBalanceIDs :: "Transaction list \<Rightarrow> string list" where
  "collectQueuedCoalescingBalanceIDs ts =
     sort (dedup_acc [] (filter (\<lambda>i. i \<noteq> []) (concat (map (\<lambda>t. [t_Source t, t_Destination t]) ts))))"

definition coalescingBalancesForTransaction :: "(string \<rightharpoonup> Balance) \<Rightarrow> Transaction \<Rightarrow> (Balance \<times> Balance) res" where
  "coalescingBalancesForTransaction m t =
     (case m (t_Source t) of
        None \<Rightarrow> Inl (Errorf (''missing source balance '' @ t_Source t @ '' for coalesced transaction''))
      | Some sb \<Rightarrow>
          (case m (t_Destination t) of
             None \<Rightarrow> Inl (Errorf (''missing destination balance '' @ t_Destination t @ '' for coalesced transaction''))
           | Some db \<Rightarrow> Inr (sb, db)))"

subsection \<open>References\<close>

definition getQueuedBatchExistingReferences ::
    "faults \<Rightarrow> Transaction list \<Rightarrow> store \<Rightarrow> (string list \<times> string list) res" where
  "getQueuedBatchExistingReferences F ts s =
     (let references = dedup_acc [] (filter (\<lambda>r. r \<noteq> []) (map t_Reference ts))
      in case GetExistingTransactionReferences F references s of
           Inl e \<Rightarrow> Inl e
         | Inr existing \<Rightarrow> Inr (references, existing))"

definition queuedBatchReferenceSets ::
    "faults \<Rightarrow> coalescing_cfg \<Rightarrow> Transaction list \<Rightarrow> store \<Rightarrow> (string list \<times> string list) res" where
  "queuedBatchReferenceSets F cfg ts s =
     (if cc_DisableBatchReferenceCheck cfg then Inr ([], [])
      else case getQueuedBatchExistingReferences F ts s of
        Inl e \<Rightarrow> Inl (Wrap ''failed to validate coalesced transaction references'' e)
      | Inr x \<Rightarrow> Inr x)"

definition used_reference :: "string \<Rightarrow> error" where
  "used_reference r = Errorf (''reference '' @ r @ '' has already been used'')"

text \<open>The check returns the references of the batch so far, the transaction's included.\<close>

definition validateQueuedBatchTransactionReference ::
    "('d, 'r) env \<Rightarrow> Transaction \<Rightarrow> string list \<Rightarrow> string list \<Rightarrow> string list \<Rightarrow> store \<Rightarrow> string list res" where
  "validateQueuedBatchTransactionReference E t prefetched existing batch s =
     (let r = t_Reference t in
      if r = [] then Inl (Errorf ''reference is required'')
      else if r \<in> set batch then Inl (used_reference r)
      else if r \<in> set existing then Inl (used_reference r)
      else if r \<notin> set prefetched then
        (case validateTxn E t s of Inl e \<Rightarrow> Inl e | Inr _ \<Rightarrow> Inr (r # batch))
      else Inr (r # batch))"

definition validateQueuedBatchCurrencies :: "Transaction list \<Rightarrow> unit res" where
  "validateQueuedBatchCurrencies ts =
     (case ts of [] \<Rightarrow> Inr ()
      | t # ts' \<Rightarrow> if \<exists>u \<in> set ts'. t_Currency u \<noteq> t_Currency t
                   then Inl (Errorf ''coalescing batch contains multiple currencies'') else Inr ())"

subsection \<open>Applying a batch\<close>

text \<open>
  The balances of the batch are one heap \<open>m\<close> that every transaction of the batch works on
  through its two pointers. The step returns the heap, the transaction as it will be stored,
  its outbox entry and the references used.
\<close>

definition apply_on_heap :: "('d, 'r) env \<Rightarrow> Transaction \<Rightarrow> string \<Rightarrow> string \<Rightarrow> (string \<rightharpoonup> Balance)
       \<Rightarrow> (Transaction \<times> (string \<rightharpoonup> Balance)) res" where
  "apply_on_heap E t i j m =
     (case applyTransactionToBalances (e_D E) t i j (\<lambda>k. the (m k)) of
        Inl e \<Rightarrow> Inl (logAndRecordError ''failed to apply transaction to balances'' e)
      | Inr (t', h) \<Rightarrow> Inr (t', m(i \<mapsto> h i, j \<mapsto> h j)))"

definition prepareQueuedBatchTransaction ::
    "('d, 'r) env \<Rightarrow> string list \<Rightarrow> string list \<Rightarrow> store \<Rightarrow> Transaction \<Rightarrow> (string \<rightharpoonup> Balance) \<times> string list
       \<Rightarrow> (((string \<rightharpoonup> Balance) \<times> string list) \<times> Transaction \<times> LineageOutbox option) res" where
  "prepareQueuedBatchTransaction E prefetched existing s t = (\<lambda>(m, batch).
     case coalescingBalancesForTransaction m t of Inl e \<Rightarrow> Inl e
     | Inr (sb, db) \<Rightarrow>
       (case e_preHook E t of Inl e \<Rightarrow> Inl (Wrap ''batch pre-transaction hook failed'' e)
        | Inr _ \<Rightarrow>
          (case validateQueuedBatchTransactionReference E t prefetched existing batch s of
             Inl e \<Rightarrow> Inl (Wrap ''batch transaction validation failed'' e)
           | Inr batch' \<Rightarrow>
             (let finalizedTxn = updateTransactionDetails t sb db
              in case apply_on_heap E finalizedTxn (t_Source t) (t_Destination t) m of
                   Inl e \<Rightarrow> Inl e
                 | Inr (t2, m') \<Rightarrow>
                     (case buildTransactionExecutionWork t2 (the (m' (t_Source t))) (the (m' (t_Destination t))) of
                        ((t3, outbox), skipPersist) \<Rightarrow>
                          if skipPersist then Inl (Errorf ''batch coalescing does not support zero-amount transactions'')
                          else Inr ((m', batch'), t3, outbox))))))"

fun prepare_batch ::
    "('d, 'r) env \<Rightarrow> string list \<Rightarrow> string list \<Rightarrow> store \<Rightarrow> Transaction list \<Rightarrow> (string \<rightharpoonup> Balance) \<times> string list
       \<Rightarrow> ((string \<rightharpoonup> Balance) \<times> (Transaction \<times> LineageOutbox option) list) res" where
  "prepare_batch E prefetched existing s [] st = Inr (fst st, [])"
| "prepare_batch E prefetched existing s (t # ts) st =
     (case prepareQueuedBatchTransaction E prefetched existing s t st of Inl e \<Rightarrow> Inl e
      | Inr (st', work) \<Rightarrow>
          (case prepare_batch E prefetched existing s ts st' of Inl e \<Rightarrow> Inl e
           | Inr (m, works) \<Rightarrow> Inr (m, work # works)))"

text \<open>The part under the lock. \<open>F ''hooks.list''\<close> is a failure to list the hooks.\<close>

definition persistQueuedTransactionBatchLocked ::
    "('d, 'r) env \<Rightarrow> coalescing_cfg \<Rightarrow> string list \<Rightarrow> Transaction list \<Rightarrow> store \<Rightarrow> store \<times> unit res" where
  "persistQueuedTransactionBatchLocked E cfg ids ts s =
     (case loadBalancesForQueuedBatch E ids s of
        Inl e \<Rightarrow> (s, Inl (Wrap ''failed to load balances for coalesced batch'' e))
      | Inr m \<Rightarrow>
          if e_F E ''hooks.list'' then
            (s, Inl (Wrap ''failed to list pre-transaction hooks for coalesced batch'' (Errorf ''hooks'')))
          else case queuedBatchReferenceSets (e_F E) cfg ts s of
            Inl e \<Rightarrow> (s, Inl e)
          | Inr (prefetched, existing) \<Rightarrow>
              (case prepare_batch E prefetched existing s ts (m, []) of
                 Inl e \<Rightarrow> (s, Inl e)
               | Inr (m', works) \<Rightarrow>
                   (case RecordTransactionsWithBalanceSetAndOutboxes (e_F E) (map fst works) (map (\<lambda>i. the (m' i)) ids)
                           (filter (\<lambda>o'. o' \<noteq> None) (map snd works)) s of
                      (s', Inl e) \<Rightarrow> (s', Inl (logAndRecordError ''failed to persist coalesced transaction batch'' e))
                    | (s', Inr _) \<Rightarrow> (s', Inr ()))))"

definition acquireBalanceSetLock :: "('d, 'r) env \<Rightarrow> string list \<Rightarrow> 'r \<Rightarrow> ('r \<times> MultiLocker res) option" where
  "acquireBalanceSetLock E ids r =
     (let locker = NewMultiLocker ids (e_uuid E ''loc'')
      in case acquireTransactionLocker E locker r of
           None \<Rightarrow> None
         | Some (r', Inl e) \<Rightarrow> Some (r', Inl e)
         | Some (r', Inr _) \<Rightarrow> Some (r', Inr locker))"

text \<open>
  The whole batch. Contention on the locks is reported to the hot pair manager, whose client
  state is the second component. Post-commit work (monitors, hooks, webhooks) follows the
  release of the locks and is not part of the model.
\<close>

definition persistQueuedTransactionBatch ::
    "('d, 'r) env \<Rightarrow> coalescing_cfg \<Rightarrow> 'h Manager option \<Rightarrow> Transaction list \<Rightarrow> 'r world \<times> 'h
       \<Rightarrow> (('r world \<times> 'h) \<times> unit res) option" where
  "persistQueuedTransactionBatch E cfg hm ts = (\<lambda>(w, h).
     case validateQueuedBatchCurrencies ts of Inl e \<Rightarrow> Some ((w, h), Inl e)
     | Inr _ \<Rightarrow>
       (case ts of [] \<Rightarrow> Some ((w, h), Inr ())
        | t # _ \<Rightarrow>
          (let ids = collectQueuedCoalescingBalanceIDs ts
           in case acquireBalanceSetLock E ids (w_redis w) of
                None \<Rightarrow> None
              | Some (r, Inl e) \<Rightarrow>
                  Some ((w\<lparr>w_redis := r\<rparr>, RecordContention hm (t_Source t) (t_Destination t) (t_Currency t) (Some e) h),
                    Inl (Wrap ''failed to acquire batch lock'' e))
              | Some (r, Inr locker) \<Rightarrow>
                  (case persistQueuedTransactionBatchLocked E cfg ids ts (w_store w) of
                     (s, x) \<Rightarrow> Some ((\<lparr>w_store = s, w_redis = releaseLock E locker r\<rparr>, h), x)))))"

text \<open>
  The entry point: \<open>False\<close> tells the caller to process the leader on its own, which is also the
  answer to every failure of the batch.
\<close>

definition tryRecordQueuedTransactionBatch ::
    "('d, 'r) env \<Rightarrow> coalescing_cfg \<Rightarrow> 'h Manager option \<Rightarrow> Transaction \<Rightarrow> bool \<Rightarrow> 'r world \<times> 'h
       \<Rightarrow> (('r world \<times> 'h) \<times> bool) option" where
  "tryRecordQueuedTransactionBatch E cfg hm t force = (\<lambda>(w, h).
     if canCoalesceQueuedTransaction t \<noteq> None then Some ((w, h), False)
     else let batchSize = queuedCoalescingBatchSize cfg force
          in if batchSize < 2 then Some ((w, h), False)
             else case buildQueuedCoalescingBatch E t batchSize (w_store w) of
               Inl e \<Rightarrow> Some ((w, h), False)
             | Inr batch \<Rightarrow>
                 if length batch < 2 then Some ((w, h), False)
                 else case persistQueuedTransactionBatch E cfg hm batch (w, h) of
                   None \<Rightarrow> None
                 | Some (wh, Inl e) \<Rightarrow> Some (wh, False)
                 | Some (wh, Inr _) \<Rightarrow> Some (wh, True))"

definition TryRecordQueuedTransactionBatch ::
    "('d, 'r) env \<Rightarrow> coalescing_cfg \<Rightarrow> 'h Manager option \<Rightarrow> Transaction \<Rightarrow> 'r world \<times> 'h \<Rightarrow> (('r world \<times> 'h) \<times> bool) option" where
  "TryRecordQueuedTransactionBatch E cfg hm t = tryRecordQueuedTransactionBatch E cfg hm t False"

definition TryRecordQueuedTransactionBatchForHotLane ::
    "('d, 'r) env \<Rightarrow> coalescing_cfg \<Rightarrow> 'h Manager option \<Rightarrow> Transaction \<Rightarrow> 'r world \<times> 'h \<Rightarrow> (('r world \<times> 'h) \<times> bool) option" where
  "TryRecordQueuedTransactionBatchForHotLane E cfg hm t = tryRecordQueuedTransactionBatch E cfg hm t True"

section \<open>Facts\<close>

subsection \<open>Recording one transaction, as an equation\<close>

lemma RecordWithOutbox_eq:
  assumes "\<forall>p. \<not> F p" "\<not> nil_numeric sb" "\<not> nil_numeric db" "b_BalanceID sb \<noteq> b_BalanceID db"
    and rs: "find_balance (b_BalanceID sb) s = Some rs" "b_Version rs = b_Version sb"
    and rd: "find_balance (b_BalanceID db) s = Some rd" "b_Version rd = b_Version db"
    and t: "t_Source t = b_BalanceID sb" "t_Destination t = b_BalanceID db" "t_PreciseAmount t \<noteq> None"
      "t_TransactionID t \<notin> t_TransactionID ` set (st_transactions s)"
      "t_Reference t \<notin> t_Reference ` set (st_transactions s)" "parse_decimal (t_AmountString t) = Some q"
      "\<forall>w. outbox = Some w \<longrightarrow> o_TransactionID w \<notin> o_TransactionID ` set (st_outbox s)"
  shows "RecordTransactionWithBalancesAndOutbox F t sb db outbox s =
    ((put_balance (written db rd) (put_balance (written sb rs) s))
       \<lparr>st_transactions := st_transactions s @ [row_of t q],
        st_outbox := st_outbox s @ (case outbox of None \<Rightarrow> [] | Some w \<Rightarrow> [pending w])\<rparr>, Inr t)"
proof -
  let ?s1 = "put_balance (written sb rs) s"
  have f1: "find_balance (b_BalanceID db) ?s1 = Some rd" using find_written [OF rs(1)] assms(4) rd by simp
  let ?s2 = "put_balance (written db rd) ?s1"
  have "find_balance (t_Source t) ?s2 \<noteq> None" "find_balance (t_Destination t) ?s2 \<noteq> None"
    using find_written [OF f1] find_written [OF rs(1)] assms(4) t by simp_all
  then have i: "recordTransactionInTx F t ?s2 = Inr (?s2\<lparr>st_transactions := st_transactions s @ [row_of t q]\<rparr>)"
    using assms(1) t by (simp add: recordTransactionInTx_def insert_row_def)
  have F: "F p = False" for p using assms(1) by simp
  note u = updateBalance_succeeds [OF assms(1,2) rs] updateBalance_succeeds [OF assms(1,3) f1 rd(2)]
  show ?thesis
    unfolding RecordTransactionWithBalancesAndOutbox_def in_tx_def u i sum.case prod.case F if_False
    using t(7) by (cases outbox) (simp_all add: InsertLineageOutboxInTx_def outbox_insert_def u i F)
qed

text \<open>A queued transaction between two balances of the table, recorded alone.\<close>

definition stored :: "Transaction \<Rightarrow> rat \<Rightarrow> LineageOutbox option \<Rightarrow> Balance \<Rightarrow> Balance \<Rightarrow> store \<Rightarrow> store" where
  "stored t am outbox rs rd s = (put_balance rd (put_balance rs s))
     \<lparr>st_transactions := st_transactions s @ [row_of t am],
      st_outbox := st_outbox s @ (case outbox of None \<Rightarrow> [] | Some w \<Rightarrow> [pending w])\<rparr>"

lemma record_locked_queued:
  assumes F: "\<forall>p. \<not> e_F E p" "\<not> e_EnableQueuedChecks E" "e_preHook E t = Inr ()"
    and t: "plain_ids t" "t_Source t \<noteq> t_Destination t" "t_Status t = StatusQueued"
    and rs: "find_balance (t_Source t) s = Some rs" and rd: "find_balance (t_Destination t) s = Some rd"
    and a: "t_PreciseAmount (ApplyPrecision (e_D E) t) = Some a" "0 < a"
    and can: "canProcessTransaction (e_D E) (ApplyPrecision (e_D E) t) (lite rs) = Inr b"
    and t3: "t3 = updateTransactionDetails (ApplyPrecision (e_D E) t) (lite rs) (lite rd)"
    and ob: "outbox = prepareTransactionOutbox t3 (post_debit a (t_Inflight t) (lite rs)) (post_credit a (t_Inflight t) (lite rd))"
    and fresh: "t_TransactionID t3 \<notin> t_TransactionID ` set (st_transactions s)"
      "t_Reference t3 \<notin> t_Reference ` set (st_transactions s)" "parse_decimal (t_AmountString t3) = Some am"
      "\<forall>w. outbox = Some w \<longrightarrow> o_TransactionID w \<notin> o_TransactionID ` set (st_outbox s)"
  shows "record_locked E t s = (stored t3 am outbox (written (post_debit a (t_Inflight t) (lite rs)) rs)
      (written (post_credit a (t_Inflight t) (lite rd)) rd) s, Inr t3)"
proof -
  let ?sb = "post_debit a (t_Inflight t) (lite rs)" and ?db = "post_credit a (t_Inflight t) (lite rd)"
  have ids: "b_BalanceID rs = t_Source t" "b_BalanceID rd = t_Destination t" using rs rd by (auto dest: find_balance_SomeD)
  have tt: "t\<lparr>t_Source := t_Source t, t_Destination := t_Destination t\<rparr> = t" by simp
  have "getSourceAndDestination E t s = (s, Inr (t, lite rs, lite rd))"
    using t(1) rs rd F by (simp add: plain_ids_def getSourceAndDestination_def side_balance_def lookup_balance_def GetBalanceByIDLite_def)
  moreover have "t_Reference t \<notin> t_Reference ` set (st_transactions s)" using fresh(2) t3 by simp
  ultimately have v: "validateAndPrepareTransaction E t s = (s, Inr (t, lite rs, lite rd))"
    using F(1) ids by (simp add: validateAndPrepareTransaction_def validateTxn_def TransactionExistsByRef_def)
  have p: "processBalances E t (lite rs) (lite rd) = Inr (ApplyPrecision (e_D E) t, ?sb, ?db)"
  proof -
    have "UpdateBalances (e_D E) t True False (two_balances (lite rs) (lite rd)) =
        Inr (ApplyPrecision (e_D E) t, posted a (t_Inflight t) True False (two_balances (lite rs) (lite rd)))"
      using a can unfolding UpdateBalances_iff by (simp add: two_balances_def)
    then show ?thesis
      using t(3) by (simp add: processBalances_def apply_other posted_def two_balances_def)
  qed
  have w: "buildTransactionExecutionWork (ApplyPrecision (e_D E) t) ?sb ?db = ((t3, outbox), False)"
    using a t3 ob by (simp add: buildTransactionExecutionWork_def updateTransactionDetails_def Let_def)
  have "RecordTransactionWithBalancesAndOutbox (e_F E) t3 ?sb ?db outbox s = (stored t3 am outbox (written ?sb rs) (written ?db rd) s, Inr t3)"
    unfolding stored_def
    by (rule RecordWithOutbox_eq) (use F ids t rs rd a fresh t3 in \<open>auto simp: initialised_iff [symmetric] updateTransactionDetails_def\<close>)
  then show ?thesis
    using v p w F(3) by (simp add: record_locked_def persistSingleTransactionExecutionWork_def)
qed


subsection \<open>A balance in memory and its row\<close>

text \<open>
  Versions aside, a balance that a batch holds in memory is the row of the table that the
  transactions so far would have left.
\<close>

lemma init_version: "InitializeBalanceFields (b\<lparr>b_Version := v\<rparr>) = (InitializeBalanceFields b)\<lparr>b_Version := v\<rparr>"
  by (simp add: InitializeBalanceFields_def)

lemma step_version:
  "addDebit a i (b\<lparr>b_Version := v\<rparr>) = (addDebit a i b)\<lparr>b_Version := v\<rparr>"
  "addCredit a i (b\<lparr>b_Version := v\<rparr>) = (addCredit a i b)\<lparr>b_Version := v\<rparr>"
  "computeBalance i (b\<lparr>b_Version := v\<rparr>) = (computeBalance i b)\<lparr>b_Version := v\<rparr>"
  unfolding addDebit_def addCredit_def computeBalance_def Let_def init_version by (cases i; simp)+

lemma post_version:
  "post_debit a i (b\<lparr>b_Version := v\<rparr>) = (post_debit a i b)\<lparr>b_Version := v\<rparr>"
  "post_credit a i (b\<lparr>b_Version := v\<rparr>) = (post_credit a i b)\<lparr>b_Version := v\<rparr>"
  by (simp_all only: post_debit_def post_credit_def step_version)

definition overlay :: "Balance \<Rightarrow> Balance \<Rightarrow> Balance" where
  "overlay b row = (lite row)\<lparr>b_Balance := b_Balance b, b_CreditBalance := b_CreditBalance b,
     b_DebitBalance := b_DebitBalance b, b_InflightBalance := b_InflightBalance b,
     b_InflightCreditBalance := b_InflightCreditBalance b, b_InflightDebitBalance := b_InflightDebitBalance b\<rparr>"

definition reflects :: "Balance \<Rightarrow> Balance \<Rightarrow> bool" where
  "reflects b row0 \<longleftrightarrow> b = overlay b row0 \<and> \<not> nil_numeric b"

lemma reflects_lite: "\<not> nil_numeric row0 \<Longrightarrow> reflects (lite row0) row0"
  by (cases row0) (simp add: reflects_def overlay_def lite_def nil_numeric_def)

lemma overlay_init: "overlay (InitializeBalanceFields b) row = InitializeBalanceFields (overlay b row)"
  by (simp add: overlay_def InitializeBalanceFields_def)

lemma overlay_step:
  "overlay (addDebit a i b) row = addDebit a i (overlay b row)"
  "overlay (addCredit a i b) row = addCredit a i (overlay b row)"
  "overlay (computeBalance i b) row = computeBalance i (overlay b row)"
  unfolding addDebit_def addCredit_def computeBalance_def Let_def overlay_init [symmetric]
  by (cases i; simp add: overlay_def)+

lemma overlay_post:
  "overlay (post_debit a i b) row = post_debit a i (overlay b row)"
  "overlay (post_credit a i b) row = post_credit a i (overlay b row)"
  by (simp_all add: overlay_step post_debit_def post_credit_def)

lemma lite_written_overlay:
  "lite ((written (overlay b row) row)\<lparr>b_Version := v\<rparr>) = (overlay b row)\<lparr>b_Version := v\<rparr>"
  by (rule Balance.equality) (simp_all add: overlay_def lite_def written_def)

lemma overlay_id: "b_BalanceID (overlay b row) = b_BalanceID row"
  by (simp add: overlay_def)

lemma post_not_nil: "\<not> nil_numeric (post_debit a i b)" "\<not> nil_numeric (post_credit a i b)"
  by (simp_all add: nil_numeric_def post_debit_def post_credit_def addDebit_def addCredit_def computeBalance_def InitializeBalanceFields_def Let_def)

lemma can_process_version:
  "canProcessTransaction D t b = Inr x \<Longrightarrow> \<exists>y. canProcessTransaction D t (b\<lparr>b_Version := v\<rparr>) = Inr y"
  by (auto simp: canProcessTransaction_def Let_def availableBalance_def InitializeBalanceFields_def
      split: if_splits option.splits)

lemma reflects_post:
  assumes "reflects b row0"
  shows "reflects (post_debit a i b) row0" "reflects (post_credit a i b) row0"
  using assms by (simp_all add: reflects_def overlay_post post_not_nil)

lemma reflects_row:
  assumes "reflects b row0"
  shows "lite ((written b row0)\<lparr>b_Version := v\<rparr>) = b\<lparr>b_Version := v\<rparr>"
  using lite_written_overlay [where b = b and row = row0] assms by (metis reflects_def)

lemma written_again: "written x ((written b row0)\<lparr>b_Version := v\<rparr>) = (written x row0)\<lparr>b_Version := v + 1\<rparr>"
  by (simp add: written_def)

lemma written_version: "written (x\<lparr>b_Version := v\<rparr>) row = written x row"
  by (simp add: written_def)

definition in_step :: "store \<Rightarrow> (string \<rightharpoonup> Balance) \<Rightarrow> store \<Rightarrow> bool" where
  "in_step s0 m s \<longleftrightarrow> (\<forall>i. case m i of
      None \<Rightarrow> find_balance i s = find_balance i s0
    | Some b \<Rightarrow> \<exists>row0 v. find_balance i s0 = Some row0 \<and> reflects b row0 \<and>
                  find_balance i s = Some ((written b row0)\<lparr>b_Version := v\<rparr>))"

lemma in_stepD:
  assumes "in_step s0 m s" "m i = Some b"
  obtains row0 v where "find_balance i s0 = Some row0" "reflects b row0"
    "find_balance i s = Some ((written b row0)\<lparr>b_Version := v\<rparr>)"
proof -
  from assms(1) [unfolded in_step_def, rule_format, of i] assms(2)
  have "\<exists>row0 v. find_balance i s0 = Some row0 \<and> reflects b row0 \<and>
      find_balance i s = Some ((written b row0)\<lparr>b_Version := v\<rparr>)" by simp
  with that show thesis by (elim exE conjE)
qed

lemma in_step_post:
  assumes st: "in_step s0 m s" and m: "m i = Some b" "m j = Some c" "i \<noteq> j"
    and rows: "find_balance i s = Some rs" "find_balance j s = Some rd"
  shows "in_step s0 (m(i \<mapsto> post_debit a f b, j \<mapsto> post_credit a f c))
    (stored t am ob (written (post_debit a f (lite rs)) rs) (written (post_credit a f (lite rd)) rd) s)"
proof -
  obtain row0 v where b: "find_balance i s0 = Some row0" "reflects b row0"
    "find_balance i s = Some ((written b row0)\<lparr>b_Version := v\<rparr>)" by (rule in_stepD [OF st m(1)])
  obtain row1 w where c: "find_balance j s0 = Some row1" "reflects c row1"
    "find_balance j s = Some ((written c row1)\<lparr>b_Version := w\<rparr>)" by (rule in_stepD [OF st m(2)])
  note rows' = b(3) [unfolded rows(1) option.inject] c(3) [unfolded rows(2) option.inject]
  have ids: "b_BalanceID rs = i" "b_BalanceID rd = j" using rows by (auto dest: find_balance_SomeD)
  let ?rs = "written (post_debit a f (lite rs)) rs" and ?rd = "written (post_credit a f (lite rd)) rd"
  have new: "?rs = (written (post_debit a f b) row0)\<lparr>b_Version := v + 1\<rparr>"
    "?rd = (written (post_credit a f c) row1)\<lparr>b_Version := w + 1\<rparr>"
    by (simp_all only: rows' reflects_row [OF b(2)] reflects_row [OF c(2)] post_version written_version written_again)
  have get: "find_balance k (stored t am ob ?rs ?rd s) = (if k = j then Some ?rd else if k = i then Some ?rs else find_balance k s)" for k
    using tbl.get_two [of ?rs s rs ?rd rd k] rows ids m(3) by (simp add: stored_def find_balance_def)
  have bi: "\<exists>r x. find_balance i s0 = Some r \<and> reflects (post_debit a f b) r \<and>
      (written (post_debit a f b) row0)\<lparr>b_Version := v + 1\<rparr> = (written (post_debit a f b) r)\<lparr>b_Version := x\<rparr>"
    by (intro exI conjI, rule b(1), rule reflects_post [OF b(2)], rule refl)
  have cj: "\<exists>r x. find_balance j s0 = Some r \<and> reflects (post_credit a f c) r \<and>
      (written (post_credit a f c) row1)\<lparr>b_Version := w + 1\<rparr> = (written (post_credit a f c) r)\<lparr>b_Version := x\<rparr>"
    by (intro exI conjI, rule c(1), rule reflects_post [OF c(2)], rule refl)
  show ?thesis
    unfolding in_step_def
  proof
    fix k
    from st [unfolded in_step_def, rule_format, of k]
    show "case (m(i \<mapsto> post_debit a f b, j \<mapsto> post_credit a f c)) k of
        None \<Rightarrow> find_balance k (stored t am ob ?rs ?rd s) = find_balance k s0
      | Some b \<Rightarrow> \<exists>row0 v. find_balance k s0 = Some row0 \<and> reflects b row0 \<and>
          find_balance k (stored t am ob ?rs ?rd s) = Some ((written b row0)\<lparr>b_Version := v\<rparr>)"
      unfolding get unfolding new using bi cj by (cases "k = j"; cases "k = i") simp_all
  qed
qed


subsection \<open>One transaction of a batch\<close>

fun record_each :: "('d, 'r) env \<Rightarrow> Transaction list \<Rightarrow> store \<Rightarrow> store \<times> unit res" where
  "record_each E [] s = (s, Inr ())"
| "record_each E (t # ts) s =
     (case record_locked E t s of (s', Inl e) \<Rightarrow> (s', Inl e) | (s', Inr _) \<Rightarrow> record_each E ts s')"

lemma precision_details:
  "ApplyPrecision D (updateTransactionDetails t sb db) = (ApplyPrecision D t)\<lparr>t_Source := b_BalanceID sb,
     t_Destination := b_BalanceID db, t_Status := t_Status (updateTransactionDetails t sb db)\<rparr>"
  by (simp add: updateTransactionDetails_def ApplyPrecision_def applyPrecisionLogic_def convertPreciseToDecimal_def
      convertDecimalToPrecise_def Let_def split: option.splits)

lemma details_twice:
  assumes "t_Status t = StatusQueued"
  shows "updateTransactionDetails (ApplyPrecision D (updateTransactionDetails t sb db)) sb' db' =
    updateTransactionDetails (ApplyPrecision D t) sb' db'"
  unfolding precision_details using assms by (simp add: updateTransactionDetails_def applicableStatus_def)

lemma can_process_details:
  "canProcessTransaction D (t\<lparr>t_Source := i, t_Destination := j, t_Status := st\<rparr>) b = canProcessTransaction D t b"
  by (simp add: canProcessTransaction_def overdraftLimitPrecise_def Let_def split: option.split)

text \<open>What a successful step of the batch computes.\<close>

lemma prepared:
  assumes p: "prepareQueuedBatchTransaction E pre ex s t (m, refs) = Inr ((m', refs'), t3, ob)"
    and t: "t_Source t \<noteq> t_Destination t" "t_Status t = StatusQueued"
  obtains sb db a b where "m (t_Source t) = Some sb" "m (t_Destination t) = Some db" "e_preHook E t = Inr ()"
    "t_PreciseAmount (ApplyPrecision (e_D E) t) = Some a" "0 < a"
    "canProcessTransaction (e_D E) (ApplyPrecision (e_D E) t) sb = Inr b"
    "m' = m(t_Source t \<mapsto> post_debit a (t_Inflight t) sb, t_Destination t \<mapsto> post_credit a (t_Inflight t) db)"
    "t3 = updateTransactionDetails (ApplyPrecision (e_D E) t) (post_debit a (t_Inflight t) sb) (post_credit a (t_Inflight t) db)"
    "ob = prepareTransactionOutbox t3 (post_debit a (t_Inflight t) sb) (post_credit a (t_Inflight t) db)"
proof -
  obtain sb db where b: "m (t_Source t) = Some sb" "m (t_Destination t) = Some db"
    using p by (auto simp: prepareQueuedBatchTransaction_def coalescingBalancesForTransaction_def split: option.splits)
  let ?f = "updateTransactionDetails t sb db"
  obtain t2 h where ap: "applyTransactionToBalances (e_D E) ?f (t_Source t) (t_Destination t) (\<lambda>k. the (m k)) = Inr (t2, h)"
    and pre: "e_preHook E t = Inr ()"
    and m': "m' = m(t_Source t \<mapsto> h (t_Source t), t_Destination t \<mapsto> h (t_Destination t))"
    and w: "buildTransactionExecutionWork t2 (the (m' (t_Source t))) (the (m' (t_Destination t))) = ((t3, ob), False)"
    using p b by (auto simp: prepareQueuedBatchTransaction_def coalescingBalancesForTransaction_def apply_on_heap_def Let_def
        split: sum.splits prod.splits if_splits)
  have "t_Status ?f = StatusInflight \<or> t_Status ?f = StatusApplied"
    using t(2) by (simp add: updateTransactionDetails_def applicableStatus_def)
  then have "UpdateBalances (e_D E) ?f (t_Source t) (t_Destination t) (\<lambda>k. the (m k)) = Inr (t2, h)"
    using ap by (auto simp: apply_other)
  then obtain a c where u: "t2 = ApplyPrecision (e_D E) ?f" "t_PreciseAmount t2 = Some a" "0 < a"
    "canProcessTransaction (e_D E) t2 sb = Inr c" "h = posted a (t_Inflight ?f) (t_Source t) (t_Destination t) (\<lambda>k. the (m k))"
    unfolding UpdateBalances_iff using b by auto
  have h: "h (t_Source t) = post_debit a (t_Inflight t) sb" "h (t_Destination t) = post_credit a (t_Inflight t) db"
    using u(5) b t(1) by (simp_all add: posted_def Let_def updateTransactionDetails_def)
  have pa: "t_PreciseAmount (ApplyPrecision (e_D E) t) = Some a" using u(1,2) by (simp add: precision_details)
  have "canProcessTransaction (e_D E) (ApplyPrecision (e_D E) t) sb = Inr c"
    using u(1,4) by (simp add: precision_details can_process_details)
  moreover have "t3 = updateTransactionDetails (ApplyPrecision (e_D E) t) (post_debit a (t_Inflight t) sb) (post_credit a (t_Inflight t) db)"
    "ob = prepareTransactionOutbox t3 (post_debit a (t_Inflight t) sb) (post_credit a (t_Inflight t) db)"
    using w m' h t(1) u(1-3) details_twice [OF t(2)] by (auto simp: buildTransactionExecutionWork_def Let_def split: if_splits)
  ultimately show thesis using that b pre pa u(3) m' h by metis
qed

lemma post_sel [simp]:
  "b_TrackFundLineage (post_debit a i b) = b_TrackFundLineage b" "b_TrackFundLineage (post_credit a i b) = b_TrackFundLineage b"
  by (simp_all add: post_debit_def post_credit_def balance_ops)

lemma outbox_version:
  "prepareTransactionOutbox t (sb\<lparr>b_Version := v\<rparr>) (db\<lparr>b_Version := w\<rparr>) = prepareTransactionOutbox t sb db"
  by (simp add: prepareTransactionOutbox_def PrepareLineageOutbox_def Let_def)

text \<open>The step of the batch and the recording of the same transaction stay in step.\<close>

lemma step_matches:
  assumes p: "prepareQueuedBatchTransaction E pre ex s0 t (m, refs) = Inr ((m', refs'), t3, ob)"
    and t: "plain_ids t" "t_Source t \<noteq> t_Destination t" "t_Status t = StatusQueued"
    and E: "\<forall>p. \<not> e_F E p" "\<not> e_EnableQueuedChecks E" and st: "in_step s0 m s"
    and fresh: "t_TransactionID t3 \<notin> t_TransactionID ` set (st_transactions s)"
      "t_Reference t3 \<notin> t_Reference ` set (st_transactions s)" "parse_decimal (t_AmountString t3) = Some am"
      "\<forall>w. ob = Some w \<longrightarrow> o_TransactionID w \<notin> o_TransactionID ` set (st_outbox s)"
  obtains s' where "record_locked E t s = (s', Inr t3)" "in_step s0 m' s'" "dom m' = dom m"
    "st_transactions s' = st_transactions s @ [row_of t3 am]"
    "st_outbox s' = st_outbox s @ (case ob of None \<Rightarrow> [] | Some w \<Rightarrow> [pending w])"
proof -
  obtain sb db a b where m: "m (t_Source t) = Some sb" "m (t_Destination t) = Some db" and pre: "e_preHook E t = Inr ()"
    and a: "t_PreciseAmount (ApplyPrecision (e_D E) t) = Some a" "0 < a"
    and can: "canProcessTransaction (e_D E) (ApplyPrecision (e_D E) t) sb = Inr b"
    and m': "m' = m(t_Source t \<mapsto> post_debit a (t_Inflight t) sb, t_Destination t \<mapsto> post_credit a (t_Inflight t) db)"
    and t3: "t3 = updateTransactionDetails (ApplyPrecision (e_D E) t) (post_debit a (t_Inflight t) sb) (post_credit a (t_Inflight t) db)"
    and ob: "ob = prepareTransactionOutbox t3 (post_debit a (t_Inflight t) sb) (post_credit a (t_Inflight t) db)"
    by (rule prepared [OF p t(2,3)])
  obtain row0 v where r: "reflects sb row0" "find_balance (t_Source t) s = Some ((written sb row0)\<lparr>b_Version := v\<rparr>)"
    by (rule in_stepD [OF st m(1)])
  obtain row1 w where r': "reflects db row1" "find_balance (t_Destination t) s = Some ((written db row1)\<lparr>b_Version := w\<rparr>)"
    by (rule in_stepD [OF st m(2)])
  note lites = reflects_row [OF r(1)] reflects_row [OF r'(1)]
  let ?rs = "(written sb row0)\<lparr>b_Version := v\<rparr>" and ?rd = "(written db row1)\<lparr>b_Version := w\<rparr>"
  have c: "\<exists>y. canProcessTransaction (e_D E) (ApplyPrecision (e_D E) t) (lite ?rs) = Inr y"
    unfolding lites by (rule can_process_version [OF can])
  have t3': "t3 = updateTransactionDetails (ApplyPrecision (e_D E) t) (lite ?rs) (lite ?rd)"
    unfolding t3 lites by (simp add: updateTransactionDetails_def)
  have ob': "ob = prepareTransactionOutbox t3 (post_debit a (t_Inflight t) (lite ?rs)) (post_credit a (t_Inflight t) (lite ?rd))"
    unfolding ob lites post_version outbox_version ..
  from c obtain y where y: "canProcessTransaction (e_D E) (ApplyPrecision (e_D E) t) (lite ?rs) = Inr y" ..
  note rec = record_locked_queued [OF E pre t r(2) r'(2) a y t3' ob' fresh]
  show thesis
    by (rule that [OF rec])
       (use m m' in_step_post [OF st m t(2) r(2) r'(2)] in \<open>auto simp: stored_def\<close>)
qed

subsection \<open>The whole batch\<close>

lemma insert_row_full:
  assumes "insert_row F call t s = Some s'"
  obtains am where "s' = s\<lparr>st_transactions := st_transactions s @ [row_of t am]\<rparr>" "parse_decimal (t_AmountString t) = Some am"
    "t_TransactionID t \<notin> t_TransactionID ` set (st_transactions s)" "t_Reference t \<notin> t_Reference ` set (st_transactions s)"
  using assms by (auto simp: insert_row_def split: if_splits option.splits)

lemma outbox_insert_Some:
  "outbox_insert w s = Some s' \<longleftrightarrow> o_TransactionID w \<notin> o_TransactionID ` set (st_outbox s) \<and>
     s' = s\<lparr>st_outbox := st_outbox s @ [pending w]\<rparr>"
  by (auto simp: outbox_insert_def)

abbreviation nonnil :: "LineageOutbox option list \<Rightarrow> LineageOutbox list" where
  "nonnil os \<equiv> map the (filter (\<lambda>x. x \<noteq> None) os)"

lemma batch_matches:
  assumes "prepare_batch E pre ex s0 ts (m, refs) = Inr (m', works)"
    and "\<forall>t \<in> set ts. plain_ids t \<and> t_Source t \<noteq> t_Destination t \<and> t_Status t = StatusQueued"
    and E: "\<forall>p. \<not> e_F E p" "\<not> e_EnableQueuedChecks E" and "in_step s0 m s"
    and "copy_rows F (map fst works) x = Some x'" "st_transactions x = st_transactions s"
    and "outbox_insert_all (nonnil (map snd works)) y = Some y'" "st_outbox y = st_outbox s"
  shows "\<exists>s'. record_each E ts s = (s', Inr ()) \<and> in_step s0 m' s' \<and> dom m' = dom m \<and>
    st_transactions s' = st_transactions x' \<and> st_outbox s' = st_outbox y'"
  using assms(1,2,5-)
proof (induction ts arbitrary: m refs works s x y)
  case Nil
  then show ?case by auto
next
  case (Cons t ts)
  from Cons.prems(1) obtain m1 refs1 t3 ob works1
    where p: "prepareQueuedBatchTransaction E pre ex s0 t (m, refs) = Inr ((m1, refs1), t3, ob)"
      and ps: "prepare_batch E pre ex s0 ts (m1, refs1) = Inr (m', works1)" and w: "works = (t3, ob) # works1"
    by (auto split: sum.splits prod.splits)
  from Cons.prems(4) w obtain x1 where x1: "insert_row (\<lambda>_. False) [] t3 x = Some x1" "copy_rows F (map fst works1) x1 = Some x'"
    by (auto split: option.splits)
  obtain am where am: "x1 = x\<lparr>st_transactions := st_transactions x @ [row_of t3 am]\<rparr>" "parse_decimal (t_AmountString t3) = Some am"
    "t_TransactionID t3 \<notin> t_TransactionID ` set (st_transactions x)" "t_Reference t3 \<notin> t_Reference ` set (st_transactions x)"
    by (rule insert_row_full [OF x1(1)])
  obtain y1 where y1: "outbox_insert_all (nonnil (map snd works1)) y1 = Some y'"
    "st_outbox y1 = st_outbox y @ (case ob of None \<Rightarrow> [] | Some w \<Rightarrow> [pending w])"
    "\<forall>w. ob = Some w \<longrightarrow> o_TransactionID w \<notin> o_TransactionID ` set (st_outbox y)"
    using Cons.prems(6) w by (cases ob) (auto simp: outbox_insert_Some split: option.splits)
  have t: "plain_ids t" "t_Source t \<noteq> t_Destination t" "t_Status t = StatusQueued" using Cons.prems(2) by simp_all
  obtain s1 where s1: "record_locked E t s = (s1, Inr t3)" "in_step s0 m1 s1" "dom m1 = dom m"
    "st_transactions s1 = st_transactions s @ [row_of t3 am]"
    "st_outbox s1 = st_outbox s @ (case ob of None \<Rightarrow> [] | Some w \<Rightarrow> [pending w])"
    by (rule step_matches [OF p t E Cons.prems(3) am(3,4) [unfolded Cons.prems(5)] am(2) y1(3) [unfolded Cons.prems(7)]])
  have "\<exists>s'. record_each E ts s1 = (s', Inr ()) \<and> in_step s0 m' s' \<and> dom m' = dom m1 \<and>
      st_transactions s' = st_transactions x' \<and> st_outbox s' = st_outbox y'"
    by (rule Cons.IH [OF ps _ s1(2) x1(2) _ y1(1)])
       (use Cons.prems(2,5,7) am(1) s1(4,5) y1(2) in \<open>simp_all\<close>)
  then show ?case using s1 by auto
qed

subsection \<open>Writing a set of balances\<close>

lemma write_matching_find:
  assumes "distinct (map b_BalanceID bs)" "\<forall>b \<in> set bs. matches_row s b"
  shows "(\<forall>b \<in> set bs. find_balance (b_BalanceID b) (write_matching bs s) =
        map_option (written b) (find_balance (b_BalanceID b) s)) \<and>
    (\<forall>i. i \<notin> b_BalanceID ` set bs \<longrightarrow> find_balance i (write_matching bs s) = find_balance i s)"
  using assms
proof (induction bs arbitrary: s)
  case (Cons b bs)
  from Cons.prems(2) obtain row where row: "find_balance (b_BalanceID b) s = Some row" "b_Version row = b_Version b"
    by (auto simp: matches_row_def split: option.splits)
  let ?s = "put_balance (written b row) s"
  have w: "write_matching (b # bs) s = write_matching bs ?s" using row by (simp add: put_balance_def)
  have id: "b_BalanceID row = b_BalanceID b" using row(1) by (auto dest: find_balance_SomeD)
  have get: "find_balance k ?s = (if k = b_BalanceID b then Some (written b row) else find_balance k s)" for k
    using tbl.get_put [where s = s and b = "written b row"] row(1) id by simp
  have ne: "\<forall>c \<in> set bs. b_BalanceID c \<noteq> b_BalanceID b"
    using Cons.prems(1) by (metis distinct.simps(2) imageI list.set_map list.simps(9))
  then have "\<forall>c \<in> set bs. matches_row ?s c"
    using Cons.prems by (simp add: matches_row_def get)
  note IH = Cons.IH [of ?s, OF _ this]
  have "b_BalanceID b \<notin> b_BalanceID ` set bs" using Cons.prems(1) by auto
  then show ?case unfolding w using IH Cons.prems(1) row(1) get ne by (auto 0 0)
qed simp

lemma update_chunks_find:
  assumes "update_chunks F bs s = Inr s'" "distinct (map b_BalanceID bs)"
  shows "(\<forall>b \<in> set bs. find_balance (b_BalanceID b) s' = map_option (written b) (find_balance (b_BalanceID b) s)) \<and>
    (\<forall>i. i \<notin> b_BalanceID ` set bs \<longrightarrow> find_balance i s' = find_balance i s)"
  using assms
proof (induction F bs s rule: update_chunks.induct)
  case (1 F bs s)
  show ?case
  proof (cases "bs = []")
    case False
    let ?t = "take maxBalancesPerUpdateChunk bs" and ?d = "drop maxBalancesPerUpdateChunk bs"
    from 1(2) False obtain s1 where s1: "updateBalanceChunk F ?t s = Inr s1" "update_chunks F ?d s1 = Inr s'"
      by (subst (asm) update_chunks.simps) (auto split: sum.splits)
    have "?t \<noteq> []" using False by (simp add: maxBalancesPerUpdateChunk_def)
    then have t: "s1 = write_matching ?t s" "\<forall>b \<in> set ?t. matches_row s b"
      using s1(1) by (auto simp: updateBalanceChunk_def find_None_iff split: if_splits option.splits)
    have dt: "distinct (map b_BalanceID ?t)" "distinct (map b_BalanceID ?d)"
      using 1(3) by (metis distinct_take take_map, metis distinct_drop drop_map)
    have un: "set bs = set ?t \<union> set ?d" by (metis append_take_drop_id set_append)
    have dis: "b_BalanceID ` set ?t \<inter> b_BalanceID ` set ?d = {}"
      using 1(3) by (metis append_take_drop_id distinct_append map_append set_map)
    from write_matching_find [OF dt(1) t(2)] 1(1) [OF False s1(1,2) dt(2)] t(1) show ?thesis
      unfolding un image_Un ball_Un using dis by (auto 0 0 simp: disjoint_iff) (metis imageI)+
  qed (use 1(2) in \<open>simp add: update_chunks.simps\<close>)
qed

lemma unique_balances_id:
  assumes "distinct (map b_BalanceID bs)" "\<forall>b \<in> set bs. b_BalanceID b \<noteq> [] \<and> b_BalanceID b \<notin> set seen"
  shows "unique_balances seen bs = bs"
  using assms
proof (induction bs arbitrary: seen)
  case (Cons b bs)
  have ne: "\<forall>c \<in> set bs. b_BalanceID c \<noteq> b_BalanceID b"
    using Cons.prems(1) by (metis distinct.simps(2) imageI list.set_map list.simps(9))
  have "unique_balances (b_BalanceID b # seen) bs = bs" by (rule Cons.IH) (use Cons.prems ne in simp_all)
  then show ?case using Cons.prems by simp
qed simp

lemma batch_ids:
  "distinct (collectQueuedCoalescingBalanceIDs ts)" "[] \<notin> set (collectQueuedCoalescingBalanceIDs ts)"
  by (simp_all add: collectQueuedCoalescingBalanceIDs_def distinct_dedup_acc set_dedup_acc)

lemma load_lite:
  assumes "loadBalancesForQueuedBatch E ids s = Inr m" "\<not> e_EnableQueuedChecks E" "\<forall>p. \<not> e_F E p"
  shows "\<forall>i. m i = (if i \<in> set ids then map_option lite (find_balance i s) else None)" "dom m = set ids"
proof -
  show a: "\<forall>i. m i = (if i \<in> set ids then map_option lite (find_balance i s) else None)"
    using assms by (auto simp: loadBalancesForQueuedBatch_def GetBalancesByIDsLite_def split: if_splits option.splits)
  have "\<forall>i \<in> set ids. m i \<noteq> None"
    using assms(1) by (auto simp: loadBalancesForQueuedBatch_def find_None_iff split: sum.splits option.splits)
  with a show "dom m = set ids" by (auto split: if_splits)
qed

lemma load_in_step:
  assumes m: "\<forall>i. m i = (if i \<in> set ids then map_option lite (find_balance i s) else None)" "dom m = set ids" and ok: "store_ok s"
  shows "in_step s m s"
  unfolding in_step_def
proof
  fix i
  show "case m i of None \<Rightarrow> find_balance i s = find_balance i s
    | Some b \<Rightarrow> \<exists>row0 v. find_balance i s = Some row0 \<and> reflects b row0 \<and> find_balance i s = Some ((written b row0)\<lparr>b_Version := v\<rparr>)"
  proof (cases "m i")
    case (Some b)
    then obtain row where row: "find_balance i s = Some row" "b = lite row" using m(1) by (auto split: if_splits)
    then have "\<not> nil_numeric row" using store_okD(2) [OF ok row(1)] by (simp add: row_ok_def initialised_iff)
    moreover have "row = (written (lite row) row)\<lparr>b_Version := b_Version row\<rparr>"
      by (rule Balance.equality) (simp_all add: written_def lite_def)
    ultimately have "find_balance i s = Some row \<and> reflects b row \<and> find_balance i s = Some ((written b row)\<lparr>b_Version := b_Version row\<rparr>)"
      using row reflects_lite by simp
    then show ?thesis unfolding Some option.case by (intro exI)
  qed simp
qed

text \<open>The batch written at once leaves the rows, versions aside, that its balances reflect.\<close>

abbreviation unversioned :: "Balance \<Rightarrow> Balance" where "unversioned b \<equiv> b\<lparr>b_Version := 0\<rparr>"

lemma batch_rows:
  assumes st: "in_step s m s''" and dom: "dom m = set ids" and ids: "distinct ids" "[] \<notin> set ids"
    and up: "updateBalanceSet F (map (\<lambda>i. the (m i)) ids) s = Inr s1"
  shows "map_option unversioned (find_balance i s1) = map_option unversioned (find_balance i s'')"
proof -
  have id: "b_BalanceID (the (m k)) = k" if "k \<in> set ids" for k
  proof -
    from that dom obtain b where b: "m k = Some b" by auto
    obtain row0 where r: "find_balance k s = Some row0" "reflects b row0" by (rule in_stepD [OF st b])
    then have "b_BalanceID b = b_BalanceID row0" by (metis lite_fields(7) overlay_id reflects_def)
    then show ?thesis using r b by (auto dest: find_balance_SomeD)
  qed
  let ?bs = "map (\<lambda>i. the (m i)) ids"
  have m: "map b_BalanceID ?bs = ids" using id by (simp add: map_idI)
  have "unique_balances [] ?bs = ?bs" by (rule unique_balances_id) (use m ids id in \<open>auto\<close>)
  with up have "update_chunks F ?bs s = Inr s1" by (simp add: updateBalanceSet_def)
  note u = update_chunks_find [OF this, unfolded m, OF ids(1)]
  show "map_option unversioned (find_balance i s1) = map_option unversioned (find_balance i s'')"
  proof (cases "m i")
    case None
    then have "i \<notin> set ids" using dom by auto
    then have "find_balance i s1 = find_balance i s" using u m by (metis set_map)
    moreover have "find_balance i s'' = find_balance i s"
      using st [unfolded in_step_def, rule_format, of i] None by simp
    ultimately show ?thesis by simp
  next
    case (Some b)
    then have i: "i \<in> set ids" using dom by auto
    obtain row0 v where r: "find_balance i s = Some row0" "find_balance i s'' = Some ((written b row0)\<lparr>b_Version := v\<rparr>)"
      by (rule in_stepD [OF st Some])
    have "find_balance i s1 = Some (written b row0)" using u i id [OF i] r(1) Some by auto
    then show ?thesis using r(2) by simp
  qed
qed

lemma write_matching_keeps [simp]:
  "st_transactions (write_matching bs s) = st_transactions s" "st_outbox (write_matching bs s) = st_outbox s"
  by (induction bs arbitrary: s) (auto split: option.splits)

lemma updateBalanceSet_keeps:
  assumes "updateBalanceSet F bs s = Inr s'"
  shows "st_transactions s' = st_transactions s \<and> st_outbox s' = st_outbox s"
proof -
  have "update_chunks F cs s = Inr s' \<Longrightarrow> st_transactions s' = st_transactions s \<and> st_outbox s' = st_outbox s" for cs
  proof (induction F cs s rule: update_chunks.induct)
    case (1 F cs s)
    from 1(2) show ?case
    proof (subst (asm) update_chunks.simps, cases "cs = []")
      case False
      from 1(2) False obtain s1 where s1: "updateBalanceChunk F (take maxBalancesPerUpdateChunk cs) s = Inr s1"
        "update_chunks F (drop maxBalancesPerUpdateChunk cs) s1 = Inr s'"
        by (subst (asm) update_chunks.simps) (auto split: sum.splits)
      have "st_transactions s1 = st_transactions s \<and> st_outbox s1 = st_outbox s"
        using s1(1) by (auto simp: updateBalanceChunk_def split: if_splits option.splits)
      then show ?thesis using 1(1) [OF False s1] by simp
    qed simp
  qed
  then show ?thesis using assms by (simp add: updateBalanceSet_def)
qed

lemma copy_rows_keeps:
  "copy_rows F ts s = Some s' \<Longrightarrow> st_balances s' = st_balances s \<and> st_outbox s' = st_outbox s"
  by (induction ts arbitrary: s) (auto split: option.splits elim!: insert_row_full)

lemma outbox_insert_all_keeps:
  "outbox_insert_all os s = Some s' \<Longrightarrow> st_balances s' = st_balances s \<and> st_transactions s' = st_transactions s"
  by (induction os arbitrary: s) (auto simp: outbox_insert_Some split: option.splits)

lemma batch_committed:
  assumes "RecordTransactionsWithBalanceSetAndOutboxes F ts bs os s = (s', Inr r)"
  obtains s1 s2 where "updateBalanceSet F bs s = Inr s1" "copy_rows F ts s1 = Some s2"
    "outbox_insert_all (nonnil os) s2 = Some s'"
proof -
  from in_tx_cases [OF assms [unfolded RecordTransactionsWithBalanceSetAndOutboxes_def]]
  obtain s1 s2 where s: "updateBalanceSet F bs s = Inr s1" "recordTransactionsInTx F ts s1 = Inr s2"
    "insertLineageOutboxesInTx F os s2 = Inr s'" by (auto split: sum.splits)
  have "copy_rows F ts s1 = Some s2" using s(2) by (cases ts) (auto simp: recordTransactionsInTx_def split: if_splits option.splits)
  moreover have "outbox_insert_all (nonnil os) s2 = Some s'"
    using s(3) by (auto simp: insertLineageOutboxesInTx_def Let_def split: if_splits option.splits)
  ultimately show thesis using that s(1) by blast
qed

section \<open>Properties\<close>

text \<open>
  C6: coalescing is transparent, for queued transactions between plain balance ids (no @indicator)
  whose source and destination differ, when no database call fails and the queued checks are off
  (their default). Whenever the coalesced path records such a batch on sound tables, recording the same
  transactions one by one in the same order succeeds too and leaves the same transaction rows, the same lineage
  outbox and, up to the optimistic version counter, the same balance rows: the in-memory postings of the
  batch and its three bulk writes lose no update, whichever balances the transactions share. (A transfer of a
  balance to itself is refused by the single path.)
\<close>

theorem batch_equals_sequence:
  assumes ok: "store_ok s" and E: "\<forall>p. \<not> e_F E p" "\<not> e_EnableQueuedChecks E"
    and ts: "\<forall>t \<in> set ts. plain_ids t \<and> t_Source t \<noteq> t_Destination t \<and> t_Status t = StatusQueued"
    and run: "persistQueuedTransactionBatchLocked E cfg (collectQueuedCoalescingBalanceIDs ts) ts s = (s', Inr ())"
  shows "\<exists>s''. record_each E ts s = (s'', Inr ()) \<and> st_transactions s'' = st_transactions s' \<and>
    st_outbox s'' = st_outbox s' \<and>
    (\<forall>i. map_option unversioned (find_balance i s'') = map_option unversioned (find_balance i s'))"
proof -
  let ?ids = "collectQueuedCoalescingBalanceIDs ts"
  from run obtain m pre ex m' works r where l: "loadBalancesForQueuedBatch E ?ids s = Inr m"
    and p: "prepare_batch E pre ex s ts (m, []) = Inr (m', works)"
    and w: "RecordTransactionsWithBalanceSetAndOutboxes (e_F E) (map fst works) (map (\<lambda>i. the (m' i)) ?ids)
        (filter (\<lambda>o'. o' \<noteq> None) (map snd works)) s = (s', Inr r)"
    unfolding persistQueuedTransactionBatchLocked_def by (auto split: sum.splits prod.splits if_splits)
  obtain s1 s2 where s1: "updateBalanceSet (e_F E) (map (\<lambda>i. the (m' i)) ?ids) s = Inr s1"
    and s2: "copy_rows (e_F E) (map fst works) s1 = Some s2"
    and s3: "outbox_insert_all (nonnil (filter (\<lambda>o'. o' \<noteq> None) (map snd works))) s2 = Some s'"
    by (rule batch_committed [OF w])
  have s3: "outbox_insert_all (nonnil (map snd works)) s2 = Some s'" using s3 by simp
  note load = load_lite [OF l E(2,1)]
  note k = updateBalanceSet_keeps [OF s1] copy_rows_keeps [OF s2] outbox_insert_all_keeps [OF s3]
  obtain s'' where s'': "record_each E ts s = (s'', Inr ())" "in_step s m' s''" "dom m' = dom m"
    "st_transactions s'' = st_transactions s2" "st_outbox s'' = st_outbox s'"
    using batch_matches [OF p ts E load_in_step [OF load ok] s2 _ s3] k by auto
  have "find_balance i s' = find_balance i s1" for i using k by (simp add: find_balance_def)
  then show ?thesis
    using batch_rows [OF s''(2) _ batch_ids s1] s'' k load(2) by (intro exI [of _ s'']) simp
qed

subsection \<open>An example batch\<close>

definition ex_queued :: "string \<Rightarrow> string \<Rightarrow> string \<Rightarrow> int \<Rightarrow> Transaction" where
  "ex_queued tid s d a = ex_txn\<lparr>t_TransactionID := tid, t_Reference := tid, t_Source := s, t_Destination := d,
     t_PreciseAmount := Some a, t_Status := ''QUEUED''\<rparr>"

definition ex_batch :: "Transaction list" where
  "ex_batch = [ex_queued ''q1'' ''bln_a'' ''bln_b'' 250, ex_queued ''q2'' ''bln_b'' ''bln_a'' 100]"

definition ex_cc :: coalescing_cfg where
  "ex_cc = \<lparr>cc_EnableCoalescing = True, cc_BatchSize = 10, cc_DisableBatchReferenceCheck = False\<rparr>"

lemma ex_batch_ok: "\<forall>t \<in> set ex_batch. plain_ids t \<and> t_Source t \<noteq> t_Destination t \<and> t_Status t = StatusQueued"
  by (simp add: ex_batch_def ex_queued_def plain_ids_def has_prefix_def)

lemma ex_batch_runs:
  "snd (persistQueuedTransactionBatchLocked ex_env ex_cc (collectQueuedCoalescingBalanceIDs ex_batch) ex_batch ex_store) = Inr ()"
  by code_simp

theorem batch_equals_sequence_witness:
  "\<exists>s' s''. persistQueuedTransactionBatchLocked ex_env ex_cc (collectQueuedCoalescingBalanceIDs ex_batch) ex_batch ex_store =
      (s', Inr ()) \<and> record_each ex_env ex_batch ex_store = (s'', Inr ()) \<and> st_transactions s'' = st_transactions s'"
proof -
  let ?run = "persistQueuedTransactionBatchLocked ex_env ex_cc (collectQueuedCoalescingBalanceIDs ex_batch) ex_batch ex_store"
  have run: "?run = (fst ?run, Inr ())" using ex_batch_runs by (simp add: prod_eq_iff)
  have "\<forall>p. \<not> e_F ex_env p" by (simp add: ex_env_def)
  from batch_equals_sequence [OF ex_store_ok this ex_env_ok(4) ex_batch_ok run]
  show ?thesis using run by (elim exE conjE) (intro exI conjI)
qed

text \<open>
  A sibling is rebuilt from its row, which has no column for the overdraft limit: one that was
  queued with an overdraft up to a limit is coalesced with an overdraft without limit.
\<close>

lemma coalesced_sibling_loses_limit:
  assumes "canCoalesceQueuedOriginal (restoreTransactionFlagsFromMetadata (scan_queued D (row_of t am))) = None"
    and "meta_get (t_MetaData t) ''allow_overdraft'' = Some (JBool True)"
  obtains c where "copy_siblings fresh i [scan_queued D (row_of t am)] = [c]" "t_AllowOverdraft c" "t_OverdraftLimit c = 0"
    "\<forall>b. canProcessTransaction D c b = Inr b"
proof -
  let ?r = "restoreTransactionFlagsFromMetadata (scan_queued D (row_of t am))"
  let ?c = "createQueueCopy (fresh i) ?r (t_Reference ?r)"
  have c: "copy_siblings fresh i [scan_queued D (row_of t am)] = [?c]" using assms(1) by (simp add: Let_def)
  have "t_AllowOverdraft ?c" "t_OverdraftLimit ?c = 0"
    using assms(2) by (simp_all add: createQueueCopy_def restoreTransactionFlagsFromMetadata_def scan_queued_def row_of_def
        meta_flag_def zero_Transaction_def)
  with c that show thesis by (simp add: canProcessTransaction_def)
qed

end
