(* ===== verification/Queueing.thy ===== *)
theory Queueing
  imports Coalescing
begin

text \<open>
  The way of a transaction into the queue (\<open>transaction_queue.go\<close>): status and metadata, splitting,
  the persisted original, the copy that the workers execute, and the synchronous path. The state
  is the ledger with its Redis, the task queue, the hot-pair keys and the goroutines that
  \<open>processTransactionAsync\<close> has started and that have not run yet. The clock stands still within
  one call. A failed split of an atomic transaction is rolled back by \<open>rb\<close>, which \<open>Refunds\<close> defines.
\<close>

section \<open>The model\<close>

subsection \<open>State and configuration\<close>

record job =
  j_txn :: Transaction
  j_legs :: "Transaction list"
  j_id :: string
  j_ref :: string

record ('r, 'q, 'h) site =
  si_world :: "'r world"
  si_queue :: 'q
  si_hot :: 'h
  si_jobs :: "job list"

record ('d, 'r, 'q, 'h) hub =
  hb_sys :: "('d, 'r, 'q) sys"
  hb_hot :: "'h Manager option"
  hb_PF :: "string \<Rightarrow> float64 option"
  hb_ordd :: "(string \<times> 'd) list \<Rightarrow> (string \<times> 'd) list"
  hb_ordi :: "(string \<times> int) list \<Rightarrow> (string \<times> int) list"
  hb_shadow :: nat
  hb_select :: "string \<Rightarrow> nat option"

abbreviation si_store :: "('r, 'q, 'h) site \<Rightarrow> store" where "si_store x \<equiv> w_store (si_world x)"
abbreviation hb_env :: "('d, 'r, 'q, 'h) hub \<Rightarrow> ('d, 'r) env" where "hb_env U \<equiv> y_env (hb_sys U)"

definition put_store :: "store \<Rightarrow> ('r, 'q, 'h) site \<Rightarrow> ('r, 'q, 'h) site" where
  "put_store s x = x\<lparr>si_world := (si_world x)\<lparr>w_store := s\<rparr>\<rparr>"

subsection \<open>Preparation\<close>

definition setTransactionStatus :: "Transaction \<Rightarrow> Transaction" where
  "setTransactionStatus t =
     (if t_ScheduledFor t \<noteq> 0 then t\<lparr>t_Status := StatusScheduled\<rparr>
      else if t_Status t = [] then t\<lparr>t_Status := StatusQueued\<rparr> else t)"

definition flag :: "bool \<Rightarrow> string \<Rightarrow> metadata \<Rightarrow> metadata" where
  "flag b k m = (if b then meta_put k (JBool True) m else m)"

definition setTransactionMetadata :: "('d, 'r, 'q) sys \<Rightarrow> store \<Rightarrow> Transaction \<Rightarrow> Transaction" where
  "setTransactionMetadata Y s t =
     (let t1 = t\<lparr>t_CreatedAt := y_now Y,
                 t_EffectiveDate := (case t_EffectiveDate t of None \<Rightarrow> Some (y_now Y) | d \<Rightarrow> d)\<rparr>;
          t2 = ApplyPrecision (e_D (y_env Y)) (t1\<lparr>t_Hash := HashTxn (y_H Y) t1\<rparr>);
          t3 = (if t_TransactionID t2 = [] then t2\<lparr>t_TransactionID := fresh_uuid Y ''txn'' s\<rparr> else t2);
          m = (case t_MetaData t3 of None \<Rightarrow> Some Map.empty | m \<Rightarrow> m)
      in t3\<lparr>t_MetaData := flag (t_AllowOverdraft t3) ''allow_overdraft''
              (flag (t_Atomic t3) ''atomic'' (flag (t_Inflight t3) ''inflight'' m))\<rparr>)"

text \<open>The counter of \<open>AssignQueueLane\<close> is the datasource.\<close>

definition lane_counter :: "('d, 'r, 'q) sys \<Rightarrow> store \<Rightarrow> counter" where
  "lane_counter Y s = Some (\<lambda>source destination currency lane.
     CountQueuedTransactionsForPairLane (y_F Y) source destination currency lane s)"

definition prepareTransactionForQueue ::
    "('d, 'r, 'q, 'h) hub \<Rightarrow> Transaction \<Rightarrow> ('r, 'q, 'h) site \<Rightarrow> ('r, 'q, 'h) site \<times> Transaction res" where
  "prepareTransactionForQueue U t0 x =
     (let Y = hb_sys U; t1 = setTransactionMetadata Y (si_store x) (setTransactionStatus t0)
      in case getSourceAndDestination (y_env Y) t1 (si_store x) of
           (s, Inl e) \<Rightarrow> (put_store s x, Inl (Wrap ''failed to get source/destination balances'' e))
         | (s, Inr (t2, sb, db)) \<Rightarrow>
             (case AssignQueueLane (hb_hot U) (lane_counter Y s)
                     (t2\<lparr>t_Source := b_BalanceID sb, t_Destination := b_BalanceID db\<rparr>) (si_hot x) of
                (h, t3) \<Rightarrow> ((put_store s x)\<lparr>si_hot := h\<rparr>, Inr t3)))"

text \<open>Persisting the original and copying it for the workers.\<close>

definition persist_and_copy ::
    "('d, 'r, 'q, 'h) hub \<Rightarrow> Transaction \<Rightarrow> string \<Rightarrow> ('r, 'q, 'h) site \<Rightarrow> ('r, 'q, 'h) site \<times> Transaction res" where
  "persist_and_copy U t ref x =
     (case RecordTransaction_db (y_F (hb_sys U)) t (si_store x) of
        (s, Inl e) \<Rightarrow> (put_store s x, Inl (Wrap ''failed to persist original transaction'' e))
      | (s, Inr p) \<Rightarrow> (put_store s x, Inr (createQueueCopy (fresh_uuid (hb_sys U) ''txn'' s) p ref)))"

definition processSingleTransaction ::
    "('d, 'r, 'q, 'h) hub \<Rightarrow> Transaction \<Rightarrow> string \<Rightarrow> ('r, 'q, 'h) site \<Rightarrow> ('r, 'q, 'h) site \<times> Transaction list res" where
  "processSingleTransaction U t originalRef x =
     (case (if t_Sources t = [] \<and> t_Destinations t = [] then prepareTransactionForQueue U t x else (x, Inr t)) of
        (x1, Inl e) \<Rightarrow> (x1, Inl e)
      | (x1, Inr t1) \<Rightarrow>
          (case persist_and_copy U t1 originalRef x1 of
             (x2, Inl e) \<Rightarrow> (x2, Inl e) | (x2, Inr c) \<Rightarrow> (x2, Inr [c])))"

definition updateSplitTransactions :: "Transaction list \<Rightarrow> string \<Rightarrow> string \<Rightarrow> Transaction list" where
  "updateSplitTransactions ts parentID originalRef =
     map (\<lambda>(i, t). t\<lparr>t_ParentTransaction := parentID, t_Reference := originalRef @ ''_'' @ show_nat (i + 1)\<rparr>) (enumerate 0 ts)"

text \<open>
  The legs are copies of one struct and share its metadata map \<open>m\<close>: what the preparation of a leg
  writes, all see. A row has the map at the time it is persisted, the copies have the last one.
\<close>

fun split_legs ::
    "('d, 'r, 'q, 'h) hub \<Rightarrow> nat \<Rightarrow> Transaction list \<Rightarrow> metadata \<Rightarrow> ('r, 'q, 'h) site
       \<Rightarrow> ('r, 'q, 'h) site \<times> (metadata \<times> Transaction list) res" where
  "split_legs U i [] m x = (x, Inr (m, []))"
| "split_legs U i (t # ts) m x =
     (case prepareTransactionForQueue U (t\<lparr>t_MetaData := m\<rparr>) x of
        (x1, Inl e) \<Rightarrow> (x1, Inl (Wrap (''failed to prepare split transaction '' @ show_nat i) e))
      | (x1, Inr t1) \<Rightarrow>
          (case persist_and_copy U t1 (t_Reference t) x1 of
             (x2, Inl e) \<Rightarrow> (x2, Inl e)
           | (x2, Inr c) \<Rightarrow>
               (case split_legs U (Suc i) ts (t_MetaData t1) x2 of
                  (x3, Inl e) \<Rightarrow> (x3, Inl e)
                | (x3, Inr (m', cs)) \<Rightarrow> (x3, Inr (m', c # cs)))))"

definition processSplitTransactions ::
    "('d, 'r, 'q, 'h) hub \<Rightarrow> Transaction list \<Rightarrow> metadata \<Rightarrow> string \<Rightarrow> string \<Rightarrow> ('r, 'q, 'h) site
       \<Rightarrow> ('r, 'q, 'h) site \<times> Transaction list res" where
  "processSplitTransactions U ts m originalTxnID originalRef x =
     (case split_legs U 0 (updateSplitTransactions ts originalTxnID originalRef) m x of
        (x', Inl e) \<Rightarrow> (x', Inl e)
      | (x', Inr (m', cs)) \<Rightarrow> (x', Inr (map (\<lambda>c. c\<lparr>t_MetaData := m'\<rparr>) cs)))"

subsection \<open>Processing\<close>

text \<open>The rollback of a batch, by its id and whether it is inflight.\<close>

type_synonym ('r, 'q, 'h) undo = "string \<Rightarrow> bool \<Rightarrow> ('r, 'q, 'h) site \<Rightarrow> ('r, 'q, 'h) site option"

definition record_at ::
    "('d, 'r, 'q, 'h) hub \<Rightarrow> Transaction \<Rightarrow> ('r, 'q, 'h) site \<Rightarrow> (('r, 'q, 'h) site \<times> Transaction res) option" where
  "record_at U t x = (case RecordTransaction (hb_env U) t (si_world x) of
     None \<Rightarrow> None | Some (w, r) \<Rightarrow> Some (x\<lparr>si_world := w\<rparr>, r))"

fun record_legs ::
    "('d, 'r, 'q, 'h) hub \<Rightarrow> ('r, 'q, 'h) undo \<Rightarrow> string \<Rightarrow> nat \<Rightarrow> Transaction list \<Rightarrow> ('r, 'q, 'h) site
       \<Rightarrow> (('r, 'q, 'h) site \<times> Transaction list res) option" where
  "record_legs U rb batchID i [] x = Some (x, Inr [])"
| "record_legs U rb batchID i (t # ts) x =
     (case record_at U t x of None \<Rightarrow> None
      | Some (x1, Inl e) \<Rightarrow>
          (case (if t_Atomic t then rb batchID (t_Inflight t) x1 else Some x1) of
             None \<Rightarrow> None
           | Some x2 \<Rightarrow> Some (x2, Inl (Wrap (''failed to record split transaction '' @ show_nat i) e)))
      | Some (x1, Inr r) \<Rightarrow>
          (case record_legs U rb batchID (Suc i) ts x1 of None \<Rightarrow> None
           | Some (x2, Inl e) \<Rightarrow> Some (x2, Inl e)
           | Some (x2, Inr rs) \<Rightarrow> Some (x2, Inr (r # rs))))"

definition processTxns ::
    "('d, 'r, 'q, 'h) hub \<Rightarrow> ('r, 'q, 'h) undo \<Rightarrow> Transaction \<Rightarrow> Transaction list \<Rightarrow> string \<Rightarrow> string
       \<Rightarrow> ('r, 'q, 'h) site \<Rightarrow> (('r, 'q, 'h) site \<times> Transaction list res) option" where
  "processTxns U rb orig splits originalTxnID originalRef x =
     (if t_SkipQueue orig then
        (if splits = [] then
           (case record_at U orig x of None \<Rightarrow> None
            | Some (x1, Inl e) \<Rightarrow> Some (x1, Inl e) | Some (x1, Inr r) \<Rightarrow> Some (x1, Inr [r]))
         else record_legs U rb originalTxnID 0 splits x)
      else if splits = [] then Some (processSingleTransaction U orig originalRef x)
      else Some (processSplitTransactions U splits (t_MetaData orig) originalTxnID originalRef x))"

fun enqueue_all ::
    "('d, 'r, 'q, 'h) hub \<Rightarrow> Transaction list \<Rightarrow> ('r, 'q, 'h) site \<Rightarrow> ('r, 'q, 'h) site \<times> unit res" where
  "enqueue_all U [] x = (x, Inr ())"
| "enqueue_all U (t # ts) x =
     (case Enqueue (y_Q (hb_sys U)) (y_cfg (hb_sys U)) (y_now (hb_sys U)) t (si_queue x) of
        (q, Inl e) \<Rightarrow> (x\<lparr>si_queue := q\<rparr>, Inl e)
      | (q, Inr _) \<Rightarrow> enqueue_all U ts (x\<lparr>si_queue := q\<rparr>))"

definition enqueueTransactions ::
    "('d, 'r, 'q, 'h) hub \<Rightarrow> Transaction \<Rightarrow> Transaction list \<Rightarrow> ('r, 'q, 'h) site \<Rightarrow> ('r, 'q, 'h) site \<times> unit res" where
  "enqueueTransactions U orig splits x = enqueue_all U (if splits = [] then [orig] else splits) x"

text \<open>
  The goroutine of \<open>processTransactionAsync\<close>. When the processing fails there is nothing to
  enqueue but the original.
\<close>

definition run_job ::
    "('d, 'r, 'q, 'h) hub \<Rightarrow> ('r, 'q, 'h) undo \<Rightarrow> job \<Rightarrow> ('r, 'q, 'h) site \<Rightarrow> ('r, 'q, 'h) site option" where
  "run_job U rb j x =
     (case processTxns U rb (j_txn j) (j_legs j) (j_id j) (j_ref j) x of
        None \<Rightarrow> None
      | Some (x1, r) \<Rightarrow>
          Some (if t_SkipQueue (j_txn j) then x1
                else fst (enqueueTransactions U (j_txn j) (case r of Inl _ \<Rightarrow> [] | Inr ts \<Rightarrow> ts) x1)))"

definition processTransactionAsync ::
    "Transaction \<Rightarrow> string \<Rightarrow> string \<Rightarrow> Transaction list \<Rightarrow> ('r, 'q, 'h) site \<Rightarrow> ('r, 'q, 'h) site" where
  "processTransactionAsync t originalRef originalTxnID legs x =
     x\<lparr>si_jobs := si_jobs x @ [\<lparr>j_txn = t, j_legs = legs, j_id = originalTxnID, j_ref = originalRef\<rparr>]\<rparr>"

definition run_next ::
    "('d, 'r, 'q, 'h) hub \<Rightarrow> ('r, 'q, 'h) undo \<Rightarrow> nat \<Rightarrow> ('r, 'q, 'h) site \<Rightarrow> ('r, 'q, 'h) site option" where
  "run_next U rb i x =
     (if i < length (si_jobs x)
      then run_job U rb (si_jobs x ! i) (x\<lparr>si_jobs := take i (si_jobs x) @ drop (Suc i) (si_jobs x)\<rparr>) else None)"

subsection \<open>Queueing\<close>

definition handleSplitTransactions :: "('d, 'r, 'q, 'h) hub \<Rightarrow> store \<Rightarrow> Transaction \<Rightarrow> (Transaction \<times> Transaction list) res" where
  "handleSplitTransactions U s t =
     (case SplitTransactionPrecise (e_D (hb_env U)) (hb_PF U) (hb_ordd U) (hb_ordi U) (y_H (hb_sys U))
             (\<lambda>n. fresh_uuid (hb_sys U) (''txn-'' @ show_nat n) s) t of
        Inl e \<Rightarrow> Inl (Wrap ''failed to split transaction'' e) | Inr r \<Rightarrow> Inr r)"

text \<open>The two tasks that settle an inflight transaction at a date.\<close>

definition queue_dates ::
    "('d, 'r, 'q, 'h) hub \<Rightarrow> Transaction \<Rightarrow> ('r, 'q, 'h) site \<Rightarrow> ('r, 'q, 'h) site \<times> Transaction res" where
  "queue_dates U t x =
     (let Y = hb_sys U in
      case QueueInflightExpiry (y_Q Y) (y_cfg Y) (y_now Y) t (si_queue x) of
        (q, Inl e) \<Rightarrow> (x\<lparr>si_queue := q\<rparr>, Inl (logAndRecordError ''failed to queue inflight expiry'' e))
      | (q, Inr _) \<Rightarrow>
          (case QueueInflightCommit (y_Q Y) (y_cfg Y) (y_now Y) (fresh_uuid Y ''act'' (si_store x)) t q of
             (q', Inl e) \<Rightarrow> (x\<lparr>si_queue := q'\<rparr>, Inl (logAndRecordError ''failed to queue inflight commit'' e))
           | (q', Inr _) \<Rightarrow> (x\<lparr>si_queue := q'\<rparr>, Inr t)))"

text \<open>Recording changes the struct in place: what is returned is the recorded transaction.\<close>

definition QueueTransaction ::
    "('d, 'r, 'q, 'h) hub \<Rightarrow> ('r, 'q, 'h) undo \<Rightarrow> Transaction \<Rightarrow> ('r, 'q, 'h) site
       \<Rightarrow> (('r, 'q, 'h) site \<times> Transaction res) option" where
  "QueueTransaction U rb t0 x =
     (let originalRef = t_Reference t0;
          t1 = setTransactionStatus (setTransactionMetadata (hb_sys U) (si_store x) t0);
          originalTxnID = t_TransactionID t1
      in case handleSplitTransactions U (si_store x) t1 of
           Inl e \<Rightarrow> Some (x, Inl e)
         | Inr (t2, legs) \<Rightarrow>
             if t_SkipQueue t2 then
               (case processTxns U rb t2 legs originalTxnID originalRef x of
                  None \<Rightarrow> None
                | Some (x1, Inl e) \<Rightarrow> Some (x1, Inl e)
                | Some (x1, Inr rs) \<Rightarrow>
                    Some (queue_dates U ((if legs = [] then hd rs else t2)
                      \<lparr>t_Status := (if t_Inflight t2 then StatusInflight else StatusApplied)\<rparr>) x1))
             else
               (let pid = (if str_contains (t_ParentTransaction t2) ''bulk'' then t_ParentTransaction t2 else originalTxnID);
                    t3 = t2\<lparr>t_MetaData := meta_put ''QUEUED_PARENT_TRANSACTION'' (JStr pid) (t_MetaData t2)\<rparr>
                in Some (queue_dates U t3 (processTransactionAsync t3 originalRef originalTxnID legs x))))"

section \<open>Facts\<close>

subsection \<open>Preparation\<close>

lemma si_store_put [simp]: "si_store (put_store s x) = s" "si_queue (put_store s x) = si_queue x"
  "si_jobs (put_store s x) = si_jobs x" "si_hot (put_store s x) = si_hot x" "w_redis (si_world (put_store s x)) = w_redis (si_world x)"
  by (simp_all add: put_store_def)

lemma setTransactionStatus_fields [simp]:
  "t_PreciseAmount (setTransactionStatus t) = t_PreciseAmount t" "t_Source (setTransactionStatus t) = t_Source t"
  "t_Destination (setTransactionStatus t) = t_Destination t" "t_Reference (setTransactionStatus t) = t_Reference t"
  "t_TransactionID (setTransactionStatus t) = t_TransactionID t" "t_Inflight (setTransactionStatus t) = t_Inflight t"
  "t_ParentTransaction (setTransactionStatus t) = t_ParentTransaction t" "t_Currency (setTransactionStatus t) = t_Currency t"
  "t_AllowOverdraft (setTransactionStatus t) = t_AllowOverdraft t" "t_OverdraftLimit (setTransactionStatus t) = t_OverdraftLimit t"
  "t_SkipQueue (setTransactionStatus t) = t_SkipQueue t" "t_Sources (setTransactionStatus t) = t_Sources t"
  "t_Destinations (setTransactionStatus t) = t_Destinations t" "t_MetaData (setTransactionStatus t) = t_MetaData t"
  "t_InflightExpiryDate (setTransactionStatus t) = t_InflightExpiryDate t" "t_AmountString (setTransactionStatus t) = t_AmountString t"
  "t_InflightCommitDate (setTransactionStatus t) = t_InflightCommitDate t" "t_ScheduledFor (setTransactionStatus t) = t_ScheduledFor t"
  "t_Precision (setTransactionStatus t) = t_Precision t"
  by (simp_all add: setTransactionStatus_def)

lemma ApplyPrecision_frame [simp]:
  "t_Source (ApplyPrecision D t) = t_Source t" "t_Destination (ApplyPrecision D t) = t_Destination t"
  "t_Reference (ApplyPrecision D t) = t_Reference t" "t_TransactionID (ApplyPrecision D t) = t_TransactionID t"
  "t_Inflight (ApplyPrecision D t) = t_Inflight t" "t_ParentTransaction (ApplyPrecision D t) = t_ParentTransaction t"
  "t_Currency (ApplyPrecision D t) = t_Currency t" "t_AllowOverdraft (ApplyPrecision D t) = t_AllowOverdraft t"
  "t_OverdraftLimit (ApplyPrecision D t) = t_OverdraftLimit t" "t_SkipQueue (ApplyPrecision D t) = t_SkipQueue t"
  "t_Sources (ApplyPrecision D t) = t_Sources t" "t_Destinations (ApplyPrecision D t) = t_Destinations t"
  "t_MetaData (ApplyPrecision D t) = t_MetaData t" "t_InflightExpiryDate (ApplyPrecision D t) = t_InflightExpiryDate t"
  "t_InflightCommitDate (ApplyPrecision D t) = t_InflightCommitDate t" "t_ScheduledFor (ApplyPrecision D t) = t_ScheduledFor t"
  "t_Status (ApplyPrecision D t) = t_Status t" "t_Atomic (ApplyPrecision D t) = t_Atomic t"
  by (simp_all add: ApplyPrecision_def applyPrecisionLogic_def convertPreciseToDecimal_def Let_def split: option.split)

lemma setTransactionMetadata_fields [simp]:
  "t_Source (setTransactionMetadata Y s t) = t_Source t" "t_Destination (setTransactionMetadata Y s t) = t_Destination t"
  "t_Reference (setTransactionMetadata Y s t) = t_Reference t" "t_Inflight (setTransactionMetadata Y s t) = t_Inflight t"
  "t_ParentTransaction (setTransactionMetadata Y s t) = t_ParentTransaction t" "t_Currency (setTransactionMetadata Y s t) = t_Currency t"
  "t_AllowOverdraft (setTransactionMetadata Y s t) = t_AllowOverdraft t" "t_OverdraftLimit (setTransactionMetadata Y s t) = t_OverdraftLimit t"
  "t_SkipQueue (setTransactionMetadata Y s t) = t_SkipQueue t" "t_Sources (setTransactionMetadata Y s t) = t_Sources t"
  "t_Destinations (setTransactionMetadata Y s t) = t_Destinations t" "t_Status (setTransactionMetadata Y s t) = t_Status t"
  "t_InflightExpiryDate (setTransactionMetadata Y s t) = t_InflightExpiryDate t"
  "t_InflightCommitDate (setTransactionMetadata Y s t) = t_InflightCommitDate t" "t_ScheduledFor (setTransactionMetadata Y s t) = t_ScheduledFor t"
  "t_TransactionID (setTransactionMetadata Y s t) = (if t_TransactionID t = [] then fresh_uuid Y ''txn'' s else t_TransactionID t)"
  by (simp_all add: setTransactionMetadata_def Let_def)

lemma setTransactionMetadata_some: "\<exists>m. t_MetaData (setTransactionMetadata Y s t) = Some m"
  by (simp add: setTransactionMetadata_def Let_def flag_def meta_put_def split: option.split)

text \<open>A positive precise amount is kept, and its decimal text is a numeric literal.\<close>

lemma setTransactionMetadata_amount:
  assumes "t_PreciseAmount t = Some a" "0 < a"
  shows "t_PreciseAmount (setTransactionMetadata Y s t) = Some a"
    and "decimal_pkg (e_D (y_env Y)) val \<Longrightarrow> \<exists>q. parse_decimal (t_AmountString (setTransactionMetadata Y s t)) = Some q"
  using ApplyPrecision_pos [of "t\<lparr>t_CreatedAt := _, t_EffectiveDate := _, t_Hash := _\<rparr>" a] assms
    AmountString_parses [of "e_D (y_env Y)" val "t\<lparr>t_CreatedAt := _, t_EffectiveDate := _, t_Hash := _\<rparr>" a]
  by (simp_all add: setTransactionMetadata_def Let_def)

subsection \<open>A transaction without distributions\<close>

lemma split_none:
  assumes "decimal_pkg D val" "t_Sources t = []" "t_Destinations t = []" "t_PreciseAmount t = Some a" "0 < a"
    and "ordd [] = []" "ordi [] = []"
  shows "SplitTransactionPrecise D PF ordd ordi H uuid t = Inr (t, [])"
proof -
  note D = decimal_pkg.cmp [OF assms(1)] decimal_pkg.new_int [OF assms(1)]
  have "handleSmallAmount a [] = None" by (simp add: handleSmallAmount_def)
  then have "CalculateDistributionsPrecise D PF ordd ordi a [] p = Inr []" for p
    using assms(5-7)
    by (simp add: CalculateDistributionsPrecise_def Let_def validateDistributions_def D adjustPercentageAmounts_def
        combineDistributions_def processLeftDistribution_def balanceDistributions_def)
  then show ?thesis using assms(2-4,7) by (simp add: SplitTransactionPrecise_def record_ids_def Let_def)
qed

lemma put_store_same [simp]: "put_store (si_store x) x = x"
  by (simp add: put_store_def)

lemma put_store_hot: "put_store s (x\<lparr>si_hot := h\<rparr>) = (put_store s x)\<lparr>si_hot := h\<rparr>"
  by (simp add: put_store_def)

lemma AssignQueueLane_meta:
  obtains h' m where "AssignQueueLane M c t h = (h', t\<lparr>t_MetaData := Some m\<rparr>)"
proof -
  have "\<exists>h' m. AssignQueueLane M c t h = (h', t\<lparr>t_MetaData := Some m\<rparr>)"
    by (auto simp: AssignQueueLane_def Let_def meta_put_def split: prod.split)
  then show ?thesis using that by blast
qed

lemma prepare_plain:
  assumes "quiet (hb_env U)" "\<not> e_EnableQueuedChecks (hb_env U)"
    and ids: "\<not> has_prefix (t_Source t) ''@''" "\<not> has_prefix (t_Destination t) ''@''"
    and rs: "find_balance (t_Source t) (si_store x) = Some rs" and rd: "find_balance (t_Destination t) (si_store x) = Some rd"
  obtains h m where "prepareTransactionForQueue U t x =
    (x\<lparr>si_hot := h\<rparr>, Inr ((setTransactionMetadata (hb_sys U) (si_store x) (setTransactionStatus t))\<lparr>t_MetaData := Some m\<rparr>))"
proof -
  let ?t = "setTransactionMetadata (hb_sys U) (si_store x) (setTransactionStatus t)"
  have F: "\<forall>p. \<not> e_F (hb_env U) p" using assms(1) by (simp add: quiet_def)
  have g: "getSourceAndDestination (hb_env U) ?t (si_store x) = (si_store x, Inr (?t, lite rs, lite rd))"
    using ids rs rd F assms(2)
    by (simp add: getSourceAndDestination_def side_balance_def lookup_balance_def GetBalanceByIDLite_def)
  have e: "?t\<lparr>t_Source := b_BalanceID rs, t_Destination := b_BalanceID rd\<rparr> = ?t"
    using rs rd by (simp add: find_balance_SomeD)
  obtain h m where "AssignQueueLane (hb_hot U) (lane_counter (hb_sys U) (si_store x)) ?t (si_hot x) = (h, ?t\<lparr>t_MetaData := Some m\<rparr>)"
    by (rule AssignQueueLane_meta)
  then show ?thesis using that by (simp add: prepareTransactionForQueue_def Let_def g e)
qed

text \<open>A row that the tables accept is persisted, and its copy is handed on.\<close>

lemma persist_fresh:
  assumes "quiet (hb_env U)" "t_PreciseAmount t = Some a" "parse_decimal (t_AmountString t) = Some q"
    and "t_TransactionID t \<notin> t_TransactionID ` set (st_transactions (si_store x))"
      "t_Reference t \<notin> t_Reference ` set (st_transactions (si_store x))"
    and "find_balance (t_Source t) (si_store x) \<noteq> None" "find_balance (t_Destination t) (si_store x) \<noteq> None"
  shows "persist_and_copy U t ref x =
    (let s = (si_store x)\<lparr>st_transactions := st_transactions (si_store x) @ [row_of t q]\<rparr>
     in (put_store s x, Inr (createQueueCopy (fresh_uuid (hb_sys U) ''txn'' s) t ref)))"
  using assms by (simp add: persist_and_copy_def RecordTransaction_db_def insert_row_def quiet_def Let_def)

subsection \<open>From the request to the queue\<close>

text \<open>A transfer between two stored balances that nothing stands in the way of.\<close>

definition transferable :: "('d, 'r) env \<Rightarrow> Transaction \<Rightarrow> int \<Rightarrow> Balance \<Rightarrow> Balance \<Rightarrow> 'r world \<Rightarrow> bool" where
  "transferable E t a rs rd w \<longleftrightarrow> \<not> has_prefix (t_Source t) ''@'' \<and> \<not> has_prefix (t_Destination t) ''@'' \<and>
     t_Source t \<noteq> t_Destination t \<and> find_balance (t_Source t) (w_store w) = Some rs \<and>
     find_balance (t_Destination t) (w_store w) = Some rd \<and>
     kv (e_R E) (w_redis w) (t_Source t) = None \<and> kv (e_R E) (w_redis w) (t_Destination t) = None \<and>
     t_PreciseAmount t = Some a \<and> 0 < a \<and> (t_AllowOverdraft t \<and> t_OverdraftLimit t = 0 \<or> a \<le> bal rs - idr rs)"

text \<open>The configuration of an undisturbed run: no call fails, the packages keep their contracts.\<close>

definition undisturbed :: "('d, 'r, 'q, 'h) hub \<Rightarrow> ('d \<Rightarrow> rat) \<Rightarrow> bool" where
  "undisturbed U val \<longleftrightarrow> decimal_pkg (e_D (hb_env U)) val \<and> quiet (hb_env U) \<and> uuids_ok (hb_env U) \<and>
     \<not> e_EnableQueuedChecks (hb_env U) \<and> hb_ordd U [] = [] \<and> hb_ordi U [] = []"

text \<open>A single transaction for the queue, with no dates.\<close>

definition plain_request :: "Transaction \<Rightarrow> bool" where
  "plain_request t \<longleftrightarrow> t_Sources t = [] \<and> t_Destinations t = [] \<and> t_Status t = [] \<and> t_ScheduledFor t = 0 \<and>
     t_InflightExpiryDate t = 0 \<and> t_InflightCommitDate t = 0 \<and> t_TransactionID t \<noteq> []"

lemma split_plain:
  assumes "undisturbed U val" "plain_request t" "t_PreciseAmount t = Some a" "0 < a"
  shows "handleSplitTransactions U s (setTransactionStatus (setTransactionMetadata (hb_sys U) s' t)) =
    Inr (setTransactionStatus (setTransactionMetadata (hb_sys U) s' t), [])"
proof -
  let ?t = "setTransactionStatus (setTransactionMetadata (hb_sys U) s' t)"
  have d: "decimal_pkg (e_D (hb_env U)) val" "hb_ordd U [] = []" "hb_ordi U [] = []"
    using assms(1) by (simp_all add: undisturbed_def)
  have "t_Sources ?t = []" "t_Destinations ?t = []" "t_PreciseAmount ?t = Some a"
    using assms(2-4) by (simp_all add: plain_request_def setTransactionMetadata_amount)
  from split_none [where ordd = "hb_ordd U" and ordi = "hb_ordi U", OF d(1) this assms(4) d(2,3)] show ?thesis by (simp add: handleSplitTransactions_def)
qed

lemma plain_status: "plain_request t \<Longrightarrow> t_Status (setTransactionStatus (setTransactionMetadata Y s t)) = StatusQueued"
  by (simp add: setTransactionStatus_def plain_request_def)

lemma QueueTransaction_queued:
  assumes "undisturbed U val" "plain_request t" "t_PreciseAmount t = Some a" "0 < a" "\<not> t_SkipQueue t"
  obtains m where "QueueTransaction U rb t x =
    (let t' = (setTransactionStatus (setTransactionMetadata (hb_sys U) (si_store x) t))\<lparr>t_MetaData := Some m\<rparr>
     in Some (x\<lparr>si_jobs := si_jobs x @ [\<lparr>j_txn = t', j_legs = [], j_id = t_TransactionID t, j_ref = t_Reference t\<rparr>]\<rparr>, Inr t'))"
proof -
  have "t_TransactionID t \<noteq> []" "t_InflightExpiryDate t = 0" "t_InflightCommitDate t = 0"
    using assms(2) by (simp_all add: plain_request_def)
  then show ?thesis
    using that split_plain [OF assms(1-4)] assms(5)
    by (simp add: QueueTransaction_def Let_def processTransactionAsync_def queue_dates_def QueueInflightExpiry_def
        QueueInflightCommit_def meta_put_def)
qed

text \<open>The recorded transaction of the synchronous path.\<close>

lemma QueueTransaction_skip:
  assumes "undisturbed U val" "plain_request t" "t_PreciseAmount t = Some a" "0 < a" "t_SkipQueue t"
    and "RecordTransaction (hb_env U) (setTransactionStatus (setTransactionMetadata (hb_sys U) (si_store x) t)) (si_world x) = Some (w, r)"
    and "\<forall>t'. r = Inr t' \<longrightarrow> t_InflightExpiryDate t' = 0 \<and> t_InflightCommitDate t' = 0"
  shows "QueueTransaction U rb t x = Some (x\<lparr>si_world := w\<rparr>, case r of Inl e \<Rightarrow> Inl e
     | Inr t' \<Rightarrow> Inr (t'\<lparr>t_Status := (if t_Inflight t then StatusInflight else StatusApplied)\<rparr>))"
  using split_plain [OF assms(1-4), of "si_store x" "si_store x"] assms(5-7)
  by (cases r) (simp_all add: QueueTransaction_def Let_def processTxns_def record_at_def queue_dates_def QueueInflightExpiry_def
      QueueInflightCommit_def)

text \<open>The goroutine persists the original and enqueues its copy.\<close>

lemma find_balance_insert [simp]: "find_balance k (s\<lparr>st_transactions := ts\<rparr>) = find_balance k s"
  by (simp add: find_balance_def)

lemma run_job_single:
  assumes U: "undisturbed U val" and j: "j_legs j = []" "\<not> t_SkipQueue (j_txn j)" "t_Sources (j_txn j) = []"
      "t_Destinations (j_txn j) = []" "t_TransactionID (j_txn j) \<noteq> []" "t_Reference (j_txn j) = j_ref j"
    and tr: "transferable (hb_env U) (j_txn j) a rs rd (si_world x)"
    and fresh: "t_TransactionID (j_txn j) \<notin> t_TransactionID ` set (st_transactions (si_store x))"
      "j_ref j \<notin> t_Reference ` set (st_transactions (si_store x))"
  obtains h t q c where "run_job U rb j x = Some (fst (enqueue_all U [c]
      ((put_store ((si_store x)\<lparr>st_transactions := st_transactions (si_store x) @ [row_of t q]\<rparr>) x)\<lparr>si_hot := h\<rparr>)))"
    and "t_TransactionID t = t_TransactionID (j_txn j)" "t_Reference t = j_ref j" "t_PreciseAmount t = Some a"
      "t_Status t = t_Status (setTransactionStatus (j_txn j))"
    and "c = createQueueCopy (fresh_uuid (hb_sys U) ''txn''
        ((si_store x)\<lparr>st_transactions := st_transactions (si_store x) @ [row_of t q]\<rparr>)) t (j_ref j)"
    and "t_Source t = t_Source (j_txn j)" "t_Destination t = t_Destination (j_txn j)" "t_Inflight t = t_Inflight (j_txn j)"
      "t_AllowOverdraft t = t_AllowOverdraft (j_txn j)" "t_OverdraftLimit t = t_OverdraftLimit (j_txn j)"
proof -
  have u: "quiet (hb_env U)" "decimal_pkg (e_D (hb_env U)) val" "\<not> e_EnableQueuedChecks (hb_env U)"
    using U by (simp_all add: undisturbed_def)
  let ?t = "setTransactionMetadata (hb_sys U) (si_store x) (setTransactionStatus (j_txn j))"
  have am: "t_PreciseAmount (setTransactionStatus (j_txn j)) = Some a" "0 < a" using tr by (simp_all add: transferable_def)
  obtain h m where p: "prepareTransactionForQueue U (j_txn j) x = (x\<lparr>si_hot := h\<rparr>, Inr (?t\<lparr>t_MetaData := Some m\<rparr>))"
    using prepare_plain [OF u(1,3), of "j_txn j" x rs rd] tr by (auto simp: transferable_def)
  obtain q where q: "parse_decimal (t_AmountString ?t) = Some q"
    using setTransactionMetadata_amount(2) [OF am u(2)] by blast
  let ?s = "(si_store x)\<lparr>st_transactions := st_transactions (si_store x) @ [row_of (?t\<lparr>t_MetaData := Some m\<rparr>) q]\<rparr>"
  have "persist_and_copy U (?t\<lparr>t_MetaData := Some m\<rparr>) (j_ref j) (x\<lparr>si_hot := h\<rparr>) =
      (put_store ?s (x\<lparr>si_hot := h\<rparr>), Inr (createQueueCopy (fresh_uuid (hb_sys U) ''txn'' ?s) (?t\<lparr>t_MetaData := Some m\<rparr>) (j_ref j)))"
    using persist_fresh [OF u(1), of "?t\<lparr>t_MetaData := Some m\<rparr>" a q "x\<lparr>si_hot := h\<rparr>"] am q fresh j tr
    by (simp add: setTransactionMetadata_amount Let_def transferable_def)
  then have "run_job U rb j x = Some (fst (enqueue_all U [createQueueCopy (fresh_uuid (hb_sys U) ''txn'' ?s) (?t\<lparr>t_MetaData := Some m\<rparr>) (j_ref j)]
      ((put_store ?s x)\<lparr>si_hot := h\<rparr>)))"
    using j p by (simp add: run_job_def processTxns_def processSingleTransaction_def enqueueTransactions_def put_store_hot)
  then show ?thesis
    by (rule that) (use j am in \<open>simp_all add: setTransactionMetadata_amount\<close>)
qed

lemma transferable_records:
  assumes "undisturbed U val" "store_ok (w_store w)" "transferable (hb_env U) t a rs rd w"
    and "t_TransactionID t \<notin> t_TransactionID ` set (st_transactions (w_store w))"
      "t_Reference t \<notin> t_Reference ` set (st_transactions (w_store w))"
      "t_TransactionID t \<notin> o_TransactionID ` set (st_outbox (w_store w))"
      "t_Status t \<in> {StatusQueued, StatusApplied, StatusScheduled}" "i = (if t_Inflight t then a else 0)"
  shows "\<exists>w' t' am rs' rd'. RecordTransaction (hb_env U) t w = Some (w', Inr t') \<and>
    t_Status t' = (if t_Inflight t then StatusInflight else StatusApplied) \<and>
    st_transactions (w_store w') = st_transactions (w_store w) @ [row_of t' am] \<and>
    find_balance (t_Source t) (w_store w') = Some rs' \<and> row_moved rs rs' 0 (a - i) 0 i \<and>
    find_balance (t_Destination t) (w_store w') = Some rd' \<and> row_moved rd rd' (a - i) 0 i 0 \<and>
    (\<forall>k. k \<noteq> t_Source t \<and> k \<noteq> t_Destination t \<longrightarrow> find_balance k (w_store w') = find_balance k (w_store w))"
  by (rule RecordTransaction_transfers [where val = val]) (use assms in \<open>simp_all add: undisturbed_def transferable_def\<close>)

subsection \<open>What recording keeps of the transaction\<close>

lemma apply_frame:
  assumes "applyTransactionToBalances D t True False h = Inr (t2, h')"
  shows "t_ParentTransaction t2 = t_ParentTransaction t \<and> t_InflightExpiryDate t2 = t_InflightExpiryDate t \<and>
    t_InflightCommitDate t2 = t_InflightCommitDate t \<and> t_MetaData t2 = t_MetaData t"
proof -
  consider "t_Status t = StatusCommit" | "t_Status t = StatusVoid" | "t_Status t \<noteq> StatusCommit" "t_Status t \<noteq> StatusVoid" by blast
  then show ?thesis by cases (use assms in \<open>auto simp: apply_commit apply_void apply_other UpdateBalances_iff\<close>)
qed

lemma RecordTransaction_frame:
  assumes "store_ok (w_store w)" "uuids_ok E" "RecordTransaction E t w = Some (w', Inr t')"
  shows "t_ParentTransaction t' = t_ParentTransaction t" "t_InflightExpiryDate t' = t_InflightExpiryDate t"
    "t_InflightCommitDate t' = t_InflightCommitDate t" "t_MetaData t' = t_MetaData t"
    "plain_ids t \<Longrightarrow> t_Source t' = t_Source t \<and> t_Destination t' = t_Destination t"
proof -
  from RecordTransaction_cases [OF assms] obtain s1 sid did
    where res: "resolveBalanceIDs E t (w_store w) = (s1, Inr (sid, did))"
      and ex: "executed E (t\<lparr>t_Source := sid, t_Destination := did\<rparr>) s1 (w_store w') t'" by auto
  from ex obtain t2 h sb db where
    pl: "plain_ids (t\<lparr>t_Source := sid, t_Destination := did\<rparr>) \<longrightarrow> b_BalanceID sb = sid \<and> b_BalanceID db = did"
    and ap: "applyTransactionToBalances (e_D E) (t\<lparr>t_Source := b_BalanceID sb, t_Destination := b_BalanceID db\<rparr>)
       True False (two_balances sb db) = Inr (t2, h)" and t': "t' = updateTransactionDetails t2 (h True) (h False)"
    unfolding executed_def by auto
  note fr = apply_frame [OF ap]
  show "t_ParentTransaction t' = t_ParentTransaction t" "t_InflightExpiryDate t' = t_InflightExpiryDate t"
    "t_InflightCommitDate t' = t_InflightCommitDate t" "t_MetaData t' = t_MetaData t"
    using fr by (simp_all add: t' updateTransactionDetails_def)
  have "b_BalanceID (h True) = b_BalanceID sb" "b_BalanceID (h False) = b_BalanceID db"
    using apply_moved [OF ap] by (auto simp: moved_def two_balances_def)
  moreover have "plain_ids t \<Longrightarrow> sid = t_Source t \<and> did = t_Destination t"
    using res resolveBalanceIDs_plain [of t E] by (auto simp: plain_ids_def)
  ultimately show "plain_ids t \<Longrightarrow> t_Source t' = t_Source t \<and> t_Destination t' = t_Destination t"
    using pl by (auto simp: t' updateTransactionDetails_def plain_ids_def)
qed

text \<open>
  All copies of a split transaction carry one lane, the one that was resolved for the last leg,
  although every leg has its own pair of balances.
\<close>

lemma split_copies_share_lane:
  assumes "processSplitTransactions U ts m tid ref x = (x', Inr cs)" "c \<in> set cs" "d \<in> set cs"
  shows "QueueLaneFromMetadata (t_MetaData c) = QueueLaneFromMetadata (t_MetaData d)"
  using assms by (auto simp: processSplitTransactions_def split: prod.splits sum.splits)

section \<open>Properties\<close>

lemma store_ok_insert:
  assumes "store_ok s" "t_PreciseAmount t \<noteq> None" "t_TransactionID t \<notin> t_TransactionID ` set (st_transactions s)"
    "t_Reference t \<notin> t_Reference ` set (st_transactions s)"
  shows "store_ok (s\<lparr>st_transactions := st_transactions s @ [row_of t q]\<rparr>)"
  using assms by (auto simp: store_ok_def row_of_def)

text \<open>The copy of a persisted original is recorded.\<close>

lemma queued_copy_records:
  assumes U: "undisturbed U val" and ok: "store_ok (w_store w)" and tr: "transferable (hb_env U) t a rs rd w"
    and u: "t_TransactionID u = t_TransactionID t" "t_Reference u = t_Reference t" "t_PreciseAmount u = Some a" "t_Status u = StatusQueued"
      "t_Source u = t_Source t" "t_Destination u = t_Destination t" "t_Inflight u = t_Inflight t"
      "t_AllowOverdraft u = t_AllowOverdraft t" "t_OverdraftLimit u = t_OverdraftLimit t"
    and fresh: "t_TransactionID t \<notin> t_TransactionID ` set (st_transactions (w_store w))"
      "t_Reference t \<notin> t_Reference ` set (st_transactions (w_store w))"
      "t_Reference t @ ''_q'' \<notin> t_Reference ` set (st_transactions (w_store w))"
      "cid \<notin> insert (t_TransactionID t) (t_TransactionID ` set (st_transactions (w_store w)) \<union> o_TransactionID ` set (st_outbox (w_store w)))"
    and c: "c = createQueueCopy cid u (t_Reference t)" and i: "i = (if t_Inflight t then a else 0)"
    and w1: "w1 = w\<lparr>w_store := (w_store w)\<lparr>st_transactions := st_transactions (w_store w) @ [row_of u q]\<rparr>\<rparr>"
  obtains w' t3 rs' rd' where "RecordTransaction (hb_env U) c w1 = Some (w', Inr t3)"
    "find_balance (t_Source t) (w_store w') = Some rs'" "row_moved rs rs' 0 (a - i) 0 i"
    "find_balance (t_Destination t) (w_store w') = Some rd'" "row_moved rd rd' (a - i) 0 i 0"
proof -
  have cf: "t_TransactionID c = cid" "t_Reference c = t_Reference t @ ''_q''" "t_Status c = StatusQueued"
    "t_Source c = t_Source t" "t_Destination c = t_Destination t" by (simp_all add: c createQueueCopy_def u)
  have "transferable (hb_env U) c a rs rd w1"
    using tr by (simp add: transferable_def c createQueueCopy_def u w1)
  moreover have "store_ok (w_store w1)" using store_ok_insert [OF ok, of u q] u fresh by (simp add: w1)
  moreover have "t_TransactionID c \<notin> t_TransactionID ` set (st_transactions (w_store w1))"
    "t_Reference c \<notin> t_Reference ` set (st_transactions (w_store w1))"
    "t_TransactionID c \<notin> o_TransactionID ` set (st_outbox (w_store w1))"
    using fresh cf by (simp_all add: row_of_def u w1)
  moreover have "t_Status c \<in> {StatusQueued, StatusApplied, StatusScheduled}" using cf(3) by simp
  moreover have "i = (if t_Inflight c then a else 0)" by (simp add: i c createQueueCopy_def u)
  ultimately show ?thesis
    using transferable_records [OF U, of w1 c a rs rd i] that unfolding cf(4,5) by blast
qed

text \<open>
  C13: a transaction that is accepted for the queue is executed once its copy is processed. Conditions:
  sound tables; no call of the database, the hooks or Redis fails, the queued checks are off and lock
  waiting is not configured; the request has no distributions, no status and no dates and does not skip the
  queue; source and destination are two different plain ids with rows in the table and free locks; the amount is
  positive and the source covers it or may overdraw without limit; the id, the reference, the reference
  with \<open>_q\<close> and the id of the copy are unused; and the task queue accepts the copy. Then the
  request only starts a goroutine; when that has run, no balance has moved, the original is stored
  as QUEUED and a copy under the new id, with the original as its parent and the reference extended
  by \<open>_q\<close>, is in the task queue; and recording the copy in that state succeeds and moves exactly the
  amount, from the source to the destination, on the inflight side when the transaction is inflight.
\<close>

theorem queued_transaction_executes:
  assumes U: "undisturbed U val" and ok: "store_ok (si_store x)"
    and t: "plain_request t" "\<not> t_SkipQueue t" and tr: "transferable (hb_env U) t a rs rd (si_world x)"
    and fresh: "t_TransactionID t \<notin> t_TransactionID ` set (st_transactions (si_store x))"
      "t_Reference t \<notin> t_Reference ` set (st_transactions (si_store x))"
      "t_Reference t @ ''_q'' \<notin> t_Reference ` set (st_transactions (si_store x))"
    and cid: "cid = e_uuid (hb_env U) (''txn:'' @ show_nat (Suc (length (st_transactions (si_store x)))))"
      "cid \<notin> insert (t_TransactionID t) (t_TransactionID ` set (st_transactions (si_store x)) \<union> o_TransactionID ` set (st_outbox (si_store x)))"
    and enq: "\<forall>c. t_TransactionID c = cid \<longrightarrow> (\<exists>q. Enqueue (y_Q (hb_sys U)) (y_cfg (hb_sys U)) (y_now (hb_sys U)) c (si_queue x) = (q, Inr ()))"
    and i: "i = (if t_Inflight t then a else 0)"
  shows "\<exists>x1 t' x2 c row w' t3 rs' rd'. QueueTransaction U rb t x = Some (x1, Inr t') \<and> si_world x1 = si_world x \<and>
    run_next U rb (length (si_jobs x)) x1 = Some x2 \<and> st_balances (si_store x2) = st_balances (si_store x) \<and>
    st_transactions (si_store x2) = st_transactions (si_store x) @ [row] \<and> t_TransactionID row = t_TransactionID t \<and>
    t_Status row = StatusQueued \<and>
    Enqueue (y_Q (hb_sys U)) (y_cfg (hb_sys U)) (y_now (hb_sys U)) c (si_queue x) = (si_queue x2, Inr ()) \<and>
    t_TransactionID c = cid \<and> t_ParentTransaction c = t_TransactionID t \<and> t_Reference c = t_Reference t @ ''_q'' \<and>
    RecordTransaction (hb_env U) c (si_world x2) = Some (w', Inr t3) \<and>
    find_balance (t_Source t) (w_store w') = Some rs' \<and> row_moved rs rs' 0 (a - i) 0 i \<and>
    find_balance (t_Destination t) (w_store w') = Some rd' \<and> row_moved rd rd' (a - i) 0 i 0"
proof -
  have am: "t_PreciseAmount t = Some a" "0 < a" using tr by (simp_all add: transferable_def)
  obtain m where Q: "QueueTransaction U rb t x =
    (let t' = (setTransactionStatus (setTransactionMetadata (hb_sys U) (si_store x) t))\<lparr>t_MetaData := Some m\<rparr>
     in Some (x\<lparr>si_jobs := si_jobs x @ [\<lparr>j_txn = t', j_legs = [], j_id = t_TransactionID t, j_ref = t_Reference t\<rparr>]\<rparr>, Inr t'))"
    by (rule QueueTransaction_queued [OF U t(1) am t(2)])
  let ?t = "(setTransactionStatus (setTransactionMetadata (hb_sys U) (si_store x) t))\<lparr>t_MetaData := Some m\<rparr>"
  let ?j = "\<lparr>j_txn = ?t, j_legs = [], j_id = t_TransactionID t, j_ref = t_Reference t\<rparr>"
  have p: "t_TransactionID t \<noteq> []" "t_Sources t = []" "t_Destinations t = []" "t_ScheduledFor t = 0" "t_Status t = []"
    using t(1) by (simp_all add: plain_request_def)
  have trj: "transferable (hb_env U) (j_txn ?j) a rs rd (si_world x)"
    using tr by (simp add: transferable_def setTransactionMetadata_amount)
  have queued: "t_Status (setTransactionStatus ?t) = StatusQueued" using p by (simp add: setTransactionStatus_def)
  obtain h u q c where run: "run_job U rb ?j x = Some (fst (enqueue_all U [c]
      ((put_store ((si_store x)\<lparr>st_transactions := st_transactions (si_store x) @ [row_of u q]\<rparr>) x)\<lparr>si_hot := h\<rparr>)))"
    and u: "t_TransactionID u = t_TransactionID t" "t_Reference u = t_Reference t" "t_PreciseAmount u = Some a" "t_Status u = StatusQueued"
    and c: "c = createQueueCopy (fresh_uuid (hb_sys U) ''txn''
        ((si_store x)\<lparr>st_transactions := st_transactions (si_store x) @ [row_of u q]\<rparr>)) u (t_Reference t)"
    and ends: "t_Source u = t_Source t" "t_Destination u = t_Destination t" "t_Inflight u = t_Inflight t"
      "t_AllowOverdraft u = t_AllowOverdraft t" "t_OverdraftLimit u = t_OverdraftLimit t"
    by (rule run_job_single [OF U _ _ _ _ _ _ trj, of rb]) (use p t(2) fresh queued in simp_all)
  let ?s = "(si_store x)\<lparr>st_transactions := st_transactions (si_store x) @ [row_of u q]\<rparr>"
  let ?w = "(si_world x)\<lparr>w_store := ?s\<rparr>"
  have cf: "t_TransactionID c = cid" "t_ParentTransaction c = t_TransactionID t" "t_Reference c = t_Reference t @ ''_q''"
    "t_Status c = StatusQueued" "t_PreciseAmount c = Some a"
    by (simp_all add: c createQueueCopy_def fresh_uuid_def cid(1) u)
  obtain q' where q': "Enqueue (y_Q (hb_sys U)) (y_cfg (hb_sys U)) (y_now (hb_sys U)) c (si_queue x) = (q', Inr ())"
    using enq cf(1) by blast
  let ?x2 = "(put_store ?s x)\<lparr>si_hot := h, si_queue := q'\<rparr>"
  have "c = createQueueCopy cid u (t_Reference t)" by (simp add: c fresh_uuid_def cid(1))
  then obtain w' t3 rs' rd' where R: "RecordTransaction (hb_env U) c ?w = Some (w', Inr t3)"
      "find_balance (t_Source t) (w_store w') = Some rs'" "row_moved rs rs' 0 (a - i) 0 i"
      "find_balance (t_Destination t) (w_store w') = Some rd'" "row_moved rd rd' (a - i) 0 i 0"
    using queued_copy_records [OF U ok tr u ends fresh cid(2) _ i refl, of c] by blast
  let ?x1 = "x\<lparr>si_jobs := si_jobs x @ [?j]\<rparr>"
  have 1: "QueueTransaction U rb t x = Some (?x1, Inr ?t)" "si_world ?x1 = si_world x" unfolding Q Let_def by simp_all
  have 2: "run_next U rb (length (si_jobs x)) ?x1 = Some ?x2" "st_balances (si_store ?x2) = st_balances (si_store x)"
    "st_transactions (si_store ?x2) = st_transactions (si_store x) @ [row_of u q]"
    using run q' by (simp_all add: run_next_def put_store_def)
  have 3: "t_TransactionID (row_of u q) = t_TransactionID t" "t_Status (row_of u q) = StatusQueued" by (simp_all add: row_of_def u)
  have 4: "Enqueue (y_Q (hb_sys U)) (y_cfg (hb_sys U)) (y_now (hb_sys U)) c (si_queue x) = (si_queue ?x2, Inr ())" using q' by simp
  have 5: "RecordTransaction (hb_env U) c (si_world ?x2) = Some (w', Inr t3)" using R(1) by (simp add: put_store_def)
  show ?thesis
    by (intro exI conjI) (rule 1 2 3 4 cf(1) cf(2) cf(3) 5 R(2) R(3) R(4) R(5))+
qed

definition ex_hub :: "(rat, rstore, task list, unit) hub" where
  "ex_hub = \<lparr>hb_sys = ex_sys, hb_hot = None, hb_PF = (\<lambda>_. None), hb_ordd = (\<lambda>m. m), hb_ordi = (\<lambda>m. m), hb_shadow = 1, hb_select = (\<lambda>_. None)\<rparr>"

definition ex_site :: "(rstore, task list, unit) site" where
  "ex_site = \<lparr>si_world = ex_world, si_queue = [], si_hot = (), si_jobs = []\<rparr>"

lemma ex_hub_ok: "undisturbed ex_hub (\<lambda>x. x)" "hb_env ex_hub = ex_env" "hb_sys ex_hub = ex_sys"
  using ex_env_ok by (simp_all add: undisturbed_def ex_hub_def ex_sys_def)

lemma ex_transferable: "transferable ex_env (ex_txn\<lparr>t_Status := [], t_SkipQueue := b\<rparr>) 250 (ex_row ''bln_a'' 1000) (ex_row ''bln_b'' 0) ex_world"
  by (simp add: transferable_def ex_world_def ex_txn_def ex_find has_prefix_def ex_env_def kv_def rs_get_def zero_Transaction_def)
     (simp add: ex_row_def InitializeBalanceFields_def zero_Balance_def)

theorem queued_transaction_executes_witness:
  "\<exists>x1 t' x2 c w' t3 rs' rd'. QueueTransaction ex_hub (\<lambda>_ _ _. None) (ex_txn\<lparr>t_Status := [], t_SkipQueue := False\<rparr>) ex_site = Some (x1, Inr t') \<and>
     run_next ex_hub (\<lambda>_ _ _. None) 0 x1 = Some x2 \<and> st_balances (si_store x2) = st_balances ex_store \<and>
     RecordTransaction ex_env c (si_world x2) = Some (w', Inr t3) \<and>
     find_balance ''bln_a'' (w_store w') = Some rs' \<and> row_moved (ex_row ''bln_a'' 1000) rs' 0 250 0 0 \<and>
     find_balance ''bln_b'' (w_store w') = Some rd' \<and> row_moved (ex_row ''bln_b'' 0) rd' 250 0 0 0"
proof -
  let ?t = "ex_txn\<lparr>t_Status := [], t_SkipQueue := False\<rparr>"
  have f: "t_TransactionID ?t = ''txn_1''" "t_Reference ?t = ''ref_1''" "t_Inflight ?t = False" "t_Source ?t = ''bln_a''" "t_Destination ?t = ''bln_b''"
    by (simp_all add: ex_txn_def zero_Transaction_def)
  have s: "si_store ex_site = ex_store" "si_world ex_site = ex_world" "si_jobs ex_site = []" "si_queue ex_site = []"
    by (simp_all add: ex_site_def ex_world_def)
  have sx: "w_store ex_world = ex_store" "st_transactions ex_store = []" "st_outbox ex_store = []"
    by (simp_all add: ex_world_def ex_store_def)
  have p: "plain_request ?t" "\<not> t_SkipQueue ?t" by (simp_all add: plain_request_def ex_txn_def zero_Transaction_def)
  have e: "\<forall>c. t_TransactionID c = ''id_txn:1'' \<longrightarrow> (\<exists>q. Enqueue (y_Q (hb_sys ex_hub)) (y_cfg (hb_sys ex_hub)) (y_now (hb_sys ex_hub)) c (si_queue ex_site) = (q, Inr ()))"
    by (simp add: Enqueue_def geTask_def transactionQueueName_def ex_hub_def ex_sys_def ex_queue_cfg_def enqueue_task_def list_queue_def s)
  have n: "''id_txn:1'' = e_uuid (hb_env ex_hub) (''txn:'' @ show_nat (Suc (length (st_transactions (si_store ex_site)))))"
    by (simp add: ex_hub_ok ex_env_def s ex_store_def) code_simp
  show ?thesis
    using queued_transaction_executes [OF ex_hub_ok(1) _ p _ _ _ _ n _ e, of 250 "ex_row ''bln_a'' 1000" "ex_row ''bln_b'' 0" 0 "\<lambda>_ _ _. None"]
      ex_transferable [of False] ex_store_ok
    unfolding s f ex_hub_ok(2) by (simp add: sx) blast
qed

end
