(* ===== verification/Refunds.thy ===== *)
theory Refunds
  imports Queueing
begin

text \<open>
  Refunds, rejections and bulk requests (\<open>transaction_refunds.go\<close>, \<open>transaction_rejection.go\<close>,
  \<open>transaction_bulk.go\<close>, \<open>transaction_batch_processing.go\<close>, \<open>database/transaction_refunds.go\<close>): a
  refund is a new transaction the other way round, a bulk request queues its transactions in
  order and, when it is atomic, undoes them after a failure. Webhooks and metrics are left out.
\<close>

section \<open>The model\<close>

subsection \<open>Refunds\<close>

definition getOriginalTransactionForRefund :: "('d, 'r, 'q) sys \<Rightarrow> string \<Rightarrow> store \<Rightarrow> 'q \<Rightarrow> Transaction res" where
  "getOriginalTransactionForRefund Y tid s q =
     (case GetTransaction (y_F Y) tid s of
        Inr t \<Rightarrow> Inr t
      | Inl e \<Rightarrow>
          if str_contains (err_msg e) (''Transaction with ID '' @ quoted tid @ '' not found'') then
            (case GetTransactionFromQueue (y_Q Y) (y_cfg Y) tid q of
               Inl _ \<Rightarrow> Inl (Wrap (''transaction '' @ tid @ '' not found in DB or queue'') e)
             | Inr None \<Rightarrow> Inl (Errorf (''transaction '' @ tid @ '' not found in DB or queue''))
             | Inr (Some t) \<Rightarrow> Inr t)
          else Inl (Wrap (''failed to get transaction '' @ tid @ '' from DB'') e))"

definition validateTransactionForRefund :: "('d, 'r, 'q) sys \<Rightarrow> Transaction \<Rightarrow> store \<Rightarrow> unit res" where
  "validateTransactionForRefund Y t s =
     (if t_Status t \<noteq> StatusApplied \<and> t_Status t \<noteq> StatusVoid then
        Inl (Errorf (''transaction '' @ t_TransactionID t @ '' cannot be refunded in status '' @ t_Status t @ '' (only APPLIED or VOID)''))
      else case IsTransactionRefunded (y_F Y) t s of
             Inl e \<Rightarrow> Inl (Wrap (''failed to check if transaction '' @ t_TransactionID t @ '' was already refunded'') e)
           | Inr refunded \<Rightarrow>
               if refunded then Inl (Errorf (''transaction '' @ t_TransactionID t @ '' has already been refunded'')) else Inr ())"

definition prepareRefundTransaction :: "('d, 'r, 'q) sys \<Rightarrow> store \<Rightarrow> Transaction \<Rightarrow> bool \<Rightarrow> Transaction" where
  "prepareRefundTransaction Y s t skipQueue =
     t\<lparr>t_TransactionID := fresh_uuid Y ''txn'' s, t_Reference := t_TransactionID t @ ''_refund'',
       t_ParentTransaction := t_TransactionID t, t_Source := t_Destination t, t_Destination := t_Source t,
       t_AllowOverdraft := True, t_SkipQueue := skipQueue, t_Status := [], t_Inflight := (t_Status t = StatusVoid)\<rparr>"

definition RefundTransaction ::
    "('d, 'r, 'q, 'h) hub \<Rightarrow> ('r, 'q, 'h) undo \<Rightarrow> string \<Rightarrow> bool \<Rightarrow> ('r, 'q, 'h) site
       \<Rightarrow> (('r, 'q, 'h) site \<times> Transaction res) option" where
  "RefundTransaction U rb tid skipQueue x =
     (let Y = hb_sys U; E = y_env Y; w = si_world x; l = NewLocker (''refund:'' @ tid) (e_uuid E ''loc'');
          release = (\<lambda>y. y\<lparr>si_world := (si_world y)\<lparr>w_redis := fst (Unlock (e_R E) l (w_redis (si_world y)))\<rparr>\<rparr>)
      in case Lock (e_R E) l (e_LockDuration E) (w_redis w) of
           (r, Inl e) \<Rightarrow> Some (x\<lparr>si_world := w\<lparr>w_redis := r\<rparr>\<rparr>, Inl (Wrap ''failed to acquire lock for refund'' e))
         | (r, Inr _) \<Rightarrow>
             (let x1 = x\<lparr>si_world := w\<lparr>w_redis := r\<rparr>\<rparr>
              in case getOriginalTransactionForRefund Y tid (si_store x1) (si_queue x1) of
                   Inl e \<Rightarrow> Some (release x1, Inl e)
                 | Inr t \<Rightarrow>
                     (case validateTransactionForRefund Y t (si_store x1) of
                        Inl e \<Rightarrow> Some (release x1, Inl e)
                      | Inr _ \<Rightarrow>
                          (let refund = prepareRefundTransaction Y (si_store x1) t skipQueue
                           in case QueueTransaction U rb refund x1 of
                                None \<Rightarrow> None
                              | Some (x2, Inl e) \<Rightarrow>
                                  Some (release x2, Inl (Wrap (''failed to queue refund transaction '' @ t_TransactionID refund) e))
                              | Some (x2, Inr t') \<Rightarrow> Some (release x2, Inr t')))))"

text \<open>The selection of \<open>GetRefundableTransactionsByParentID\<close>, newest first.\<close>

definition refundable :: "string \<Rightarrow> Transaction \<Rightarrow> bool" where
  "refundable pid t \<longleftrightarrow> t_TransactionID t = pid \<and> t_Status t = StatusApplied \<or>
     t_ParentTransaction t = pid \<and> t_Status t \<in> {StatusApplied, StatusVoid} \<or>
     t_Status t = StatusApplied \<and> meta_text (t_MetaData t) ''QUEUED_PARENT_TRANSACTION'' = Some pid"

definition refundable_rows :: "string \<Rightarrow> store \<Rightarrow> Transaction list" where
  "refundable_rows pid s = map (\<lambda>t. t\<lparr>t_EffectiveDate := None\<rparr>)
     (sort_key (\<lambda>t. - t_CreatedAt t) (filter (refundable pid) (st_transactions s)))"

definition GetRefundableTransactionsByParentID :: "faults \<Rightarrow> string \<Rightarrow> int \<Rightarrow> nat \<Rightarrow> store \<Rightarrow> Transaction list res" where
  "GetRefundableTransactionsByParentID F pid batchSize offset s =
     (if F (''GetRefundableTransactionsByParentID:'' @ show_nat offset) \<or> batchSize < 0
      then Inl (internal ''Failed to retrieve refundable transactions'')
      else Inr (take (nat batchSize) (drop offset (refundable_rows pid s))))"

subsection \<open>Batches\<close>

text \<open>
  The fetching goroutine: what it sends to the workers, and the error that ended it. It runs ahead
  of the worker here; the getters below do not select the rows the rollback adds.
\<close>

partial_function (option) fetch_pages ::
    "(nat \<Rightarrow> Transaction list res) \<Rightarrow> nat \<Rightarrow> (Transaction list \<times> error option) option" where
  "fetch_pages gt offset =
     (case gt offset of
        Inl e \<Rightarrow> Some ([], Some e)
      | Inr page \<Rightarrow>
          if page = [] then Some ([], None)
          else Option.bind (fetch_pages gt (offset + length page)) (\<lambda>(ts, e). Some (page @ ts, e)))"

text \<open>One worker over the jobs: its errors and its results, in order.\<close>

fun work_through ::
    "(Transaction \<Rightarrow> ('r, 'q, 'h) site \<Rightarrow> (('r, 'q, 'h) site \<times> Transaction res) option) \<Rightarrow> Transaction list
       \<Rightarrow> ('r, 'q, 'h) site \<Rightarrow> (('r, 'q, 'h) site \<times> error list \<times> Transaction list) option" where
  "work_through act [] x = Some (x, [], [])"
| "work_through act (t # ts) x =
     (case act t x of None \<Rightarrow> None
      | Some (x1, r) \<Rightarrow>
          (case work_through act ts x1 of None \<Rightarrow> None
           | Some (x2, es, rs) \<Rightarrow> Some (x2, (case r of Inl e \<Rightarrow> e # es | Inr _ \<Rightarrow> es), (case r of Inl _ \<Rightarrow> rs | Inr t' \<Rightarrow> t' # rs))))"

text \<open>
  The call ends at the \<open>select\<close> over the fetch error and the end of the results. When both are ready
  Go takes either: \<open>sel\<close> is \<open>Some k\<close> when the error is received, after \<open>k\<close> results were collected, and
  \<open>None\<close> when the end of the results is, after which the error is not looked at. The state is the one the
  worker leaves once it is through, also when the call returned before.
\<close>

definition ProcessTransactionInBatches ::
    "nat option \<Rightarrow> (nat \<Rightarrow> Transaction list res) \<Rightarrow> (Transaction \<Rightarrow> ('r, 'q, 'h) site \<Rightarrow> (('r, 'q, 'h) site \<times> Transaction res) option)
       \<Rightarrow> ('r, 'q, 'h) site \<Rightarrow> (('r, 'q, 'h) site \<times> Transaction list \<times> error option) option" where
  "ProcessTransactionInBatches sel gt act x =
     (case fetch_pages gt 0 of None \<Rightarrow> None
      | Some (ts, fetchErr) \<Rightarrow>
          (case work_through act ts x of None \<Rightarrow> None
           | Some (x', errs, done) \<Rightarrow>
               (let finish = Some (x', done, if errs = [] then None
                      else Some (Errorf (''error occurred during processing: ['' @ str_join '' '' (map err_msg errs) @ '']'')))
                in case fetchErr of None \<Rightarrow> finish
                   | Some e \<Rightarrow> (case sel of None \<Rightarrow> finish | Some k \<Rightarrow> Some (x', take k done, Some e)))))"

definition void_job ::
    "('d, 'r, 'q, 'h) hub \<Rightarrow> Transaction \<Rightarrow> ('r, 'q, 'h) site \<Rightarrow> (('r, 'q, 'h) site \<times> Transaction res) option" where
  "void_job U t x =
     (if \<not> IsInflightTransaction t then Some (x, Inl (Errorf ''transaction is not in inflight status''))
      else case VoidInflightTransaction (hb_sys U) (si_queue x) (hb_shadow U) (t_TransactionID t) (si_world x) of
             None \<Rightarrow> None | Some (w, r) \<Rightarrow> Some (x\<lparr>si_world := w\<rparr>, r))"

definition refund_job ::
    "('d, 'r, 'q, 'h) hub \<Rightarrow> ('r, 'q, 'h) undo \<Rightarrow> Transaction \<Rightarrow> ('r, 'q, 'h) site
       \<Rightarrow> (('r, 'q, 'h) site \<times> Transaction res) option" where
  "refund_job U rb t = RefundTransaction U rb (t_TransactionID t) (t_SkipQueue t)"

definition refund_job_options ::
    "('d, 'r, 'q, 'h) hub \<Rightarrow> ('r, 'q, 'h) undo \<Rightarrow> bool \<Rightarrow> Transaction \<Rightarrow> ('r, 'q, 'h) site
       \<Rightarrow> (('r, 'q, 'h) site \<times> Transaction res) option" where
  "refund_job_options U rb skipQueue t = RefundTransaction U rb (t_TransactionID t) skipQueue"

subsection \<open>Rolling back a batch\<close>

definition voidInflightBatchTransactions ::
    "('d, 'r, 'q, 'h) hub \<Rightarrow> string \<Rightarrow> ('r, 'q, 'h) site \<Rightarrow> (('r, 'q, 'h) site \<times> string \<times> error option) option" where
  "voidInflightBatchTransactions U batchID x =
     (let Y = hb_sys U in
      case ProcessTransactionInBatches (hb_select U batchID) (\<lambda>offset. if y_BatchSize Y < 0 then Inl (internal ''Failed to retrieve inflight transactions'')
               else GetInflightTransactionsByParentID (y_F Y) batchID (nat (y_BatchSize Y)) offset (si_store x)) (void_job U) x of
        None \<Rightarrow> None | Some (x', _, e) \<Rightarrow> Some (x', ''voided'', e))"

definition refundNonInflightBatchTransactions ::
    "('d, 'r, 'q, 'h) hub \<Rightarrow> ('r, 'q, 'h) undo \<Rightarrow> string \<Rightarrow> ('r, 'q, 'h) site
       \<Rightarrow> (('r, 'q, 'h) site \<times> string \<times> error option) option" where
  "refundNonInflightBatchTransactions U rb batchID x =
     (let Y = hb_sys U in
      case ProcessTransactionInBatches (hb_select U batchID) (\<lambda>offset. GetRefundableTransactionsByParentID (y_F Y) batchID (y_BatchSize Y) offset (si_store x))
             (refund_job U rb) x of
        None \<Rightarrow> None | Some (x', _, e) \<Rightarrow> Some (x', ''refunded'', e))"

definition rollbackBatchTransactions ::
    "('d, 'r, 'q, 'h) hub \<Rightarrow> ('r, 'q, 'h) undo \<Rightarrow> string \<Rightarrow> bool \<Rightarrow> ('r, 'q, 'h) site
       \<Rightarrow> (('r, 'q, 'h) site \<times> string \<times> error option) option" where
  "rollbackBatchTransactions U rb batchID isInflight x =
     (if isInflight then voidInflightBatchTransactions U batchID x else refundNonInflightBatchTransactions U rb batchID x)"

text \<open>
  The rollback that \<open>QueueTransaction\<close> calls. A refund of a stored transaction is queued, never
  recorded at once, so it does not roll back in turn: every positive fuel gives the same.
\<close>

fun rollback_at :: "('d, 'r, 'q, 'h) hub \<Rightarrow> nat \<Rightarrow> ('r, 'q, 'h) undo" where
  "rollback_at U 0 batchID isInflight x = None"
| "rollback_at U (Suc n) batchID isInflight x =
     (case rollbackBatchTransactions U (rollback_at U n) batchID isInflight x of None \<Rightarrow> None | Some (x', _) \<Rightarrow> Some x')"

definition handleAsyncBulkTransactionFailure ::
    "('d, 'r, 'q, 'h) hub \<Rightarrow> nat \<Rightarrow> string \<Rightarrow> bool \<Rightarrow> bool \<Rightarrow> ('r, 'q, 'h) site \<Rightarrow> ('r, 'q, 'h) site option" where
  "handleAsyncBulkTransactionFailure U n batchID isAtomic isInflight x =
     (if isAtomic then rollback_at U n batchID isInflight x else Some x)"

subsection \<open>Rejection\<close>

definition RejectTransaction ::
    "('d, 'r, 'q, 'h) hub \<Rightarrow> nat \<Rightarrow> Transaction \<Rightarrow> string \<Rightarrow> ('r, 'q, 'h) site \<Rightarrow> (('r, 'q, 'h) site \<times> Transaction res) option" where
  "RejectTransaction U n t reason x =
     (let t1 = t\<lparr>t_Status := StatusRejected, t_MetaData := meta_put ''blnk_rejection_reason'' (JStr reason) (t_MetaData t)\<rparr>
      in case RecordTransaction_db (y_F (hb_sys U)) t1 (si_store x) of
           (s, Inl e) \<Rightarrow> Some (put_store s x, Inl e)
         | (s, Inr t2) \<Rightarrow>
             (let x1 = put_store s x
              in if \<not> t_Atomic t2 then Some (x1, Inr t2)
                 else case meta_get (t_MetaData t2) ''QUEUED_PARENT_TRANSACTION'' of
                        Some (JStr pid) \<Rightarrow>
                          (case handleAsyncBulkTransactionFailure U n pid (t_Atomic t2) (t_Inflight t2) x1 of
                             None \<Rightarrow> None | Some x2 \<Rightarrow> Some (x2, Inr t2))
                      | _ \<Rightarrow> Some (x1, Inl (Errorf ''parent transaction ID not found in meta data''))))"

definition categorizeRejectionReason :: "string \<Rightarrow> string" where
  "categorizeRejectionReason reason =
     (let lower = to_lower reason
      in if str_contains lower ''insufficient funds'' then ''insufficient_funds''
         else if str_contains lower ''overdraft limit'' then ''overdraft_limit''
         else if IsLockContentionError (Some (Errorf reason)) then ''lock_contention''
         else if str_contains lower ''exceeded max'' then ''max_retries''
         else ''other'')"

subsection \<open>Bulk requests\<close>

record BulkTransactionRequest =
  br_Transactions :: "Transaction list"
  br_Inflight :: bool
  br_Atomic :: bool
  br_RunAsync :: bool
  br_SkipQueue :: bool

record BulkTransactionResult =
  bs_BatchID :: string
  bs_Status :: string
  bs_TransactionCount :: nat
  bs_Error :: string

definition bulk_member :: "string \<Rightarrow> bool \<Rightarrow> bool \<Rightarrow> nat \<Rightarrow> Transaction \<Rightarrow> Transaction" where
  "bulk_member batchID inflight skipQueue i t =
     t\<lparr>t_Inflight := inflight, t_SkipQueue := skipQueue, t_ParentTransaction := batchID,
       t_MetaData := meta_put ''sequence'' (JInt (int i + 1)) (t_MetaData t)\<rparr>"

fun processBulkTransactions ::
    "('d, 'r, 'q, 'h) hub \<Rightarrow> ('r, 'q, 'h) undo \<Rightarrow> nat \<Rightarrow> Transaction list \<Rightarrow> string \<Rightarrow> bool \<Rightarrow> bool
       \<Rightarrow> ('r, 'q, 'h) site \<Rightarrow> (('r, 'q, 'h) site \<times> unit res) option" where
  "processBulkTransactions U rb i [] batchID inflight skipQueue x = Some (x, Inr ())"
| "processBulkTransactions U rb i (t # ts) batchID inflight skipQueue x =
     (let t1 = bulk_member batchID inflight skipQueue i t
      in case QueueTransaction U rb t1 x of None \<Rightarrow> None
         | Some (x1, Inl e) \<Rightarrow>
             Some (x1, Inl (Wrap (''failed to queue transaction '' @ show_nat (i + 1) @ '' (Reference: '' @ t_Reference t1 @
               '', Source: '' @ t_Source t1 @ '', Destination: '' @ t_Destination t1 @ '', Amount: '' @ fmt_2f (t_Amount t1) @ '')'') e))
         | Some (x1, Inr _) \<Rightarrow> processBulkTransactions U rb (Suc i) ts batchID inflight skipQueue x1)"

definition bulk_status :: "bool \<Rightarrow> string" where
  "bulk_status inflight = (if inflight then ''inflight'' else ''applied'')"

text \<open>The synchronous mode: the result, and the error beside it.\<close>

definition bulk_sync ::
    "('d, 'r, 'q, 'h) hub \<Rightarrow> nat \<Rightarrow> BulkTransactionRequest \<Rightarrow> string \<Rightarrow> ('r, 'q, 'h) site
       \<Rightarrow> (('r, 'q, 'h) site \<times> BulkTransactionResult \<times> error option) option" where
  "bulk_sync U n req batchID x =
     (case processBulkTransactions U (rollback_at U n) 0 (br_Transactions req) batchID (br_Inflight req) (br_SkipQueue req) x of
        None \<Rightarrow> None
      | Some (x1, Inr _) \<Rightarrow>
          Some (x1, \<lparr>bs_BatchID = batchID, bs_Status = bulk_status (br_Inflight req),
                     bs_TransactionCount = length (br_Transactions req), bs_Error = []\<rparr>, None)
      | Some (x1, Inl e) \<Rightarrow>
          (case (if br_Atomic req then rollbackBatchTransactions U (rollback_at U n) batchID (br_Inflight req) x1
                 else Some (x1, [], None)) of
             None \<Rightarrow> None
           | Some (x2, action, rollbackErr) \<Rightarrow>
               (let msg = err_msg e @ (if \<not> br_Atomic req then ''. Previous transactions were not rolled back.''
                      else case rollbackErr of Some r \<Rightarrow> ''. Failed to roll back all transactions: '' @ err_msg r
                             | None \<Rightarrow> ''. All transactions in this batch have been '' @ action @ ''.'')
                in Some (x2, \<lparr>bs_BatchID = batchID, bs_Status = ''failed'', bs_TransactionCount = 0, bs_Error = msg\<rparr>,
                         Some (Errorf msg)))))"

text \<open>
  \<open>acquired\<close> is the answer of the semaphore. The last component of the result is the batch that a
  goroutine (\<open>run_bulk\<close>) works on in the asynchronous mode.
\<close>

definition CreateBulkTransactions ::
    "('d, 'r, 'q, 'h) hub \<Rightarrow> nat \<Rightarrow> bool \<Rightarrow> BulkTransactionRequest \<Rightarrow> ('r, 'q, 'h) site
       \<Rightarrow> (('r, 'q, 'h) site \<times> BulkTransactionResult option \<times> error option \<times> string option) option" where
  "CreateBulkTransactions U n acquired req x =
     (let batchID = fresh_uuid (hb_sys U) ''bulk'' (si_store x)
      in if br_RunAsync req then
           Some (if \<not> acquired
                 then (x, None, Some (APIError ErrRateLimited ''too many async bulk operations in progress, try again later''), None)
                 else (x, Some \<lparr>bs_BatchID = batchID, bs_Status = ''processing'', bs_TransactionCount = 0, bs_Error = []\<rparr>, None, Some batchID))
         else case bulk_sync U n req batchID x of None \<Rightarrow> None
              | Some (x', res, e) \<Rightarrow> Some (x', Some res, e, None))"

text \<open>The goroutine of the asynchronous mode.\<close>

definition run_bulk ::
    "('d, 'r, 'q, 'h) hub \<Rightarrow> nat \<Rightarrow> BulkTransactionRequest \<Rightarrow> string \<Rightarrow> ('r, 'q, 'h) site \<Rightarrow> ('r, 'q, 'h) site option" where
  "run_bulk U n req batchID x =
     (case processBulkTransactions U (rollback_at U n) 0 (br_Transactions req) batchID (br_Inflight req) (br_SkipQueue req) x of
        None \<Rightarrow> None
      | Some (x1, Inr _) \<Rightarrow> Some x1
      | Some (x1, Inl e) \<Rightarrow> handleAsyncBulkTransactionFailure U n batchID (br_Atomic req) (br_Inflight req) x1)"

section \<open>Facts\<close>

lemma original_stored:
  assumes "\<forall>p. \<not> y_F Y p" "store_ok s" "t \<in> set (st_transactions s)"
  shows "getOriginalTransactionForRefund Y (t_TransactionID t) s q = Inr (t\<lparr>t_ScheduledFor := 0, t_EffectiveDate := None\<rparr>)"
proof -
  have "find_row t_TransactionID (t_TransactionID t) (st_transactions s) = Some t"
    using assms(2,3) by (intro find_row_mem) (simp_all add: store_ok_def)
  then show ?thesis using assms(1) by (simp add: getOriginalTransactionForRefund_def GetTransaction_def)
qed

text \<open>The rows that count as a refund.\<close>

definition refunds_of :: "Transaction \<Rightarrow> store \<Rightarrow> Transaction list" where
  "refunds_of t s = filter (\<lambda>r. t_ParentTransaction r = t_TransactionID t \<and> t_Source r = t_Destination t \<and>
     t_Destination r = t_Source t) (st_transactions s)"

lemma refund_refused:
  assumes "quiet (hb_env U)" "store_ok (si_store x)" "t \<in> set (st_transactions (si_store x))"
    and "t_Status t \<notin> {StatusApplied, StatusVoid} \<or> refunds_of t (si_store x) \<noteq> []"
  shows "\<exists>x' e. RefundTransaction U rb (t_TransactionID t) sq x = Some (x', Inl e) \<and> si_store x' = si_store x"
proof -
  let ?t = "t\<lparr>t_ScheduledFor := 0, t_EffectiveDate := None\<rparr>"
  have F: "\<forall>p. \<not> y_F (hb_sys U) p" using assms(1) by (simp add: quiet_def)
  have "\<exists>e. validateTransactionForRefund (hb_sys U) ?t (si_store x) = Inl e"
    using assms(4) F by (auto simp: validateTransactionForRefund_def IsTransactionRefunded_def refunds_of_def filter_empty_conv)
  moreover note original_stored [OF F assms(2,3)]
  ultimately show ?thesis
    by (auto simp: RefundTransaction_def Let_def split: prod.split sum.split)
qed

text \<open>A stored transaction, as the insert statement writes it.\<close>

definition stored_transfer :: "Transaction \<Rightarrow> int \<Rightarrow> store \<Rightarrow> bool" where
  "stored_transfer t a s \<longleftrightarrow> t \<in> set (st_transactions s) \<and> t_TransactionID t \<noteq> [] \<and> t_PreciseAmount t = Some a \<and> 0 < a \<and>
     t_Source t \<noteq> t_Destination t \<and> plain_ids t \<and> (\<exists>u am. t = row_of u am)"

lemma row_defaults [simp]:
  "t_Sources (row_of t am) = []" "t_Destinations (row_of t am) = []" "t_InflightExpiryDate (row_of t am) = 0"
  "t_InflightCommitDate (row_of t am) = 0" "t_OverdraftLimit (row_of t am) = 0" "t_SkipQueue (row_of t am) = False"
  "t_ParentTransaction (row_of t am) = t_ParentTransaction t" "t_Source (row_of t am) = t_Source t"
  "t_Destination (row_of t am) = t_Destination t" "t_TransactionID (row_of t am) = t_TransactionID t"
  "t_Status (row_of t am) = t_Status t" "t_PreciseAmount (row_of t am) = t_PreciseAmount t" "t_Inflight (row_of t am) = False"
  by (simp_all add: row_of_def zero_Transaction_def)

text \<open>The transaction that a refund records.\<close>

lemma refund_request:
  assumes "stored_transfer t a s" "uuids_ok (y_env Y)"
    and "rt = prepareRefundTransaction Y s (t\<lparr>t_ScheduledFor := 0, t_EffectiveDate := None\<rparr>) b"
  shows "plain_request rt" "t_PreciseAmount rt = Some a" "t_Source rt = t_Destination t" "t_Destination rt = t_Source t"
    "t_ParentTransaction rt = t_TransactionID t" "t_Reference rt = t_TransactionID t @ ''_refund''"
    "t_TransactionID rt = fresh_uuid Y ''txn'' s" "t_AllowOverdraft rt" "t_OverdraftLimit rt = 0" "t_SkipQueue rt = b"
    "t_Inflight rt = (t_Status t = StatusVoid)" "t_InflightExpiryDate rt = 0" "t_InflightCommitDate rt = 0"
proof -
  obtain u am where "t = row_of u am" using assms(1) by (auto simp: stored_transfer_def)
  then have d: "t_Sources t = []" "t_Destinations t = []" "t_InflightExpiryDate t = 0" "t_InflightCommitDate t = 0" "t_OverdraftLimit t = 0"
    by simp_all
  then show "plain_request rt"
    using assms(2) by (simp add: plain_request_def assms(3) prepareRefundTransaction_def fresh_uuid_def uuids_ok_def)
  show "t_PreciseAmount rt = Some a" "t_Source rt = t_Destination t" "t_Destination rt = t_Source t"
    "t_ParentTransaction rt = t_TransactionID t" "t_Reference rt = t_TransactionID t @ ''_refund''"
    "t_TransactionID rt = fresh_uuid Y ''txn'' s" "t_AllowOverdraft rt" "t_OverdraftLimit rt = 0" "t_SkipQueue rt = b"
    "t_Inflight rt = (t_Status t = StatusVoid)" "t_InflightExpiryDate rt = 0" "t_InflightCommitDate rt = 0"
    using assms(1) d by (simp_all add: assms(3) prepareRefundTransaction_def stored_transfer_def)
qed

text \<open>Nothing stands in the way of a synchronous refund.\<close>

definition refund_clear :: "('d, 'r, 'q, 'h) hub \<Rightarrow> Transaction \<Rightarrow> ('r, 'q, 'h) site \<Rightarrow> bool" where
  "refund_clear U t x \<longleftrightarrow>
     (\<forall>k \<in> {t_Source t, t_Destination t, ''refund:'' @ t_TransactionID t}. kv (e_R (hb_env U)) (w_redis (si_world x)) k = None) \<and>
     ''refund:'' @ t_TransactionID t \<notin> {t_Source t, t_Destination t} \<and>
     t_TransactionID t @ ''_refund'' \<notin> t_Reference ` set (st_transactions (si_store x)) \<and>
     fresh_uuid (hb_sys U) ''txn'' (si_store x) \<notin> t_TransactionID ` set (st_transactions (si_store x)) \<and>
     fresh_uuid (hb_sys U) ''txn'' (si_store x) \<notin> o_TransactionID ` set (st_outbox (si_store x))"

lemma refund_recorded:
  assumes U: "undisturbed U val" and ok: "store_ok (w_store w)" and t: "stored_transfer t a (w_store w)" "t_Status t = StatusApplied"
    and rs: "find_balance (t_Source t) (w_store w) = Some rs" and rd: "find_balance (t_Destination t) (w_store w) = Some rd"
    and clear: "\<forall>k \<in> {t_Source t, t_Destination t}. kv (e_R (hb_env U)) (w_redis w) k = None"
      "t_TransactionID t @ ''_refund'' \<notin> t_Reference ` set (st_transactions (w_store w))"
      "fresh_uuid (hb_sys U) ''txn'' (w_store w) \<notin> t_TransactionID ` set (st_transactions (w_store w))"
      "fresh_uuid (hb_sys U) ''txn'' (w_store w) \<notin> o_TransactionID ` set (st_outbox (w_store w))"
    and rt: "rt = prepareRefundTransaction (hb_sys U) (w_store w) (t\<lparr>t_ScheduledFor := 0, t_EffectiveDate := None\<rparr>) True"
  obtains w' t' am rs' rd' where
    "RecordTransaction (hb_env U) (setTransactionStatus (setTransactionMetadata (hb_sys U) (w_store w) rt)) w = Some (w', Inr t')"
    "st_transactions (w_store w') = st_transactions (w_store w) @ [row_of t' am]"
    "find_balance (t_Source t) (w_store w') = Some rs'" "row_moved rs rs' a 0 0 0"
    "find_balance (t_Destination t) (w_store w') = Some rd'" "row_moved rd rd' 0 a 0 0"
    "t_ParentTransaction t' = t_TransactionID t" "t_Source t' = t_Destination t" "t_Destination t' = t_Source t"
    "t_InflightExpiryDate t' = 0" "t_InflightCommitDate t' = 0"
proof -
  have u: "uuids_ok (hb_env U)" using U by (simp add: undisturbed_def)
  note r = refund_request [OF t(1) u rt]
  let ?t = "setTransactionStatus (setTransactionMetadata (hb_sys U) (w_store w) rt)"
  have p: "t_TransactionID rt \<noteq> []" "0 < a" "plain_ids t" "t_Source t \<noteq> t_Destination t"
    using r(1) t(1) by (simp_all add: plain_request_def stored_transfer_def)
  have f: "t_Source ?t = t_Destination t" "t_Destination ?t = t_Source t" "t_PreciseAmount ?t = Some a" "t_AllowOverdraft ?t"
    "t_OverdraftLimit ?t = 0" "t_TransactionID ?t = t_TransactionID rt" "t_Reference ?t = t_TransactionID t @ ''_refund''"
    "\<not> t_Inflight ?t" "t_ParentTransaction ?t = t_TransactionID t" "t_InflightExpiryDate ?t = 0" "t_InflightCommitDate ?t = 0"
    using r p t(2) by (simp_all add: setTransactionMetadata_amount)
  have tr: "transferable (hb_env U) ?t a rd rs w"
    using rs rd clear(1) p f by (simp add: transferable_def plain_ids_def)
  have "t_Status ?t \<in> {StatusQueued, StatusApplied, StatusScheduled}" by (simp add: plain_status [OF r(1)])
  then obtain w' t' am rs' rd' where R: "RecordTransaction (hb_env U) ?t w = Some (w', Inr t')"
      "st_transactions (w_store w') = st_transactions (w_store w) @ [row_of t' am]"
      "find_balance (t_Source t) (w_store w') = Some rs'" "row_moved rs rs' a 0 0 0"
      "find_balance (t_Destination t) (w_store w') = Some rd'" "row_moved rd rd' 0 a 0 0"
    using transferable_records [OF U ok tr, of 0] clear(2-4) f r(7) by auto
  have pl: "plain_ids ?t" using p(3) f(1,2) by (simp add: plain_ids_def)
  note fr = RecordTransaction_frame [OF ok u R(1)]
  show ?thesis using that [OF R] fr(1-3) fr(5) [OF pl] f by simp
qed

text \<open>The lock is taken, the transfer found and admitted.\<close>

lemma refund_admitted:
  assumes U: "undisturbed U val" and ok: "store_ok (si_store x)" and t: "stored_transfer t a (si_store x)" "t_Status t = StatusApplied"
    and new: "refunds_of t (si_store x) = []" and clear: "refund_clear U t x"
    and l: "l = NewLocker (''refund:'' @ t_TransactionID t) (e_uuid (hb_env U) ''loc'')"
  obtains r1 where "Lock (e_R (hb_env U)) l (e_LockDuration (hb_env U)) (w_redis (si_world x)) = (r1, Inr ())"
    "\<forall>k \<in> {t_Source t, t_Destination t}. kv (e_R (hb_env U)) r1 k = None"
    "getOriginalTransactionForRefund (hb_sys U) (t_TransactionID t) (si_store x) (si_queue x) = Inr (t\<lparr>t_ScheduledFor := 0, t_EffectiveDate := None\<rparr>)"
    "validateTransactionForRefund (hb_sys U) (t\<lparr>t_ScheduledFor := 0, t_EffectiveDate := None\<rparr>) (si_store x) = Inr ()"
proof -
  have q: "quiet (hb_env U)" using U by (simp add: undisturbed_def)
  then have F: "\<forall>p. \<not> y_F (hb_sys U) p" and rl: "redis_laws (e_R (hb_env U))" "setnx_answers (e_R (hb_env U))" "0 < e_LockDuration (hb_env U)"
    by (simp_all add: quiet_def)
  have k: "kv (e_R (hb_env U)) (w_redis (si_world x)) (lk_key l) = None" "lk_key l \<notin> {t_Source t, t_Destination t}"
    "\<forall>k \<in> {t_Source t, t_Destination t}. kv (e_R (hb_env U)) (w_redis (si_world x)) k = None"
    using clear by (auto simp: refund_clear_def l NewLocker_def)
  obtain r1 where L: "Lock (e_R (hb_env U)) l (e_LockDuration (hb_env U)) (w_redis (si_world x)) = (r1, Inr ())"
    and ko: "\<forall>k. k \<noteq> lk_key l \<longrightarrow> kv (e_R (hb_env U)) r1 k = kv (e_R (hb_env U)) (w_redis (si_world x)) k"
    by (rule Lock_keeps_others [OF rl k(1)])
  have o1: "getOriginalTransactionForRefund (hb_sys U) (t_TransactionID t) (si_store x) (si_queue x) = Inr (t\<lparr>t_ScheduledFor := 0, t_EffectiveDate := None\<rparr>)"
    by (rule original_stored [OF F ok]) (use t(1) in \<open>simp add: stored_transfer_def\<close>)
  have v: "validateTransactionForRefund (hb_sys U) (t\<lparr>t_ScheduledFor := 0, t_EffectiveDate := None\<rparr>) (si_store x) = Inr ()"
    using t(2) new F by (simp add: validateTransactionForRefund_def IsTransactionRefunded_def refunds_of_def filter_empty_conv)
  have "\<forall>k \<in> {t_Source t, t_Destination t}. kv (e_R (hb_env U)) r1 k = None" using ko k by auto
  from that [OF L this o1 v] show ?thesis .
qed

lemma refund_succeeds:
  assumes U: "undisturbed U val" and ok: "store_ok (si_store x)" and t: "stored_transfer t a (si_store x)" "t_Status t = StatusApplied"
    and new: "refunds_of t (si_store x) = []"
    and rs: "find_balance (t_Source t) (si_store x) = Some rs" and rd: "find_balance (t_Destination t) (si_store x) = Some rd"
    and clear: "refund_clear U t x"
  shows "\<exists>x' r row rs' rd'. RefundTransaction U rb (t_TransactionID t) True x = Some (x', Inr r) \<and>
    st_transactions (si_store x') = st_transactions (si_store x) @ [row] \<and> refunds_of t (si_store x') = [row] \<and>
    find_balance (t_Source t) (si_store x') = Some rs' \<and> row_moved rs rs' a 0 0 0 \<and>
    find_balance (t_Destination t) (si_store x') = Some rd' \<and> row_moved rd rd' 0 a 0 0"
proof -
  let ?E = "hb_env U" and ?Y = "hb_sys U" and ?w = "si_world x" and ?t0 = "t\<lparr>t_ScheduledFor := 0, t_EffectiveDate := None\<rparr>"
  let ?l = "NewLocker (''refund:'' @ t_TransactionID t) (e_uuid ?E ''loc'')"
  obtain r1 where L: "Lock (e_R ?E) ?l (e_LockDuration ?E) (w_redis ?w) = (r1, Inr ())"
    and cl: "\<forall>k \<in> {t_Source t, t_Destination t}. kv (e_R ?E) r1 k = None"
    and o1: "getOriginalTransactionForRefund ?Y (t_TransactionID t) (si_store x) (si_queue x) = Inr ?t0"
    and v: "validateTransactionForRefund ?Y ?t0 (si_store x) = Inr ()"
    by (rule refund_admitted [OF U ok t new clear refl])
  let ?w1 = "?w\<lparr>w_redis := r1\<rparr>" and ?x1 = "x\<lparr>si_world := ?w\<lparr>w_redis := r1\<rparr>\<rparr>"
  let ?rt = "prepareRefundTransaction ?Y (si_store x) ?t0 True"
  obtain w' t' am rs' rd' where R: "RecordTransaction ?E (setTransactionStatus (setTransactionMetadata ?Y (si_store x) ?rt)) ?w1 = Some (w', Inr t')"
    "st_transactions (w_store w') = st_transactions (si_store x) @ [row_of t' am]"
    "find_balance (t_Source t) (w_store w') = Some rs'" "row_moved rs rs' a 0 0 0"
    "find_balance (t_Destination t) (w_store w') = Some rd'" "row_moved rd rd' 0 a 0 0"
    "t_ParentTransaction t' = t_TransactionID t" "t_Source t' = t_Destination t" "t_Destination t' = t_Source t"
    "t_InflightExpiryDate t' = 0" "t_InflightCommitDate t' = 0"
    by (rule refund_recorded [OF U _ _ t(2), of ?w1 a rs rd ?rt]) (use ok t(1) rs rd clear cl in \<open>simp_all add: refund_clear_def\<close>)
  note r = refund_request [OF t(1), of ?Y ?rt True]
  have "\<exists>r. QueueTransaction U rb ?rt ?x1 = Some (?x1\<lparr>si_world := w'\<rparr>, Inr r)"
    using QueueTransaction_skip [OF U, of ?rt a ?x1 w' "Inr t'" rb] R(1,10,11) r U t(1)
    by (simp add: undisturbed_def stored_transfer_def)
  then obtain r' where "QueueTransaction U rb ?rt ?x1 = Some (?x1\<lparr>si_world := w'\<rparr>, Inr r')" by blast
  with L o1 v have "RefundTransaction U rb (t_TransactionID t) True x =
      Some (?x1\<lparr>si_world := w'\<lparr>w_redis := fst (Unlock (e_R ?E) ?l (w_redis w'))\<rparr>\<rparr>, Inr r')"
    by (simp add: RefundTransaction_def Let_def)
  moreover have "refunds_of t (w_store w') = [row_of t' am]" using new R(2,7-9) by (simp add: refunds_of_def)
  ultimately show ?thesis using R(2-6) by auto
qed

subsection \<open>Rolling back\<close>

lemma record_ids_fields [simp]:
  "t_SkipQueue (record_ids t ls) = t_SkipQueue t" "t_Source (record_ids t ls) = t_Source t"
  "t_Destination (record_ids t ls) = t_Destination t" "t_ParentTransaction (record_ids t ls) = t_ParentTransaction t"
  "t_TransactionID (record_ids t ls) = t_TransactionID t" "t_PreciseAmount (record_ids t ls) = t_PreciseAmount t"
  by (simp_all add: record_ids_def Let_def)

lemma split_result:
  assumes "handleSplitTransactions U s t = Inr (t2, legs)"
  shows "t2 = record_ids t legs"
  using assms by (auto simp: handleSplitTransactions_def SplitTransactionPrecise_def Let_def split: sum.splits option.splits)

text \<open>Queueing changes no table, only starts a goroutine, and never rolls back.\<close>

lemma QueueTransaction_queue_mode:
  assumes "\<not> t_SkipQueue t"
  shows "QueueTransaction U rb t x = QueueTransaction U rb' t x"
    and "QueueTransaction U rb t x = Some (x', Inr t') \<Longrightarrow> si_world x' = si_world x \<and>
      (\<exists>j. si_jobs x' = si_jobs x @ [j] \<and> j_ref j = t_Reference t \<and> t_Source (j_txn j) = t_Source t \<and>
         t_Destination (j_txn j) = t_Destination t \<and> t_ParentTransaction (j_txn j) = t_ParentTransaction t)"
    and "QueueTransaction U rb t x = Some (x', r) \<Longrightarrow> si_world x' = si_world x"
proof -
  have sk: "handleSplitTransactions U s (setTransactionStatus (setTransactionMetadata Y s t)) = Inr (t2, ls) \<Longrightarrow> \<not> t_SkipQueue t2" for Y s t2 ls
    using assms by (auto dest: split_result)
  show "QueueTransaction U rb t x = QueueTransaction U rb' t x"
    by (auto simp: QueueTransaction_def Let_def sk split: sum.split)
  show "QueueTransaction U rb t x = Some (x', r) \<Longrightarrow> si_world x' = si_world x"
    by (auto simp: QueueTransaction_def Let_def sk queue_dates_def processTransactionAsync_def split: sum.splits prod.splits)
  assume Q: "QueueTransaction U rb t x = Some (x', Inr t')"
  then show "si_world x' = si_world x \<and>
      (\<exists>j. si_jobs x' = si_jobs x @ [j] \<and> j_ref j = t_Reference t \<and> t_Source (j_txn j) = t_Source t \<and>
         t_Destination (j_txn j) = t_Destination t \<and> t_ParentTransaction (j_txn j) = t_ParentTransaction t)"
    by (auto simp: QueueTransaction_def Let_def sk queue_dates_def processTransactionAsync_def
        split: sum.splits prod.splits dest!: split_result)
qed

lemma RefundTransaction_queue_mode:
  shows "RefundTransaction U rb tid False x = RefundTransaction U rb' tid False x"
    and "RefundTransaction U rb tid False x = Some (x', r) \<Longrightarrow> si_store x' = si_store x"
proof -
  let ?rt = "\<lambda>t s. prepareRefundTransaction (hb_sys U) s t False"
  have sk: "\<not> t_SkipQueue (?rt t s)" for t s by (simp add: prepareRefundTransaction_def)
  note q = QueueTransaction_queue_mode(1) [OF sk, of U rb _ _ _ rb']
  show "RefundTransaction U rb tid False x = RefundTransaction U rb' tid False x"
    by (simp add: RefundTransaction_def Let_def q split: prod.split sum.split)
  show "RefundTransaction U rb tid False x = Some (x', r) \<Longrightarrow> si_store x' = si_store x"
    by (auto simp: RefundTransaction_def Let_def split: prod.splits sum.splits option.splits dest!: QueueTransaction_queue_mode(3) [OF sk])
qed

text \<open>A refund that is queued is the job of a transaction the other way round.\<close>

definition refund_job_of :: "Transaction \<Rightarrow> job \<Rightarrow> bool" where
  "refund_job_of t j \<longleftrightarrow> j_ref j = t_TransactionID t @ ''_refund'' \<and> t_ParentTransaction (j_txn j) = t_TransactionID t \<and>
     t_Source (j_txn j) = t_Destination t \<and> t_Destination (j_txn j) = t_Source t"

lemma RefundTransaction_queues:
  assumes F: "\<forall>p. \<not> y_F (hb_sys U) p" and ok: "store_ok (si_store x)" and t: "t \<in> set (st_transactions (si_store x))"
    and R: "RefundTransaction U rb (t_TransactionID t) False x = Some (x', Inr r)"
  shows "\<exists>j. si_jobs x' = si_jobs x @ [j] \<and> refund_job_of t j"
proof -
  let ?rt = "prepareRefundTransaction (hb_sys U) (si_store x) (t\<lparr>t_ScheduledFor := 0, t_EffectiveDate := None\<rparr>) False"
  have sk: "\<not> t_SkipQueue ?rt" and f: "t_Reference ?rt = t_TransactionID t @ ''_refund''" "t_ParentTransaction ?rt = t_TransactionID t"
    "t_Source ?rt = t_Destination t" "t_Destination ?rt = t_Source t" by (simp_all add: prepareRefundTransaction_def)
  from R original_stored [OF F ok t] show ?thesis
    by (auto simp: RefundTransaction_def Let_def refund_job_of_def f
        split: prod.splits sum.splits option.splits dest!: QueueTransaction_queue_mode(2) [OF sk])
qed

lemma work_through_refunds:
  assumes F: "\<forall>p. \<not> y_F (hb_sys U) p" and W: "work_through (refund_job U rb) ts x = Some (x', [], rs)"
    and "store_ok (si_store x)" "\<forall>t \<in> set ts. \<not> t_SkipQueue t \<and> (\<exists>u \<in> set (st_transactions (si_store x)). t_TransactionID u = t_TransactionID t \<and>
        t_Source u = t_Source t \<and> t_Destination u = t_Destination t)"
  shows "si_store x' = si_store x \<and> (\<exists>js. si_jobs x' = si_jobs x @ js \<and> list_all2 refund_job_of ts js)"
  using assms(2-4)
proof (induction ts arbitrary: x rs)
  case Nil
  then show ?case by simp
next
  case (Cons t ts)
  from Cons.prems(3) obtain u where u: "\<not> t_SkipQueue t" "u \<in> set (st_transactions (si_store x))" "t_TransactionID u = t_TransactionID t"
    "t_Source u = t_Source t" "t_Destination u = t_Destination t" by auto
  from Cons.prems(1) obtain x1 r rs' where a: "RefundTransaction U rb (t_TransactionID u) False x = Some (x1, Inr r)"
    and W: "work_through (refund_job U rb) ts x1 = Some (x', [], rs')"
    using u by (auto simp: refund_job_def [of U rb t] split: option.splits sum.splits)
  note s = RefundTransaction_queue_mode(2) [OF a]
  from RefundTransaction_queues [OF F Cons.prems(2) u(2) a] obtain j where j: "si_jobs x1 = si_jobs x @ [j]" "refund_job_of u j" by blast
  then have "refund_job_of t j" using u by (simp add: refund_job_of_def)
  with Cons.IH [OF W] Cons.prems(2,3) s j show ?case by auto
qed

text \<open>The pages of a list are the list.\<close>

lemma fetch_pages_all:
  assumes "0 < n" "\<forall>i. gt i = Inr (take n (drop i rows))"
  shows "fetch_pages gt i = Some (drop i rows, None)"
proof (induction "length rows - i" arbitrary: i rule: less_induct)
  case less
  show ?case
  proof (cases "drop i rows = []")
    case True
    then show ?thesis using assms(2) by (subst fetch_pages.simps) simp
  next
    case False
    let ?p = "take n (drop i rows)"
    have "?p \<noteq> []" using False assms(1) by simp
    moreover have "length rows - (i + length ?p) < length rows - i" using False assms(1) by simp
    note less [OF this]
    moreover have "?p @ drop (i + length ?p) rows = drop i rows"
      by (metis append_take_drop_id drop_drop add.commute append_eq_conv_conj)
    ultimately show ?thesis using assms(2) by (subst fetch_pages.simps) simp
  qed
qed

lemma fetch_pages_within:
  assumes "fetch_pages gt i = Some (ts, e)" "\<forall>i page. gt i = Inr page \<longrightarrow> set page \<subseteq> A"
  shows "set ts \<subseteq> A"
proof -
  let ?P = "\<lambda>gt i r. (\<forall>i page. gt i = Inr page \<longrightarrow> set page \<subseteq> A) \<longrightarrow> set (fst r) \<subseteq> A"
  have "?P gt i (ts, e)"
  proof (rule fetch_pages.raw_induct [where P = ?P, rotated, OF assms(1)])
    fix f :: "(nat \<Rightarrow> Transaction list res) \<Rightarrow> nat \<Rightarrow> (Transaction list \<times> error option) option" and gt i r
    assume IH: "\<And>gt i r. f gt i = Some r \<Longrightarrow> ?P gt i r" and r: "(case gt i of Inl e \<Rightarrow> Some ([], Some e)
      | Inr page \<Rightarrow> if page = [] then Some ([], None)
          else Option.bind (f gt (i + length page)) (\<lambda>(ts, e). Some (page @ ts, e))) = Some r"
    show "?P gt i r"
    proof
      assume A: "\<forall>i page. gt i = Inr page \<longrightarrow> set page \<subseteq> A"
      show "set (fst r) \<subseteq> A"
        using r A IH [of gt "i + length (projr (gt i))"] by (cases "gt i") (auto split: if_splits simp: bind_eq_Some_conv, blast+)
    qed
  qed
  then show ?thesis using assms(2) by simp
qed

lemma work_through_cong:
  "(\<And>t y. t \<in> set ts \<Longrightarrow> act t y = act' t y) \<Longrightarrow> work_through act ts y = work_through act' ts y"
  by (induction ts arbitrary: y) (simp_all cong: option.case_cong prod.case_cong)

text \<open>Whatever the fuel, as long as there is some: the refunds of a rollback are only queued.\<close>

lemma rollback_fuel:
  assumes "\<forall>t \<in> set (st_transactions (si_store x)). \<not> t_SkipQueue t"
  shows "rollback_at U (Suc n) batchID i x = rollback_at U (Suc m) batchID i x"
proof -
  let ?gt = "\<lambda>offset. GetRefundableTransactionsByParentID (y_F (hb_sys U)) batchID (y_BatchSize (hb_sys U)) offset (si_store x)"
  have rows: "\<forall>i page. ?gt i = Inr page \<longrightarrow> set page \<subseteq> {t. \<not> t_SkipQueue t}"
    using assms by (auto simp: GetRefundableTransactionsByParentID_def refundable_rows_def dest!: in_set_takeD in_set_dropD)
  have "work_through (refund_job U (rollback_at U n)) ts x = work_through (refund_job U (rollback_at U m)) ts x"
    if "fetch_pages ?gt 0 = Some (ts, e)" for ts e
  proof (rule work_through_cong)
    fix t y assume "t \<in> set ts"
    then have "\<not> t_SkipQueue t" using fetch_pages_within [OF that rows] by blast
    then show "refund_job U (rollback_at U n) t y = refund_job U (rollback_at U m) t y"
      using RefundTransaction_queue_mode(1) [of U "rollback_at U n" "t_TransactionID t" y "rollback_at U m"] by (simp add: refund_job_def)
  qed
  then have "ProcessTransactionInBatches sel ?gt (refund_job U (rollback_at U n)) x = ProcessTransactionInBatches sel ?gt (refund_job U (rollback_at U m)) x" for sel
    by (auto simp: ProcessTransactionInBatches_def split: option.split)
  then show ?thesis by (simp add: rollbackBatchTransactions_def refundNonInflightBatchTransactions_def)
qed

text \<open>
  A refund can be refunded: the row that a refund adds is selected, as a child of the refunded
  transaction, when the transaction is refunded a second time, and it has no refund yet. So a
  repeated request on the same id reverses the first one.
\<close>

lemma refund_of_refund_selected:
  assumes "row \<in> set (st_transactions s)" "t_ParentTransaction row = t_TransactionID t" "t_Status row = StatusApplied"
    and "\<forall>u \<in> set (st_transactions s). t_ParentTransaction u \<noteq> t_TransactionID row" "\<forall>p. \<not> y_F Y p"
  shows "row\<lparr>t_EffectiveDate := None\<rparr> \<in> set (refundable_rows (t_TransactionID t) s) \<and>
    validateTransactionForRefund Y (row\<lparr>t_ScheduledFor := 0, t_EffectiveDate := None\<rparr>) s = Inr ()"
  using assms by (auto simp: refundable_rows_def refundable_def validateTransactionForRefund_def IsTransactionRefunded_def)

section \<open>Properties\<close>

text \<open>
  C14: a synchronous refund undoes an applied transfer, once. Conditions: sound tables; no call fails, the
  queued checks are off and lock waiting is not configured; the stored transfer is APPLIED, between two different
  plain ids that have rows, with a positive amount, and has not been refunded; the locks of the two balances and of
  the refund are free (and the latter is not the key of one of the balances), and the refund's reference and
  generated id are unused. Then \<open>RefundTransaction\<close> succeeds, also when the destination has to be overdrawn
  (a refund allows that): the source gets back what the destination gives. From then on, in every later state with
  sound tables that still has the rows, a further refund of the transfer is refused and changes no table, as
  long as again no call fails.
\<close>

theorem refund_restores_once:
  assumes "undisturbed U val" "store_ok (si_store x)" "stored_transfer t a (si_store x)" "t_Status t = StatusApplied"
    and "refunds_of t (si_store x) = []"
    and "find_balance (t_Source t) (si_store x) = Some rs" "find_balance (t_Destination t) (si_store x) = Some rd"
    and "refund_clear U t x"
  shows "\<exists>x' r rs' rd'. RefundTransaction U rb (t_TransactionID t) True x = Some (x', Inr r) \<and>
    find_balance (t_Source t) (si_store x') = Some rs' \<and> row_moved rs rs' a 0 0 0 \<and>
    find_balance (t_Destination t) (si_store x') = Some rd' \<and> row_moved rd rd' 0 a 0 0 \<and>
    (\<forall>y sq. store_ok (si_store y) \<and> set (st_transactions (si_store x')) \<subseteq> set (st_transactions (si_store y)) \<longrightarrow>
       (\<exists>y' e. RefundTransaction U rb (t_TransactionID t) sq y = Some (y', Inl e) \<and> si_store y' = si_store y))"
proof -
  from refund_succeeds [OF assms, of rb] obtain x' r row rs' rd' where
    R: "RefundTransaction U rb (t_TransactionID t) True x = Some (x', Inr r)"
      "st_transactions (si_store x') = st_transactions (si_store x) @ [row]" "refunds_of t (si_store x') = [row]"
      "find_balance (t_Source t) (si_store x') = Some rs'" "row_moved rs rs' a 0 0 0"
      "find_balance (t_Destination t) (si_store x') = Some rd'" "row_moved rd rd' 0 a 0 0" by blast
  have "\<exists>y' e. RefundTransaction U rb (t_TransactionID t) sq y = Some (y', Inl e) \<and> si_store y' = si_store y"
    if y: "store_ok (si_store y)" "set (st_transactions (si_store x')) \<subseteq> set (st_transactions (si_store y))" for y sq
  proof (rule refund_refused)
    show "quiet (hb_env U)" using assms(1) by (simp add: undisturbed_def)
    show "t \<in> set (st_transactions (si_store y))" using assms(3) R(2) y(2) by (auto simp: stored_transfer_def)
    have "row \<in> set (refunds_of t (si_store x'))" using R(3) by simp
    then have "row \<in> set (refunds_of t (si_store y))" using y(2) by (auto simp: refunds_of_def)
    then show "t_Status t \<notin> {StatusApplied, StatusVoid} \<or> refunds_of t (si_store y) \<noteq> []" by auto
  qed (use y in simp)
  with R show ?thesis by blast
qed

definition ex_applied :: Transaction where
  "ex_applied = row_of (ex_txn\<lparr>t_Status := StatusApplied\<rparr>) (5 / 2)"

definition ex_refund_site :: "(rstore, task list, unit) site" where
  "ex_refund_site = ex_site\<lparr>si_world := ex_world\<lparr>w_store := ex_store\<lparr>st_transactions := [ex_applied]\<rparr>\<rparr>\<rparr>"

lemma ex_refund_ok:
  "store_ok (si_store ex_refund_site)" "stored_transfer ex_applied 250 (si_store ex_refund_site)" "t_Status ex_applied = StatusApplied"
  "find_balance ''bln_a'' (si_store ex_refund_site) = Some (ex_row ''bln_a'' 1000)" "find_balance ''bln_b'' (si_store ex_refund_site) = Some (ex_row ''bln_b'' 0)"
  "t_Source ex_applied = ''bln_a''" "t_Destination ex_applied = ''bln_b''" "t_TransactionID ex_applied = ''txn_1''"
proof -
  have f: "t_Source ex_applied = ''bln_a''" "t_Destination ex_applied = ''bln_b''" "t_TransactionID ex_applied = ''txn_1''"
    "t_PreciseAmount ex_applied = Some 250"
    by (simp_all add: ex_applied_def ex_txn_def zero_Transaction_def)
  then show "t_Source ex_applied = ''bln_a''" "t_Destination ex_applied = ''bln_b''" "t_TransactionID ex_applied = ''txn_1''" by simp_all
  show "t_Status ex_applied = StatusApplied" by (simp add: ex_applied_def)
  have "store_ok (ex_store\<lparr>st_transactions := [ex_applied]\<rparr>)" using ex_store_ok f by (simp add: store_ok_def ex_store_def)
  then show "store_ok (si_store ex_refund_site)" by (simp add: ex_refund_site_def)
  show "stored_transfer ex_applied 250 (si_store ex_refund_site)"
    using f by (auto simp: stored_transfer_def ex_refund_site_def plain_ids_def has_prefix_def) (auto simp: ex_applied_def)
  show "find_balance ''bln_a'' (si_store ex_refund_site) = Some (ex_row ''bln_a'' 1000)" "find_balance ''bln_b'' (si_store ex_refund_site) = Some (ex_row ''bln_b'' 0)"
    using ex_find by (simp_all add: ex_refund_site_def)
qed

lemma ex_refund_clear: "refund_clear ex_hub ex_applied ex_refund_site"
  by (simp add: refund_clear_def ex_refund_ok ex_hub_ok ex_refund_site_def ex_site_def ex_world_def ex_store_def ex_env_def kv_def rs_get_def
      fresh_uuid_def ex_sys_def) (simp add: ex_applied_def row_of_def ex_txn_def zero_Transaction_def)

theorem refund_restores_once_witness:
  "\<exists>x' r rs' rd'. RefundTransaction ex_hub (\<lambda>_ _ _. None) ''txn_1'' True ex_refund_site = Some (x', Inr r) \<and>
     find_balance ''bln_a'' (si_store x') = Some rs' \<and> row_moved (ex_row ''bln_a'' 1000) rs' 250 0 0 0 \<and>
     find_balance ''bln_b'' (si_store x') = Some rd' \<and> row_moved (ex_row ''bln_b'' 0) rd' 0 250 0 0"
proof -
  have n: "refunds_of ex_applied (si_store ex_refund_site) = []"
    by (simp add: refunds_of_def ex_refund_site_def ex_refund_ok) 
  show ?thesis
    using refund_restores_once [OF ex_hub_ok(1) ex_refund_ok(1-3) n, of "ex_row ''bln_a'' 1000" "ex_row ''bln_b'' 0" "\<lambda>_ _ _. None"]
      ex_refund_clear ex_refund_ok(4,5) unfolding ex_refund_ok(6-8) by blast
qed

text \<open>
  A failed fetch can be lost: when the end of the results is received instead of the error, the rollback
  reports success although it has refunded nothing, whatever the batch holds.
\<close>

lemma rollback_loses_fetch_error:
  assumes "y_F (hb_sys U) (''GetRefundableTransactionsByParentID:'' @ show_nat 0)" "hb_select U batchID = None"
  shows "rollbackBatchTransactions U rb batchID False x = Some (x, ''refunded'', None)"
  using assms by (simp add: rollbackBatchTransactions_def refundNonInflightBatchTransactions_def ProcessTransactionInBatches_def
      GetRefundableTransactionsByParentID_def fetch_pages.simps Let_def)

text \<open>
  C15: the rollback of a batch that is not inflight. The tables are sound, the batch size is positive, no
  stored transaction skips the queue, and no database call fails (a failed fetch may be lost, see the
  lemma above). When the rollback then reports success it has queued, for every refundable transaction of
  the batch and in the order of the query, a transaction the other way round, and has changed no table.
\<close>

theorem rollback_queues_refunds:
  assumes "\<forall>p. \<not> y_F (hb_sys U) p" "store_ok (si_store x)" "0 < y_BatchSize (hb_sys U)"
    and "\<forall>t \<in> set (st_transactions (si_store x)). \<not> t_SkipQueue t"
    and "rollbackBatchTransactions U rb batchID False x = Some (x', action, None)"
  shows "si_store x' = si_store x \<and>
    (\<exists>js. si_jobs x' = si_jobs x @ js \<and> list_all2 refund_job_of (refundable_rows batchID (si_store x)) js)"
proof -
  let ?gt = "\<lambda>offset. GetRefundableTransactionsByParentID (y_F (hb_sys U)) batchID (y_BatchSize (hb_sys U)) offset (si_store x)"
  let ?rows = "refundable_rows batchID (si_store x)"
  have gt: "\<forall>i. ?gt i = Inr (take (nat (y_BatchSize (hb_sys U))) (drop i ?rows))"
    using assms(1,3) by (simp add: GetRefundableTransactionsByParentID_def)
  have "fetch_pages ?gt 0 = Some (?rows, None)" using fetch_pages_all [OF _ gt, of 0] assms(3) by simp
  with assms(5) obtain rs where "work_through (refund_job U rb) ?rows x = Some (x', [], rs)"
    by (auto simp: rollbackBatchTransactions_def refundNonInflightBatchTransactions_def ProcessTransactionInBatches_def Let_def
        split: option.splits if_splits)
  moreover have "\<forall>t \<in> set ?rows. \<not> t_SkipQueue t \<and> (\<exists>u \<in> set (st_transactions (si_store x)). t_TransactionID u = t_TransactionID t \<and>
        t_Source u = t_Source t \<and> t_Destination u = t_Destination t)"
    using assms(4) by (auto simp: refundable_rows_def)
  ultimately show ?thesis using work_through_refunds [OF assms(1) _ assms(2)] by blast
qed

lemma refund_queued_succeeds:
  assumes U: "undisturbed U val" and ok: "store_ok (si_store x)" and t: "stored_transfer t a (si_store x)" "t_Status t = StatusApplied"
    and new: "refunds_of t (si_store x) = []" and clear: "refund_clear U t x"
  shows "\<exists>x' r. RefundTransaction U rb (t_TransactionID t) False x = Some (x', Inr r)"
proof -
  let ?E = "hb_env U" and ?Y = "hb_sys U" and ?w = "si_world x" and ?t0 = "t\<lparr>t_ScheduledFor := 0, t_EffectiveDate := None\<rparr>"
  let ?l = "NewLocker (''refund:'' @ t_TransactionID t) (e_uuid ?E ''loc'')"
  have u: "uuids_ok ?E" using U by (simp add: undisturbed_def)
  obtain r1 where L: "Lock (e_R ?E) ?l (e_LockDuration ?E) (w_redis ?w) = (r1, Inr ())"
    and o1: "getOriginalTransactionForRefund ?Y (t_TransactionID t) (si_store x) (si_queue x) = Inr ?t0"
    and v: "validateTransactionForRefund ?Y ?t0 (si_store x) = Inr ()"
    by (rule refund_admitted [OF U ok t new clear refl])
  let ?rt = "prepareRefundTransaction ?Y (si_store x) ?t0 False" and ?x1 = "x\<lparr>si_world := ?w\<lparr>w_redis := r1\<rparr>\<rparr>"
  note r = refund_request [OF t(1), of ?Y ?rt False, OF u refl]
  have "0 < a" "\<not> t_SkipQueue ?rt" using t(1) r(10) by (simp_all add: stored_transfer_def)
  then have "\<exists>x2 t'. QueueTransaction U rb ?rt ?x1 = Some (x2, Inr t')"
    using QueueTransaction_queued [OF U r(1,2), of rb ?x1] unfolding Let_def by blast
  with L o1 v show ?thesis by (auto simp: RefundTransaction_def Let_def)
qed

theorem rollback_queues_refunds_witness:
  "\<exists>x' action j. rollbackBatchTransactions ex_hub (\<lambda>_ _ _. None) ''txn_1'' False ex_refund_site = Some (x', action, None) \<and>
     si_store x' = si_store ex_refund_site \<and> si_jobs x' = [j] \<and> t_Source (j_txn j) = ''bln_b'' \<and> t_Destination (j_txn j) = ''bln_a''"
proof -
  let ?row = "ex_applied\<lparr>t_EffectiveDate := None\<rparr>" and ?x = ex_refund_site
  have n: "refunds_of ex_applied (si_store ?x) = []" by (simp add: refunds_of_def ex_refund_site_def ex_refund_ok)
  have rows: "refundable_rows ''txn_1'' (si_store ?x) = [?row]" "\<forall>t \<in> set (st_transactions (si_store ?x)). \<not> t_SkipQueue t"
    using ex_refund_ok(3,8) by (simp_all add: refundable_rows_def refundable_def ex_refund_site_def) (simp add: ex_applied_def)
  have F: "\<forall>p. \<not> y_F (hb_sys ex_hub) p" and b: "y_BatchSize (hb_sys ex_hub) = 2" using ex_env_ok(2) by (simp_all add: quiet_def ex_hub_def ex_sys_def)
  obtain x' r where R: "RefundTransaction ex_hub (\<lambda>_ _ _. None) ''txn_1'' False ?x = Some (x', Inr r)"
    using refund_queued_succeeds [OF ex_hub_ok(1) ex_refund_ok(1-3) n ex_refund_clear, of "\<lambda>_ _ _. None"] ex_refund_ok(8) by auto
  let ?gt = "\<lambda>offset. GetRefundableTransactionsByParentID (y_F (hb_sys ex_hub)) ''txn_1'' (y_BatchSize (hb_sys ex_hub)) offset (si_store ?x)"
  have gt: "\<forall>i. ?gt i = Inr (take 2 (drop i [?row]))" using F b rows(1) by (simp add: GetRefundableTransactionsByParentID_def)
  have "refund_job ex_hub (\<lambda>_ _ _. None) ?row ?x = Some (x', Inr r)"
    using R rows(2) ex_refund_ok(8) by (simp add: refund_job_def ex_refund_site_def)
  then have "rollbackBatchTransactions ex_hub (\<lambda>_ _ _. None) ''txn_1'' False ?x = Some (x', ''refunded'', None)"
    using fetch_pages_all [OF _ gt, of 0] 
    by (simp add: rollbackBatchTransactions_def refundNonInflightBatchTransactions_def ProcessTransactionInBatches_def Let_def)
  with rollback_queues_refunds [OF F ex_refund_ok(1) _ rows(2) this] b rows(1) show ?thesis
    by (auto simp: list_all2_Cons1 refund_job_of_def ex_refund_ok ex_refund_site_def ex_site_def)
qed

end
