(* ===== verification/Lineage.thy ===== *)
theory Lineage
  imports Queueing
begin

text \<open>
  Fund lineage (\<open>lineage.go\<close>, \<open>lineage_processing.go\<close>, \<open>lineage_credit.go\<close>, \<open>lineage_debit.go\<close>,
  \<open>lineage_allocation.go\<close>, \<open>lineage_allocation_metadata.go\<close>, \<open>lineage_outbox.go\<close>, \<open>lineage_worker.go\<close>,
  \<open>lineage_queries.go\<close>, \<open>database/lineage.go\<close>): for every provider of the funds of a balance a shadow
  balance records what was received and what was spent. A worker claims the outbox rows that
  recording left behind; a credit moves its amount from the provider's shadow to the aggregate
  balance of the identity, a debit is allocated to the shadows and released back to them. Outbox
  rows are identified by their unique transaction id and kept in the order of their creation. The
  argument \<open>tie\<close> is the order in which \<open>sort.Slice\<close> leaves sources of equal age.
\<close>

section \<open>The model\<close>

subsection \<open>Data\<close>

record LineageMapping =
  lm_ID :: int
  lm_BalanceID :: string
  lm_Provider :: string
  lm_ShadowBalanceID :: string
  lm_AggregateBalanceID :: string
  lm_IdentityID :: string
  lm_CreatedAt :: int

record LineageSource =
  ls_BalanceID :: string
  ls_Balance :: int
  ls_CreatedAt :: int

record Allocation =
  al_BalanceID :: string
  al_Amount :: int

text \<open>Of an identity, the fields that its identifier is made of.\<close>

record Identity =
  id_IdentityID :: string
  id_OrganizationName :: string
  id_FirstName :: string
  id_LastName :: string

record destinationLineageInfo =
  di_shadowBalance :: Balance
  di_aggregateBalance :: Balance

record ProviderBreakdown =
  pb_Provider :: string
  pb_Amount :: int
  pb_Available :: int
  pb_Spent :: int
  pb_BalanceID :: string

record BalanceLineage =
  bl_BalanceID :: string
  bl_TotalWithLineage :: int
  bl_AggregateBalanceID :: string
  bl_Providers :: "ProviderBreakdown list"

record TransactionLineage =
  tl_TransactionID :: string
  tl_FundAllocation :: "(string \<times> json) list list option"
  tl_ShadowTransactions :: "Transaction list"

text \<open>The service with the tables of the lineage; \<open>fu_serial\<close> is the sequence of the mapping ids.\<close>

record ('r, 'q, 'h) fund =
  fu_site :: "('r, 'q, 'h) site"
  fu_mappings :: "LineageMapping list"
  fu_serial :: int
  fu_identities :: "Identity list"

abbreviation fu_store :: "('r, 'q, 'h) fund \<Rightarrow> store" where "fu_store f \<equiv> si_store (fu_site f)"

abbreviation AllocationLIFO :: string where "AllocationLIFO \<equiv> ''LIFO''"
abbreviation AllocationProp :: string where "AllocationProp \<equiv> ''PROPORTIONAL''"
abbreviation LineageFundAllocation :: string where "LineageFundAllocation \<equiv> ''BLNK_FUND_ALLOCATION''"

definition put_fund_store :: "store \<Rightarrow> ('r, 'q, 'h) fund \<Rightarrow> ('r, 'q, 'h) fund" where
  "put_fund_store s f = f\<lparr>fu_site := put_store s (fu_site f)\<rparr>"

definition put_fund_redis :: "'r \<Rightarrow> ('r, 'q, 'h) fund \<Rightarrow> ('r, 'q, 'h) fund" where
  "put_fund_redis r f = f\<lparr>fu_site := (fu_site f)\<lparr>si_world := (si_world (fu_site f))\<lparr>w_redis := r\<rparr>\<rparr>\<rparr>"

subsection \<open>The table of mappings\<close>

text \<open>
  One row for a balance and a provider. The foreign keys are checked for the columns that are
  written: all of them by an insert, the two balance ids by the update on a conflict.
\<close>

definition same_mapping :: "LineageMapping \<Rightarrow> LineageMapping \<Rightarrow> bool" where
  "same_mapping m r \<longleftrightarrow> lm_BalanceID r = lm_BalanceID m \<and> lm_Provider r = lm_Provider m"

definition UpsertLineageMapping ::
    "faults \<Rightarrow> int \<Rightarrow> LineageMapping \<Rightarrow> ('r, 'q, 'h) fund \<Rightarrow> ('r, 'q, 'h) fund \<times> unit res" where
  "UpsertLineageMapping F now m f =
     (let known = (\<lambda>i. find_balance i (fu_store f) \<noteq> None); conflict = list_ex (same_mapping m) (fu_mappings f)
      in if F ''UpsertLineageMapping'' then (f, Inl (internal ''Failed to upsert lineage mapping''))
         else if F ''UpsertLineageMapping.pq'' then (f, Inl (internal ''Database error occurred''))
         else if \<not> known (lm_ShadowBalanceID m) \<or> \<not> known (lm_AggregateBalanceID m) \<or>
           \<not> conflict \<and> (\<not> known (lm_BalanceID m) \<or> find_row id_IdentityID (lm_IdentityID m) (fu_identities f) = None)
         then (f, Inl (APIError ErrBadRequest ''Invalid balance or identity ID''))
         else (f\<lparr>fu_serial := fu_serial f + 1,
                 fu_mappings := (if conflict
                   then map (\<lambda>r. if same_mapping m r
                          then r\<lparr>lm_ShadowBalanceID := lm_ShadowBalanceID m, lm_AggregateBalanceID := lm_AggregateBalanceID m\<rparr>
                          else r) (fu_mappings f)
                   else fu_mappings f @ [m\<lparr>lm_ID := fu_serial f + 1, lm_CreatedAt := now\<rparr>])\<rparr>, Inr ()))"

definition GetLineageMappings :: "faults \<Rightarrow> string \<Rightarrow> ('r, 'q, 'h) fund \<Rightarrow> LineageMapping list res" where
  "GetLineageMappings F bid f =
     (if F ''GetLineageMappings'' then Inl (internal ''Failed to retrieve lineage mappings'')
      else if F ''GetLineageMappings.Scan'' then Inl (internal ''Failed to scan lineage mapping'')
      else if F ''GetLineageMappings.Rows'' then Inl (internal ''Error occurred while iterating over lineage mappings'')
      else Inr (sort_key lm_CreatedAt (filter (\<lambda>m. lm_BalanceID m = bid) (fu_mappings f))))"

definition GetLineageMappingByProvider ::
    "faults \<Rightarrow> string \<Rightarrow> string \<Rightarrow> ('r, 'q, 'h) fund \<Rightarrow> LineageMapping option res" where
  "GetLineageMappingByProvider F bid provider f =
     (if F ''GetLineageMappingByProvider'' then Inl (internal ''Failed to retrieve lineage mapping'')
      else Inr (find (\<lambda>m. lm_BalanceID m = bid \<and> lm_Provider m = provider) (fu_mappings f)))"

definition DeleteLineageMapping :: "faults \<Rightarrow> int \<Rightarrow> ('r, 'q, 'h) fund \<Rightarrow> ('r, 'q, 'h) fund \<times> unit res" where
  "DeleteLineageMapping F i f =
     (if F ''DeleteLineageMapping'' then (f, Inl (internal ''Failed to delete lineage mapping''))
      else (f\<lparr>fu_mappings := filter (\<lambda>m. lm_ID m \<noteq> i) (fu_mappings f)\<rparr>,
            if F ''DeleteLineageMapping.RowsAffected'' then Inl (internal ''Failed to get rows affected'')
            else if \<not> list_ex (\<lambda>m. lm_ID m = i) (fu_mappings f) then Inl (APIError ErrNotFound ''Lineage mapping not found'')
            else Inr ()))"

definition GetIdentityByID :: "faults \<Rightarrow> string \<Rightarrow> ('r, 'q, 'h) fund \<Rightarrow> Identity res" where
  "GetIdentityByID F i f =
     (if F ''GetIdentityByID.BeginTx'' then Inl (internal ''Failed to begin transaction'')
      else if F ''GetIdentityByID'' then Inl (internal ''Failed to retrieve identity'')
      else case find_row id_IdentityID i (fu_identities f) of
             None \<Rightarrow> Inl (APIError ErrNotFound (''Identity with ID '' @ quoted i @ '' not found''))
           | Some x \<Rightarrow>
               if F ''GetIdentityByID.Unmarshal'' then Inl (internal ''Failed to unmarshal metadata'')
               else if F ''GetIdentityByID.Commit'' then Inl (internal ''Failed to commit transaction'')
               else Inr x)"

subsection \<open>The outbox\<close>

definition claimable :: "int \<Rightarrow> LineageOutbox \<Rightarrow> bool" where
  "claimable now o' \<longleftrightarrow> o_Status o' \<in> {''pending'', ''processing''} \<and>
     (case o_LockedUntil o' of None \<Rightarrow> True | Some t \<Rightarrow> t < now) \<and> o_Attempts o' < o_MaxAttempts o'"

definition claim :: "int \<Rightarrow> int \<Rightarrow> LineageOutbox \<Rightarrow> LineageOutbox" where
  "claim now lockDuration o' = o'\<lparr>o_Status := ''processing'', o_LockedUntil := Some (now + lockDuration)\<rparr>"

text \<open>The statement has been executed when scanning a row fails.\<close>

definition ClaimPendingOutboxEntries ::
    "faults \<Rightarrow> int \<Rightarrow> nat \<Rightarrow> int \<Rightarrow> store \<Rightarrow> store \<times> LineageOutbox list res" where
  "ClaimPendingOutboxEntries F now batchSize lockDuration s =
     (if F ''ClaimPendingOutboxEntries'' then (s, Inl (internal ''Failed to claim pending outbox entries''))
      else let ids = map o_TransactionID (take batchSize (filter (claimable now) (st_outbox s)));
               s' = s\<lparr>st_outbox := map (\<lambda>o'. if o_TransactionID o' \<in> set ids then claim now lockDuration o' else o') (st_outbox s)\<rparr>
           in (s', if F ''ClaimPendingOutboxEntries.Scan'' then Inl (internal ''Failed to scan outbox entry'')
                   else if F ''ClaimPendingOutboxEntries.Rows'' then Inl (internal ''Error iterating over outbox entries'')
                   else Inr (filter (\<lambda>o'. o_TransactionID o' \<in> set ids) (st_outbox s'))))"

definition update_outbox :: "(LineageOutbox \<Rightarrow> LineageOutbox) \<Rightarrow> string \<Rightarrow> store \<Rightarrow> store" where
  "update_outbox g tid s = s\<lparr>st_outbox := map (\<lambda>o'. if o_TransactionID o' = tid then g o' else o') (st_outbox s)\<rparr>"

definition MarkOutboxCompleted :: "faults \<Rightarrow> int \<Rightarrow> string \<Rightarrow> store \<Rightarrow> store \<times> unit res" where
  "MarkOutboxCompleted F now tid s =
     (if F ''MarkOutboxCompleted'' then (s, Inl (internal ''Failed to mark outbox entry as completed''))
      else (update_outbox (\<lambda>o'. o'\<lparr>o_Status := ''completed'', o_ProcessedAt := Some now, o_LockedUntil := None\<rparr>) tid s, Inr ()))"

definition MarkOutboxFailed :: "faults \<Rightarrow> string \<Rightarrow> string \<Rightarrow> store \<Rightarrow> store \<times> unit res" where
  "MarkOutboxFailed F tid errMsg s =
     (if F ''MarkOutboxFailed'' then (s, Inl (internal ''Failed to mark outbox entry as failed''))
      else (update_outbox (\<lambda>o'. o'\<lparr>o_Status := (if o_MaxAttempts o' \<le> o_Attempts o' + 1 then ''failed'' else ''pending''),
              o_Attempts := o_Attempts o' + 1, o_LastError := errMsg, o_LockedUntil := None\<rparr>) tid s, Inr ()))"

definition GetOutboxByTransactionID :: "faults \<Rightarrow> string \<Rightarrow> store \<Rightarrow> LineageOutbox option res" where
  "GetOutboxByTransactionID F tid s =
     (if F ''GetOutboxByTransactionID'' then Inl (internal ''Failed to retrieve outbox entry'')
      else Inr (find_row o_TransactionID tid (st_outbox s)))"

definition HasPendingCreditOutbox :: "faults \<Rightarrow> string \<Rightarrow> store \<Rightarrow> bool res" where
  "HasPendingCreditOutbox F bid s =
     (if F ''HasPendingCreditOutbox'' then Inl (internal ''Failed to check pending credit outbox'')
      else Inr (list_ex (\<lambda>o'. o_DestinationBalanceID o' = bid \<and> o_LineageType o' \<in> {''credit'', ''both''} \<and>
             o_Status o' \<in> {''pending'', ''processing''}) (st_outbox s)))"

subsection \<open>Allocation\<close>

definition lineage_source :: "(string \<rightharpoonup> Balance) \<Rightarrow> LineageMapping \<Rightarrow> LineageSource option" where
  "lineage_source balances m = (case balances (lm_ShadowBalanceID m) of None \<Rightarrow> None
     | Some b \<Rightarrow>
         (case (b_DebitBalance b, b_CreditBalance b) of
            (Some d, Some c) \<Rightarrow>
              if 0 < d \<and> 0 < d - c
              then Some \<lparr>ls_BalanceID = lm_ShadowBalanceID m, ls_Balance = d - c, ls_CreatedAt = lm_CreatedAt m\<rparr>
              else None
          | _ \<Rightarrow> None))"

definition getLineageSources :: "('d, 'r, 'q) sys \<Rightarrow> LineageMapping list \<Rightarrow> store \<Rightarrow> LineageSource list res" where
  "getLineageSources Y mappings s =
     (if mappings = [] then Inr []
      else case GetBalancesByIDsLite (y_F Y) (map lm_ShadowBalanceID mappings) s of
             Inl e \<Rightarrow> Inl (Wrap ''failed to fetch shadow balances'' e)
           | Inr balances \<Rightarrow> Inr (List.map_filter (lineage_source balances) mappings))"

fun seq_alloc :: "LineageSource list \<Rightarrow> int \<Rightarrow> Allocation list" where
  "seq_alloc [] remaining = []"
| "seq_alloc (s # ss) remaining =
     (if remaining \<le> 0 then []
      else let alloc = (if remaining \<le> ls_Balance s then remaining else ls_Balance s)
           in if alloc \<le> 0 then seq_alloc ss remaining
              else \<lparr>al_BalanceID = ls_BalanceID s, al_Amount = alloc\<rparr> # seq_alloc ss (remaining - alloc))"

definition sequentialAllocation :: "LineageSource list \<Rightarrow> int \<Rightarrow> Allocation list" where
  "sequentialAllocation sources amount = (if amount \<le> 0 then [] else seq_alloc sources amount)"

text \<open>\<open>big.Int.Div\<close> is Euclidean: the remainder is never negative.\<close>

definition euclid_div :: "int \<Rightarrow> int \<Rightarrow> int" where
  "euclid_div x y = (if y < 0 then - (x div (- y)) else x div y)"

text \<open>The last source gets the remainder; every share is capped at the balance of its source.\<close>

fun prop_alloc :: "int \<Rightarrow> int \<Rightarrow> LineageSource list \<Rightarrow> int \<Rightarrow> Allocation list" where
  "prop_alloc effective tot [] remaining = []"
| "prop_alloc effective tot (s # ss) remaining =
     (let share = (if ss = [] then remaining else euclid_div (effective * ls_Balance s) tot);
          alloc = (if ls_Balance s < share then ls_Balance s else share)
      in if alloc \<le> 0 then prop_alloc effective tot ss remaining
         else \<lparr>al_BalanceID = ls_BalanceID s, al_Amount = alloc\<rparr> # prop_alloc effective tot ss (remaining - alloc))"

definition proportionalAllocation :: "LineageSource list \<Rightarrow> int \<Rightarrow> Allocation list" where
  "proportionalAllocation sources amount =
     (let tot = sum_list (map ls_Balance sources); effective = (if tot < amount then tot else amount)
      in if amount \<le> 0 \<or> tot = 0 then [] else prop_alloc effective tot sources effective)"

definition calculateAllocation ::
    "(LineageSource list \<Rightarrow> LineageSource list) \<Rightarrow> LineageSource list \<Rightarrow> int \<Rightarrow> string \<Rightarrow> Allocation list" where
  "calculateAllocation tie sources amount strategy =
     (if sources = [] then []
      else if strategy = AllocationLIFO then sequentialAllocation (sort_key (\<lambda>s. - ls_CreatedAt s) (tie sources)) amount
      else if strategy = AllocationProp then proportionalAllocation sources amount
      else sequentialAllocation (sort_key ls_CreatedAt (tie sources)) amount)"

definition findMappingByShadowID :: "LineageMapping list \<Rightarrow> string \<Rightarrow> LineageMapping option" where
  "findMappingByShadowID mappings shadowBalanceID = find (\<lambda>m. lm_ShadowBalanceID m = shadowBalanceID) mappings"

subsection \<open>Identities and locks\<close>

text \<open>\<open>strings.ReplaceAll(s, " ", "_")\<close>.\<close>

definition underscores :: "string \<Rightarrow> string" where
  "underscores = map (\<lambda>c. if c = CHR '' '' then CHR ''_'' else c)"

definition getIdentityIdentifier :: "Identity \<Rightarrow> string" where
  "getIdentityIdentifier i =
     (if id_FirstName i \<noteq> [] \<and> id_LastName i \<noteq> []
      then to_lower (id_FirstName i @ ''_'' @ id_LastName i) @ ''_'' @ take 8 (id_IdentityID i)
      else if id_OrganizationName i \<noteq> []
      then to_lower (underscores (id_OrganizationName i)) @ ''_'' @ take 8 (id_IdentityID i)
      else id_IdentityID i)"

definition aggregate_indicator :: "Identity \<Rightarrow> string" where
  "aggregate_indicator i = ''@'' @ getIdentityIdentifier i @ ''_lineage''"

definition shadow_indicator :: "string \<Rightarrow> Identity \<Rightarrow> string" where
  "shadow_indicator provider i = ''@'' @ provider @ ''_'' @ getIdentityIdentifier i @ ''_lineage''"

definition acquireLineageLocks :: "('d, 'r) env \<Rightarrow> string list \<Rightarrow> 'r \<Rightarrow> 'r \<times> MultiLocker res" where
  "acquireLineageLocks E ids r =
     (let m = NewMultiLocker (map (\<lambda>i. ''lineage:'' @ i) ids) (e_uuid E ''loc'')
      in case MultiLock (e_R E) m (e_LockDuration E) r of
           (r', Inl e) \<Rightarrow> (r', Inl (Wrap ''failed to acquire lineage locks'' e)) | (r', Inr _) \<Rightarrow> (r', Inr m))"

text \<open>The pattern of both directions: the body runs under the locks, which are released after it.\<close>

definition with_lineage_locks ::
    "('d, 'r) env \<Rightarrow> string list \<Rightarrow> (('r, 'q, 'h) fund \<Rightarrow> (('r, 'q, 'h) fund \<times> unit res) option) \<Rightarrow> ('r, 'q, 'h) fund
       \<Rightarrow> (('r, 'q, 'h) fund \<times> unit res) option" where
  "with_lineage_locks E ids body f =
     (case acquireLineageLocks E ids (w_redis (si_world (fu_site f))) of
        (r, Inl e) \<Rightarrow> Some (put_fund_redis r f, Inl e)
      | (r, Inr m) \<Rightarrow>
          (case body (put_fund_redis r f) of None \<Rightarrow> None
           | Some (f', x) \<Rightarrow> Some (put_fund_redis (releaseLock E m (w_redis (si_world (fu_site f')))) f', x)))"

definition queue_for :: 
    "('d, 'r, 'q, 'h) hub \<Rightarrow> ('r, 'q, 'h) undo \<Rightarrow> Transaction \<Rightarrow> ('r, 'q, 'h) fund \<Rightarrow> (('r, 'q, 'h) fund \<times> unit res) option" where
  "queue_for U rb t f =
     (case QueueTransaction U rb t (fu_site f) of None \<Rightarrow> None
      | Some (x, Inl e) \<Rightarrow> Some (f\<lparr>fu_site := x\<rparr>, Inl e) | Some (x, Inr _) \<Rightarrow> Some (f\<lparr>fu_site := x\<rparr>, Inr ()))"

definition wrap_fund :: "string \<Rightarrow> (('r, 'q, 'h) fund \<times> unit res) option \<Rightarrow> (('r, 'q, 'h) fund \<times> unit res) option" where
  "wrap_fund msg z = (case z of Some (f, Inl e) \<Rightarrow> Some (f, Inl (Wrap msg e)) | _ \<Rightarrow> z)"

subsection \<open>Credits\<close>

definition getOrCreateLineageBalances ::
    "('d, 'r) env \<Rightarrow> string \<Rightarrow> string \<Rightarrow> string \<Rightarrow> ('r, 'q, 'h) fund \<Rightarrow> ('r, 'q, 'h) fund \<times> (Balance \<times> Balance) res" where
  "getOrCreateLineageBalances E identityID provider currency f =
     (case GetIdentityByID (e_F E) identityID f of
        Inl e \<Rightarrow> (f, Inl (Wrap (''failed to get identity '' @ identityID) e))
      | Inr i \<Rightarrow>
          (case getOrCreateBalanceByIndicator E (shadow_indicator provider i) currency (fu_store f) of
             (s1, Inl e) \<Rightarrow> (put_fund_store s1 f, Inl (Wrap ''failed to get/create shadow balance'' e))
           | (s1, Inr shadow) \<Rightarrow>
               (case getOrCreateBalanceByIndicator E (aggregate_indicator i) currency s1 of
                  (s2, Inl e) \<Rightarrow> (put_fund_store s2 f, Inl (Wrap ''failed to get/create aggregate balance'' e))
                | (s2, Inr aggregate) \<Rightarrow> (put_fund_store s2 f, Inr (shadow, aggregate)))))"

definition upsertCreditLineageMapping ::
    "('d, 'r) env \<Rightarrow> Balance \<Rightarrow> string \<Rightarrow> Balance \<Rightarrow> Balance \<Rightarrow> string \<Rightarrow> ('r, 'q, 'h) fund \<Rightarrow> ('r, 'q, 'h) fund \<times> unit res" where
  "upsertCreditLineageMapping E db provider shadow aggregate identityID f =
     (case UpsertLineageMapping (e_F E) (e_now E)
             \<lparr>lm_ID = 0, lm_BalanceID = b_BalanceID db, lm_Provider = provider, lm_ShadowBalanceID = b_BalanceID shadow,
              lm_AggregateBalanceID = b_BalanceID aggregate, lm_IdentityID = identityID, lm_CreatedAt = 0\<rparr> f of
        (f', Inl e) \<Rightarrow> (f', Inl (Wrap ''failed to upsert lineage mapping'' e)) | (f', Inr _) \<Rightarrow> (f', Inr ()))"

definition shadowReference :: "string \<Rightarrow> string \<Rightarrow> string" where
  "shadowReference parentRef provider = parentRef @ ''_shadow_'' @ provider"

definition shadow_credit :: "Transaction \<Rightarrow> Balance \<Rightarrow> string \<Rightarrow> Balance \<Rightarrow> Balance \<Rightarrow> string \<Rightarrow> Transaction" where
  "shadow_credit t db provider shadow aggregate identityID =
     zero_Transaction\<lparr>t_Source := b_BalanceID shadow, t_Destination := b_BalanceID aggregate, t_Amount := t_Amount t,
       t_PreciseAmount := Some (or0 (t_PreciseAmount t)), t_Currency := b_Currency db, t_Precision := t_Precision t,
       t_Reference := shadowReference (t_Reference t) provider, t_Description := ''Shadow credit from '' @ provider,
       t_MetaData := Some [''_shadow_for'' \<mapsto> JStr (t_TransactionID t), ''_provider'' \<mapsto> JStr provider,
         ''_identity_id'' \<mapsto> JStr identityID, ''_lineage_type'' \<mapsto> JStr ''credit'', ''_main_balance'' \<mapsto> JStr (b_BalanceID db)],
       t_AllowOverdraft := True, t_SkipQueue := True, t_Inflight := t_Inflight t\<rparr>"

definition queueShadowCreditTransaction ::
    "('d, 'r, 'q, 'h) hub \<Rightarrow> ('r, 'q, 'h) undo \<Rightarrow> Transaction \<Rightarrow> Balance \<Rightarrow> string \<Rightarrow> Balance \<Rightarrow> Balance \<Rightarrow> string
       \<Rightarrow> ('r, 'q, 'h) fund \<Rightarrow> (('r, 'q, 'h) fund \<times> unit res) option" where
  "queueShadowCreditTransaction U rb t db provider shadow aggregate identityID f =
     wrap_fund ''failed to queue shadow credit transaction'' (queue_for U rb (shadow_credit t db provider shadow aggregate identityID) f)"

text \<open>A failure to store the mapping is only logged.\<close>

definition processLineageCredit ::
    "('d, 'r, 'q, 'h) hub \<Rightarrow> ('r, 'q, 'h) undo \<Rightarrow> Transaction \<Rightarrow> Balance \<Rightarrow> string
       \<Rightarrow> ('r, 'q, 'h) fund \<Rightarrow> (('r, 'q, 'h) fund \<times> unit res) option" where
  "processLineageCredit U rb t db provider f =
     (let identityID = b_IdentityID db in
      if identityID = [] then
        Some (f, Inl (Errorf (''destination balance '' @ b_BalanceID db @ '' has no identity_id for lineage tracking'')))
      else case getOrCreateLineageBalances (hb_env U) identityID provider (t_Currency t) f of
             (f1, Inl e) \<Rightarrow> Some (f1, Inl e)
           | (f1, Inr (shadow, aggregate)) \<Rightarrow>
               with_lineage_locks (hb_env U) [b_BalanceID shadow, b_BalanceID aggregate] (\<lambda>f2.
                 case queueShadowCreditTransaction U rb t db provider shadow aggregate identityID f2 of None \<Rightarrow> None
                 | Some (f3, Inl e) \<Rightarrow> Some (f3, Inl e)
                 | Some (f3, Inr _) \<Rightarrow>
                     Some (fst (upsertCreditLineageMapping (hb_env U) db provider shadow aggregate identityID f3), Inr ())) f1)"


subsection \<open>Debits\<close>

definition releaseReference :: "string \<Rightarrow> string \<Rightarrow> string" where
  "releaseReference parentRef provider = parentRef @ ''_release_'' @ provider"

definition receiveReference :: "string \<Rightarrow> string \<Rightarrow> string" where
  "receiveReference parentRef provider = parentRef @ ''_receive_'' @ provider"

fun released_amount :: "faults \<Rightarrow> string \<Rightarrow> LineageMapping list \<Rightarrow> store \<Rightarrow> int res" where
  "released_amount F parentRef [] s = Inr 0"
| "released_amount F parentRef (m # ms) s =
     (let ref = releaseReference parentRef (lm_Provider m) in
      case TransactionExistsByRef F ref s of
        Inl e \<Rightarrow> Inl (Wrap ''failed to check release idempotency'' e)
      | Inr False \<Rightarrow> released_amount F parentRef ms s
      | Inr True \<Rightarrow>
          (case GetTransactionByRef F ref s of
             Inl e \<Rightarrow> Inl (Wrap (''failed to load prior release '' @ ref) e)
           | Inr prior \<Rightarrow>
               (case released_amount F parentRef ms s of
                  Inl e \<Rightarrow> Inl e | Inr a \<Rightarrow> Inr (or0 (t_PreciseAmount prior) + a))))"

definition remainingDebitAmount :: "('d, 'r, 'q) sys \<Rightarrow> Transaction \<Rightarrow> LineageMapping list \<Rightarrow> store \<Rightarrow> int res" where
  "remainingDebitAmount Y t mappings s =
     (case released_amount (y_F Y) (t_Reference t) mappings s of
        Inl e \<Rightarrow> Inl e | Inr released \<Rightarrow> Inr (or0 (t_PreciseAmount t) - released))"

definition getOrCreateDestinationLineageBalances ::
    "('d, 'r) env \<Rightarrow> string \<Rightarrow> Balance \<Rightarrow> ('r, 'q, 'h) fund \<Rightarrow> ('r, 'q, 'h) fund \<times> (Balance \<times> Balance) res" where
  "getOrCreateDestinationLineageBalances E provider db f =
     (case GetIdentityByID (e_F E) (b_IdentityID db) f of
        Inl e \<Rightarrow> (f, Inl (Wrap ''failed to get destination identity'' e))
      | Inr i \<Rightarrow>
          (case getOrCreateBalanceByIndicator E (shadow_indicator provider i) (b_Currency db) (fu_store f) of
             (s1, Inl e) \<Rightarrow> (put_fund_store s1 f, Inl (Wrap ''failed to create destination shadow balance'' e))
           | (s1, Inr shadow) \<Rightarrow>
               (case getOrCreateBalanceByIndicator E (aggregate_indicator i) (b_Currency db) s1 of
                  (s2, Inl e) \<Rightarrow> (put_fund_store s2 f, Inl (Wrap ''failed to create destination aggregate balance'' e))
                | (s2, Inr aggregate) \<Rightarrow> (put_fund_store s2 f, Inr (shadow, aggregate)))))"

text \<open>The Go map from providers to balances is a list; a provider occurs once.\<close>

fun prepareDestinationLineageBalances ::
    "('d, 'r) env \<Rightarrow> LineageMapping list \<Rightarrow> Balance \<Rightarrow> ('r, 'q, 'h) fund
       \<Rightarrow> ('r, 'q, 'h) fund \<times> (string \<times> destinationLineageInfo) list res" where
  "prepareDestinationLineageBalances E [] db f = (f, Inr [])"
| "prepareDestinationLineageBalances E (m # ms) db f =
     (case getOrCreateDestinationLineageBalances E (lm_Provider m) db f of
        (f1, Inl e) \<Rightarrow> (f1, Inl (Wrap (''failed to prepare destination lineage for provider '' @ lm_Provider m) e))
      | (f1, Inr (shadow, aggregate)) \<Rightarrow>
          (case prepareDestinationLineageBalances E ms db f1 of
             (f2, Inl e) \<Rightarrow> (f2, Inl e)
           | (f2, Inr rest) \<Rightarrow>
               (f2, Inr ((lm_Provider m, \<lparr>di_shadowBalance = shadow, di_aggregateBalance = aggregate\<rparr>) #
                  filter (\<lambda>(p, _). p \<noteq> lm_Provider m) rest))))"

definition getSourceAggregateBalance :: "('d, 'r) env \<Rightarrow> Balance \<Rightarrow> ('r, 'q, 'h) fund \<Rightarrow> ('r, 'q, 'h) fund \<times> Balance res" where
  "getSourceAggregateBalance E sb f =
     (case GetIdentityByID (e_F E) (b_IdentityID sb) f of
        Inl e \<Rightarrow> (f, Inl (Wrap ''failed to get source identity'' e))
      | Inr i \<Rightarrow>
          (case getOrCreateBalanceByIndicator E (aggregate_indicator i) (b_Currency sb) (fu_store f) of
             (s1, Inl e) \<Rightarrow> (put_fund_store s1 f, Inl (Wrap ''failed to get source aggregate balance'' e))
           | (s1, Inr b) \<Rightarrow> (put_fund_store s1 f, Inr b)))"

definition release_txn :: "Transaction \<Rightarrow> Allocation \<Rightarrow> LineageMapping \<Rightarrow> Balance \<Rightarrow> Balance \<Rightarrow> Transaction" where
  "release_txn t alloc m sb agg =
     zero_Transaction\<lparr>t_Source := b_BalanceID agg, t_Destination := al_BalanceID alloc, t_PreciseAmount := Some (al_Amount alloc),
       t_Currency := b_Currency sb, t_Precision := t_Precision t, t_Reference := releaseReference (t_Reference t) (lm_Provider m),
       t_Description := ''Release '' @ lm_Provider m @ '' funds'',
       t_MetaData := Some [''_shadow_for'' \<mapsto> JStr (t_TransactionID t), ''_provider'' \<mapsto> JStr (lm_Provider m),
         ''_lineage_type'' \<mapsto> JStr ''release'', ''_main_balance'' \<mapsto> JStr (b_BalanceID sb),
         ''_allocation'' \<mapsto> JStr (b_AllocationStrategy sb)],
       t_SkipQueue := True, t_Inflight := t_Inflight t\<rparr>"

definition queueReleaseTransaction ::
    "('d, 'r, 'q, 'h) hub \<Rightarrow> ('r, 'q, 'h) undo \<Rightarrow> Transaction \<Rightarrow> Allocation \<Rightarrow> LineageMapping \<Rightarrow> Balance \<Rightarrow> Balance
       \<Rightarrow> ('r, 'q, 'h) fund \<Rightarrow> (('r, 'q, 'h) fund \<times> unit res) option" where
  "queueReleaseTransaction U rb t alloc m sb agg f = queue_for U rb (release_txn t alloc m sb agg) f"

definition receive_txn ::
    "Transaction \<Rightarrow> Allocation \<Rightarrow> LineageMapping \<Rightarrow> Balance \<Rightarrow> Balance \<Rightarrow> destinationLineageInfo \<Rightarrow> Transaction" where
  "receive_txn t alloc m sb db info =
     zero_Transaction\<lparr>t_Source := b_BalanceID (di_shadowBalance info), t_Destination := b_BalanceID (di_aggregateBalance info),
       t_PreciseAmount := Some (al_Amount alloc), t_Currency := b_Currency db, t_Precision := t_Precision t,
       t_Reference := receiveReference (t_Reference t) (lm_Provider m), t_Description := ''Receive '' @ lm_Provider m @ '' funds'',
       t_MetaData := Some [''_shadow_for'' \<mapsto> JStr (t_TransactionID t), ''_provider'' \<mapsto> JStr (lm_Provider m),
         ''_lineage_type'' \<mapsto> JStr ''receive'', ''_main_balance'' \<mapsto> JStr (b_BalanceID db), ''_from_balance'' \<mapsto> JStr (b_BalanceID sb)],
       t_AllowOverdraft := True, t_SkipQueue := True, t_Inflight := t_Inflight t\<rparr>"

definition queueReceiveTransaction ::
    "('d, 'r, 'q, 'h) hub \<Rightarrow> ('r, 'q, 'h) undo \<Rightarrow> Transaction \<Rightarrow> Allocation \<Rightarrow> LineageMapping \<Rightarrow> Balance \<Rightarrow> Balance
       \<Rightarrow> destinationLineageInfo \<Rightarrow> ('r, 'q, 'h) fund \<Rightarrow> (('r, 'q, 'h) fund \<times> unit res) option" where
  "queueReceiveTransaction U rb t alloc m sb db info f = queue_for U rb (receive_txn t alloc m sb db info) f"

definition tracked_destination :: "Balance option \<Rightarrow> Balance option" where
  "tracked_destination dbo = (case dbo of None \<Rightarrow> None
     | Some db \<Rightarrow> if b_TrackFundLineage db \<and> b_IdentityID db \<noteq> [] then Some db else None)"

definition processDestinationLineage ::
    "('d, 'r, 'q, 'h) hub \<Rightarrow> ('r, 'q, 'h) undo \<Rightarrow> Transaction \<Rightarrow> Allocation \<Rightarrow> LineageMapping \<Rightarrow> Balance \<Rightarrow> Balance option
       \<Rightarrow> (string \<times> destinationLineageInfo) list option \<Rightarrow> ('r, 'q, 'h) fund \<Rightarrow> (('r, 'q, 'h) fund \<times> unit res) option" where
  "processDestinationLineage U rb t alloc m sb dbo dest f =
     (case (tracked_destination dbo, Option.bind dest (\<lambda>d. map_of d (lm_Provider m))) of
        (Some db, Some info) \<Rightarrow>
          (case queueReceiveTransaction U rb t alloc m sb db info f of None \<Rightarrow> None
           | Some (f1, Inl e) \<Rightarrow> Some (f1, Inl (Wrap ''failed to queue receive transaction'' e))
           | Some (f1, Inr _) \<Rightarrow>
               (case UpsertLineageMapping (y_F (hb_sys U)) (y_now (hb_sys U))
                       \<lparr>lm_ID = 0, lm_BalanceID = b_BalanceID db, lm_Provider = lm_Provider m,
                        lm_ShadowBalanceID = b_BalanceID (di_shadowBalance info),
                        lm_AggregateBalanceID = b_BalanceID (di_aggregateBalance info),
                        lm_IdentityID = b_IdentityID db, lm_CreatedAt = 0\<rparr> f1 of
                  (f2, Inl e) \<Rightarrow> Some (f2, Inl (Wrap ''failed to upsert destination lineage mapping'' e))
                | (f2, Inr _) \<Rightarrow> Some (f2, Inr ())))
      | _ \<Rightarrow> Some (f, Inr ()))"

text \<open>A provider whose release exists is skipped, so that a retry does not release twice.\<close>

fun processAllocations ::
    "('d, 'r, 'q, 'h) hub \<Rightarrow> ('r, 'q, 'h) undo \<Rightarrow> Transaction \<Rightarrow> Allocation list \<Rightarrow> LineageMapping list \<Rightarrow> Balance
       \<Rightarrow> Balance option \<Rightarrow> Balance \<Rightarrow> (string \<times> destinationLineageInfo) list option
       \<Rightarrow> ('r, 'q, 'h) fund \<Rightarrow> (('r, 'q, 'h) fund \<times> unit res) option" where
  "processAllocations U rb t [] ms sb dbo agg dest f = Some (f, Inr ())"
| "processAllocations U rb t (a # as) ms sb dbo agg dest f =
     (if al_Amount a = 0 then processAllocations U rb t as ms sb dbo agg dest f
      else case findMappingByShadowID ms (al_BalanceID a) of
        None \<Rightarrow> processAllocations U rb t as ms sb dbo agg dest f
      | Some m \<Rightarrow>
          (case TransactionExistsByRef (y_F (hb_sys U)) (releaseReference (t_Reference t) (lm_Provider m)) (fu_store f) of
             Inl e \<Rightarrow> Some (f, Inl (Wrap ''failed to check release idempotency'' e))
           | Inr True \<Rightarrow> processAllocations U rb t as ms sb dbo agg dest f
           | Inr False \<Rightarrow>
               (case queueReleaseTransaction U rb t a m sb agg f of None \<Rightarrow> None
                | Some (f1, Inl e) \<Rightarrow> Some (f1, Inl (Wrap ''failed to queue release transaction'' e))
                | Some (f1, Inr _) \<Rightarrow>
                    (case processDestinationLineage U rb t a m sb dbo dest f1 of None \<Rightarrow> None
                     | Some (f2, Inl e) \<Rightarrow> Some (f2, Inl (Wrap ''failed to process destination lineage'' e))
                     | Some (f2, Inr _) \<Rightarrow> processAllocations U rb t as ms sb dbo agg dest f2))))"


subsection \<open>Allocation in the metadata\<close>

text \<open>\<open>meta_data || new\<close> on the transaction and its children; a missing object counts as empty.\<close>

definition UpdateTransactionMetadata :: "faults \<Rightarrow> string \<Rightarrow> (string \<rightharpoonup> json) \<Rightarrow> store \<Rightarrow> store \<times> unit res" where
  "UpdateTransactionMetadata F tid new s =
     (if F ''UpdateTransactionMetadata'' then (s, Inl (Errorf ''update failed''))
      else (s\<lparr>st_transactions := map (\<lambda>t. if t_TransactionID t = tid \<or> t_ParentTransaction t = tid
              then t\<lparr>t_MetaData := Some ((case t_MetaData t of None \<Rightarrow> Map.empty | Some m \<Rightarrow> m) ++ new)\<rparr> else t)
              (st_transactions s)\<rparr>, Inr ()))"

definition buildFundAllocationList :: "Allocation list \<Rightarrow> LineageMapping list \<Rightarrow> json list" where
  "buildFundAllocationList allocs ms =
     List.map_filter (\<lambda>a. case findMappingByShadowID ms (al_BalanceID a) of None \<Rightarrow> None
       | Some m \<Rightarrow> Some (JObj [(''provider'', JStr (lm_Provider m)), (''amount'', JInt (al_Amount a))])) allocs"

definition updateFundAllocationMetadata ::
    "faults \<Rightarrow> Transaction \<Rightarrow> Allocation list \<Rightarrow> LineageMapping list \<Rightarrow> store \<Rightarrow> store" where
  "updateFundAllocationMetadata F t allocs ms s =
     (let fundAllocation = buildFundAllocationList allocs ms in
      if allocs = [] \<or> fundAllocation = [] then s
      else fst (UpdateTransactionMetadata F (t_TransactionID t) [LineageFundAllocation \<mapsto> JList fundAllocation] s))"

definition debit_locked ::
    "('d, 'r, 'q, 'h) hub \<Rightarrow> (LineageSource list \<Rightarrow> LineageSource list) \<Rightarrow> ('r, 'q, 'h) undo \<Rightarrow> Transaction \<Rightarrow> LineageMapping list
       \<Rightarrow> Balance \<Rightarrow> Balance option \<Rightarrow> (string \<times> destinationLineageInfo) list option
       \<Rightarrow> ('r, 'q, 'h) fund \<Rightarrow> (('r, 'q, 'h) fund \<times> unit res) option" where
  "debit_locked U tie rb t ms sb dbo dest f =
     (case getLineageSources (hb_sys U) ms (fu_store f) of
        Inl e \<Rightarrow> Some (f, Inl (Wrap ''failed to get lineage sources'' e))
      | Inr sources \<Rightarrow>
          (case remainingDebitAmount (hb_sys U) t ms (fu_store f) of
             Inl e \<Rightarrow> Some (f, Inl e)
           | Inr remaining \<Rightarrow>
               if remaining \<le> 0 then Some (f, Inr ())
               else let allocs = calculateAllocation tie sources remaining (b_AllocationStrategy sb) in
                 (case getSourceAggregateBalance (hb_env U) sb f of
                    (f1, Inl e) \<Rightarrow> Some (f1, Inl e)
                  | (f1, Inr agg) \<Rightarrow>
                      (case processAllocations U rb t allocs ms sb dbo agg dest f1 of None \<Rightarrow> None
                       | Some (f2, Inl e) \<Rightarrow> Some (f2, Inl e)
                       | Some (f2, Inr _) \<Rightarrow>
                           Some (put_fund_store (updateFundAllocationMetadata (y_F (hb_sys U)) t allocs ms (fu_store f2)) f2, Inr ())))))"

text \<open>The balances of the destination, prepared before the locks are taken; a failure is only logged.\<close>

definition prepare_destination ::
    "('d, 'r) env \<Rightarrow> LineageMapping list \<Rightarrow> Balance option \<Rightarrow> ('r, 'q, 'h) fund
       \<Rightarrow> ('r, 'q, 'h) fund \<times> (string \<times> destinationLineageInfo) list option" where
  "prepare_destination E ms dbo f = (case tracked_destination dbo of None \<Rightarrow> (f, None)
     | Some db \<Rightarrow> (case prepareDestinationLineageBalances E ms db f of (f1, Inl e) \<Rightarrow> (f1, None) | (f1, Inr d) \<Rightarrow> (f1, Some d)))"

definition lineage_lock_ids :: "LineageMapping list \<Rightarrow> (string \<times> destinationLineageInfo) list option \<Rightarrow> string list" where
  "lineage_lock_ids ms dest = map lm_ShadowBalanceID ms @ [lm_AggregateBalanceID (hd ms)] @
     (case dest of None \<Rightarrow> [] | Some d \<Rightarrow>
        concat (map (\<lambda>(_, i). [b_BalanceID (di_shadowBalance i), b_BalanceID (di_aggregateBalance i)]) d))"

definition processLineageDebit ::
    "('d, 'r, 'q, 'h) hub \<Rightarrow> (LineageSource list \<Rightarrow> LineageSource list) \<Rightarrow> ('r, 'q, 'h) undo \<Rightarrow> Transaction \<Rightarrow> Balance
       \<Rightarrow> Balance option \<Rightarrow> ('r, 'q, 'h) fund \<Rightarrow> (('r, 'q, 'h) fund \<times> unit res) option" where
  "processLineageDebit U tie rb t sb dbo f =
     (case GetLineageMappings (y_F (hb_sys U)) (b_BalanceID sb) f of
        Inl e \<Rightarrow> Some (f, Inl (Wrap ''failed to get lineage mappings'' e))
      | Inr ms \<Rightarrow>
          if ms = [] then
            (case HasPendingCreditOutbox (y_F (hb_sys U)) (b_BalanceID sb) (fu_store f) of
               Inl e \<Rightarrow> Some (f, Inr ())
             | Inr hasPending \<Rightarrow>
                 Some (f, if hasPending
                   then Inl (Errorf (''pending credit outbox entries exist for balance '' @ b_BalanceID sb @ '', retry later''))
                   else Inr ()))
          else (case prepare_destination (hb_env U) ms dbo f of (f1, dest) \<Rightarrow>
                  with_lineage_locks (hb_env U) (lineage_lock_ids ms dest) (debit_locked U tie rb t ms sb dbo dest) f1))"

subsection \<open>An entry of the outbox\<close>

definition validateLineageProvider :: "('d, 'r, 'q) sys \<Rightarrow> string \<Rightarrow> Balance option \<Rightarrow> ('r, 'q, 'h) fund \<Rightarrow> string res" where
  "validateLineageProvider Y provider sbo f =
     (if provider = [] then Inr []
      else case sbo of None \<Rightarrow> Inr provider
      | Some sb \<Rightarrow>
          if \<not> b_TrackFundLineage sb then Inr provider
          else case GetLineageMappingByProvider (y_F Y) (b_BalanceID sb) provider f of
                 Inl e \<Rightarrow> Inl (Wrap ''failed to validate provider on source'' e)
               | Inr None \<Rightarrow> Inr []
               | Inr (Some m) \<Rightarrow> Inr provider)"

definition processLineage ::
    "('d, 'r, 'q, 'h) hub \<Rightarrow> (LineageSource list \<Rightarrow> LineageSource list) \<Rightarrow> ('r, 'q, 'h) undo \<Rightarrow> Transaction
       \<Rightarrow> Balance option \<Rightarrow> Balance option \<Rightarrow> ('r, 'q, 'h) fund \<Rightarrow> (('r, 'q, 'h) fund \<times> unit res) option" where
  "processLineage U tie rb t sbo dbo f =
     (case validateLineageProvider (hb_sys U) (getLineageProvider t) sbo f of
        Inl e \<Rightarrow> Some (f, Inl (Wrap ''lineage provider validation failed'' e))
      | Inr provider \<Rightarrow>
          (case (case dbo of None \<Rightarrow> Some (f, Inr ())
                 | Some db \<Rightarrow> if provider \<noteq> [] \<and> b_TrackFundLineage db
                     then wrap_fund ''lineage credit processing failed'' (processLineageCredit U rb t db provider f)
                     else Some (f, Inr ())) of
             None \<Rightarrow> None
           | Some (f1, Inl e) \<Rightarrow> Some (f1, Inl e)
           | Some (f1, Inr _) \<Rightarrow>
               (case sbo of None \<Rightarrow> Some (f1, Inr ())
                | Some sb \<Rightarrow> if b_TrackFundLineage sb
                    then wrap_fund ''lineage debit processing failed'' (processLineageDebit U tie rb t sb dbo f1)
                    else Some (f1, Inr ()))))"

definition shadow_action ::
    "('d, 'r, 'q, 'h) hub \<Rightarrow> shadow_kind \<Rightarrow> 'q \<Rightarrow> Transaction \<Rightarrow> 'r world \<Rightarrow> ('r world \<times> Transaction res) option" where
  "shadow_action U kind q t = (case kind of
       ShadowCommit \<Rightarrow> CommitInflightTransaction (hb_sys U) q (hb_shadow U) (t_TransactionID t) (t_PreciseAmount t)
     | ShadowVoid \<Rightarrow> VoidInflightTransaction (hb_sys U) q (hb_shadow U) (t_TransactionID t))"

definition settle_shadows ::
    "('d, 'r, 'q, 'h) hub \<Rightarrow> shadow_kind \<Rightarrow> string \<Rightarrow> ('r, 'q, 'h) fund \<Rightarrow> (('r, 'q, 'h) fund \<times> unit res) option" where
  "settle_shadows U kind pid f =
     (case process_shadows (hb_sys U) kind (shadow_action U kind (si_queue (fu_site f))) pid (si_world (fu_site f)) of None \<Rightarrow> None
      | Some (w, Inl e) \<Rightarrow> Some (f\<lparr>fu_site := (fu_site f)\<lparr>si_world := w\<rparr>\<rparr>, Inl (Wrap (''failed to '' @ verb kind @ '' shadow transactions'') e))
      | Some (w, Inr _) \<Rightarrow> Some (f\<lparr>fu_site := (fu_site f)\<lparr>si_world := w\<rparr>\<rparr>, Inr ()))"

text \<open>A balance that cannot be read is treated as absent.\<close>

definition outbox_balance :: "faults \<Rightarrow> string \<Rightarrow> store \<Rightarrow> Balance option" where
  "outbox_balance F bid s = (if bid = [] then None else case GetBalanceByIDLite F bid s of Inl _ \<Rightarrow> None | Inr b \<Rightarrow> Some b)"

definition ProcessLineageFromOutbox ::
    "('d, 'r, 'q, 'h) hub \<Rightarrow> (LineageSource list \<Rightarrow> LineageSource list) \<Rightarrow> ('r, 'q, 'h) undo \<Rightarrow> LineageOutbox
       \<Rightarrow> ('r, 'q, 'h) fund \<Rightarrow> (('r, 'q, 'h) fund \<times> unit res) option" where
  "ProcessLineageFromOutbox U tie rb entry f =
     (if o_LineageType entry = ''shadow_commit'' \<or> o_LineageType entry = ''shadow_void'' then
        (if o_ParentTransactionID entry = [] then Some (f, Inl (Errorf ''parent_transaction_id missing in shadow work payload''))
         else settle_shadows U (if o_LineageType entry = ''shadow_commit'' then ShadowCommit else ShadowVoid) (o_ParentTransactionID entry) f)
      else case GetTransaction (y_F (hb_sys U)) (o_TransactionID entry) (fu_store f) of
             Inl e \<Rightarrow> Some (f, Inl (Wrap ''failed to get transaction'' e))
           | Inr t \<Rightarrow> processLineage U tie rb (t\<lparr>t_Inflight := o_Inflight entry\<rparr>)
               (outbox_balance (y_F (hb_sys U)) (o_SourceBalanceID entry) (fu_store f))
               (outbox_balance (y_F (hb_sys U)) (o_DestinationBalanceID entry) (fu_store f)) f)"

subsection \<open>The worker\<close>

record LineageOutboxProcessor =
  lp_batchSize :: nat
  lp_pollInterval :: int
  lp_lockDuration :: int
  lp_running :: bool

definition NewLineageOutboxProcessor :: LineageOutboxProcessor where
  "NewLineageOutboxProcessor = \<lparr>lp_batchSize = 100, lp_pollInterval = 1000000000, lp_lockDuration = 30000000000, lp_running = False\<rparr>"

definition WithBatchSize :: "nat \<Rightarrow> LineageOutboxProcessor \<Rightarrow> LineageOutboxProcessor" where
  "WithBatchSize n p = p\<lparr>lp_batchSize := n\<rparr>"

definition WithPollInterval :: "int \<Rightarrow> LineageOutboxProcessor \<Rightarrow> LineageOutboxProcessor" where
  "WithPollInterval interval p = p\<lparr>lp_pollInterval := interval\<rparr>"

definition WithLockDuration :: "int \<Rightarrow> LineageOutboxProcessor \<Rightarrow> LineageOutboxProcessor" where
  "WithLockDuration duration p = p\<lparr>lp_lockDuration := duration\<rparr>"

text \<open>Starting and stopping only set the flag; the loop they control calls \<open>processBatch\<close> at every tick.\<close>

definition LineageProcessor_Start :: "LineageOutboxProcessor \<Rightarrow> LineageOutboxProcessor" where
  "LineageProcessor_Start p = (if lp_running p then p else p\<lparr>lp_running := True\<rparr>)"

definition LineageProcessor_Stop :: "LineageOutboxProcessor \<Rightarrow> LineageOutboxProcessor" where
  "LineageProcessor_Stop p = (if lp_running p then p\<lparr>lp_running := False\<rparr> else p)"

fun process_entries ::
    "('d, 'r, 'q, 'h) hub \<Rightarrow> (LineageSource list \<Rightarrow> LineageSource list) \<Rightarrow> ('r, 'q, 'h) undo \<Rightarrow> LineageOutbox list
       \<Rightarrow> ('r, 'q, 'h) fund \<Rightarrow> ('r, 'q, 'h) fund option" where
  "process_entries U tie rb [] f = Some f"
| "process_entries U tie rb (o' # os) f =
     (case ProcessLineageFromOutbox U tie rb o' f of None \<Rightarrow> None
      | Some (f1, r) \<Rightarrow>
          process_entries U tie rb os (put_fund_store (fst (case r of
              Inl e \<Rightarrow> MarkOutboxFailed (y_F (hb_sys U)) (o_TransactionID o') (err_msg e) (fu_store f1)
            | Inr _ \<Rightarrow> MarkOutboxCompleted (y_F (hb_sys U)) (y_now (hb_sys U)) (o_TransactionID o') (fu_store f1))) f1))"

definition processBatch ::
    "('d, 'r, 'q, 'h) hub \<Rightarrow> (LineageSource list \<Rightarrow> LineageSource list) \<Rightarrow> ('r, 'q, 'h) undo \<Rightarrow> LineageOutboxProcessor
       \<Rightarrow> ('r, 'q, 'h) fund \<Rightarrow> ('r, 'q, 'h) fund option" where
  "processBatch U tie rb p f =
     (case ClaimPendingOutboxEntries (y_F (hb_sys U)) (y_now (hb_sys U)) (lp_batchSize p) (lp_lockDuration p) (fu_store f) of
        (s, Inl e) \<Rightarrow> Some (put_fund_store s f)
      | (s, Inr entries) \<Rightarrow> process_entries U tie rb entries (put_fund_store s f))"

subsection \<open>Queries\<close>

definition calculateProviderBreakdown :: "faults \<Rightarrow> LineageMapping \<Rightarrow> store \<Rightarrow> ProviderBreakdown res" where
  "calculateProviderBreakdown F m s =
     (case GetBalanceByIDLite F (lm_ShadowBalanceID m) s of Inl e \<Rightarrow> Inl e
      | Inr b \<Rightarrow> Inr \<lparr>pb_Provider = lm_Provider m, pb_Amount = or0 (b_DebitBalance b),
          pb_Available = or0 (b_DebitBalance b) - or0 (b_CreditBalance b), pb_Spent = or0 (b_CreditBalance b),
          pb_BalanceID = lm_ShadowBalanceID m\<rparr>)"

fun populateLineageProviders :: "faults \<Rightarrow> store \<Rightarrow> LineageMapping list \<Rightarrow> BalanceLineage \<Rightarrow> BalanceLineage" where
  "populateLineageProviders F s [] l = l"
| "populateLineageProviders F s (m # ms) l =
     (case calculateProviderBreakdown F m s of
        Inl e \<Rightarrow> populateLineageProviders F s ms l
      | Inr p \<Rightarrow> populateLineageProviders F s ms (l\<lparr>bl_Providers := bl_Providers l @ [p],
          bl_TotalWithLineage := bl_TotalWithLineage l + pb_Available p,
          bl_AggregateBalanceID := (if bl_AggregateBalanceID l = [] then lm_AggregateBalanceID m else bl_AggregateBalanceID l)\<rparr>))"

definition GetBalanceLineage :: "faults \<Rightarrow> string \<Rightarrow> ('r, 'q, 'h) fund \<Rightarrow> BalanceLineage res" where
  "GetBalanceLineage F bid f =
     (case GetBalanceByID F bid False (fu_store f) of
        Inl e \<Rightarrow> Inl (Wrap ''failed to get balance'' e)
      | Inr b \<Rightarrow>
          if \<not> b_TrackFundLineage b then Inl (Errorf (''balance '' @ bid @ '' does not have fund lineage tracking enabled''))
          else case GetLineageMappings F bid f of
                 Inl e \<Rightarrow> Inl (Wrap ''failed to get lineage mappings'' e)
               | Inr ms \<Rightarrow> Inr (populateLineageProviders F (fu_store f) ms
                   \<lparr>bl_BalanceID = bid, bl_TotalWithLineage = 0, bl_AggregateBalanceID = [], bl_Providers = []\<rparr>))"

definition extractFundAllocation :: "metadata \<Rightarrow> (string \<times> json) list list option" where
  "extractFundAllocation md = (case meta_get md LineageFundAllocation of
       Some (JList xs) \<Rightarrow> Some (List.map_filter (\<lambda>x. case x of JObj kvs \<Rightarrow> Some kvs | _ \<Rightarrow> None) xs)
     | _ \<Rightarrow> None)"

definition GetTransactionLineage :: "faults \<Rightarrow> string \<Rightarrow> store \<Rightarrow> TransactionLineage res" where
  "GetTransactionLineage F tid s =
     (case GetTransaction F tid s of
        Inl e \<Rightarrow> Inl (Wrap ''failed to get transaction'' e)
      | Inr t \<Rightarrow> Inr \<lparr>tl_TransactionID = tid, tl_FundAllocation = extractFundAllocation (t_MetaData t),
          tl_ShadowTransactions = (case GetTransactionsByShadowFor F tid s of Inl _ \<Rightarrow> [] | Inr ts \<Rightarrow> ts)\<rparr>)"


section \<open>Facts\<close>

subsection \<open>Allocation\<close>

definition allocated :: "Allocation list \<Rightarrow> string \<Rightarrow> int" where
  "allocated as i = sum_list (map al_Amount (filter (\<lambda>a. al_BalanceID a = i) as))"

lemma allocated_simps [simp]: "allocated [] i = 0"
  "allocated (a # as) i = (if al_BalanceID a = i then al_Amount a else 0) + allocated as i"
  by (simp_all add: allocated_def)

abbreviation funds :: "LineageSource list \<Rightarrow> int" where "funds ss \<equiv> sum_list (map ls_Balance ss)"

abbreviation given :: "Allocation list \<Rightarrow> int" where "given as \<equiv> sum_list (map al_Amount as)"

lemma funds_nonneg: "\<forall>s \<in> set ss. 0 < ls_Balance s \<Longrightarrow> 0 \<le> funds ss"
  by (induction ss) auto

lemma seq_alloc_given: "\<forall>s \<in> set ss. 0 < ls_Balance s \<Longrightarrow> 0 \<le> r \<Longrightarrow> given (seq_alloc ss r) = min r (funds ss)"
proof (induction ss arbitrary: r)
  case (Cons s ss)
  then show ?case using funds_nonneg [of ss] by (auto simp: Let_def min_def)
qed simp

lemma seq_alloc_member: "a \<in> set (seq_alloc ss r) \<Longrightarrow> al_BalanceID a \<in> ls_BalanceID ` set ss \<and> 0 < al_Amount a"
  by (induction ss r rule: seq_alloc.induct) (auto simp: Let_def split: if_splits)

lemma seq_alloc_ids: "al_BalanceID ` set (seq_alloc ss r) \<subseteq> ls_BalanceID ` set ss"
  using seq_alloc_member by fastforce

lemma allocated_none: "i \<notin> al_BalanceID ` set as \<Longrightarrow> allocated as i = 0"
  by (induction as) auto

lemma seq_alloc_share:
  assumes "\<forall>s \<in> set ss. 0 < ls_Balance s" "distinct (map ls_BalanceID ss)" "s \<in> set ss"
  shows "0 \<le> allocated (seq_alloc ss r) (ls_BalanceID s) \<and> allocated (seq_alloc ss r) (ls_BalanceID s) \<le> ls_Balance s"
  using assms
proof (induction ss arbitrary: r)
  case (Cons x ss)
  have n: "allocated (seq_alloc ss r') (ls_BalanceID x) = 0" for r'
    using Cons.prems(2) seq_alloc_ids [of ss r'] by (intro allocated_none) auto
  show ?case
  proof (cases "s = x")
    case True
    with Cons.prems(1) n show ?thesis by (auto simp: Let_def)
  next
    case False
    with Cons.prems(2,3) have "ls_BalanceID x \<noteq> ls_BalanceID s" by auto
    with False Cons.prems Cons.IH show ?thesis by (auto simp: Let_def)
  qed
qed simp

text \<open>Nothing is taken from a source before those in front of it are empty.\<close>

lemma seq_alloc_order:
  assumes "\<forall>s \<in> set (xs @ ys). 0 < ls_Balance s" "distinct (map ls_BalanceID (xs @ ys))" "s \<in> set xs" "s' \<in> set ys"
    and "0 < allocated (seq_alloc (xs @ ys) r) (ls_BalanceID s')"
  shows "allocated (seq_alloc (xs @ ys) r) (ls_BalanceID s) = ls_Balance s"
  using assms
proof (induction xs arbitrary: r)
  case (Cons x xs)
  have n: "allocated (seq_alloc (xs @ ys) r') (ls_BalanceID x) = 0" for r'
    using Cons.prems(2) seq_alloc_ids [of "xs @ ys" r'] by (intro allocated_none) auto
  have x: "ls_BalanceID x \<noteq> ls_BalanceID s'" "0 < ls_Balance x" using Cons.prems(1,2,4) by auto
  have r: "0 < r" using Cons.prems(5) by (rule_tac ccontr) simp
  show ?case
  proof (cases "r \<le> ls_Balance x")
    case True
    then have "allocated (seq_alloc ((x # xs) @ ys) r) (ls_BalanceID s') = allocated (seq_alloc (xs @ ys) 0) (ls_BalanceID s')"
      using r x by simp
    moreover have "seq_alloc zs 0 = []" for zs by (cases zs) simp_all
    ultimately show ?thesis using Cons.prems(5) by simp
  next
    case False
    then have e: "seq_alloc ((x # xs) @ ys) r = \<lparr>al_BalanceID = ls_BalanceID x, al_Amount = ls_Balance x\<rparr> # seq_alloc (xs @ ys) (r - ls_Balance x)"
      using r x by (simp add: Let_def)
    show ?thesis
    proof (cases "s = x")
      case True
      then show ?thesis using n by (simp only: e allocated_simps) simp
    next
      case False
      with Cons.prems have "ls_BalanceID x \<noteq> ls_BalanceID s" "s \<in> set xs" by auto
      with Cons.IH [of "r - ls_Balance x"] Cons.prems x(1) e show ?thesis by simp
    qed
  qed
qed simp

lemma seq_alloc_sorted:
  assumes "\<forall>s \<in> set ss. 0 < ls_Balance s" "distinct (map ls_BalanceID ss)" "sorted (map k ss)" "s \<in> set ss" "s' \<in> set ss"
    and "(k s :: int) < k s'" "0 < allocated (seq_alloc ss r) (ls_BalanceID s')"
  shows "allocated (seq_alloc ss r) (ls_BalanceID s) = ls_Balance s"
proof -
  obtain xs ys where ss: "ss = xs @ s' # ys" using assms(5) by (auto dest: split_list)
  have "s \<in> set xs"
    using assms(3,4,6) by (auto simp: ss sorted_append)
  then show ?thesis using seq_alloc_order [of xs "s' # ys" s s' r] assms(1,2,7) by (simp add: ss)
qed


text \<open>A proportional share never exceeds its source, and all of them fall short by less than one unit each.\<close>

lemma prop_alloc_member:
  "a \<in> set (prop_alloc e t ss r) \<Longrightarrow> al_BalanceID a \<in> ls_BalanceID ` set ss \<and> 0 < al_Amount a"
  by (induction e t ss r rule: prop_alloc.induct) (auto simp: Let_def split: if_splits)

lemma prop_alloc_share:
  assumes "\<forall>s \<in> set ss. 0 < ls_Balance s" "distinct (map ls_BalanceID ss)" "s \<in> set ss"
  shows "0 \<le> allocated (prop_alloc e t ss r) (ls_BalanceID s) \<and> allocated (prop_alloc e t ss r) (ls_BalanceID s) \<le> ls_Balance s"
  using assms
proof (induction ss arbitrary: r)
  case (Cons x ss)
  have n: "allocated (prop_alloc e t ss r') (ls_BalanceID x) = 0" for r'
    using Cons.prems(2) prop_alloc_member [of _ e t ss r'] by (intro allocated_none) fastforce
  show ?case
  proof (cases "s = x")
    case True
    with Cons.prems(1) n show ?thesis by (auto simp: Let_def)
  next
    case False
    with Cons.prems(2,3) have "ls_BalanceID x \<noteq> ls_BalanceID s" by auto
    with False Cons.prems Cons.IH show ?thesis by (auto simp: Let_def)
  qed
qed simp

lemma div_share:
  assumes "0 \<le> e" "e \<le> t" "0 < b" "0 < (t :: int)"
  shows "0 \<le> e * b div t" "e * b div t \<le> b" "e * b div t * t \<le> e * b" "e * b - (t - 1) \<le> e * b div t * t"
proof -
  have m: "e * b div t * t = e * b - e * b mod t" by (simp add: minus_mod_eq_div_mult)
  have "0 \<le> e * b mod t" "e * b mod t < t" using assms(4) by simp_all
  with m show "e * b div t * t \<le> e * b" "e * b - (t - 1) \<le> e * b div t * t" by simp_all
  show "0 \<le> e * b div t" using assms by (simp add: pos_imp_zdiv_nonneg_iff)
  have "e * b \<le> t * b" using assms by (simp add: mult_right_mono)
  then have "e * b div t \<le> t * b div t" using assms(4) by (rule zdiv_mono1)
  then show "e * b div t \<le> b" using assms(4) by simp
qed

lemma prop_alloc_given:
  assumes "\<forall>s \<in> set ss. 0 < ls_Balance s" "0 \<le> e" "e \<le> t" "0 < t" "ss \<noteq> []"
    and "e * funds ss \<le> r * t" "r * t \<le> e * funds ss + k * (t - 1)" "0 \<le> k"
  shows "given (prop_alloc e t ss r) \<le> r \<and> (r - given (prop_alloc e t ss r)) * t \<le> (k + int (length ss) - 1) * (t - 1)"
  using assms
proof (induction ss arbitrary: r k)
  case (Cons s ss)
  let ?b = "ls_Balance s"
  have b: "0 < ?b" using Cons.prems(1) by simp
  note sh = div_share [OF Cons.prems(2,3) b Cons.prems(4)]
  have r: "0 \<le> r"
  proof -
    have "0 \<le> e * funds (s # ss)" using Cons.prems(1,2) funds_nonneg [of "s # ss"] by simp
    with Cons.prems(6) have "0 \<le> r * t" by linarith
    then show ?thesis using Cons.prems(4) by (simp add: zero_le_mult_iff)
  qed
  show ?case
  proof (cases "ss = []")
    case True
    then have g: "given (prop_alloc e t (s # ss) r) = min r ?b" using r b by (auto simp: Let_def min_def)
    have "(r - min r ?b) * t \<le> k * (t - 1)"
    proof (cases "r \<le> ?b")
      case True
      then show ?thesis using Cons.prems(4,8) by simp
    next
      case False
      have "e * ?b \<le> t * ?b" using Cons.prems(3) b by (simp add: mult_right_mono)
      then show ?thesis using Cons.prems(7) False True by (simp add: algebra_simps min_def)
    qed
    then show ?thesis unfolding g using True by simp
  next
    case False
    let ?q = "e * ?b div t"
    have rec: "prop_alloc e t (s # ss) r = (if ?q \<le> 0 then prop_alloc e t ss r
        else \<lparr>al_BalanceID = ls_BalanceID s, al_Amount = ?q\<rparr> # prop_alloc e t ss (r - ?q))"
      using False sh(2) Cons.prems(4) by (simp add: Let_def euclid_div_def)
    have q0: "?q \<le> 0 \<Longrightarrow> ?q = 0" using sh(1) by simp
    have g: "given (prop_alloc e t (s # ss) r) = ?q + given (prop_alloc e t ss (r - ?q))"
      unfolding rec using q0 by auto
    have "e * funds ss \<le> (r - ?q) * t" using Cons.prems(6) sh(3) by (simp add: algebra_simps)
    moreover have "(r - ?q) * t \<le> e * funds ss + (k + 1) * (t - 1)" using Cons.prems(7) sh(4) by (simp add: algebra_simps)
    ultimately have "given (prop_alloc e t ss (r - ?q)) \<le> r - ?q \<and>
        (r - ?q - given (prop_alloc e t ss (r - ?q))) * t \<le> (k + 1 + int (length ss) - 1) * (t - 1)"
      using Cons.prems False by (intro Cons.IH) simp_all
    then show ?thesis unfolding g by (simp add: algebra_simps)
  qed
qed simp

lemma proportional_given:
  assumes "\<forall>s \<in> set ss. 0 < ls_Balance s" "ss \<noteq> []" "0 < amount"
  shows "given (proportionalAllocation ss amount) \<le> min amount (funds ss) \<and>
    min amount (funds ss) < given (proportionalAllocation ss amount) + int (length ss)"
proof -
  obtain x xs where ss: "ss = x # xs" using assms(2) by (cases ss) auto
  have t: "0 < funds ss" using assms(1) funds_nonneg [of xs] by (simp add: ss)
  let ?e = "min amount (funds ss)"
  have e: "0 \<le> ?e" "?e \<le> funds ss" using assms(3) t by simp_all
  have p: "proportionalAllocation ss amount = prop_alloc ?e (funds ss) ss ?e"
    using t assms(3) by (simp add: proportionalAllocation_def Let_def min_def)
  from prop_alloc_given [OF assms(1) e t assms(2), of ?e 0]
  have g: "given (prop_alloc ?e (funds ss) ss ?e) \<le> ?e"
    "(?e - given (prop_alloc ?e (funds ss) ss ?e)) * funds ss \<le> (int (length ss) - 1) * (funds ss - 1)" by simp_all
  have "(int (length ss) - 1) * (funds ss - 1) < int (length ss) * funds ss"
    using t by (simp add: ss algebra_simps)
  with g(2) have "(?e - given (prop_alloc ?e (funds ss) ss ?e)) * funds ss < int (length ss) * funds ss" by linarith
  then have "?e - given (prop_alloc ?e (funds ss) ss ?e) < int (length ss)" using t by simp
  with g(1) show ?thesis by (simp add: p)
qed

text \<open>The shortfall is real: of three sources with one unit each, two units cannot be taken.\<close>

lemma proportional_shortfall:
  "given (proportionalAllocation (map (\<lambda>i. \<lparr>ls_BalanceID = i, ls_Balance = 1, ls_CreatedAt = 0\<rparr>) [''a'', ''b'', ''c'']) 2) = 1"
  by code_simp


text \<open>Every strategy at once: \<open>k\<close> is the order of the sequential ones.\<close>

definition strategy_order :: "string \<Rightarrow> LineageSource \<Rightarrow> int" where
  "strategy_order strategy s = (if strategy = AllocationLIFO then - ls_CreatedAt s else ls_CreatedAt s)"

lemma calculateAllocation_sequential:
  assumes "ss \<noteq> []" "strategy \<noteq> AllocationProp" "0 < amount"
  shows "calculateAllocation tie ss amount strategy = seq_alloc (sort_key (strategy_order strategy) (tie ss)) amount"
proof -
  have "strategy_order strategy = (if strategy = AllocationLIFO then \<lambda>s. - ls_CreatedAt s else ls_CreatedAt)"
    by (auto simp: strategy_order_def)
  then show ?thesis using assms by (simp add: calculateAllocation_def sequentialAllocation_def)
qed

lemma tie_facts:
  assumes "mset ts = mset ss"
  shows "set ts = set ss" "funds ts = funds ss" "distinct (map ls_BalanceID ts) \<longleftrightarrow> distinct (map ls_BalanceID ss)"
  using assms mset_eq_setD [OF assms] mset_eq_imp_distinct_iff [of "map ls_BalanceID ts" "map ls_BalanceID ss"]
  by (simp_all flip: sum_mset_sum_list)

lemma calculateAllocation_member:
  assumes "mset (tie ss) = mset ss" "a \<in> set (calculateAllocation tie ss amount strategy)"
  shows "al_BalanceID a \<in> ls_BalanceID ` set ss \<and> 0 < al_Amount a"
  using assms(2) tie_facts(1) [OF assms(1)] seq_alloc_member [of a _ amount] prop_alloc_member [of a]
  by (fastforce simp: calculateAllocation_def sequentialAllocation_def proportionalAllocation_def Let_def split: if_splits)

lemma calculateAllocation_given:
  assumes "mset (tie ss) = mset ss" "\<forall>s \<in> set ss. 0 < ls_Balance s" "0 < amount"
  shows "given (calculateAllocation tie ss amount strategy) \<le> min amount (funds ss)"
    and "strategy \<noteq> AllocationProp \<Longrightarrow> given (calculateAllocation tie ss amount strategy) = min amount (funds ss)"
proof -
  show eq: "given (calculateAllocation tie ss amount strategy) = min amount (funds ss)" if "strategy \<noteq> AllocationProp"
  proof (cases "ss = []")
    case False
    have "funds (sort_key k (tie ss)) = funds ss" for k :: "LineageSource \<Rightarrow> int"
      using assms(1) by (simp add: sum_mset_sum_list [symmetric])
    then show ?thesis
      using calculateAllocation_sequential [OF False that assms(3)] seq_alloc_given [of "sort_key (strategy_order strategy) (tie ss)" amount]
        assms(2,3) tie_facts(1) [OF assms(1)] by simp
  qed (use assms(3) in \<open>simp add: calculateAllocation_def\<close>)
  show "given (calculateAllocation tie ss amount strategy) \<le> min amount (funds ss)"
  proof (cases "strategy = AllocationProp \<and> ss \<noteq> []")
    case True
    then show ?thesis using proportional_given [OF assms(2) _ assms(3)] by (simp add: calculateAllocation_def)
  next
    case False
    then show ?thesis using eq assms(3) by (cases "ss = []") (auto simp: calculateAllocation_def)
  qed
qed

lemma calculateAllocation_share:
  assumes "mset (tie ss) = mset ss" "\<forall>s \<in> set ss. 0 < ls_Balance s" "distinct (map ls_BalanceID ss)" "0 < amount" "s \<in> set ss"
  shows "0 \<le> allocated (calculateAllocation tie ss amount strategy) (ls_BalanceID s) \<and>
    allocated (calculateAllocation tie ss amount strategy) (ls_BalanceID s) \<le> ls_Balance s"
proof (cases "strategy = AllocationProp")
  case True
  then show ?thesis using prop_alloc_share [OF assms(2,3,5)] assms(2,5)
    by (auto simp: calculateAllocation_def proportionalAllocation_def Let_def less_imp_le)
next
  case False
  note t = tie_facts [OF assms(1)]
  have "ss \<noteq> []" using assms(5) by auto
  moreover have "distinct (map ls_BalanceID (sort_key k (tie ss)))" for k :: "LineageSource \<Rightarrow> int"
    using t(3) assms(3) by (simp add: distinct_map)
  ultimately show ?thesis
    using seq_alloc_share [of "sort_key (strategy_order strategy) (tie ss)" s amount] assms(2,5) t(1)
    by (simp add: calculateAllocation_sequential [OF _ False assms(4)])
qed

lemma calculateAllocation_order:
  assumes "mset (tie ss) = mset ss" "\<forall>s \<in> set ss. 0 < ls_Balance s" "distinct (map ls_BalanceID ss)" "0 < amount"
    and "strategy \<noteq> AllocationProp" "s \<in> set ss" "s' \<in> set ss" "strategy_order strategy s < strategy_order strategy s'"
    and "0 < allocated (calculateAllocation tie ss amount strategy) (ls_BalanceID s')"
  shows "allocated (calculateAllocation tie ss amount strategy) (ls_BalanceID s) = ls_Balance s"
proof -
  note t = tie_facts [OF assms(1)]
  have ne: "ss \<noteq> []" using assms(6) by auto
  have d: "distinct (map ls_BalanceID (sort_key k (tie ss)))" for k :: "LineageSource \<Rightarrow> int"
    using t(3) assms(3) by (simp add: distinct_map)
  note e = calculateAllocation_sequential [OF ne assms(5,4), of tie]
  show ?thesis unfolding e
    by (rule seq_alloc_sorted [OF _ d _ _ _ assms(8)]) (use assms t(1) e in simp_all)
qed


subsection \<open>What an attempt leaves in the tables\<close>

definition hub_ok :: "('d, 'r, 'q, 'h) hub \<Rightarrow> ('d \<Rightarrow> rat) \<Rightarrow> bool" where
  "hub_ok U val \<longleftrightarrow> decimal_pkg (e_D (hb_env U)) val \<and> uuids_ok (hb_env U) \<and> hb_ordd U [] = [] \<and> hb_ordi U [] = []"

text \<open>Of a row, what a retry looks at: its id, its reference and its amount.\<close>

type_synonym entry = "string \<times> string \<times> int option"

definition entry :: "Transaction \<Rightarrow> entry" where
  "entry u = (t_TransactionID u, t_Reference u, t_PreciseAmount u)"

abbreviation entries :: "('r, 'q, 'h) fund \<Rightarrow> entry list" where
  "entries f \<equiv> map entry (st_transactions (fu_store f))"

definition mapping_key :: "LineageMapping \<Rightarrow> string \<times> string" where
  "mapping_key m = (lm_BalanceID m, lm_Provider m)"

definition mappings_ok :: "('r, 'q, 'h) fund \<Rightarrow> bool" where
  "mappings_ok f \<longleftrightarrow> distinct (map mapping_key (fu_mappings f))"

text \<open>The tables stay sound, no mapping is lost, and the rows gained are \<open>news\<close>.\<close>

definition follows :: "('r, 'q, 'h) fund \<Rightarrow> ('r, 'q, 'h) fund \<Rightarrow> entry list \<Rightarrow> bool" where
  "follows f f' news \<longleftrightarrow> store_ok (fu_store f') \<and> (mappings_ok f \<longrightarrow> mappings_ok f') \<and>
     mapping_key ` set (fu_mappings f) \<subseteq> mapping_key ` set (fu_mappings f') \<and> entries f' = entries f @ news"

lemma follows_refl: "store_ok (fu_store f) \<Longrightarrow> follows f f []"
  by (simp add: follows_def)

lemma follows_trans: "follows f f' n \<Longrightarrow> follows f' f'' n' \<Longrightarrow> follows f f'' (n @ n')"
  by (auto simp: follows_def)

lemma follows_ok: "follows f f' n \<Longrightarrow> store_ok (fu_store f')"
  by (simp add: follows_def)

lemma fund_simps [simp]: "fu_store (put_fund_store s f) = s" "fu_store (put_fund_redis r f) = fu_store f"
  "fu_mappings (put_fund_store s f) = fu_mappings f" "fu_mappings (put_fund_redis r f) = fu_mappings f"
  by (simp_all add: put_fund_store_def put_fund_redis_def)

lemma follows_redis [simp]: "follows f (put_fund_redis r f') n \<longleftrightarrow> follows f f' n" "follows (put_fund_redis r f) f' n \<longleftrightarrow> follows f f' n"
  by (simp_all add: follows_def mappings_ok_def)

lemma follows_upsert:
  assumes "store_ok (fu_store f)" "UpsertLineageMapping F now m f = (f', r)"
  shows "follows f f' []"
proof -
  have st: "fu_store f' = fu_store f" using assms(2) by (auto simp: UpsertLineageMapping_def Let_def split: if_splits)
  have k: "mapping_key (if same_mapping m x then x\<lparr>lm_ShadowBalanceID := a, lm_AggregateBalanceID := b\<rparr> else x) = mapping_key x" for x a b
    by (simp add: mapping_key_def)
  consider "f' = f" | "map mapping_key (fu_mappings f') = map mapping_key (fu_mappings f)"
    | "map mapping_key (fu_mappings f') = map mapping_key (fu_mappings f) @ [mapping_key m]" "\<not> list_ex (same_mapping m) (fu_mappings f)"
    using assms(2) by (auto simp: UpsertLineageMapping_def Let_def k mapping_key_def split: if_splits)
  then show ?thesis
  proof cases
    case 1
    then show ?thesis using follows_refl assms(1) by simp
  next
    case 2
    then have "mapping_key ` set (fu_mappings f') = mapping_key ` set (fu_mappings f)" by (metis list.set_map)
    with 2 st assms(1) show ?thesis by (simp add: follows_def mappings_ok_def)
  next
    case 3
    then have "mapping_key ` set (fu_mappings f') = insert (mapping_key m) (mapping_key ` set (fu_mappings f))"
      by (metis list.set_map list.simps(15) set_append empty_set Un_insert_right sup_bot_right)
    moreover have "mapping_key m \<notin> mapping_key ` set (fu_mappings f)"
      using 3(2) by (auto simp: list_ex_iff same_mapping_def mapping_key_def)
    ultimately show ?thesis using 3 st assms(1) by (auto simp: follows_def mappings_ok_def)
  qed
qed

text \<open>A single transaction that is recorded at once.\<close>

definition direct :: "Transaction \<Rightarrow> int \<Rightarrow> bool" where
  "direct t a \<longleftrightarrow> t_Sources t = [] \<and> t_Destinations t = [] \<and> t_SkipQueue t \<and> t_PreciseAmount t = Some a \<and> 0 < a \<and>
     t_InflightExpiryDate t = 0 \<and> t_InflightCommitDate t = 0"

lemma RecordTransaction_adds:
  assumes "store_ok (w_store w)" "uuids_ok E" "RecordTransaction E t w = Some (w', x)" "t_PreciseAmount t = Some a" "0 < a"
  shows "store_ok (w_store w')"
    and "(\<exists>e. x = Inl e) \<and> st_transactions (w_store w') = st_transactions (w_store w) \<or>
      (\<exists>t3 am. x = Inr t3 \<and> st_transactions (w_store w') = st_transactions (w_store w) @ [row_of t3 am] \<and>
        t_PreciseAmount t3 = Some a \<and> t_Reference t3 = t_Reference t)"
proof -
  note c = RecordTransaction_cases [OF assms(1-3)]
  have ex: "executed E (t\<lparr>t_Source := sid, t_Destination := did\<rparr>) s1 (w_store w') t3 \<Longrightarrow> grows (w_store w) s1 \<Longrightarrow>
      store_ok (w_store w') \<and> (\<exists>am. st_transactions (w_store w') = st_transactions (w_store w) @ [row_of t3 am]) \<and>
      t_PreciseAmount t3 = Some a \<and> t_Reference t3 = t_Reference t" for sid did s1 t3
    using executed_row [of E "t\<lparr>t_Source := sid, t_Destination := did\<rparr>" s1 "w_store w'" t3 a] assms(4,5)
      executed_safe [of s1 E] by (auto simp: grows_def)
  from c ex show "store_ok (w_store w')" by (auto simp: grows_def)
  from c show "(\<exists>e. x = Inl e) \<and> st_transactions (w_store w') = st_transactions (w_store w) \<or>
      (\<exists>t3 am. x = Inr t3 \<and> st_transactions (w_store w') = st_transactions (w_store w) @ [row_of t3 am] \<and>
        t_PreciseAmount t3 = Some a \<and> t_Reference t3 = t_Reference t)"
    using ex by (auto simp: grows_def)
qed

lemma QueueTransaction_direct:
  assumes U: "hub_ok U val" and ok: "store_ok (si_store x)" and d: "direct t a" and Q: "QueueTransaction U rb t x = Some (x', r)"
  shows "store_ok (si_store x')"
    and "(\<exists>e. r = Inl e) \<and> st_transactions (si_store x') = st_transactions (si_store x) \<or>
      (\<exists>t' row. r = Inr t' \<and> st_transactions (si_store x') = st_transactions (si_store x) @ [row] \<and>
        t_Reference row = t_Reference t \<and> t_PreciseAmount row = Some a)"
proof -
  let ?t = "setTransactionStatus (setTransactionMetadata (hb_sys U) (si_store x) t)"
  have u: "decimal_pkg (e_D (hb_env U)) val" "uuids_ok (hb_env U)" "hb_ordd U [] = []" "hb_ordi U [] = []"
    using U by (simp_all add: hub_ok_def)
  have a: "t_PreciseAmount ?t = Some a" "0 < a" "t_Sources ?t = []" "t_Destinations ?t = []" "t_SkipQueue ?t"
    using d by (simp_all add: direct_def setTransactionMetadata_amount)
  have sp: "handleSplitTransactions U (si_store x) ?t = Inr (?t, [])"
    using split_none [where ordd = "hb_ordd U" and ordi = "hb_ordi U", OF u(1) a(3,4,1,2) u(3,4)]
    by (simp add: handleSplitTransactions_def)
  obtain w z where R: "RecordTransaction (hb_env U) ?t (si_world x) = Some (w, z)"
    using Q sp a(5) by (cases "RecordTransaction (hb_env U) ?t (si_world x)")
      (auto simp: QueueTransaction_def Let_def processTxns_def record_at_def)
  note ad = RecordTransaction_adds [OF ok u(2) R a(1,2)]
  have fr: "z = Inr t3 \<Longrightarrow> t_InflightExpiryDate t3 = 0 \<and> t_InflightCommitDate t3 = 0" for t3
    using RecordTransaction_frame(2,3) [OF ok u(2), of ?t w t3] R d by (simp add: direct_def)
  have x': "si_world x' = w \<and> ((\<exists>e. r = Inl e) \<longleftrightarrow> (\<exists>e. z = Inl e))"
    using Q sp a(5) R fr
    by (cases z) (auto simp: QueueTransaction_def Let_def processTxns_def record_at_def queue_dates_def QueueInflightExpiry_def
        QueueInflightCommit_def)
  with ad(1) show "store_ok (si_store x')" by simp
  show "(\<exists>e. r = Inl e) \<and> st_transactions (si_store x') = st_transactions (si_store x) \<or>
      (\<exists>t' row. r = Inr t' \<and> st_transactions (si_store x') = st_transactions (si_store x) @ [row] \<and>
        t_Reference row = t_Reference t \<and> t_PreciseAmount row = Some a)"
    using ad(2)
  proof (elim disjE conjE exE)
    fix e assume "z = Inl e" "st_transactions (w_store w) = st_transactions (si_store x)"
    with x' show ?thesis by auto
  next
    fix t3 am assume z: "z = Inr t3" "st_transactions (w_store w) = st_transactions (si_store x) @ [row_of t3 am]"
      "t_PreciseAmount t3 = Some a" "t_Reference t3 = t_Reference ?t"
    with x' obtain t' where "r = Inr t'" by (cases r) auto
    with x' z show ?thesis by (auto simp: row_of_def)
  qed
qed

lemma queue_for_follows:
  assumes "hub_ok U val" "store_ok (fu_store f)" "direct t a" "queue_for U rb t f = Some (f', r)"
  shows "(\<exists>e. r = Inl e) \<and> follows f f' [] \<or> (\<exists>i. r = Inr () \<and> follows f f' [(i, t_Reference t, Some a)])"
proof -
  obtain x z where Q: "QueueTransaction U rb t (fu_site f) = Some (x, z)" and f': "f' = f\<lparr>fu_site := x\<rparr>"
    and r: "(\<exists>e. r = Inl e) \<longleftrightarrow> (\<exists>e. z = Inl e)"
    using assms(4) by (auto simp: queue_for_def split: option.splits sum.splits)
  note d = QueueTransaction_direct [OF assms(1,2,3) Q]
  have f: "follows f f' n \<longleftrightarrow> map entry (st_transactions (si_store x)) = entries f @ n" for n
    using d(1) by (simp add: follows_def f' mappings_ok_def)
  from d(2) show ?thesis
  proof (elim disjE conjE exE)
    fix e assume "z = Inl e" "st_transactions (si_store x) = st_transactions (fu_store f)"
    with r show ?thesis by (auto simp: f)
  next
    fix t' row assume z: "z = Inr t'" "st_transactions (si_store x) = st_transactions (fu_store f) @ [row]"
      "t_Reference row = t_Reference t" "t_PreciseAmount row = Some a"
    with r have "r = Inr ()" by (cases r) auto
    with z show ?thesis by (auto simp: f entry_def)
  qed
qed


subsection \<open>What has been released\<close>

definition is_release :: "string \<Rightarrow> entry \<Rightarrow> bool" where
  "is_release ref e \<longleftrightarrow> has_prefix (fst (snd e)) (ref @ ''_release_'')"

definition released_total :: "string \<Rightarrow> entry list \<Rightarrow> int" where
  "released_total ref es = sum_list (map (\<lambda>e. or0 (snd (snd e))) (filter (is_release ref) es))"

lemma released_total_append [simp]: "released_total ref (es @ es') = released_total ref es + released_total ref es'"
  by (simp add: released_total_def)

lemma released_total_none: "\<forall>e \<in> set es. \<not> is_release ref e \<Longrightarrow> released_total ref es = 0"
  by (simp add: released_total_def)

lemma is_release_of [simp]: "is_release ref (i, releaseReference ref p, a)" "\<not> is_release ref (i, receiveReference ref p, a)"
  "\<not> is_release ref (i, shadowReference ref p, a)"
  by (simp_all add: is_release_def shadowReference_def releaseReference_def receiveReference_def has_prefix_def)

lemma sum_filter_insert:
  "r \<notin> R \<Longrightarrow> sum_list (map g (filter (\<lambda>u. key u \<in> insert r R) us)) =
     (sum_list (map g (filter (\<lambda>u. key u = r) us)) :: int) + sum_list (map g (filter (\<lambda>u. key u \<in> R) us))"
  by (induction us) auto

lemma sum_filter_key:
  "distinct (map key us) \<Longrightarrow> sum_list (map g (filter (\<lambda>u. key u = r) us)) = (case find_row key r us of None \<Rightarrow> 0 | Some u \<Rightarrow> (g u :: int))"
proof (induction us)
  case (Cons u us)
  have "r \<notin> key ` set us \<Longrightarrow> filter (\<lambda>u. key u = r) us = []" by (auto simp: filter_empty_conv)
  with Cons show ?case by (auto simp: find_row_None [THEN iffD2])
qed simp

lemma released_amount_sum:
  assumes "released_amount F ref ms s = Inr x" "store_ok s" "distinct (map lm_Provider ms)"
  shows "x = sum_list (map (\<lambda>u. or0 (t_PreciseAmount u)) (filter (\<lambda>u. t_Reference u \<in> releaseReference ref ` lm_Provider ` set ms) (st_transactions s)))"
  using assms(1,3)
proof (induction ms arbitrary: x)
  case (Cons m ms)
  let ?r = "releaseReference ref (lm_Provider m)" and ?R = "releaseReference ref ` lm_Provider ` set ms"
  let ?g = "\<lambda>u. or0 (t_PreciseAmount u)"
  have d: "distinct (map t_Reference (st_transactions s))" using assms(2) by (simp add: store_ok_def)
  have n: "?r \<notin> ?R" using Cons.prems(2) by (auto simp: releaseReference_def)
  obtain y where y: "released_amount F ref ms s = Inr y"
    using Cons.prems(1) by (auto simp: Let_def split: sum.splits bool.splits)
  have x: "x = (case find_row t_Reference ?r (st_transactions s) of None \<Rightarrow> 0 | Some u \<Rightarrow> ?g u) + y"
    using Cons.prems(1) y find_row_None [of t_Reference ?r "st_transactions s"]
    by (auto simp: Let_def TransactionExistsByRef_def GetTransactionByRef_def split: sum.splits bool.splits if_splits option.splits)
  have "y = sum_list (map ?g (filter (\<lambda>u. t_Reference u \<in> ?R) (st_transactions s)))"
    using Cons.IH [OF y] Cons.prems(2) by simp
  then show ?case
    using x sum_filter_insert [where g = ?g and key = t_Reference, OF n, of "st_transactions s"] sum_filter_key [OF d, where g = ?g and r = ?r]
    by simp
qed simp

text \<open>The books of a debit: its row, and releases for known providers only, within its amount.\<close>

definition debit_books :: "string \<Rightarrow> string \<Rightarrow> int \<Rightarrow> string \<Rightarrow> ('r, 'q, 'h) fund \<Rightarrow> bool" where
  "debit_books tid ref a bid f \<longleftrightarrow> store_ok (fu_store f) \<and> mappings_ok f \<and> (tid, ref, Some a) \<in> set (entries f) \<and>
     (\<forall>e \<in> set (entries f). is_release ref e \<longrightarrow> (\<exists>p. fst (snd e) = releaseReference ref p \<and> (bid, p) \<in> mapping_key ` set (fu_mappings f))) \<and>
     released_total ref (entries f) \<le> a"

lemma mappings_of_balance:
  assumes "GetLineageMappings F bid f = Inr ms" "mappings_ok f"
  shows "set ms = {m \<in> set (fu_mappings f). lm_BalanceID m = bid}" "distinct (map lm_Provider ms)"
proof -
  have ms: "ms = sort_key lm_CreatedAt (filter (\<lambda>m. lm_BalanceID m = bid) (fu_mappings f))"
    using assms(1) by (auto simp: GetLineageMappings_def split: if_splits)
  then show "set ms = {m \<in> set (fu_mappings f). lm_BalanceID m = bid}" by auto
  have "distinct (fu_mappings f)" "inj_on mapping_key (set (fu_mappings f))"
    using assms(2) by (simp_all add: mappings_ok_def distinct_map)
  then show "distinct (map lm_Provider ms)"
    by (auto simp: ms distinct_map inj_on_def mapping_key_def)
qed

lemma remaining_of_books:
  assumes "debit_books tid ref a bid f" "lm_BalanceID ` set ms \<subseteq> {bid}" "distinct (map lm_Provider ms)"
    and "mapping_key ` {m \<in> set (fu_mappings f). lm_BalanceID m = bid} \<subseteq> mapping_key ` set ms"
    and "remainingDebitAmount Y t ms (fu_store f) = Inr r" "t_Reference t = ref" "t_PreciseAmount t = Some a"
  shows "r = a - released_total ref (entries f)"
proof -
  obtain x where x: "released_amount (y_F Y) ref ms (fu_store f) = Inr x" "r = a - x"
    using assms(5-7) by (auto simp: remainingDebitAmount_def split: sum.splits)
  have ok: "store_ok (fu_store f)" using assms(1) by (simp add: debit_books_def)
  have "is_release ref (entry u) \<longleftrightarrow> t_Reference u \<in> releaseReference ref ` lm_Provider ` set ms" if "u \<in> set (st_transactions (fu_store f))" for u
  proof
    assume "is_release ref (entry u)"
    with assms(1) that obtain p where p: "t_Reference u = releaseReference ref p" "(bid, p) \<in> mapping_key ` set (fu_mappings f)"
      unfolding debit_books_def by (fastforce simp: entry_def)
    then have "(bid, p) \<in> mapping_key ` set ms" using assms(4) by (fastforce simp: mapping_key_def)
    then show "t_Reference u \<in> releaseReference ref ` lm_Provider ` set ms" using p(1) by (auto simp: mapping_key_def)
  next
    assume "t_Reference u \<in> releaseReference ref ` lm_Provider ` set ms"
    then show "is_release ref (entry u)" by (auto simp: entry_def)
  qed
  then have "filter (\<lambda>u. is_release ref (entry u)) (st_transactions (fu_store f)) =
      filter (\<lambda>u. t_Reference u \<in> releaseReference ref ` lm_Provider ` set ms) (st_transactions (fu_store f))"
    by (intro filter_cong) simp_all
  then have "released_total ref (entries f) = x"
    using released_amount_sum [OF x(1) ok assms(3)] by (simp add: released_total_def filter_map comp_def entry_def)
  with x(2) show ?thesis by simp
qed


lemma direct_shadows:
  "0 < al_Amount al \<Longrightarrow> direct (release_txn t al m sb agg) (al_Amount al)"
  "0 < al_Amount al \<Longrightarrow> direct (receive_txn t al m sb db info) (al_Amount al)"
  "t_PreciseAmount t = Some a \<Longrightarrow> 0 < a \<Longrightarrow> direct (shadow_credit t db p sh agg i) a"
  by (simp_all add: direct_def release_txn_def receive_txn_def shadow_credit_def zero_Transaction_def)

lemma shadow_references [simp]:
  "t_Reference (release_txn t al m sb agg) = releaseReference (t_Reference t) (lm_Provider m)"
  "t_Reference (receive_txn t al m sb db info) = receiveReference (t_Reference t) (lm_Provider m)"
  "t_Reference (shadow_credit t db p sh agg i) = shadowReference (t_Reference t) p"
  by (simp_all add: release_txn_def receive_txn_def shadow_credit_def)

lemma processDestinationLineage_follows:
  assumes "hub_ok U val" "store_ok (fu_store f)" "0 < al_Amount al"
    and "processDestinationLineage U rb t al m sb dbo dest f = Some (f', r)"
  obtains news where "follows f f' news" "\<forall>e \<in> set news. \<not> is_release (t_Reference t) e"
proof (cases "processDestinationLineage U rb t al m sb dbo dest f = Some (f, Inr ())")
  case True
  then show ?thesis using that [of "[]"] follows_refl [OF assms(2)] assms(4) by simp
next
  case False
  obtain db info where "tracked_destination dbo = Some db" "Option.bind dest (\<lambda>d. map_of d (lm_Provider m)) = Some info"
    using False by (auto simp: processDestinationLineage_def split: option.splits)
  note c = assms(4) [unfolded processDestinationLineage_def this option.case prod.case queueReceiveTransaction_def]
  obtain f1 z where Q: "queue_for U rb (receive_txn t al m sb db info) f = Some (f1, z)"
    using c by (cases "queue_for U rb (receive_txn t al m sb db info) f") auto
  from queue_for_follows [OF assms(1,2) direct_shadows(2) [OF assms(3)] Q]
  show ?thesis
  proof (elim disjE conjE exE)
    fix e assume "z = Inl e" "follows f f1 []"
    with c Q that [of "[]"] show ?thesis by auto
  next
    fix i assume z: "z = Inr ()" and fo: "follows f f1 [(i, t_Reference (receive_txn t al m sb db info), Some (al_Amount al))]"
    obtain f2 y where "UpsertLineageMapping (y_F (hb_sys U)) (y_now (hb_sys U))
        \<lparr>lm_ID = 0, lm_BalanceID = b_BalanceID db, lm_Provider = lm_Provider m,
         lm_ShadowBalanceID = b_BalanceID (di_shadowBalance info), lm_AggregateBalanceID = b_BalanceID (di_aggregateBalance info),
         lm_IdentityID = b_IdentityID db, lm_CreatedAt = 0\<rparr> f1 = (f2, y)" by force
    moreover from follows_upsert [OF follows_ok [OF fo] this] have "follows f1 f2 []" .
    ultimately have "f' = f2" "follows f f2 [(i, t_Reference (receive_txn t al m sb db info), Some (al_Amount al))]"
      using c Q z follows_trans [OF fo] by (auto split: sum.splits)
    then show ?thesis using that [of "[(i, receiveReference (t_Reference t) (lm_Provider m), Some (al_Amount al))]"] by simp
  qed
qed

text \<open>
  The loop over the allocations: whatever it returns, the new releases are for providers of the
  mappings and stay within the allocations; when it succeeds, every allocation has been released.
\<close>

lemma processAllocations_follows:
  assumes "hub_ok U val" "store_ok (fu_store f)" "\<forall>al \<in> set as. 0 < al_Amount al"
    and "processAllocations U rb t as ms sb dbo agg dest f = Some (f', r)"
  shows "\<exists>news. follows f f' news \<and> released_total (t_Reference t) news \<le> given as \<and>
    (\<forall>e \<in> set news. is_release (t_Reference t) e \<longrightarrow> fst (snd e) \<in> releaseReference (t_Reference t) ` lm_Provider ` set ms)"
  using assms(2-4)
proof (induction as arbitrary: f)
  case Nil
  then show ?case using follows_refl by (intro exI [of _ "[]"]) (simp add: released_total_def)
next
  case (Cons al as)
  have pos: "0 < al_Amount al" "\<forall>al \<in> set as. 0 < al_Amount al" using Cons.prems(2) by simp_all
  have g: "0 \<le> given as" using pos(2) by (induction as) auto
  have skip: ?case if "processAllocations U rb t as ms sb dbo agg dest f = Some (f', r)"
    using Cons.IH [OF Cons.prems(1) pos(2) that] pos(1) by force
  let ?ref = "t_Reference t"
  show ?case
  proof (cases "findMappingByShadowID ms (al_BalanceID al)")
    case None
    then show ?thesis using Cons.prems(3) pos by (intro skip) simp
  next
    case (Some m)
    then have m: "m \<in> set ms" by (auto simp: findMappingByShadowID_def find_Some_iff in_set_conv_nth)
    let ?ex = "TransactionExistsByRef (y_F (hb_sys U)) (releaseReference ?ref (lm_Provider m)) (fu_store f)"
    consider e where "?ex = Inl e" | "?ex = Inr True" | "?ex = Inr False" by (cases ?ex) auto
    then show ?thesis
    proof cases
      case 1
      then have "f' = f" using Cons.prems(3) Some pos(1) by simp
      then show ?thesis using follows_refl [OF Cons.prems(1)] pos(1) g by (intro exI [of _ "[]"]) (simp add: released_total_def)
    next
      case 2
      then show ?thesis using Cons.prems(3) Some pos(1) by (intro skip) simp
    next
      case 3
      note run = Cons.prems(3) [simplified, unfolded Some option.case 3 sum.case bool.case queueReleaseTransaction_def]
      obtain f1 z where Q: "queue_for U rb (release_txn t al m sb agg) f = Some (f1, z)"
        using run pos(1) by (cases "queue_for U rb (release_txn t al m sb agg) f") auto
      from queue_for_follows [OF assms(1) Cons.prems(1) direct_shadows(1) [OF pos(1)] Q]
      show ?thesis
      proof (elim disjE conjE exE)
        fix e assume "z = Inl e" "follows f f1 []"
        with run Q pos(1) g show ?thesis by (intro exI [of _ "[]"]) (simp add: released_total_def)
      next
        fix i :: string let ?e = "(i, releaseReference ?ref (lm_Provider m), Some (al_Amount al))"
        assume z: "z = Inr ()" and "follows f f1 [(i, t_Reference (release_txn t al m sb agg), Some (al_Amount al))]"
        then have fo: "follows f f1 [?e]" by simp
        obtain f2 y where D: "processDestinationLineage U rb t al m sb dbo dest f1 = Some (f2, y)"
          using run Q z pos(1) by (cases "processDestinationLineage U rb t al m sb dbo dest f1") auto
        obtain n2 where n2: "follows f1 f2 n2" "\<forall>e \<in> set n2. \<not> is_release ?ref e"
          by (rule processDestinationLineage_follows [OF assms(1) follows_ok [OF fo] pos(1) D])
        note f2 = follows_trans [OF fo n2(1)]
        have rt: "released_total ?ref ([?e] @ n2) = al_Amount al"
          using n2(2) by (simp add: released_total_none) (simp add: released_total_def)
        have mem: "\<forall>e \<in> set ([?e] @ n2). is_release ?ref e \<longrightarrow> fst (snd e) \<in> releaseReference ?ref ` lm_Provider ` set ms"
          using m n2(2) by auto
        show ?thesis
        proof (cases y)
          case (Inl e)
          then have "f' = f2" using run Q z D pos(1) by simp
          with f2 rt mem g show ?thesis by (intro exI [of _ "[?e] @ n2"]) simp
        next
          case (Inr u)
          then have "processAllocations U rb t as ms sb dbo agg dest f2 = Some (f', r)" using run Q z D pos(1) by simp
          from Cons.IH [OF follows_ok [OF n2(1)] pos(2) this] obtain n3 where n3: "follows f2 f' n3"
            "released_total ?ref n3 \<le> given as"
            "\<forall>e \<in> set n3. is_release ?ref e \<longrightarrow> fst (snd e) \<in> releaseReference ?ref ` lm_Provider ` set ms" by blast
          have "released_total ?ref (([?e] @ n2) @ n3) \<le> given (al # as)"
            using rt n3(2) by (simp only: released_total_append list.map sum_list.Cons)
          moreover have "\<forall>e \<in> set (([?e] @ n2) @ n3). is_release ?ref e \<longrightarrow> fst (snd e) \<in> releaseReference ?ref ` lm_Provider ` set ms"
            using mem n3(3) by (simp only: set_append ball_Un)
          ultimately show ?thesis using follows_trans [OF f2 n3(1)] by blast
        qed
      qed
    qed
  qed
qed


subsection \<open>Keeping the books\<close>

lemma books_follow:
  assumes b: "debit_books tid ref a bid f" and f: "follows f f' news"
    and "released_total ref news \<le> a - released_total ref (entries f)"
    and "\<forall>e \<in> set news. is_release ref e \<longrightarrow> (\<exists>p. fst (snd e) = releaseReference ref p \<and> (bid, p) \<in> mapping_key ` set (fu_mappings f))"
  shows "debit_books tid ref a bid f'"
proof -
  have "mapping_key ` set (fu_mappings f) \<subseteq> mapping_key ` set (fu_mappings f')" "entries f' = entries f @ news"
    "store_ok (fu_store f')" "mappings_ok f'"
    using f b by (simp_all add: follows_def debit_books_def)
  note f' = this
  have "\<exists>p. fst (snd e) = releaseReference ref p \<and> (bid, p) \<in> mapping_key ` set (fu_mappings f')" if "e \<in> set (entries f')" "is_release ref e" for e
  proof -
    have "e \<in> set (entries f) \<or> e \<in> set news" using that(1) unfolding f'(2) by simp
    then show ?thesis using b assms(4) that(2) f'(1) unfolding debit_books_def by blast
  qed
  moreover have "(tid, ref, Some a) \<in> set (entries f')" "released_total ref (entries f') \<le> a"
    using b assms(3) unfolding f'(2) debit_books_def by (simp_all del: set_map)
  ultimately show ?thesis using f'(3,4) unfolding debit_books_def by blast
qed

lemma books_same:
  assumes "debit_books tid ref a bid f" "follows f f' news" "\<forall>e \<in> set news. \<not> is_release ref e"
  shows "debit_books tid ref a bid f'"
  by (rule books_follow [OF assms(1,2)]) (use assms in \<open>auto simp: released_total_none debit_books_def\<close>)

text \<open>Balances are created on the way, and nothing else changes.\<close>

definition prepares :: "('r, 'q, 'h) fund \<Rightarrow> ('r, 'q, 'h) fund \<Rightarrow> bool" where
  "prepares f f' \<longleftrightarrow> grows (fu_store f) (fu_store f') \<and> fu_mappings f' = fu_mappings f"

lemma prepares_refl: "store_ok (fu_store f) \<Longrightarrow> prepares f f"
  by (simp add: prepares_def grows_refl)

lemma prepares_trans: "prepares f f' \<Longrightarrow> prepares f' f'' \<Longrightarrow> prepares f f''"
  using grows_trans by (auto simp: prepares_def)

lemma prepares_follows: "prepares f f' \<Longrightarrow> follows f f' []"
  by (simp add: prepares_def follows_def grows_def mappings_ok_def)

lemma prepares_ok: "prepares f f' \<Longrightarrow> store_ok (fu_store f')"
  by (simp add: prepares_def grows_def)

lemma getOrCreate_prepares:
  assumes "store_ok (fu_store f)" "uuids_ok E" "getOrCreateBalanceByIndicator E i c (fu_store f) = (s, r)"
  shows "prepares f (put_fund_store s f)"
  using getOrCreate_spec(1) [OF assms] by (simp add: prepares_def)

lemma put_fund_store_twice [simp]: "put_fund_store s (put_fund_store s' f) = put_fund_store s f"
  by (simp add: put_fund_store_def put_store_def)

lemma two_balances_prepare:
  assumes "store_ok (fu_store f)" "uuids_ok E" "getOrCreateBalanceByIndicator E i c (fu_store f) = (s1, Inr b)"
    and "getOrCreateBalanceByIndicator E j c s1 = (s2, r)"
  shows "prepares f (put_fund_store s2 f)"
proof -
  note 1 = getOrCreate_prepares [OF assms(1-3)]
  have "prepares (put_fund_store s1 f) (put_fund_store s2 (put_fund_store s1 f))"
    by (rule getOrCreate_prepares [OF _ assms(2)]) (use prepares_ok [OF 1] assms(4) in simp_all)
  from prepares_trans [OF 1 this] show ?thesis by simp
qed

lemma destination_balances_prepare:
  assumes "store_ok (fu_store f)" "uuids_ok E" "getOrCreateDestinationLineageBalances E p db f = (f', r)"
  shows "prepares f f'"
  using assms(3) prepares_refl [OF assms(1)] getOrCreate_prepares [OF assms(1,2)] two_balances_prepare [OF assms(1,2)]
  by (auto simp: getOrCreateDestinationLineageBalances_def split: sum.splits prod.splits)

lemma lineage_balances_prepare:
  assumes "store_ok (fu_store f)" "uuids_ok E" "getOrCreateLineageBalances E i p c f = (f', r)"
  shows "prepares f f'"
  using assms(3) prepares_refl [OF assms(1)] getOrCreate_prepares [OF assms(1,2)] two_balances_prepare [OF assms(1,2)]
  by (auto simp: getOrCreateLineageBalances_def split: sum.splits prod.splits)

lemma aggregate_prepares:
  assumes "store_ok (fu_store f)" "uuids_ok E" "getSourceAggregateBalance E sb f = (f', r)"
  shows "prepares f f'"
  using assms(3) prepares_refl [OF assms(1)] getOrCreate_prepares [OF assms(1,2)]
  by (auto simp: getSourceAggregateBalance_def split: sum.splits prod.splits)

lemma prepareDestination_prepares:
  assumes "store_ok (fu_store f)" "uuids_ok E" "prepareDestinationLineageBalances E ms db f = (f', r)"
  shows "prepares f f'"
  using assms(1,3)
proof (induction ms arbitrary: f f' r)
  case (Cons m ms)
  obtain f1 z where g: "getOrCreateDestinationLineageBalances E (lm_Provider m) db f = (f1, z)" by force
  note d = destination_balances_prepare [OF Cons.prems(1) assms(2) g]
  show ?case
  proof (cases z)
    case (Inl e)
    with Cons.prems(2) g d show ?thesis by simp
  next
    case (Inr b)
    obtain f2 y where p: "prepareDestinationLineageBalances E ms db f1 = (f2, y)" by force
    with prepares_trans [OF d Cons.IH [OF prepares_ok [OF d] p]] Cons.prems(2) g Inr
    show ?thesis by (cases b) (auto split: sum.splits)
  qed
qed (simp add: prepares_refl)

lemma prepare_destination_prepares:
  assumes "store_ok (fu_store f)" "uuids_ok E" "prepare_destination E ms dbo f = (f', d)"
  shows "prepares f f'"
  using assms(3) prepares_refl [OF assms(1)] prepareDestination_prepares [OF assms(1,2)]
  by (auto simp: prepare_destination_def split: option.splits sum.splits prod.splits)

lemma map_metadata:
  "(\<And>u m. g (u\<lparr>t_MetaData := m\<rparr>) = g u) \<Longrightarrow> map g (map (\<lambda>u. if P u then u\<lparr>t_MetaData := h u\<rparr> else u) us) = map g us"
  by simp

lemma metadata_follows:
  assumes "store_ok (fu_store f)"
  shows "follows f (put_fund_store (updateFundAllocationMetadata F t as ms (fu_store f)) f) []"
proof -
  have "store_ok (fu_store f) \<Longrightarrow> store_ok (fst (UpdateTransactionMetadata F i n (fu_store f)))" for i n
    by (auto simp: UpdateTransactionMetadata_def store_ok_def map_metadata simp del: map_map)
  moreover have "map entry (st_transactions (fst (UpdateTransactionMetadata F i n (fu_store f)))) = entries f" for i n
    by (simp add: UpdateTransactionMetadata_def map_metadata entry_def del: map_map)
  ultimately show ?thesis
    using assms by (simp add: follows_def updateFundAllocationMetadata_def Let_def mappings_ok_def)
qed

lemma lineage_source_Some:
  "lineage_source bs m = Some x \<longleftrightarrow> (\<exists>b d c. bs (lm_ShadowBalanceID m) = Some b \<and> b_DebitBalance b = Some d \<and> b_CreditBalance b = Some c \<and>
     0 < d \<and> 0 < d - c \<and> x = \<lparr>ls_BalanceID = lm_ShadowBalanceID m, ls_Balance = d - c, ls_CreatedAt = lm_CreatedAt m\<rparr>)"
  by (auto simp: lineage_source_def split: option.split)

lemma member_map_filter: "x \<in> set (List.map_filter g xs) \<longleftrightarrow> (\<exists>y \<in> set xs. g y = Some x)"
  by (force simp: List.map_filter_def)

lemma getLineageSources_pos: "getLineageSources Y ms s = Inr ss \<Longrightarrow> \<forall>x \<in> set ss. 0 < ls_Balance x"
  by (auto simp: getLineageSources_def member_map_filter lineage_source_Some split: if_splits sum.splits)

lemma debit_locked_books:
  assumes U: "hub_ok U val" and tie: "\<forall>ss. mset (tie ss) = mset ss" and b: "debit_books tid (t_Reference t) a bid f"
    and ms: "set ms = {m \<in> set (fu_mappings f). lm_BalanceID m = bid}" "distinct (map lm_Provider ms)"
    and t: "t_PreciseAmount t = Some a" and run: "debit_locked U tie rb t ms sb dbo dest f = Some (f', r)"
  shows "debit_books tid (t_Reference t) a bid f'"
proof -
  have ok: "store_ok (fu_store f)" and u: "uuids_ok (hb_env U)" using b U by (simp_all add: debit_books_def hub_ok_def)
  show ?thesis
  proof (cases "f' = f")
    case False
    then obtain ss x where ss: "getLineageSources (hb_sys U) ms (fu_store f) = Inr ss"
      and x: "remainingDebitAmount (hb_sys U) t ms (fu_store f) = Inr x" "0 < x"
      using run by (auto simp: debit_locked_def split: sum.splits if_splits)
    let ?as = "calculateAllocation tie ss x (b_AllocationStrategy sb)"
    have rem: "x = a - released_total (t_Reference t) (entries f)"
      by (rule remaining_of_books [OF b _ ms(2) _ x(1) refl t]) (use ms(1) in auto)
    obtain f1 z where g: "getSourceAggregateBalance (hb_env U) sb f = (f1, z)" by force
    have f1: "follows f f1 []" "fu_mappings f1 = fu_mappings f"
      using aggregate_prepares [OF ok u g] prepares_follows by (auto simp: prepares_def)
    have b1: "debit_books tid (t_Reference t) a bid f1" by (rule books_same [OF b f1(1)]) simp
    show ?thesis
    proof (cases z)
      case (Inl e)
      then show ?thesis using run ss x g b1 by (simp add: debit_locked_def)
    next
      case (Inr agg)
      note run' = run [unfolded debit_locked_def ss sum.case x(1) g prod.case Inr Let_def]
      obtain f2 y where P: "processAllocations U rb t ?as ms sb dbo agg dest f1 = Some (f2, y)"
        using run' x(2) by (cases "processAllocations U rb t ?as ms sb dbo agg dest f1") auto
      have "\<forall>al \<in> set ?as. 0 < al_Amount al"
        using calculateAllocation_member [of tie ss _ x "b_AllocationStrategy sb"] tie by blast
      from processAllocations_follows [OF U follows_ok [OF f1(1)] this P] obtain news where n: "follows f1 f2 news"
        "released_total (t_Reference t) news \<le> given ?as"
        "\<forall>e \<in> set news. is_release (t_Reference t) e \<longrightarrow> fst (snd e) \<in> releaseReference (t_Reference t) ` lm_Provider ` set ms" by blast
      have "given ?as \<le> x"
        using calculateAllocation_given(1) [of tie ss x "b_AllocationStrategy sb"] tie getLineageSources_pos [OF ss] x(2) by simp
      then have b2: "debit_books tid (t_Reference t) a bid f2"
        using n rem f1 ms(1) by (intro books_follow [OF b1 n(1)]) (fastforce simp: follows_def mapping_key_def)+
      have "f' = f2 \<or> f' = put_fund_store (updateFundAllocationMetadata (y_F (hb_sys U)) t ?as ms (fu_store f2)) f2"
        using run' x(2) P by (auto split: sum.splits)
      then show ?thesis
        using b2 books_same [OF b2 metadata_follows [OF follows_ok [OF n(1)]]] by auto
    qed
  qed (use b in simp)
qed


lemma books_redis [simp]: "debit_books tid ref a bid (put_fund_redis r f) \<longleftrightarrow> debit_books tid ref a bid f"
  by (simp add: debit_books_def mappings_ok_def)

lemma with_lineage_locks_cases:
  assumes "with_lineage_locks E ids body f = Some (f', x)"
  obtains r where "f' = put_fund_redis r f"
    | r r' f2 where "body (put_fund_redis r f) = Some (f2, x)" "f' = put_fund_redis r' f2"
  using assms by (auto simp: with_lineage_locks_def split: prod.splits sum.splits option.splits)

lemma processLineageDebit_books:
  assumes U: "hub_ok U val" and tie: "\<forall>ss. mset (tie ss) = mset ss" and b: "debit_books tid (t_Reference t) a (b_BalanceID sb) f"
    and t: "t_PreciseAmount t = Some a" and run: "processLineageDebit U tie rb t sb dbo f = Some (f', r)"
  shows "debit_books tid (t_Reference t) a (b_BalanceID sb) f'"
proof (cases "f' = f")
  case False
  have ok: "store_ok (fu_store f)" "mappings_ok f" and u: "uuids_ok (hb_env U)" using b U by (simp_all add: debit_books_def hub_ok_def)
  from False run obtain ms where ms: "GetLineageMappings (y_F (hb_sys U)) (b_BalanceID sb) f = Inr ms" "ms \<noteq> []"
    by (auto simp: processLineageDebit_def split: sum.splits if_splits)
  obtain f1 dest where p: "prepare_destination (hb_env U) ms dbo f = (f1, dest)" by force
  have f1: "follows f f1 []" "fu_mappings f1 = fu_mappings f"
    using prepare_destination_prepares [OF ok(1) u p] prepares_follows by (auto simp: prepares_def)
  have b1: "debit_books tid (t_Reference t) a (b_BalanceID sb) f1" by (rule books_same [OF b f1(1)]) simp
  have "with_lineage_locks (hb_env U) (lineage_lock_ids ms dest) (debit_locked U tie rb t ms sb dbo dest) f1 = Some (f', r)"
    using run ms p by (simp add: processLineageDebit_def)
  then show ?thesis
  proof (cases rule: with_lineage_locks_cases)
    case (1 q)
    then show ?thesis using b1 by simp
  next
    case (2 q q' f2)
    have "debit_books tid (t_Reference t) a (b_BalanceID sb) f2"
      by (rule debit_locked_books [OF U tie _ _ _ t 2(1)]) (use b1 f1(2) mappings_of_balance [OF ms(1) ok(2)] in simp_all)
    then show ?thesis by (simp add: 2(2))
  qed
qed (use b in simp)

lemma processLineageCredit_follows:
  assumes U: "hub_ok U val" and ok: "store_ok (fu_store f)" and t: "t_PreciseAmount t = Some a" "0 < a"
    and run: "processLineageCredit U rb t db p f = Some (f', r)"
  obtains news where "follows f f' news" "\<forall>e \<in> set news. \<not> is_release (t_Reference t) e"
proof (cases "f' = f")
  case True
  then show ?thesis using that [of "[]"] follows_refl [OF ok] by simp
next
  case False
  have u: "uuids_ok (hb_env U)" using U by (simp add: hub_ok_def)
  obtain f1 z where g: "getOrCreateLineageBalances (hb_env U) (b_IdentityID db) p (t_Currency t) f = (f1, z)" by force
  note f1 = prepares_follows [OF lineage_balances_prepare [OF ok u g]]
  show ?thesis
  proof (cases z)
    case (Inl e)
    then show ?thesis using that [of "[]"] f1 run g False by (auto simp: processLineageCredit_def Let_def split: if_splits)
  next
    case (Inr b)
    obtain sh agg where b: "b = (sh, agg)" by force
    let ?body = "\<lambda>f2. case queueShadowCreditTransaction U rb t db p sh agg (b_IdentityID db) f2 of None \<Rightarrow> None
                 | Some (f3, Inl e) \<Rightarrow> Some (f3, Inl e)
                 | Some (f3, Inr _) \<Rightarrow> Some (fst (upsertCreditLineageMapping (hb_env U) db p sh agg (b_IdentityID db) f3), Inr ())"
    have "with_lineage_locks (hb_env U) [b_BalanceID sh, b_BalanceID agg] ?body f1 = Some (f', r)"
      using run g Inr b False by (simp add: processLineageCredit_def Let_def split: if_splits)
    then show ?thesis
    proof (cases rule: with_lineage_locks_cases)
      case (1 q)
      then show ?thesis using that [of "[]"] f1 by simp
    next
      case (2 q q' f2)
      let ?t = "shadow_credit t db p sh agg (b_IdentityID db)"
      obtain f3 y where Q: "queue_for U rb ?t (put_fund_redis q f1) = Some (f3, y)"
        and f2: "f2 = f3 \<or> f2 = fst (upsertCreditLineageMapping (hb_env U) db p sh agg (b_IdentityID db) f3)"
        using 2(1) by (auto simp: queueShadowCreditTransaction_def wrap_fund_def split: option.splits sum.splits prod.splits)
      have ok1: "store_ok (fu_store (put_fund_redis q f1))" using follows_ok [OF f1] by simp
      obtain n where n: "follows f1 f3 n" "\<forall>e \<in> set n. \<not> is_release (t_Reference t) e"
        using queue_for_follows [OF U ok1 direct_shadows(3) [OF t] Q] by fastforce
      have "follows f3 (fst (upsertCreditLineageMapping (hb_env U) db p sh agg (b_IdentityID db) f3)) []"
        using follows_upsert [OF follows_ok [OF n(1)]]
        by (auto simp: upsertCreditLineageMapping_def split: prod.splits sum.splits)
      then have "follows f3 f2 []" using f2 follows_refl [OF follows_ok [OF n(1)]] by auto
      from follows_trans [OF follows_trans [OF f1 n(1)] this] have "follows f f' n" by (simp add: 2(2))
      then show ?thesis using that n(2) by blast
    qed
  qed
qed

lemma processLineage_books:
  assumes U: "hub_ok U val" and tie: "\<forall>ss. mset (tie ss) = mset ss" and b: "debit_books tid (t_Reference t) a bid f"
    and t: "t_PreciseAmount t = Some a" "0 < a" and sb: "\<forall>sb. sbo = Some sb \<longrightarrow> b_BalanceID sb = bid"
    and run: "processLineage U tie rb t sbo dbo f = Some (f', r)"
  shows "debit_books tid (t_Reference t) a bid f'"
proof (cases "f' = f")
  case False
  have ok: "store_ok (fu_store f)" using b by (simp add: debit_books_def)
  from False run obtain p where p: "validateLineageProvider (hb_sys U) (getLineageProvider t) sbo f = Inr p"
    by (auto simp: processLineage_def split: sum.splits)
  let ?c = "case dbo of None \<Rightarrow> Some (f, Inr ())
    | Some db \<Rightarrow> if p \<noteq> [] \<and> b_TrackFundLineage db
        then wrap_fund ''lineage credit processing failed'' (processLineageCredit U rb t db p f) else Some (f, Inr ())"
  obtain f1 z where c: "?c = Some (f1, z)" using run p by (cases ?c) (auto simp: processLineage_def)
  have b1: "debit_books tid (t_Reference t) a bid f1"
  proof (cases "f1 = f")
    case False
    with c obtain db y where "processLineageCredit U rb t db p f = Some (f1, y)"
      by (auto simp: wrap_fund_def split: option.splits if_splits sum.splits prod.splits)
    then obtain n where "follows f f1 n" "\<forall>e \<in> set n. \<not> is_release (t_Reference t) e"
      by (rule processLineageCredit_follows [OF U ok t])
    then show ?thesis by (rule books_same [OF b])
  qed (use b in simp)
  have "f' = f1 \<or> (\<exists>sb y. sbo = Some sb \<and> processLineageDebit U tie rb t sb dbo f1 = Some (f', y))"
    using run p c by (auto simp: processLineage_def wrap_fund_def split: option.splits if_splits sum.splits prod.splits)
  then show ?thesis
  proof (elim disjE exE conjE)
    fix s y assume s: "sbo = Some s" "processLineageDebit U tie rb t s dbo f1 = Some (f', y)"
    with sb have "b_BalanceID s = bid" by simp
    then show ?thesis using processLineageDebit_books [OF U tie _ t(1) s(2)] b1 by simp
  qed (use b1 in simp)
qed (use b in simp)

definition debit_entry :: "string \<Rightarrow> string \<Rightarrow> LineageOutbox \<Rightarrow> bool" where
  "debit_entry tid bid o' \<longleftrightarrow> o_TransactionID o' = tid \<and> o_SourceBalanceID o' = bid \<and> o_LineageType o' \<in> {''credit'', ''debit'', ''both''}"

lemma ProcessLineageFromOutbox_books:
  assumes U: "hub_ok U val" and tie: "\<forall>ss. mset (tie ss) = mset ss" and b: "debit_books tid ref a bid f" and a: "0 < a"
    and o': "debit_entry tid bid o'" and run: "ProcessLineageFromOutbox U tie rb o' f = Some (f', r)"
  shows "debit_books tid ref a bid f'"
proof (cases "f' = f")
  case False
  have ty: "o_LineageType o' \<noteq> ''shadow_commit''" "o_LineageType o' \<noteq> ''shadow_void''" using o' by (auto simp: debit_entry_def)
  from False run obtain t where t: "GetTransaction (y_F (hb_sys U)) tid (fu_store f) = Inr t"
    and p: "processLineage U tie rb (t\<lparr>t_Inflight := o_Inflight o'\<rparr>)
       (outbox_balance (y_F (hb_sys U)) bid (fu_store f)) (outbox_balance (y_F (hb_sys U)) (o_DestinationBalanceID o') (fu_store f)) f = Some (f', r)"
    using o' ty by (auto simp: ProcessLineageFromOutbox_def debit_entry_def split: sum.splits)
  obtain u where u: "find_row t_TransactionID tid (st_transactions (fu_store f)) = Some u" "t_Reference t = t_Reference u"
    "t_PreciseAmount t = t_PreciseAmount u"
    using t by (auto simp: GetTransaction_def split: if_splits option.splits)
  from b obtain v where v: "v \<in> set (st_transactions (fu_store f))" "entry v = (tid, ref, Some a)" by (auto simp: debit_books_def)
  have "distinct (map t_TransactionID (st_transactions (fu_store f)))" using b by (simp add: debit_books_def store_ok_def)
  from find_row_mem [OF this v(1)] v(2) u(1) have "u = v" by (simp add: entry_def)
  with u v(2) have e: "t_Reference t = ref" "t_PreciseAmount t = Some a" by (simp_all add: entry_def)
  have "\<forall>sb. outbox_balance (y_F (hb_sys U)) bid (fu_store f) = Some sb \<longrightarrow> b_BalanceID sb = bid"
    by (auto simp: outbox_balance_def GetBalanceByIDLite_def find_balance_SomeD split: if_splits sum.splits option.splits)
  from processLineage_books [OF U tie _ _ a this p, of tid] b e show ?thesis by simp
qed (use b in simp)


text \<open>
  The life of a debit's outbox row: attempts to process it, by workers with any faults, and between
  them anything that keeps the rows and the mappings and does not use the debit's release references.
\<close>

inductive lineage_step ::
    "('d, 'r, 'q, 'h) hub set \<Rightarrow> ('d \<Rightarrow> rat) \<Rightarrow> string \<Rightarrow> string \<Rightarrow> string \<Rightarrow> ('r, 'q, 'h) fund \<Rightarrow> ('r, 'q, 'h) fund \<Rightarrow> bool"
  for Us val tid ref bid where
  attempt: "U \<in> Us \<Longrightarrow> hub_ok U val \<Longrightarrow> \<forall>ss. mset (tie ss) = mset ss \<Longrightarrow> debit_entry tid bid o' \<Longrightarrow>
    ProcessLineageFromOutbox U tie rb o' f = Some (f', r) \<Longrightarrow> lineage_step Us val tid ref bid f f'"
| elsewhere: "follows f f' news \<Longrightarrow> \<forall>e \<in> set news. \<not> is_release ref e \<Longrightarrow> lineage_step Us val tid ref bid f f'"

lemma lineage_step_books:
  assumes "lineage_step Us val tid ref bid f f'" "debit_books tid ref a bid f" "0 < a"
  shows "debit_books tid ref a bid f'"
  using assms
proof cases
  case (attempt U tie o' rb r)
  then show ?thesis using ProcessLineageFromOutbox_books assms(2,3) by blast
next
  case (elsewhere news)
  then show ?thesis using books_same assms(2) by blast
qed

lemma lineage_steps_books:
  assumes "(lineage_step Us val tid ref bid)\<^sup>*\<^sup>* f f'" "debit_books tid ref a bid f" "0 < a"
  shows "debit_books tid ref a bid f'"
  using assms by (induction rule: rtranclp_induct) (auto intro: lineage_step_books)

subsection \<open>A first attempt that succeeds\<close>

definition no_release :: "string \<Rightarrow> LineageMapping list \<Rightarrow> ('r, 'q, 'h) fund \<Rightarrow> bool" where
  "no_release ref ms f \<longleftrightarrow> (\<forall>m \<in> set ms. releaseReference ref (lm_Provider m) \<notin> t_Reference ` set (st_transactions (fu_store f)))"

lemma references_of_entries: "t_Reference ` set (st_transactions (fu_store f)) = (fst \<circ> snd) ` set (entries f)"
  by (force simp: entry_def)

lemma processAllocations_exact:
  assumes U: "hub_ok U val" and "store_ok (fu_store f)" "\<forall>al \<in> set as. 0 < al_Amount al"
    and "processAllocations U rb t as ms sb dbo agg dest f = Some (f', Inr ())"
    and "distinct (map al_BalanceID as)" "al_BalanceID ` set as \<subseteq> lm_ShadowBalanceID ` set ms"
    and "no_release (t_Reference t) (filter (\<lambda>m. lm_ShadowBalanceID m \<in> al_BalanceID ` set as) ms) f"
    and inj: "distinct (map lm_Provider ms)" "distinct (map lm_ShadowBalanceID ms)"
  shows "\<exists>news. follows f f' news \<and> released_total (t_Reference t) news = given as"
  using assms(2-7)
proof (induction as arbitrary: f)
  case Nil
  then show ?case using follows_refl by (intro exI [of _ "[]"]) (simp add: released_total_def)
next
  case (Cons al as)
  let ?ref = "t_Reference t"
  have pos: "0 < al_Amount al" "\<forall>al \<in> set as. 0 < al_Amount al" using Cons.prems(2) by simp_all
  obtain m where m: "m \<in> set ms" "lm_ShadowBalanceID m = al_BalanceID al" using Cons.prems(5) by auto
  have fm: "findMappingByShadowID ms (al_BalanceID al) = Some m"
    using find_row_mem [OF inj(2) m(1)] m(2) by (simp add: findMappingByShadowID_def find_row_def)
  have new: "releaseReference ?ref (lm_Provider m) \<notin> t_Reference ` set (st_transactions (fu_store f))"
    using Cons.prems(6) m by (simp add: no_release_def)
  note run = Cons.prems(3) [simplified, unfolded fm option.case queueReleaseTransaction_def]
  have ex: "TransactionExistsByRef (y_F (hb_sys U)) (releaseReference ?ref (lm_Provider m)) (fu_store f) = Inr False"
    using run pos(1) new by (auto simp: TransactionExistsByRef_def split: if_splits)
  note run = run [unfolded ex sum.case bool.case]
  obtain f1 where Q: "queue_for U rb (release_txn t al m sb agg) f = Some (f1, Inr ())"
    using run pos(1) by (auto split: option.splits prod.splits sum.splits)
  obtain i where fo: "follows f f1 [(i, releaseReference ?ref (lm_Provider m), Some (al_Amount al))]"
    using queue_for_follows [OF U Cons.prems(1) direct_shadows(1) [OF pos(1)] Q] by auto
  obtain f2 where D: "processDestinationLineage U rb t al m sb dbo dest f1 = Some (f2, Inr ())"
    and P: "processAllocations U rb t as ms sb dbo agg dest f2 = Some (f', Inr ())"
    using run Q pos(1) by (auto split: option.splits prod.splits sum.splits)
  obtain n2 where n2: "follows f1 f2 n2" "\<forall>e \<in> set n2. \<not> is_release ?ref e"
    by (rule processDestinationLineage_follows [OF U follows_ok [OF fo] pos(1) D])
  let ?n = "[(i, releaseReference ?ref (lm_Provider m), Some (al_Amount al))] @ n2"
  note f2 = follows_trans [OF fo n2(1)]
  have "no_release ?ref (filter (\<lambda>m. lm_ShadowBalanceID m \<in> al_BalanceID ` set as) ms) f2"
    unfolding no_release_def
  proof (intro ballI notI)
    fix m' assume m': "m' \<in> set (filter (\<lambda>m. lm_ShadowBalanceID m \<in> al_BalanceID ` set as) ms)"
      and "releaseReference ?ref (lm_Provider m') \<in> t_Reference ` set (st_transactions (fu_store f2))"
    moreover have "entries f2 = entries f @ ?n" using f2 by (simp add: follows_def)
    moreover have "releaseReference ?ref (lm_Provider m') \<notin> t_Reference ` set (st_transactions (fu_store f))"
      using Cons.prems(6) m' by (auto simp: no_release_def)
    ultimately have "releaseReference ?ref (lm_Provider m') \<in> (fst \<circ> snd) ` set ?n"
      unfolding references_of_entries by (simp only: set_append image_Un) blast
    moreover have "releaseReference ?ref (lm_Provider m') \<notin> (fst \<circ> snd) ` set n2"
    proof
      assume "releaseReference ?ref (lm_Provider m') \<in> (fst \<circ> snd) ` set n2"
      then obtain e where "e \<in> set n2" "fst (snd e) = releaseReference ?ref (lm_Provider m')" by auto
      then show False using n2(2) is_release_of(1) [of ?ref "fst e" "lm_Provider m'" "snd (snd e)"]
        by (metis prod.collapse)
    qed
    ultimately have "lm_Provider m' = lm_Provider m" by (auto simp: releaseReference_def)
    then have "m' = m" using inj(1) m(1) m' by (auto simp: distinct_map inj_on_def)
    then show False using m m' Cons.prems(4) by auto
  qed
  from Cons.IH [OF follows_ok [OF n2(1)] pos(2) P _ _ this] Cons.prems(4,5) obtain n3 where
    n3: "follows f2 f' n3" "released_total ?ref n3 = given as" by auto
  have "released_total ?ref ?n = al_Amount al" using n2(2) by (simp add: released_total_none) (simp add: released_total_def)
  with n3(2) have "released_total ?ref (?n @ n3) = given (al # as)" by (simp only: released_total_append list.map sum_list.Cons)
  with follows_trans [OF f2 n3(1)] show ?case by blast
qed


text \<open>What the shadow balances of a balance still hold.\<close>

definition shadow_funds :: "store \<Rightarrow> LineageMapping \<Rightarrow> int" where
  "shadow_funds s m = (case find_balance (lm_ShadowBalanceID m) s of None \<Rightarrow> 0
     | Some b \<Rightarrow> if 0 < dr b \<and> cr b < dr b then dr b - cr b else 0)"

definition tracked_funds :: "string \<Rightarrow> ('r, 'q, 'h) fund \<Rightarrow> int" where
  "tracked_funds bid f = sum_list (map (shadow_funds (fu_store f)) (filter (\<lambda>m. lm_BalanceID m = bid) (fu_mappings f)))"

lemma shadow_funds_nonneg: "0 \<le> shadow_funds s m"
  by (simp add: shadow_funds_def split: option.split)

lemma shadow_funds_grows:
  assumes "grows s s'"
  shows "shadow_funds s' m = shadow_funds s m"
proof (cases "find_balance (lm_ShadowBalanceID m) s")
  case None
  then have "\<forall>b. find_balance (lm_ShadowBalanceID m) s' = Some b \<longrightarrow> cr b = 0 \<and> dr b = 0"
    using assms unfolding grows_def by (metis option.distinct(1))
  with None show ?thesis by (cases "find_balance (lm_ShadowBalanceID m) s'") (simp_all add: shadow_funds_def)
next
  case (Some b)
  then have "find_balance (lm_ShadowBalanceID m) s' = Some b" using assms by (simp add: grows_def)
  with Some show ?thesis by (simp add: shadow_funds_def)
qed

lemma funds_of_sources:
  assumes "\<forall>m \<in> set ms. src m = (if 0 < g m then Some \<lparr>ls_BalanceID = lm_ShadowBalanceID m, ls_Balance = g m, ls_CreatedAt = lm_CreatedAt m\<rparr> else None)"
    and "\<forall>m \<in> set ms. 0 \<le> g m" "distinct (map lm_ShadowBalanceID ms)"
  shows "funds (List.map_filter src ms) = sum_list (map g ms) \<and> distinct (map ls_BalanceID (List.map_filter src ms)) \<and>
    ls_BalanceID ` set (List.map_filter src ms) \<subseteq> lm_ShadowBalanceID ` set ms"
  using assms
proof (induction ms)
  case (Cons m ms)
  then have IH: "funds (List.map_filter src ms) = sum_list (map g ms)" "distinct (map ls_BalanceID (List.map_filter src ms))"
    "ls_BalanceID ` set (List.map_filter src ms) \<subseteq> lm_ShadowBalanceID ` set ms" by simp_all
  have m: "src m = (if 0 < g m then Some \<lparr>ls_BalanceID = lm_ShadowBalanceID m, ls_Balance = g m, ls_CreatedAt = lm_CreatedAt m\<rparr> else None)"
    "0 \<le> g m" "lm_ShadowBalanceID m \<notin> lm_ShadowBalanceID ` set ms" using Cons.prems by simp_all
  then have "lm_ShadowBalanceID m \<notin> ls_BalanceID ` set (List.map_filter src ms)" using IH(3) by blast
  with IH m show ?case by (auto simp: List.map_filter_simps)
qed (simp add: List.map_filter_simps)

lemma sources_of_mappings:
  assumes "\<forall>p. \<not> y_F Y p" "store_ok s" "distinct (map lm_ShadowBalanceID ms)"
  obtains ss where "getLineageSources Y ms s = Inr ss" "funds ss = sum_list (map (shadow_funds s) ms)"
    "distinct (map ls_BalanceID ss)" "ls_BalanceID ` set ss \<subseteq> lm_ShadowBalanceID ` set ms"
proof -
  let ?bs = "\<lambda>i. if i \<in> set (map lm_ShadowBalanceID ms) then map_option lite (find_balance i s) else None"
  have "\<forall>m \<in> set ms. lineage_source ?bs m = (if 0 < shadow_funds s m
      then Some \<lparr>ls_BalanceID = lm_ShadowBalanceID m, ls_Balance = shadow_funds s m, ls_CreatedAt = lm_CreatedAt m\<rparr> else None)"
  proof
    fix m assume m: "m \<in> set ms"
    show "lineage_source ?bs m = (if 0 < shadow_funds s m
      then Some \<lparr>ls_BalanceID = lm_ShadowBalanceID m, ls_Balance = shadow_funds s m, ls_CreatedAt = lm_CreatedAt m\<rparr> else None)"
    proof (cases "find_balance (lm_ShadowBalanceID m) s")
      case None
      then show ?thesis using m by (simp add: lineage_source_def shadow_funds_def)
    next
      case (Some b)
      then have "row_ok b" using assms(2) find_balance_SomeD by (auto simp: store_ok_def)
      then obtain d c where "b_DebitBalance b = Some d" "b_CreditBalance b = Some c" 
        by (cases "b_DebitBalance b"; cases "b_CreditBalance b") (auto simp: row_ok_def initialised_iff nil_numeric_def)
      then show ?thesis using Some m by (auto simp: lineage_source_def shadow_funds_def lite_def)
    qed
  qed
  note f = funds_of_sources [OF this _ assms(3)]
  have "getLineageSources Y ms s = Inr (List.map_filter (lineage_source ?bs) ms)"
    using assms(1) by (cases "ms = []") (simp_all add: getLineageSources_def GetBalancesByIDsLite_def List.map_filter_def)
  then show ?thesis using that f shadow_funds_nonneg by blast
qed

lemma seq_alloc_distinct: "distinct (map ls_BalanceID ss) \<Longrightarrow> distinct (map al_BalanceID (seq_alloc ss r))"
proof (induction ss arbitrary: r)
  case (Cons s ss)
  then show ?case using seq_alloc_ids [of ss] by (auto simp: Let_def)
qed simp

lemma calculateAllocation_distinct:
  assumes "mset (tie ss) = mset ss" "distinct (map ls_BalanceID ss)" "0 < amount" "strategy \<noteq> AllocationProp"
  shows "distinct (map al_BalanceID (calculateAllocation tie ss amount strategy))"
proof (cases "ss = []")
  case False
  have "distinct (map ls_BalanceID (sort_key k (tie ss)))" for k :: "LineageSource \<Rightarrow> int"
    using tie_facts(3) [OF assms(1)] assms(2) by (simp add: distinct_map)
  then show ?thesis using seq_alloc_distinct calculateAllocation_sequential [OF False assms(4,3)] by simp
qed (simp add: calculateAllocation_def)

lemma debit_locked_exact:
  assumes U: "hub_ok U val" "\<forall>p. \<not> y_F (hb_sys U) p" and tie: "\<forall>ss. mset (tie ss) = mset ss"
    and b: "debit_books tid (t_Reference t) a bid f" and a: "0 < a"
    and ms: "set ms = {m \<in> set (fu_mappings f). lm_BalanceID m = bid}" "distinct (map lm_Provider ms)" "distinct (map lm_ShadowBalanceID ms)"
    and t: "t_PreciseAmount t = Some a" and new: "\<forall>e \<in> set (entries f). \<not> is_release (t_Reference t) e"
    and strat: "b_AllocationStrategy sb \<noteq> AllocationProp"
    and run: "debit_locked U tie rb t ms sb dbo dest f = Some (f', Inr ())"
  shows "released_total (t_Reference t) (entries f') = min a (sum_list (map (shadow_funds (fu_store f)) ms))"
proof -
  have ok: "store_ok (fu_store f)" and u: "uuids_ok (hb_env U)" using b U by (simp_all add: debit_books_def hub_ok_def)
  obtain ss where ss: "getLineageSources (hb_sys U) ms (fu_store f) = Inr ss" "funds ss = sum_list (map (shadow_funds (fu_store f)) ms)"
    "distinct (map ls_BalanceID ss)" "ls_BalanceID ` set ss \<subseteq> lm_ShadowBalanceID ` set ms"
    by (rule sources_of_mappings [OF U(2) ok ms(3)])
  have r0: "released_total (t_Reference t) (entries f) = 0" using new by (rule released_total_none)
  obtain x where x: "remainingDebitAmount (hb_sys U) t ms (fu_store f) = Inr x"
    using run ss(1) by (auto simp: debit_locked_def split: sum.splits)
  have "x = a - released_total (t_Reference t) (entries f)"
    by (rule remaining_of_books [OF b _ ms(2) _ x refl t]) (use ms(1) in auto)
  with r0 a have xa: "x = a" "\<not> x \<le> 0" by simp_all
  let ?as = "calculateAllocation tie ss a (b_AllocationStrategy sb)"
  obtain f1 z where g: "getSourceAggregateBalance (hb_env U) sb f = (f1, z)" by force
  note f1 = prepares_follows [OF aggregate_prepares [OF ok u g]]
  note run' = run [unfolded debit_locked_def ss(1) sum.case x g prod.case Let_def]
  obtain agg f2 where z: "z = Inr agg" and P: "processAllocations U rb t ?as ms sb dbo agg dest f1 = Some (f2, Inr ())"
    and f': "f' = put_fund_store (updateFundAllocationMetadata (y_F (hb_sys U)) t ?as ms (fu_store f2)) f2"
    using run' xa by (auto split: sum.splits option.splits prod.splits)
  have al: "\<forall>al \<in> set ?as. 0 < al_Amount al" "al_BalanceID ` set ?as \<subseteq> lm_ShadowBalanceID ` set ms"
    using calculateAllocation_member [of tie ss _ a "b_AllocationStrategy sb"] tie ss(4) by blast+
  have "no_release (t_Reference t) (filter (\<lambda>m. lm_ShadowBalanceID m \<in> al_BalanceID ` set ?as) ms) f1"
  proof -
    have "entries f1 = entries f" using f1 by (simp add: follows_def)
    then have "\<not> is_release (t_Reference t) e" if "e \<in> set (entries f1)" for e using new that by metis
    then have "releaseReference (t_Reference t) p \<notin> (fst \<circ> snd) ` set (entries f1)" for p
      by (force simp del: set_map)
    then show ?thesis unfolding no_release_def references_of_entries by blast
  qed
  from processAllocations_exact [OF U(1) follows_ok [OF f1] al(1) P _ al(2) this ms(2,3)]
  obtain news where n: "follows f1 f2 news" "released_total (t_Reference t) news = given ?as"
    using calculateAllocation_distinct [of tie ss a "b_AllocationStrategy sb"] tie ss(3) a strat by blast
  have "given ?as = min a (funds ss)"
    by (rule calculateAllocation_given(2)) (use tie getLineageSources_pos [OF ss(1)] a strat in simp_all)
  moreover have "entries f' = entries f @ news"
    using follows_trans [OF follows_trans [OF f1 n(1)] metadata_follows [OF follows_ok [OF n(1)]]] by (simp add: follows_def f')
  ultimately show ?thesis using n(2) r0 ss(2) by (simp del: map_append)
qed


lemma with_lineage_locks_Inr:
  assumes "with_lineage_locks E ids body f = Some (f', Inr ())"
  obtains r r' f2 where "body (put_fund_redis r f) = Some (f2, Inr ())" "f' = put_fund_redis r' f2"
  using assms by (auto simp: with_lineage_locks_def split: prod.splits sum.splits option.splits)

lemma processLineageDebit_exact:
  assumes U: "hub_ok U val" "\<forall>p. \<not> y_F (hb_sys U) p" and tie: "\<forall>ss. mset (tie ss) = mset ss"
    and b: "debit_books tid (t_Reference t) a (b_BalanceID sb) f" "0 < a" and t: "t_PreciseAmount t = Some a"
    and new: "\<forall>e \<in> set (entries f). \<not> is_release (t_Reference t) e" and strat: "b_AllocationStrategy sb \<noteq> AllocationProp"
    and d: "distinct (map lm_ShadowBalanceID (filter (\<lambda>m. lm_BalanceID m = b_BalanceID sb) (fu_mappings f)))"
    and run: "processLineageDebit U tie rb t sb dbo f = Some (f', Inr ())"
  shows "released_total (t_Reference t) (entries f') = min a (tracked_funds (b_BalanceID sb) f)"
proof -
  let ?bid = "b_BalanceID sb"
  let ?ms = "sort_key lm_CreatedAt (filter (\<lambda>m. lm_BalanceID m = ?bid) (fu_mappings f))"
  have ok: "store_ok (fu_store f)" "mappings_ok f" and u: "uuids_ok (hb_env U)" using b U by (simp_all add: debit_books_def hub_ok_def)
  have ms: "GetLineageMappings (y_F (hb_sys U)) ?bid f = Inr ?ms" using U(2) by (simp add: GetLineageMappings_def)
  note set_ms = mappings_of_balance [OF ms ok(2)]
  have sum: "sum_list (map (shadow_funds (fu_store f)) ?ms) = tracked_funds ?bid f"
    by (simp add: tracked_funds_def flip: sum_mset_sum_list)
  have ds: "distinct (map lm_ShadowBalanceID ?ms)" using d by (simp add: distinct_map)
  have r0: "released_total (t_Reference t) (entries f) = 0" using new by (rule released_total_none)
  show ?thesis
  proof (cases "?ms = []")
    case True
    then have "f' = f" using run ms by (simp add: processLineageDebit_def split: sum.splits if_splits)
    then show ?thesis using r0 b(2) sum True by simp
  next
    case False
    obtain f1 dest where p: "prepare_destination (hb_env U) ?ms dbo f = (f1, dest)" by force
    note pr = prepare_destination_prepares [OF ok(1) u p]
    have f1: "fu_mappings f1 = fu_mappings f" "entries f1 = entries f" "shadow_funds (fu_store f1) = shadow_funds (fu_store f)"
      using pr shadow_funds_grows prepares_follows [OF pr] by (auto simp: prepares_def follows_def fun_eq_iff)
    have b1: "debit_books tid (t_Reference t) a ?bid f1" by (rule books_same [OF b(1) prepares_follows [OF pr]]) simp
    have "with_lineage_locks (hb_env U) (lineage_lock_ids ?ms dest) (debit_locked U tie rb t ?ms sb dbo dest) f1 = Some (f', Inr ())"
      using run ms False p by (simp add: processLineageDebit_def)
    then obtain q q' f2 where D: "debit_locked U tie rb t ?ms sb dbo dest (put_fund_redis q f1) = Some (f2, Inr ())" and f': "f' = put_fund_redis q' f2"
      by (rule with_lineage_locks_Inr)
    have "released_total (t_Reference t) (entries f2) = min a (sum_list (map (shadow_funds (fu_store (put_fund_redis q f1))) ?ms))"
      by (rule debit_locked_exact [OF U tie _ b(2) _ set_ms(2) ds t _ strat D]) (use b1 f1 set_ms(1) new in simp_all)
    then show ?thesis using sum f1(3) by (simp add: f')
  qed
qed

text \<open>
  A credit that was recorded once is refused when it is tried again. So an entry for a credit and a
  debit whose debit has failed never gets past the credit.
\<close>

lemma credit_retry_fails:
  assumes U: "hub_ok U val" and ok: "store_ok (fu_store f)" and t: "t_PreciseAmount t = Some a" "0 < a"
    and ref: "shadowReference (t_Reference t) p \<in> t_Reference ` set (st_transactions (fu_store f))"
    and run: "processLineageCredit U rb t db p f = Some (f', r)"
  shows "\<exists>e. r = Inl e"
proof (rule ccontr)
  assume "\<not> (\<exists>e. r = Inl e)"
  then have r: "r = Inr ()" by (cases r) auto
  have u: "uuids_ok (hb_env U)" using U by (simp add: hub_ok_def)
  obtain f1 sh agg where g: "getOrCreateLineageBalances (hb_env U) (b_IdentityID db) p (t_Currency t) f = (f1, Inr (sh, agg))"
    using run r by (auto simp: processLineageCredit_def Let_def split: if_splits prod.splits sum.splits)
  note f1 = prepares_follows [OF lineage_balances_prepare [OF ok u g]]
  let ?body = "\<lambda>f2. case queueShadowCreditTransaction U rb t db p sh agg (b_IdentityID db) f2 of None \<Rightarrow> None
                 | Some (f3, Inl e) \<Rightarrow> Some (f3, Inl e)
                 | Some (f3, Inr _) \<Rightarrow> Some (fst (upsertCreditLineageMapping (hb_env U) db p sh agg (b_IdentityID db) f3), Inr ())"
  have "with_lineage_locks (hb_env U) [b_BalanceID sh, b_BalanceID agg] ?body f1 = Some (f', Inr ())"
    using run g r by (simp add: processLineageCredit_def Let_def split: if_splits)
  then obtain q q' f2 where "?body (put_fund_redis q f1) = Some (f2, Inr ())" by (rule with_lineage_locks_Inr)
  then obtain f3 where Q: "queue_for U rb (shadow_credit t db p sh agg (b_IdentityID db)) (put_fund_redis q f1) = Some (f3, Inr ())"
    by (auto simp: queueShadowCreditTransaction_def wrap_fund_def split: option.splits sum.splits prod.splits)
  obtain i where fo: "follows f1 f3 [(i, shadowReference (t_Reference t) p, Some a)]"
    using queue_for_follows [OF U _ direct_shadows(3) [OF t] Q] follows_ok [OF f1] by auto
  have e: "entries f3 = entries f @ [(i, shadowReference (t_Reference t) p, Some a)]"
    using follows_trans [OF f1 fo] by (simp add: follows_def)
  have "map (fst \<circ> snd) (entries f3) = map t_Reference (st_transactions (fu_store f3))" by (simp add: entry_def)
  then have "distinct (map (fst \<circ> snd) (entries f3))" using follows_ok [OF fo] by (simp only: store_ok_def)
  then show False using ref unfolding e references_of_entries by (simp del: map_map)
qed

subsection \<open>Claiming\<close>

lemma claim_ids [simp]: "o_TransactionID (claim now d o') = o_TransactionID o'"
  by (simp add: claim_def)

lemma filter_take: "distinct xs \<Longrightarrow> filter (\<lambda>x. x \<in> set (take n (filter P xs))) xs = take n (filter P xs)"
proof (induction xs arbitrary: n)
  case (Cons x xs)
  have x: "x \<notin> set (take m (filter P xs))" for m using Cons.prems set_take_subset [of m "filter P xs"] by auto
  have IH: "filter (\<lambda>y. y \<in> set (take m (filter P xs))) xs = take m (filter P xs)" for m using Cons by simp
  show ?case
  proof (cases "P x")
    case True
    have "filter (\<lambda>y. y = x \<or> y \<in> set (take m (filter P xs))) xs = filter (\<lambda>y. y \<in> set (take m (filter P xs))) xs" for m
      using Cons.prems by (intro filter_cong) auto
    with True IH show ?thesis by (cases n) simp_all
  next
    case False
    with x IH show ?thesis by simp
  qed
qed simp

lemma claimed_rows:
  assumes "distinct (map o_TransactionID (st_outbox s))" "ClaimPendingOutboxEntries F now n d s = (s1, Inr es)"
  defines "c \<equiv> take n (filter (claimable now) (st_outbox s))"
  shows "es = map (claim now d) c"
    and "st_outbox s1 = map (\<lambda>o'. if o' \<in> set c then claim now d o' else o') (st_outbox s)"
proof -
  let ?ids = "map o_TransactionID c"
  have c: "set c \<subseteq> set (st_outbox s)" using set_take_subset [of n "filter (claimable now) (st_outbox s)"] by (auto simp: c_def)
  have mem: "o_TransactionID x \<in> set ?ids \<longleftrightarrow> x \<in> set c" if "x \<in> set (st_outbox s)" for x
    using assms(1) that c by (auto simp: distinct_map inj_on_def)
  have s1: "st_outbox s1 = map (\<lambda>o'. if o_TransactionID o' \<in> set ?ids then claim now d o' else o') (st_outbox s)"
    and es: "es = filter (\<lambda>o'. o_TransactionID o' \<in> set ?ids) (st_outbox s1)"
    using assms(2) by (auto simp: ClaimPendingOutboxEntries_def Let_def c_def split: if_splits)
  show s1': "st_outbox s1 = map (\<lambda>o'. if o' \<in> set c then claim now d o' else o') (st_outbox s)"
    unfolding s1 by (rule map_cong [OF refl]) (simp add: mem del: set_map)
  have "es = map (claim now d) (filter (\<lambda>o'. o' \<in> set c) (st_outbox s))"
  proof -
    have "filter (\<lambda>o'. o_TransactionID o' \<in> set ?ids) (map (\<lambda>o'. if o' \<in> set c then claim now d o' else o') xs) =
        map (claim now d) (filter (\<lambda>o'. o' \<in> set c) xs)" if "set xs \<subseteq> set (st_outbox s)" for xs
      using that mem by (induction xs) (auto simp del: set_map)
    then show ?thesis unfolding es s1' by blast
  qed
  moreover have "filter (\<lambda>o'. o' \<in> set c) (st_outbox s) = c"
    unfolding c_def by (rule filter_take) (use assms(1) in \<open>simp add: distinct_map\<close>)
  ultimately show "es = map (claim now d) c" by simp
qed

lemma claimed_not_claimable: "0 \<le> d \<Longrightarrow> now' \<le> now + d \<Longrightarrow> \<not> claimable now' (claim now d o')"
  by (simp add: claimable_def claim_def)


lemma queue_for_succeeds:
  assumes U: "undisturbed U val" and ok: "store_ok (fu_store f)" and d: "direct t a" "t_Status t = []" "t_ScheduledFor t = 0" "t_TransactionID t = []"
    and tr: "transferable (hb_env U) t a rs rd (si_world (fu_site f))"
    and fresh: "t_Reference t \<notin> t_Reference ` set (st_transactions (fu_store f))"
      "fresh_uuid (hb_sys U) ''txn'' (fu_store f) \<notin> t_TransactionID ` set (st_transactions (fu_store f)) \<union> o_TransactionID ` set (st_outbox (fu_store f))"
  shows "\<exists>f'. queue_for U rb t f = Some (f', Inr ())"
proof -
  let ?t = "setTransactionStatus (setTransactionMetadata (hb_sys U) (fu_store f) t)"
  have u: "decimal_pkg (e_D (hb_env U)) val" "uuids_ok (hb_env U)" "hb_ordd U [] = []" "hb_ordi U [] = []"
    using U by (simp_all add: undisturbed_def)
  have a: "t_PreciseAmount ?t = Some a" "0 < a" "t_Sources ?t = []" "t_Destinations ?t = []" "t_SkipQueue ?t" "t_Status ?t = StatusQueued"
    using d by (simp_all add: direct_def setTransactionMetadata_amount setTransactionStatus_def)
  have sp: "handleSplitTransactions U (fu_store f) ?t = Inr (?t, [])"
    using split_none [where ordd = "hb_ordd U" and ordi = "hb_ordi U", OF u(1) a(3,4,1,2) u(3,4)]
    by (simp add: handleSplitTransactions_def)
  have "transferable (hb_env U) ?t a rs rd (si_world (fu_site f))" using tr a(1) by (simp add: transferable_def)
  moreover have "t_TransactionID ?t = fresh_uuid (hb_sys U) ''txn'' (fu_store f)" "t_Reference ?t = t_Reference t" using d(4) by simp_all
  ultimately obtain w t3 where R: "RecordTransaction (hb_env U) ?t (si_world (fu_site f)) = Some (w, Inr t3)"
    using transferable_records [OF U ok, of ?t a rs rd] fresh a(6) by auto
  have "t_InflightExpiryDate t3 = 0 \<and> t_InflightCommitDate t3 = 0"
    using RecordTransaction_frame(2,3) [OF ok u(2) R] d by (simp add: direct_def)
  with R sp a(5) show ?thesis
    by (simp add: queue_for_def QueueTransaction_def Let_def processTxns_def record_at_def queue_dates_def QueueInflightExpiry_def
        QueueInflightCommit_def)
qed

definition ex_shadow :: "string \<Rightarrow> int \<Rightarrow> Balance" where
  "ex_shadow bid d = (ex_row bid 0)\<lparr>b_DebitBalance := Some d, b_Balance := Some (- d)\<rparr>"

definition ex_mapping :: "string \<Rightarrow> string \<Rightarrow> int \<Rightarrow> LineageMapping" where
  "ex_mapping provider shadow i = \<lparr>lm_ID = i, lm_BalanceID = ''bln_a'', lm_Provider = provider, lm_ShadowBalanceID = shadow,
     lm_AggregateBalanceID = ''bln_g'', lm_IdentityID = ''idt'', lm_CreatedAt = i\<rparr>"

definition ex_main :: Balance where
  "ex_main = (ex_row ''bln_a'' 600)\<lparr>b_TrackFundLineage := True, b_IdentityID := ''idt'', b_AllocationStrategy := ''FIFO''\<rparr>"

definition ex_aggregate :: Balance where
  "ex_aggregate = (ex_row ''bln_g'' 500)\<lparr>b_Indicator := ''@idt_lineage''\<rparr>"

definition ex_fund_store :: store where
  "ex_fund_store = \<lparr>st_balances = [ex_main, ex_row ''bln_b'' 400, ex_shadow ''bln_s1'' 300, ex_shadow ''bln_s2'' 200, ex_aggregate],
       st_transactions = [ex_txn], st_outbox = [], st_ledgers = [''general_ledger_id'']\<rparr>"

definition ex_redis :: rstore where "ex_redis = \<lparr>rs_now = 0, rs_map = Map.empty\<rparr>"

definition ex_fund :: "(rstore, task list, unit) fund" where
  "ex_fund = \<lparr>fu_site = \<lparr>si_world = \<lparr>w_store = ex_fund_store, w_redis = ex_redis\<rparr>, si_queue = [], si_hot = (), si_jobs = []\<rparr>,
     fu_mappings = [ex_mapping ''p1'' ''bln_s1'' 1, ex_mapping ''p2'' ''bln_s2'' 2], fu_serial = 2,
     fu_identities = [\<lparr>id_IdentityID = ''idt'', id_OrganizationName = [], id_FirstName = [], id_LastName = []\<rparr>]\<rparr>"

lemma ex_fund_fields: "fu_store ex_fund = ex_fund_store" "w_redis (si_world (fu_site ex_fund)) = ex_redis"
  "fu_mappings ex_fund = [ex_mapping ''p1'' ''bln_s1'' 1, ex_mapping ''p2'' ''bln_s2'' 2]" "st_transactions ex_fund_store = [ex_txn]"
  "st_outbox ex_fund_store = []"
  by (simp_all add: ex_fund_def ex_fund_store_def)

lemma ex_fund_locks:
  "case acquireLineageLocks ex_env [''bln_s1'', ''bln_s2'', ''bln_g''] ex_redis of
     (r, Inr m) \<Rightarrow> rs_get ''bln_g'' r = None \<and> rs_get ''bln_s1'' r = None | _ \<Rightarrow> False"
  by code_simp

lemma ex_fund_find: "find_balance ''bln_s1'' ex_fund_store = Some (ex_shadow ''bln_s1'' 300)"
  "find_balance ''bln_s2'' ex_fund_store = Some (ex_shadow ''bln_s2'' 200)" "find_balance ''bln_g'' ex_fund_store = Some ex_aggregate"
  "find_balance ''bln_a'' ex_fund_store = Some ex_main" "find_balance ''bln_b'' ex_fund_store = Some (ex_row ''bln_b'' 400)"
  by (simp_all add: find_balance_def ex_fund_store_def ex_main_def ex_shadow_def ex_aggregate_def ex_row_def)

lemma ex_fund_rows_ok: "store_ok ex_fund_store"
  by (simp add: store_ok_def ex_fund_store_def ex_main_def ex_shadow_def ex_aggregate_def ex_row_def row_ok_def holds_ok_def consistent_def
      initialised_def InitializeBalanceFields_def zero_Balance_def ex_txn_def)

lemma ex_txn_fields: "t_Reference ex_txn = ''ref_1''" "t_PreciseAmount ex_txn = Some 250" "t_TransactionID ex_txn = ''txn_1''"
  by (simp_all add: ex_txn_def)

lemma ex_fund_books: "debit_books ''txn_1'' ''ref_1'' 250 ''bln_a'' ex_fund"
  by (simp add: debit_books_def ex_fund_fields ex_fund_rows_ok mappings_ok_def ex_mapping_def mapping_key_def entry_def is_release_def
      ex_txn_fields has_prefix_def released_total_def)

lemma ex_sources: "getLineageSources ex_sys [ex_mapping ''p1'' ''bln_s1'' 1, ex_mapping ''p2'' ''bln_s2'' 2] ex_fund_store =
  Inr [\<lparr>ls_BalanceID = ''bln_s1'', ls_Balance = 300, ls_CreatedAt = 1\<rparr>, \<lparr>ls_BalanceID = ''bln_s2'', ls_Balance = 200, ls_CreatedAt = 2\<rparr>]"
  by (simp add: getLineageSources_def GetBalancesByIDsLite_def ex_sys_def ex_env_def List.map_filter_simps lineage_source_def ex_mapping_def ex_fund_find)
     (simp add: ex_shadow_def ex_row_def lite_def List.map_filter_simps lineage_source_def ex_fund_find)

lemma ex_allocation: "calculateAllocation (\<lambda>x. x) [\<lparr>ls_BalanceID = ''bln_s1'', ls_Balance = 300, ls_CreatedAt = 1\<rparr>,
    \<lparr>ls_BalanceID = ''bln_s2'', ls_Balance = 200, ls_CreatedAt = 2\<rparr>] 250 ''FIFO'' = [\<lparr>al_BalanceID = ''bln_s1'', al_Amount = 250\<rparr>]"
  by (simp add: calculateAllocation_def sequentialAllocation_def)

lemma ex_remaining: "remainingDebitAmount ex_sys ex_txn [ex_mapping ''p1'' ''bln_s1'' 1, ex_mapping ''p2'' ''bln_s2'' 2] ex_fund_store = Inr 250"
  by (simp add: remainingDebitAmount_def TransactionExistsByRef_def ex_sys_def ex_env_def ex_fund_fields ex_txn_fields ex_mapping_def releaseReference_def)


lemma ex_aggregate_found: "getSourceAggregateBalance ex_env (lite ex_main) f = (put_fund_store ex_fund_store f, Inr (lite ex_aggregate))"
  if "fu_store f = ex_fund_store" "fu_identities f = fu_identities ex_fund" for f :: "(rstore, task list, unit) fund"
proof -
  have i: "b_IdentityID (lite ex_main) = ''idt''" "b_Currency (lite ex_main) = ''USD''" by (simp_all add: ex_main_def ex_row_def lite_def)
  have "GetIdentityByID (e_F ex_env) ''idt'' f = Inr \<lparr>id_IdentityID = ''idt'', id_OrganizationName = [], id_FirstName = [], id_LastName = []\<rparr>"
    using that by (simp add: GetIdentityByID_def ex_env_def ex_fund_def)
  moreover have "aggregate_indicator \<lparr>id_IdentityID = ''idt'', id_OrganizationName = [], id_FirstName = [], id_LastName = []\<rparr> = ''@idt_lineage''"
    by (simp add: aggregate_indicator_def getIdentityIdentifier_def)
  moreover have "getOrCreateBalanceByIndicator ex_env ''@idt_lineage'' ''USD'' ex_fund_store = (ex_fund_store, Inr (lite ex_aggregate))"
    by (simp add: getOrCreateBalanceByIndicator_def GetBalanceByIndicator_def ex_env_def ex_fund_store_def ex_main_def ex_shadow_def ex_aggregate_def
        ex_row_def InitializeBalanceFields_def zero_Balance_def)
  ultimately show ?thesis using that(1) i by (simp add: getSourceAggregateBalance_def)
qed

lemma ex_release:
  assumes "fu_store f = ex_fund_store" "rs_get ''bln_g'' (w_redis (si_world (fu_site f))) = None" "rs_get ''bln_s1'' (w_redis (si_world (fu_site f))) = None"
  shows "\<exists>f'. queue_for ex_hub rb (release_txn ex_txn \<lparr>al_BalanceID = ''bln_s1'', al_Amount = 250\<rparr> (ex_mapping ''p1'' ''bln_s1'' 1) (lite ex_main)
    (lite ex_aggregate)) f = Some (f', Inr ())"
proof -
  let ?t = "release_txn ex_txn \<lparr>al_BalanceID = ''bln_s1'', al_Amount = 250\<rparr> (ex_mapping ''p1'' ''bln_s1'' 1) (lite ex_main) (lite ex_aggregate)"
  have t: "t_Source ?t = ''bln_g''" "t_Destination ?t = ''bln_s1''" "t_PreciseAmount ?t = Some 250" "t_Reference ?t = ''ref_1_release_p1''"
    "t_Status ?t = []" "t_ScheduledFor ?t = 0" "t_TransactionID ?t = []"
    by (simp_all add: release_txn_def zero_Transaction_def ex_aggregate_def ex_row_def lite_def releaseReference_def ex_mapping_def ex_txn_fields)
  have tr: "transferable ex_env ?t 250 ex_aggregate (ex_shadow ''bln_s1'' 300) (si_world (fu_site f))"
    unfolding transferable_def t using assms
    by (simp add: ex_fund_find has_prefix_def kv_def ex_env_def) (simp add: ex_aggregate_def ex_row_def InitializeBalanceFields_def zero_Balance_def)
  have d: "direct ?t 250" using direct_shadows(1) [of "\<lparr>al_BalanceID = ''bln_s1'', al_Amount = 250\<rparr>"] by simp
  have n: "fresh_uuid ex_sys ''txn'' (fu_store f) \<noteq> ''txn_1''" by (simp add: fresh_uuid_def ex_sys_def ex_env_def)
  show ?thesis
    by (rule queue_for_succeeds [OF ex_hub_ok(1) _ d t(5,6,7) tr [folded ex_hub_ok(2)]])
       (use n in \<open>simp_all only: assms(1) ex_fund_rows_ok t(4) ex_fund_fields ex_hub_ok(3) list.set image_insert image_empty ex_txn_fields\<close>, simp_all)
qed

lemma ex_attempt:
  assumes "tracked_destination dbo = None"
  obtains f' where "processLineageDebit ex_hub (\<lambda>x. x) rb ex_txn (lite ex_main) dbo ex_fund = Some (f', Inr ())"
proof -
  let ?ms = "[ex_mapping ''p1'' ''bln_s1'' 1, ex_mapping ''p2'' ''bln_s2'' 2]"
  have b: "b_BalanceID (lite ex_main) = ''bln_a''" "b_AllocationStrategy (lite ex_main) = ''FIFO''" by (simp_all add: ex_main_def ex_row_def lite_def)
  have F: "\<not> y_F ex_sys p" for p by (simp add: ex_sys_def ex_env_def)
  have ye: "y_env ex_sys = ex_env" by (simp add: ex_sys_def)
  have ms: "GetLineageMappings (y_F ex_sys) ''bln_a'' ex_fund = Inr ?ms" using F by (simp add: GetLineageMappings_def ex_fund_fields) (simp add: ex_mapping_def)
  have ids: "lineage_lock_ids ?ms None = [''bln_s1'', ''bln_s2'', ''bln_g'']" by (simp add: lineage_lock_ids_def ex_mapping_def)
  obtain r m where l: "acquireLineageLocks ex_env [''bln_s1'', ''bln_s2'', ''bln_g''] ex_redis = (r, Inr m)"
    and r: "rs_get ''bln_g'' r = None" "rs_get ''bln_s1'' r = None"
    using ex_fund_locks by (auto split: prod.splits sum.splits)
  let ?f = "put_fund_redis r ex_fund" let ?f1 = "put_fund_store ex_fund_store ?f"
  have f1: "fu_store ?f1 = ex_fund_store" "w_redis (si_world (fu_site ?f1)) = r" by (simp_all add: put_fund_redis_def put_fund_store_def put_store_def)
  have f: "fu_store ?f = ex_fund_store" "fu_identities ?f = fu_identities ex_fund" by (simp_all add: ex_fund_fields put_fund_redis_def)
  obtain f2 where q: "queue_for ex_hub rb (release_txn ex_txn \<lparr>al_BalanceID = ''bln_s1'', al_Amount = 250\<rparr> (ex_mapping ''p1'' ''bln_s1'' 1) (lite ex_main)
    (lite ex_aggregate)) ?f1 = Some (f2, Inr ())" using ex_release [OF f1(1)] r f1(2) by auto
  have fm: "findMappingByShadowID ?ms ''bln_s1'' = Some (ex_mapping ''p1'' ''bln_s1'' 1)" by (simp add: findMappingByShadowID_def ex_mapping_def)
  have ex: "TransactionExistsByRef (y_F ex_sys) (releaseReference (t_Reference ex_txn) (lm_Provider (ex_mapping ''p1'' ''bln_s1'' 1))) ex_fund_store = Inr False"
    using F by (simp add: TransactionExistsByRef_def ex_fund_fields ex_txn_fields releaseReference_def ex_mapping_def)
  have pd: "processDestinationLineage ex_hub rb ex_txn al m (lite ex_main) dbo None f2 = Some (f2, Inr ())" for al m
    using assms by (simp add: processDestinationLineage_def)
  have "processAllocations ex_hub rb ex_txn [\<lparr>al_BalanceID = ''bln_s1'', al_Amount = 250\<rparr>] ?ms (lite ex_main) dbo (lite ex_aggregate) None ?f1 = Some (f2, Inr ())"
    using fm ex q f1(1) pd by (simp add: queueReleaseTransaction_def ex_hub_ok)
  then have "\<exists>f3. debit_locked ex_hub (\<lambda>x. x) rb ex_txn ?ms (lite ex_main) dbo None ?f = Some (f3, Inr ())"
    using ex_sources ex_remaining ex_allocation ex_aggregate_found [OF f] f(1) b(2)
    by (simp add: debit_locked_def ex_hub_ok ye Let_def del: processAllocations.simps)
  then show ?thesis
    using that ms ids l assms b(1)
    by (auto simp: processLineageDebit_def ex_hub_ok ye prepare_destination_def with_lineage_locks_def ex_fund_fields)
qed


section \<open>Properties\<close>

text \<open>
  C20: the allocation of a debit to its sources. Whatever the strategy, no source gives more than it
  has and together they give at most the amount; first-in-first-out and last-in-first-out give all
  that is asked for or all there is, and take from a source only when those before it in the order
  are empty; proportional allocation falls short of that by less than one unit for each source.
\<close>

theorem allocation_correct:
  assumes "mset (tie sources) = mset sources" "\<forall>s \<in> set sources. 0 < ls_Balance s" "distinct (map ls_BalanceID sources)"
    and "sources \<noteq> []" "0 < amount"
    and "as = calculateAllocation tie sources amount strategy" "best = min amount (sum_list (map ls_Balance sources))"
  shows "(\<forall>s \<in> set sources. 0 \<le> allocated as (ls_BalanceID s) \<and> allocated as (ls_BalanceID s) \<le> ls_Balance s) \<and>
    sum_list (map al_Amount as) \<le> best \<and> best < sum_list (map al_Amount as) + int (length sources) \<and>
    (strategy \<noteq> AllocationProp \<longrightarrow> sum_list (map al_Amount as) = best \<and>
      (\<forall>s \<in> set sources. \<forall>s' \<in> set sources. strategy_order strategy s < strategy_order strategy s' \<and>
         0 < allocated as (ls_BalanceID s') \<longrightarrow> allocated as (ls_BalanceID s) = ls_Balance s))"
proof -
  have 1: "\<forall>s \<in> set sources. 0 \<le> allocated as (ls_BalanceID s) \<and> allocated as (ls_BalanceID s) \<le> ls_Balance s"
    using calculateAllocation_share [where tie = tie, OF assms(1-3,5)] by (simp add: assms(6))
  have 2: "given as \<le> best" "strategy \<noteq> AllocationProp \<Longrightarrow> given as = best"
    using calculateAllocation_given [where tie = tie, OF assms(1,2,5)] by (simp_all add: assms(6,7))
  have 3: "best < given as + int (length sources)"
  proof (cases "strategy = AllocationProp")
    case True
    then show ?thesis using proportional_given [OF assms(2,4,5)] assms(4) by (simp add: assms(6,7) calculateAllocation_def)
  qed (use 2 assms(4) in simp)
  have 4: "\<forall>s \<in> set sources. \<forall>s' \<in> set sources. strategy_order strategy s < strategy_order strategy s' \<and>
         0 < allocated as (ls_BalanceID s') \<longrightarrow> allocated as (ls_BalanceID s) = ls_Balance s" if "strategy \<noteq> AllocationProp"
    using calculateAllocation_order [where tie = tie, OF assms(1-3,5) that] by (simp add: assms(6))
  show ?thesis using 1 2 3 4 by blast
qed

theorem allocation_correct_witness:
  "let sources = [\<lparr>ls_BalanceID = ''b'', ls_Balance = 200, ls_CreatedAt = 2\<rparr>, \<lparr>ls_BalanceID = ''a'', ls_Balance = 300, ls_CreatedAt = 1\<rparr>];
       as = calculateAllocation (\<lambda>x. x) sources 350 ''FIFO''
   in sum_list (map al_Amount as) = 350 \<and> allocated as ''b'' \<le> 200 \<and> (0 < allocated as ''b'' \<longrightarrow> allocated as ''a'' = 300)"
  using allocation_correct [of "\<lambda>x. x" "[\<lparr>ls_BalanceID = ''b'', ls_Balance = 200, ls_CreatedAt = 2\<rparr>, \<lparr>ls_BalanceID = ''a'', ls_Balance = 300, ls_CreatedAt = 1\<rparr>]"
      350 _ "''FIFO''" 350]
  by (simp add: strategy_order_def Let_def)

text \<open>
  C18: a debit is released at most once. However often its outbox row is processed, by workers with
  any failures of the database, the locks or the hooks, and whatever else is recorded in between
  without using its release references, the releases stored for it never add up to more than it.
\<close>

theorem lineage_releases_bounded:
  assumes "(lineage_step Us val tid ref bid)\<^sup>*\<^sup>* f f'" "debit_books tid ref a bid f" "0 < a"
  shows "released_total ref (map entry (st_transactions (si_store (fu_site f')))) \<le> a"
  using lineage_steps_books [OF assms] by (simp add: debit_books_def)

definition ex_outbox :: LineageOutbox where
  "ex_outbox = \<lparr>o_TransactionID = ''txn_1'', o_SourceBalanceID = ''bln_a'', o_DestinationBalanceID = ''bln_b'', o_Provider = [],
     o_LineageType = ''debit'', o_Amount = 0, o_PreciseAmount = ''250'', o_Currency = ''USD'', o_Precision = 100, o_Reference = ''ref_1'',
     o_SkipQueue = True, o_Status = ''processing'', o_MaxAttempts = 5, o_Inflight = False, o_ParentTransactionID = [], o_Attempts = 0,
     o_LastError = [], o_ProcessedAt = None, o_LockedUntil = Some 30\<rparr>"

lemma ex_hub_fine: "hub_ok ex_hub (\<lambda>x. x)" "\<forall>p. \<not> y_F (hb_sys ex_hub) p"
  using ex_hub_ok(1) by (simp_all add: hub_ok_def undisturbed_def quiet_def)

theorem lineage_releases_bounded_witness:
  "\<exists>f'. ProcessLineageFromOutbox ex_hub (\<lambda>x. x) (\<lambda>_ _ _. None) ex_outbox ex_fund = Some (f', Inr ()) \<and>
     released_total ''ref_1'' (map entry (st_transactions (si_store (fu_site f')))) \<le> 250"
proof -
  have b: "outbox_balance (y_F ex_sys) ''bln_a'' ex_fund_store = Some (lite ex_main)"
    "outbox_balance (y_F ex_sys) ''bln_b'' ex_fund_store = Some (lite (ex_row ''bln_b'' 400))"
    by (simp_all add: outbox_balance_def GetBalanceByIDLite_def ex_sys_def ex_env_def ex_fund_find)
  have "tracked_destination (Some (lite (ex_row ''bln_b'' 400))) = None"
    by (simp add: tracked_destination_def ex_row_def lite_def InitializeBalanceFields_def zero_Balance_def)
  then obtain f' where D: "processLineageDebit ex_hub (\<lambda>x. x) (\<lambda>_ _ _. None) ex_txn (lite ex_main) (Some (lite (ex_row ''bln_b'' 400))) ex_fund = Some (f', Inr ())"
    by (rule ex_attempt)
  have t: "GetTransaction (y_F ex_sys) ''txn_1'' ex_fund_store = Inr ex_txn" "ex_txn\<lparr>t_Inflight := False\<rparr> = ex_txn" "getLineageProvider ex_txn = []"
    by (simp_all add: GetTransaction_def ex_sys_def ex_env_def ex_fund_fields ex_txn_def zero_Transaction_def getLineageProvider_def meta_get_def)
  have "b_TrackFundLineage (lite ex_main)" by (simp add: ex_main_def lite_def)
  then have P: "ProcessLineageFromOutbox ex_hub (\<lambda>x. x) (\<lambda>_ _ _. None) ex_outbox ex_fund = Some (f', Inr ())"
    using D b t by (simp add: ProcessLineageFromOutbox_def ex_outbox_def processLineage_def validateLineageProvider_def wrap_fund_def
        ex_hub_ok ex_fund_fields)
  have "debit_entry ''txn_1'' ''bln_a'' ex_outbox" by (simp add: debit_entry_def ex_outbox_def)
  then have "lineage_step {ex_hub} (\<lambda>x. x) ''txn_1'' ''ref_1'' ''bln_a'' ex_fund f'"
    by (intro lineage_step.attempt [OF _ ex_hub_fine(1) _ _ P]) simp_all
  then have "(lineage_step {ex_hub} (\<lambda>x. x) ''txn_1'' ''ref_1'' ''bln_a'')\<^sup>*\<^sup>* ex_fund f'" by (rule r_into_rtranclp)
  from lineage_releases_bounded [OF this ex_fund_books] P show ?thesis by auto
qed

text \<open>
  C19: a debit is traced in full. Conditions: the tables and the lineage mappings are sound, the debited
  transaction is stored with a positive amount and nothing of it has been released; no database call fails; the
  shadow balances of the balance's mappings are distinct; the strategy is first-in-first-out or
  last-in-first-out. When the first attempt to process the debit then succeeds, the releases add up to the debit,
  or to all that the shadow balances of its providers held when that is less.
\<close>

theorem lineage_debit_exact:
  assumes "hub_ok U val" "\<forall>p. \<not> y_F (hb_sys U) p" "\<forall>ss. mset (tie ss) = mset ss"
    and "debit_books tid (t_Reference t) a (b_BalanceID sb) f" "0 < a" "t_PreciseAmount t = Some a"
    and "\<forall>e \<in> set (map entry (st_transactions (si_store (fu_site f)))). \<not> is_release (t_Reference t) e"
    and "b_AllocationStrategy sb \<noteq> AllocationProp"
    and "distinct (map lm_ShadowBalanceID (filter (\<lambda>m. lm_BalanceID m = b_BalanceID sb) (fu_mappings f)))"
    and "processLineageDebit U tie rb t sb dbo f = Some (f', Inr ())"
  shows "released_total (t_Reference t) (map entry (st_transactions (si_store (fu_site f')))) = min a (tracked_funds (b_BalanceID sb) f)"
  by (rule processLineageDebit_exact [OF assms])

theorem lineage_debit_exact_witness:
  "\<exists>f'. processLineageDebit ex_hub (\<lambda>x. x) (\<lambda>_ _ _. None) ex_txn (lite ex_main) None ex_fund = Some (f', Inr ()) \<and>
     released_total ''ref_1'' (map entry (st_transactions (si_store (fu_site f')))) = 250"
proof -
  obtain f' where D: "processLineageDebit ex_hub (\<lambda>x. x) (\<lambda>_ _ _. None) ex_txn (lite ex_main) None ex_fund = Some (f', Inr ())"
    by (rule ex_attempt [of None]) (simp add: tracked_destination_def)
  have b: "b_BalanceID (lite ex_main) = ''bln_a''" "b_AllocationStrategy (lite ex_main) = ''FIFO''" by (simp_all add: ex_main_def ex_row_def lite_def)
  have "tracked_funds ''bln_a'' ex_fund = 500"
    by (simp add: tracked_funds_def ex_fund_fields ex_mapping_def shadow_funds_def ex_fund_find) (simp add: ex_shadow_def ex_row_def)
  moreover have "distinct (map lm_ShadowBalanceID (filter (\<lambda>m. lm_BalanceID m = ''bln_a'') (fu_mappings ex_fund)))"
    by (simp add: ex_fund_fields ex_mapping_def)
  moreover have "\<forall>e \<in> set (map entry (st_transactions (si_store (fu_site ex_fund)))). \<not> is_release ''ref_1'' e"
    by (simp add: ex_fund_fields entry_def is_release_def ex_txn_fields has_prefix_def)
  ultimately show ?thesis
    using lineage_debit_exact [OF ex_hub_fine, of "\<lambda>x. x" "''txn_1''" ex_txn 250 "lite ex_main" ex_fund, OF _ _ _ _ _ _ _ D] D b ex_fund_books
    by (simp add: ex_txn_fields)
qed

text \<open>
  What may happen to the outbox while rows of the transactions \<open>X\<close> are locked until \<open>T\<close>: claims up to
  that time, completions, insertions, and failures reported for other rows.
\<close>

inductive outbox_step :: "string set \<Rightarrow> int \<Rightarrow> store \<Rightarrow> store \<Rightarrow> bool" for X T where
  claim: "now \<le> T \<Longrightarrow> outbox_step X T s (fst (ClaimPendingOutboxEntries F now n d s))"
| complete: "outbox_step X T s (fst (MarkOutboxCompleted F now tid s))"
| failed: "tid \<notin> X \<Longrightarrow> outbox_step X T s (fst (MarkOutboxFailed F tid msg s))"
| insert: "outbox_insert o' s = Some s' \<Longrightarrow> outbox_step X T s s'"
| other: "st_outbox s' = st_outbox s \<Longrightarrow> outbox_step X T s s'"

definition locked_rows :: "string set \<Rightarrow> int \<Rightarrow> store \<Rightarrow> bool" where
  "locked_rows X T s \<longleftrightarrow> X \<subseteq> o_TransactionID ` set (st_outbox s) \<and>
     (\<forall>o' \<in> set (st_outbox s). o_TransactionID o' \<in> X \<longrightarrow> o_Status o' = ''completed'' \<or> (\<exists>t \<ge> T. o_LockedUntil o' = Some t))"

lemma locked_not_claimable:
  assumes "locked_rows X T s" "now \<le> T"
  shows "o_TransactionID ` set (take n (filter (claimable now) (st_outbox s))) \<inter> X = {}"
proof -
  have "\<not> claimable now o'" if "o' \<in> set (st_outbox s)" "o_TransactionID o' \<in> X" for o'
    using assms that by (auto simp: locked_rows_def claimable_def split: option.splits)
  then show ?thesis by (auto dest!: in_set_takeD)
qed

lemma locked_update:
  assumes "locked_rows X T s" "st_outbox s' = map g (st_outbox s)"
    and "\<forall>o' \<in> set (st_outbox s). o_TransactionID (g o') = o_TransactionID o' \<and> (o_TransactionID o' \<in> X \<longrightarrow> g o' = o' \<or> o_Status (g o') = ''completed'')"
  shows "locked_rows X T s'"
  unfolding locked_rows_def assms(2)
proof
  have "o_TransactionID ` set (map g (st_outbox s)) = o_TransactionID ` set (st_outbox s)"
    unfolding set_map image_image using assms(3) by (intro image_cong) auto
  then show "X \<subseteq> o_TransactionID ` set (map g (st_outbox s))" using assms(1) by (simp add: locked_rows_def)
  show "\<forall>o' \<in> set (map g (st_outbox s)). o_TransactionID o' \<in> X \<longrightarrow> o_Status o' = ''completed'' \<or> (\<exists>t \<ge> T. o_LockedUntil o' = Some t)"
  proof (intro ballI impI)
    fix o' assume "o' \<in> set (map g (st_outbox s))" "o_TransactionID o' \<in> X"
    then obtain z where z: "z \<in> set (st_outbox s)" "o' = g z" by auto
    then have "o_TransactionID z \<in> X" "g z = z \<or> o_Status (g z) = ''completed''"
      using assms(3) \<open>o_TransactionID o' \<in> X\<close> by metis+
    moreover have "o_Status z = ''completed'' \<or> (\<exists>t \<ge> T. o_LockedUntil z = Some t)"
      using assms(1) z(1) calculation(1) unfolding locked_rows_def by blast
    ultimately show "o_Status o' = ''completed'' \<or> (\<exists>t \<ge> T. o_LockedUntil o' = Some t)" unfolding z(2) by metis
  qed
qed

lemma outbox_step_locked: "outbox_step X T s s' \<Longrightarrow> locked_rows X T s \<Longrightarrow> locked_rows X T s'"
proof (induction rule: outbox_step.induct)
  case (claim now s F n d)
  note free = locked_not_claimable [OF claim.prems claim.hyps, of n]
  show ?case
  proof (cases "F ''ClaimPendingOutboxEntries''")
    case False
    then show ?thesis using free
      by (intro locked_update [OF claim.prems, of _ "\<lambda>o'. if o_TransactionID o' \<in> set (map o_TransactionID (take n (filter (claimable now) (st_outbox s))))
          then Lineage.claim now d o' else o'"]) (auto simp: ClaimPendingOutboxEntries_def Let_def Lineage.claim_def)
  qed (use claim.prems in \<open>simp add: ClaimPendingOutboxEntries_def\<close>)
next
  case (complete s F now tid)
  then show ?case
    by (intro locked_update [OF complete.prems, of _ "\<lambda>o'. if o_TransactionID o' = tid \<and> \<not> F ''MarkOutboxCompleted''
        then o'\<lparr>o_Status := ''completed'', o_ProcessedAt := Some now, o_LockedUntil := None\<rparr> else o'"])
      (auto simp: MarkOutboxCompleted_def update_outbox_def)
next
  case (failed tid s F msg)
  then show ?case
    by (intro locked_update [OF failed.prems, of _ "\<lambda>o'. if o_TransactionID o' = tid \<and> \<not> F ''MarkOutboxFailed''
        then o'\<lparr>o_Status := (if o_MaxAttempts o' \<le> o_Attempts o' + 1 then ''failed'' else ''pending''),
              o_Attempts := o_Attempts o' + 1, o_LastError := msg, o_LockedUntil := None\<rparr> else o'"])
      (auto simp: MarkOutboxFailed_def update_outbox_def)
next
  case (insert o' s s')
  then have s': "st_outbox s' = st_outbox s @ [pending o']" and new: "o_TransactionID o' \<notin> o_TransactionID ` set (st_outbox s)"
    by (auto simp: outbox_insert_def split: if_splits)
  have "o_TransactionID (pending o') \<notin> X" using new insert.prems by (auto simp: locked_rows_def pending_def)
  then show ?case using insert.prems unfolding locked_rows_def s' by auto
next
  case (other s' s)
  then show ?case by (simp add: locked_rows_def)
qed

lemma claim_locks:
  assumes "distinct (map o_TransactionID (st_outbox s))" "ClaimPendingOutboxEntries F now n d s = (s1, Inr es)"
  shows "locked_rows (o_TransactionID ` set es) (now + d) s1"
proof -
  let ?c = "take n (filter (claimable now) (st_outbox s))"
  note r = claimed_rows [OF assms]
  have c: "set ?c \<subseteq> set (st_outbox s)" using set_take_subset [of n "filter (claimable now) (st_outbox s)"] by auto
  have id: "o_TransactionID (claim now d x) = o_TransactionID x" for x by (simp add: claim_def)
  have "o_LockedUntil y = Some (now + d)" if y: "y \<in> set (st_outbox s1)" "o_TransactionID y \<in> o_TransactionID ` set es" for y
  proof -
    from y(1) obtain z where z: "z \<in> set (st_outbox s)" "y = (if z \<in> set ?c then claim now d z else z)" unfolding r(2) by auto
    from y(2) obtain x where x: "x \<in> set ?c" "o_TransactionID y = o_TransactionID x" unfolding r(1) by (auto simp: id)
    have "o_TransactionID z = o_TransactionID x" using z(2) x(2) by (simp add: id split: if_splits)
    then have "z = x" using assms(1) z(1) c x(1) by (auto simp: distinct_map inj_on_def)
    then show ?thesis using z(2) x(1) by (simp add: claim_def)
  qed
  moreover have "set es \<subseteq> set (st_outbox s1)" unfolding r using c by auto
  ultimately show ?thesis by (auto simp: locked_rows_def)
qed

text \<open>
  C22: outbox rows are handed out once (the transaction ids of the outbox are distinct and the lock
  duration is not negative). A claim that answers returns the oldest claimable rows, at most as many as
  asked for, none of them beyond its number of attempts, and marks them. After any sequence of further
  claims at times up to the end of their lock, of completions, of insertions and of failures reported
  for other rows, no claim up to that time returns one of them. A worker that reports a failure of one of
  these rows (\<open>MarkOutboxFailed\<close>, which looks at no lock) is not part of such a sequence: it gives the row back.
\<close>

theorem outbox_claim_exclusive:
  assumes "distinct (map o_TransactionID (st_outbox s))" "ClaimPendingOutboxEntries F now n d s = (s1, Inr es)"
    and "0 \<le> d" "(outbox_step (o_TransactionID ` set es) (now + d))\<^sup>*\<^sup>* s1 s2"
    and "now' \<le> now + d" "ClaimPendingOutboxEntries F' now' n' d' s2 = (s3, Inr es')"
  shows "map o_TransactionID es = take n (map o_TransactionID (filter (claimable now) (st_outbox s))) \<and>
    (\<forall>e \<in> set es. o_Status e = ''processing'' \<and> o_Attempts e < o_MaxAttempts e) \<and>
    o_TransactionID ` set es \<inter> o_TransactionID ` set es' = {}"
proof (intro conjI)
  let ?c = "take n (filter (claimable now) (st_outbox s))" and ?X = "o_TransactionID ` set es"
  note r = claimed_rows [OF assms(1,2)]
  show "map o_TransactionID es = take n (map o_TransactionID (filter (claimable now) (st_outbox s)))"
    by (simp add: r(1) take_map comp_def)
  show "\<forall>e \<in> set es. o_Status e = ''processing'' \<and> o_Attempts e < o_MaxAttempts e"
    unfolding r(1) by (auto simp: claim_def claimable_def dest!: in_set_takeD)
  have "locked_rows ?X (now + d) s2" using assms(4) claim_locks [OF assms(1,2)]
    by (induction rule: rtranclp_induct) (auto dest: outbox_step_locked)
  note free = locked_not_claimable [OF this assms(5), of n']
  have "o_TransactionID ` set es' \<subseteq> o_TransactionID ` set (take n' (filter (claimable now') (st_outbox s2)))"
    using assms(6) by (auto simp: ClaimPendingOutboxEntries_def Let_def split: if_splits)
  with free show "?X \<inter> o_TransactionID ` set es' = {}" by blast
qed

lemma claim_answers: "\<exists>s' es. ClaimPendingOutboxEntries (\<lambda>_. False) now n d s = (s', Inr es)"
  by (simp add: ClaimPendingOutboxEntries_def Let_def)

theorem outbox_claim_exclusive_witness:
  "\<exists>s1 es s2 s3 es'. ClaimPendingOutboxEntries (\<lambda>_. False) 50 1 30 (ex_fund_store\<lparr>st_outbox := [ex_outbox]\<rparr>) = (s1, Inr es) \<and>
     s2 = fst (MarkOutboxFailed (\<lambda>_. False) ''txn_2'' [] (fst (ClaimPendingOutboxEntries (\<lambda>_. False) 55 1 9 s1))) \<and>
     ClaimPendingOutboxEntries (\<lambda>_. False) 60 1 30 s2 = (s3, Inr es') \<and> map o_TransactionID es = [''txn_1''] \<and>
     o_TransactionID ` set es \<inter> o_TransactionID ` set es' = {}"
proof -
  let ?s = "ex_fund_store\<lparr>st_outbox := [ex_outbox]\<rparr>"
  obtain s1 es where 1: "ClaimPendingOutboxEntries (\<lambda>_. False) 50 1 30 ?s = (s1, Inr es)" using claim_answers by blast
  let ?m = "fst (ClaimPendingOutboxEntries (\<lambda>_. False) 55 1 9 s1)"
  let ?s2 = "fst (MarkOutboxFailed (\<lambda>_. False) ''txn_2'' [] ?m)"
  obtain s3 es' where 2: "ClaimPendingOutboxEntries (\<lambda>_. False) 60 1 30 ?s2 = (s3, Inr es')" using claim_answers by blast
  have c: "filter (claimable 50) (st_outbox ?s) = [ex_outbox]" "o_TransactionID ex_outbox = ''txn_1''" by (simp_all add: claimable_def ex_outbox_def)
  have h: "distinct (map o_TransactionID (st_outbox ?s))" "(0 :: int) \<le> 30" "(60 :: int) \<le> 50 + 30" by simp_all
  have ids: "o_TransactionID ` set es = {''txn_1''}" using claimed_rows(1) [OF h(1) 1] unfolding c(1) by (simp add: c(2) claim_def)
  have "(outbox_step (o_TransactionID ` set es) (50 + 30))\<^sup>*\<^sup>* s1 ?m" by (rule r_into_rtranclp, rule outbox_step.claim) simp
  also have "outbox_step (o_TransactionID ` set es) (50 + 30) ?m ?s2" by (rule outbox_step.failed) (simp add: ids)
  finally have "(outbox_step (o_TransactionID ` set es) (50 + 30))\<^sup>*\<^sup>* s1 ?s2" .
  note X = outbox_claim_exclusive [OF h(1) 1 h(2) this h(3) 2]
  then have A: "map o_TransactionID es = [''txn_1'']" unfolding c(1) by (simp add: c(2))
  from X have B: "o_TransactionID ` set es \<inter> o_TransactionID ` set es' = {}" by (elim conjE)
  show ?thesis by (intro exI conjI) (rule 1 refl 2 A B)+
qed

end
