(* ===== verification/Matching.thy ===== *)
theory Matching
  imports Lineage
begin

text \<open>
  The matching rules of reconciliation (\<open>reconciliation.go\<close>, \<open>model/reconciliation_model.go\<close>) and
  the queries that select candidates (\<open>database/transaction_criteria.go\<close>): validation of a rule,
  what it means for an external transaction to match an internal one or a group, and the bounds
  that narrow the candidates before the rules are tried. The Levenshtein distance of the external
  package is the argument \<open>lev\<close>. Strings are ASCII. A time is in nanoseconds.
\<close>

section \<open>Definitions\<close>

record MatchingCriteria =
  mc_Field :: string
  mc_Operator :: string
  mc_Value :: string
  mc_Pattern :: string
  mc_AllowableDrift :: float64

record MatchingRule =
  mr_RuleID :: string
  mr_CreatedAt :: int
  mr_UpdatedAt :: int
  mr_Name :: string
  mr_Description :: string
  mr_Criteria :: "MatchingCriteria list"

subsection \<open>Validation\<close>

fun contains :: "string list \<Rightarrow> string \<Rightarrow> bool" where
  "contains [] item \<longleftrightarrow> False"
| "contains (a # as) item \<longleftrightarrow> a = item \<or> contains as item"

definition validateOperator :: "string \<Rightarrow> unit res" where
  "validateOperator operator =
     (if contains [''equals'', ''greater_than'', ''less_than'', ''contains''] operator then Inr ()
      else Inl (Errorf ''invalid operator''))"

definition validateField :: "string \<Rightarrow> unit res" where
  "validateField field =
     (if contains [''amount'', ''date'', ''description'', ''reference'', ''currency''] field then Inr ()
      else Inl (Errorf ''invalid field''))"

definition validateDrift :: "MatchingCriteria \<Rightarrow> unit res" where
  "validateDrift c =
     (if mc_Operator c = ''equals'' then
        (if mc_Field c = ''amount'' then
           (if mc_AllowableDrift c < 0 \<or> 1 < mc_AllowableDrift c
            then Inl (Errorf ''drift for amount must be between 0 and 1 (fraction, e.g. 0.01 = 1%)'') else Inr ())
         else if mc_Field c = ''date'' then
           (if mc_AllowableDrift c < 0
            then Inl (Errorf ''drift for date must be non-negative (seconds)'') else Inr ())
         else Inr ())
      else Inr ())"

definition validateCriteria :: "MatchingCriteria \<Rightarrow> unit res" where
  "validateCriteria c =
     (if mc_Field c = [] \<or> mc_Operator c = [] then Inl (Errorf ''field and operator are required for each criteria'')
      else case validateOperator (mc_Operator c) of Inl e \<Rightarrow> Inl e
        | Inr _ \<Rightarrow> (case validateField (mc_Field c) of Inl e \<Rightarrow> Inl e | Inr _ \<Rightarrow> validateDrift c))"

definition validateRuleBasics :: "MatchingRule \<Rightarrow> unit res" where
  "validateRuleBasics rule =
     (if mr_Name rule = [] then Inl (Errorf ''rule name is required'')
      else if mr_Criteria rule = [] then Inl (Errorf ''at least one matching criteria is required'')
      else Inr ())"

fun validate_each :: "MatchingCriteria list \<Rightarrow> unit res" where
  "validate_each [] = Inr ()"
| "validate_each (c # cs) = (case validateCriteria c of Inl e \<Rightarrow> Inl e | Inr _ \<Rightarrow> validate_each cs)"

definition validateRule :: "MatchingRule \<Rightarrow> unit res" where
  "validateRule rule = (case validateRuleBasics rule of Inl e \<Rightarrow> Inl e | Inr _ \<Rightarrow> validate_each (mr_Criteria rule))"

subsection \<open>Strings\<close>

text \<open>\<open>strings.Split\<close> for a separator that is not empty, and \<open>strings.EqualFold\<close>.\<close>

fun str_split_from :: "string \<Rightarrow> string \<Rightarrow> string \<Rightarrow> string list" where
  "str_split_from sep acc [] = [acc]"
| "str_split_from sep acc (c # cs) =
     (if has_prefix (c # cs) sep then acc # str_split_from sep [] (drop (length sep - 1) cs)
      else str_split_from sep (acc @ [c]) cs)"

definition str_split :: "string \<Rightarrow> string \<Rightarrow> string list" where
  "str_split s sep = str_split_from sep [] s"

definition EqualFold :: "string \<Rightarrow> string \<Rightarrow> bool" where
  "EqualFold s t \<longleftrightarrow> to_lower s = to_lower t"

definition partialMatch :: "(string \<Rightarrow> string \<Rightarrow> int) \<Rightarrow> string \<Rightarrow> string \<Rightarrow> float64 \<Rightarrow> bool" where
  "partialMatch lev s1 s2 allowableDrift =
     (let str1 = to_lower s1; str2 = to_lower s2 in
      if str_contains str1 str2 \<or> str_contains str2 str1 then True
      else let distance = lev str1 str2;
               maxLength = rat_of_int (int (max (length str1) (length str2)));
               maxAllowedDistance = trunc (maxLength * (allowableDrift / 100))
           in distance \<le> maxAllowedDistance)"

definition matchesString :: "(string \<Rightarrow> string \<Rightarrow> int) \<Rightarrow> string \<Rightarrow> string \<Rightarrow> MatchingCriteria \<Rightarrow> bool" where
  "matchesString lev ext inner c =
     (if mc_Operator c = ''equals'' then list_ex (EqualFold ext) (str_split inner '' | '')
      else if mc_Operator c = ''contains''
        then list_ex (\<lambda>part. partialMatch lev ext part (mc_AllowableDrift c)) (str_split inner '' | '')
      else False)"

definition matchesCurrency :: "(string \<Rightarrow> string \<Rightarrow> int) \<Rightarrow> string \<Rightarrow> string \<Rightarrow> MatchingCriteria \<Rightarrow> bool" where
  "matchesCurrency lev ext inner c = (if inner = ''MIXED'' then True else matchesString lev ext inner c)"

subsection \<open>Amounts and dates\<close>

definition matchesGroupAmount :: "float64 \<Rightarrow> float64 \<Rightarrow> MatchingCriteria \<Rightarrow> bool" where
  "matchesGroupAmount ext grp c =
     (if mc_Operator c = ''equals'' then \<bar>ext - grp\<bar> \<le> \<bar>grp\<bar> * mc_AllowableDrift c
      else if mc_Operator c = ''greater_than'' then ext > grp
      else if mc_Operator c = ''less_than'' then ext < grp
      else False)"

text \<open>\<open>time.Time.Sub\<close> saturates at the ends of a 64-bit duration; \<open>Seconds\<close> divides.\<close>

definition time_Sub :: "int \<Rightarrow> int \<Rightarrow> int" where
  "time_Sub t u = max (- (2 ^ 63)) (min (2 ^ 63 - 1) (t - u))"

definition Seconds :: "int \<Rightarrow> float64" where
  "Seconds d = of_int d / 10 ^ 9"

definition matchesGroupDate :: "int \<Rightarrow> int \<Rightarrow> MatchingCriteria \<Rightarrow> bool" where
  "matchesGroupDate ext grp c =
     (if mc_Operator c = ''equals'' then \<bar>Seconds (time_Sub ext grp)\<bar> \<le> mc_AllowableDrift c
      else if mc_Operator c = ''after'' \<or> mc_Operator c = ''greater_than'' then ext > grp
      else if mc_Operator c = ''before'' \<or> mc_Operator c = ''less_than'' then ext < grp
      else False)"

subsection \<open>Rules\<close>

text \<open>One criterion; an unknown field is never met.\<close>

definition criterionMet ::
    "(string \<Rightarrow> string \<Rightarrow> int) \<Rightarrow> Transaction \<Rightarrow> Transaction \<Rightarrow> MatchingCriteria \<Rightarrow> bool" where
  "criterionMet lev ext grp c =
     (if mc_Field c = ''amount'' then matchesGroupAmount (t_Amount ext) (t_Amount grp) c
      else if mc_Field c = ''date'' then matchesGroupDate (t_CreatedAt ext) (t_CreatedAt grp) c
      else if mc_Field c = ''description'' then matchesString lev (t_Description ext) (t_Description grp) c
      else if mc_Field c = ''reference'' then matchesString lev (t_Reference ext) (t_Reference grp) c
      else if mc_Field c = ''currency'' then matchesCurrency lev (t_Currency ext) (t_Currency grp) c
      else False)"

definition matchesRules ::
    "(string \<Rightarrow> string \<Rightarrow> int) \<Rightarrow> Transaction \<Rightarrow> Transaction \<Rightarrow> MatchingRule list \<Rightarrow> bool" where
  "matchesRules lev ext grp rules = list_ex (\<lambda>rule. list_all (criterionMet lev ext grp) (mr_Criteria rule)) rules"

text \<open>A group as one virtual transaction: the total, the earliest date, the joined texts.\<close>

definition earliest :: "Transaction list \<Rightarrow> int" where
  "earliest ts = (case ts of [] \<Rightarrow> 0
     | t # us \<Rightarrow> fold (\<lambda>u d. if t_CreatedAt u < d then t_CreatedAt u else d) us (t_CreatedAt t))"

definition dominantCurrency :: "string list \<Rightarrow> string" where
  "dominantCurrency currencies = (case remdups currencies of [c] \<Rightarrow> c | _ \<Rightarrow> ''MIXED'')"

definition group_txn :: "Transaction list \<Rightarrow> Transaction" where
  "group_txn ts = zero_Transaction\<lparr>t_Amount := sum_list (map t_Amount ts), t_CreatedAt := earliest ts,
     t_Description := str_join '' | '' (map t_Description ts),
     t_Reference := str_join '' | '' (map t_Reference ts),
     t_Currency := dominantCurrency (map t_Currency ts)\<rparr>"

definition matchesGroup ::
    "(string \<Rightarrow> string \<Rightarrow> int) \<Rightarrow> Transaction \<Rightarrow> Transaction list \<Rightarrow> MatchingRule list \<Rightarrow> bool" where
  "matchesGroup lev ext grp rules = matchesRules lev ext (group_txn grp) rules"

subsection \<open>Bounds of the candidate query\<close>

definition widen :: "'a::linorder \<Rightarrow> 'a \<Rightarrow> ('a \<times> 'a) option \<Rightarrow> ('a \<times> 'a) option" where
  "widen low high b = (case b of None \<Rightarrow> Some (low, high)
     | Some (l, h) \<Rightarrow> Some (if low < l then low else l, if h < high then high else h))"

text \<open>64-bit wrap-around of a duration product.\<close>

definition wrap64 :: "int \<Rightarrow> int" where
  "wrap64 x = (x + 2 ^ 63) mod 2 ^ 64 - 2 ^ 63"

definition amount_bounds :: "Transaction \<Rightarrow> MatchingCriteria \<Rightarrow> (float64 \<times> float64) option \<Rightarrow> (float64 \<times> float64) option" where
  "amount_bounds ext c b =
     (if mc_Field c = ''amount'' \<and> mc_Operator c = ''equals'' then
        let drift = mc_AllowableDrift c; amt = t_Amount ext; delta = \<bar>amt\<bar> * drift
        in widen (amt - delta) (amt + delta) b
      else b)"

definition date_bounds :: "Transaction \<Rightarrow> MatchingCriteria \<Rightarrow> (int \<times> int) option \<Rightarrow> (int \<times> int) option" where
  "date_bounds ext c b =
     (if mc_Field c = ''date'' \<and> mc_Operator c = ''equals'' then
        let drift = wrap64 (trunc (mc_AllowableDrift c) * 10 ^ 9); d = t_CreatedAt ext
        in widen (d + wrap64 (- drift)) (d + drift) b
      else b)"

definition calculateMatchingBounds ::
    "Transaction \<Rightarrow> MatchingRule list
       \<Rightarrow> float64 option \<times> float64 option \<times> int option \<times> int option \<times> string option" where
  "calculateMatchingBounds ext rules =
     (let cs = concat (map mr_Criteria rules);
          a = fold (amount_bounds ext) cs None;
          d = fold (date_bounds ext) cs None
      in (map_option fst a, map_option snd a, map_option fst d, map_option snd d, Some (t_Currency ext)))"

text \<open>The row of a query that selects fifteen of the columns.\<close>

definition scan_row :: "Transaction \<Rightarrow> Transaction" where
  "scan_row t = zero_Transaction\<lparr>t_TransactionID := t_TransactionID t, t_ParentTransaction := t_ParentTransaction t,
     t_Source := t_Source t, t_Reference := t_Reference t, t_Amount := t_Amount t,
     t_PreciseAmount := t_PreciseAmount t, t_Precision := t_Precision t, t_Currency := t_Currency t,
     t_Destination := t_Destination t, t_Description := t_Description t, t_Status := t_Status t,
     t_CreatedAt := t_CreatedAt t, t_MetaData := t_MetaData t, t_ScheduledFor := t_ScheduledFor t,
     t_Hash := t_Hash t\<rparr>"

definition criteria_where ::
    "float64 option \<times> float64 option \<times> int option \<times> int option \<times> string option \<Rightarrow> Transaction \<Rightarrow> bool" where
  "criteria_where b t = (case b of (minAmount, maxAmount, minDate, maxDate, currency) \<Rightarrow>
     (case minAmount of None \<Rightarrow> True | Some l \<Rightarrow> l \<le> t_Amount t) \<and>
     (case maxAmount of None \<Rightarrow> True | Some h \<Rightarrow> t_Amount t \<le> h) \<and>
     (case currency of None \<Rightarrow> True | Some c \<Rightarrow> c = [] \<or> t_Currency t = c) \<and>
     (case minDate of None \<Rightarrow> True | Some l \<Rightarrow> l \<le> t_CreatedAt t) \<and>
     (case maxDate of None \<Rightarrow> True | Some h \<Rightarrow> t_CreatedAt t \<le> h))"

definition criteria_rows ::
    "float64 option \<times> float64 option \<times> int option \<times> int option \<times> string option \<Rightarrow> store \<Rightarrow> Transaction list" where
  "criteria_rows b s = map scan_row (sort_key t_CreatedAt (filter (criteria_where b) (st_transactions s)))"

definition GetTransactionsByCriteria ::
    "faults \<Rightarrow> float64 option \<times> float64 option \<times> int option \<times> int option \<times> string option \<Rightarrow> int \<Rightarrow> nat
       \<Rightarrow> store \<Rightarrow> Transaction list res" where
  "GetTransactionsByCriteria F b limit offset s =
     (if F (''GetTransactionsByCriteria:'' @ show_nat offset) \<or> limit < 0
      then Inl (internal ''Failed to retrieve transactions by criteria'')
      else Inr (take (nat limit) (drop offset (criteria_rows b s))))"

section \<open>Facts\<close>

subsection \<open>Joined texts\<close>

lemma split_from_free:
  assumes "CHR ''|'' \<notin> set p"
  shows "str_split_from '' | '' acc p = [acc @ p]"
  using assms
proof (induction p arbitrary: acc)
  case (Cons c p)
  have "\<not> has_prefix (c # p) '' | ''"
    using Cons.prems by (cases p; cases "tl p") (auto simp: has_prefix_def)
  then show ?case using Cons by simp
qed simp

lemma split_from_sep:
  assumes "CHR ''|'' \<notin> set p"
  shows "str_split_from '' | '' acc (p @ '' | '' @ s) = (acc @ p) # str_split_from '' | '' [] s"
  using assms
proof (induction p arbitrary: acc)
  case Nil
  then show ?case by (simp add: has_prefix_def)
next
  case (Cons c p)
  have "\<not> has_prefix (c # p @ '' | '' @ s) '' | ''"
    using Cons.prems by (cases p; cases "tl p") (auto simp: has_prefix_def)
  then show ?case using Cons by simp
qed

lemma split_join:
  assumes "ps \<noteq> []" "\<forall>p \<in> set ps. CHR ''|'' \<notin> set p"
  shows "str_split (str_join '' | '' ps) '' | '' = ps"
proof -
  have "str_split_from '' | '' acc (str_join '' | '' ps) = (acc @ hd ps) # tl ps" for acc
    using assms
  proof (induction ps arbitrary: acc)
    case (Cons p ps)
    then show ?case using split_from_sep [of p acc "str_join '' | '' ps"]
      by (cases ps) (auto simp: split_from_free)
  qed simp
  from this [of "[]"] assms(1) show ?thesis by (simp add: str_split_def)
qed

subsection \<open>Bounds\<close>

lemma fold_widen:
  assumes "c \<in> set cs" "P c"
  shows "\<exists>l h. fold (\<lambda>c b. if P c then widen (lo c) (hi c) b else b) cs b0 = Some (l, h) \<and> l \<le> lo c \<and> hi c \<le> h"
proof -
  let ?f = "\<lambda>c b. if P c then widen (lo c) (hi c) b else b"
  have grow: "\<exists>l' h'. fold ?f cs (Some (l, h)) = Some (l', h') \<and> l' \<le> l \<and> h \<le> h'" for cs l h
  proof (induction cs arbitrary: l h)
    case (Cons c cs)
    show ?case
    proof (cases "P c")
      case True
      from Cons [of "if lo c < l then lo c else l" "if h < hi c then hi c else h"] True
      show ?thesis by (fastforce simp: widen_def split: if_splits)
    qed (use Cons in simp)
  qed simp
  from assms show ?thesis
  proof (induction cs arbitrary: b0)
    case (Cons x cs)
    show ?case
    proof (cases "x = c")
      case True
      obtain l h where "widen (lo c) (hi c) b0 = Some (l, h)" "l \<le> lo c" "hi c \<le> h"
        by (cases b0) (auto simp: widen_def not_less)
      with grow [of cs l h] True Cons.prems(2) show ?thesis by fastforce
    next
      case False
      then show ?thesis using Cons by simp
    qed
  qed simp
qed

lemma fold_widen_none:
  "\<forall>c \<in> set cs. \<not> P c \<Longrightarrow> fold (\<lambda>c b. if P c then widen (lo c) (hi c) b else b) cs b0 = b0"
  by (induction cs) auto

abbreviation amount_equals :: "MatchingCriteria \<Rightarrow> bool" where
  "amount_equals c \<equiv> mc_Field c = ''amount'' \<and> mc_Operator c = ''equals''"

abbreviation date_equals :: "MatchingCriteria \<Rightarrow> bool" where
  "date_equals c \<equiv> mc_Field c = ''date'' \<and> mc_Operator c = ''equals''"

text \<open>The criteria of all rules.\<close>

abbreviation all_criteria :: "MatchingRule list \<Rightarrow> MatchingCriteria list" where
  "all_criteria rules \<equiv> concat (map mr_Criteria rules)"

lemma amount_bounds_widen:
  "amount_bounds e = (\<lambda>c b. if amount_equals c then
     widen (t_Amount e - \<bar>t_Amount e\<bar> * mc_AllowableDrift c) (t_Amount e + \<bar>t_Amount e\<bar> * mc_AllowableDrift c) b else b)"
  by (intro ext) (simp add: amount_bounds_def Let_def)

abbreviation drift_ns :: "MatchingCriteria \<Rightarrow> int" where
  "drift_ns c \<equiv> wrap64 (trunc (mc_AllowableDrift c) * 10 ^ 9)"

lemma date_bounds_widen:
  "date_bounds e = (\<lambda>c b. if date_equals c then
     widen (t_CreatedAt e + wrap64 (- drift_ns c)) (t_CreatedAt e + drift_ns c) b else b)"
  by (intro ext) (simp add: date_bounds_def Let_def)

lemma wrap64_id: "- (2 ^ 63) \<le> x \<Longrightarrow> x < 2 ^ 63 \<Longrightarrow> wrap64 x = x"
  by (simp add: wrap64_def)

text \<open>A drift of whole seconds that fits a duration becomes that many nanoseconds.\<close>

lemma drift_ns_whole:
  assumes "mc_AllowableDrift c = of_int k" "0 \<le> k" "k \<le> 9223372036"
  shows "drift_ns c = k * 10 ^ 9" "wrap64 (- drift_ns c) = - (k * 10 ^ 9)"
proof -
  have "trunc (mc_AllowableDrift c) = k" using assms by (simp add: trunc_def)
  then show "drift_ns c = k * 10 ^ 9" using assms by (simp add: wrap64_id)
  then show "wrap64 (- drift_ns c) = - (k * 10 ^ 9)" using assms by (simp add: wrap64_id)
qed

lemma date_close:
  assumes "\<bar>Seconds (time_Sub t u)\<bar> \<le> of_int k" "0 \<le> k" "k \<le> 9223372036"
  shows "\<bar>t - u\<bar> \<le> k * 10 ^ 9"
proof -
  have "of_int \<bar>time_Sub t u\<bar> \<le> (of_int (k * 10 ^ 9) :: rat)"
    using assms(1) by (simp add: Seconds_def field_simps)
  then have "\<bar>time_Sub t u\<bar> \<le> k * 10 ^ 9" using of_int_le_iff by blast
  then show ?thesis using assms(2,3) by (auto simp: time_Sub_def max_def min_def split: if_splits)
qed

subsection \<open>What a valid rule says\<close>

lemma validate_each_iff: "validate_each cs = Inr () \<longleftrightarrow> (\<forall>c \<in> set cs. validateCriteria c = Inr ())"
  by (induction cs) (auto split: sum.splits)

lemma validateRule_iff:
  "validateRule r = Inr () \<longleftrightarrow> mr_Name r \<noteq> [] \<and> mr_Criteria r \<noteq> [] \<and> (\<forall>c \<in> set (mr_Criteria r). validateCriteria c = Inr ())"
  by (simp add: validateRule_def validateRuleBasics_def validate_each_iff)

lemma valid_drift:
  assumes "validateRule r = Inr ()" "c \<in> set (mr_Criteria r)" "amount_equals c \<or> date_equals c"
  shows "0 \<le> mc_AllowableDrift c"
proof -
  have "validateCriteria c = Inr ()" using assms(1,2) by (simp add: validateRule_iff)
  then have "validateDrift c = Inr ()" by (auto simp: validateCriteria_def split: if_splits sum.splits)
  then show ?thesis using assms(3) by (auto simp: validateDrift_def split: if_splits)
qed

subsection \<open>What matching a group means\<close>

lemma earliest_Min:
  assumes "ts \<noteq> []"
  shows "earliest ts = Min (t_CreatedAt ` set ts)"
proof -
  obtain t us where ts: "ts = t # us" using assms by (cases ts) auto
  have f: "(\<lambda>u d. if t_CreatedAt u < d then t_CreatedAt u else d) = (\<lambda>u. min (t_CreatedAt u))"
    by (intro ext) (auto simp: min_def)
  have "earliest ts = fold min (map t_CreatedAt us) (t_CreatedAt t)" by (simp only: earliest_def ts list.case f fold_map o_def)
  also have "\<dots> = Min (set (t_CreatedAt t # map t_CreatedAt us))" by (rule Min.set_eq_fold [symmetric])
  finally show ?thesis by (simp add: ts)
qed

lemma group_text_equals:
  assumes "ts \<noteq> []" "\<forall>t \<in> set ts. CHR ''|'' \<notin> set (f t)" "mc_Operator c = ''equals''"
  shows "matchesString lev e (str_join '' | '' (map f ts)) c \<longleftrightarrow> (\<exists>t \<in> set ts. EqualFold e (f t))"
proof -
  have "str_split (str_join '' | '' (map f ts)) '' | '' = map f ts" using assms(1,2) by (intro split_join) auto
  then show ?thesis using assms(3) by (simp add: matchesString_def list_ex_iff)
qed

text \<open>
  Matching a group of internal transactions by the virtual transaction that stands for it. With
  an equality rule on the reference or the description, the group matches exactly when one of its
  members has that text, up to case, provided no text holds the separator; with a later-than rule on
  the date exactly when one member is older than the external transaction; with an equality rule
  on the amount exactly when the external amount is within the drift of the members' total.
\<close>

lemma group_match_meaning:
  assumes "ts \<noteq> []" "mc_AllowableDrift c = d"
    and "\<forall>t \<in> set ts. CHR ''|'' \<notin> set (t_Reference t) \<and> CHR ''|'' \<notin> set (t_Description t)"
  shows "(matchesGroup lev e ts [r\<lparr>mr_Criteria := [c\<lparr>mc_Field := ''reference'', mc_Operator := ''equals''\<rparr>]\<rparr>] \<longleftrightarrow>
      (\<exists>t \<in> set ts. EqualFold (t_Reference e) (t_Reference t))) \<and>
    (matchesGroup lev e ts [r\<lparr>mr_Criteria := [c\<lparr>mc_Field := ''description'', mc_Operator := ''equals''\<rparr>]\<rparr>] \<longleftrightarrow>
      (\<exists>t \<in> set ts. EqualFold (t_Description e) (t_Description t))) \<and>
    (matchesGroup lev e ts [r\<lparr>mr_Criteria := [c\<lparr>mc_Field := ''date'', mc_Operator := ''greater_than''\<rparr>]\<rparr>] \<longleftrightarrow>
      (\<exists>t \<in> set ts. t_CreatedAt t < t_CreatedAt e)) \<and>
    (matchesGroup lev e ts [r\<lparr>mr_Criteria := [c\<lparr>mc_Field := ''amount'', mc_Operator := ''equals''\<rparr>]\<rparr>] \<longleftrightarrow>
      \<bar>t_Amount e - sum_list (map t_Amount ts)\<bar> \<le> d * \<bar>sum_list (map t_Amount ts)\<bar>)"
  using assms
  by (simp add: matchesGroup_def matchesRules_def criterionMet_def group_txn_def group_text_equals
      matchesGroupDate_def earliest_Min Min_less_iff matchesGroupAmount_def mult.commute)

subsection \<open>Which matches the candidate query keeps\<close>

lemma amount_bounds_cover:
  assumes "c \<in> set cs" "amount_equals c"
  shows "\<exists>l h. fold (amount_bounds e) cs b = Some (l, h) \<and> l \<le> t_Amount e - \<bar>t_Amount e\<bar> * mc_AllowableDrift c \<and>
    t_Amount e + \<bar>t_Amount e\<bar> * mc_AllowableDrift c \<le> h"
  unfolding amount_bounds_widen by (rule fold_widen [where P = amount_equals, OF assms])

lemma date_bounds_cover:
  assumes "c \<in> set cs" "date_equals c"
  shows "\<exists>l h. fold (date_bounds e) cs b = Some (l, h) \<and> l \<le> t_CreatedAt e + wrap64 (- drift_ns c) \<and>
    t_CreatedAt e + drift_ns c \<le> h"
  unfolding date_bounds_widen by (rule fold_widen [where P = date_equals, OF assms])

text \<open>
  C21: The bounds of the candidate query lose no match, as long as the matching pair agrees on the
  currency, either no rule or every rule compares amounts (dates) by equality, the internal amount is
  not larger than the external one, and date drifts are whole seconds that fit a duration: every
  ledger row that the rules match is among the rows the query selects.
\<close>

theorem candidates_complete:
  assumes M: "matchesRules lev e g rules" and V: "\<forall>r \<in> set rules. validateRule r = Inr ()"
    and cur: "t_Currency e \<in> {[], t_Currency g}"
    and am: "\<forall>c \<in> set (all_criteria rules). amount_equals c \<longrightarrow>
        (\<forall>r \<in> set rules. list_ex amount_equals (mr_Criteria r)) \<and> \<bar>t_Amount g\<bar> \<le> \<bar>t_Amount e\<bar>"
    and dt: "\<forall>c \<in> set (all_criteria rules). date_equals c \<longrightarrow>
        (\<forall>r \<in> set rules. list_ex date_equals (mr_Criteria r)) \<and>
        mc_AllowableDrift c = of_int \<lfloor>mc_AllowableDrift c\<rfloor> \<and> mc_AllowableDrift c \<le> 9223372036"
    and g: "g \<in> set (st_transactions s)"
  shows "scan_row g \<in> set (criteria_rows (calculateMatchingBounds e rules) s)"
proof -
  obtain r where r: "r \<in> set rules" "\<forall>c \<in> set (mr_Criteria r). criterionMet lev e g c"
    using M by (auto simp: matchesRules_def list_ex_iff list_all_iff)
  note vd = valid_drift [OF bspec [OF V r(1)]]
  let ?cs = "all_criteria rules"
  have A: "case fold (amount_bounds e) ?cs None of None \<Rightarrow> True | Some (l, h) \<Rightarrow> l \<le> t_Amount g \<and> t_Amount g \<le> h"
  proof (cases "\<exists>c \<in> set ?cs. amount_equals c")
    case False
    then show ?thesis by (simp only: amount_bounds_widen) (subst fold_widen_none; auto)
  next
    case True
    then obtain c where c: "c \<in> set (mr_Criteria r)" "amount_equals c" and le: "\<bar>t_Amount g\<bar> \<le> \<bar>t_Amount e\<bar>"
      using am r(1) by (auto simp: list_ex_iff)
    have "\<bar>t_Amount e - t_Amount g\<bar> \<le> \<bar>t_Amount g\<bar> * mc_AllowableDrift c"
      using r(2) c by (auto simp: criterionMet_def matchesGroupAmount_def dest!: bspec)
    also have "\<dots> \<le> \<bar>t_Amount e\<bar> * mc_AllowableDrift c" using vd [of c] c le by (intro mult_right_mono) auto
    finally have "\<bar>t_Amount e - t_Amount g\<bar> \<le> \<bar>t_Amount e\<bar> * mc_AllowableDrift c" .
    moreover have "c \<in> set ?cs" using c r(1) by auto
    from amount_bounds_cover [OF this c(2)] obtain l h where "fold (amount_bounds e) ?cs None = Some (l, h)"
      "l \<le> t_Amount e - \<bar>t_Amount e\<bar> * mc_AllowableDrift c" "t_Amount e + \<bar>t_Amount e\<bar> * mc_AllowableDrift c \<le> h" by blast
    ultimately show ?thesis by (simp add: abs_le_iff)
  qed
  have D: "case fold (date_bounds e) ?cs None of None \<Rightarrow> True | Some (l, h) \<Rightarrow> l \<le> t_CreatedAt g \<and> t_CreatedAt g \<le> h"
  proof (cases "\<exists>c \<in> set ?cs. date_equals c")
    case False
    then show ?thesis by (simp only: date_bounds_widen) (subst fold_widen_none; auto)
  next
    case True
    then obtain c0 where c0: "c0 \<in> set ?cs" "date_equals c0" by blast
    have "list_ex date_equals (mr_Criteria r)" using dt [rule_format, OF c0] r(1) by simp
    then obtain c where c: "c \<in> set (mr_Criteria r)" "date_equals c" unfolding list_ex_iff by blast
    then have cs: "c \<in> set ?cs" using r(1) by auto
    define k where "k = \<lfloor>mc_AllowableDrift c\<rfloor>"
    have k: "mc_AllowableDrift c = of_int k" "0 \<le> k" "k \<le> 9223372036"
      using dt [rule_format, OF cs c(2)] vd [of c] c by (simp_all add: k_def le_floor_iff floor_le_iff)
    have "\<bar>Seconds (time_Sub (t_CreatedAt e) (t_CreatedAt g))\<bar> \<le> of_int k"
      using r(2) c k(1) by (auto simp: criterionMet_def matchesGroupDate_def dest!: bspec)
    from date_close [OF this k(2,3)] have "\<bar>t_CreatedAt e - t_CreatedAt g\<bar> \<le> k * 10 ^ 9" .
    moreover from date_bounds_cover [OF cs c(2)] obtain l h where "fold (date_bounds e) ?cs None = Some (l, h)"
      "l \<le> t_CreatedAt e + wrap64 (- drift_ns c)" "t_CreatedAt e + drift_ns c \<le> h" by blast
    ultimately show ?thesis using drift_ns_whole [OF k] by (simp add: abs_le_iff)
  qed
  have "criteria_where (calculateMatchingBounds e rules) g"
    using A D cur by (auto simp: criteria_where_def calculateMatchingBounds_def Let_def split: option.splits prod.splits)
  then show ?thesis using g by (simp add: criteria_rows_def)
qed

text \<open>
  The conditions are needed. Internal 100 matches external 95 with a drift of five percent of the
  internal amount, but the query looks within five percent of the external amount; a rule without
  an amount criterion is narrowed by the amounts of another rule; currencies match up to case by the
  rule and exactly by the query; half a second of drift is cut to none.
\<close>

definition crit :: "string \<Rightarrow> string \<Rightarrow> float64 \<Rightarrow> MatchingCriteria" where
  "crit f op d = \<lparr>mc_Field = f, mc_Operator = op, mc_Value = [], mc_Pattern = [], mc_AllowableDrift = d\<rparr>"

definition rule_of :: "MatchingCriteria list \<Rightarrow> MatchingRule" where
  "rule_of cs = \<lparr>mr_RuleID = ''rule_1'', mr_CreatedAt = 0, mr_UpdatedAt = 0, mr_Name = ''rule'', mr_Description = [], mr_Criteria = cs\<rparr>"

definition priced :: "float64 \<Rightarrow> string \<Rightarrow> int \<Rightarrow> Transaction" where
  "priced a c d = zero_Transaction\<lparr>t_Amount := a, t_Currency := c, t_CreatedAt := d, t_Reference := ''r''\<rparr>"

lemmas examples = crit_def rule_of_def priced_def zero_Transaction_def

lemma match_lost_amount:
  fixes rules defines "rules \<equiv> [rule_of [crit ''amount'' ''equals'' (1 / 20)]]"
  shows "validateRule (hd rules) = Inr ()" "matchesRules lev (priced 95 ''USD'' 0) (priced 100 ''USD'' 0) rules"
    "\<not> criteria_where (calculateMatchingBounds (priced 95 ''USD'' 0) rules) (priced 100 ''USD'' 0)"
  by (simp_all add: rules_def examples matchesRules_def criterionMet_def matchesGroupAmount_def
      validateRule_iff validateCriteria_def validateOperator_def validateField_def validateDrift_def
      criteria_where_def calculateMatchingBounds_def amount_bounds_def date_bounds_def widen_def)

lemma match_lost_other_rule:
  fixes rules defines "rules \<equiv> [rule_of [crit ''amount'' ''equals'' 0], rule_of [crit ''reference'' ''equals'' 0]]"
  shows "matchesRules lev (priced 95 ''USD'' 0) (priced 100 ''USD'' 0) rules"
    "\<not> criteria_where (calculateMatchingBounds (priced 95 ''USD'' 0) rules) (priced 100 ''USD'' 0)"
  by (simp_all add: rules_def examples matchesRules_def criterionMet_def matchesGroupAmount_def matchesString_def
      str_split_def has_prefix_def EqualFold_def
      criteria_where_def calculateMatchingBounds_def amount_bounds_def date_bounds_def widen_def)

lemma match_lost_currency:
  fixes rules defines "rules \<equiv> [rule_of [crit ''currency'' ''equals'' 0]]"
  shows "matchesRules lev (priced 95 ''usd'' 0) (priced 100 ''USD'' 0) rules"
    "\<not> criteria_where (calculateMatchingBounds (priced 95 ''usd'' 0) rules) (priced 100 ''USD'' 0)"
proof -
  have "EqualFold ''usd'' ''USD''" by code_simp
  then show "matchesRules lev (priced 95 ''usd'' 0) (priced 100 ''USD'' 0) rules"
    by (simp add: rules_def examples matchesRules_def criterionMet_def matchesCurrency_def matchesString_def str_split_def has_prefix_def)
qed (simp add: rules_def examples criteria_where_def calculateMatchingBounds_def amount_bounds_def date_bounds_def)

lemma match_lost_date:
  fixes rules defines "rules \<equiv> [rule_of [crit ''date'' ''equals'' (1 / 2)]]"
  shows "matchesRules lev (priced 1 ''USD'' 500000000) (priced 1 ''USD'' 0) rules"
    "\<not> criteria_where (calculateMatchingBounds (priced 1 ''USD'' 500000000) rules) (priced 1 ''USD'' 0)"
proof -
  have "trunc (1 / 2) = 0" by (simp add: trunc_def floor_eq_iff)
  then show "\<not> criteria_where (calculateMatchingBounds (priced 1 ''USD'' 500000000) rules) (priced 1 ''USD'' 0)"
    by (simp add: rules_def examples criteria_where_def calculateMatchingBounds_def amount_bounds_def date_bounds_def widen_def wrap64_def)
qed (simp add: rules_def examples matchesRules_def criterionMet_def matchesGroupDate_def Seconds_def time_Sub_def)

text \<open>A text that holds the separator does not even equal itself, and an empty text is contained in every text.\<close>

lemma separator_breaks_equality: "\<not> matchesString lev ''a | b'' ''a | b'' (crit ''reference'' ''equals'' 0)"
  by (simp add: matchesString_def crit_def str_split_def has_prefix_def EqualFold_def to_lower_def)

lemma empty_contained: "partialMatch lev [] s d" "partialMatch lev s [] d"
  by (simp_all add: partialMatch_def to_lower_def)

definition one_row :: store where
  "one_row = \<lparr>st_balances = [], st_transactions = [priced 100 ''USD'' 0], st_outbox = [], st_ledgers = []\<rparr>"

theorem candidates_complete_witness:
  "scan_row (priced 100 ''USD'' 0) \<in> set (criteria_rows (calculateMatchingBounds (priced 105 ''USD'' 1000000000)
     [rule_of [crit ''amount'' ''equals'' (1 / 20), crit ''date'' ''equals'' 2]]) one_row)"
proof (rule candidates_complete [where lev = "\<lambda>_ _. 9"])
  show "matchesRules (\<lambda>_ _. 9) (priced 105 ''USD'' 1000000000) (priced 100 ''USD'' 0)
     [rule_of [crit ''amount'' ''equals'' (1 / 20), crit ''date'' ''equals'' 2]]"
    by (simp add: examples matchesRules_def criterionMet_def matchesGroupAmount_def matchesGroupDate_def Seconds_def time_Sub_def)
qed (simp_all add: examples one_row_def validateRule_iff validateCriteria_def validateOperator_def validateField_def validateDrift_def)

end
