(* ===== verification/Reconciling.thy ===== *)
theory Reconciling
  imports Matching Refunds "HOL-Library.Multiset"
begin

text \<open>
  Reconciliation (\<open>reconciliation.go\<close>, \<open>database/reconciliation.go\<close>,
  \<open>database/transaction_grouping.go\<close>): external transactions are uploaded, an asynchronous run
  matches them one to one, one to many or many to one against the ledger, and records matches,
  unmatched ids, progress and the final counts. The run is a function of the tables; \<open>None\<close> means
  that it never returns (blocked on a full channel) or that the process dies (a send on a closed
  channel, a division by zero). Each job of the outer worker pool is handled as a whole, in the
  order of the job channel. What the schedule decides inside a job is an argument: the iteration
  order of a map, whether a goroutine has claimed its group before the loop looks, how a failed
  page races with the workers. Channels deliver in the order of the model, so results are meant up
  to their order. Logging, tracing and search indexing are left out.
\<close>

section \<open>Definitions\<close>

record Match =
  mt_ExternalTransactionID :: string
  mt_InternalTransactionID :: string
  mt_ReconciliationID :: string
  mt_Amount :: float64
  mt_Date :: int

record Reconciliation =
  rn_ReconciliationID :: string
  rn_UploadID :: string
  rn_Status :: string
  rn_MatchedTransactions :: int
  rn_UnmatchedTransactions :: int
  rn_IsDryRun :: bool
  rn_StartedAt :: int
  rn_CompletedAt :: "int option"

record ReconciliationProgress =
  rp_LastProcessedExternalTxnID :: string
  rp_ProcessedCount :: int

type_synonym groups = "(string \<times> Transaction list) list"
type_synonym 'a cache = "string \<rightharpoonup> int \<times> 'a"

text \<open>The ledger, the tables of reconciliation and the cached pages with their expiry times.\<close>

record recon =
  rc_store :: store
  rc_reconciliations :: "Reconciliation list"
  rc_matches :: "Match list"
  rc_unmatched :: "(string \<times> string \<times> int) list"
  rc_external :: "(string \<times> ExternalTransaction) list"
  rc_progress :: "string \<rightharpoonup> ReconciliationProgress"
  rc_rules :: "MatchingRule list"
  rc_extpages :: "ExternalTransaction list cache"
  rc_txnpages :: "Transaction list cache"
  rc_groups :: "groups cache"

text \<open>
  The surroundings of a run: failures, the clock and its RFC 3339 text, the configuration, the
  iteration order of maps, PostgreSQL's text of numbers and times and its collation key. \<open>rv_raced\<close>
  tells whether the workers of a batch finish before the loop looks at the group map; \<open>rv_seen\<close>
  whether a failed page is seen before the workers are done, and how many of their matches are sent
  before the channel is closed; \<open>rv_fetch_seen\<close> the same for the outer loop.
\<close>

record recon_env =
  rv_F :: faults
  rv_now :: int
  rv_stamp :: string
  rv_lev :: "string \<Rightarrow> string \<Rightarrow> int"
  rv_BatchSize :: int
  rv_MaxWorkers :: int
  rv_ProgressInterval :: int
  rv_keys :: "string list \<Rightarrow> string list"
  rv_numeric_text :: "rat \<Rightarrow> string"
  rv_time_text :: "int \<Rightarrow> string"
  rv_collate :: "string \<Rightarrow> string"
  rv_raced :: "Transaction list \<Rightarrow> nat \<Rightarrow> bool"
  rv_seen :: "string \<Rightarrow> nat option"
  rv_fetch_seen :: bool

abbreviation StatusStarted :: string where "StatusStarted \<equiv> ''started''"
abbreviation StatusInProgress :: string where "StatusInProgress \<equiv> ''in_progress''"
abbreviation StatusCompleted :: string where "StatusCompleted \<equiv> ''completed''"
abbreviation StatusFailed :: string where "StatusFailed \<equiv> ''failed''"

subsection \<open>Tables\<close>

text \<open>The table has no column for the dry-run flag.\<close>

definition RecordReconciliation :: "faults \<Rightarrow> Reconciliation \<Rightarrow> recon \<Rightarrow> recon \<times> unit res" where
  "RecordReconciliation F rec s =
     (if F ''RecordReconciliation'' \<or> 50 < length (rn_Status rec) then (s, Inl (internal ''Failed to record reconciliation''))
      else (s\<lparr>rc_reconciliations := rc_reconciliations s @ [rec\<lparr>rn_IsDryRun := False\<rparr>]\<rparr>, Inr ()))"

definition GetReconciliation_db :: "faults \<Rightarrow> string \<Rightarrow> recon \<Rightarrow> Reconciliation res" where
  "GetReconciliation_db F rid s =
     (if F ''GetReconciliation'' then Inl (internal ''Failed to retrieve reconciliation'')
      else case find_row rn_ReconciliationID rid (rc_reconciliations s) of
             None \<Rightarrow> Inl (APIError ErrNotFound (''Reconciliation with ID '' @ quoted rid @ '' not found''))
           | Some rec \<Rightarrow> Inr rec)"

definition UpdateReconciliationStatus ::
    "faults \<Rightarrow> int \<Rightarrow> string \<Rightarrow> string \<Rightarrow> int \<Rightarrow> int \<Rightarrow> recon \<Rightarrow> recon \<times> unit res" where
  "UpdateReconciliationStatus F now rid status matchedCount unmatchedCount s =
     (let completedAt = (if status = StatusCompleted then Some now else None) in
      if F (''UpdateReconciliationStatus:'' @ status) then (s, Inl (internal ''Failed to update reconciliation status''))
      else if rid \<notin> rn_ReconciliationID ` set (rc_reconciliations s)
        then (s, Inl (APIError ErrNotFound (''Reconciliation with ID '' @ quoted rid @ '' not found'')))
      else (s\<lparr>rc_reconciliations := map (\<lambda>r. if rn_ReconciliationID r = rid
               then r\<lparr>rn_Status := status, rn_MatchedTransactions := matchedCount,
                      rn_UnmatchedTransactions := unmatchedCount, rn_CompletedAt := completedAt\<rparr> else r)
               (rc_reconciliations s)\<rparr>, Inr ()))"

definition GetReconciliationsByUploadID :: "faults \<Rightarrow> string \<Rightarrow> recon \<Rightarrow> Reconciliation list res" where
  "GetReconciliationsByUploadID F upload s =
     (if F ''GetReconciliationsByUploadID'' then Inl (internal ''Failed to retrieve reconciliations'')
      else Inr (sort_key (\<lambda>r. - rn_StartedAt r) (filter (\<lambda>r. rn_UploadID r = upload) (rc_reconciliations s))))"

text \<open>The column \<open>matches.amount\<close> is \<open>NUMERIC(12, 2)\<close>: rounded to cents, refused from ten digits on.\<close>

definition numeric_12_2 :: "rat \<Rightarrow> rat option" where
  "numeric_12_2 x = (let c = round_half_away (x * 100) in if 10 ^ 12 \<le> \<bar>c\<bar> then None else Some (of_int c / 100))"

definition recordMatchInTransaction :: "faults \<Rightarrow> Match \<Rightarrow> Match list \<Rightarrow> Match list res" where
  "recordMatchInTransaction F m rows =
     (if F (''recordMatch:'' @ mt_ExternalTransactionID m) then Inl (internal ''Failed to record match'')
      else case numeric_12_2 (mt_Amount m) of
             None \<Rightarrow> Inl (internal ''Failed to record match'')
           | Some a \<Rightarrow> Inr (rows @ [m\<lparr>mt_Amount := a\<rparr>]))"

fun record_each_match :: "faults \<Rightarrow> string \<Rightarrow> Match list \<Rightarrow> Match list \<Rightarrow> Match list res" where
  "record_each_match F rid [] rows = Inr rows"
| "record_each_match F rid (m # ms) rows =
     (case recordMatchInTransaction F (m\<lparr>mt_ReconciliationID := rid\<rparr>) rows of Inl e \<Rightarrow> Inl e
      | Inr rows' \<Rightarrow> record_each_match F rid ms rows')"

definition RecordMatches :: "faults \<Rightarrow> string \<Rightarrow> Match list \<Rightarrow> recon \<Rightarrow> recon \<times> unit res" where
  "RecordMatches F rid ms s =
     (if F ''RecordMatches:begin'' then (s, Inl (internal ''Failed to start transaction''))
      else case record_each_match F rid ms (rc_matches s) of
             Inl e \<Rightarrow> (s, Inl e)
           | Inr rows \<Rightarrow>
               if F ''RecordMatches:commit'' then (s, Inl (internal ''Failed to commit transaction''))
               else (s\<lparr>rc_matches := rows\<rparr>, Inr ()))"

definition RecordMatch :: "faults \<Rightarrow> Match \<Rightarrow> recon \<Rightarrow> recon \<times> unit res" where
  "RecordMatch F m s =
     (case recordMatchInTransaction F m (rc_matches s) of Inl e \<Rightarrow> (s, Inl e)
      | Inr rows \<Rightarrow> (s\<lparr>rc_matches := rows\<rparr>, Inr ()))"

definition RecordUnmatched :: "faults \<Rightarrow> int \<Rightarrow> string \<Rightarrow> string list \<Rightarrow> recon \<Rightarrow> recon \<times> unit res" where
  "RecordUnmatched F now rid ids s =
     (if F ''RecordUnmatched:begin'' then (s, Inl (internal ''Failed to start transaction''))
      else if list_ex (\<lambda>i. F (''RecordUnmatched:'' @ i)) ids then (s, Inl (internal ''Failed to record unmatched match''))
      else if F ''RecordUnmatched:commit'' then (s, Inl (internal ''Failed to commit transaction''))
      else (s\<lparr>rc_unmatched := rc_unmatched s @ map (\<lambda>i. (i, rid, now)) ids\<rparr>, Inr ()))"

text \<open>
  \<open>blnk.external_transactions\<close> has the columns of the insertion below. These two queries name a
  column \<open>reconciliation_id\<close> that no migration adds, so PostgreSQL refuses them.
\<close>

definition GetMatchesByReconciliationID :: "string \<Rightarrow> recon \<Rightarrow> Match list res" where
  "GetMatchesByReconciliationID rid s = Inl (internal ''Failed to retrieve matches'')"

definition GetExternalTransactionsByReconciliationID :: "string \<Rightarrow> recon \<Rightarrow> ExternalTransaction list res" where
  "GetExternalTransactionsByReconciliationID rid s = Inl (internal ''Failed to retrieve external transactions'')"

definition RecordExternalTransaction :: "faults \<Rightarrow> ExternalTransaction \<Rightarrow> string \<Rightarrow> recon \<Rightarrow> recon \<times> unit res" where
  "RecordExternalTransaction F x upload s =
     (if F (''RecordExternalTransaction:'' @ x_ID x) \<or> x_ID x \<in> (x_ID \<circ> snd) ` set (rc_external s) \<or>
         255 < length (x_Reference x) \<or> 255 < length (x_Source x)
      then (s, Inl (internal ''Failed to record external transaction''))
      else (s\<lparr>rc_external := rc_external s @ [(upload, x)]\<rparr>, Inr ()))"

definition SaveReconciliationProgress :: "faults \<Rightarrow> string \<Rightarrow> ReconciliationProgress \<Rightarrow> recon \<Rightarrow> recon \<times> unit res" where
  "SaveReconciliationProgress F rid p s =
     (if F ''SaveReconciliationProgress'' then (s, Inl (internal ''Failed to save reconciliation progress''))
      else (s\<lparr>rc_progress := (rc_progress s)(rid \<mapsto> p)\<rparr>, Inr ()))"

definition empty_progress :: ReconciliationProgress where
  "empty_progress = \<lparr>rp_LastProcessedExternalTxnID = [], rp_ProcessedCount = 0\<rparr>"

definition LoadReconciliationProgress :: "faults \<Rightarrow> string \<Rightarrow> recon \<Rightarrow> ReconciliationProgress res" where
  "LoadReconciliationProgress F rid s =
     (if F ''LoadReconciliationProgress'' then Inl (internal ''Failed to load reconciliation progress'')
      else Inr (case rc_progress s rid of None \<Rightarrow> empty_progress | Some p \<Rightarrow> p))"

subsection \<open>The table of rules\<close>

definition RecordMatchingRule :: "faults \<Rightarrow> MatchingRule \<Rightarrow> recon \<Rightarrow> recon \<times> unit res" where
  "RecordMatchingRule F rule s =
     (if F ''RecordMatchingRule'' \<or> 255 < length (mr_Name rule) then (s, Inl (internal ''Failed to record matching rule''))
      else (s\<lparr>rc_rules := rc_rules s @ [rule]\<rparr>, Inr ()))"

definition GetMatchingRules :: "faults \<Rightarrow> recon \<Rightarrow> MatchingRule list res" where
  "GetMatchingRules F s =
     (if F ''GetMatchingRules'' then Inl (internal ''Failed to retrieve matching rules'') else Inr (rc_rules s))"

definition no_rule :: "string \<Rightarrow> error" where
  "no_rule rid = APIError ErrNotFound (''Matching rule with ID '' @ quoted rid @ '' not found'')"

text \<open>The statement sets name, description and criteria.\<close>

definition UpdateMatchingRule_db :: "faults \<Rightarrow> MatchingRule \<Rightarrow> recon \<Rightarrow> recon \<times> unit res" where
  "UpdateMatchingRule_db F rule s =
     (if F ''UpdateMatchingRule'' \<or> 255 < length (mr_Name rule) then (s, Inl (internal ''Failed to update matching rule''))
      else if mr_RuleID rule \<notin> mr_RuleID ` set (rc_rules s) then (s, Inl (no_rule (mr_RuleID rule)))
      else (s\<lparr>rc_rules := map (\<lambda>r. if mr_RuleID r = mr_RuleID rule
               then r\<lparr>mr_Name := mr_Name rule, mr_Description := mr_Description rule, mr_Criteria := mr_Criteria rule\<rparr>
               else r) (rc_rules s)\<rparr>, Inr ()))"

definition DeleteMatchingRule :: "faults \<Rightarrow> string \<Rightarrow> recon \<Rightarrow> recon \<times> unit res" where
  "DeleteMatchingRule F rid s =
     (if F ''DeleteMatchingRule'' then (s, Inl (internal ''Failed to delete matching rule''))
      else if rid \<notin> mr_RuleID ` set (rc_rules s) then (s, Inl (no_rule rid))
      else (s\<lparr>rc_rules := filter (\<lambda>r. mr_RuleID r \<noteq> rid) (rc_rules s)\<rparr>, Inr ()))"

definition GetMatchingRule :: "faults \<Rightarrow> string \<Rightarrow> recon \<Rightarrow> MatchingRule res" where
  "GetMatchingRule F rid s =
     (if F ''GetMatchingRule'' then Inl (internal ''Failed to retrieve matching rule'')
      else case find_row mr_RuleID rid (rc_rules s) of None \<Rightarrow> Inl (no_rule rid) | Some rule \<Rightarrow> Inr rule)"

definition CreateMatchingRule :: "faults \<Rightarrow> string \<Rightarrow> int \<Rightarrow> MatchingRule \<Rightarrow> recon \<Rightarrow> recon \<times> MatchingRule res" where
  "CreateMatchingRule F fresh now rule0 s =
     (let rule = rule0\<lparr>mr_RuleID := fresh, mr_CreatedAt := now, mr_UpdatedAt := now\<rparr> in
      case validateRule rule of Inl e \<Rightarrow> (s, Inl e)
      | Inr _ \<Rightarrow> (case RecordMatchingRule F rule s of (s', Inl e) \<Rightarrow> (s', Inl e) | (s', Inr _) \<Rightarrow> (s', Inr rule)))"

definition UpdateMatchingRule :: "faults \<Rightarrow> int \<Rightarrow> MatchingRule \<Rightarrow> recon \<Rightarrow> recon \<times> MatchingRule res" where
  "UpdateMatchingRule F now rule0 s =
     (case GetMatchingRule F (mr_RuleID rule0) s of Inl e \<Rightarrow> (s, Inl e)
      | Inr existing \<Rightarrow>
          (let rule = rule0\<lparr>mr_CreatedAt := mr_CreatedAt existing, mr_UpdatedAt := now\<rparr> in
           case validateRule rule of Inl e \<Rightarrow> (s, Inl e)
           | Inr _ \<Rightarrow> (case UpdateMatchingRule_db F rule s of (s', Inl e) \<Rightarrow> (s', Inl e) | (s', Inr _) \<Rightarrow> (s', Inr rule))))"

fun getMatchingRules :: "faults \<Rightarrow> string list \<Rightarrow> recon \<Rightarrow> MatchingRule list res" where
  "getMatchingRules F [] s = Inr []"
| "getMatchingRules F (rid # ids) s =
     (case GetMatchingRule F rid s of Inl e \<Rightarrow> Inl e
      | Inr rule \<Rightarrow> (case getMatchingRules F ids s of Inl e \<Rightarrow> Inl e | Inr rules \<Rightarrow> Inr (rule # rules)))"

subsection \<open>Pages and groups\<close>

definition cache_get :: "faults \<Rightarrow> int \<Rightarrow> 'a cache \<Rightarrow> string \<Rightarrow> 'a option" where
  "cache_get F now c key =
     (if F ''Cache.Get'' then None
      else case c key of None \<Rightarrow> None | Some (expires, v) \<Rightarrow> if now < expires then Some v else None)"

definition cache_set :: "faults \<Rightarrow> int \<Rightarrow> int \<Rightarrow> string \<Rightarrow> 'a \<Rightarrow> 'a cache \<Rightarrow> 'a cache" where
  "cache_set F now ttl key v c = (if F ''Cache.Set'' then c else c(key \<mapsto> (now + ttl, v)))"

definition Minute :: int where "Minute = 60 * 10 ^ 9"

definition page_key :: "string \<Rightarrow> int \<Rightarrow> nat \<Rightarrow> string" where
  "page_key prefix batchSize offset = prefix @ show_int batchSize @ '':'' @ show_nat offset"

definition external_rows :: "string \<Rightarrow> recon \<Rightarrow> ExternalTransaction list" where
  "external_rows upload s = sort_key (\<lambda>x. - x_Date x) (map snd (filter (\<lambda>r. fst r = upload) (rc_external s)))"

definition GetExternalTransactionsPaginated ::
    "recon_env \<Rightarrow> string \<Rightarrow> int \<Rightarrow> nat \<Rightarrow> recon \<Rightarrow> recon \<times> ExternalTransaction list res" where
  "GetExternalTransactionsPaginated R upload batchSize offset s =
     (let key = page_key ''transactions:external:paginated:'' batchSize offset;
          query = (if rv_F R (''GetExternalTransactionsPaginated:'' @ show_nat offset) \<or> batchSize < 0
                   then (s, Inl (internal ''Failed to retrieve external transactions''))
                   else let page = take (nat batchSize) (drop offset (external_rows upload s))
                        in (if page = [] then s
                            else s\<lparr>rc_extpages := cache_set (rv_F R) (rv_now R) (5 * Minute) key page (rc_extpages s)\<rparr>, Inr page))
      in case cache_get (rv_F R) (rv_now R) (rc_extpages s) key of
           Some page \<Rightarrow> if page \<noteq> [] then (s, Inr page) else query
         | None \<Rightarrow> query)"

definition getExternalTransactionsPaginated ::
    "recon_env \<Rightarrow> string \<Rightarrow> int \<Rightarrow> nat \<Rightarrow> recon \<Rightarrow> recon \<times> Transaction list res" where
  "getExternalTransactionsPaginated R upload limit offset s =
     (case GetExternalTransactionsPaginated R upload limit offset s of
        (s', Inl e) \<Rightarrow> (s', Inl e) | (s', Inr page) \<Rightarrow> (s', Inr (map ToInternalTransaction page)))"

definition GetTransactionsPaginated :: "recon_env \<Rightarrow> int \<Rightarrow> nat \<Rightarrow> recon \<Rightarrow> recon \<times> Transaction list res" where
  "GetTransactionsPaginated R batchSize offset s =
     (let key = page_key ''transactions:paginated:'' batchSize offset;
          query = (if rv_F R (''GetTransactionsPaginated:'' @ show_nat offset) \<or> batchSize < 0
                   then (s, Inl (internal ''Failed to retrieve paginated transactions''))
                   else let page = take (nat batchSize) (drop offset
                              (map scan_row (sort_key t_CreatedAt (st_transactions (rc_store s)))))
                        in (if page = [] then s
                            else s\<lparr>rc_txnpages := cache_set (rv_F R) (rv_now R) (60 * Minute) key page (rc_txnpages s)\<rparr>, Inr page))
      in case cache_get (rv_F R) (rv_now R) (rc_txnpages s) key of
           Some page \<Rightarrow> if page \<noteq> [] then (s, Inr page) else query
         | None \<Rightarrow> query)"

text \<open>\<open>grouped[key] = append(grouped[key], row)\<close>, the keys in the order of their first row.\<close>

fun add_group :: "string \<Rightarrow> Transaction \<Rightarrow> groups \<Rightarrow> groups" where
  "add_group k t [] = [(k, [t])]"
| "add_group k t ((k', ts) # gs) = (if k' = k then (k', ts @ [t]) # gs else (k', ts) # add_group k t gs)"

definition group_rows :: "(string \<times> Transaction) list \<Rightarrow> groups" where
  "group_rows rows = fold (\<lambda>(k, t). add_group k t) rows []"

definition groupedTransactionsQuery :: "recon_env \<Rightarrow> string \<Rightarrow> (Transaction \<Rightarrow> string) option" where
  "groupedTransactionsQuery R gc =
     (if gc = ''transaction_id'' then Some t_TransactionID
      else if gc = ''parent_transaction'' then Some t_ParentTransaction
      else if gc = ''source'' then Some t_Source
      else if gc = ''reference'' then Some t_Reference
      else if gc = ''currency'' then Some t_Currency
      else if gc = ''destination'' then Some t_Destination
      else if gc = ''status'' then Some t_Status
      else if gc = ''created_at'' then Some (\<lambda>t. rv_time_text R (t_CreatedAt t))
      else None)"

definition groupedExternalTransactionsQuery :: "recon_env \<Rightarrow> string \<Rightarrow> (ExternalTransaction \<Rightarrow> string) option" where
  "groupedExternalTransactionsQuery R gc =
     (if gc = ''id'' then Some x_ID
      else if gc = ''amount'' then Some (\<lambda>x. rv_numeric_text R (x_Amount x))
      else if gc = ''reference'' then Some x_Reference
      else if gc = ''currency'' then Some x_Currency
      else if gc = ''description'' then Some x_Description
      else if gc = ''date'' then Some (\<lambda>x. rv_time_text R (x_Date x))
      else if gc = ''source'' then Some x_Source
      else None)"

text \<open>The rows with a key, in the order of the key, and the page as groups.\<close>

definition keyed :: "recon_env \<Rightarrow> ('a \<Rightarrow> string) \<Rightarrow> 'a list \<Rightarrow> (string \<times> 'a) list" where
  "keyed R key rows = sort_key (\<lambda>r. rv_collate R (fst r)) (filter (\<lambda>r. fst r \<noteq> []) (map (\<lambda>x. (key x, x)) rows))"

text \<open>A page from the cache if it is there and not empty, else from the query, which fills the cache.\<close>

definition group_cache :: "recon_env \<Rightarrow> string \<Rightarrow> groups res \<Rightarrow> recon \<Rightarrow> recon \<times> groups res" where
  "group_cache R ckey query s =
     (let fetched = (case query of Inl e \<Rightarrow> (s, Inl e)
            | Inr gs \<Rightarrow> (if gs = [] then s
                else s\<lparr>rc_groups := cache_set (rv_F R) (rv_now R) (5 * Minute) ckey gs (rc_groups s)\<rparr>, Inr gs))
      in case cache_get (rv_F R) (rv_now R) (rc_groups s) ckey of
           Some gs \<Rightarrow> if gs \<noteq> [] then (s, Inr gs) else fetched
         | None \<Rightarrow> fetched)"

definition GroupTransactions :: "recon_env \<Rightarrow> string \<Rightarrow> int \<Rightarrow> nat \<Rightarrow> recon \<Rightarrow> recon \<times> groups res" where
  "GroupTransactions R gc batchSize offset s =
     (case groupedTransactionsQuery R gc of
        None \<Rightarrow> (s, Inl (APIError ErrBadRequest (''Invalid group criteria: '' @ gc)))
      | Some key \<Rightarrow>
          group_cache R (page_key (''transactions:grouped:'' @ gc @ '':'') batchSize offset)
            (if rv_F R (''GroupTransactions:'' @ show_nat offset) \<or> batchSize < 0
             then Inl (internal ''Failed to retrieve grouped transactions'')
             else Inr (group_rows (take (nat batchSize) (drop offset
                    (map (\<lambda>(k, t). (k, scan_row t)) (keyed R key (st_transactions (rc_store s)))))))) s)"

definition FetchAndGroupExternalTransactions ::
    "recon_env \<Rightarrow> string \<Rightarrow> string \<Rightarrow> int \<Rightarrow> nat \<Rightarrow> recon \<Rightarrow> recon \<times> groups res" where
  "FetchAndGroupExternalTransactions R upload gc batchSize offset s =
     (case groupedExternalTransactionsQuery R gc of
        None \<Rightarrow> (s, Inl (APIError ErrBadRequest (''Invalid group criteria: '' @ gc)))
      | Some key \<Rightarrow>
          group_cache R (page_key (''external_transactions:grouped:'' @ upload @ '':'' @ gc @ '':'') batchSize offset)
            (if rv_F R (''FetchAndGroupExternalTransactions:'' @ show_nat offset) \<or> batchSize < 0
             then Inl (internal ''Failed to retrieve grouped external transactions'')
             else Inr (group_rows (take (nat batchSize) (drop offset
                    (map (\<lambda>(k, x). (k, ToInternalTransaction x))
                       (keyed R key (map snd (filter (\<lambda>r. fst r = upload) (rc_external s))))))))) s)"

subsection \<open>One to one\<close>

text \<open>
  The workers of a pool take the jobs in their order, and each of them leaves at its first match:
  what they find are the first matching jobs, as many as there are workers.
\<close>

fun pool_hits :: "nat \<Rightarrow> ('a \<Rightarrow> bool) \<Rightarrow> 'a list \<Rightarrow> 'a list" where
  "pool_hits workers hit [] = []"
| "pool_hits 0 hit (t # ts) = []"
| "pool_hits (Suc n) hit (t # ts) = (if hit t then t # pool_hits n hit ts else pool_hits (Suc n) hit ts)"

definition findMatchingInternalTransaction ::
    "recon_env \<Rightarrow> Transaction \<Rightarrow> MatchingRule list \<Rightarrow> recon \<Rightarrow> (Match list \<times> string list \<times> error option) option" where
  "findMatchingInternalTransaction R ext rules s =
     (let bounds = calculateMatchingBounds ext rules in
      case fetch_pages (\<lambda>offset. GetTransactionsByCriteria (rv_F R) bounds (rv_BatchSize R) offset (rc_store s)) 0 of
        None \<Rightarrow> None
      | Some (jobs, fetchErr) \<Rightarrow>
          (let hits = pool_hits (nat (rv_MaxWorkers R)) (\<lambda>t. matchesRules (rv_lev R) ext t rules) jobs;
               found = map (\<lambda>t. \<lparr>mt_ExternalTransactionID = t_TransactionID ext, mt_InternalTransactionID = t_TransactionID t,
                          mt_ReconciliationID = [], mt_Amount = t_Amount ext, mt_Date = t_CreatedAt ext\<rparr>) hits;
               finished = Some (found, if hits = [] then [t_TransactionID ext] else [], None)
           in case fetchErr of None \<Rightarrow> finished
              | Some e \<Rightarrow>
                  (case rv_seen R (t_TransactionID ext) of None \<Rightarrow> finished
                   | Some sent \<Rightarrow> if sent < length hits then None else Some (found, [], Some e))))"

fun oneToOneReconciliation ::
    "recon_env \<Rightarrow> Transaction list \<Rightarrow> MatchingRule list \<Rightarrow> recon \<Rightarrow> (Match list \<times> string list) option" where
  "oneToOneReconciliation R [] rules s = Some ([], [])"
| "oneToOneReconciliation R (x # xs) rules s =
     (case findMatchingInternalTransaction R x rules s of None \<Rightarrow> None
      | Some (ms, us, e) \<Rightarrow>
          (case oneToOneReconciliation R xs rules s of None \<Rightarrow> None
           | Some (ms', us') \<Rightarrow> Some (ms @ ms', us @ (if e = None then [] else [t_TransactionID x]) @ us')))"

subsection \<open>Groups\<close>

definition buildGroupMap :: "groups \<Rightarrow> string list" where
  "buildGroupMap gs = map fst gs"

definition group_of :: "groups \<Rightarrow> string \<Rightarrow> Transaction list" where
  "group_of gs k = (case map_of gs k of None \<Rightarrow> [] | Some ts \<Rightarrow> ts)"

definition group_matches :: "bool \<Rightarrow> Transaction \<Rightarrow> Transaction list \<Rightarrow> Match list" where
  "group_matches isExternalGrouped single grp = map (\<lambda>g.
     \<lparr>mt_ExternalTransactionID = (if isExternalGrouped then t_TransactionID g else t_TransactionID single),
      mt_InternalTransactionID = (if isExternalGrouped then t_TransactionID single else t_TransactionID g),
      mt_ReconciliationID = [], mt_Amount = t_Amount g, mt_Date = t_CreatedAt g\<rparr>) grp"

text \<open>One worker that is not disturbed: the group map without the claimed key, and its matches.\<close>

definition matchSingleTransaction ::
    "recon_env \<Rightarrow> Transaction \<Rightarrow> groups \<Rightarrow> string list \<Rightarrow> MatchingRule list \<Rightarrow> bool \<Rightarrow> (string list \<times> Match list) option" where
  "matchSingleTransaction R single gs groupMap rules isExternalGrouped =
     (case find (\<lambda>k. matchesGroup (rv_lev R) single (group_of gs k) rules) (rv_keys R groupMap) of
        None \<Rightarrow> None
      | Some k \<Rightarrow> Some (remove1 k groupMap, group_matches isExternalGrouped single (group_of gs k)))"

fun processGroupedTransactions ::
    "recon_env \<Rightarrow> Transaction list \<Rightarrow> groups \<Rightarrow> string list \<Rightarrow> MatchingRule list \<Rightarrow> bool
       \<Rightarrow> string list \<times> Match list \<times> string list" where
  "processGroupedTransactions R [] gs groupMap rules isExternalGrouped = (groupMap, [], [])"
| "processGroupedTransactions R (x # xs) gs groupMap rules isExternalGrouped =
     (case matchSingleTransaction R x gs groupMap rules isExternalGrouped of
        None \<Rightarrow> (case processGroupedTransactions R xs gs groupMap rules isExternalGrouped of
                   (gm, ms, us) \<Rightarrow> (gm, ms, t_TransactionID x # us))
      | Some (gm1, m) \<Rightarrow> (case processGroupedTransactions R xs gs gm1 rules isExternalGrouped of
                   (gm, ms, us) \<Rightarrow> (gm, m @ ms, us)))"

text \<open>The loop over the pages: whether any was processed, what was sent to the two channels.\<close>

partial_function (option) group_loop ::
    "(nat \<Rightarrow> recon \<Rightarrow> recon \<times> groups res) \<Rightarrow> (nat \<Rightarrow> groups \<Rightarrow> bool \<times> Match list \<times> string list) \<Rightarrow> nat \<Rightarrow> nat
       \<Rightarrow> recon \<Rightarrow> (recon \<times> bool \<times> Match list \<times> string list) option" where
  "group_loop fetch handle batchSize offset s =
     (case fetch offset s of (s1, r) \<Rightarrow>
        (case r of Inl e \<Rightarrow> Some (s1, False, [], [])
         | Inr gs \<Rightarrow>
             if gs = [] then Some (s1, False, [], [])
             else case handle offset gs of (emptied, ms, us) \<Rightarrow>
               if emptied then Some (s1, True, ms, us)
               else Option.bind (group_loop fetch handle batchSize (offset + batchSize) s1)
                      (\<lambda>(s2, _, ms', us'). Some (s2, True, ms @ ms', us @ us'))))"

definition handle_batch ::
    "recon_env \<Rightarrow> Transaction list \<Rightarrow> MatchingRule list \<Rightarrow> bool \<Rightarrow> nat \<Rightarrow> groups \<Rightarrow> bool \<times> Match list \<times> string list" where
  "handle_batch R txns rules isExternalGrouped offset gs =
     (case processGroupedTransactions R txns gs (buildGroupMap gs) rules isExternalGrouped of
        (groupMap, ms, us) \<Rightarrow> (rv_raced R txns offset \<and> groupMap = [], ms, us))"

text \<open>The deferred report of inputs that saw no batch.\<close>

definition report_all :: "Transaction list \<Rightarrow> bool \<times> Match list \<times> string list \<Rightarrow> Match list \<times> string list" where
  "report_all txns r = (case r of (processedAny, ms, us) \<Rightarrow> (ms, if processedAny then us else us @ map t_TransactionID txns))"

definition oneToMany ::
    "recon_env \<Rightarrow> Transaction list \<Rightarrow> MatchingRule list \<Rightarrow> bool \<Rightarrow> string \<Rightarrow> recon \<Rightarrow> (recon \<times> Match list \<times> string list) option" where
  "oneToMany R txns rules isExternalGrouped gc s =
     map_option (\<lambda>(s', r). (s', report_all txns r))
       (group_loop (GroupTransactions R gc (rv_BatchSize R)) (handle_batch R txns rules isExternalGrouped)
          (nat (rv_BatchSize R)) 0 s)"

definition manyToOne ::
    "recon_env \<Rightarrow> Transaction list \<Rightarrow> string \<Rightarrow> MatchingRule list \<Rightarrow> bool \<Rightarrow> string \<Rightarrow> recon
       \<Rightarrow> (recon \<times> Match list \<times> string list) option" where
  "manyToOne R txns upload rules isExternalGrouped gc s =
     map_option (\<lambda>(s', r). (s', report_all txns r))
       (group_loop (FetchAndGroupExternalTransactions R upload gc (rv_BatchSize R))
          (handle_batch R txns rules isExternalGrouped) (nat (rv_BatchSize R)) 0 s)"

text \<open>
  Nobody reads the channel of unmatched ids, which has room for one id per input, before the
  channel of matches is closed, and that waits for all workers: with more reports than inputs
  one worker blocks forever.
\<close>

definition collect :: "Transaction list \<Rightarrow> recon \<times> Match list \<times> string list \<Rightarrow> (recon \<times> Match list \<times> string list) option" where
  "collect txns r = (if length (snd (snd r)) \<le> length txns then Some r else None)"

definition oneToManyReconciliation ::
    "recon_env \<Rightarrow> Transaction list \<Rightarrow> string \<Rightarrow> MatchingRule list \<Rightarrow> bool \<Rightarrow> recon \<Rightarrow> (recon \<times> Match list \<times> string list) option" where
  "oneToManyReconciliation R txns gc rules isExternalGrouped s =
     Option.bind (oneToMany R txns rules isExternalGrouped gc s) (collect txns)"

definition manyToOneReconciliation ::
    "recon_env \<Rightarrow> Transaction list \<Rightarrow> string \<Rightarrow> string \<Rightarrow> MatchingRule list \<Rightarrow> bool \<Rightarrow> recon
       \<Rightarrow> (recon \<times> Match list \<times> string list) option" where
  "manyToOneReconciliation R txns upload gc rules isExternalGrouped s =
     Option.bind (manyToOne R txns upload rules isExternalGrouped gc s) (collect txns)"

subsection \<open>The processor\<close>

definition createReconciler ::
    "recon_env \<Rightarrow> string \<Rightarrow> string \<Rightarrow> string \<Rightarrow> MatchingRule list \<Rightarrow> Transaction list \<Rightarrow> recon
       \<Rightarrow> (recon \<times> Match list \<times> string list) option" where
  "createReconciler R strategy upload gc rules txns s =
     (if strategy = ''one_to_one'' then map_option (\<lambda>r. (s, r)) (oneToOneReconciliation R txns rules s)
      else if strategy = ''one_to_many'' then oneToManyReconciliation R txns gc rules False s
      else if strategy = ''many_to_one'' then manyToOneReconciliation R txns upload gc rules True s
      else Some (s, [], []))"

record transactionProcessor =
  tp_reconciliation :: Reconciliation
  tp_progress :: ReconciliationProgress
  tp_matches :: int
  tp_unmatched :: int

definition createTransactionProcessor :: "Reconciliation \<Rightarrow> ReconciliationProgress \<Rightarrow> transactionProcessor" where
  "createTransactionProcessor rec p = \<lparr>tp_reconciliation = rec, tp_progress = p, tp_matches = 0, tp_unmatched = 0\<rparr>"

definition reconciled_metadata :: "recon_env \<Rightarrow> string \<Rightarrow> Match \<Rightarrow> (string \<rightharpoonup> json)" where
  "reconciled_metadata R rid m = [''reconciled'' \<mapsto> JBool True, ''reconciliation_id'' \<mapsto> JStr rid,
     ''reconciled_at'' \<mapsto> JStr (rv_stamp R), ''external_txn_id'' \<mapsto> JStr (mt_ExternalTransactionID m),
     ''reconciliation_amount'' \<mapsto> JNum (mt_Amount m)]"

definition updateMatchedTransactionsMetadata :: "recon_env \<Rightarrow> string \<Rightarrow> Match list \<Rightarrow> recon \<Rightarrow> recon" where
  "updateMatchedTransactionsMetadata R rid ms s = fold (\<lambda>m s.
     s\<lparr>rc_store := fst (UpdateTransactionMetadata (rv_F R) (mt_InternalTransactionID m) (reconciled_metadata R rid m) (rc_store s))\<rparr>) ms s"

text \<open>The writes of one job, skipped in a dry run; the metadata is updated by a goroutine that is run at once.\<close>

definition record_results ::
    "recon_env \<Rightarrow> Reconciliation \<Rightarrow> Match list \<Rightarrow> string list \<Rightarrow> recon \<Rightarrow> recon \<times> unit res" where
  "record_results R rec ms us s =
     (if rn_IsDryRun rec then (s, Inr ())
      else case (if ms = [] then (s, Inr ()) else RecordMatches (rv_F R) (rn_ReconciliationID rec) ms s) of
             (s1, Inl e) \<Rightarrow> (s1, Inl e)
           | (s1, Inr _) \<Rightarrow>
               (let s2 = (if ms = [] then s1 else updateMatchedTransactionsMetadata R (rn_ReconciliationID rec) ms s1)
                in if us = [] then (s2, Inr ()) else RecordUnmatched (rv_F R) (rv_now R) (rn_ReconciliationID rec) us s2))"

definition process_txn ::
    "recon_env \<Rightarrow> (Transaction list \<Rightarrow> recon \<Rightarrow> (recon \<times> Match list \<times> string list) option) \<Rightarrow> Transaction
       \<Rightarrow> transactionProcessor \<Rightarrow> recon \<Rightarrow> (transactionProcessor \<times> recon \<times> unit res) option" where
  "process_txn R reconcile txn tp s =
     (case reconcile [txn] s of None \<Rightarrow> None
      | Some (s1, ms, us) \<Rightarrow>
          (let tp1 = tp\<lparr>tp_matches := tp_matches tp + int (length ms), tp_unmatched := tp_unmatched tp + int (length us)\<rparr> in
           case record_results R (tp_reconciliation tp) ms us s1 of
             (s2, Inl e) \<Rightarrow> Some (tp1, s2, Inl e)
           | (s2, Inr _) \<Rightarrow>
               (let p = \<lparr>rp_LastProcessedExternalTxnID = t_TransactionID txn,
                         rp_ProcessedCount = rp_ProcessedCount (tp_progress tp) + 1\<rparr>;
                    tp2 = tp1\<lparr>tp_progress := p\<rparr>
                in if rv_ProgressInterval R = 0 then None
                   else if rp_ProcessedCount p mod rv_ProgressInterval R = 0
                     then Some (tp2, fst (SaveReconciliationProgress (rv_F R) (rn_ReconciliationID (tp_reconciliation tp)) p s2), Inr ())
                   else Some (tp2, s2, Inr ()))))"

text \<open>The pages of the outer loop, and its workers: one that fails leaves the pool.\<close>

partial_function (option) load_pages ::
    "(nat \<Rightarrow> recon \<Rightarrow> recon \<times> Transaction list res) \<Rightarrow> nat \<Rightarrow> recon \<Rightarrow> (recon \<times> Transaction list \<times> error option) option" where
  "load_pages gt offset s =
     (case gt offset s of (s1, r) \<Rightarrow>
        (case r of Inl e \<Rightarrow> Some (s1, [], Some e)
         | Inr page \<Rightarrow>
             if page = [] then Some (s1, [], None)
             else Option.bind (load_pages gt (offset + length page) s1) (\<lambda>(s2, ts, e). Some (s2, page @ ts, e))))"

fun work_pool ::
    "recon_env \<Rightarrow> (Transaction list \<Rightarrow> recon \<Rightarrow> (recon \<times> Match list \<times> string list) option) \<Rightarrow> nat \<Rightarrow> Transaction list
       \<Rightarrow> transactionProcessor \<Rightarrow> recon \<Rightarrow> (transactionProcessor \<times> recon \<times> error list) option" where
  "work_pool R reconcile workers [] tp s = Some (tp, s, [])"
| "work_pool R reconcile 0 (t # ts) tp s = Some (tp, s, [])"
| "work_pool R reconcile (Suc n) (t # ts) tp s =
     (case process_txn R reconcile t tp s of None \<Rightarrow> None
      | Some (tp1, s1, Inr _) \<Rightarrow> work_pool R reconcile (Suc n) ts tp1 s1
      | Some (tp1, s1, Inl e) \<Rightarrow> map_option (\<lambda>(tp2, s2, es). (tp2, s2, e # es)) (work_pool R reconcile n ts tp1 s1))"

definition source_pages :: "recon_env \<Rightarrow> string \<Rightarrow> string \<Rightarrow> nat \<Rightarrow> recon \<Rightarrow> recon \<times> Transaction list res" where
  "source_pages R strategy upload =
     (if strategy = ''many_to_one'' then GetTransactionsPaginated R (rv_BatchSize R)
      else getExternalTransactionsPaginated R upload (rv_BatchSize R))"

definition processTransactions ::
    "recon_env \<Rightarrow> string \<Rightarrow> string \<Rightarrow> (Transaction list \<Rightarrow> recon \<Rightarrow> (recon \<times> Match list \<times> string list) option)
       \<Rightarrow> transactionProcessor \<Rightarrow> recon \<Rightarrow> (transactionProcessor \<times> recon \<times> unit res) option" where
  "processTransactions R upload strategy reconcile tp s =
     (case load_pages (source_pages R strategy upload) 0 s of None \<Rightarrow> None
      | Some (s1, jobs, fetchErr) \<Rightarrow>
          (case work_pool R reconcile (nat (rv_MaxWorkers R)) jobs tp s1 of None \<Rightarrow> None
           | Some (tp', s2, errs) \<Rightarrow>
               Some (tp', s2, case fetchErr of
                   Some e \<Rightarrow> if rv_fetch_seen R then Inl e
                     else if errs = [] then Inr () else Inl (Errorf (''error occurred during processing: ['' @ str_join '' '' (map err_msg errs) @ '']''))
                 | None \<Rightarrow> if errs = [] then Inr ()
                     else Inl (Errorf (''error occurred during processing: ['' @ str_join '' '' (map err_msg errs) @ '']'')))))"

definition initializeReconciliationProgress :: "faults \<Rightarrow> string \<Rightarrow> recon \<Rightarrow> ReconciliationProgress" where
  "initializeReconciliationProgress F rid s =
     (case LoadReconciliationProgress F rid s of Inl e \<Rightarrow> empty_progress | Inr p \<Rightarrow> p)"

definition finalizeReconciliation :: "recon_env \<Rightarrow> Reconciliation \<Rightarrow> int \<Rightarrow> int \<Rightarrow> recon \<Rightarrow> recon \<times> unit res" where
  "finalizeReconciliation R rec matchCount unmatchedCount s =
     UpdateReconciliationStatus (rv_F R) (rv_now R) (rn_ReconciliationID rec) StatusCompleted matchCount unmatchedCount s"

definition processReconciliation ::
    "recon_env \<Rightarrow> Reconciliation \<Rightarrow> string \<Rightarrow> string \<Rightarrow> string list \<Rightarrow> recon \<Rightarrow> (recon \<times> unit res) option" where
  "processReconciliation R rec strategy gc ruleIDs s =
     (case UpdateReconciliationStatus (rv_F R) (rv_now R) (rn_ReconciliationID rec) StatusInProgress 0 0 s of
        (s1, Inl e) \<Rightarrow> Some (s1, Inl (Wrap ''failed to update reconciliation status'' e))
      | (s1, Inr _) \<Rightarrow>
          (case getMatchingRules (rv_F R) ruleIDs s1 of
             Inl e \<Rightarrow> Some (s1, Inl (Wrap ''failed to get matching rules'' e))
           | Inr rules \<Rightarrow>
               (let p = initializeReconciliationProgress (rv_F R) (rn_ReconciliationID rec) s1;
                    reconcile = createReconciler R strategy (rn_UploadID rec) gc rules
                in case processTransactions R (rn_UploadID rec) strategy reconcile (createTransactionProcessor rec p) s1 of
                     None \<Rightarrow> None
                   | Some (tp, s2, Inl e) \<Rightarrow> Some (s2, Inl (Wrap ''failed to process transactions'' e))
                   | Some (tp, s2, Inr _) \<Rightarrow> Some (finalizeReconciliation R rec (tp_matches tp) (tp_unmatched tp) s2))))"

subsection \<open>Starting a run\<close>

definition new_reconciliation :: "recon_env \<Rightarrow> string \<Rightarrow> string \<Rightarrow> bool \<Rightarrow> Reconciliation" where
  "new_reconciliation R rid upload isDryRun = \<lparr>rn_ReconciliationID = rid, rn_UploadID = upload, rn_Status = StatusStarted,
     rn_MatchedTransactions = 0, rn_UnmatchedTransactions = 0, rn_IsDryRun = isDryRun, rn_StartedAt = rv_now R, rn_CompletedAt = None\<rparr>"

text \<open>The goroutine that both entry points start; the caller has its answer before.\<close>

definition run_reconciliation ::
    "recon_env \<Rightarrow> Reconciliation \<Rightarrow> string \<Rightarrow> string \<Rightarrow> string list \<Rightarrow> recon \<Rightarrow> recon option" where
  "run_reconciliation R rec strategy gc ruleIDs s =
     (case processReconciliation R rec strategy gc ruleIDs s of None \<Rightarrow> None
      | Some (s1, Inr _) \<Rightarrow> Some s1
      | Some (s1, Inl e) \<Rightarrow> Some (fst (UpdateReconciliationStatus (rv_F R) (rv_now R) (rn_ReconciliationID rec) StatusFailed 0 0 s1)))"

definition StartReconciliation :: "recon_env \<Rightarrow> string \<Rightarrow> string \<Rightarrow> bool \<Rightarrow> recon \<Rightarrow> recon \<times> Reconciliation res" where
  "StartReconciliation R rid upload isDryRun s =
     (let rec = new_reconciliation R rid upload isDryRun in
      case RecordReconciliation (rv_F R) rec s of (s1, Inl e) \<Rightarrow> (s1, Inl e) | (s1, Inr _) \<Rightarrow> (s1, Inr rec))"

fun store_external :: "faults \<Rightarrow> string \<Rightarrow> ExternalTransaction list \<Rightarrow> recon \<Rightarrow> recon \<times> unit res" where
  "store_external F upload [] s = (s, Inr ())"
| "store_external F upload (x # xs) s =
     (case RecordExternalTransaction F x upload s of (s1, Inl e) \<Rightarrow> (s1, Inl e) | (s1, Inr _) \<Rightarrow> store_external F upload xs s1)"

text \<open>The inner \<open>err\<close> shadows the failure, so the text of the returned error wraps nil.\<close>

definition StartInstantReconciliation ::
    "recon_env \<Rightarrow> string \<Rightarrow> string \<Rightarrow> ExternalTransaction list \<Rightarrow> bool \<Rightarrow> recon \<Rightarrow> recon \<times> Reconciliation res" where
  "StartInstantReconciliation R rid tempID xs isDryRun s =
     (let rec = new_reconciliation R rid tempID isDryRun in
      case RecordReconciliation (rv_F R) rec s of (s1, Inl e) \<Rightarrow> (s1, Inl e)
      | (s1, Inr _) \<Rightarrow>
          (case store_external (rv_F R) tempID xs s1 of
             (s2, Inr _) \<Rightarrow> (s2, Inr rec)
           | (s2, Inl e) \<Rightarrow>
               (case UpdateReconciliationStatus (rv_F R) (rv_now R) rid StatusFailed 0 0 s2 of
                  (s3, Inl e') \<Rightarrow> (s3, Inl (Wrap ''failed to store external transaction'' e'))
                | (s3, Inr _) \<Rightarrow> (s3, Inl (Errorf ''failed to store external transaction: %!w(<nil>)'')))))"

definition GetReconciliation :: "faults \<Rightarrow> string \<Rightarrow> recon \<Rightarrow> Reconciliation res" where
  "GetReconciliation F rid s =
     (case GetReconciliation_db F rid s of Inl e \<Rightarrow> Inl (Wrap ''failed to retrieve reconciliation'' e) | Inr rec \<Rightarrow> Inr rec)"

subsection \<open>Interleaved workers\<close>

text \<open>
  The goroutines of \<open>processGroupedTransactions\<close> over one shared group map: each takes a snapshot of
  the keys, tries them one after the other, and claims a key under the mutex if it is still there.
\<close>

datatype claimer = Waiting | Trying "string list" | Claimed string | Unclaimed

inductive claim_step :: "(nat \<Rightarrow> string \<Rightarrow> bool) \<Rightarrow> string set \<times> claimer list \<Rightarrow> string set \<times> claimer list \<Rightarrow> bool"
  for fits where
  snapshot: "i < length ws \<Longrightarrow> ws ! i = Waiting \<Longrightarrow> distinct ks \<Longrightarrow> set ks = gm \<Longrightarrow>
    claim_step fits (gm, ws) (gm, ws[i := Trying ks])"
| no_match: "i < length ws \<Longrightarrow> ws ! i = Trying (k # ks) \<Longrightarrow> \<not> fits i k \<Longrightarrow>
    claim_step fits (gm, ws) (gm, ws[i := Trying ks])"
| taken: "i < length ws \<Longrightarrow> ws ! i = Trying (k # ks) \<Longrightarrow> fits i k \<Longrightarrow> k \<notin> gm \<Longrightarrow>
    claim_step fits (gm, ws) (gm, ws[i := Trying ks])"
| claim: "i < length ws \<Longrightarrow> ws ! i = Trying (k # ks) \<Longrightarrow> fits i k \<Longrightarrow> k \<in> gm \<Longrightarrow>
    claim_step fits (gm, ws) (gm - {k}, ws[i := Claimed k])"
| give_up: "i < length ws \<Longrightarrow> ws ! i = Trying [] \<Longrightarrow> claim_step fits (gm, ws) (gm, ws[i := Unclaimed])"

definition group_fits ::
    "(string \<Rightarrow> string \<Rightarrow> int) \<Rightarrow> Transaction list \<Rightarrow> groups \<Rightarrow> MatchingRule list \<Rightarrow> nat \<Rightarrow> string \<Rightarrow> bool" where
  "group_fits lev xs gs rules i k = matchesGroup lev (xs ! i) (group_of gs k) rules"

text \<open>
  The workers of one candidate search over the shared channel of jobs: each takes the next job, leaves
  when it matches, and stops when the channel is closed and empty.
\<close>

datatype 'a searcher = Idle | Busy 'a | Found 'a | Stopped

inductive search_step :: "('a \<Rightarrow> bool) \<Rightarrow> 'a list \<times> 'a searcher list \<Rightarrow> 'a list \<times> 'a searcher list \<Rightarrow> bool"
  for hit where
  take_job: "i < length ws \<Longrightarrow> ws ! i = Idle \<Longrightarrow> search_step hit (t # jobs, ws) (jobs, ws[i := Busy t])"
| is_hit: "i < length ws \<Longrightarrow> ws ! i = Busy t \<Longrightarrow> hit t \<Longrightarrow> search_step hit (jobs, ws) (jobs, ws[i := Found t])"
| no_hit: "i < length ws \<Longrightarrow> ws ! i = Busy t \<Longrightarrow> \<not> hit t \<Longrightarrow> search_step hit (jobs, ws) (jobs, ws[i := Idle])"
| closed: "i < length ws \<Longrightarrow> ws ! i = Idle \<Longrightarrow> search_step hit ([], ws) ([], ws[i := Stopped])"

section \<open>Facts\<close>

lemma sum_list_map_update:
  fixes f :: "'b \<Rightarrow> 'a::comm_monoid_add"
  assumes "i < length ws"
  shows "sum_list (map f (ws[i := w])) + f (ws ! i) = sum_list (map f ws) + f w"
  using assms
proof (induction ws arbitrary: i)
  case (Cons v ws)
  show ?case
  proof (cases i)
    case (Suc j)
    with Cons have "sum_list (map f (ws[j := w])) + f (ws ! j) = sum_list (map f ws) + f w" by simp
    then show ?thesis using Suc by (simp add: add.assoc)
  qed (simp add: ac_simps)
qed simp

subsection \<open>The search is independent of the schedule\<close>

lemma pool_hits_take: "pool_hits n hit xs = take n (filter hit xs)"
  by (induction n hit xs rule: pool_hits.induct) auto

text \<open>What the workers hold or will hold.\<close>

fun share :: "('a \<Rightarrow> bool) \<Rightarrow> 'a searcher \<Rightarrow> 'a multiset" where
  "share hit (Found t) = {#t#}"
| "share hit (Busy t) = (if hit t then {#t#} else {#})"
| "share hit w = {#}"

fun found :: "'a searcher \<Rightarrow> 'a multiset" where
  "found (Found t) = {#t#}"
| "found w = {#}"

definition search_inv :: "('a \<Rightarrow> bool) \<Rightarrow> 'a list \<Rightarrow> nat \<Rightarrow> 'a list \<times> 'a searcher list \<Rightarrow> bool" where
  "search_inv hit jobs n st \<longleftrightarrow> (case st of (q, ws) \<Rightarrow> length ws = n \<and> (Stopped \<in> set ws \<longrightarrow> q = []) \<and>
     (\<exists>done. jobs = done @ q \<and> sum_list (map (share hit) ws) = mset (filter hit done)))"

lemma search_inv_step:
  assumes "search_step hit st st'" "search_inv hit jobs n st"
  shows "search_inv hit jobs n st'"
  using assms
proof (induction rule: search_step.induct)
  case (take_job i ws t q)
  then obtain don where d: "jobs = don @ t # q" "sum_list (map (share hit) ws) = mset (filter hit don)"
    and s: "Stopped \<notin> set ws" "length ws = n" by (auto simp: search_inv_def)
  have "sum_list (map (share hit) (ws[i := Busy t])) = mset (filter hit (don @ [t]))"
    using sum_list_map_update [OF take_job(1), of "share hit" "Busy t"] take_job(2) d(2) by simp
  moreover have "Stopped \<notin> set (ws[i := Busy t])" using s(1) by (auto dest!: set_update_subset_insert [THEN subsetD])
  ultimately show ?case using d(1) s(2) unfolding search_inv_def by (auto intro!: exI [of _ "don @ [t]"])
next
  case (is_hit i ws t q)
  then show ?case using sum_list_map_update [OF is_hit(1), of "share hit" "Found t"]
    by (auto simp: search_inv_def dest!: set_update_subset_insert [THEN subsetD])
next
  case (no_hit i ws t q)
  then show ?case using sum_list_map_update [OF no_hit(1), of "share hit" Idle]
    by (auto simp: search_inv_def dest!: set_update_subset_insert [THEN subsetD])
next
  case (closed i ws)
  then show ?case using sum_list_map_update [OF closed(1), of "share hit" Stopped]
    by (auto simp: search_inv_def)
qed

definition final :: "('s \<Rightarrow> 's \<Rightarrow> bool) \<Rightarrow> 's \<Rightarrow> bool" where
  "final step st \<longleftrightarrow> (\<forall>st'. \<not> step st st')"

lemma final_search:
  assumes "final (search_step hit) (q, ws)" "w \<in> set ws"
  shows "(\<exists>t. w = Found t) \<or> w = Stopped"
proof (cases w)
  obtain i where i: "i < length ws" "ws ! i = w" using assms(2) by (auto simp: in_set_conv_nth)
  note no = assms(1) [unfolded final_def, rule_format]
  {
    case Idle
    then show ?thesis using i no search_step.take_job [of i ws hit] search_step.closed [of i ws hit] by (cases q) auto
  next
    case (Busy t)
    then show ?thesis using i no search_step.is_hit [of i ws t hit q] search_step.no_hit [of i ws t hit q] by auto
  }
qed auto

lemma search_schedules:
  assumes "(search_step hit)\<^sup>*\<^sup>* (jobs, replicate n Idle) (q, ws)" "final (search_step hit) (q, ws)"
  shows "sum_list (map found ws) = mset (pool_hits n hit jobs)"
proof -
  have "search_inv hit jobs n (jobs, replicate n Idle)"
    by (induction n) (auto simp: search_inv_def)
  with assms(1) have I: "search_inv hit jobs n (q, ws)"
    by (induction rule: rtranclp_induct) (auto intro: search_inv_step)
  then obtain don where d: "jobs = don @ q" "sum_list (map (share hit) ws) = mset (filter hit don)" "length ws = n"
    and st: "Stopped \<in> set ws \<longrightarrow> q = []" by (auto simp: search_inv_def)
  note w = final_search [OF assms(2)]
  have eq: "map (share hit) ws = map found ws" using w by fastforce
  have len: "length (filter hit don) = size (sum_list (map found ws))" using d(2) eq by (metis size_mset)
  have size: "size (sum_list (map found ws)) \<le> length ws" for ws :: "'a searcher list"
  proof (induction ws)
    case (Cons w ws) then show ?case by (cases w) auto
  qed simp
  have "mset (filter hit don) = mset (take n (filter hit jobs))"
  proof (cases "Stopped \<in> set ws")
    case True
    then show ?thesis using d st len size [of ws] by simp
  next
    case False
    then have "\<forall>w \<in> set ws. \<exists>t. w = Found t" using w by blast
    then have "size (sum_list (map found ws)) = length ws" by (induction ws) auto
    then show ?thesis using d(1,3) len by simp
  qed
  then show ?thesis using d(2) eq by (simp add: pool_hits_take)
qed

fun load :: "'a searcher \<Rightarrow> nat" where
  "load Idle = 1"
| "load (Busy t) = 2"
| "load w = 0"

lemma search_ends:
  assumes "search_step hit (q, ws) (q', ws')"
  shows "3 * length q' + sum_list (map load ws') < 3 * length q + sum_list (map load ws)"
  using assms
proof (cases rule: search_step.cases)
  case (take_job i t)
  then show ?thesis using sum_list_map_update [of i ws load "Busy t"] by simp
next
  case (is_hit i t)
  then show ?thesis using sum_list_map_update [of i ws load "Found t"] by simp
next
  case (no_hit i t)
  then show ?thesis using sum_list_map_update [of i ws load Idle] by simp
next
  case (closed i)
  then show ?thesis using sum_list_map_update [of i ws load Stopped] by simp
qed

subsection \<open>A group is claimed once\<close>

definition claim_inv :: "(nat \<Rightarrow> string \<Rightarrow> bool) \<Rightarrow> string set \<Rightarrow> nat \<Rightarrow> string set \<times> claimer list \<Rightarrow> bool" where
  "claim_inv fits K n st \<longleftrightarrow> (case st of (gm, ws) \<Rightarrow> length ws = n \<and> gm \<subseteq> K \<and>
     (\<forall>i < n. \<forall>k. ws ! i = Claimed k \<longrightarrow> k \<in> K - gm \<and> fits i k) \<and>
     (\<forall>i < n. \<forall>j < n. \<forall>k. ws ! i = Claimed k \<and> ws ! j = Claimed k \<longrightarrow> i = j) \<and>
     (\<forall>k \<in> K - gm. \<exists>i < n. ws ! i = Claimed k) \<and>
     (\<forall>i < n. \<forall>ks. ws ! i = Trying ks \<longrightarrow> (\<forall>k \<in> gm. fits i k \<longrightarrow> k \<in> set ks)) \<and>
     (\<forall>i < n. ws ! i = Unclaimed \<longrightarrow> (\<forall>k \<in> gm. \<not> fits i k)))"

lemma claim_invD:
  assumes "claim_inv fits K n (gm, ws)"
  shows "length ws = n" "gm \<subseteq> K"
    "i < n \<Longrightarrow> ws ! i = Claimed k \<Longrightarrow> k \<in> K \<and> k \<notin> gm \<and> fits i k"
    "i < n \<Longrightarrow> j < n \<Longrightarrow> ws ! i = Claimed k \<Longrightarrow> ws ! j = Claimed k \<Longrightarrow> i = j"
    "k \<in> K \<Longrightarrow> k \<notin> gm \<Longrightarrow> \<exists>i < n. ws ! i = Claimed k"
    "i < n \<Longrightarrow> ws ! i = Trying ks \<Longrightarrow> k \<in> gm \<Longrightarrow> fits i k \<Longrightarrow> k \<in> set ks"
    "i < n \<Longrightarrow> ws ! i = Unclaimed \<Longrightarrow> k \<in> gm \<Longrightarrow> \<not> fits i k"
  using assms by (auto simp: claim_inv_def)

lemma claim_inv_move:
  assumes I: "claim_inv fits K n (gm, ws)" and i: "i < n" and w: "\<forall>k. ws ! i \<noteq> Claimed k" "\<forall>k. w \<noteq> Claimed k"
    and T: "\<forall>ks. w = Trying ks \<longrightarrow> (\<forall>k \<in> gm. fits i k \<longrightarrow> k \<in> set ks)" and U: "w = Unclaimed \<longrightarrow> (\<forall>k \<in> gm. \<not> fits i k)"
  shows "claim_inv fits K n (gm, ws[i := w])"
proof -
  have c: "ws[i := w] ! j = Claimed k \<longleftrightarrow> ws ! j = Claimed k" for j k
    using w i claim_invD(1) [OF I] by (cases "j = i") auto
  have t: "\<forall>k \<in> gm. fits j k \<longrightarrow> k \<in> set ks" if "j < n" "ws[i := w] ! j = Trying ks" for j ks
    using that T claim_invD(1,6) [OF I] i by (cases "j = i") auto
  have u: "\<forall>k \<in> gm. \<not> fits j k" if "j < n" "ws[i := w] ! j = Unclaimed" for j
    using that U claim_invD(1,7) [OF I] i by (cases "j = i") auto
  show ?thesis using I t u unfolding claim_inv_def prod.case c length_list_update by blast
qed

lemma claim_inv_step:
  assumes "claim_step fits st st'" "claim_inv fits K n st"
  shows "claim_inv fits K n st'"
  using assms
proof (induction rule: claim_step.induct)
  case (claim i ws k ks gm)
  then have new: "\<forall>j < n. ws ! j \<noteq> Claimed k" by (auto simp: claim_inv_def)
  have old: "ws ! i \<noteq> Claimed k'" for k' using claim by simp
  have "\<exists>j < n. ws[i := Claimed k] ! j = Claimed k'" if kk: "k' \<in> K - (gm - {k})" for k'
  proof (cases "k' = k")
    case True
    then show ?thesis using claim by (intro exI [of _ i]) (simp add: claim_inv_def)
  next
    case False
    then obtain j where "j < n" "ws ! j = Claimed k'" using kk claim_invD(5) [OF claim(5), of k'] by blast
    moreover from this have "j \<noteq> i" using old by blast
    ultimately show ?thesis by (intro exI [of _ j]) simp
  qed
  note e = this
  have c: "ws[i := Claimed k] ! j = Claimed k' \<longleftrightarrow> (if j = i then k' = k else ws ! j = Claimed k')" for j k'
    using claim(1) by auto
  have t: "ws[i := Claimed k] ! j = Trying ks' \<longleftrightarrow> j \<noteq> i \<and> ws ! j = Trying ks'"
    "ws[i := Claimed k] ! j = Unclaimed \<longleftrightarrow> j \<noteq> i \<and> ws ! j = Unclaimed" for j ks' using claim(1) by (cases "j = i"; simp)+
  note D = claim_invD [OF claim(5)]
  show ?case unfolding claim_inv_def prod.case length_list_update
  proof (intro conjI)
    show "\<forall>j < n. \<forall>k'. ws[i := Claimed k] ! j = Claimed k' \<longrightarrow> k' \<in> K - (gm - {k}) \<and> fits j k'"
      using c D(2,3) claim(3,4) by (metis DiffD2 DiffI DiffD1 insertI1 subsetD)
    show "\<forall>j < n. \<forall>j' < n. \<forall>k'. ws[i := Claimed k] ! j = Claimed k' \<and> ws[i := Claimed k] ! j' = Claimed k' \<longrightarrow> j = j'"
      using c D(4) new by metis
    show "\<forall>k' \<in> K - (gm - {k}). \<exists>j < n. ws[i := Claimed k] ! j = Claimed k'" using e by blast
    show "\<forall>j < n. \<forall>ks'. ws[i := Claimed k] ! j = Trying ks' \<longrightarrow> (\<forall>k' \<in> gm - {k}. fits j k' \<longrightarrow> k' \<in> set ks')"
      using t(1) D(6) by blast
    show "\<forall>j < n. ws[i := Claimed k] ! j = Unclaimed \<longrightarrow> (\<forall>k' \<in> gm - {k}. \<not> fits j k')" using t(2) D(7) by blast
  qed (use D(1,2) in blast)+
next
  case (snapshot i ws ks gm)
  then show ?case using claim_invD(1) [OF snapshot(5)] by (intro claim_inv_move) auto
next
  case (no_match i ws k ks gm)
  then show ?case using claim_invD(1) [OF no_match(4)] claim_invD(6) [OF no_match(4), of i "k # ks"] by (intro claim_inv_move) auto
next
  case (taken i ws k ks gm)
  then show ?case using claim_invD(1) [OF taken(5)] claim_invD(6) [OF taken(5), of i "k # ks"] by (intro claim_inv_move) auto
next
  case (give_up i ws gm)
  then show ?case using claim_invD(1) [OF give_up(3)] claim_invD(6) [OF give_up(3), of i "[]"] by (intro claim_inv_move) auto
qed

lemma claim_inv_reachable:
  assumes "(claim_step fits)\<^sup>*\<^sup>* (K, replicate n Waiting) st"
  shows "claim_inv fits K n st"
  using assms
proof (induction rule: rtranclp_induct)
  case base
  show ?case by (auto simp: claim_inv_def)
qed (rule claim_inv_step)

lemma final_claim:
  assumes "final (claim_step fits) (gm, ws)" "finite gm" "i < length ws"
  shows "(\<exists>k. ws ! i = Claimed k) \<or> ws ! i = Unclaimed"
proof (cases "ws ! i")
  note no = assms(1) [unfolded final_def, rule_format]
  {
    case Waiting
    obtain ks where "set ks = gm" "distinct ks" using finite_distinct_list [OF assms(2)] by blast
    then show ?thesis using claim_step.snapshot [OF assms(3) Waiting] no by blast
  next
    case (Trying ks)
    then show ?thesis
    proof (cases ks)
      case Nil
      then show ?thesis using no claim_step.give_up [OF assms(3)] Trying by blast
    next
      case (Cons k ks')
      then show ?thesis using no claim_step.no_match [OF assms(3), of k ks' fits gm] claim_step.taken [OF assms(3), of k ks' fits gm]
          claim_step.claim [OF assms(3), of k ks' fits gm] Trying by auto
    qed
  }
qed auto

fun patience :: "nat \<Rightarrow> claimer \<Rightarrow> nat" where
  "patience n Waiting = n + 2"
| "patience n (Trying ks) = length ks + 1"
| "patience n w = 0"

lemma claim_ends:
  assumes "claim_step fits (gm, ws) (gm', ws')" "gm \<subseteq> K" "finite K"
  shows "sum_list (map (patience (card K)) ws') < sum_list (map (patience (card K)) ws)"
  using assms(1)
proof (cases rule: claim_step.cases)
  case (snapshot i ks)
  then have "length ks \<le> card K" using assms(2,3) by (metis card_mono distinct_card)
  then show ?thesis using snapshot sum_list_map_update [of i ws "patience (card K)" "Trying ks"] by simp
next
  case (no_match i k ks)
  then show ?thesis using sum_list_map_update [of i ws "patience (card K)" "Trying ks"] by simp
next
  case (taken i k ks)
  then show ?thesis using sum_list_map_update [of i ws "patience (card K)" "Trying ks"] by simp
next
  case (claim i k ks)
  then show ?thesis using sum_list_map_update [of i ws "patience (card K)" "Claimed k"] by simp
next
  case (give_up i)
  then show ?thesis using sum_list_map_update [of i ws "patience (card K)" Unclaimed] by simp
qed

text \<open>
  The workers that match the transactions of a batch against the shared map of groups, in every
  interleaving of their steps: no group is matched to two transactions, a transaction is matched
  only to a group that fits it, and when no worker can go on, each transaction is either matched or
  unmatched, and unmatched only if every group that fits it has been matched to another one.
\<close>

lemma group_claims_exclusive:
  assumes run: "(claim_step (group_fits lev xs gs rules))\<^sup>*\<^sup>* (set (buildGroupMap gs), replicate (length xs) Waiting) (gm, ws)"
    and i: "i < length xs"
  shows "(\<forall>j k. j < length xs \<and> ws ! i = Claimed k \<and> ws ! j = Claimed k \<longrightarrow> i = j) \<and>
    (\<forall>k. ws ! i = Claimed k \<longrightarrow> k \<in> fst ` set gs \<and> matchesGroup lev (xs ! i) (group_of gs k) rules) \<and>
    (final (claim_step (group_fits lev xs gs rules)) (gm, ws) \<longrightarrow>
       (\<exists>k. ws ! i = Claimed k) \<or>
       ws ! i = Unclaimed \<and> (\<forall>k \<in> fst ` set gs. matchesGroup lev (xs ! i) (group_of gs k) rules \<longrightarrow>
         (\<exists>j < length xs. ws ! j = Claimed k)))"
proof -
  let ?fits = "group_fits lev xs gs rules"
  have K: "set (buildGroupMap gs) = fst ` set gs" by (simp add: buildGroupMap_def)
  note I = claim_inv_reachable [OF run, unfolded K]
  note D = claim_invD [OF I]
  have "finite gm" using D(2) finite_subset by blast
  note fin = final_claim [OF _ this, of ?fits ws i]
  have un: "\<exists>j < length xs. ws ! j = Claimed k" if "ws ! i = Unclaimed" "k \<in> fst ` set gs" "?fits i k" for k
    using D(5) [OF that(2)] D(7) [OF i that(1), of k] that(3) by blast
  show ?thesis
  proof (intro conjI impI allI)
    show "i = j" if "j < length xs \<and> ws ! i = Claimed k \<and> ws ! j = Claimed k" for j k using D(4) [OF i] that by simp
    show "k \<in> fst ` set gs" "matchesGroup lev (xs ! i) (group_of gs k) rules" if "ws ! i = Claimed k" for k
      using D(3) [OF i that] by (simp_all add: group_fits_def)
    assume "final (claim_step ?fits) (gm, ws)"
    note fin [OF this]
    then have "(\<exists>k. ws ! i = Claimed k) \<or> ws ! i = Unclaimed" using D(1) i by simp
    then show "(\<exists>k. ws ! i = Claimed k) \<or> ws ! i = Unclaimed \<and>
       (\<forall>k \<in> fst ` set gs. matchesGroup lev (xs ! i) (group_of gs k) rules \<longrightarrow> (\<exists>j < length xs. ws ! j = Claimed k))"
      using un unfolding group_fits_def by blast
  qed
qed

text \<open>Two transactions that fit the same group: the first to claim it has it.\<close>

subsection \<open>Pages of groups\<close>

lemma add_group_keys: "fst ` set (add_group k t gs) = insert k (fst ` set gs)"
  by (induction k t gs rule: add_group.induct) auto

lemma add_group_distinct: "distinct (map fst gs) \<Longrightarrow> distinct (map fst (add_group k t gs))"
proof (induction k t gs rule: add_group.induct)
  case (2 k t k' ts gs)
  then show ?case using add_group_keys [of k t gs] by auto
qed simp

lemma add_group_nonempty: "\<forall>(k, ts) \<in> set gs. ts \<noteq> [] \<Longrightarrow> \<forall>(k, ts) \<in> set (add_group k0 t gs). ts \<noteq> []"
  by (induction k0 t gs rule: add_group.induct) auto

lemma group_rows_ok:
  "distinct (map fst (group_rows rows))" "\<forall>(k, ts) \<in> set (group_rows rows). ts \<noteq> []"
  "fst ` set (group_rows rows) = fst ` set rows"
proof -
  have "distinct (map fst gs) \<and> (\<forall>(k, ts) \<in> set gs. ts \<noteq> []) \<Longrightarrow>
    distinct (map fst (fold (\<lambda>(k, t). add_group k t) rows gs)) \<and>
    (\<forall>(k, ts) \<in> set (fold (\<lambda>(k, t). add_group k t) rows gs). ts \<noteq> []) \<and>
    fst ` set (fold (\<lambda>(k, t). add_group k t) rows gs) = fst ` set gs \<union> fst ` set rows" for gs
  proof (induction rows arbitrary: gs)
    case (Cons r rows)
    obtain k t where r: "r = (k, t)" by (cases r)
    have "distinct (map fst (add_group k t gs)) \<and> (\<forall>(k, ts) \<in> set (add_group k t gs). ts \<noteq> [])"
      using Cons.prems by (intro conjI add_group_distinct add_group_nonempty) simp_all
    from Cons.IH [OF this] show ?case by (simp add: r add_group_keys)
  qed simp
  from this [of "[]"] show "distinct (map fst (group_rows rows))" "\<forall>(k, ts) \<in> set (group_rows rows). ts \<noteq> []"
    "fst ` set (group_rows rows) = fst ` set rows" by (simp_all add: group_rows_def)
qed

lemma group_rows_Nil [simp]: "group_rows rows = [] \<longleftrightarrow> rows = []"
  using group_rows_ok(3) [of rows] by (metis image_is_empty set_empty)

text \<open>The pages of the group query: the rows in chunks, each grouped by itself.\<close>

definition group_pages :: "nat \<Rightarrow> (string \<times> Transaction) list \<Rightarrow> groups list" where
  "group_pages b rows = map (\<lambda>i. group_rows (take b (drop (i * b) rows))) [0..<(length rows + b - 1) div b]"

lemma group_pages_nth:
  assumes "0 < b"
  shows "i < length (group_pages b rows) \<Longrightarrow> group_rows (take b (drop (i * b) rows)) = group_pages b rows ! i \<and> group_pages b rows ! i \<noteq> []"
    and "group_rows (take b (drop (length (group_pages b rows) * b) rows)) = []"
proof -
  let ?n = "(length rows + b - 1) div b"
  have len: "length (group_pages b rows) = ?n" by (simp add: group_pages_def)
  have "length rows \<le> ?n * b"
  proof -
    have "(length rows + b - 1) mod b \<le> b - 1" using assms by (simp add: less_Suc_eq_le [symmetric])
    moreover have "?n * b + (length rows + b - 1) mod b = length rows + b - 1" by (rule div_mult_mod_eq)
    ultimately show ?thesis using assms by linarith
  qed
  then show "group_rows (take b (drop (length (group_pages b rows) * b) rows)) = []" by (simp add: len)
  assume i: "i < length (group_pages b rows)"
  then have "(i + 1) * b \<le> ?n * b" unfolding len by (intro mult_le_mono1) simp
  also have "\<dots> \<le> length rows + b - 1" by (rule div_times_less_eq_dividend)
  finally have "i * b < length rows" using assms by (simp add: algebra_simps)
  then show "group_rows (take b (drop (i * b) rows)) = group_pages b rows ! i \<and> group_pages b rows ! i \<noteq> []"
    using i assms by (simp add: group_pages_def)
qed

lemma group_loop_pages:
  assumes fetch: "\<And>off s. P s \<Longrightarrow> \<exists>s'. fetch off s = (s', Inr (g off)) \<and> P s'"
    and pages: "\<And>i. i < length ps \<Longrightarrow> g (i * b) = ps ! i \<and> ps ! i \<noteq> []" "g (length ps * b) = []"
    and handle: "\<And>i. i < length ps \<Longrightarrow> handle (i * b) (ps ! i) = (False, fm (ps ! i), fu (ps ! i))"
    and "i \<le> length ps" "P s"
  shows "\<exists>s'. P s' \<and> group_loop fetch handle b (i * b) s =
    Some (s', i < length ps, concat (map fm (drop i ps)), concat (map fu (drop i ps)))"
  using assms(5,6)
proof (induction "length ps - i" arbitrary: i s)
  case 0
  then show ?case using fetch [OF 0(3), of "i * b"] pages(2) by (subst group_loop.simps) auto
next
  case (Suc n)
  then have i: "i < length ps" by simp
  obtain s1 where s1: "fetch (i * b) s = (s1, Inr (ps ! i))" "P s1" using fetch [OF Suc(4)] pages(1) [OF i] by metis
  have "n = length ps - (i + 1)" "i + 1 \<le> length ps" using Suc(2) i by simp_all
  from Suc(1) [OF this s1(2)] obtain s2 where s2: "P s2" "group_loop fetch handle b ((i + 1) * b) s1 =
    Some (s2, i + 1 < length ps, concat (map fm (drop (i + 1) ps)), concat (map fu (drop (i + 1) ps)))" by blast
  have "(i + 1) * b = i * b + b" by simp
  then have "group_loop fetch handle b (i * b) s =
    Some (s2, True, fm (ps ! i) @ concat (map fm (drop (i + 1) ps)), fu (ps ! i) @ concat (map fu (drop (i + 1) ps)))"
    using s1 s2(2) pages(1) [OF i] by (subst group_loop.simps) (simp add: handle [OF i] add.commute)
  moreover have "drop i ps = ps ! i # drop (i + 1) ps" using i by (simp add: Cons_nth_drop_Suc)
  ultimately show ?case using s2(1) i by auto
qed

definition coherent :: "recon_env \<Rightarrow> (nat \<Rightarrow> string) \<Rightarrow> (nat \<Rightarrow> groups) \<Rightarrow> recon \<Rightarrow> bool" where
  "coherent R ckey fresh s \<longleftrightarrow> (\<forall>off gs. cache_get (rv_F R) (rv_now R) (rc_groups s) (ckey off) = Some gs \<longrightarrow> gs = [] \<or> gs = fresh off)"

lemma page_key_inj: "page_key p b off = page_key p b off' \<longleftrightarrow> off = off'"
proof
  assume "page_key p b off = page_key p b off'"
  then have "show_nat off = show_nat off'" by (simp add: page_key_def)
  then show "off = off'" by (metis parse_show_nat option.inject)
qed simp

text \<open>The two group queries: a coherent cache answers like the table.\<close>

lemma cached_query:
  assumes F: "rv_F R = (\<lambda>_. False)" and C: "coherent R (page_key p b) fresh s"
  shows "\<exists>s'. group_cache R (page_key p b off) (Inr (fresh off)) s = (s', Inr (fresh off)) \<and>
    coherent R (page_key p b) fresh s' \<and> (\<exists>c. s' = s\<lparr>rc_groups := c\<rparr>)"
proof -
  define s1 where "s1 = (if fresh off = [] then s
    else s\<lparr>rc_groups := cache_set (rv_F R) (rv_now R) (5 * Minute) (page_key p b off) (fresh off) (rc_groups s)\<rparr>)"
  have same: "\<exists>c. s = s\<lparr>rc_groups := c\<rparr>" by (rule exI [of _ "rc_groups s"]) simp
  then have S: "\<exists>c. s1 = s\<lparr>rc_groups := c\<rparr>" by (auto simp: s1_def)
  have K: "coherent R (page_key p b) fresh s1"
    using C F by (auto simp: s1_def coherent_def cache_get_def cache_set_def Minute_def page_key_inj split: if_splits)
  show ?thesis
  proof (cases "cache_get (rv_F R) (rv_now R) (rc_groups s) (page_key p b off)")
    case None
    then have "group_cache R (page_key p b off) (Inr (fresh off)) s = (s1, Inr (fresh off))"
      by (simp add: group_cache_def s1_def)
    then show ?thesis using K S by blast
  next
    case (Some gs)
    then have "gs = [] \<or> gs = fresh off" using C unfolding coherent_def by blast
    then have "group_cache R (page_key p b off) (Inr (fresh off)) s = (if gs = [] then s1 else s, Inr (fresh off))"
      using Some by (auto simp: group_cache_def s1_def)
    then show ?thesis using K S C same by (cases "gs = []") auto
  qed
qed

abbreviation internal_rows :: "recon_env \<Rightarrow> (Transaction \<Rightarrow> string) \<Rightarrow> recon \<Rightarrow> (string \<times> Transaction) list" where
  "internal_rows R key s \<equiv> map (\<lambda>(k, t). (k, scan_row t)) (keyed R key (st_transactions (rc_store s)))"

abbreviation uploaded_rows :: "recon_env \<Rightarrow> (ExternalTransaction \<Rightarrow> string) \<Rightarrow> string \<Rightarrow> recon \<Rightarrow> (string \<times> Transaction) list" where
  "uploaded_rows R key upload s \<equiv> map (\<lambda>(k, x). (k, ToInternalTransaction x))
     (keyed R key (map snd (filter (\<lambda>r. fst r = upload) (rc_external s))))"

lemma GroupTransactions_pages:
  assumes "rv_F R = (\<lambda>_. False)" "groupedTransactionsQuery R gc = Some key"
    and "coherent R (page_key (''transactions:grouped:'' @ gc @ '':'') (int b)) (\<lambda>off. group_rows (take b (drop off (internal_rows R key s)))) s"
  shows "\<exists>s'. GroupTransactions R gc (int b) off s = (s', Inr (group_rows (take b (drop off (internal_rows R key s))))) \<and>
    coherent R (page_key (''transactions:grouped:'' @ gc @ '':'') (int b)) (\<lambda>off. group_rows (take b (drop off (internal_rows R key s)))) s' \<and>
    (\<exists>c. s' = s\<lparr>rc_groups := c\<rparr>)"
  using cached_query [OF assms(1,3), of off] assms(1,2)
  by (simp add: GroupTransactions_def)

lemma FetchAndGroup_pages:
  assumes "rv_F R = (\<lambda>_. False)" "groupedExternalTransactionsQuery R gc = Some key"
    and "coherent R (page_key (''external_transactions:grouped:'' @ upload @ '':'' @ gc @ '':'') (int b))
      (\<lambda>off. group_rows (take b (drop off (uploaded_rows R key upload s)))) s"
  shows "\<exists>s'. FetchAndGroupExternalTransactions R upload gc (int b) off s =
      (s', Inr (group_rows (take b (drop off (uploaded_rows R key upload s))))) \<and>
    coherent R (page_key (''external_transactions:grouped:'' @ upload @ '':'' @ gc @ '':'') (int b))
      (\<lambda>off. group_rows (take b (drop off (uploaded_rows R key upload s)))) s' \<and> (\<exists>c. s' = s\<lparr>rc_groups := c\<rparr>)"
  using cached_query [OF assms(1,3), of off] assms(1,2)
  by (simp add: FetchAndGroupExternalTransactions_def)

subsection \<open>The outcome of the group strategies\<close>

text \<open>A batch that no group of which matches the transaction.\<close>

definition misses :: "recon_env \<Rightarrow> Transaction \<Rightarrow> MatchingRule list \<Rightarrow> groups \<Rightarrow> bool" where
  "misses R x rules gs \<longleftrightarrow> (\<forall>(k, ts) \<in> set gs. \<not> matchesGroup (rv_lev R) x ts rules)"

definition batch_matches :: "recon_env \<Rightarrow> Transaction \<Rightarrow> MatchingRule list \<Rightarrow> bool \<Rightarrow> groups \<Rightarrow> Match list" where
  "batch_matches R x rules ext gs =
     (case matchSingleTransaction R x gs (buildGroupMap gs) rules ext of None \<Rightarrow> [] | Some (gm, ms) \<Rightarrow> ms)"

definition batch_unmatched :: "recon_env \<Rightarrow> Transaction \<Rightarrow> MatchingRule list \<Rightarrow> groups \<Rightarrow> string list" where
  "batch_unmatched R x rules gs = (if misses R x rules gs then [t_TransactionID x] else [])"

lemma matchSingle_None:
  assumes "\<forall>ks. mset (rv_keys R ks) = mset ks" "distinct (map fst gs)"
  shows "matchSingleTransaction R x gs (buildGroupMap gs) rules ext = None \<longleftrightarrow> misses R x rules gs"
proof -
  have s: "set (rv_keys R (buildGroupMap gs)) = fst ` set gs"
    using assms(1) by (metis mset_eq_setD buildGroupMap_def set_map)
  have g: "group_of gs k = ts" if "(k, ts) \<in> set gs" for k ts using that assms(2) by (simp add: group_of_def)
  have "matchSingleTransaction R x gs (buildGroupMap gs) rules ext = None \<longleftrightarrow>
    (\<forall>k \<in> fst ` set gs. \<not> matchesGroup (rv_lev R) x (group_of gs k) rules)"
    unfolding s [symmetric] by (simp add: matchSingleTransaction_def split: option.split) (metis find_None_iff option.distinct(1))
  also have "\<dots> \<longleftrightarrow> misses R x rules gs" using g by (fastforce simp: misses_def)
  finally show ?thesis .
qed

lemma batch_matches_empty:
  assumes "\<forall>ks. mset (rv_keys R ks) = mset ks" "distinct (map fst gs)" "\<forall>(k, ts) \<in> set gs. ts \<noteq> []"
  shows "batch_matches R x rules ext gs = [] \<longleftrightarrow> misses R x rules gs"
proof (cases "matchSingleTransaction R x gs (buildGroupMap gs) rules ext")
  case None
  then show ?thesis using matchSingle_None [OF assms(1,2), of x rules ext] by (simp add: batch_matches_def)
next
  case (Some r)
  then obtain k where f: "find (\<lambda>k. matchesGroup (rv_lev R) x (group_of gs k) rules) (rv_keys R (buildGroupMap gs)) = Some k"
    and k: "snd r = group_matches ext x (group_of gs k)" by (auto simp: matchSingleTransaction_def split: option.splits)
  then have "k \<in> set (rv_keys R (buildGroupMap gs))" by (auto simp: find_Some_iff)
  then have "k \<in> fst ` set gs" using assms(1) by (metis mset_eq_setD buildGroupMap_def set_map)
  then obtain ts where "(k, ts) \<in> set gs" by auto
  then have "group_of gs k \<noteq> []" using assms(2,3) by (auto simp: group_of_def)
  then show ?thesis using Some k matchSingle_None [OF assms(1,2), of x rules ext]
    by (auto simp: batch_matches_def group_matches_def split: prod.splits)
qed

lemma handle_single:
  assumes "\<forall>ks. mset (rv_keys R ks) = mset ks" "\<not> rv_raced R [x] off" "distinct (map fst gs)"
  shows "handle_batch R [x] rules ext off gs = (False, batch_matches R x rules ext gs, batch_unmatched R x rules gs)"
  using assms(2) matchSingle_None [OF assms(1,3), of x rules ext]
  by (auto simp: handle_batch_def batch_matches_def batch_unmatched_def split: option.splits prod.splits)

lemma concat_unmatched:
  "concat (map (batch_unmatched R x rules) ps) = replicate (length (filter (misses R x rules) ps)) (t_TransactionID x)"
  by (induction ps) (auto simp: batch_unmatched_def)

definition page_outcome ::
    "recon_env \<Rightarrow> Transaction \<Rightarrow> MatchingRule list \<Rightarrow> bool \<Rightarrow> groups list \<Rightarrow> Match list \<times> string list" where
  "page_outcome R x rules ext ps = (concat (map (batch_matches R x rules ext) ps),
     replicate (if ps = [] then 1 else length (filter (misses R x rules) ps)) (t_TransactionID x))"

lemma page_outcome_found:
  assumes "\<forall>ks. mset (rv_keys R ks) = mset ks" "ps = group_pages b rows"
  shows "fst (page_outcome R x rules ext ps) = [] \<longleftrightarrow> (\<forall>gs \<in> set ps. misses R x rules gs)"
proof -
  have "distinct (map fst gs) \<and> (\<forall>(k, ts) \<in> set gs. ts \<noteq> [])" if gs: "gs \<in> set ps" for gs
  proof -
    obtain r where "gs = group_rows r" using gs assms(2) by (auto simp: group_pages_def)
    then show ?thesis using group_rows_ok(1,2) [of r] by simp
  qed
  then show ?thesis using batch_matches_empty [OF assms(1)] by (auto simp: page_outcome_def)
qed

lemma group_strategy_outcome:
  assumes keys: "\<forall>ks. mset (rv_keys R ks) = mset ks" and raced: "\<forall>off. \<not> rv_raced R [x] off" and b: "0 < b"
    and fetch: "\<And>off s. P s \<Longrightarrow> \<exists>s'. fetch off s = (s', Inr (group_rows (take b (drop off rows)))) \<and> P s'" and "P s"
  shows "\<exists>s'. P s' \<and> Option.bind (map_option (\<lambda>(s', r). (s', report_all [x] r))
      (group_loop fetch (handle_batch R [x] rules ext) b 0 s)) (collect [x]) =
    (if length (filter (misses R x rules) (group_pages b rows)) \<le> 1
     then Some (s', page_outcome R x rules ext (group_pages b rows)) else None)"
proof -
  let ?ps = "group_pages b rows"
  have h: "handle_batch R [x] rules ext (i * b) (?ps ! i) =
    (False, batch_matches R x rules ext (?ps ! i), batch_unmatched R x rules (?ps ! i))" if "i < length ?ps" for i
    using that handle_single [OF keys] raced group_rows_ok(1) by (simp add: group_pages_def)
  from group_loop_pages [where P = P and fetch = fetch and ps = ?ps and i = 0 and s = s and b = b and
      g = "\<lambda>off. group_rows (take b (drop off rows))" and handle = "handle_batch R [x] rules ext" and
      fm = "batch_matches R x rules ext" and fu = "batch_unmatched R x rules", OF fetch group_pages_nth [OF b] h _ \<open>P s\<close>]
  obtain s' where s': "P s'" "group_loop fetch (handle_batch R [x] rules ext) b 0 s = Some (s', ?ps \<noteq> [],
    concat (map (batch_matches R x rules ext) ?ps), replicate (length (filter (misses R x rules) ?ps)) (t_TransactionID x))"
    by (auto simp: concat_unmatched)
  then show ?thesis
    by (intro exI [of _ s']) (auto simp: report_all_def collect_def page_outcome_def)
qed

lemma oneToMany_pages:
  assumes F: "rv_F R = (\<lambda>_. False)" and b: "rv_BatchSize R = int b" "0 < b" and key: "groupedTransactionsQuery R gc = Some key"
    and keys: "\<forall>ks. mset (rv_keys R ks) = mset ks" and raced: "\<forall>off. \<not> rv_raced R [x] off"
    and C: "coherent R (page_key (''transactions:grouped:'' @ gc @ '':'') (int b)) (\<lambda>off. group_rows (take b (drop off (internal_rows R key s)))) s"
  shows "\<exists>c. oneToManyReconciliation R [x] gc rules ext s =
    (if length (filter (misses R x rules) (group_pages b (internal_rows R key s))) \<le> 1
     then Some (s\<lparr>rc_groups := c\<rparr>, page_outcome R x rules ext (group_pages b (internal_rows R key s))) else None)"
proof -
  let ?P = "\<lambda>s'. coherent R (page_key (''transactions:grouped:'' @ gc @ '':'') (int b)) (\<lambda>off. group_rows (take b (drop off (internal_rows R key s)))) s' \<and>
    (\<exists>c. s' = s\<lparr>rc_groups := c\<rparr>)"
  have step: "\<exists>s'. GroupTransactions R gc (int b) off s1 = (s', Inr (group_rows (take b (drop off (internal_rows R key s))))) \<and> ?P s'"
    if Ps: "?P s1" for off s1
  proof -
    obtain c where c: "s1 = s\<lparr>rc_groups := c\<rparr>" using Ps by blast
    then have "internal_rows R key s1 = internal_rows R key s" by simp
    with GroupTransactions_pages [OF F key, of b s1 off] Ps c show ?thesis by fastforce
  qed
  have "?P s" using C by (auto intro: exI [of _ "rc_groups s"])
  from group_strategy_outcome [where P = ?P and fetch = "GroupTransactions R gc (int b)" and rows = "internal_rows R key s" and rules = rules
      and ext = ext, OF keys raced b(2) step this]
  show ?thesis unfolding oneToManyReconciliation_def oneToMany_def b(1) nat_int by blast
qed

lemma manyToOne_pages:
  assumes F: "rv_F R = (\<lambda>_. False)" and b: "rv_BatchSize R = int b" "0 < b" and key: "groupedExternalTransactionsQuery R gc = Some key"
    and keys: "\<forall>ks. mset (rv_keys R ks) = mset ks" and raced: "\<forall>off. \<not> rv_raced R [x] off"
    and C: "coherent R (page_key (''external_transactions:grouped:'' @ upload @ '':'' @ gc @ '':'') (int b))
      (\<lambda>off. group_rows (take b (drop off (uploaded_rows R key upload s)))) s"
  shows "\<exists>c. manyToOneReconciliation R [x] upload gc rules ext s =
    (if length (filter (misses R x rules) (group_pages b (uploaded_rows R key upload s))) \<le> 1
     then Some (s\<lparr>rc_groups := c\<rparr>, page_outcome R x rules ext (group_pages b (uploaded_rows R key upload s))) else None)"
proof -
  let ?P = "\<lambda>s'. coherent R (page_key (''external_transactions:grouped:'' @ upload @ '':'' @ gc @ '':'') (int b))
      (\<lambda>off. group_rows (take b (drop off (uploaded_rows R key upload s)))) s' \<and> (\<exists>c. s' = s\<lparr>rc_groups := c\<rparr>)"
  have step: "\<exists>s'. FetchAndGroupExternalTransactions R upload gc (int b) off s1 =
      (s', Inr (group_rows (take b (drop off (uploaded_rows R key upload s))))) \<and> ?P s'" if Ps: "?P s1" for off s1
  proof -
    obtain c where c: "s1 = s\<lparr>rc_groups := c\<rparr>" using Ps by blast
    then have "uploaded_rows R key upload s1 = uploaded_rows R key upload s" by simp
    with FetchAndGroup_pages [OF F key, of upload b s1 off] Ps c show ?thesis by fastforce
  qed
  have "?P s" using C by (auto intro: exI [of _ "rc_groups s"])
  from group_strategy_outcome [where P = ?P and fetch = "FetchAndGroupExternalTransactions R upload gc (int b)"
      and rows = "uploaded_rows R key upload s" and rules = rules and ext = ext, OF keys raced b(2) step this]
  show ?thesis unfolding manyToOneReconciliation_def manyToOne_def b(1) nat_int by blast
qed

lemma empty_coherent: "rc_groups s = Map.empty \<Longrightarrow> coherent R ckey fresh s"
  by (simp add: coherent_def cache_get_def)

text \<open>
  One external transaction against the groups of the ledger, page by page, without failures and
  with the workers slower than the loop. The run returns exactly when at most one page has no
  group that matches: from the second such page on a worker blocks on the full channel of unmatched
  ids and the run hangs. When it returns, the transaction is reported unmatched exactly if some page
  misses it or there is none, and matches are reported exactly if some page has a matching group.
\<close>

lemma one_to_many_outcome:
  assumes F: "rv_F R = (\<lambda>_. False)" and b: "rv_BatchSize R = int b" "0 < b" and key: "groupedTransactionsQuery R gc = Some key"
    and keys: "\<forall>ks. mset (rv_keys R ks) = mset ks" and raced: "\<forall>off. \<not> rv_raced R [x] off"
    and C: "rc_groups s = Map.empty" and ps: "ps = group_pages b (internal_rows R key s)"
  shows "((\<exists>r. oneToManyReconciliation R [x] gc rules False s = Some r) \<longleftrightarrow> length (filter (misses R x rules) ps) \<le> 1) \<and>
    (\<forall>s' ms us. oneToManyReconciliation R [x] gc rules False s = Some (s', ms, us) \<longrightarrow>
       us = (if ps = [] \<or> (\<exists>gs \<in> set ps. misses R x rules gs) then [t_TransactionID x] else []) \<and>
       (ms = [] \<longleftrightarrow> (\<forall>gs \<in> set ps. misses R x rules gs)) \<and> (\<exists>c. s' = s\<lparr>rc_groups := c\<rparr>))"
proof -
  obtain c where c: "oneToManyReconciliation R [x] gc rules False s = (if length (filter (misses R x rules) ps) \<le> 1
     then Some (s\<lparr>rc_groups := c\<rparr>, page_outcome R x rules False ps) else None)"
    using oneToMany_pages [OF F b key keys raced empty_coherent [OF C], of rules False] unfolding ps by blast
  have "replicate (if ps = [] then 1 else length (filter (misses R x rules) ps)) (t_TransactionID x) =
    (if ps = [] \<or> (\<exists>gs \<in> set ps. misses R x rules gs) then [t_TransactionID x] else [])"
    if "length (filter (misses R x rules) ps) \<le> 1"
  proof (cases "filter (misses R x rules) ps")
    case Nil
    then show ?thesis by (auto simp: filter_empty_conv)
  next
    case (Cons gs r)
    then have "gs \<in> set (filter (misses R x rules) ps)" by simp
    then have "gs \<in> set ps" "misses R x rules gs" by (simp_all only: set_filter mem_Collect_eq)
    then show ?thesis using that Cons by auto
  qed
  note u = this
  show ?thesis
  proof (cases "length (filter (misses R x rules) ps) \<le> 1")
    case True
    let ?us = "if ps = [] \<or> (\<exists>gs \<in> set ps. misses R x rules gs) then [t_TransactionID x] else []"
    have "page_outcome R x rules False ps = (fst (page_outcome R x rules False ps), ?us)"
      unfolding page_outcome_def u [OF True] by simp
    then have r: "oneToManyReconciliation R [x] gc rules False s =
      Some (s\<lparr>rc_groups := c\<rparr>, fst (page_outcome R x rules False ps), ?us)" using c True by metis
    show ?thesis
    proof (intro conjI allI impI)
      show "(\<exists>r. oneToManyReconciliation R [x] gc rules False s = Some r) \<longleftrightarrow> length (filter (misses R x rules) ps) \<le> 1"
        using r True by blast
      fix s' ms us assume "oneToManyReconciliation R [x] gc rules False s = Some (s', ms, us)"
      with r have e: "s' = s\<lparr>rc_groups := c\<rparr>" "ms = fst (page_outcome R x rules False ps)" "us = ?us" by simp_all
      show "us = ?us" by (rule e(3))
      show "ms = [] \<longleftrightarrow> (\<forall>gs \<in> set ps. misses R x rules gs)" unfolding e(2) by (rule page_outcome_found [OF keys ps])
      show "\<exists>c. s' = s\<lparr>rc_groups := c\<rparr>" using e(1) by blast
    qed
  next
    case False
    then show ?thesis using c by simp
  qed
qed

text \<open>A quiet environment: no failures, map keys in their order, one row a page.\<close>

definition calm :: recon_env where
  "calm = \<lparr>rv_F = (\<lambda>_. False), rv_now = 10, rv_stamp = [], rv_lev = (\<lambda>_ _. 9), rv_BatchSize = 1, rv_MaxWorkers = 2,
     rv_ProgressInterval = 100, rv_keys = (\<lambda>ks. ks), rv_numeric_text = (\<lambda>_. []), rv_time_text = (\<lambda>_. []), rv_collate = (\<lambda>k. k),
     rv_raced = (\<lambda>_ _. False), rv_seen = (\<lambda>_. None), rv_fetch_seen = True\<rparr>"

definition quiet_tables :: "Transaction list \<Rightarrow> recon" where
  "quiet_tables ts = \<lparr>rc_store = \<lparr>st_balances = [], st_transactions = ts, st_outbox = [], st_ledgers = []\<rparr>,
     rc_reconciliations = [], rc_matches = [], rc_unmatched = [], rc_external = [], rc_progress = Map.empty,
     rc_rules = [], rc_extpages = Map.empty, rc_txnpages = Map.empty, rc_groups = Map.empty\<rparr>"

definition named :: "string \<Rightarrow> string \<Rightarrow> Transaction" where
  "named tid r = zero_Transaction\<lparr>t_TransactionID := tid, t_Reference := r\<rparr>"

lemmas quiet_simps = calm_def quiet_tables_def named_def zero_Transaction_def scan_row_def keyed_def group_pages_def group_rows_def
  misses_def matchesGroup_def matchesRules_def criterionMet_def group_txn_def rule_of_def crit_def matchesString_def
  str_split_def has_prefix_def EqualFold_def groupedTransactionsQuery_def

text \<open>Two rows on two pages, neither of which matches: the run hangs.\<close>

lemma one_to_many_hangs:
  "oneToManyReconciliation calm [named ''x'' ''q''] ''reference'' [rule_of [crit ''reference'' ''equals'' 0]] False
     (quiet_tables [named ''t'' ''r'', named ''u'' ''s'']) = None"
proof -
  let ?s = "quiet_tables [named ''t'' ''r'', named ''u'' ''s'']"
  let ?ps = "group_pages 1 (internal_rows calm t_Reference ?s)"
  let ?rules = "[rule_of [crit ''reference'' ''equals'' 0]]"
  have ps: "?ps = [[(''r'', [named ''t'' ''r''])], [(''s'', [named ''u'' ''s''])]]" by (simp add: quiet_simps numeral_2_eq_2)
  have ne: "\<not> EqualFold ''q'' ''r''" "\<not> EqualFold ''q'' ''s''" by code_simp+
  then have "misses calm (named ''x'' ''q'') ?rules [(''r'', [named ''t'' ''r''])]"
    "misses calm (named ''x'' ''q'') ?rules [(''s'', [named ''u'' ''s''])]"
    by (simp_all add: misses_def matchesGroup_def matchesRules_def criterionMet_def group_txn_def rule_of_def crit_def matchesString_def
        str_split_def has_prefix_def named_def zero_Transaction_def calm_def)
  then have "\<not> length (filter (misses calm (named ''x'' ''q'') ?rules) ?ps) \<le> 1" unfolding ps by simp
  with oneToMany_pages [of calm 1 "''reference''" t_Reference "named ''x'' ''q''" ?s ?rules False]
  show ?thesis by (auto simp: calm_def quiet_tables_def groupedTransactionsQuery_def empty_coherent)
qed

end
