(* ===== verification/Reconciled.thy ===== *)
theory Reconciled
  imports Reconciling
begin

text \<open>
  What a whole reconciliation run leaves behind: the strategies write nothing but the page caches,
  the counters of the processor agree with the rows it adds, a dry run adds none, and a one-to-one
  run without failures ends with every uploaded transaction matched or unmatched.
\<close>

section \<open>What the strategies touch\<close>

definition same_tables :: "recon \<Rightarrow> recon \<Rightarrow> bool" where
  "same_tables s s' \<longleftrightarrow> (\<exists>x t g. s' = s\<lparr>rc_extpages := x, rc_txnpages := t, rc_groups := g\<rparr>)"

lemma same_tables_refl [simp]: "same_tables s s"
  unfolding same_tables_def by (intro exI [of _ "rc_extpages s"] exI [of _ "rc_txnpages s"] exI [of _ "rc_groups s"]) simp

lemma same_tables_trans: "same_tables s s1 \<Longrightarrow> same_tables s1 s2 \<Longrightarrow> same_tables s s2"
  unfolding same_tables_def by fastforce

lemma same_tables_fields:
  assumes "same_tables s s'"
  shows "rc_store s' = rc_store s" "rc_reconciliations s' = rc_reconciliations s" "rc_matches s' = rc_matches s"
    "rc_unmatched s' = rc_unmatched s" "rc_external s' = rc_external s" "rc_progress s' = rc_progress s" "rc_rules s' = rc_rules s"
  using assms by (auto simp: same_tables_def)

lemma same_tables_caches [simp]:
  "same_tables s (s\<lparr>rc_groups := g\<rparr>)" "same_tables s (s\<lparr>rc_extpages := x\<rparr>)" "same_tables s (s\<lparr>rc_txnpages := t\<rparr>)"
  unfolding same_tables_def by (rule exI [of _ "rc_extpages s"], rule exI [of _ "rc_txnpages s"], rule exI [of _ g], simp)
    (rule exI [of _ x], rule exI [of _ "rc_txnpages s"], rule exI [of _ "rc_groups s"], simp,
     rule exI [of _ "rc_extpages s"], rule exI [of _ t], rule exI [of _ "rc_groups s"], simp)

lemma group_cache_same: "same_tables s (fst (group_cache R ckey q s))"
  by (auto simp: group_cache_def Let_def split: option.splits sum.splits)

lemma fetch_same:
  "same_tables s (fst (GroupTransactions R gc b off s))"
  "same_tables s (fst (FetchAndGroupExternalTransactions R upload gc b off s))"
  "same_tables s (fst (GetTransactionsPaginated R b off s))"
  "same_tables s (fst (GetExternalTransactionsPaginated R upload b off s))"
  by (auto simp: GroupTransactions_def FetchAndGroupExternalTransactions_def group_cache_same
      GetTransactionsPaginated_def GetExternalTransactionsPaginated_def Let_def split: option.splits)

lemma source_pages_same: "same_tables s (fst (source_pages R strategy upload off s))"
  using fetch_same(3,4) [of s R] by (auto simp: source_pages_def getExternalTransactionsPaginated_def split: prod.splits sum.splits)
    (metis fst_conv)+

lemma group_loop_same:
  assumes "group_loop fetch handle b off s = Some r" "\<And>off s. same_tables s (fst (fetch off s))"
  shows "same_tables s (fst r)"
proof -
  let ?P = "\<lambda>fetch handle b off s r. (\<forall>off s. same_tables s (fst (fetch off s))) \<longrightarrow> same_tables s (fst r)"
  have "?P fetch handle b off s r"
  proof (rule group_loop.raw_induct [where P = ?P, rotated, OF assms(1)])
    fix f :: "(nat \<Rightarrow> recon \<Rightarrow> recon \<times> groups res) \<Rightarrow> (nat \<Rightarrow> groups \<Rightarrow> bool \<times> Match list \<times> string list) \<Rightarrow> nat \<Rightarrow> nat
       \<Rightarrow> recon \<Rightarrow> (recon \<times> bool \<times> Match list \<times> string list) option" and fetch handle b off s r
    assume IH: "\<And>fetch handle b off s r. f fetch handle b off s = Some r \<Longrightarrow> ?P fetch handle b off s r"
      and r: "(case fetch off s of (s1, r) \<Rightarrow> (case r of Inl e \<Rightarrow> Some (s1, False, [], [])
         | Inr gs \<Rightarrow> if gs = [] then Some (s1, False, [], [])
             else case handle off gs of (emptied, ms, us) \<Rightarrow> if emptied then Some (s1, True, ms, us)
               else Option.bind (f fetch handle b (off + b) s1) (\<lambda>(s2, _, ms', us'). Some (s2, True, ms @ ms', us @ us')))) = Some r"
    obtain s1 q where q: "fetch off s = (s1, q)" by (cases "fetch off s")
    show "?P fetch handle b off s r"
    proof
      assume A: "\<forall>off s. same_tables s (fst (fetch off s))"
      then have s1: "same_tables s s1" using q by (metis fst_conv)
      show "same_tables s (fst r)" using r q s1 A IH [of fetch handle b "off + b" s1]
        by (auto split: sum.splits if_splits prod.splits simp: bind_eq_Some_conv intro: same_tables_trans)
    qed
  qed
  then show ?thesis using assms(2) by blast
qed

lemma load_pages_same:
  assumes "load_pages gt off s = Some r" "\<And>off s. same_tables s (fst (gt off s))"
  shows "same_tables s (fst r)"
proof -
  let ?P = "\<lambda>gt off s r. (\<forall>off s. same_tables s (fst (gt off s))) \<longrightarrow> same_tables s (fst r)"
  have "?P gt off s r"
  proof (rule load_pages.raw_induct [where P = ?P, rotated, OF assms(1)])
    fix f :: "(nat \<Rightarrow> recon \<Rightarrow> recon \<times> Transaction list res) \<Rightarrow> nat \<Rightarrow> recon \<Rightarrow> (recon \<times> Transaction list \<times> error option) option"
      and gt off s r
    assume IH: "\<And>gt off s r. f gt off s = Some r \<Longrightarrow> ?P gt off s r"
      and r: "(case gt off s of (s1, r) \<Rightarrow> (case r of Inl e \<Rightarrow> Some (s1, [], Some e)
         | Inr page \<Rightarrow> if page = [] then Some (s1, [], None)
             else Option.bind (f gt (off + length page) s1) (\<lambda>(s2, ts, e). Some (s2, page @ ts, e)))) = Some r"
    obtain s1 q where q: "gt off s = (s1, q)" by (cases "gt off s")
    show "?P gt off s r"
    proof
      assume A: "\<forall>off s. same_tables s (fst (gt off s))"
      then have s1: "same_tables s s1" using q by (metis fst_conv)
      show "same_tables s (fst r)"
      proof (cases q)
        case (Inr page)
        then show ?thesis using r q s1 A IH [of gt "off + length page" s1]
          by (auto split: if_splits prod.splits simp: bind_eq_Some_conv intro: same_tables_trans)
      qed (use r q s1 in auto)
    qed
  qed
  then show ?thesis using assms(2) by blast
qed

lemma createReconciler_same:
  assumes "createReconciler R strategy upload gc rules txns s = Some r"
  shows "same_tables s (fst r)"
proof -
  have "same_tables s (fst r)" if "Option.bind (map_option (\<lambda>(s', r). (s', report_all txns r)) (group_loop fetch h b off s)) (collect txns) = Some r"
    "\<And>off s. same_tables s (fst (fetch off s))" for fetch h b off
    using that group_loop_same [of fetch h b off s] by (auto simp: bind_eq_Some_conv collect_def split: if_splits)
  then show ?thesis using assms fetch_same(1,2)
    by (auto simp: createReconciler_def oneToManyReconciliation_def manyToOneReconciliation_def oneToMany_def manyToOne_def
        split: if_splits)
qed

section \<open>Counting\<close>

text \<open>Transactions up to their metadata, which is all of the ledger that a run writes.\<close>

definition strip :: "Transaction \<Rightarrow> Transaction" where
  "strip t = t\<lparr>t_MetaData := None\<rparr>"

text \<open>The rows a part of a run adds, for a reconciliation that is a dry run or not.\<close>

definition adds :: "bool \<Rightarrow> string \<Rightarrow> int \<Rightarrow> int \<Rightarrow> recon \<Rightarrow> recon \<Rightarrow> bool" where
  "adds dry rid m u s s' \<longleftrightarrow>
     (\<exists>ms us. rc_matches s' = rc_matches s @ ms \<and> rc_unmatched s' = rc_unmatched s @ us \<and>
        (\<forall>x \<in> set ms. mt_ReconciliationID x = rid) \<and> (\<forall>x \<in> set us. fst (snd x) = rid) \<and>
        (if dry then ms = [] \<and> us = [] \<and> rc_store s' = rc_store s else m = int (length ms) \<and> u = int (length us))) \<and>
     st_balances (rc_store s') = st_balances (rc_store s) \<and>
     map strip (st_transactions (rc_store s')) = map strip (st_transactions (rc_store s)) \<and>
     rc_reconciliations s' = rc_reconciliations s \<and> rc_external s' = rc_external s \<and> rc_rules s' = rc_rules s"

lemma adds_refl: "adds dry rid 0 0 s s"
  by (simp add: adds_def)

lemma adds_trans:
  assumes "adds dry rid m u s s1" "adds dry rid m' u' s1 s2"
  shows "adds dry rid (m + m') (u + u') s s2"
proof -
  obtain ms us where a: "rc_matches s1 = rc_matches s @ ms" "rc_unmatched s1 = rc_unmatched s @ us"
    "\<forall>x \<in> set ms. mt_ReconciliationID x = rid" "\<forall>x \<in> set us. fst (snd x) = rid"
    "if dry then ms = [] \<and> us = [] \<and> rc_store s1 = rc_store s else m = int (length ms) \<and> u = int (length us)"
    using assms(1) unfolding adds_def by blast
  obtain ms' us' where b: "rc_matches s2 = rc_matches s1 @ ms'" "rc_unmatched s2 = rc_unmatched s1 @ us'"
    "\<forall>x \<in> set ms'. mt_ReconciliationID x = rid" "\<forall>x \<in> set us'. fst (snd x) = rid"
    "if dry then ms' = [] \<and> us' = [] \<and> rc_store s2 = rc_store s1 else m' = int (length ms') \<and> u' = int (length us')"
    using assms(2) unfolding adds_def by blast
  have "rc_matches s2 = rc_matches s @ (ms @ ms')" "rc_unmatched s2 = rc_unmatched s @ (us @ us')"
    "\<forall>x \<in> set (ms @ ms'). mt_ReconciliationID x = rid" "\<forall>x \<in> set (us @ us'). fst (snd x) = rid"
    "if dry then ms @ ms' = [] \<and> us @ us' = [] \<and> rc_store s2 = rc_store s
     else m + m' = int (length (ms @ ms')) \<and> u + u' = int (length (us @ us'))"
    using a b by (auto split: if_splits)
  then show ?thesis using assms unfolding adds_def by (intro conjI exI [of _ "ms @ ms'"] exI [of _ "us @ us'"]) simp_all
qed

lemma adds_same_tables: "same_tables s s' \<Longrightarrow> adds dry rid 0 0 s s'"
  by (auto simp: adds_def same_tables_fields)

lemma record_each_rows:
  assumes "record_each_match F rid ms rows = Inr rows'"
  shows "\<exists>new. rows' = rows @ new \<and> length new = length ms \<and> (\<forall>x \<in> set new. mt_ReconciliationID x = rid) \<and>
    (\<forall>m \<in> set ms. \<exists>x \<in> set new. mt_ExternalTransactionID x = mt_ExternalTransactionID m \<and>
       mt_InternalTransactionID x = mt_InternalTransactionID m)"
  using assms
proof (induction ms arbitrary: rows)
  case (Cons m ms)
  then obtain a where a: "record_each_match F rid ms (rows @ [m\<lparr>mt_ReconciliationID := rid, mt_Amount := a\<rparr>]) = Inr rows'"
    by (auto simp: recordMatchInTransaction_def split: sum.splits if_splits option.splits)
  from Cons.IH [OF this] obtain new where n: "rows' = rows @ (m\<lparr>mt_ReconciliationID := rid, mt_Amount := a\<rparr> # new)"
    "length new = length ms" "\<forall>x \<in> set new. mt_ReconciliationID x = rid"
    "\<forall>m \<in> set ms. \<exists>x \<in> set new. mt_ExternalTransactionID x = mt_ExternalTransactionID m \<and>
       mt_InternalTransactionID x = mt_InternalTransactionID m" by auto
  then show ?case by (intro exI [of _ "m\<lparr>mt_ReconciliationID := rid, mt_Amount := a\<rparr> # new"]) auto
qed simp

lemma metadata_strip:
  "map strip (st_transactions (fst (UpdateTransactionMetadata F i n st))) = map strip (st_transactions st)"
  "st_balances (fst (UpdateTransactionMetadata F i n st)) = st_balances st"
  by (auto simp: UpdateTransactionMetadata_def strip_def)

lemma updateMatched_effect:
  "rc_matches (updateMatchedTransactionsMetadata R rid ms s) = rc_matches s"
  "rc_unmatched (updateMatchedTransactionsMetadata R rid ms s) = rc_unmatched s"
  "rc_reconciliations (updateMatchedTransactionsMetadata R rid ms s) = rc_reconciliations s"
  "rc_external (updateMatchedTransactionsMetadata R rid ms s) = rc_external s"
  "rc_rules (updateMatchedTransactionsMetadata R rid ms s) = rc_rules s"
  "rc_extpages (updateMatchedTransactionsMetadata R rid ms s) = rc_extpages s"
  "st_balances (rc_store (updateMatchedTransactionsMetadata R rid ms s)) = st_balances (rc_store s)"
  "map strip (st_transactions (rc_store (updateMatchedTransactionsMetadata R rid ms s))) = map strip (st_transactions (rc_store s))"
  unfolding updateMatchedTransactionsMetadata_def by (induction ms arbitrary: s) (simp_all add: metadata_strip)

lemma record_results_adds:
  assumes "record_results R rec ms us s = (s', Inr ())"
  shows "adds (rn_IsDryRun rec) (rn_ReconciliationID rec) (int (length ms)) (int (length us)) s s'"
proof (cases "rn_IsDryRun rec")
  case True
  then show ?thesis using assms by (simp add: record_results_def adds_def)
next
  case False
  let ?rid = "rn_ReconciliationID rec"
  obtain s1 where s1: "(if ms = [] then (s, Inr ()) else RecordMatches (rv_F R) ?rid ms s) = (s1, Inr ())"
    and r: "(let s2 = (if ms = [] then s1 else updateMatchedTransactionsMetadata R ?rid ms s1)
       in if us = [] then (s2, Inr ()) else RecordUnmatched (rv_F R) (rv_now R) ?rid us s2) = (s', Inr ())"
    using assms False by (auto simp: record_results_def split: prod.splits sum.splits)
  have m: "\<exists>new. s1 = s\<lparr>rc_matches := rc_matches s @ new\<rparr> \<and> length new = length ms \<and> (\<forall>x \<in> set new. mt_ReconciliationID x = ?rid)"
  proof (cases "ms = []")
    case False
    then obtain rows where "record_each_match (rv_F R) ?rid ms (rc_matches s) = Inr rows" "s1 = s\<lparr>rc_matches := rows\<rparr>"
      using s1 by (auto simp: RecordMatches_def split: if_splits sum.splits)
    then show ?thesis using record_each_rows by blast
  qed (use s1 in auto)
  then obtain new where n: "s1 = s\<lparr>rc_matches := rc_matches s @ new\<rparr>" "length new = length ms" "\<forall>x \<in> set new. mt_ReconciliationID x = ?rid"
    by blast
  define s2 where "s2 = (if ms = [] then s1 else updateMatchedTransactionsMetadata R ?rid ms s1)"
  have "adds False ?rid (int (length ms)) 0 s s2" using n
    by (auto simp: adds_def s2_def updateMatched_effect)
  moreover have "adds False ?rid 0 (int (length us)) s2 s'" using r
    by (auto simp: s2_def [symmetric] RecordUnmatched_def adds_def split: if_splits)
  ultimately show ?thesis using False adds_trans [of False ?rid] by fastforce
qed

lemma process_txn_adds:
  assumes "process_txn R reconcile txn tp s = Some (tp', s', Inr ())"
    and same: "\<And>txns s r. reconcile txns s = Some r \<Longrightarrow> same_tables s (fst r)"
  shows "tp_reconciliation tp' = tp_reconciliation tp \<and>
    adds (rn_IsDryRun (tp_reconciliation tp)) (rn_ReconciliationID (tp_reconciliation tp))
      (tp_matches tp' - tp_matches tp) (tp_unmatched tp' - tp_unmatched tp) s s'"
proof -
  obtain s1 ms us where c: "reconcile [txn] s = Some (s1, ms, us)" using assms(1) by (auto simp: process_txn_def split: option.splits)
  obtain s2 where r: "record_results R (tp_reconciliation tp) ms us s1 = (s2, Inr ())"
    and s': "s' = s2\<lparr>rc_progress := rc_progress s'\<rparr>" and tp': "tp_matches tp' = tp_matches tp + int (length ms)"
      "tp_unmatched tp' = tp_unmatched tp + int (length us)" "tp_reconciliation tp' = tp_reconciliation tp"
    using assms(1) c by (auto simp: process_txn_def SaveReconciliationProgress_def Let_def split: prod.splits sum.splits if_splits)
  have "adds dry rid 0 0 s2 s'" for dry rid by (subst s') (simp add: adds_def)
  moreover have "same_tables s s1" using same [OF c] by simp
  ultimately have "adds (rn_IsDryRun (tp_reconciliation tp)) (rn_ReconciliationID (tp_reconciliation tp))
      (int (length ms)) (int (length us)) s s'"
    using adds_trans [OF adds_trans [OF adds_same_tables record_results_adds [OF r]]] by fastforce
  then show ?thesis using tp' by simp
qed

lemma work_pool_adds:
  assumes same: "\<And>txns s r. reconcile txns s = Some r \<Longrightarrow> same_tables s (fst r)"
    and "work_pool R reconcile n jobs tp s = Some (tp', s', [])"
  shows "tp_reconciliation tp' = tp_reconciliation tp \<and>
    adds (rn_IsDryRun (tp_reconciliation tp)) (rn_ReconciliationID (tp_reconciliation tp))
      (tp_matches tp' - tp_matches tp) (tp_unmatched tp' - tp_unmatched tp) s s'"
  using assms(2)
proof (induction jobs arbitrary: tp s)
  case (Cons t ts)
  show ?case
  proof (cases n)
    case (Suc k)
    then obtain tp1 s1 where p: "process_txn R reconcile t tp s = Some (tp1, s1, Inr ())"
      and w: "work_pool R reconcile n ts tp1 s1 = Some (tp', s', [])"
      using Cons.prems by (auto split: option.splits sum.splits)
    note a = process_txn_adds [OF p same]
    from Cons.IH [OF w] a adds_trans [OF conjunct2 [OF a]] show ?thesis by fastforce
  qed (use Cons.prems adds_refl in auto)
qed (use adds_refl in auto)

lemma processTransactions_adds:
  assumes "processTransactions R upload strategy reconcile tp s = Some (tp', s', Inr ())"
    and same: "\<And>txns s r. reconcile txns s = Some r \<Longrightarrow> same_tables s (fst r)"
  shows "adds (rn_IsDryRun (tp_reconciliation tp)) (rn_ReconciliationID (tp_reconciliation tp))
      (tp_matches tp' - tp_matches tp) (tp_unmatched tp' - tp_unmatched tp) s s'"
proof -
  obtain s1 jobs e where l: "load_pages (source_pages R strategy upload) 0 s = Some (s1, jobs, e)"
    and w: "work_pool R reconcile (nat (rv_MaxWorkers R)) jobs tp s1 = Some (tp', s', [])"
    using assms(1) by (auto simp: processTransactions_def split: option.splits if_splits)
  have "same_tables s s1" using load_pages_same [OF l source_pages_same] by simp
  from adds_trans [OF adds_same_tables [OF this] conjunct2 [OF work_pool_adds [OF same w]]] show ?thesis by simp
qed

lemma update_status_effect:
  assumes "UpdateReconciliationStatus F now rid status m u s = (s', Inr ())"
  shows "rc_matches s' = rc_matches s" "rc_unmatched s' = rc_unmatched s" "rc_store s' = rc_store s"
    "rid \<in> rn_ReconciliationID ` set (rc_reconciliations s')"
    "\<forall>r \<in> set (rc_reconciliations s'). rn_ReconciliationID r = rid \<longrightarrow> rn_Status r = status \<and> rn_MatchedTransactions r = m \<and>
       rn_UnmatchedTransactions r = u \<and> rn_CompletedAt r = (if status = StatusCompleted then Some now else None)"
    "filter (\<lambda>r. rn_ReconciliationID r \<noteq> rid) (rc_reconciliations s') = filter (\<lambda>r. rn_ReconciliationID r \<noteq> rid) (rc_reconciliations s)"
proof -
  define f :: "Reconciliation \<Rightarrow> Reconciliation" where "f = (\<lambda>r. if rn_ReconciliationID r = rid then r\<lparr>rn_Status := status, rn_MatchedTransactions := m,
    rn_UnmatchedTransactions := u, rn_CompletedAt := if status = StatusCompleted then Some now else None\<rparr> else r)"
  have s': "s' = s\<lparr>rc_reconciliations := map f (rc_reconciliations s)\<rparr>" and i: "rid \<in> rn_ReconciliationID ` set (rc_reconciliations s)"
    using assms by (auto simp: UpdateReconciliationStatus_def f_def Let_def split: if_splits)
  show "rc_matches s' = rc_matches s" "rc_unmatched s' = rc_unmatched s" "rc_store s' = rc_store s" by (simp_all add: s')
  have rr: "rc_reconciliations s' = map f (rc_reconciliations s)" by (simp add: s')
  have fid: "rn_ReconciliationID (f r) = rn_ReconciliationID r" for r by (simp add: f_def)
  have fnew: "rn_Status (f r) = status \<and> rn_MatchedTransactions (f r) = m \<and> rn_UnmatchedTransactions (f r) = u \<and>
      rn_CompletedAt (f r) = (if status = StatusCompleted then Some now else None)" if "rn_ReconciliationID r = rid" for r
    using that by (simp add: f_def)
  have fold: "f r = r" if "rn_ReconciliationID r \<noteq> rid" for r using that by (simp add: f_def)
  show "rid \<in> rn_ReconciliationID ` set (rc_reconciliations s')" using i by (auto simp: rr fid image_image)
  show "\<forall>r \<in> set (rc_reconciliations s'). rn_ReconciliationID r = rid \<longrightarrow> rn_Status r = status \<and> rn_MatchedTransactions r = m \<and>
       rn_UnmatchedTransactions r = u \<and> rn_CompletedAt r = (if status = StatusCompleted then Some now else None)"
    unfolding rr set_map ball_simps fid using fnew by blast
  have "filter (\<lambda>r. rn_ReconciliationID r \<noteq> rid) (map f rs) = filter (\<lambda>r. rn_ReconciliationID r \<noteq> rid) rs" for rs
    by (induction rs) (auto simp: fid fold)
  then show "filter (\<lambda>r. rn_ReconciliationID r \<noteq> rid) (rc_reconciliations s') = filter (\<lambda>r. rn_ReconciliationID r \<noteq> rid) (rc_reconciliations s)"
    by (simp add: rr)
qed

text \<open>
  C23: A reconciliation run that ends without error, with any strategy, rules and failures (the jobs of its
  worker pool are handled one after the other), leaves its row completed, with the time and two counts, and
  leaves the rows of other reconciliations alone. Unless it is a dry run, the counts are those of the rows
  it has added to the tables of matches and of unmatched ids, all under its own id; a dry run adds none and
  does not touch the ledger. Such a run changes no balance, and transactions in their metadata only.
\<close>

theorem completed_run_accounts:
  assumes run: "processReconciliation R rec strategy gc ruleIDs s = Some (s', Inr ())"
  shows "\<exists>m u ms us. rc_matches s' = rc_matches s @ ms \<and> rc_unmatched s' = rc_unmatched s @ us \<and>
    (\<forall>x \<in> set ms. mt_ReconciliationID x = rn_ReconciliationID rec) \<and> (\<forall>x \<in> set us. fst (snd x) = rn_ReconciliationID rec) \<and>
    (if rn_IsDryRun rec then ms = [] \<and> us = [] \<and> rc_store s' = rc_store s else m = int (length ms) \<and> u = int (length us)) \<and>
    rn_ReconciliationID rec \<in> rn_ReconciliationID ` set (rc_reconciliations s') \<and>
    (\<forall>r \<in> set (rc_reconciliations s'). rn_ReconciliationID r = rn_ReconciliationID rec \<longrightarrow> rn_Status r = StatusCompleted \<and>
       rn_MatchedTransactions r = m \<and> rn_UnmatchedTransactions r = u \<and> rn_CompletedAt r = Some (rv_now R)) \<and>
    filter (\<lambda>r. rn_ReconciliationID r \<noteq> rn_ReconciliationID rec) (rc_reconciliations s') =
      filter (\<lambda>r. rn_ReconciliationID r \<noteq> rn_ReconciliationID rec) (rc_reconciliations s) \<and>
    st_balances (rc_store s') = st_balances (rc_store s) \<and>
    map strip (st_transactions (rc_store s')) = map strip (st_transactions (rc_store s))"
proof -
  let ?rid = "rn_ReconciliationID rec"
  obtain s1 rules where s1: "UpdateReconciliationStatus (rv_F R) (rv_now R) ?rid StatusInProgress 0 0 s = (s1, Inr ())"
    and q: "getMatchingRules (rv_F R) ruleIDs s1 = Inr rules"
    using run by (auto simp: processReconciliation_def split: prod.splits sum.splits)
  let ?c = "createReconciler R strategy (rn_UploadID rec) gc rules"
  let ?tp = "createTransactionProcessor rec (initializeReconciliationProgress (rv_F R) ?rid s1)"
  obtain tp s2 where p: "processTransactions R (rn_UploadID rec) strategy ?c ?tp s1 = Some (tp, s2, Inr ())"
    and f: "finalizeReconciliation R rec (tp_matches tp) (tp_unmatched tp) s2 = (s', Inr ())"
    using run s1 q by (auto simp: processReconciliation_def split: option.splits prod.splits sum.splits)
  have A: "adds (rn_IsDryRun rec) ?rid (tp_matches tp) (tp_unmatched tp) s1 s2"
    using processTransactions_adds [OF p createReconciler_same] by (simp add: createTransactionProcessor_def)
  note u1 = update_status_effect [OF s1] and u2 = update_status_effect [OF f [unfolded finalizeReconciliation_def]]
  have rows: "rc_reconciliations s2 = rc_reconciliations s1" using A by (simp add: adds_def)
  obtain ms us where "rc_matches s2 = rc_matches s1 @ ms" "rc_unmatched s2 = rc_unmatched s1 @ us"
    "\<forall>x \<in> set ms. mt_ReconciliationID x = ?rid" "\<forall>x \<in> set us. fst (snd x) = ?rid"
    "if rn_IsDryRun rec then ms = [] \<and> us = [] \<and> rc_store s2 = rc_store s1
     else tp_matches tp = int (length ms) \<and> tp_unmatched tp = int (length us)"
    using A unfolding adds_def by blast
  then show ?thesis using u1 u2 rows A
    by (intro exI [of _ "tp_matches tp"] exI [of _ "tp_unmatched tp"] exI [of _ ms] exI [of _ us]) (simp add: adds_def)
qed

section \<open>A one-to-one run completes\<close>

lemma sort_key_map: "sort_key f (map g xs) = map g (sort_key (f \<circ> g) xs)"
proof -
  have "insort_key f (g x) (map g ys) = map g (insort_key (f \<circ> g) x ys)" for x ys by (induction ys) auto
  then show ?thesis by (induction xs) (simp_all add: sort_key_def)
qed

lemma strip_simps [simp]:
  "scan_row (strip t) = strip (scan_row t)" "criteria_where b (strip t) = criteria_where b t"
  "t_CreatedAt (strip t) = t_CreatedAt t" "t_TransactionID (strip t) = t_TransactionID t"
  "matchesRules lev x (strip t) rules = matchesRules lev x t rules"
proof -
  have "criterionMet lev x (strip t) = criterionMet lev x t" by (intro ext) (simp add: criterionMet_def strip_def)
  then show "matchesRules lev x (strip t) rules = matchesRules lev x t rules" by (simp add: matchesRules_def)
  show "criteria_where b (strip t) = criteria_where b t" by (cases b) (simp add: criteria_where_def strip_def cong: option.case_cong)
qed (simp_all add: strip_def scan_row_def zero_Transaction_def)

text \<open>The ledger rows that match an external transaction within the bounds, oldest first.\<close>

definition candidate_ids :: "recon_env \<Rightarrow> MatchingRule list \<Rightarrow> Transaction \<Rightarrow> store \<Rightarrow> string list" where
  "candidate_ids R rules x st = map t_TransactionID (filter (\<lambda>t. matchesRules (rv_lev R) x t rules)
     (criteria_rows (calculateMatchingBounds x rules) st))"

lemma candidate_ids_strip:
  assumes "map strip (st_transactions a) = map strip (st_transactions b)"
  shows "candidate_ids R rules x a = candidate_ids R rules x b"
proof -
  have r: "map strip (criteria_rows q st) = map scan_row (sort_key t_CreatedAt (filter (criteria_where q) (map strip (st_transactions st))))" for q st
    by (simp add: criteria_rows_def filter_map sort_key_map o_def)
  have c: "candidate_ids R rules x st = map t_TransactionID (filter (\<lambda>t. matchesRules (rv_lev R) x t rules)
     (map strip (criteria_rows (calculateMatchingBounds x rules) st)))" for st
    by (simp add: candidate_ids_def filter_map o_def)
  show ?thesis unfolding c r assms ..
qed

definition pair :: "Transaction \<Rightarrow> string \<Rightarrow> Match" where
  "pair x i = \<lparr>mt_ExternalTransactionID = t_TransactionID x, mt_InternalTransactionID = i, mt_ReconciliationID = [],
     mt_Amount = t_Amount x, mt_Date = t_CreatedAt x\<rparr>"

lemma findMatching_clean:
  assumes F: "rv_F R = (\<lambda>_. False)" and b: "rv_BatchSize R = int b" "0 < b" and w: "0 < rv_MaxWorkers R"
  shows "findMatchingInternalTransaction R x rules s =
    Some (map (pair x) (take (nat (rv_MaxWorkers R)) (candidate_ids R rules x (rc_store s))),
      if candidate_ids R rules x (rc_store s) = [] then [t_TransactionID x] else [], None)"
proof -
  let ?rows = "criteria_rows (calculateMatchingBounds x rules) (rc_store s)"
  let ?hits = "take (nat (rv_MaxWorkers R)) (filter (\<lambda>t. matchesRules (rv_lev R) x t rules) ?rows)"
  have "fetch_pages (\<lambda>off. GetTransactionsByCriteria (rv_F R) (calculateMatchingBounds x rules) (rv_BatchSize R) off (rc_store s)) 0
    = Some (drop 0 ?rows, None)"
    by (rule fetch_pages_all [OF b(2)]) (simp add: GetTransactionsByCriteria_def F b(1))
  moreover have "?hits = [] \<longleftrightarrow> candidate_ids R rules x (rc_store s) = []" using w by (auto simp: candidate_ids_def)
  moreover have "map (\<lambda>t. pair x (t_TransactionID t)) ?hits = map (pair x) (take (nat (rv_MaxWorkers R)) (candidate_ids R rules x (rc_store s)))"
    by (simp add: candidate_ids_def take_map o_def)
  ultimately show ?thesis
    by (simp add: findMatchingInternalTransaction_def pool_hits_take pair_def [symmetric])
qed

lemma numeric_fits:
  assumes "\<bar>x\<bar> < 10 ^ 9"
  shows "numeric_12_2 x \<noteq> None"
proof -
  have "\<bar>round_half_away (x * 100)\<bar> < 10 ^ 12"
  proof (cases "x * 100 < 0")
    case True
    have "\<lfloor>- (x * 100) + 1 / 2\<rfloor> < 10 ^ 12" "0 \<le> \<lfloor>- (x * 100) + 1 / 2\<rfloor>"
      using assms True by (simp_all add: floor_less_iff abs_less_iff le_floor_iff)
    then show ?thesis using True by (simp add: round_half_away_def)
  next
    case False
    have "\<lfloor>x * 100 + 1 / 2\<rfloor> < 10 ^ 12" "0 \<le> \<lfloor>x * 100 + 1 / 2\<rfloor>"
      using assms False by (simp_all add: floor_less_iff abs_less_iff le_floor_iff)
    then show ?thesis using False by (simp add: round_half_away_def)
  qed
  then show ?thesis by (simp add: numeric_12_2_def Let_def)
qed

lemma record_each_ok:
  assumes "F = (\<lambda>_. False)" "\<forall>m \<in> set ms. numeric_12_2 (mt_Amount m) \<noteq> None"
  shows "\<exists>rows'. record_each_match F rid ms rows = Inr rows'"
  using assms(2)
proof (induction ms arbitrary: rows)
  case (Cons m ms)
  then obtain a where "numeric_12_2 (mt_Amount m) = Some a" by auto
  then show ?case using Cons assms(1) by (simp add: recordMatchInTransaction_def)
qed simp

text \<open>The outcome of one external transaction is in the tables.\<close>

definition accounted :: "recon_env \<Rightarrow> string \<Rightarrow> string list \<Rightarrow> string \<Rightarrow> recon \<Rightarrow> bool" where
  "accounted R rid ids tid s \<longleftrightarrow>
     (if ids = [] then (tid, rid, rv_now R) \<in> set (rc_unmatched s)
      else \<exists>m \<in> set (rc_matches s). mt_ExternalTransactionID m = tid \<and> mt_InternalTransactionID m = hd ids \<and> mt_ReconciliationID m = rid)"

lemma accounted_mono: "accounted R rid ids tid s \<Longrightarrow> adds dry rid' m u s s' \<Longrightarrow> accounted R rid ids tid s'"
  by (auto simp: accounted_def adds_def split: if_splits)

lemma record_results_clean:
  assumes F: "rv_F R = (\<lambda>_. False)" and dry: "\<not> rn_IsDryRun rec" and w: "0 < n" and amt: "\<bar>t_Amount x\<bar> < 10 ^ 9"
  shows "\<exists>s'. record_results R rec (map (pair x) (take n ids)) (if ids = [] then [t_TransactionID x] else []) s = (s', Inr ()) \<and>
    accounted R (rn_ReconciliationID rec) ids (t_TransactionID x) s'"
proof (cases ids)
  case Nil
  then show ?thesis using F dry by (simp add: record_results_def RecordUnmatched_def accounted_def list_ex_iff)
next
  case (Cons i js)
  let ?ms = "map (pair x) (take n ids)" and ?rid = "rn_ReconciliationID rec"
  have ne: "?ms \<noteq> []" using w Cons by (cases n) auto
  obtain rows where rows: "record_each_match (rv_F R) ?rid ?ms (rc_matches s) = Inr rows"
    using record_each_ok [OF F, of ?ms ?rid "rc_matches s"] numeric_fits [OF amt] by (auto simp: pair_def)
  have "pair x i \<in> set ?ms" using w Cons by (cases n) auto
  with record_each_rows [OF rows] obtain m where "m \<in> set rows" "mt_ExternalTransactionID m = t_TransactionID x"
    "mt_InternalTransactionID m = i" "mt_ReconciliationID m = ?rid" by (fastforce simp: pair_def)
  then show ?thesis using F dry ne rows Cons
    by (simp add: record_results_def RecordMatches_def accounted_def updateMatched_effect) blast
qed

lemma process_one_to_one:
  assumes F: "rv_F R = (\<lambda>_. False)" and b: "rv_BatchSize R = int b" "0 < b" and w: "0 < rv_MaxWorkers R"
    and iv: "rv_ProgressInterval R \<noteq> 0" and dry: "\<not> rn_IsDryRun (tp_reconciliation tp)" and amt: "\<bar>t_Amount x\<bar> < 10 ^ 9"
  shows "\<exists>tp' s'. process_txn R (createReconciler R ''one_to_one'' upload gc rules) x tp s = Some (tp', s', Inr ()) \<and>
    accounted R (rn_ReconciliationID (tp_reconciliation tp)) (candidate_ids R rules x (rc_store s)) (t_TransactionID x) s'"
proof -
  let ?ids = "candidate_ids R rules x (rc_store s)"
  let ?ms = "map (pair x) (take (nat (rv_MaxWorkers R)) ?ids)" and ?us = "if ?ids = [] then [t_TransactionID x] else []"
  have c: "createReconciler R ''one_to_one'' upload gc rules [x] s = Some (s, ?ms, ?us)"
    using findMatching_clean [OF F b w, of x rules s] by (simp add: createReconciler_def)
  obtain s1 where s1: "record_results R (tp_reconciliation tp) ?ms ?us s = (s1, Inr ())"
    "accounted R (rn_ReconciliationID (tp_reconciliation tp)) ?ids (t_TransactionID x) s1"
    using record_results_clean [OF F dry _ amt, of "nat (rv_MaxWorkers R)" ?ids s] w by auto
  have "accounted R rid ids tid (s1\<lparr>rc_progress := p\<rparr>) = accounted R rid ids tid s1" for rid ids tid p by (simp add: accounted_def)
  then show ?thesis using c s1 iv F by (simp add: process_txn_def SaveReconciliationProgress_def Let_def)
qed

lemma work_pool_one_to_one:
  assumes F: "rv_F R = (\<lambda>_. False)" and b: "rv_BatchSize R = int b" "0 < b" and w: "0 < rv_MaxWorkers R"
    and iv: "rv_ProgressInterval R \<noteq> 0" and dry: "\<not> rn_IsDryRun (tp_reconciliation tp)"
    and amt: "\<forall>x \<in> set jobs. \<bar>t_Amount x\<bar> < 10 ^ 9" and n: "0 < n"
  shows "\<exists>tp' s'. work_pool R (createReconciler R ''one_to_one'' upload gc rules) n jobs tp s = Some (tp', s', []) \<and>
    (\<forall>x \<in> set jobs. accounted R (rn_ReconciliationID (tp_reconciliation tp)) (candidate_ids R rules x (rc_store s)) (t_TransactionID x) s')"
  using amt dry
proof (induction jobs arbitrary: tp s)
  case (Cons x xs)
  let ?c = "createReconciler R ''one_to_one'' upload gc rules" and ?rid = "rn_ReconciliationID (tp_reconciliation tp)"
  obtain tp1 s1 where p: "process_txn R ?c x tp s = Some (tp1, s1, Inr ())"
    and a: "accounted R ?rid (candidate_ids R rules x (rc_store s)) (t_TransactionID x) s1"
    using process_one_to_one [OF F b w iv Cons.prems(2), of x upload gc rules s] Cons.prems(1) by auto
  note ad = process_txn_adds [OF p createReconciler_same]
  have same: "candidate_ids R rules y (rc_store s1) = candidate_ids R rules y (rc_store s)" for y
    using ad by (intro candidate_ids_strip) (simp add: adds_def)
  obtain tp' s' where q: "work_pool R ?c n xs tp1 s1 = Some (tp', s', [])"
    and r: "\<forall>y \<in> set xs. accounted R ?rid (candidate_ids R rules y (rc_store s)) (t_TransactionID y) s'"
    using Cons.IH [of tp1 s1] Cons.prems ad same by auto
  have "accounted R ?rid (candidate_ids R rules x (rc_store s)) (t_TransactionID x) s'"
    using accounted_mono [OF a conjunct2 [OF work_pool_adds [OF createReconciler_same q]]] .
  moreover obtain k where "n = Suc k" using n by (cases n) auto
  ultimately show ?case using p q r by auto
qed simp

lemma load_pages_all:
  assumes fetch: "\<And>off s. P s \<Longrightarrow> \<exists>s'. gt off s = (s', Inr (take b (drop off rows))) \<and> P s'" and b: "0 < b" and "P s"
  shows "\<exists>s'. load_pages gt off s = Some (s', drop off rows, None) \<and> P s'"
  using assms(3)
proof (induction "length rows - off" arbitrary: off s rule: less_induct)
  case less
  obtain s1 where s1: "gt off s = (s1, Inr (take b (drop off rows)))" "P s1" using fetch [OF less.prems] by blast
  show ?case
  proof (cases "drop off rows = []")
    case True
    then show ?thesis using s1 by (subst load_pages.simps) simp
  next
    case False
    let ?p = "take b (drop off rows)"
    have ne: "?p \<noteq> []" using False b by simp
    have "length rows - (off + length ?p) < length rows - off" using False b by simp
    from less.hyps [OF this s1(2)] obtain s2 where "load_pages gt (off + length ?p) s1 = Some (s2, drop (off + length ?p) rows, None)" "P s2"
      by blast
    moreover have "?p @ drop (off + length ?p) rows = drop off rows"
      by (metis append_take_drop_id drop_drop add.commute append_eq_conv_conj)
    ultimately show ?thesis using s1 ne by (subst load_pages.simps) simp
  qed
qed

lemma external_pages:
  assumes F: "rv_F R = (\<lambda>_. False)" and b: "rv_BatchSize R = int b" "0 < b" and empty: "rc_extpages s = Map.empty"
  shows "\<exists>s'. load_pages (source_pages R ''one_to_one'' upload) 0 s = Some (s', map ToInternalTransaction (external_rows upload s), None)"
proof -
  let ?rows = "external_rows upload s" and ?key = "page_key ''transactions:external:paginated:'' (int b)"
  let ?P = "\<lambda>s'. external_rows upload s' = ?rows \<and>
    (\<forall>off pg. cache_get (rv_F R) (rv_now R) (rc_extpages s') (?key off) = Some pg \<longrightarrow> pg = [] \<or> pg = take b (drop off ?rows))"
  have step: "\<exists>s2. source_pages R ''one_to_one'' upload off s1 = (s2, Inr (take b (drop off (map ToInternalTransaction ?rows)))) \<and> ?P s2"
    if P: "?P s1" for off s1
  proof -
    define s2 where "s2 = (if take b (drop off ?rows) = [] then s1
      else s1\<lparr>rc_extpages := cache_set (rv_F R) (rv_now R) (5 * Minute) (?key off) (take b (drop off ?rows)) (rc_extpages s1)\<rparr>)"
    have P2: "?P s2" using P F
      by (auto simp: s2_def cache_get_def cache_set_def Minute_def page_key_inj external_rows_def split: if_splits)
    have "\<exists>s3. GetExternalTransactionsPaginated R upload (int b) off s1 = (s3, Inr (take b (drop off ?rows))) \<and> ?P s3"
    proof (cases "cache_get (rv_F R) (rv_now R) (rc_extpages s1) (?key off)")
      case None
      then have "GetExternalTransactionsPaginated R upload (int b) off s1 = (s2, Inr (take b (drop off ?rows)))"
        using F P by (simp add: GetExternalTransactionsPaginated_def s2_def Let_def)
      then show ?thesis using P2 by blast
    next
      case (Some pg)
      then have "pg = [] \<or> pg = take b (drop off ?rows)" using P by blast
      then have "GetExternalTransactionsPaginated R upload (int b) off s1 = (if pg = [] then s2 else s1, Inr (take b (drop off ?rows)))"
        using F P Some by (auto simp: GetExternalTransactionsPaginated_def s2_def Let_def)
      then show ?thesis using P2 P by (cases "pg = []") auto
    qed
    then show ?thesis using b(1) by (auto simp: source_pages_def getExternalTransactionsPaginated_def take_map drop_map)
  qed
  have "?P s" by (simp add: empty cache_get_def)
  from load_pages_all [where P = ?P and rows = "map ToInternalTransaction ?rows" and off = 0 and
      gt = "source_pages R ''one_to_one'' upload", OF step b(2) this]
  show ?thesis unfolding drop_0 by blast
qed

lemma getMatchingRules_cong: "rc_rules s = rc_rules s' \<Longrightarrow> getMatchingRules F ids s = getMatchingRules F ids s'"
proof -
  assume "rc_rules s = rc_rules s'"
  then have "GetMatchingRule F i s = GetMatchingRule F i s'" for i by (simp add: GetMatchingRule_def)
  then show ?thesis by (induction ids) (simp_all split: sum.split)
qed

lemma one_to_one_run:
  assumes F: "rv_F R = (\<lambda>_. False)" and b: "rv_BatchSize R = int b" "0 < b" and w: "0 < rv_MaxWorkers R"
    and iv: "rv_ProgressInterval R \<noteq> 0" and dry: "\<not> rn_IsDryRun rec"
    and row: "rn_ReconciliationID rec \<in> rn_ReconciliationID ` set (rc_reconciliations s)"
    and rules: "getMatchingRules (rv_F R) ruleIDs s = Inr rules" and empty: "rc_extpages s = Map.empty"
    and amt: "\<forall>x \<in> set (external_rows (rn_UploadID rec) s). \<bar>x_Amount x\<bar> < 10 ^ 9"
  shows "\<exists>s'. processReconciliation R rec ''one_to_one'' gc ruleIDs s = Some (s', Inr ()) \<and>
    (\<forall>x \<in> set (external_rows (rn_UploadID rec) s).
       accounted R (rn_ReconciliationID rec) (candidate_ids R rules (ToInternalTransaction x) (rc_store s)) (x_ID x) s')"
proof -
  let ?rid = "rn_ReconciliationID rec" and ?up = "rn_UploadID rec"
  obtain s1 where s1: "UpdateReconciliationStatus (rv_F R) (rv_now R) ?rid StatusInProgress 0 0 s = (s1, Inr ())"
    "s1 = s\<lparr>rc_reconciliations := rc_reconciliations s1\<rparr>" using row F by (simp add: UpdateReconciliationStatus_def)
  have q: "getMatchingRules (rv_F R) ruleIDs s1 = Inr rules" using rules getMatchingRules_cong [of s s1] s1(2)
    by (metis recon.select_convs(7) recon.surjective recon.update_convs(2))
  let ?c = "createReconciler R ''one_to_one'' ?up gc rules"
  let ?tp = "createTransactionProcessor rec (initializeReconciliationProgress (rv_F R) ?rid s1)"
  have e: "external_rows ?up s1 = external_rows ?up s" "rc_extpages s1 = Map.empty" "rc_store s1 = rc_store s"
    using empty by (subst s1(2); simp add: external_rows_def)+
  obtain s2 where l: "load_pages (source_pages R ''one_to_one'' ?up) 0 s1 = Some (s2, map ToInternalTransaction (external_rows ?up s), None)"
    using external_pages [OF F b e(2), of ?up] e(1) by auto
  then have s2: "same_tables s1 s2" using load_pages_same [OF l source_pages_same] by simp
  obtain tp s3 where wp: "work_pool R ?c (nat (rv_MaxWorkers R)) (map ToInternalTransaction (external_rows ?up s)) ?tp s2 = Some (tp, s3, [])"
    and acc: "\<forall>x \<in> set (external_rows ?up s). accounted R ?rid (candidate_ids R rules (ToInternalTransaction x) (rc_store s2)) (x_ID x) s3"
    using work_pool_one_to_one [OF F b w iv, of ?tp "map ToInternalTransaction (external_rows ?up s)" "nat (rv_MaxWorkers R)" ?up gc rules s2]
      dry amt w by (auto simp: createTransactionProcessor_def ToInternalTransaction_def)
  have p: "processTransactions R ?up ''one_to_one'' ?c ?tp s1 = Some (tp, s3, Inr ())" using l wp by (simp add: processTransactions_def)
  have "rc_reconciliations s3 = rc_reconciliations s2" using work_pool_adds [OF createReconciler_same wp] by (simp add: adds_def)
  then have "?rid \<in> rn_ReconciliationID ` set (rc_reconciliations s3)"
    using update_status_effect(4) [OF s1(1)] same_tables_fields(2) [OF s2] by simp
  then obtain s' where s': "finalizeReconciliation R rec (tp_matches tp) (tp_unmatched tp) s3 = (s', Inr ())"
    using F by (simp add: finalizeReconciliation_def UpdateReconciliationStatus_def)
  note keep = update_status_effect(1,2) [OF s' [unfolded finalizeReconciliation_def]]
  have "processReconciliation R rec ''one_to_one'' gc ruleIDs s = Some (s', Inr ())"
    using s1(1) q p s' by (simp add: processReconciliation_def)
  moreover have "rc_store s2 = rc_store s" using same_tables_fields(1) [OF s2] e(3) by simp
  ultimately show ?thesis using acc keep by (intro exI [of _ s']) (simp add: accounted_def)
qed

text \<open>
  A one-to-one run without failures, over an upload whose pages are not cached and whose amounts fit
  the table, ends without error, and then every uploaded transaction is in the tables under the id
  of the run: matched to the oldest ledger row that the rules accept within the bounds, or, when
  there is no such row, among the unmatched.
\<close>

lemma one_to_one_completes:
  assumes F: "rv_F R = (\<lambda>_. False)" and b: "rv_BatchSize R = int b" "0 < b" and w: "0 < rv_MaxWorkers R"
    and iv: "rv_ProgressInterval R \<noteq> 0" and dry: "\<not> rn_IsDryRun rec"
    and row: "rn_ReconciliationID rec \<in> rn_ReconciliationID ` set (rc_reconciliations s)"
    and rules: "getMatchingRules (rv_F R) ruleIDs s = Inr rules" and empty: "rc_extpages s = Map.empty"
    and amt: "\<forall>x \<in> set (external_rows (rn_UploadID rec) s). \<bar>x_Amount x\<bar> < 10 ^ 9"
  shows "\<exists>s'. processReconciliation R rec ''one_to_one'' gc ruleIDs s = Some (s', Inr ()) \<and>
    (\<forall>x \<in> set (external_rows (rn_UploadID rec) s).
       case candidate_ids R rules (ToInternalTransaction x) (rc_store s) of
         [] \<Rightarrow> (x_ID x, rn_ReconciliationID rec, rv_now R) \<in> set (rc_unmatched s')
       | i # _ \<Rightarrow> \<exists>m \<in> set (rc_matches s'). mt_ExternalTransactionID m = x_ID x \<and> mt_InternalTransactionID m = i \<and>
           mt_ReconciliationID m = rn_ReconciliationID rec)"
proof -
  let ?ids = "\<lambda>x. candidate_ids R rules (ToInternalTransaction x) (rc_store s)"
  obtain s' where s': "processReconciliation R rec ''one_to_one'' gc ruleIDs s = Some (s', Inr ())"
    and acc: "\<forall>x \<in> set (external_rows (rn_UploadID rec) s). accounted R (rn_ReconciliationID rec) (?ids x) (x_ID x) s'"
    using one_to_one_run [OF assms] by blast
  have "case ?ids x of [] \<Rightarrow> (x_ID x, rn_ReconciliationID rec, rv_now R) \<in> set (rc_unmatched s')
       | i # _ \<Rightarrow> \<exists>m \<in> set (rc_matches s'). mt_ExternalTransactionID m = x_ID x \<and> mt_InternalTransactionID m = i \<and>
           mt_ReconciliationID m = rn_ReconciliationID rec" if "x \<in> set (external_rows (rn_UploadID rec) s)" for x
    using acc [rule_format, OF that] by (cases "?ids x") (simp_all add: accounted_def)
  with s' show ?thesis by blast
qed

text \<open>One uploaded transaction, one ledger row, one rule.\<close>

definition demo_rec :: Reconciliation where
  "demo_rec = new_reconciliation calm ''recon_1'' ''up_1'' False"

definition demo :: recon where
  "demo = (quiet_tables [priced 100 ''USD'' 0])\<lparr>rc_reconciliations := [demo_rec],
     rc_rules := [rule_of [crit ''amount'' ''equals'' (1 / 20)]],
     rc_external := [(''up_1'', \<lparr>x_ID = ''x1'', x_Amount = 105, x_Reference = [], x_Currency = ''USD'', x_Description = [],
        x_Date = 0, x_Source = []\<rparr>)]\<rparr>"

lemmas demo_simps = demo_def demo_rec_def quiet_tables_def calm_def new_reconciliation_def rule_of_def GetMatchingRule_def
  find_row_def external_rows_def

theorem completed_run_accounts_witness:
  "\<exists>s'. processReconciliation calm demo_rec ''one_to_one'' [] [''rule_1''] demo = Some (s', Inr ()) \<and>
     st_balances (rc_store s') = [] \<and>
     (\<forall>r \<in> set (rc_reconciliations s'). rn_ReconciliationID r = ''recon_1'' \<longrightarrow> rn_Status r = StatusCompleted)"
proof -
  obtain s' where s': "processReconciliation calm demo_rec ''one_to_one'' [] [''rule_1''] demo = Some (s', Inr ())"
    using one_to_one_run [of calm 1 demo_rec demo "[''rule_1'']" "[rule_of [crit ''amount'' ''equals'' (1 / 20)]]" "[]"]
    by (simp add: demo_simps) blast
  have "st_balances (rc_store demo) = []" "rn_ReconciliationID demo_rec = ''recon_1''"
    by (simp_all add: demo_def quiet_tables_def demo_rec_def new_reconciliation_def)
  with completed_run_accounts [OF s'] s' show ?thesis by auto
qed

text \<open>
  The cached page of an upload has no upload in its key: for five minutes every other upload is
  served the transactions of the first.
\<close>

lemma uploads_share_pages:
  assumes "GetExternalTransactionsPaginated R upload b off s = (s1, Inr page)" "page \<noteq> []" "rv_F R = (\<lambda>_. False)"
  shows "GetExternalTransactionsPaginated R other b off s1 = (s1, Inr page)"
proof -
  let ?key = "page_key ''transactions:external:paginated:'' b off" and ?rows = "take (nat b) (drop off (external_rows upload s))"
  let ?get = "\<lambda>s. cache_get (rv_F R) (rv_now R) (rc_extpages s) ?key"
  have miss: "?get s1 = Some page" if m: "?get s = None \<or> ?get s = Some []"
  proof -
    have "GetExternalTransactionsPaginated R upload b off s = (if b < 0 then (s, Inl (internal ''Failed to retrieve external transactions''))
      else (if ?rows = [] then s else s\<lparr>rc_extpages := cache_set (rv_F R) (rv_now R) (5 * Minute) ?key ?rows (rc_extpages s)\<rparr>, Inr ?rows))"
      using m assms(3) by (auto simp: GetExternalTransactionsPaginated_def Let_def)
    note r = this [unfolded assms(1)]
    then have p: "page = ?rows" "\<not> b < 0" by (simp_all split: if_splits)
    then have "s1 = s\<lparr>rc_extpages := cache_set (rv_F R) (rv_now R) (5 * Minute) ?key page (rc_extpages s)\<rparr>"
      using r assms(2) unfolding p(1) [symmetric] by (simp add: p(2))
    then show ?thesis using assms(3) by (simp add: cache_get_def cache_set_def Minute_def)
  qed
  have "?get s1 = Some page"
  proof (cases "?get s = None \<or> ?get s = Some []")
    case False
    then obtain pg where "?get s = Some pg" "pg \<noteq> []" by auto
    then show ?thesis using assms(1) by (simp add: GetExternalTransactionsPaginated_def Let_def)
  qed (rule miss)
  then show ?thesis using assms(2) by (simp add: GetExternalTransactionsPaginated_def Let_def)
qed

end
