(* ===== verification/Positions.thy ===== *)
theory Positions
  imports Distributions Store
begin

text \<open>
  The brokerage domain model (\<open>model/brokerage.go\<close>): position keys and their lock keys, deltas
  and mutation plans, the settlement calendar, the tradable and free quantities, the
  weighted-average price, and the validation of bookings.

  A date is the number of its civil day, counted from 1970-01-01: the code reads nothing else
  of a settle date, a trade date or a holiday (\<open>time.Date\<close> of year, month and day, a \<open>DATE\<close>
  column, \<open>Format("2006-01-02")\<close>). The zero \<open>time.Time\<close> of an optional date is \<open>None\<close>.
  Messages that end in the text of an error of the decimal package stop before that text.
\<close>

subsection \<open>Dates\<close>

text \<open>Days before the year \<open>y\<close> of the proleptic Gregorian calendar, years starting in March.\<close>

definition days_before :: "int \<Rightarrow> int" where
  "days_before y = 365 * y + y div 4 - y div 100 + y div 400"

definition year_of :: "int \<Rightarrow> int" where
  "year_of z = (let y = 400 * z div 146097
                in if days_before (y + 1) \<le> z then y + 1 else if z < days_before y then y - 1 else y)"

definition civil_of_day :: "int \<Rightarrow> int \<times> int \<times> int" where
  "civil_of_day d =
     (let z = d + 719468; y = year_of z; doy = z - days_before y; mp = (5 * doy + 2) div 153
      in (if mp < 10 then y else y + 1, if mp < 10 then mp + 3 else mp - 9, doy - (153 * mp + 2) div 5 + 1))"

definition day_of_civil :: "int \<times> int \<times> int \<Rightarrow> int" where
  "day_of_civil c =
     (case c of (y, m, d) \<Rightarrow>
       days_before (if m \<le> 2 then y - 1 else y) + (153 * (if 2 < m then m - 3 else m + 9) + 2) div 5 + d - 1 - 719468)"

definition Weekday :: "int \<Rightarrow> int" where
  "Weekday d = (d + 4) mod 7"

text \<open>\<open>%0wd\<close>, and \<open>Format\<close> with the layout \<open>2006-01-02\<close>.\<close>

definition zero_pad :: "nat \<Rightarrow> int \<Rightarrow> string" where
  "zero_pad w n = (let s = show_nat (nat \<bar>n\<bar>)
                   in (if n < 0 then ''-'' else []) @ replicate (w - length s) (CHR ''0'') @ s)"

definition format_date :: "int \<Rightarrow> string" where
  "format_date d = (case civil_of_day d of (y, m, dd) \<Rightarrow> str_join ''-'' [zero_pad 4 y, zero_pad 2 m, zero_pad 2 dd])"

lemma example_dates:
  "civil_of_day 0 = (1970, 1, 1)" "civil_of_day 11016 = (2000, 2, 29)" "civil_of_day 19782 = (2024, 2, 29)"
  "civil_of_day (- 25568) = (1899, 12, 31)" "format_date 0 = ''1970-01-01''" "Weekday 19782 = 4"
  by code_simp+

subsection \<open>Position keys\<close>

text \<open>The record of \<open>model.PositionKey\<close>; \<open>SettleDate = None\<close> is the spot position.\<close>

record PositionKey =
  k_LedgerID :: string
  k_IdentityID :: string
  k_AccountRef :: string
  k_Instrument :: string
  k_Currency :: string
  k_SettleDate :: "int option"
  k_SettleCode :: "int option"

definition SpotSettleDateSentinel :: string where "SpotSettleDateSentinel = ''1970-01-01''"

definition settleDateKey :: "PositionKey \<Rightarrow> string" where
  "settleDateKey k = (case k_SettleDate k of None \<Rightarrow> SpotSettleDateSentinel | Some d \<Rightarrow> format_date d)"

definition IsSpot :: "PositionKey \<Rightarrow> bool" where
  "IsSpot k \<longleftrightarrow> k_SettleDate k = None"

definition LockKey :: "PositionKey \<Rightarrow> string" where
  "LockKey k = str_join ''|'' [''brokerage'', k_LedgerID k, k_IdentityID k, k_AccountRef k,
     k_Instrument k, k_Currency k, settleDateKey k]"

definition PositionKey_Validate :: "PositionKey \<Rightarrow> unit res" where
  "PositionKey_Validate k =
     (if k_LedgerID k = [] then Inl (Errorf ''position key: ledger_id is required'')
      else if k_AccountRef k = [] then Inl (Errorf ''position key: account_ref is required'')
      else if k_Currency k = [] then Inl (Errorf ''position key: currency is required'')
      else Inr ())"

subsection \<open>Deltas and mutation plans\<close>

record BalanceDelta =
  dl_Key :: PositionKey
  dl_Amount :: "int option"
  dl_Blocked :: "int option"
  dl_Waiting :: "int option"

definition normalizedFields :: "BalanceDelta \<Rightarrow> BalanceDelta" where
  "normalizedFields d = d\<lparr>dl_Amount := Some (or0 (dl_Amount d)), dl_Blocked := Some (or0 (dl_Blocked d)),
     dl_Waiting := Some (or0 (dl_Waiting d))\<rparr>"

definition IsNoOp :: "BalanceDelta \<Rightarrow> bool" where
  "IsNoOp d = (let n = normalizedFields d in
     or0 (dl_Amount n) = 0 \<and> or0 (dl_Blocked n) = 0 \<and> or0 (dl_Waiting n) = 0)"

definition Merge :: "BalanceDelta \<Rightarrow> BalanceDelta \<Rightarrow> BalanceDelta" where
  "Merge d other = (let n = normalizedFields d; m = normalizedFields other in
     d\<lparr>dl_Amount := Some (or0 (dl_Amount n) + or0 (dl_Amount m)),
       dl_Blocked := Some (or0 (dl_Blocked n) + or0 (dl_Blocked m)),
       dl_Waiting := Some (or0 (dl_Waiting n) + or0 (dl_Waiting m))\<rparr>)"

text \<open>
  The map from lock keys to merged deltas; the order in which \<open>range\<close> walks it is \<open>ord\<close>.
\<close>

fun merge_deltas :: "BalanceDelta list \<Rightarrow> (string \<times> BalanceDelta) list \<Rightarrow> (string \<times> BalanceDelta) list" where
  "merge_deltas [] m = m"
| "merge_deltas (d # ds) m =
     merge_deltas ds (case find_row fst (LockKey (dl_Key d)) m of
        Some (k, e) \<Rightarrow> map_put k (Merge e d) m
      | None \<Rightarrow> map_put (LockKey (dl_Key d)) (normalizedFields d) m)"

definition Normalized :: "((string \<times> BalanceDelta) list \<Rightarrow> (string \<times> BalanceDelta) list) \<Rightarrow> BalanceDelta list \<Rightarrow> BalanceDelta list" where
  "Normalized ord p =
     sort_key (\<lambda>d. LockKey (dl_Key d)) (filter (\<lambda>d. \<not> IsNoOp d) (map snd (ord (merge_deltas p []))))"

definition LockKeys :: "((string \<times> BalanceDelta) list \<Rightarrow> (string \<times> BalanceDelta) list) \<Rightarrow> BalanceDelta list \<Rightarrow> string list" where
  "LockKeys ord p = map (\<lambda>d. LockKey (dl_Key d)) (Normalized ord p)"

fun validate_deltas :: "nat \<Rightarrow> BalanceDelta list \<Rightarrow> unit res" where
  "validate_deltas i [] = Inr ()"
| "validate_deltas i (d # ds) =
     (case PositionKey_Validate (dl_Key d) of
        Inl e \<Rightarrow> Inl (Wrap (''mutation plan delta '' @ show_nat i) e)
      | Inr _ \<Rightarrow> validate_deltas (Suc i) ds)"

definition MutationPlan_Validate :: "BalanceDelta list \<Rightarrow> unit res" where
  "MutationPlan_Validate p =
     (if p = [] then Inl (Errorf ''mutation plan: at least one delta is required'') else validate_deltas 0 p)"

subsection \<open>Tradable and free quantities\<close>

definition ComputeTradable :: "int option \<Rightarrow> int option \<Rightarrow> int option \<Rightarrow> int option \<Rightarrow> bool \<Rightarrow> int" where
  "ComputeTradable settled blocked incoming outgoing onTheWay =
     (let t0 = or0 settled - or0 blocked;
          t1 = t0 - or0 outgoing;
          t2 = (if onTheWay then t1 + or0 incoming else t1)
      in if t2 < 0 then 0 else t2)"

definition FreeBalance :: "int option \<Rightarrow> int option \<Rightarrow> int option \<Rightarrow> int" where
  "FreeBalance sum0 sum1 sum2 =
     (let available = or0 sum1 - or0 sum2
      in if available < 0 then 0
         else case sum0 of
                Some c \<Rightarrow> if c \<le> available then c else available
              | None \<Rightarrow> available)"

subsection \<open>The settlement calendar\<close>

type_synonym holidays = "string list"

definition IsSettlementDay :: "int \<Rightarrow> holidays \<Rightarrow> bool" where
  "IsSettlementDay d hs = (if Weekday d = 6 \<or> Weekday d = 0 then False else format_date d \<notin> set hs)"

definition maxLookahead :: nat where "maxLookahead = 366"

text \<open>The loop of \<open>ComputeSettleDate\<close>: \<open>i\<close> rounds left, \<open>remaining\<close> settlement days to count.\<close>

fun settle_scan :: "holidays \<Rightarrow> nat \<Rightarrow> int \<Rightarrow> int \<Rightarrow> int option" where
  "settle_scan hs 0 remaining d = None"
| "settle_scan hs (Suc i) remaining d =
     (if 0 < remaining then
        settle_scan hs i (if IsSettlementDay (d + 1) hs then remaining - 1 else remaining) (d + 1)
      else if IsSettlementDay d hs then Some d
      else settle_scan hs i remaining (d + 1))"

definition ComputeSettleDate :: "int \<Rightarrow> int \<Rightarrow> holidays \<Rightarrow> int res" where
  "ComputeSettleDate tradeDate settleOffset hs =
     (if settleOffset < 0 then Inl (Errorf (''settle offset must be >= 0, got '' @ show_int settleOffset))
      else case settle_scan hs maxLookahead settleOffset tradeDate of
             Some d \<Rightarrow> Inr d
           | None \<Rightarrow> Inl (Errorf (''no settlement day found within '' @ show_nat maxLookahead @ '' days of '' @
               format_date tradeDate)))"

subsection \<open>Quantities and prices\<close>

definition dquoted :: "string \<Rightarrow> string" where
  "dquoted s = CHR 0x22 # s @ [CHR 0x22]"

definition RecalculateWAPrice :: "'d decimal \<Rightarrow> string \<Rightarrow> 'd \<Rightarrow> 'd \<Rightarrow> 'd \<Rightarrow> 'd res" where
  "RecalculateWAPrice D currentWA currentQty tradeQty tradeMoney =
     (case (if currentWA = [] then Some (NewFromInt D 0) else NewFromString D currentWA) of
        None \<Rightarrow> Inl (Errorf (''invalid current wa price '' @ dquoted currentWA))
      | Some wa \<Rightarrow>
          if Sign D currentQty < 0 then Inl (Errorf (''current quantity cannot be negative: '' @ String D currentQty))
          else if Sign D tradeQty \<le> 0 then Inl (Errorf (''trade quantity must be positive: '' @ String D tradeQty))
          else let totalQty = Add D tradeQty currentQty;
                   numerator = Add D tradeMoney (Mul D wa currentQty)
               in Inr (RoundBank D (Div D numerator totalQty) 2))"

definition PreciseQuantity :: "'d decimal \<Rightarrow> string \<Rightarrow> int \<Rightarrow> int res" where
  "PreciseQuantity D quantity precision =
     (case NewFromString D quantity of
        None \<Rightarrow> Inl (Errorf (''invalid quantity '' @ dquoted quantity))
      | Some q \<Rightarrow>
          if Sign D q \<le> 0 then Inl (Errorf (''quantity must be positive: '' @ quantity))
          else if precision < 1 then Inl (Errorf (''precision must be >= 1, got '' @ show_int precision))
          else Inr (BigInt D (Round0 D (Mul D q (NewFromInt D precision)))))"

definition PreciseMoney :: "'d decimal \<Rightarrow> string \<Rightarrow> string \<Rightarrow> int \<Rightarrow> int res" where
  "PreciseMoney D quantity price precision =
     (case NewFromString D quantity of
        None \<Rightarrow> Inl (Errorf (''invalid quantity '' @ dquoted quantity))
      | Some q \<Rightarrow>
          (case NewFromString D price of
             None \<Rightarrow> Inl (Errorf (''invalid price '' @ dquoted price))
           | Some p \<Rightarrow>
               if precision < 1 then Inl (Errorf (''money precision must be >= 1, got '' @ show_int precision))
               else Inr (BigInt D (Round0 D (Mul D (Mul D p q) (NewFromInt D precision))))))"

subsection \<open>Bookings\<close>

text \<open>
  \<open>TradeBooking\<close> and \<open>SellBooking\<close> have the same fields, and their \<open>Validate\<close> methods the same
  checks; \<open>what\<close> is the prefix of the messages (\<open>trade booking\<close> or \<open>sell booking\<close>).
\<close>

record Booking =
  g_LedgerID :: string
  g_IdentityID :: string
  g_AccountRef :: string
  g_Instrument :: string
  g_Venue :: string
  g_Currency :: string
  g_Quantity :: string
  g_QuantityPrecision :: int
  g_Price :: string
  g_MoneyPrecision :: int
  g_SettleOffset :: int
  g_TradeDate :: "int option"
  g_SettleDate :: "int option"
  g_SettlementBalanceID :: string
  g_MarketBalanceID :: string
  g_Reference :: string

definition booking_validate :: "'d decimal \<Rightarrow> string \<Rightarrow> Booking \<Rightarrow> unit res" where
  "booking_validate D what t =
     (if g_LedgerID t = [] \<or> g_AccountRef t = [] \<or> g_Currency t = [] then
        Inl (Errorf (what @ '': ledger_id, account_ref and currency are required''))
      else if g_Instrument t = [] then Inl (Errorf (what @ '': instrument is required''))
      else if g_QuantityPrecision t < 1 then Inl (Errorf (what @ '': quantity_precision must be >= 1''))
      else if g_MoneyPrecision t < 1 then Inl (Errorf (what @ '': money_precision must be >= 1''))
      else case PreciseQuantity D (g_Quantity t) (g_QuantityPrecision t) of
        Inl e \<Rightarrow> Inl (Wrap what e)
      | Inr _ \<Rightarrow>
          if NewFromString D (g_Price t) = None then Inl (Errorf (what @ '': invalid price '' @ dquoted (g_Price t)))
          else if g_SettleOffset t < 0 then Inl (Errorf (what @ '': settle_offset must be >= 0''))
          else if g_SettlementBalanceID t = [] \<or> g_MarketBalanceID t = [] then
            Inl (Errorf (what @ '': settlement_balance_id and market_balance_id are required''))
          else if g_Reference t = [] then Inl (Errorf (what @ '': reference is required''))
          else Inr ())"

definition TradeBooking_Validate :: "'d decimal \<Rightarrow> Booking \<Rightarrow> unit res" where
  "TradeBooking_Validate D t = booking_validate D ''trade booking'' t"

definition SellBooking_Validate :: "'d decimal \<Rightarrow> Booking \<Rightarrow> unit res" where
  "SellBooking_Validate D t = booking_validate D ''sell booking'' t"


section \<open>Facts\<close>

subsection \<open>The calendar\<close>

lemma div_succ:
  fixes y n :: int
  assumes "0 < n"
  shows "(y + 1) div n = y div n + (if n dvd y + 1 then 1 else 0)"
proof (cases "n dvd y + 1")
  case True
  then obtain k where k: "y + 1 = n * k" ..
  then have "y = n * (k - 1) + (n - 1)" by (simp add: algebra_simps)
  then have "y div n = k - 1" by (rule int_div_pos_eq) (use assms in simp_all)
  with k True assms show ?thesis by simp
next
  case False
  let ?r = "y mod n"
  have "?r \<noteq> n - 1"
  proof
    assume "?r = n - 1"
    then have "n * (y div n) + (n - 1) = y" using mult_div_mod_eq [of n y] by simp
    then have "y + 1 = n * (y div n + 1)" by (simp add: distrib_left)
    with False show False by simp
  qed
  then have "?r + 1 < n" using pos_mod_bound [OF assms, of y] by simp
  moreover have "y + 1 = n * (y div n) + (?r + 1)" using mult_div_mod_eq [of n y] by simp
  ultimately have "(y + 1) div n = y div n"
    using assms by (intro int_div_pos_eq [of _ _ _ "?r + 1"]) simp_all
  with False show ?thesis by simp
qed

lemma days_before_step: "365 \<le> days_before (y + 1) - days_before y" "days_before (y + 1) - days_before y \<le> 366"
proof -
  have "(100 :: int) dvd y + 1 \<Longrightarrow> 4 dvd y + 1" "(400 :: int) dvd y + 1 \<Longrightarrow> 100 dvd y + 1"
    by (erule dvd_trans [rotated], simp)+
  then show "365 \<le> days_before (y + 1) - days_before y" "days_before (y + 1) - days_before y \<le> 366"
    by (auto simp: days_before_def div_succ)
qed

lemma days_before_approx: "400 * days_before y \<le> 146097 * y + 396" "146097 * y \<le> 400 * days_before y + 699"
proof -
  obtain u v w a b c where e: "y div 4 = u" "y div 100 = v" "y div 400 = w" "y mod 4 = a" "y mod 100 = b" "y mod 400 = c"
    by blast
  have "4 * u + a = y" "100 * v + b = y" "400 * w + c = y"
    unfolding e [symmetric] by (rule mult_div_mod_eq)+
  moreover have "0 \<le> a" "a < 4" "0 \<le> b" "b < 100" "0 \<le> c" "c < 400"
    unfolding e [symmetric] by simp_all
  moreover have "days_before y = 365 * y + u - v + w" by (simp only: days_before_def e)
  ultimately show "400 * days_before y \<le> 146097 * y + 396" "146097 * y \<le> 400 * days_before y + 699"
    by linarith+
qed

lemma year_of_bounds: "days_before (year_of z) \<le> z" "z < days_before (year_of z + 1)"
proof -
  obtain y r where y: "400 * z div 146097 = y" and r: "400 * z mod 146097 = r" by blast
  have "146097 * y + r = 400 * z" unfolding y [symmetric] r [symmetric] by (rule mult_div_mod_eq)
  moreover have "0 \<le> r" "r < 146097" unfolding r [symmetric] by simp_all
  ultimately have "146097 * (y - 1) + 396 \<le> 400 * z" "400 * z + 699 < 146097 * (y + 1 + 1)"
    by (simp_all add: algebra_simps)
  then have "400 * days_before (y - 1) \<le> 400 * z" "400 * z < 400 * days_before (y + 1 + 1)"
    using days_before_approx(1) [of "y - 1"] days_before_approx(2) [of "y + 1 + 1"] by linarith+
  then show "days_before (year_of z) \<le> z" "z < days_before (year_of z + 1)"
    by (auto simp: year_of_def Let_def y)
qed

lemma civil_of_day_bounds:
  assumes "civil_of_day d = (y, m, dd)"
  shows "day_of_civil (y, m, dd) = d" "1 \<le> m" "m \<le> 12" "1 \<le> dd" "0 \<le> d \<Longrightarrow> 1969 \<le> y"
proof -
  define z where "z = d + 719468"
  define y' where "y' = year_of z"
  define doy where "doy = z - days_before y'"
  define mp where "mp = (5 * doy + 2) div 153"
  have doy: "0 \<le> doy" "doy \<le> 365"
    using year_of_bounds [of z] days_before_step [of y'] by (simp_all add: doy_def y'_def)
  then have mp: "0 \<le> mp" "mp \<le> 11" "153 * mp \<le> 5 * doy + 2" by (simp_all add: mp_def)
  have "civil_of_day d = (if mp < 10 then y' else y' + 1, if mp < 10 then mp + 3 else mp - 9,
      doy - (153 * mp + 2) div 5 + 1)"
    unfolding civil_of_day_def Let_def z_def y'_def doy_def mp_def ..
  with assms have c: "y = (if mp < 10 then y' else y' + 1)" "m = (if mp < 10 then mp + 3 else mp - 9)"
      "dd = doy - (153 * mp + 2) div 5 + 1"
    by simp_all
  have "z = days_before y' + doy" by (simp add: doy_def)
  then have "d = days_before y' + doy - 719468" by (simp add: z_def)
  then show "day_of_civil (y, m, dd) = d" using mp by (simp add: c day_of_civil_def)
  from mp show "1 \<le> m" "m \<le> 12" by (simp_all add: c)
  have "(153 * mp + 2) div 5 \<le> (5 * doy + 4) div 5" using mp(3) by (intro zdiv_mono1) simp_all
  then have "(153 * mp + 2) div 5 \<le> doy" by simp
  then show "1 \<le> dd" by (simp add: c)
  assume "0 \<le> d"
  then have "719468 < days_before (y' + 1)" using year_of_bounds [of z] by (simp add: z_def y'_def)
  then have "400 * 719468 < 146097 * (y' + 1) + 396" using days_before_approx(1) [of "y' + 1"] by simp
  then have "1968 < y'" by (simp add: algebra_simps)
  then show "1969 \<le> y" by (simp add: c)
qed

text \<open>Formatted dates identify the day, from year zero on.\<close>

lemma digit_zero: "digit_char 0 = CHR ''0''"
  by code_simp

lemma zero_pad_parse: "0 \<le> n \<Longrightarrow> parse_digits 0 (zero_pad w n) = Some (nat n)"
proof -
  assume n: "0 \<le> n"
  let ?k = "w - length (show_nat (nat n))"
  have "replicate ?k (CHR ''0'') = map digit_char (replicate ?k 0)" by (simp add: digit_zero)
  then have "zero_pad w n = map digit_char (replicate ?k 0 @ digits10 (nat n))"
    using n by (simp add: zero_pad_def Let_def show_nat_def)
  then show ?thesis
    using digits10_small [of "nat n"]
    by (subst \<open>zero_pad w n = _\<close>, subst parse_digits_map)
       (auto simp: digits_value_append digits_value_zeros digits_value_digits10)
qed

lemma zero_pad_no_minus: "0 \<le> n \<Longrightarrow> CHR ''-'' \<notin> set (zero_pad w n)"
  using show_nat_no_minus [of "nat n"] by (auto simp: zero_pad_def Let_def)

lemma format_date_inj:
  assumes "0 \<le> d" "0 \<le> d'" "format_date d = format_date d'"
  shows "d = d'"
proof -
  obtain y m dd y' m' dd' where c: "civil_of_day d = (y, m, dd)" "civil_of_day d' = (y', m', dd')"
    by (metis surj_pair)
  note b = civil_of_day_bounds [OF c(1)] civil_of_day_bounds [OF c(2)]
  from b assms have nn: "0 \<le> y" "0 \<le> m" "0 \<le> dd" "0 \<le> y'" "0 \<le> m'" "0 \<le> dd'" by auto
  have "[zero_pad 4 y, zero_pad 2 m, zero_pad 2 dd] = [zero_pad 4 y', zero_pad 2 m', zero_pad 2 dd']"
    using assms(3) nn zero_pad_no_minus
    by (intro str_join_inj [where c = "CHR ''-''"]) (simp_all add: format_date_def c)
  then have "zero_pad 4 y = zero_pad 4 y'" "zero_pad 2 m = zero_pad 2 m'" "zero_pad 2 dd = zero_pad 2 dd'"
    by simp_all
  then have "nat y = nat y' \<and> nat m = nat m' \<and> nat dd = nat dd'"
    using zero_pad_parse nn by (metis option.inject)
  with nn b(1) b(6) show ?thesis by (simp add: nat_eq_iff)
qed


subsection \<open>Settle dates\<close>

text \<open>The settlement days after \<open>a\<close> and up to \<open>b\<close>.\<close>

definition settlement_days :: "holidays \<Rightarrow> int \<Rightarrow> int \<Rightarrow> int" where
  "settlement_days hs a b = int (card {x \<in> {a<..b}. IsSettlementDay x hs})"

text \<open>
  What T+n means: the n-th settlement day after the trade date, and for T+0 the first one on
  or after it.
\<close>

definition settles_on :: "holidays \<Rightarrow> int \<Rightarrow> int \<Rightarrow> int \<Rightarrow> bool" where
  "settles_on hs t n d \<longleftrightarrow> IsSettlementDay d hs \<and>
     (if n = 0 then t \<le> d \<and> settlement_days hs (t - 1) d = 1 else t < d \<and> settlement_days hs t d = n)"

lemma finite_days [simp]: "finite {x :: int. a < x \<and> x \<le> b \<and> P x}"
  by (rule finite_subset [of _ "{a<..b}"]) auto

lemma settlement_days_empty [simp]: "b \<le> a \<Longrightarrow> settlement_days hs a b = 0"
  by (simp add: settlement_days_def)

lemma settlement_days_nonneg [simp]: "0 \<le> settlement_days hs a b"
  by (simp add: settlement_days_def)

lemma settlement_days_step:
  assumes "a < b"
  shows "settlement_days hs a b = (if IsSettlementDay (a + 1) hs then 1 else 0) + settlement_days hs (a + 1) b"
proof -
  have "{a<..b} = insert (a + 1) {a + 1<..b}" using assms by auto
  then have "{x \<in> {a<..b}. IsSettlementDay x hs} =
      (if IsSettlementDay (a + 1) hs then insert (a + 1) {x \<in> {a + 1<..b}. IsSettlementDay x hs}
       else {x \<in> {a + 1<..b}. IsSettlementDay x hs})"
    by auto
  then show ?thesis by (simp add: settlement_days_def)
qed

lemma settlement_days_pos: "a < b \<Longrightarrow> IsSettlementDay b hs \<Longrightarrow> 0 < settlement_days hs a b"
  unfolding settlement_days_def by (auto simp: card_gt_0_iff)

lemma settle_scan_first:
  "settle_scan hs i 0 d = Some e \<longleftrightarrow> settles_on hs d 0 e \<and> e < d + int i"
proof (induction i arbitrary: d)
  case (Suc i)
  show ?case
  proof (cases "IsSettlementDay d hs")
    case True
    have "settles_on hs d 0 e \<longleftrightarrow> e = d"
      using True settlement_days_step [of "d - 1" e hs] settlement_days_pos [of d e hs]
      by (cases "e = d") (auto simp: settles_on_def)
    with True show ?thesis by auto
  next
    case False
    then have "settles_on hs d 0 e \<longleftrightarrow> settles_on hs (d + 1) 0 e"
      using settlement_days_step [of "d - 1" e hs] by (auto simp: settles_on_def order_le_less)
    moreover have "settle_scan hs (Suc i) 0 d = settle_scan hs i 0 (d + 1)" using False by simp
    ultimately show ?thesis by (simp add: Suc.IH algebra_simps)
  qed
qed (auto simp: settles_on_def)

lemma settle_scan_iff:
  "0 < n \<Longrightarrow> settle_scan hs i n d = Some e \<longleftrightarrow> settles_on hs d n e \<and> e < d + int i"
proof (induction i arbitrary: d n)
  case (Suc i)
  let ?n' = "if IsSettlementDay (d + 1) hs then n - 1 else n"
  have eq: "settles_on hs d n e \<longleftrightarrow> settles_on hs (d + 1) ?n' e"
  proof (cases "d < e")
    case True
    then show ?thesis
      using Suc.prems settlement_days_step [of d e hs] settlement_days_pos [of "d + 1" e hs]
      by (cases "e = d + 1") (auto simp: settles_on_def)
  qed (use Suc.prems in \<open>auto simp: settles_on_def\<close>)
  show ?case
  proof (cases "?n' = 0")
    case True
    with Suc.prems eq settle_scan_first [of hs i "d + 1" e] show ?thesis by auto
  next
    case False
    with Suc.prems have "0 < ?n'" by (auto split: if_splits)
    with Suc.IH [of ?n' "d + 1"] Suc.prems eq show ?thesis by auto
  qed
qed (auto simp: settles_on_def)

lemma settle_scan_total:
  assumes "0 < n" "n \<le> settlement_days hs d (d + int i - 1)"
  shows "settle_scan hs i n d \<noteq> None"
  using assms
proof (induction i arbitrary: d n)
  case (Suc i)
  have "0 < i" using Suc.prems by (cases i) auto
  then have "d < d + int (Suc i) - 1" by simp
  note step = settlement_days_step [OF this, of hs]
  have shift: "d + int (Suc i) - 1 = d + 1 + int i - 1" by simp
  show ?case
  proof (cases "IsSettlementDay (d + 1) hs \<and> n = 1")
    case True
    with \<open>0 < i\<close> show ?thesis by (cases i) auto
  next
    case False
    let ?n' = "if IsSettlementDay (d + 1) hs then n - 1 else n"
    have "settle_scan hs i ?n' (d + 1) \<noteq> None"
      using False Suc.prems step unfolding shift by (intro Suc.IH) (auto split: if_splits)
    with Suc.prems show ?thesis by simp
  qed
qed auto

text \<open>Five days of any seven in a row are weekdays, so a window of 52 weeks has 260.\<close>

definition weekdays :: "int \<Rightarrow> int \<Rightarrow> int set" where
  "weekdays a b = {x \<in> {a<..b}. Weekday x \<noteq> 0 \<and> Weekday x \<noteq> 6}"

lemma card_weekdays_week: "card (weekdays a (a + 7)) = 5"
proof -
  obtain r where a: "a mod 7 = r" by blast
  then have "0 \<le> r" "r < 7" by auto
  then have r: "r = 0 \<or> r = 1 \<or> r = 2 \<or> r = 3 \<or> r = 4 \<or> r = 5 \<or> r = 6" by auto
  have w: "Weekday (a + i) = (r + (i + 4)) mod 7" for i
    unfolding Weekday_def a [symmetric] by (simp add: mod_add_left_eq add.assoc)
  let ?xs = "[a + 1, a + 2, a + 3, a + 4, a + 5, a + 6, a + 7]"
  let ?P = "\<lambda>x. Weekday x \<noteq> 0 \<and> Weekday x \<noteq> 6"
  have "a < x \<and> x \<le> a + 7 \<longleftrightarrow> x \<in> set ?xs" for x by (simp, arith)
  then have "weekdays a (a + 7) = set (filter ?P ?xs)"
    unfolding weekdays_def set_filter by (simp only: greaterThanAtMost_iff)
  then have "card (weekdays a (a + 7)) = length (filter ?P ?xs)"
    using distinct_card [of "filter ?P ?xs"] by simp
  also have "\<dots> = 5"
    using r by (elim disjE) (simp_all add: w)
  finally show ?thesis .
qed

lemma card_weekdays: "card (weekdays a (a + 7 * int k)) = 5 * k"
proof (induction k)
  case (Suc k)
  let ?b = "a + 7 * int k"
  have "weekdays a (?b + 7) = weekdays a ?b \<union> weekdays ?b (?b + 7)" by (auto simp: weekdays_def)
  moreover have "finite (weekdays x y)" "weekdays a ?b \<inter> weekdays ?b (?b + 7) = {}" for x y
    by (auto simp: weekdays_def)
  ultimately show ?case using Suc card_weekdays_week [of ?b] by (simp add: card_Un_disjoint algebra_simps)
qed (simp add: weekdays_def)

lemma settlement_days_many:
  assumes "0 \<le> a"
  shows "260 - int (card (set hs)) \<le> settlement_days hs a (a + 364)"
proof -
  let ?W = "weekdays a (a + 364)" and ?H = "{x \<in> weekdays a (a + 364). format_date x \<in> set hs}"
  have fin: "finite ?W" by (simp add: weekdays_def)
  have "inj_on format_date ?H"
    using assms by (intro inj_onI format_date_inj) (auto simp: weekdays_def)
  then have "card ?H \<le> card (set hs)" by (rule card_inj_on_le) auto
  moreover have "{x \<in> {a<..a + 364}. IsSettlementDay x hs} = ?W - ?H"
    by (auto simp: weekdays_def IsSettlementDay_def)
  moreover have "card (?W - ?H) = card ?W - card ?H" using fin by (intro card_Diff_subset) auto
  moreover have "card ?W = 260" using card_weekdays [of a 52] by simp
  moreover have "card ?H \<le> card ?W" using fin by (intro card_mono) auto
  ultimately show ?thesis by (simp add: settlement_days_def)
qed


subsection \<open>Mutation plans\<close>

text \<open>What a plan does to one position: the sum of a component of its deltas over a lock key.\<close>

definition plan_sum :: "(BalanceDelta \<Rightarrow> int) \<Rightarrow> BalanceDelta list \<Rightarrow> string \<Rightarrow> int" where
  "plan_sum f p k = sum_list (map (\<lambda>d. if LockKey (dl_Key d) = k then f d else 0) p)"

definition plan_effect :: "BalanceDelta list \<Rightarrow> string \<Rightarrow> int \<times> int \<times> int" where
  "plan_effect p k = (plan_sum (\<lambda>d. or0 (dl_Amount d)) p k, plan_sum (\<lambda>d. or0 (dl_Blocked d)) p k,
     plan_sum (\<lambda>d. or0 (dl_Waiting d)) p k)"

text \<open>Components that merging adds up: the three of a delta are.\<close>

definition additive :: "(BalanceDelta \<Rightarrow> int) \<Rightarrow> bool" where
  "additive f \<longleftrightarrow> (\<forall>d e. f (Merge d e) = f d + f e) \<and> (\<forall>d. f (normalizedFields d) = f d) \<and>
     (\<forall>d. IsNoOp d \<longrightarrow> f d = 0)"

lemma additive_components:
  "additive (\<lambda>d. or0 (dl_Amount d))" "additive (\<lambda>d. or0 (dl_Blocked d))" "additive (\<lambda>d. or0 (dl_Waiting d))"
  by (simp_all add: additive_def Merge_def normalizedFields_def IsNoOp_def Let_def)

lemma delta_key [simp]: "dl_Key (Merge d e) = dl_Key d" "dl_Key (normalizedFields d) = dl_Key d"
  by (simp_all add: Merge_def normalizedFields_def Let_def)

lemma plan_sum_simps [simp]: "plan_sum f [] k = 0"
  "plan_sum f (d # ds) k = (if LockKey (dl_Key d) = k then f d else 0) + plan_sum f ds k"
  "plan_sum f (ds @ es) k = plan_sum f ds k + plan_sum f es k"
  by (simp_all add: plan_sum_def)

definition merged_ok :: "(string \<times> BalanceDelta) list \<Rightarrow> bool" where
  "merged_ok m \<longleftrightarrow> distinct (map fst m) \<and> (\<forall>(k, e) \<in> set m. k = LockKey (dl_Key e))"

lemma merged_ok_insert:
  assumes "merged_ok m" "find_row fst (LockKey (dl_Key d)) m = None"
  shows "merged_ok (m @ [(LockKey (dl_Key d), normalizedFields d)])"
  using assms by (auto simp: merged_ok_def find_row_None)

lemma merged_ok_update:
  assumes "merged_ok m" "find_row fst (LockKey (dl_Key d)) m = Some (k, e)"
  shows "k = LockKey (dl_Key d)" "k = LockKey (dl_Key e)" "merged_ok (set_row fst (k, Merge e d) m)"
proof -
  note mem = find_row_Some [OF assms(2)]
  then show "k = LockKey (dl_Key d)" by simp
  from mem assms(1) show k: "k = LockKey (dl_Key e)" by (auto simp: merged_ok_def)
  from assms(1) have "distinct (map fst (set_row fst (k, Merge e d) m))" by (simp add: merged_ok_def)
  moreover have "k' = LockKey (dl_Key e')" if "(k', e') \<in> set (set_row fst (k, Merge e d) m)" for k' e'
    using that assms(1) k by (auto simp: set_row_def merged_ok_def split: if_splits)
  ultimately show "merged_ok (set_row fst (k, Merge e d) m)" by (auto simp: merged_ok_def)
qed

lemma plan_sum_set_row:
  assumes "merged_ok m" "find_row fst k m = Some (k, e)" "k = LockKey (dl_Key e)" "dl_Key e' = dl_Key e"
  shows "plan_sum f (map snd (set_row fst (k, e') m)) j = plan_sum f (map snd m) j + (if k = j then f e' - f e else 0)"
  using sum_list_set_row [of fst m "(k, e')" "(k, e)" "\<lambda>p. if LockKey (dl_Key (snd p)) = j then f (snd p) else 0"] assms
  by (simp add: plan_sum_def merged_ok_def comp_def)

lemma merge_deltas_spec:
  assumes "merged_ok m" "additive f"
  shows "merged_ok (merge_deltas ds m) \<and>
    plan_sum f (map snd (merge_deltas ds m)) j = plan_sum f (map snd m) j + plan_sum f ds j"
  using assms
proof (induction ds m rule: merge_deltas.induct)
  case (2 d ds m)
  show ?case
  proof (cases "find_row fst (LockKey (dl_Key d)) m")
    case None
    with "2.IH" "2.prems" merged_ok_insert [OF "2.prems"(1) None] show ?thesis
      by (auto simp: map_put_def additive_def)
  next
    case (Some p)
    obtain k e where p: "p = (k, e)" by force
    note u = merged_ok_update [OF "2.prems"(1) Some [unfolded p]]
    have put: "map_put k (Merge e d) m = set_row fst (k, Merge e d) m" using Some p u by (simp add: map_put_def)
    have "plan_sum f (map snd (set_row fst (k, Merge e d) m)) j =
        plan_sum f (map snd m) j + (if k = j then f (Merge e d) - f e else 0)"
      using plan_sum_set_row [OF "2.prems"(1), of k e "Merge e d" f j] Some p u by simp
    with "2.IH" [OF _ "2.prems"(2)] u Some p put "2.prems"(2) show ?thesis
      by (auto simp: additive_def)
  qed
qed simp

lemma plan_sum_mset:
  assumes "mset xs = mset ys"
  shows "plan_sum f xs k = plan_sum f ys k"
proof -
  have "mset (map g xs) = mset (map g ys)" for g :: "BalanceDelta \<Rightarrow> int" using assms by simp
  then show ?thesis unfolding plan_sum_def sum_mset_sum_list [symmetric] by (simp only:)
qed

lemma plan_sum_drop: "additive f \<Longrightarrow> plan_sum f (filter (\<lambda>d. \<not> IsNoOp d) ds) k = plan_sum f ds k"
  by (induction ds) (auto simp: additive_def)

lemma plan_sum_absent: "k \<notin> (\<lambda>d. LockKey (dl_Key d)) ` set ds \<Longrightarrow> plan_sum f ds k = 0"
  by (induction ds) auto

lemma plan_sum_distinct:
  "distinct (map (\<lambda>d. LockKey (dl_Key d)) ds) \<Longrightarrow> d \<in> set ds \<Longrightarrow> plan_sum f ds (LockKey (dl_Key d)) = f d"
proof (induction ds)
  case (Cons x xs)
  then have "plan_sum f xs (LockKey (dl_Key x)) = 0" by (intro plan_sum_absent) simp
  with Cons show ?case by (auto simp: image_iff)
qed simp

lemma normalized_parts:
  assumes "iterates ord"
  shows "distinct (LockKeys ord p)" "sorted (LockKeys ord p)" "\<forall>d \<in> set (Normalized ord p). \<not> IsNoOp d"
    "additive f \<Longrightarrow> plan_sum f (Normalized ord p) k = plan_sum f p k"
proof -
  have ok: "merged_ok (merge_deltas p [])"
    using merge_deltas_spec [of "[]" "\<lambda>d. or0 (dl_Amount d)" p] additive_components by (simp add: merged_ok_def)
  have keys: "map (\<lambda>d. LockKey (dl_Key d)) (map snd (ord (merge_deltas p []))) = map fst (ord (merge_deltas p []))"
    using ok iterates_set [OF assms, of "merge_deltas p []"] by (auto simp: merged_ok_def)
  have "distinct (map (\<lambda>d. LockKey (dl_Key d)) (map snd (ord (merge_deltas p []))))"
    unfolding keys using ok iterates_distinct [OF assms, of fst "merge_deltas p []"] by (simp add: merged_ok_def)
  then have "distinct (map (\<lambda>d. LockKey (dl_Key d)) (filter (\<lambda>d. \<not> IsNoOp d) (map snd (ord (merge_deltas p [])))))"
    by (rule distinct_map_filter)
  then show "distinct (LockKeys ord p)"
    unfolding LockKeys_def Normalized_def by (metis mset_eq_imp_distinct_iff mset_map mset_sort)
  show "sorted (LockKeys ord p)" by (simp add: LockKeys_def Normalized_def)
  show "\<forall>d \<in> set (Normalized ord p). \<not> IsNoOp d" by (simp add: Normalized_def)
  assume f: "additive f"
  have "mset (map snd (ord (merge_deltas p []))) = mset (map snd (merge_deltas p []))"
    using assms by (simp add: iterates_def)
  then have "plan_sum f (map snd (ord (merge_deltas p []))) k = plan_sum f (map snd (merge_deltas p [])) k"
    by (rule plan_sum_mset)
  also have "\<dots> = plan_sum f p k" using merge_deltas_spec [of "[]" f p k] f by (simp add: merged_ok_def)
  finally show "plan_sum f (Normalized ord p) k = plan_sum f p k"
    unfolding Normalized_def by (simp only: plan_sum_mset [OF mset_sort] plan_sum_drop [OF f])
qed

lemma lock_keys_touched:
  assumes "iterates ord"
  shows "k \<in> set (LockKeys ord p) \<longleftrightarrow> plan_effect p k \<noteq> (0, 0, 0)"
proof -
  note n = normalized_parts [OF assms, where p = p]
  note eff = n(4) [OF additive_components(1), where k = k] n(4) [OF additive_components(2), where k = k]
    n(4) [OF additive_components(3), where k = k]
  show ?thesis
  proof
    assume "k \<in> set (LockKeys ord p)"
    then obtain d where d: "d \<in> set (Normalized ord p)" "k = LockKey (dl_Key d)" by (auto simp: LockKeys_def)
    with n(3) have "\<not> IsNoOp d" by blast
    with plan_sum_distinct [OF n(1) [unfolded LockKeys_def] d(1)] eff d(2)
    show "plan_effect p k \<noteq> (0, 0, 0)"
      by (auto simp: plan_effect_def IsNoOp_def normalizedFields_def Let_def)
  next
    assume "plan_effect p k \<noteq> (0, 0, 0)"
    then show "k \<in> set (LockKeys ord p)"
      using eff plan_sum_absent [of k "Normalized ord p"] by (force simp: plan_effect_def LockKeys_def)
  qed
qed


subsection \<open>Prices\<close>

lemma rounded_within:
  fixes x :: rat
  assumes "\<bar>of_int r - x\<bar> \<le> 1 / 2" "of_int lo \<le> x" "x \<le> of_int hi"
  shows "lo \<le> r" "r \<le> hi"
proof -
  have "of_int lo \<le> of_int r + (1 / 2 :: rat)" "of_int r \<le> of_int hi + (1 / 2 :: rat)" using assms by linarith+
  then show "lo \<le> r" "r \<le> hi" by linarith+
qed

lemma round_places_within:
  assumes "\<And>y. \<bar>of_int (r y) - y\<bar> \<le> 1 / 2" "of_int lo / 10 ^ k \<le> x" "x \<le> of_int hi / 10 ^ k"
  shows "of_int lo / 10 ^ k \<le> round_places r k x" "round_places r k x \<le> of_int hi / 10 ^ k"
proof -
  have "of_int lo \<le> x * 10 ^ k" "x * 10 ^ k \<le> of_int hi" using assms(2,3) by (simp_all add: field_simps)
  note b = rounded_within [OF assms(1) this]
  then show "of_int lo / 10 ^ k \<le> round_places r k x" "round_places r k x \<le> of_int hi / 10 ^ k"
    by (simp_all add: round_places_def divide_le_cancel)
qed

lemma round_places_error:
  assumes "\<And>y. \<bar>of_int (r y) - y\<bar> \<le> 1 / 2"
  shows "\<bar>round_places r k x - x\<bar> \<le> 1 / (2 * 10 ^ k)"
proof -
  have "round_places r k x - x = (of_int (r (x * 10 ^ k)) - x * 10 ^ k) / 10 ^ k"
    by (simp add: round_places_def diff_divide_distrib)
  then have "\<bar>round_places r k x - x\<bar> = \<bar>of_int (r (x * 10 ^ k)) - x * 10 ^ k\<bar> / 10 ^ k" by simp
  also have "\<dots> \<le> (1 / 2) / 10 ^ k" using assms by (intro divide_right_mono) simp_all
  finally show ?thesis by simp
qed

context decimal_pkg
begin

lemma wa_price_value:
  assumes "RecalculateWAPrice D w cq tq m = Inr p" "w \<noteq> [] \<Longrightarrow> parse_decimal w = Some x" "w = [] \<Longrightarrow> x = 0"
  shows "0 \<le> val cq" "0 < val tq"
    "val p = round_places round_half_even 2 (round_places round_half_away 16 ((val m + x * val cq) / (val tq + val cq)))"
proof -
  have x: "val wa = x" if "(if w = [] then Some (NewFromInt D 0) else NewFromString D w) = Some wa" for wa
    using that assms(2,3) new_int [of 0] from_string by (auto split: if_splits)
  from assms(1) show "0 \<le> val cq" "0 < val tq"
    by (auto simp: RecalculateWAPrice_def sign split: option.splits if_splits)
  then have "val tq + val cq \<noteq> 0" by linarith
  with assms(1) x show "val p = round_places round_half_even 2
      (round_places round_half_away 16 ((val m + x * val cq) / (val tq + val cq)))"
    by (auto simp: RecalculateWAPrice_def round_bank div add mul Let_def split: option.splits if_splits)
qed

end

subsection \<open>Lock keys\<close>

lemma digit_char_not_pipe: "d < 10 \<Longrightarrow> digit_char d \<noteq> CHR ''|''"
  using char_digit_inverse [of d] by (auto simp: char_digit_def Let_def split: if_splits)

lemma zero_pad_no_pipe: "CHR ''|'' \<notin> set (zero_pad w n)"
  using digits10_small [of "nat \<bar>n\<bar>"] digit_char_not_pipe
  by (fastforce simp: zero_pad_def Let_def show_nat_def)

lemma format_date_no_pipe: "CHR ''|'' \<notin> set (format_date d)"
  using zero_pad_no_pipe by (auto simp: format_date_def split: prod.splits)

lemma settleDateKey_no_pipe: "CHR ''|'' \<notin> set (settleDateKey k)"
  using format_date_no_pipe by (simp add: settleDateKey_def SpotSettleDateSentinel_def split: option.splits)

text \<open>The fields of a key that the code joins, free of the separator; dates past the sentinel.\<close>

definition key_ok :: "PositionKey \<Rightarrow> bool" where
  "key_ok k \<longleftrightarrow> CHR ''|'' \<notin> set (k_LedgerID k) \<union> set (k_IdentityID k) \<union> set (k_AccountRef k) \<union>
     set (k_Instrument k) \<union> set (k_Currency k) \<and> (\<forall>d. k_SettleDate k = Some d \<longrightarrow> 0 < d)"

lemma settleDateKey_inj:
  assumes "key_ok k" "key_ok k'" "settleDateKey k = settleDateKey k'"
  shows "k_SettleDate k = k_SettleDate k'"
proof -
  let ?day = "\<lambda>k. case k_SettleDate k of None \<Rightarrow> 0 | Some d \<Rightarrow> d"
  have key: "settleDateKey j = format_date (?day j)" for j
    by (simp add: settleDateKey_def example_dates SpotSettleDateSentinel_def split: option.splits)
  have day: "0 \<le> ?day j" "?day j = 0 \<longleftrightarrow> k_SettleDate j = None" if "key_ok j" for j
    using that by (auto simp: key_ok_def split: option.splits)
  have "?day k = ?day k'" using assms day(1) by (intro format_date_inj) (simp_all only: key)
  with day(2) [OF assms(1)] day(2) [OF assms(2)] show ?thesis
    by (cases "k_SettleDate k"; cases "k_SettleDate k'") simp_all
qed

lemma settle_scan_first_total:
  "0 < settlement_days hs (d - 1) (d + int i - 1) \<Longrightarrow> settle_scan hs i 0 d \<noteq> None"
proof (induction i arbitrary: d)
  case (Suc i)
  have "settlement_days hs (d - 1) (d + int (Suc i) - 1) =
      (if IsSettlementDay d hs then 1 else 0) + settlement_days hs (d + 1 - 1) (d + 1 + int i - 1)"
    using settlement_days_step [of "d - 1" "d + int (Suc i) - 1" hs] by (simp add: algebra_simps)
  with Suc.prems Suc.IH [of "d + 1"] show ?case by (auto split: if_splits)
qed simp

lemma settlement_days_mono: "a' \<le> a \<Longrightarrow> b \<le> b' \<Longrightarrow> settlement_days hs a b \<le> settlement_days hs a' b'"
  unfolding settlement_days_def by (simp, intro card_mono) auto

section \<open>Properties\<close>

text \<open>
  C35: Settle dates. \<open>ComputeSettleDate\<close> returns a date exactly when the offset is not negative
  and the date is the T+n settlement day of the calendar (weekends and venue holidays skipped,
  the trade date itself counting only for T+0) within a year of the trade; in every other case
  it returns an error.
\<close>

theorem settle_date_correct:
  "ComputeSettleDate t n hs = Inr d \<longleftrightarrow> 0 \<le> n \<and> settles_on hs t n d \<and> d < t + 366"
  using settle_scan_first [of hs maxLookahead t d] settle_scan_iff [of n hs maxLookahead t d]
  by (cases "n = 0") (auto simp: ComputeSettleDate_def maxLookahead_def split: option.splits)

text \<open>
  C34: Settle dates exist. For any trade date from 1970 on, the bounded look-ahead of 366 days
  is enough for every calendar whose holidays and the offset together do not exceed 259 days:
  the search ends with a date and never with the give-up error.
\<close>

theorem settle_date_exists:
  assumes "0 \<le> t" "0 \<le> n" "n + int (card (set hs)) \<le> 259"
  shows "\<exists>d. ComputeSettleDate t n hs = Inr d \<and> settles_on hs t n d"
proof -
  have many: "1 \<le> settlement_days hs t (t + 364)" "n \<le> settlement_days hs t (t + 364)"
    using settlement_days_many [OF assms(1), of hs] assms(3) assms(2) by linarith+
  have "settle_scan hs maxLookahead n t \<noteq> None"
  proof (cases "n = 0")
    case True
    have "0 < settlement_days hs (t - 1) (t + 365)"
      using many(1) settlement_days_mono [of "t - 1" t "t + 364" "t + 365" hs] by simp
    with True show ?thesis using settle_scan_first_total [of hs t 366] by (simp add: maxLookahead_def add.commute)
  next
    case False
    have "n \<le> settlement_days hs t (t + 365)"
      using many(2) settlement_days_mono [of t t "t + 364" "t + 365" hs] by simp
    with False assms(2) show ?thesis using settle_scan_total [of n hs t 366] by (simp add: maxLookahead_def add.commute)
  qed
  then obtain d where "settle_scan hs maxLookahead n t = Some d" by blast
  with assms(2) settle_scan_first [of hs maxLookahead t d] settle_scan_iff [of n hs maxLookahead t d]
  show ?thesis by (cases "n = 0") (auto simp: ComputeSettleDate_def)
qed

theorem settle_date_exists_witness:
  "ComputeSettleDate 19782 2 [''2024-03-04''] = Inr 19787 \<and> settles_on [''2024-03-04''] 19782 2 19787 \<and>
   (\<exists>d. ComputeSettleDate 19782 2 [''2024-03-04''] = Inr d \<and> settles_on [''2024-03-04''] 19782 2 d)"
proof -
  have run: "ComputeSettleDate 19782 2 [''2024-03-04''] = Inr 19787" by code_simp
  with settle_date_exists [of 19782 2 "[''2024-03-04'']"] show ?thesis by auto
qed

text \<open>
  Normalising a mutation plan. Whatever order Go walks its map in, the normalised plan has
  the same effect on every position as the plan (the deltas of a key added up), its lock keys
  come in strictly increasing order (the global order that guards against deadlock), and they
  are exactly the keys on which the plan has an effect: nothing is lost and no-ops are dropped.
\<close>

lemma normalized_plan_equivalent:
  assumes "iterates ord"
  shows "plan_effect (Normalized ord p) = plan_effect p \<and> sorted_wrt (<) (LockKeys ord p) \<and>
    set (LockKeys ord p) = {k. plan_effect p k \<noteq> (0, 0, 0)}"
proof (intro conjI)
  note n = normalized_parts [OF assms, where p = p]
  show "plan_effect (Normalized ord p) = plan_effect p"
    by (rule ext) (simp add: plan_effect_def n(4) additive_components)
  show "sorted_wrt (<) (LockKeys ord p)" using n(1,2) by (simp add: strict_sorted_iff)
  show "set (LockKeys ord p) = {k. plan_effect p k \<noteq> (0, 0, 0)}" using lock_keys_touched [OF assms] by blast
qed

definition ex_key :: "string \<Rightarrow> PositionKey" where
  "ex_key ins = \<lparr>k_LedgerID = ''ldg'', k_IdentityID = ''idt'', k_AccountRef = ''acc'', k_Instrument = ins,
     k_Currency = ''USD'', k_SettleDate = None, k_SettleCode = None\<rparr>"

definition ex_plan :: "BalanceDelta list" where
  "ex_plan = [\<lparr>dl_Key = ex_key ''ZZZ'', dl_Amount = Some 5, dl_Blocked = None, dl_Waiting = None\<rparr>,
     \<lparr>dl_Key = ex_key ''AAA'', dl_Amount = Some 7, dl_Blocked = Some 1, dl_Waiting = None\<rparr>,
     \<lparr>dl_Key = ex_key ''ZZZ'', dl_Amount = Some (- 5), dl_Blocked = None, dl_Waiting = None\<rparr>]"

text \<open>
  Lock keys identify positions. Two keys whose fields hold no separator and whose settle
  dates lie after 1970-01-01 have the same lock key only if they are the same position (the
  informational settle code aside), so distinct positions never share a lock.
\<close>

lemma lock_key_identifies_position:
  assumes "key_ok k" "key_ok k'" "LockKey k = LockKey k'"
  shows "k = k'\<lparr>k_SettleCode := k_SettleCode k\<rparr>"
proof -
  let ?fs = "\<lambda>k. [''brokerage'', k_LedgerID k, k_IdentityID k, k_AccountRef k, k_Instrument k, k_Currency k, settleDateKey k]"
  have "?fs k = ?fs k'"
    using assms settleDateKey_no_pipe
    by (intro str_join_inj [where c = "CHR ''|''"]) (auto simp: key_ok_def LockKey_def)
  then show ?thesis using settleDateKey_inj [OF assms(1,2)] by (cases k; cases k') simp
qed

text \<open>The day of the sentinel itself is not told apart from spot.\<close>

lemma sentinel_day_is_spot: "LockKey ((ex_key ''AAA'')\<lparr>k_SettleDate := Some 0\<rparr>) = LockKey (ex_key ''AAA'')"
  by (simp add: LockKey_def settleDateKey_def example_dates ex_key_def SpotSettleDateSentinel_def)

text \<open>
  C36: Weighted-average price. A recalculated price is a whole number of cents within half a
  cent (and the rounding of the division) of the exact average of the old position and the
  trade, and it lies between the old price and the trade price whenever both are whole cents:
  rounding never pushes it outside.
\<close>

theorem wa_price_between:
  assumes "decimal_pkg D val" "RecalculateWAPrice D w cq tq m = Inr p"
    and "w \<noteq> [] \<Longrightarrow> parse_decimal w = Some x" "w = [] \<Longrightarrow> x = 0 \<and> val cq = 0"
    and "w \<noteq> [] \<Longrightarrow> of_int lo / 100 \<le> x \<and> x \<le> of_int hi / 100"
    and "of_int lo / 100 * val tq \<le> val m" "val m \<le> of_int hi / 100 * val tq"
  shows "(\<exists>n. val p = of_int n / 100) \<and>
    \<bar>val p - (val m + x * val cq) / (val tq + val cq)\<bar> \<le> 1 / 200 + 1 / (2 * 10 ^ 16) \<and>
    of_int lo / 100 \<le> val p \<and> val p \<le> of_int hi / 100"
proof -
  let ?q = "(val m + x * val cq) / (val tq + val cq)"
  let ?d = "round_places round_half_away 16 ?q"
  have v: "0 \<le> val cq" "0 < val tq" "val p = round_places round_half_even 2 ?d"
    using decimal_pkg.wa_price_value [OF assms(1,2), of x] assms(3,4) by auto
  have "val cq = 0 \<or> (of_int lo / 100 \<le> x \<and> x \<le> of_int hi / 100)" using assms(4,5) by blast
  then have lo: "of_int lo / 100 * val cq \<le> x * val cq" and hi: "x * val cq \<le> of_int hi / 100 * val cq"
    using mult_right_mono [OF _ v(1)] by (metis mult_zero_right order_refl)+
  have "of_int lo / 100 * (val tq + val cq) \<le> val m + x * val cq"
    "val m + x * val cq \<le> of_int hi / 100 * (val tq + val cq)"
    using add_mono [OF assms(6) lo] add_mono [OF assms(7) hi] by (simp_all only: distrib_left)
  then have q: "of_int lo / 100 \<le> ?q" "?q \<le> of_int hi / 100"
    using v(1,2) by (simp_all add: pos_le_divide_eq pos_divide_le_eq)
  have c: "of_int n / 100 = (of_int (n * 10 ^ 14) / 10 ^ 16 :: rat)" "of_int n / 100 = (of_int n / 10 ^ 2 :: rat)" for n
    by simp_all
  have d: "of_int lo / 100 \<le> ?d" "?d \<le> of_int hi / 100"
    using round_places_within [of round_half_away, OF round_half_away_error q [unfolded c(1)]] unfolding c(1) by blast+
  have "of_int lo / 100 \<le> val p" "val p \<le> of_int hi / 100"
    using round_places_within [of round_half_even, OF round_half_even_error d [unfolded c(2)]] unfolding c(2) v(3) by blast+
  moreover have "\<exists>n. val p = of_int n / 100" by (auto simp: v(3) round_places_def)
  moreover have "\<bar>val p - ?q\<bar> \<le> 1 / 200 + 1 / (2 * 10 ^ 16)"
  proof -
    have "\<bar>val p - ?d\<bar> \<le> 1 / 200"
      using round_places_error [of round_half_even 2 ?d, OF round_half_even_error] by (simp add: v(3))
    moreover have "\<bar>?d - ?q\<bar> \<le> 1 / (2 * 10 ^ 16)" by (rule round_places_error [OF round_half_away_error])
    moreover have "\<bar>val p - ?q\<bar> \<le> \<bar>val p - ?d\<bar> + \<bar>?d - ?q\<bar>"
      using abs_triangle_ineq [of "val p - ?d" "?d - ?q"] by (simp only: diff_add_cancel add_diff_eq)
    ultimately show ?thesis using add_mono order_trans by blast
  qed
  ultimately show ?thesis by blast
qed

theorem wa_price_between_witness:
  "RecalculateWAPrice rat_decimal ''10.00'' 3 1 11 = Inr (1025 / 100) \<and>
   (of_int 1000 / 100 :: rat) \<le> 1025 / 100 \<and> (1025 / 100 :: rat) \<le> of_int 1100 / 100"
proof -
  have run: "RecalculateWAPrice rat_decimal ''10.00'' 3 1 11 = Inr (1025 / 100)" by code_simp
  have "parse_decimal ''10.00'' = Some 10" by code_simp
  with wa_price_between [OF ratdec.decimal_pkg_axioms run, of 10 1000 1100] run show ?thesis by simp
qed

end
