(* ===== verification/Chain.thy ===== *)
theory Chain
  imports Positions
begin

text \<open>
  The tamper-evident hash chain over the transactions (\<open>model/chain.go\<close>, \<open>database/chain.go\<close>,
  \<open>chain_worker.go\<close>): the canonical text of a row and its hash, the sealing of pending rows in one
  database transaction, the background processor's tick, and the verifier that replays the
  chain from genesis in pages. \<open>H\<close> is hex-encoded SHA-256. The reference of this database view
  is the table of transactions with its chain columns and the single bookmark row.
\<close>

section \<open>The model\<close>

subsection \<open>Canonical rows\<close>

definition ChainGenesisHash :: string where
  "ChainGenesisHash = replicate 64 (CHR ''0'')"

record ChainRow =
  cw_TransactionID :: string
  cw_Source :: string
  cw_Destination :: string
  cw_Amount :: string
  cw_PreciseAmount :: string
  cw_Currency :: string
  cw_Status :: string
  cw_Reference :: string
  cw_CreatedAt :: int

text \<open>
  \<open>t.UTC().Format(time.RFC3339Nano)\<close> of a time in nanoseconds since Go's zero time: the
  fraction is written without trailing zeros, and not at all when it is zero.
\<close>

definition day_ns :: int where "day_ns = 86400000000000"

definition trim_zeros :: "string \<Rightarrow> string" where
  "trim_zeros s = rev (dropWhile (\<lambda>c. c = CHR ''0'') (rev s))"

definition fraction :: "int \<Rightarrow> string" where
  "fraction ns = (if ns = 0 then [] else ''.'' @ trim_zeros (zero_pad 9 ns))"

definition clock :: "int \<Rightarrow> string" where
  "clock ns = str_join '':'' [zero_pad 2 (ns div 3600000000000), zero_pad 2 (ns div 60000000000 mod 60),
     zero_pad 2 (ns div 1000000000 mod 60)] @ fraction (ns mod 1000000000) @ ''Z''"

definition RFC3339Nano :: "int \<Rightarrow> string" where
  "RFC3339Nano t = format_date (t div day_ns - 719162) @ ''T'' @ clock (t mod day_ns)"

definition row_fields :: "ChainRow \<Rightarrow> string list" where
  "row_fields r = [cw_TransactionID r, cw_Source r, cw_Destination r, cw_Amount r, cw_PreciseAmount r,
     cw_Currency r, cw_Status r, cw_Reference r, RFC3339Nano (cw_CreatedAt r)]"

definition ComputeChainHash :: "(string \<Rightarrow> string) \<Rightarrow> string \<Rightarrow> ChainRow \<Rightarrow> string" where
  "ComputeChainHash H prevHash r = H (str_join ''|'' (prevHash # row_fields r))"

record ChainState =
  cs_LastSeq :: int
  cs_HeadHash :: string
  cs_GenesisHash :: string
  cs_GenesisAt :: int
  cs_UpdatedAt :: int

record ChainedTransaction =
  c_Row :: ChainRow
  c_ChainSeq :: int
  c_ChainPrevHash :: string
  c_ChainHash :: string

subsection \<open>The tables\<close>

text \<open>
  A row of \<open>blnk.transactions\<close> as the chain sees it, and the row of \<open>blnk.chain_state\<close> with the
  key \<open>global\<close>. The partial unique index forbids two rows with the same \<open>chain_seq\<close>.
\<close>

record chain_txn =
  x_id :: int
  x_row :: ChainRow
  x_seq :: "int option"
  x_prev :: "string option"
  x_hash :: "string option"

record chain_db =
  db_rows :: "chain_txn list"
  db_state :: "ChainState option"

definition unchained :: "int \<Rightarrow> chain_db \<Rightarrow> chain_txn list" where
  "unchained cutoff db = filter (\<lambda>r. x_seq r = None \<and> cw_CreatedAt (x_row r) < cutoff) (db_rows db)"

record link =
  l_id :: int
  l_seq :: int
  l_prevHash :: string
  l_hash :: string

fun make_links :: "(string \<Rightarrow> string) \<Rightarrow> int \<Rightarrow> string \<Rightarrow> chain_txn list \<Rightarrow> link list \<times> int \<times> string" where
  "make_links H lastSeq head [] = ([], lastSeq, head)"
| "make_links H lastSeq head (r # rs) =
     (let h = ComputeChainHash H head (x_row r)
      in case make_links H (lastSeq + 1) h rs of
           (ls, n, h') \<Rightarrow> (\<lparr>l_id = x_id r, l_seq = lastSeq + 1, l_prevHash = head, l_hash = h\<rparr> # ls, n, h'))"

definition linked :: "link \<Rightarrow> chain_txn \<Rightarrow> chain_txn" where
  "linked l r = (if x_id r = l_id l
     then r\<lparr>x_seq := Some (l_seq l), x_prev := Some (l_prevHash l), x_hash := Some (l_hash l)\<rparr> else r)"

fun write_links :: "faults \<Rightarrow> link list \<Rightarrow> chain_txn list \<Rightarrow> chain_txn list option" where
  "write_links F [] rows = Some rows"
| "write_links F (l # ls) rows =
     (if F (''chain.link:'' @ show_int (l_seq l)) \<or> (\<exists>r \<in> set rows. x_id r \<noteq> l_id l \<and> x_seq r = Some (l_seq l)) then None
      else write_links F ls (map (linked l) rows))"

text \<open>
  The whole sealing of a batch at the time \<open>now\<close>. The row lock on the bookmark makes it one
  step; an error at any point leaves the tables as they were.
\<close>

definition ChainPendingTransactions ::
    "(string \<Rightarrow> string) \<Rightarrow> faults \<Rightarrow> int \<Rightarrow> int \<Rightarrow> int \<Rightarrow> chain_db \<Rightarrow> chain_db \<times> int res" where
  "ChainPendingTransactions H F now cutoff batchSize db =
     (if F ''BeginTx'' then (db, Inl (internal ''Failed to begin chain transaction''))
      else case (if F ''chain.lock'' then None else db_state db) of
        None \<Rightarrow> (db, Inl (internal ''Failed to lock chain state''))
      | Some st \<Rightarrow>
          if F ''chain.scan'' \<or> batchSize < 0 then (db, Inl (internal ''Failed to scan unchained transactions''))
          else if F ''chain.read'' then (db, Inl (internal ''Failed to read unchained transaction''))
          else if F ''chain.rows'' then (db, Inl (internal ''Error iterating unchained transactions''))
          else case make_links H (cs_LastSeq st) (cs_HeadHash st)
                      (take (nat batchSize) (sort_key x_id (unchained cutoff db))) of
            (batch, lastSeq, head) \<Rightarrow>
              if batch = [] then
                (db, if F ''Commit'' then Inl (internal ''Failed to commit empty chain batch'') else Inr 0)
              else if F ''chain.prepare'' then (db, Inl (internal ''Failed to prepare chain update''))
              else case write_links F batch (db_rows db) of
                None \<Rightarrow> (db, Inl (internal ''Failed to write chain link''))
              | Some rows \<Rightarrow>
                  if F ''chain.advance'' then (db, Inl (internal ''Failed to advance chain state''))
                  else if F ''Commit'' then (db, Inl (internal ''Failed to commit chain batch''))
                  else (db\<lparr>db_rows := rows,
                          db_state := Some (st\<lparr>cs_LastSeq := lastSeq, cs_HeadHash := head, cs_UpdatedAt := now\<rparr>)\<rparr>,
                        Inr (int (length batch))))"

definition GetChainState :: "faults \<Rightarrow> chain_db \<Rightarrow> ChainState res" where
  "GetChainState F db = (case (if F ''GetChainState'' then None else db_state db) of
       None \<Rightarrow> Inl (internal ''Failed to get chain state'') | Some st \<Rightarrow> Inr st)"

definition or_empty :: "string option \<Rightarrow> string" where
  "or_empty x = (case x of None \<Rightarrow> [] | Some s \<Rightarrow> s)"

definition scan_chained :: "chain_txn \<Rightarrow> ChainedTransaction" where
  "scan_chained r = \<lparr>c_Row = x_row r, c_ChainSeq = the (x_seq r), c_ChainPrevHash = or_empty (x_prev r),
     c_ChainHash = or_empty (x_hash r)\<rparr>"

definition seq_after :: "int \<Rightarrow> chain_txn \<Rightarrow> bool" where
  "seq_after l r = (case x_seq r of None \<Rightarrow> False | Some q \<Rightarrow> l < q)"

definition chained_after :: "int \<Rightarrow> chain_txn list \<Rightarrow> ChainedTransaction list" where
  "chained_after afterSeq rows = sort_key c_ChainSeq
     (map scan_chained (filter (seq_after afterSeq) rows))"

definition GetChainedTransactionsAfter :: "faults \<Rightarrow> int \<Rightarrow> nat \<Rightarrow> chain_db \<Rightarrow> ChainedTransaction list res" where
  "GetChainedTransactionsAfter F afterSeq limit db =
     (if F (''chained.query:'' @ show_int afterSeq) then Inl (internal ''Failed to query chained transactions'')
      else if F (''chained.scan:'' @ show_int afterSeq) then Inl (internal ''Failed to scan chained transaction'')
      else if F (''chained.rows:'' @ show_int afterSeq) then Inl (internal ''Error iterating chained transactions'')
      else Inr (take limit (chained_after afterSeq (db_rows db))))"

definition CountUnchainedTransactions :: "faults \<Rightarrow> int \<Rightarrow> chain_db \<Rightarrow> int res" where
  "CountUnchainedTransactions F cutoff db =
     (if F ''CountUnchained'' then Inl (internal ''Failed to count unchained transactions'')
      else Inr (int (length (unchained cutoff db))))"

subsection \<open>The processor\<close>

record ChainProcessor =
  p_pollInterval :: int
  p_batchSize :: int
  p_trailingDelay :: int
  p_running :: bool

definition NewChainProcessor :: "int \<Rightarrow> int \<Rightarrow> int \<Rightarrow> ChainProcessor" where
  "NewChainProcessor poll batch delay =
     \<lparr>p_pollInterval = (if poll \<le> 0 then 5 * 1000000000 else poll),
      p_batchSize = (if batch \<le> 0 then 1000 else batch),
      p_trailingDelay = (if delay \<le> 0 then 30 * 1000000000 else delay), p_running = False\<rparr>"

text \<open>
  The running flag. \<open>Start\<close> and \<open>Stop\<close> also say how many loops they leave running: the goroutine that
  \<open>Start\<close> launches, and none after \<open>Stop\<close> has waited for it.
\<close>

definition chain_Start :: "ChainProcessor \<times> nat \<Rightarrow> ChainProcessor \<times> nat" where
  "chain_Start = (\<lambda>(p, loops). if p_running p then (p, loops) else (p\<lparr>p_running := True\<rparr>, loops + 1))"

definition chain_Stop :: "ChainProcessor \<times> nat \<Rightarrow> ChainProcessor \<times> nat" where
  "chain_Stop = (\<lambda>(p, loops). if \<not> p_running p then (p, loops) else (p\<lparr>p_running := False\<rparr>, 0))"

definition IsRunning :: "ChainProcessor \<Rightarrow> bool" where
  "IsRunning p = p_running p"

definition maxBatchesPerTick :: nat where "maxBatchesPerTick = 50"

text \<open>\<open>Fs\<close> and \<open>nows\<close> give the failures and the database's clock of each call in the tick.\<close>

fun tick_loop :: "(string \<Rightarrow> string) \<Rightarrow> (nat \<Rightarrow> faults) \<Rightarrow> (nat \<Rightarrow> int) \<Rightarrow> int \<Rightarrow> int \<Rightarrow> nat \<Rightarrow> chain_db \<Rightarrow> chain_db" where
  "tick_loop H Fs nows cutoff batchSize 0 db = db"
| "tick_loop H Fs nows cutoff batchSize (Suc k) db =
     (case ChainPendingTransactions H (Fs k) (nows k) cutoff batchSize db of
        (db', Inl e) \<Rightarrow> db'
      | (db', Inr n) \<Rightarrow> if n < batchSize then db' else tick_loop H Fs nows cutoff batchSize k db')"

definition processTick :: "(string \<Rightarrow> string) \<Rightarrow> (nat \<Rightarrow> faults) \<Rightarrow> (nat \<Rightarrow> int) \<Rightarrow> ChainProcessor \<Rightarrow> int \<Rightarrow> chain_db \<Rightarrow> chain_db" where
  "processTick H Fs nows p now db = tick_loop H Fs nows (now - p_trailingDelay p) (p_batchSize p) maxBatchesPerTick db"

subsection \<open>The verifier\<close>

record ChainVerifyResult =
  v_Verified :: bool
  v_LastSeq :: int
  v_HeadHash :: string
  v_BrokenSeq :: int
  v_BrokenTxnID :: string
  v_Reason :: string

definition zero_result :: ChainVerifyResult where
  "zero_result = \<lparr>v_Verified = False, v_LastSeq = 0, v_HeadHash = [], v_BrokenSeq = 0, v_BrokenTxnID = [], v_Reason = []\<rparr>"

definition broken :: "ChainedTransaction \<Rightarrow> string \<Rightarrow> ChainVerifyResult" where
  "broken ct why = zero_result\<lparr>v_BrokenSeq := c_ChainSeq ct, v_BrokenTxnID := cw_TransactionID (c_Row ct), v_Reason := why\<rparr>"

text \<open>One page: the first broken link, or the running head, last and expected position after it.\<close>

fun verify_rows :: "(string \<Rightarrow> string) \<Rightarrow> ChainedTransaction list \<Rightarrow> string \<Rightarrow> int \<Rightarrow> int
       \<Rightarrow> ChainVerifyResult + (string \<times> int \<times> int)" where
  "verify_rows H [] head lastSeq expectedSeq = Inr (head, lastSeq, expectedSeq)"
| "verify_rows H (ct # cts) head lastSeq expectedSeq =
     (if c_ChainSeq ct \<noteq> expectedSeq then
        Inl (broken ct (''non-contiguous chain_seq: expected '' @ show_int expectedSeq @ '', got '' @ show_int (c_ChainSeq ct)))
      else if c_ChainPrevHash ct \<noteq> head then Inl (broken ct ''chain_prev_hash does not match the running head'')
      else if ComputeChainHash H head (c_Row ct) \<noteq> c_ChainHash ct then
        Inl (broken ct ''recomputed hash does not match stored chain_hash'')
      else verify_rows H cts (c_ChainHash ct) (c_ChainSeq ct) (expectedSeq + 1))"

definition verify_page :: nat where "verify_page = 1000"

lemma verify_rows_last:
  "verify_rows H cts head l e = Inr (h', l', e') \<Longrightarrow> cts \<noteq> [] \<Longrightarrow> l' \<in> c_ChainSeq ` set cts"
  by (induction cts arbitrary: head l e) (auto split: if_splits, (metis image_eqI list.set_intros verify_rows.simps(1) prod.inject sum.inject(2))+)

lemma seq_after_iff: "seq_after l r \<longleftrightarrow> (\<exists>q. x_seq r = Some q \<and> l < q)"
  by (simp add: seq_after_def split: option.splits)

lemma chained_after_member:
  assumes "c \<in> set (chained_after l rows)"
  shows "l < c_ChainSeq c \<and> Some (c_ChainSeq c) \<in> x_seq ` set rows"
  using assms by (auto simp: chained_after_def scan_chained_def seq_after_iff intro: rev_image_eqI)

lemma fewer_after:
  assumes "Some q \<in> x_seq ` set rows" "l < q"
  shows "length (filter (seq_after q) rows) < length (filter (seq_after l) rows)"
proof -
  have "filter (seq_after q) rows = filter (seq_after q) (filter (seq_after l) rows)"
    using assms(2) by (auto simp: seq_after_iff intro!: filter_cong)
  moreover obtain r where "r \<in> set rows" "x_seq r = Some q" using assms(1) by auto
  then have "\<exists>r \<in> set (filter (seq_after l) rows). \<not> seq_after q r"
    using assms(2) by (intro bexI [of _ r]) (auto simp: seq_after_iff)
  ultimately show ?thesis by (metis length_filter_less)
qed

lemma page_progress:
  assumes get: "GetChainedTransactionsAfter F l verify_page db = Inr rows" and ne: "rows \<noteq> []"
    and v: "verify_rows H rows head l e = Inr (head', l', e')"
  shows "length (filter (seq_after l') (db_rows db)) < length (filter (seq_after l) (db_rows db))"
proof -
  obtain c where c: "c \<in> set rows" "l' = c_ChainSeq c" using verify_rows_last [OF v ne] by auto
  then have "c \<in> set (chained_after l (db_rows db))"
    using get by (auto simp: GetChainedTransactionsAfter_def split: if_splits dest: in_set_takeD)
  with c(2) show ?thesis using chained_after_member fewer_after by blast
qed

function verify_pages :: "(string \<Rightarrow> string) \<Rightarrow> faults \<Rightarrow> chain_db \<Rightarrow> string \<Rightarrow> int \<Rightarrow> int
       \<Rightarrow> (ChainVerifyResult + (string \<times> int)) res" where
  "verify_pages H F db head lastSeq expectedSeq =
     (case GetChainedTransactionsAfter F lastSeq verify_page db of
        Inl e \<Rightarrow> Inl e
      | Inr rows \<Rightarrow>
          if rows = [] then Inr (Inr (head, lastSeq))
          else case verify_rows H rows head lastSeq expectedSeq of
                 Inl v \<Rightarrow> Inr (Inl v)
               | Inr (head', lastSeq', expectedSeq') \<Rightarrow> verify_pages H F db head' lastSeq' expectedSeq')"
  by pat_completeness auto
termination
  by (relation "measure (\<lambda>(H, F, db, head, l, e). length (filter (seq_after l) (db_rows db)))")
     (auto dest: page_progress)

declare verify_pages.simps [simp del]

text \<open>\<open>progress\<close>, a callback for the display, is left out.\<close>

definition VerifyChain :: "(string \<Rightarrow> string) \<Rightarrow> faults \<Rightarrow> chain_db \<Rightarrow> ChainVerifyResult res" where
  "VerifyChain H F db =
     (case GetChainState F db of
        Inl e \<Rightarrow> Inl e
      | Inr state \<Rightarrow>
          (case verify_pages H F db (cs_GenesisHash state) 0 1 of
             Inl e \<Rightarrow> Inl e
           | Inr (Inl v) \<Rightarrow> Inr v
           | Inr (Inr (head, lastSeq)) \<Rightarrow>
               if lastSeq = cs_LastSeq state \<and> head \<noteq> cs_HeadHash state then
                 Inr (zero_result\<lparr>v_BrokenSeq := lastSeq, v_Reason := ''replayed head does not match chain_state head_hash''\<rparr>)
               else Inr (zero_result\<lparr>v_Verified := True, v_LastSeq := lastSeq, v_HeadHash := head\<rparr>)))"

section \<open>Facts\<close>

subsection \<open>What the verifier accepts\<close>

text \<open>A list of sealed rows that continues a chain whose head is \<open>h\<close> and whose next position is \<open>k\<close>.\<close>

fun valid_from :: "(string \<Rightarrow> string) \<Rightarrow> string \<Rightarrow> int \<Rightarrow> ChainedTransaction list \<Rightarrow> bool" where
  "valid_from H h k [] \<longleftrightarrow> True"
| "valid_from H h k (c # cs) \<longleftrightarrow> c_ChainSeq c = k \<and> c_ChainPrevHash c = h \<and>
     ComputeChainHash H h (c_Row c) = c_ChainHash c \<and> valid_from H (c_ChainHash c) (k + 1) cs"

definition end_head :: "string \<Rightarrow> ChainedTransaction list \<Rightarrow> string" where
  "end_head h cs = (if cs = [] then h else c_ChainHash (last cs))"

lemma end_head_simps [simp]: "end_head h [] = h" "end_head h (c # cs) = end_head (c_ChainHash c) cs"
  "end_head h (cs @ [c]) = c_ChainHash c"
  by (simp_all add: end_head_def)

lemma end_head_append: "end_head h (xs @ ys) = end_head (end_head h xs) ys"
  by (induction xs arbitrary: h) simp_all

lemma valid_from_append:
  "valid_from H h k (xs @ ys) \<longleftrightarrow> valid_from H h k xs \<and> valid_from H (end_head h xs) (k + int (length xs)) ys"
  by (induction xs arbitrary: h k) (auto simp: algebra_simps)

lemma valid_from_seqs: "valid_from H h k cs \<Longrightarrow> map c_ChainSeq cs = map (\<lambda>i. k + int i) [0..<length cs]"
proof (induction cs arbitrary: h k)
  case (Cons c cs)
  then have "map c_ChainSeq cs = map (\<lambda>i. k + 1 + int i) [0..<length cs]" by (metis valid_from.simps(2))
  also have "\<dots> = map (\<lambda>i. k + int i) (map Suc [0..<length cs])" by simp
  finally show ?case using Cons.prems by (simp add: map_Suc_upt upt_conv_Cons del: upt_Suc)
qed simp

lemma verify_rows_valid:
  "verify_rows H cts h l k = Inr x \<longleftrightarrow>
     valid_from H h k cts \<and> x = (end_head h cts, if cts = [] then l else k + int (length cts) - 1, k + int (length cts))"
  by (induction cts arbitrary: h l k) auto

text \<open>The partial unique index on \<open>chain_seq\<close>.\<close>

definition seq_index :: "chain_db \<Rightarrow> bool" where
  "seq_index db \<longleftrightarrow> distinct (filter (\<lambda>q. q \<noteq> None) (map x_seq (db_rows db)))"

lemma seq_index_chained: "seq_index db \<Longrightarrow> distinct (map c_ChainSeq (chained_after l (db_rows db)))"
proof -
  assume a: "seq_index db"
  have eq: "map Some (map c_ChainSeq (map scan_chained (filter (seq_after l) rows))) =
      filter (\<lambda>q. \<exists>n. q = Some n \<and> l < n) (filter (\<lambda>q. q \<noteq> None) (map x_seq rows))" for rows
    by (induction rows) (auto simp: seq_after_iff scan_chained_def)
  have "distinct (map Some (map c_ChainSeq (map scan_chained (filter (seq_after l) (db_rows db)))))"
    unfolding eq by (rule distinct_filter) (use a in \<open>simp only: seq_index_def\<close>)
  then have "distinct (map c_ChainSeq (map scan_chained (filter (seq_after l) (db_rows db))))"
    by (rule conjunct1 [OF distinct_map [THEN iffD1]])
  then show ?thesis
    unfolding chained_after_def by (simp only: distinct_map distinct_sort set_sort)
qed

lemma sorted_chained [simp]: "sorted (map c_ChainSeq (chained_after l rows))"
  by (simp add: chained_after_def)

lemma chained_after_filter:
  assumes "l \<le> l'"
  shows "chained_after l' rows = filter (\<lambda>c. l' < c_ChainSeq c) (chained_after l rows)"
proof -
  have "map scan_chained (filter (seq_after l') rows) =
      filter (\<lambda>c. l' < c_ChainSeq c) (map scan_chained (filter (seq_after l) rows))"
    using assms by (induction rows) (auto simp: seq_after_iff scan_chained_def)
  then show ?thesis by (simp add: chained_after_def filter_sort)
qed

text \<open>After a valid page the next query returns exactly the rest.\<close>

lemma next_page:
  assumes ix: "seq_index db" and v: "valid_from H h (l + 1) (take n (chained_after l (db_rows db)))"
    and m: "m = length (take n (chained_after l (db_rows db)))"
  shows "chained_after (l + int m) (db_rows db) = drop n (chained_after l (db_rows db))"
proof -
  let ?L = "chained_after l (db_rows db)"
  have low: "\<forall>c \<in> set (take n ?L). \<not> l + int m < c_ChainSeq c"
  proof
    fix c assume "c \<in> set (take n ?L)"
    then have "c_ChainSeq c \<in> set (map c_ChainSeq (take n ?L))" by simp
    then show "\<not> l + int m < c_ChainSeq c" unfolding valid_from_seqs [OF v] using m by auto
  qed
  have high: "\<forall>c \<in> set (drop n ?L). l + int m < c_ChainSeq c"
  proof (cases "m = 0")
    case True
    then show ?thesis using chained_after_member by (auto dest: in_set_dropD)
  next
    case False
    let ?qs = "map c_ChainSeq ?L"
    have "l + int m \<in> set (map c_ChainSeq (take n ?L))"
      unfolding valid_from_seqs [OF v] m [symmetric] using False by (auto intro!: image_eqI [of _ _ "m - 1"])
    then have mem: "l + int m \<in> set (take n ?qs)" by (simp add: take_map)
    have "sorted (take n ?qs @ drop n ?qs)" "distinct (take n ?qs @ drop n ?qs)"
      using seq_index_chained [OF ix] by simp_all
    with mem have "\<forall>q \<in> set (drop n ?qs). l + int m < q"
      unfolding sorted_append distinct_append by (metis disjoint_iff order_le_imp_less_or_eq)
    then show ?thesis by (simp add: drop_map)
  qed
  have "chained_after (l + int m) (db_rows db) = filter (\<lambda>c. l + int m < c_ChainSeq c) (take n ?L @ drop n ?L)"
    using chained_after_filter [of l "l + int m" "db_rows db"] by simp
  also have "\<dots> = drop n ?L" unfolding filter_append using low high by simp
  finally show ?thesis .
qed

lemma page_rows:
  "GetChainedTransactionsAfter F l verify_page db = Inr rows \<Longrightarrow> rows = take verify_page (chained_after l (db_rows db))"
  "\<forall>p. \<not> F p \<Longrightarrow> GetChainedTransactionsAfter F l verify_page db = Inr (take verify_page (chained_after l (db_rows db)))"
  by (auto simp: GetChainedTransactionsAfter_def split: if_splits)

lemma verify_pages_sound:
  assumes "verify_pages H F db h l k = Inr (Inr (h', l'))" "k = l + 1" "seq_index db"
  shows "valid_from H h k (chained_after l (db_rows db)) \<and> h' = end_head h (chained_after l (db_rows db)) \<and>
    l' = l + int (length (chained_after l (db_rows db)))"
  using assms
proof (induction H F db h l k rule: verify_pages.induct)
  case (1 H F db h l k)
  let ?L = "chained_after l (db_rows db)" and ?P = "take verify_page (chained_after l (db_rows db))"
  from 1(2) have get: "GetChainedTransactionsAfter F l verify_page db = Inr ?P"
    by (subst (asm) verify_pages.simps) (auto split: sum.splits dest: page_rows)
  show ?case
  proof (cases "?P = []")
    case True
    then have "?L = []" by (simp add: verify_page_def)
    then show ?thesis using 1(2) get by (subst (asm) verify_pages.simps) simp
  next
    case False
    from 1(2) get False obtain x where x: "verify_rows H ?P h l k = Inr x"
      by (subst (asm) verify_pages.simps) (auto split: sum.splits)
    then have v: "valid_from H h k ?P" and xe: "x = (end_head h ?P, k + int (length ?P) - 1, k + int (length ?P))"
      using False by (simp_all add: verify_rows_valid)
    have rest: "chained_after (l + int (length ?P)) (db_rows db) = drop verify_page ?L"
      using next_page [OF 1(4) v [unfolded 1(3)] refl] .
    have "verify_pages H F db (end_head h ?P) (l + int (length ?P)) (k + int (length ?P)) = Inr (Inr (h', l'))"
      using 1(2) get False x xe 1(3) by (subst (asm) verify_pages.simps) simp
    with 1(1) [OF get False x xe [symmetric] refl] 1(3,4) have
      "valid_from H (end_head h ?P) (k + int (length ?P)) (drop verify_page ?L) \<and>
       h' = end_head (end_head h ?P) (drop verify_page ?L) \<and>
       l' = l + int (length ?P) + int (length (drop verify_page ?L))" unfolding rest [symmetric] by simp
    moreover have "?L = ?P @ drop verify_page ?L" by simp
    ultimately show ?thesis
      using v valid_from_append [of H h k ?P "drop verify_page ?L"] end_head_append [of h ?P "drop verify_page ?L"] by simp
  qed
qed

lemma verify_pages_complete:
  assumes "\<forall>p. \<not> F p" "seq_index db" "valid_from H h k (chained_after l (db_rows db))" "k = l + 1"
  shows "verify_pages H F db h l k = Inr (Inr (end_head h (chained_after l (db_rows db)),
    l + int (length (chained_after l (db_rows db)))))"
  using assms
proof (induction H F db h l k rule: verify_pages.induct)
  case (1 H F db h l k)
  let ?L = "chained_after l (db_rows db)" and ?P = "take verify_page (chained_after l (db_rows db))"
  note get = page_rows(2) [OF 1(2)]
  show ?case
  proof (cases "?P = []")
    case True
    then have "?L = []" by (simp add: verify_page_def)
    then show ?thesis using get True by (subst verify_pages.simps) simp
  next
    case False
    have L: "?L = ?P @ drop verify_page ?L" by simp
    from 1(4) have v: "valid_from H h k ?P" "valid_from H (end_head h ?P) (k + int (length ?P)) (drop verify_page ?L)"
      by (subst (asm) L, simp only: valid_from_append)+
    let ?x = "(end_head h ?P, k + int (length ?P) - 1, k + int (length ?P))"
    have x: "verify_rows H ?P h l k = Inr ?x" using v(1) False by (simp add: verify_rows_valid)
    have rest: "chained_after (k + int (length ?P) - 1) (db_rows db) = drop verify_page ?L"
      using next_page [OF 1(3) v(1) [unfolded 1(5)] refl] 1(5) by simp
    have "verify_pages H F db (end_head h ?P) (k + int (length ?P) - 1) (k + int (length ?P)) =
        Inr (Inr (end_head (end_head h ?P) (drop verify_page ?L), k + int (length ?P) - 1 + int (length (drop verify_page ?L))))"
      using 1(1) [OF get False x refl refl 1(2,3)] v(2) unfolding rest by simp
    moreover have "k + int (length ?P) - 1 + int (length (drop verify_page ?L)) = l + int (length ?L)"
      using 1(5) by simp
    moreover have "end_head (end_head h ?P) (drop verify_page ?L) = end_head h ?L"
      by (metis L end_head_append)
    ultimately show ?thesis using get False x by (subst verify_pages.simps) simp
  qed
qed

abbreviation sealed_rows :: "chain_db \<Rightarrow> ChainedTransaction list" where
  "sealed_rows db \<equiv> chained_after 0 (db_rows db)"

lemma not_verified:
  "verify_rows H cts h l k = Inl v \<Longrightarrow> \<not> v_Verified v"
  "verify_pages H F db h l k = Inr (Inl v) \<Longrightarrow> \<not> v_Verified v"
proof -
  show a: "\<not> v_Verified v" if "verify_rows H cts h l k = Inl v" for H cts h l k v
    using that by (induction cts arbitrary: h l k) (auto simp: broken_def zero_result_def split: if_splits)
  show "verify_pages H F db h l k = Inr (Inl v) \<Longrightarrow> \<not> v_Verified v"
  proof (induction H F db h l k rule: verify_pages.induct)
    case (1 H F db h l k)
    from 1(2) show ?case
      by (subst (asm) verify_pages.simps) (auto split: sum.splits if_splits dest: a 1(1))
  qed
qed

lemma VerifyChain_sound:
  assumes "VerifyChain H F db = Inr v" "v_Verified v" "seq_index db"
  obtains st where "db_state db = Some st" "valid_from H (cs_GenesisHash st) 1 (sealed_rows db)"
    "v_LastSeq v = int (length (sealed_rows db))" "v_HeadHash v = end_head (cs_GenesisHash st) (sealed_rows db)"
    "cs_LastSeq st = v_LastSeq v \<Longrightarrow> cs_HeadHash st = v_HeadHash v"
proof -
  obtain st where st: "GetChainState F db = Inr st" using assms(1) by (auto simp: VerifyChain_def split: sum.splits)
  then have s: "db_state db = Some st" by (auto simp: GetChainState_def split: option.splits if_splits)
  have "\<exists>h l. verify_pages H F db (cs_GenesisHash st) 0 1 = Inr (Inr (h, l)) \<and>
      v = zero_result\<lparr>v_Verified := True, v_LastSeq := l, v_HeadHash := h\<rparr> \<and> (l = cs_LastSeq st \<longrightarrow> h = cs_HeadHash st)"
    using assms(1,2) st
    by (auto simp: VerifyChain_def zero_result_def split: sum.splits if_splits dest: not_verified(2))
  then show thesis using verify_pages_sound [OF _ _ assms(3)] that s by fastforce
qed

lemma VerifyChain_complete:
  assumes "\<forall>p. \<not> F p" "seq_index db" "db_state db = Some st" "valid_from H (cs_GenesisHash st) 1 (sealed_rows db)"
    and "cs_LastSeq st = int (length (sealed_rows db))" "cs_HeadHash st = end_head (cs_GenesisHash st) (sealed_rows db)"
  shows "VerifyChain H F db = Inr (zero_result\<lparr>v_Verified := True, v_LastSeq := cs_LastSeq st, v_HeadHash := cs_HeadHash st\<rparr>)"
proof -
  have "GetChainState F db = Inr st" using assms(1,3) by (simp add: GetChainState_def)
  then show ?thesis using verify_pages_complete [OF assms(1,2,4)] assms(5,6) by (simp add: VerifyChain_def)
qed

subsection \<open>Formatted times\<close>

lemma length_zero_pad: "0 \<le> n \<Longrightarrow> n < 10 ^ w \<Longrightarrow> 0 < w \<Longrightarrow> length (zero_pad w n) = w"
  using length_digits10 [of "nat n" w] by (simp add: zero_pad_def Let_def show_nat_def nat_less_iff)

lemma zero_pad_inj: "0 \<le> n \<Longrightarrow> 0 \<le> m \<Longrightarrow> zero_pad w n = zero_pad w m \<Longrightarrow> n = m"
  by (metis option.inject zero_pad_parse eq_nat_nat_iff)

lemma trim_zeros_pad: "s = trim_zeros s @ replicate (length s - length (trim_zeros s)) (CHR ''0'')"
proof -
  let ?r = "rev s"
  have "takeWhile (\<lambda>c. c = CHR ''0'') ?r = replicate (length (takeWhile (\<lambda>c. c = CHR ''0'') ?r)) (CHR ''0'')"
    by (rule replicate_eqI) (auto dest: set_takeWhileD)
  moreover have "length (takeWhile (\<lambda>c. c = CHR ''0'') ?r) = length s - length (trim_zeros s)"
    by (metis add_diff_cancel_right' length_append length_rev takeWhile_dropWhile_id trim_zeros_def)
  moreover have "s = rev (dropWhile (\<lambda>c. c = CHR ''0'') ?r) @ rev (takeWhile (\<lambda>c. c = CHR ''0'') ?r)"
    by (metis rev_append rev_rev_ident takeWhile_dropWhile_id)
  ultimately show ?thesis by (metis rev_replicate trim_zeros_def)
qed

lemma fraction_inj:
  assumes "0 \<le> n" "n < 1000000000" "0 \<le> m" "m < 1000000000" "fraction n = fraction m"
  shows "n = m"
proof (cases "n = 0 \<or> m = 0")
  case True
  then show ?thesis using assms(5) by (auto simp: fraction_def split: if_splits)
next
  case False
  then have t: "trim_zeros (zero_pad 9 n) = trim_zeros (zero_pad 9 m)" using assms(5) by (simp add: fraction_def)
  have "length (zero_pad 9 n) = 9" "length (zero_pad 9 m) = 9" using assms by (simp_all add: length_zero_pad)
  with t have "zero_pad 9 n = zero_pad 9 m" using trim_zeros_pad [of "zero_pad 9 n"] trim_zeros_pad [of "zero_pad 9 m"] by simp
  then show ?thesis using zero_pad_inj assms by blast
qed

lemma clock_inj:
  assumes "0 \<le> n" "n < day_ns" "0 \<le> m" "m < day_ns" "clock n = clock m"
  shows "n = m"
proof -
  have q: "x div 60000000000 = x div 1000000000 div 60" "x div 3600000000000 = x div 1000000000 div 60 div 60" for x :: int
    using zdiv_zmult2_eq [of 60 x 1000000000] zdiv_zmult2_eq [of 60 x 60000000000] by simp_all
  have parts: "x = 1000000000 * (60 * (60 * (x div 3600000000000) + x div 60000000000 mod 60) + x div 1000000000 mod 60) +
      x mod 1000000000" for x :: int unfolding q by (simp add: mult_div_mod_eq)
  have h: "0 \<le> x div 3600000000000 \<and> x div 3600000000000 < 100" if "0 \<le> x" "x < day_ns" for x
    using that zdiv_mono1 [of x day_ns 3600000000000] by (simp add: day_ns_def pos_imp_zdiv_nonneg_iff)
  have len: "length (zero_pad 2 (x div 3600000000000)) = 2" if "0 \<le> x" "x < day_ns" for x
    using h [OF that] by (intro length_zero_pad) simp_all
  have len': "length (zero_pad 2 (x mod 60)) = 2" for x :: int
    by (rule length_zero_pad) (simp_all add: order_less_trans [OF pos_mod_bound])
  have "zero_pad 2 (n div 3600000000000) = zero_pad 2 (m div 3600000000000) \<and>
    zero_pad 2 (n div 60000000000 mod 60) = zero_pad 2 (m div 60000000000 mod 60) \<and>
    zero_pad 2 (n div 1000000000 mod 60) = zero_pad 2 (m div 1000000000 mod 60) \<and>
    fraction (n mod 1000000000) = fraction (m mod 1000000000)"
    using assms(5) len [OF assms(1,2)] len [OF assms(3,4)] len' unfolding clock_def by (simp del: mod_mod_trivial)
  note p = this [THEN conjunct1] this [THEN conjunct2, THEN conjunct1] this [THEN conjunct2, THEN conjunct2, THEN conjunct1]
    this [THEN conjunct2, THEN conjunct2, THEN conjunct2]
  have pos: "0 \<le> x mod 60" "0 \<le> x mod 1000000000" "x mod 1000000000 < 1000000000" for x :: int by simp_all
  note e = zero_pad_inj [OF conjunct1 [OF h [OF assms(1,2)]] conjunct1 [OF h [OF assms(3,4)]] p(1)]
    zero_pad_inj [OF pos(1) pos(1) p(2)] zero_pad_inj [OF pos(1) pos(1) p(3)] fraction_inj [OF pos(2,3) pos(2,3) p(4)]
  show ?thesis using parts [of n] parts [of m] unfolding e by (rule trans [OF _ sym])
qed

text \<open>Which characters a formatted time can hold.\<close>

lemma zero_pad_lacks:
  assumes "char_digit c = None" "c \<noteq> CHR ''-''"
  shows "c \<notin> set (zero_pad w n)"
proof -
  have "c \<notin> set (show_nat m)" for m
    using assms(1) digits10_small [of m] char_digit_inverse by (fastforce simp: show_nat_def)
  moreover have "c \<noteq> CHR ''0''" using assms(1) char_digit_inverse [of 0] digit_zero by auto
  ultimately show ?thesis using assms(2) by (simp add: zero_pad_def Let_def)
qed

lemma date_lacks: "char_digit c = None \<Longrightarrow> c \<noteq> CHR ''-'' \<Longrightarrow> c \<notin> set (format_date d)"
  using zero_pad_lacks [of c] by (simp add: format_date_def split: prod.splits)

lemma time_lacks:
  assumes "char_digit c = None" "c \<notin> {CHR ''-'', CHR ''T'', CHR '':'', CHR ''.'', CHR ''Z''}"
  shows "c \<notin> set (RFC3339Nano t)"
proof -
  have z: "c \<notin> set (zero_pad w n)" for w n using assms by (intro zero_pad_lacks) simp_all
  have "c \<notin> set (fraction n)" for n
    using z [of 9 n] assms(2) by (auto simp: fraction_def trim_zeros_def dest: set_dropWhileD)
  then show ?thesis using z date_lacks [of c] assms by (simp add: RFC3339Nano_def clock_def)
qed

lemma separators: "char_digit (CHR ''T'') = None" "char_digit (CHR ''|'') = None"
  by code_simp+

text \<open>From 1970 on the formatted time determines the time, to the nanosecond.\<close>

lemma RFC3339Nano_inj:
  assumes "719162 * day_ns \<le> t" "719162 * day_ns \<le> u" "RFC3339Nano t = RFC3339Nano u"
  shows "t = u"
proof -
  have "CHR ''T'' \<notin> set (format_date d)" for d by (rule date_lacks) (simp_all add: separators)
  then have "format_date (t div day_ns - 719162) = format_date (u div day_ns - 719162) \<and> clock (t mod day_ns) = clock (u mod day_ns)"
    using assms(3) by (intro append_sep_inj) (simp_all add: RFC3339Nano_def)
  moreover have "0 \<le> x div day_ns - 719162" if "719162 * day_ns \<le> x" for x
    using zdiv_mono1 [OF that, of day_ns] by (simp add: day_ns_def)
  moreover have "0 < day_ns" by (simp add: day_ns_def)
  ultimately have "t div day_ns - 719162 = u div day_ns - 719162" "t mod day_ns = u mod day_ns"
    using assms(1,2) by (blast intro: format_date_inj, blast intro: clock_inj pos_mod_sign pos_mod_bound)
  then have "t div day_ns = u div day_ns" "t mod day_ns = u mod day_ns" by simp_all
  then show ?thesis by (metis div_mult_mod_eq)
qed

subsection \<open>Tamper evidence\<close>

definition row_text :: "ChainRow \<Rightarrow> string" where
  "row_text r = str_join ''|'' (row_fields r)"

lemma hash_text: "ComputeChainHash H h r = H (h @ ''|'' @ row_text r)"
  by (simp add: ComputeChainHash_def row_text_def row_fields_def)

definition sealed_text :: "ChainedTransaction \<Rightarrow> string" where
  "sealed_text c = c_ChainPrevHash c @ ''|'' @ row_text (c_Row c)"

definition collides :: "(string \<Rightarrow> string) \<Rightarrow> ChainedTransaction \<Rightarrow> ChainedTransaction \<Rightarrow> bool" where
  "collides H c d \<longleftrightarrow> sealed_text c \<noteq> sealed_text d \<and> H (sealed_text c) = H (sealed_text d)"

text \<open>
  Two valid chains of one length with one head hold the same texts, unless two texts that they
  sealed at one position are a collision of \<open>H\<close>.
\<close>

lemma same_head_same_texts:
  assumes "valid_from H h k cs" "valid_from H h' k cs'" "length cs = length cs'" "end_head h cs = end_head h' cs'"
    and len: "\<forall>x. length (H x) = 64" "length h = 64" "length h' = 64"
    and "\<forall>(c, d) \<in> set (zip cs cs'). \<not> collides H c d"
  shows "h = h' \<and> map (row_text \<circ> c_Row) cs = map (row_text \<circ> c_Row) cs'"
  using assms(1-4,8)
proof (induction cs arbitrary: cs' rule: rev_induct)
  case Nil
  then show ?case by simp
next
  case (snoc c cs)
  then obtain ds d where d: "cs' = ds @ [d]" "length ds = length cs" by (cases cs' rule: rev_cases) auto
  let ?p = "end_head h cs" and ?q = "end_head h' ds"
  have vp: "valid_from H h k cs" "valid_from H h' k ds" and pq: "c_ChainPrevHash c = ?p" "c_ChainPrevHash d = ?q"
    using snoc.prems d by (simp_all add: valid_from_append)
  have "H (sealed_text c) = H (sealed_text d)"
    using snoc.prems d by (simp add: valid_from_append hash_text sealed_text_def)
  then have eq: "sealed_text c = sealed_text d" using snoc.prems(5) d by (simp add: collides_def)
  have "length (end_head g es) = 64" if "valid_from H g k es" "length g = 64" for g es
    using that len(1) by (cases es rule: rev_cases) (auto simp: valid_from_append, metis hash_text)
  then have "length ?p = length ?q" using vp len(2,3) by simp
  with eq have "?p = ?q \<and> row_text (c_Row c) = row_text (c_Row d)" by (simp add: sealed_text_def pq)
  then show ?case using snoc.IH [OF vp _] snoc.prems(5) d by simp
qed

definition plain_row :: "ChainRow \<Rightarrow> bool" where
  "plain_row r \<longleftrightarrow> (\<forall>f \<in> set (butlast (row_fields r)). CHR ''|'' \<notin> set f) \<and> 719162 * day_ns \<le> cw_CreatedAt r"

lemma row_text_inj:
  assumes "plain_row r" "plain_row r'" "row_text r = row_text r'"
  shows "r = r'"
proof -
  have t: "CHR ''|'' \<notin> set (RFC3339Nano x)" for x by (rule time_lacks) (simp_all add: separators)
  have "row_fields r = row_fields r'"
    by (rule str_join_inj [where c = "CHR ''|''"])
       (use assms t in \<open>simp_all add: row_text_def plain_row_def\<close>, simp_all add: row_fields_def)
  then show ?thesis using RFC3339Nano_inj assms(1,2) unfolding plain_row_def by (cases r; cases r') (simp add: row_fields_def)
qed

subsection \<open>Sealing keeps the chain valid\<close>

definition chain_ok :: "(string \<Rightarrow> string) \<Rightarrow> chain_db \<Rightarrow> bool" where
  "chain_ok H db \<longleftrightarrow> distinct (map x_id (db_rows db)) \<and> seq_index db \<and>
     (\<forall>r \<in> set (db_rows db). \<forall>q. x_seq r = Some q \<longrightarrow> 0 < q) \<and>
     (\<exists>st. db_state db = Some st \<and> valid_from H (cs_GenesisHash st) 1 (sealed_rows db) \<and>
        cs_LastSeq st = int (length (sealed_rows db)) \<and> cs_HeadHash st = end_head (cs_GenesisHash st) (sealed_rows db))"

text \<open>The links of a batch, seen as the sealed rows they will be.\<close>

definition link_row :: "chain_txn \<Rightarrow> link \<Rightarrow> ChainedTransaction" where
  "link_row r l = \<lparr>c_Row = x_row r, c_ChainSeq = l_seq l, c_ChainPrevHash = l_prevHash l, c_ChainHash = l_hash l\<rparr>"

lemma make_links_valid:
  assumes "make_links H n h rs = (ls, n', h')"
  shows "length ls = length rs" "map l_id ls = map x_id rs" "valid_from H h (n + 1) (map2 link_row rs ls)"
    "n' = n + int (length rs)" "h' = end_head h (map2 link_row rs ls)" "map l_seq ls = map (\<lambda>i. n + 1 + int i) [0..<length rs]"
proof -
  have "length ls = length rs \<and> map l_id ls = map x_id rs \<and> valid_from H h (n + 1) (map2 link_row rs ls) \<and>
      n' = n + int (length rs) \<and> h' = end_head h (map2 link_row rs ls)"
    using assms
  proof (induction rs arbitrary: n h ls)
    case (Cons r rs)
    then obtain ks where "make_links H (n + 1) (ComputeChainHash H h (x_row r)) rs = (ks, n', h')"
      "ls = \<lparr>l_id = x_id r, l_seq = n + 1, l_prevHash = h, l_hash = ComputeChainHash H h (x_row r)\<rparr> # ks"
      by (auto simp: Let_def split: prod.splits)
    with Cons.IH [OF this(1)] show ?case by (simp add: link_row_def add.commute add.left_commute)
  qed simp
  then show a: "length ls = length rs" "map l_id ls = map x_id rs" "valid_from H h (n + 1) (map2 link_row rs ls)"
    "n' = n + int (length rs)" "h' = end_head h (map2 link_row rs ls)" by simp_all
  have "map c_ChainSeq (map2 link_row rs ls) = map l_seq ls"
    using a(1) by (induction rs ls rule: list_induct2') (simp_all add: link_row_def)
  then show "map l_seq ls = map (\<lambda>i. n + 1 + int i) [0..<length rs]" using valid_from_seqs [OF a(3)] a(1) by simp
qed

fun apply_links :: "link list \<Rightarrow> chain_txn \<Rightarrow> chain_txn" where
  "apply_links [] r = r"
| "apply_links (l # ls) r = apply_links ls (linked l r)"

lemma write_links_map: "write_links F ls rows = Some rows' \<Longrightarrow> rows' = map (apply_links ls) rows"
proof (induction ls arbitrary: rows)
  case (Cons l ls)
  then have "write_links F ls (map (linked l) rows) = Some rows'" by (auto split: if_splits)
  with Cons.IH [OF this] show ?case by simp
qed (simp add: map_idI)

lemma linked_id [simp]: "x_id (linked l r) = x_id r" "x_row (linked l r) = x_row r"
  by (simp_all add: linked_def)

lemma apply_links_id [simp]: "x_id (apply_links ls r) = x_id r" "x_row (apply_links ls r) = x_row r"
  by (induction ls arbitrary: r) simp_all

lemma apply_links_other: "x_id r \<notin> l_id ` set ls \<Longrightarrow> apply_links ls r = r"
  by (induction ls arbitrary: r) (auto simp: linked_def)

lemma apply_links_mem:
  "l \<in> set ls \<Longrightarrow> distinct (map l_id ls) \<Longrightarrow> x_id r = l_id l \<Longrightarrow> apply_links ls r = linked l r"
proof (induction ls arbitrary: r)
  case (Cons k ls)
  show ?case
  proof (cases "l = k")
    case True
    then have "x_id (linked k r) \<notin> l_id ` set ls" using Cons.prems by auto
    then show ?thesis using True apply_links_other by simp
  next
    case False
    then have m: "l \<in> set ls" using Cons.prems(1) by simp
    then have "l_id k \<noteq> l_id l" using Cons.prems(2) by (auto simp: rev_image_eqI)
    then have "linked k r = r" using Cons.prems(3) by (simp add: linked_def)
    then show ?thesis using Cons m by simp
  qed
qed simp

lemma index_by_id:
  assumes "distinct (map x_id rows)"
  shows "distinct (filter (\<lambda>q. q \<noteq> None) (map x_seq rows)) \<longleftrightarrow>
    (\<forall>r \<in> set rows. \<forall>r' \<in> set rows. x_seq r \<noteq> None \<longrightarrow> x_seq r = x_seq r' \<longrightarrow> x_id r = x_id r')"
proof -
  have d: "distinct rows" and i: "inj_on x_id (set rows)" using assms by (simp_all add: distinct_map)
  have "filter (\<lambda>q. q \<noteq> None) (map x_seq rows) = map x_seq (filter (\<lambda>r. x_seq r \<noteq> None) rows)"
    by (simp add: filter_map comp_def)
  then have "distinct (filter (\<lambda>q. q \<noteq> None) (map x_seq rows)) \<longleftrightarrow> inj_on x_seq {r \<in> set rows. x_seq r \<noteq> None}"
    using d by (simp add: distinct_map)
  also have "\<dots> \<longleftrightarrow> (\<forall>r \<in> set rows. \<forall>r' \<in> set rows. x_seq r \<noteq> None \<longrightarrow> x_seq r = x_seq r' \<longrightarrow> r = r')"
    unfolding inj_on_def by fastforce
  also have "\<dots> \<longleftrightarrow> (\<forall>r \<in> set rows. \<forall>r' \<in> set rows. x_seq r \<noteq> None \<longrightarrow> x_seq r = x_seq r' \<longrightarrow> x_id r = x_id r')"
    by (intro ball_cong refl imp_cong) (simp_all add: inj_on_eq_iff [OF i])
  finally show ?thesis .
qed

lemma x_seq_linked: "x_seq (linked l r) = (if x_id r = l_id l then Some (l_seq l) else x_seq r)"
  by (simp add: linked_def)

lemma write_links_index:
  assumes "write_links F ls rows = Some rows'" "distinct (map x_id rows)" "distinct (filter (\<lambda>q. q \<noteq> None) (map x_seq rows))"
  shows "distinct (filter (\<lambda>q. q \<noteq> None) (map x_seq rows'))"
  using assms
proof (induction ls arbitrary: rows)
  case (Cons l ls)
  from Cons.prems(1) have w: "write_links F ls (map (linked l) rows) = Some rows'"
    and free: "\<forall>r \<in> set rows. x_seq r = Some (l_seq l) \<longrightarrow> x_id r = l_id l" by (auto split: if_splits)
  have ids: "distinct (map x_id (map (linked l) rows))" using Cons.prems(2) by (simp add: comp_def)
  have old: "\<forall>r \<in> set rows. \<forall>r' \<in> set rows. x_seq r \<noteq> None \<longrightarrow> x_seq r = x_seq r' \<longrightarrow> x_id r = x_id r'"
    using index_by_id [OF Cons.prems(2)] Cons.prems(3) by blast
  have "distinct (filter (\<lambda>q. q \<noteq> None) (map x_seq (map (linked l) rows)))"
    unfolding index_by_id [OF ids]
  proof (intro ballI impI)
    fix a b assume "a \<in> set (map (linked l) rows)" "b \<in> set (map (linked l) rows)" and q: "x_seq a \<noteq> None" "x_seq a = x_seq b"
    then obtain r r' where r: "r \<in> set rows" "r' \<in> set rows" "a = linked l r" "b = linked l r'" by auto
    show "x_id a = x_id b"
      using q free [rule_format, OF r(1)] free [rule_format, OF r(2)] old [rule_format, OF r(1,2)]
      unfolding r(3,4) x_seq_linked linked_id by (cases "x_id r = l_id l"; cases "x_id r' = l_id l") auto
  qed
  from Cons.IH [OF w ids this] show ?case .
qed simp

lemma scan_linked: "x_id r = l_id l \<Longrightarrow> scan_chained (linked l r) = link_row r l"
  by (simp add: linked_def link_row_def scan_chained_def or_empty_def)

lemma zip_links:
  assumes "length ls = length rs" "map l_id ls = map x_id rs" "distinct (map x_id rs)" "(r, l) \<in> set (zip rs ls)"
  shows "x_id r = l_id l" "apply_links ls r = linked l r" "r \<in> set rs" "l \<in> set ls"
proof -
  from assms(1,4) obtain i where i: "i < length rs" "r = rs ! i" "l = ls ! i" by (auto simp: set_zip)
  then show "r \<in> set rs" "l \<in> set ls" using assms(1) by simp_all
  show id: "x_id r = l_id l" using i assms(1,2) by (metis nth_map)
  show "apply_links ls r = linked l r"
    by (rule apply_links_mem) (use assms i id in simp_all)
qed

lemma sealed_set:
  assumes ids: "distinct (map x_id rows)" and P: "set P \<subseteq> set rows" "\<forall>r \<in> set P. x_seq r = None" "distinct (map x_id P)"
    and ls: "length ls = length P" "map l_id ls = map x_id P" "\<forall>l \<in> set ls. 0 < l_seq l"
  shows "set (chained_after 0 (map (apply_links ls) rows)) = set (chained_after 0 rows) \<union> set (map2 link_row P ls)"
proof -
  have inP: "apply_links ls r = r \<and> x_id r \<notin> x_id ` set P \<or> (\<exists>l. (r, l) \<in> set (zip P ls))" if r: "r \<in> set rows" for r
  proof (cases "x_id r \<in> l_id ` set ls")
    case True
    then have "x_id r \<in> x_id ` set P" using ls(2) by (metis set_map)
    then obtain r' where r': "r' \<in> set P" "x_id r' = x_id r" by auto
    then have "r' = r" using ids P(1) r by (metis (no_types, lifting) distinct_map inj_onD subsetD)
    with r'(1) show ?thesis using ls(1) by (metis in_set_impl_in_set_zip1)
  next
    case False
    moreover from this have "x_id r \<notin> x_id ` set P" using ls(2) by (metis set_map)
    ultimately show ?thesis using apply_links_other by blast
  qed
  have new: "scan_chained (apply_links ls r) = link_row r l \<and> seq_after 0 (apply_links ls r) \<and> r \<in> set rows \<and> \<not> seq_after 0 r"
    if "(r, l) \<in> set (zip P ls)" for r l
    using zip_links [OF ls(1,2) P(3) that] P(1,2) ls(3) scan_linked [of r l] by (auto simp: seq_after_iff linked_def)
  have "set (chained_after 0 (map (apply_links ls) rows)) =
      scan_chained ` {r \<in> set (map (apply_links ls) rows). seq_after 0 r}" by (simp add: chained_after_def)
  also have "\<dots> = scan_chained ` {r \<in> set rows. seq_after 0 r} \<union> (\<lambda>(r, l). link_row r l) ` set (zip P ls)" (is "?A = ?B \<union> ?C")
  proof
    show "?A \<subseteq> ?B \<union> ?C"
    proof
      fix c assume "c \<in> ?A"
      then obtain r where r: "r \<in> set rows" "c = scan_chained (apply_links ls r)" "seq_after 0 (apply_links ls r)" by auto
      from inP [OF r(1)] show "c \<in> ?B \<union> ?C"
      proof
        assume "\<exists>l. (r, l) \<in> set (zip P ls)"
        then obtain l where "(r, l) \<in> set (zip P ls)" ..
        then show ?thesis using new r(2) by (auto intro!: image_eqI [of _ _ "(r, l)"])
      qed (use r in auto)
    qed
    have "?B \<subseteq> ?A"
    proof
      fix c assume "c \<in> ?B"
      then obtain r where r: "r \<in> set rows" "c = scan_chained r" "seq_after 0 r" by auto
      then have "apply_links ls r = r" using inP [OF r(1)] new by blast
      with r show "c \<in> ?A" by (auto intro!: image_eqI [of _ _ r])
    qed
    moreover have "?C \<subseteq> ?A"
    proof
      fix c assume "c \<in> ?C"
      then obtain r l where rl: "(r, l) \<in> set (zip P ls)" "c = link_row r l" by auto
      have "apply_links ls r \<in> {r \<in> set (map (apply_links ls) rows). seq_after 0 r}" using new [OF rl(1)] by simp
      from imageI [OF this, of scan_chained] show "c \<in> ?A" using new [OF rl(1)] rl(2) by simp
    qed
    ultimately show "?B \<union> ?C \<subseteq> ?A" by blast
  qed
  finally show ?thesis by (simp add: chained_after_def)
qed

lemma apply_links_seq: "x_seq (apply_links ls r) = Some q \<Longrightarrow> x_seq r = Some q \<or> (\<exists>l \<in> set ls. l_seq l = q)"
proof (induction ls arbitrary: r)
  case (Cons l ls)
  then have "x_seq (linked l r) = Some q \<or> (\<exists>l \<in> set ls. l_seq l = q)" by simp
  then show ?case by (auto simp: x_seq_linked split: if_splits)
qed simp

lemma sealing_appends:
  assumes ok: "chain_ok H db" and st: "db_state db = Some st"
    and P: "P = take n (sort_key x_id (unchained cutoff db))"
    and mk: "make_links H (cs_LastSeq st) (cs_HeadHash st) P = (ls, lastSeq, head)"
    and w: "write_links F ls (db_rows db) = Some rows"
  shows "chained_after 0 rows = sealed_rows db @ map2 link_row P ls"
    "chain_ok H (db\<lparr>db_rows := rows, db_state := Some (st\<lparr>cs_LastSeq := lastSeq, cs_HeadHash := head, cs_UpdatedAt := now\<rparr>)\<rparr>)"
proof -
  let ?L = "sealed_rows db" and ?N = "map2 link_row P ls"
  have ids: "distinct (map x_id (db_rows db))" and ix: "seq_index db"
    and v: "valid_from H (cs_GenesisHash st) 1 ?L" and n: "cs_LastSeq st = int (length ?L)"
    and h: "cs_HeadHash st = end_head (cs_GenesisHash st) ?L" and pos: "\<forall>r \<in> set (db_rows db). \<forall>q. x_seq r = Some q \<longrightarrow> 0 < q"
    using ok st by (auto simp: chain_ok_def)
  have sub: "set P \<subseteq> set (unchained cutoff db)" unfolding P by (metis set_sort set_take_subset)
  then have sub: "set P \<subseteq> set (db_rows db)" "\<forall>r \<in> set P. x_seq r = None" by (auto simp: unchained_def)
  have "distinct (map x_id (unchained cutoff db))" using ids by (simp add: unchained_def distinct_map_filter)
  then have "distinct (map x_id (sort_key x_id (unchained cutoff db)))" by (simp add: distinct_map)
  then have dP: "distinct (map x_id P)" unfolding P by (metis distinct_take take_map)
  note m = make_links_valid [OF mk]
  have lpos: "\<forall>l \<in> set ls. 0 < l_seq l"
  proof
    fix l assume "l \<in> set ls"
    then have "l_seq l \<in> set (map l_seq ls)" by simp
    then show "0 < l_seq l" unfolding m(6) n by auto
  qed
  have rows: "rows = map (apply_links ls) (db_rows db)" by (rule write_links_map [OF w])
  have ix': "distinct (filter (\<lambda>q. q \<noteq> None) (map x_seq rows))"
    using write_links_index [OF w ids] ix by (simp only: seq_index_def)
  have pos': "\<forall>r \<in> set rows. \<forall>q. x_seq r = Some q \<longrightarrow> 0 < q"
    unfolding rows using pos lpos apply_links_seq by fastforce
  have set_eq: "set (chained_after 0 rows) = set (?L @ ?N)"
    unfolding rows set_append by (rule sealed_set [OF ids sub dP m(1,2) lpos])
  have va: "valid_from H (cs_GenesisHash st) 1 (?L @ ?N)"
    using v m(3) n h by (simp add: valid_from_append add.commute)
  let ?db = "db\<lparr>db_rows := rows, db_state := Some (st\<lparr>cs_LastSeq := lastSeq, cs_HeadHash := head, cs_UpdatedAt := now\<rparr>)\<rparr>"
  have dl: "distinct (map c_ChainSeq (chained_after 0 rows))"
    using seq_index_chained [of ?db 0] ix' by (simp add: seq_index_def)
  have sl: "sorted (map c_ChainSeq (?L @ ?N))" "distinct (map c_ChainSeq (?L @ ?N))"
    unfolding valid_from_seqs [OF va] by (simp_all add: sorted_map distinct_map inj_on_def sorted_wrt_iff_nth_less)
  show app: "chained_after 0 rows = ?L @ ?N"
    by (rule map_sorted_distinct_set_unique [where f = c_ChainSeq])
       (use set_eq dl sl in \<open>simp_all add: distinct_map\<close>)
  show "chain_ok H ?db"
    unfolding chain_ok_def
  proof (intro conjI exI)
    show "distinct (map x_id (db_rows ?db))" using ids by (simp add: rows comp_def)
    show "seq_index ?db" using ix' by (simp add: seq_index_def)
    show "db_state ?db = Some (st\<lparr>cs_LastSeq := lastSeq, cs_HeadHash := head, cs_UpdatedAt := now\<rparr>)" by simp
  qed (use va app m n h pos' in \<open>simp_all add: end_head_append\<close>)
qed

lemma seal_keeps:
  assumes "chain_ok H db" "ChainPendingTransactions H F now cutoff n db = (db', x)"
  shows "chain_ok H db'"
proof (cases "db' = db")
  case False
  let ?P = "take (nat n) (sort_key x_id (unchained cutoff db))"
  obtain st where st: "db_state db = Some st" using assms(1) by (auto simp: chain_ok_def)
  obtain ls lastSeq head where mk: "make_links H (cs_LastSeq st) (cs_HeadHash st) ?P = (ls, lastSeq, head)" by (metis prod_cases3)
  from assms(2) False st mk obtain rows where "write_links F ls (db_rows db) = Some rows"
    "db' = db\<lparr>db_rows := rows, db_state := Some (st\<lparr>cs_LastSeq := lastSeq, cs_HeadHash := head, cs_UpdatedAt := now\<rparr>)\<rparr>"
    by (auto simp: ChainPendingTransactions_def split: if_splits option.splits)
  then show ?thesis using sealing_appends(2) [OF assms(1) st refl mk] by simp
qed (use assms(1) in simp)

lemma insert_keeps:
  assumes "chain_ok H db" "x_id r \<notin> x_id ` set (db_rows db)" "x_seq r = None"
  shows "chain_ok H (db\<lparr>db_rows := db_rows db @ [r]\<rparr>)"
proof -
  have "chained_after 0 (db_rows db @ [r]) = sealed_rows db" using assms(3) by (simp add: chained_after_def seq_after_iff)
  then show ?thesis using assms by (auto simp: chain_ok_def seq_index_def)
qed

text \<open>
  The life of the table: transactions are inserted unchained under fresh ids, and any number of
  processors seal batches, each call with its own failures, clock, cutoff and batch size. The
  immutability trigger refuses every other change of the columns the chain reads.
\<close>

definition fresh_chain :: "chain_db \<Rightarrow> bool" where
  "fresh_chain db \<longleftrightarrow> distinct (map x_id (db_rows db)) \<and> (\<forall>r \<in> set (db_rows db). x_seq r = None) \<and>
     (\<exists>st. db_state db = Some st \<and> cs_LastSeq st = 0 \<and> cs_HeadHash st = ChainGenesisHash \<and> cs_GenesisHash st = ChainGenesisHash)"

inductive chain_reachable :: "(string \<Rightarrow> string) \<Rightarrow> chain_db \<Rightarrow> bool" for H where
  start: "fresh_chain db \<Longrightarrow> chain_reachable H db"
| insert: "chain_reachable H db \<Longrightarrow> x_id r \<notin> x_id ` set (db_rows db) \<Longrightarrow> x_seq r = None \<Longrightarrow>
     chain_reachable H (db\<lparr>db_rows := db_rows db @ [r]\<rparr>)"
| seal: "chain_reachable H db \<Longrightarrow> ChainPendingTransactions H F now cutoff n db = (db', x) \<Longrightarrow> chain_reachable H db'"

lemma fresh_ok: "fresh_chain db \<Longrightarrow> chain_ok H db"
proof -
  assume f: "fresh_chain db"
  then have n: "filter (seq_after 0) (db_rows db) = []" "filter (\<lambda>q. q \<noteq> None) (map x_seq (db_rows db)) = []"
    by (auto simp: fresh_chain_def seq_after_iff filter_empty_conv)
  then have "sealed_rows db = []" by (simp add: chained_after_def)
  then show ?thesis using f n by (auto simp: fresh_chain_def chain_ok_def seq_index_def)
qed

lemma reachable_ok: "chain_reachable H db \<Longrightarrow> chain_ok H db"
  by (induction rule: chain_reachable.induct) (auto intro: fresh_ok insert_keeps seal_keeps)

subsection \<open>Progress\<close>

lemma write_links_succeeds:
  assumes "\<forall>p. \<not> F p" "distinct (map l_seq ls)" "\<forall>r \<in> set rows. \<forall>l \<in> set ls. x_seq r \<noteq> Some (l_seq l)"
  shows "write_links F ls rows = Some (map (apply_links ls) rows)"
  using assms(2,3)
proof (induction ls arbitrary: rows)
  case (Cons l ls)
  have "\<forall>r \<in> set (map (linked l) rows). \<forall>k \<in> set ls. x_seq r \<noteq> Some (l_seq k)"
    using Cons.prems by (auto simp: x_seq_linked)
  from Cons.IH [OF _ this] Cons.prems assms(1) show ?case by (auto simp: comp_def)
qed (simp add: map_idI)

lemma unchained_rest:
  assumes ids: "distinct (map x_id (db_rows db))" and P: "set P \<subseteq> set (unchained cutoff db)" "distinct (map x_id P)"
    and ls: "length ls = length P" "map l_id ls = map x_id P" and rows: "db_rows db' = map (apply_links ls) (db_rows db)"
  shows "length (unchained cutoff db') = length (unchained cutoff db) - length P"
proof -
  let ?Q = "\<lambda>r. x_seq r = None \<and> cw_CreatedAt (x_row r) < cutoff"
  have inj: "inj_on x_id (set (db_rows db))" and dr: "distinct (db_rows db)" using ids by (simp_all add: distinct_map)
  have sub: "set P \<subseteq> set (db_rows db)" using P(1) by (auto simp: unchained_def)
  have q: "?Q (apply_links ls r) \<longleftrightarrow> ?Q r \<and> r \<notin> set P" if r: "r \<in> set (db_rows db)" for r
  proof (cases "x_id r \<in> l_id ` set ls")
    case True
    then obtain l where l: "l \<in> set ls" "x_id r = l_id l" by auto
    have "x_id r \<in> x_id ` set P" using True ls(2) by (metis set_map)
    then have "r \<in> set P" using inj sub r by (auto dest!: inj_onD)
    moreover have "apply_links ls r = linked l r" by (rule apply_links_mem [OF l(1) _ l(2)]) (use ls P in simp)
    ultimately show ?thesis using l(2) by (simp add: x_seq_linked)
  next
    case False
    then have "r \<notin> set P" using ls(2) by (metis image_eqI set_map)
    then show ?thesis using apply_links_other [OF False] by simp
  qed
  have "length (unchained cutoff db') = length (filter (\<lambda>r. ?Q (apply_links ls r)) (db_rows db))"
    by (simp add: unchained_def rows filter_map comp_def)
  also have "\<dots> = length (filter (\<lambda>r. r \<notin> set P) (unchained cutoff db))"
    using q by (simp add: unchained_def conj_commute cong: filter_cong)
  also have "\<dots> = card (set (unchained cutoff db) - set P)"
    using dr by (subst distinct_card [symmetric]) (auto simp: unchained_def intro!: arg_cong [where f = card])
  also have "\<dots> = length (unchained cutoff db) - length P"
  proof -
    have "distinct (unchained cutoff db)" "distinct P" using dr P(2) by (simp_all add: unchained_def distinct_map)
    then show ?thesis using P(1) by (simp add: card_Diff_subset distinct_card)
  qed
  finally show ?thesis .
qed

lemma seal_progress:
  assumes ok: "chain_ok H db" and F: "\<forall>p. \<not> F p" and n: "0 < n"
  obtains db' where "ChainPendingTransactions H F now cutoff n db = (db', Inr (min n (int (length (unchained cutoff db)))))"
    "chain_ok H db'" "length (unchained cutoff db') = length (unchained cutoff db) - nat n"
proof -
  let ?U = "unchained cutoff db"
  let ?P = "take (nat n) (sort_key x_id ?U)"
  obtain st where st: "db_state db = Some st" "cs_LastSeq st = int (length (sealed_rows db))"
    "valid_from H (cs_GenesisHash st) 1 (sealed_rows db)" using ok by (auto simp: chain_ok_def)
  obtain ls lastSeq head where mk: "make_links H (cs_LastSeq st) (cs_HeadHash st) ?P = (ls, lastSeq, head)" by (metis prod_cases3)
  note m = make_links_valid [OF mk]
  have "x_seq r \<noteq> Some (l_seq l)" if r: "r \<in> set (db_rows db)" and l: "l \<in> set ls" for r l
  proof
    assume q: "x_seq r = Some (l_seq l)"
    have "l_seq l \<in> set (map l_seq ls)" using l by simp
    then have big: "int (length (sealed_rows db)) < l_seq l" unfolding m(6) st(2) by auto
    have "scan_chained r \<in> set (sealed_rows db)" using r q big by (simp add: chained_after_def seq_after_iff)
    then have "l_seq l \<in> set (map c_ChainSeq (sealed_rows db))" using q by (force simp: scan_chained_def)
    then show False unfolding valid_from_seqs [OF st(3)] using big by auto
  qed
  moreover have "distinct (map l_seq ls)" unfolding m(6) by (simp add: distinct_map inj_on_def)
  ultimately have w: "write_links F ls (db_rows db) = Some (map (apply_links ls) (db_rows db))"
    using write_links_succeeds [OF F] by blast
  let ?db = "db\<lparr>db_rows := map (apply_links ls) (db_rows db), db_state := Some (st\<lparr>cs_LastSeq := lastSeq, cs_HeadHash := head, cs_UpdatedAt := now\<rparr>)\<rparr>"
  have subP: "set ?P \<subseteq> set ?U" by (metis set_sort set_take_subset)
  have "distinct (map x_id ?U)" using ok by (simp add: chain_ok_def unchained_def distinct_map_filter)
  then have dP: "distinct (map x_id ?P)" by (metis distinct_take distinct_map set_sort distinct_sort take_map)
  have cnt: "int (length ls) = min n (int (length ?U))" using m(1) n by simp
  show thesis
  proof (cases "ls = []")
    case True
    then have "ChainPendingTransactions H F now cutoff n db = (db, Inr (min n (int (length ?U))))"
      using st(1) mk F n cnt by (simp add: ChainPendingTransactions_def)
    moreover have "length ?U = 0" using True cnt n by (auto simp: min_def split: if_splits)
    ultimately show ?thesis using that ok by simp
  next
    case False
    then have "ChainPendingTransactions H F now cutoff n db = (?db, Inr (min n (int (length ?U))))"
      using st(1) mk F n w cnt by (simp add: ChainPendingTransactions_def)
    moreover have "length (unchained cutoff ?db) = length ?U - length ?P"
      by (rule unchained_rest [where ls = ls]) (use ok m(1,2) subP dP in \<open>simp_all add: chain_ok_def\<close>)
    moreover have "chain_ok H ?db" using sealing_appends(2) [OF ok st(1) refl mk w] .
    ultimately show ?thesis using that by simp
  qed
qed

lemma tick_loop_progress:
  assumes "chain_ok H db" "\<forall>k p. \<not> Fs k p" "0 < n"
  shows "length (unchained cutoff (tick_loop H Fs nows cutoff n k db)) = length (unchained cutoff db) - k * nat n"
  using assms(1)
proof (induction k arbitrary: db)
  case (Suc k)
  obtain db' where d: "ChainPendingTransactions H (Fs k) (nows k) cutoff n db = (db', Inr (min n (int (length (unchained cutoff db)))))"
    "chain_ok H db'" "length (unchained cutoff db') = length (unchained cutoff db) - nat n"
    using seal_progress [OF Suc.prems _ assms(3), of "Fs k"] assms(2) by blast
  show ?case
  proof (cases "int (length (unchained cutoff db)) < n")
    case True
    then have "tick_loop H Fs nows cutoff n (Suc k) db = db'" using d(1) by simp
    then show ?thesis using d(3) True by simp
  next
    case False
    then have "tick_loop H Fs nows cutoff n (Suc k) db = tick_loop H Fs nows cutoff n k db'" using d(1) by simp
    then show ?thesis using d(3) Suc.IH [OF d(2)] by simp
  qed
qed simp

lemma reachable_verifies:
  assumes "chain_reachable H db" "db_state db = Some st"
  shows "VerifyChain H (\<lambda>_. False) db =
    Inr (zero_result\<lparr>v_Verified := True, v_LastSeq := cs_LastSeq st, v_HeadHash := cs_HeadHash st\<rparr>)"
  using reachable_ok [OF assms(1)] VerifyChain_complete [of "\<lambda>_. False" db st] assms(2) by (auto simp: chain_ok_def)

text \<open>There is one loop exactly while the flag is set, however often the processor is started or stopped.\<close>

lemma one_loop:
  assumes "fold (\<lambda>start. if start then chain_Start else chain_Stop) ops (NewChainProcessor poll batch delay, 0) = (p, loops)"
  shows "loops = (if IsRunning p then 1 else 0)"
proof -
  have "snd pl = (if IsRunning (fst pl) then 1 else 0) \<Longrightarrow>
      snd (fold (\<lambda>start. if start then chain_Start else chain_Stop) ops pl) =
        (if IsRunning (fst (fold (\<lambda>start. if start then chain_Start else chain_Stop) ops pl)) then 1 else 0)" for pl
  proof (induction ops arbitrary: pl)
    case (Cons b ops)
    have "snd ((if b then chain_Start else chain_Stop) pl) = (if IsRunning (fst ((if b then chain_Start else chain_Stop) pl)) then 1 else 0)"
      using Cons.prems by (cases pl) (simp add: chain_Start_def chain_Stop_def IsRunning_def)
    from Cons.IH [OF this] show ?case by simp
  qed simp
  from this [of "(NewChainProcessor poll batch delay, 0)"] assms show ?thesis by (simp add: NewChainProcessor_def IsRunning_def)
qed

section \<open>Properties\<close>

text \<open>
  C12: What the processors seal, the verifier accepts. In every state that inserts and sealing
  calls can reach, with any failures of the database in between, the replay from genesis reports
  the chain as verified, at exactly the position and the head that the bookmark row records.
\<close>

theorem sealed_chain_verifies:
  assumes "chain_reachable H db"
  shows "\<exists>st. db_state db = Some st \<and> VerifyChain H (\<lambda>_. False) db =
    Inr (zero_result\<lparr>v_Verified := True, v_LastSeq := cs_LastSeq st, v_HeadHash := cs_HeadHash st\<rparr>)"
  using reachable_ok [OF assms] reachable_verifies [OF assms] by (auto simp: chain_ok_def)

text \<open>
  C38: Every tick makes progress. When the database answers, one tick of a processor built by
  \<open>NewChainProcessor\<close>, whatever the configuration, seals the rows older than the trailing delay
  until fifty batches are sealed or none is left.
\<close>

theorem tick_drains_backlog:
  assumes "chain_reachable H db" "\<forall>k p. \<not> Fs k p" "p = NewChainProcessor poll batch delay"
  shows "length (unchained (now - p_trailingDelay p) (processTick H Fs nows p now db)) =
    length (unchained (now - p_trailingDelay p) db) - 50 * nat (p_batchSize p) \<and> 0 < p_batchSize p"
proof -
  have "0 < p_batchSize p" using assms(3) by (simp add: NewChainProcessor_def)
  with tick_loop_progress [OF reachable_ok [OF assms(1)] assms(2)] show ?thesis
    by (simp add: processTick_def maxBatchesPerTick_def)
qed

text \<open>
  C11: The chain is tamper-evident. Let the replay of two tables succeed at the same position
  with the same head, for a hash of 64 hex digits. Then both tables hold the same sealed texts
  in the same order, and rows without the separator in their fields are equal in every sealed
  field; the only other possibility is that two of the texts they sealed at one position are
  a collision of the hash. So whoever kept a head can detect every later change of the history.
\<close>

theorem chain_tamper_evident:
  assumes len: "\<forall>x. length (H x) = 64"
    and db: "VerifyChain H F db = Inr v" "v_Verified v" "seq_index db" "map_option cs_GenesisHash (db_state db) = Some ChainGenesisHash"
    and db': "VerifyChain H F' db' = Inr v'" "v_Verified v'" "seq_index db'" "map_option cs_GenesisHash (db_state db') = Some ChainGenesisHash"
    and same: "v_LastSeq v = v_LastSeq v'" "v_HeadHash v = v_HeadHash v'"
  shows "(\<exists>(c, d) \<in> set (zip (sealed_rows db) (sealed_rows db')). collides H c d) \<or>
    map (row_text \<circ> c_Row) (sealed_rows db) = map (row_text \<circ> c_Row) (sealed_rows db') \<and>
    list_all2 (\<lambda>c d. plain_row (c_Row c) \<and> plain_row (c_Row d) \<longrightarrow> c_Row c = c_Row d) (sealed_rows db) (sealed_rows db')"
proof (cases "\<exists>(c, d) \<in> set (zip (sealed_rows db) (sealed_rows db')). collides H c d")
  case False
  obtain st where st: "db_state db = Some st" "valid_from H (cs_GenesisHash st) 1 (sealed_rows db)"
    "v_LastSeq v = int (length (sealed_rows db))" "v_HeadHash v = end_head (cs_GenesisHash st) (sealed_rows db)"
    by (rule VerifyChain_sound [OF db(1-3)])
  obtain st' where st': "db_state db' = Some st'" "valid_from H (cs_GenesisHash st') 1 (sealed_rows db')"
    "v_LastSeq v' = int (length (sealed_rows db'))" "v_HeadHash v' = end_head (cs_GenesisHash st') (sealed_rows db')"
    by (rule VerifyChain_sound [OF db'(1-3)])
  have g: "cs_GenesisHash st = ChainGenesisHash" "cs_GenesisHash st' = ChainGenesisHash" "length ChainGenesisHash = 64"
    using st(1) st'(1) db(4) db'(4) by (simp_all add: ChainGenesisHash_def)
  have ln: "length (sealed_rows db) = length (sealed_rows db')" using st(3) st'(3) same(1) by simp
  have eq: "map (row_text \<circ> c_Row) (sealed_rows db) = map (row_text \<circ> c_Row) (sealed_rows db')"
    using same_head_same_texts [OF st(2) st'(2) ln _ len] st(4) st'(4) same(2) g False by auto
  then have "list_all2 (\<lambda>c d. plain_row (c_Row c) \<and> plain_row (c_Row d) \<longrightarrow> c_Row c = c_Row d) (sealed_rows db) (sealed_rows db')"
    using ln row_text_inj by (auto simp: list_all2_conv_all_nth list_eq_iff_nth_eq)
  with eq show ?thesis by blast
qed blast

subsection \<open>An example chain\<close>

text \<open>The last 64 characters in the place of SHA-256, two rows and one sealing call.\<close>

definition ex_hash :: "string \<Rightarrow> string" where
  "ex_hash s = take 64 (rev s @ replicate 64 (CHR ''0''))"

definition ex_row_of :: "string \<Rightarrow> ChainRow" where
  "ex_row_of i = \<lparr>cw_TransactionID = ''txn_'' @ i, cw_Source = ''bln_a'', cw_Destination = ''bln_b'', cw_Amount = ''2.50'',
     cw_PreciseAmount = ''250'', cw_Currency = ''USD'', cw_Status = ''APPLIED'', cw_Reference = ''ref_'' @ i,
     cw_CreatedAt = 5000000000\<rparr>"

definition ex_unchained :: "int \<Rightarrow> string \<Rightarrow> chain_txn" where
  "ex_unchained i name = \<lparr>x_id = i, x_row = ex_row_of name, x_seq = None, x_prev = None, x_hash = None\<rparr>"

definition ex_fresh :: chain_db where
  "ex_fresh = \<lparr>db_rows = [ex_unchained 1 ''1'', ex_unchained 2 ''2''],
     db_state = Some \<lparr>cs_LastSeq = 0, cs_HeadHash = ChainGenesisHash, cs_GenesisHash = ChainGenesisHash,
       cs_GenesisAt = 0, cs_UpdatedAt = 0\<rparr>\<rparr>"

definition ex_sealed :: chain_db where
  "ex_sealed = fst (ChainPendingTransactions ex_hash (\<lambda>_. False) 9 (800000 * day_ns) 10 ex_fresh)"

lemma ex_hash_length: "length (ex_hash s) = 64"
  by (simp add: ex_hash_def)

lemma ex_sealed_reachable: "chain_reachable ex_hash ex_sealed"
proof (rule chain_reachable.seal)
  show "chain_reachable ex_hash ex_fresh"
    by (rule chain_reachable.start) (simp add: fresh_chain_def ex_fresh_def ex_unchained_def)
  show "ChainPendingTransactions ex_hash (\<lambda>_. False) 9 (800000 * day_ns) 10 ex_fresh =
      (ex_sealed, snd (ChainPendingTransactions ex_hash (\<lambda>_. False) 9 (800000 * day_ns) 10 ex_fresh))"
    by (simp add: ex_sealed_def)
qed

lemma ex_sealed_state:
  "map_option (\<lambda>st. (cs_LastSeq st, cs_GenesisHash st)) (db_state ex_sealed) = Some (2, ChainGenesisHash) \<and>
   map x_id (db_rows ex_sealed) = [1, 2]"
  by code_simp

theorem sealed_chain_verifies_witness:
  "\<exists>v. VerifyChain ex_hash (\<lambda>_. False) ex_sealed = Inr v \<and> v_Verified v \<and> v_LastSeq v = 2"
proof -
  from sealed_chain_verifies [OF ex_sealed_reachable] ex_sealed_state show ?thesis by auto
qed

theorem tick_drains_backlog_witness:
  "length (unchained (900000 * day_ns - 30000000000) (processTick ex_hash (\<lambda>_ _. False) (\<lambda>_. 9) (NewChainProcessor 0 0 0) (900000 * day_ns) ex_fresh)) = 0"
proof -
  have "chain_reachable ex_hash ex_fresh"
    by (rule chain_reachable.start) (simp add: fresh_chain_def ex_fresh_def ex_unchained_def)
  from tick_drains_backlog [OF this, where Fs = "\<lambda>_ _. False" and nows = "\<lambda>_. 9" and now = "900000 * day_ns"
      and p = "NewChainProcessor 0 0 0" and poll = 0 and batch = 0 and delay = 0]
  have t: "length (unchained (900000 * day_ns - 30000000000) (processTick ex_hash (\<lambda>_ _. False) (\<lambda>_. 9) (NewChainProcessor 0 0 0)
      (900000 * day_ns) ex_fresh)) = length (unchained (900000 * day_ns - 30000000000) ex_fresh) - 50000"
    by (simp add: NewChainProcessor_def)
  have "length (unchained c ex_fresh) \<le> 2" for c
    by (simp add: unchained_def ex_fresh_def)
  from this [of "900000 * day_ns - 30000000000"] show ?thesis unfolding t by simp
qed

text \<open>The same chain in a table with one more row, not yet sealed: the sealed history is the same.\<close>

theorem chain_tamper_evident_witness:
  "map (row_text \<circ> c_Row) (sealed_rows ex_sealed) =
     map (row_text \<circ> c_Row) (sealed_rows (ex_sealed\<lparr>db_rows := db_rows ex_sealed @ [ex_unchained 3 ''3'']\<rparr>)) \<and>
   length (sealed_rows ex_sealed) = 2"
proof -
  let ?db = "ex_sealed\<lparr>db_rows := db_rows ex_sealed @ [ex_unchained 3 ''3'']\<rparr>"
  have 3: "x_id (ex_unchained 3 ''3'') \<notin> x_id ` set (db_rows ex_sealed)"
    using ex_sealed_state by (simp add: ex_unchained_def flip: set_map)
  have r: "chain_reachable ex_hash ?db"
    by (rule chain_reachable.insert [OF ex_sealed_reachable 3]) (simp add: ex_unchained_def)
  obtain st where st: "db_state ex_sealed = Some st" "cs_GenesisHash st = ChainGenesisHash" "cs_LastSeq st = int (length (sealed_rows ex_sealed))"
    using reachable_ok [OF ex_sealed_reachable] ex_sealed_state by (auto simp: chain_ok_def)
  have rows: "sealed_rows ?db = sealed_rows ex_sealed" by (simp add: chained_after_def seq_after_iff ex_unchained_def)
  let ?v = "zero_result\<lparr>v_Verified := True, v_LastSeq := cs_LastSeq st, v_HeadHash := cs_HeadHash st\<rparr>"
  have v: "VerifyChain ex_hash (\<lambda>_. False) ex_sealed = Inr ?v" "VerifyChain ex_hash (\<lambda>_. False) ?db = Inr ?v"
    using reachable_verifies [OF ex_sealed_reachable st(1)] reachable_verifies [OF r, of st] st(1) by simp_all
  have "\<not> (\<exists>(c, d) \<in> set (zip (sealed_rows ex_sealed) (sealed_rows ?db)). collides ex_hash c d)"
    unfolding rows by (auto simp: collides_def zip_same)
  with chain_tamper_evident [of ex_hash, OF _ v(1) _ _ _ v(2)] ex_hash_length
    reachable_ok [OF ex_sealed_reachable] reachable_ok [OF r] st
  show ?thesis using ex_sealed_state by (auto simp: chain_ok_def)
qed

text \<open>
  The verifier has no record of how long the chain must be: when the last sealed row is removed
  from the table, the replay still reports the rest as verified.
\<close>

lemma removed_tail_verifies:
  "map_sum id (\<lambda>v. (v_Verified v, v_LastSeq v)) (VerifyChain ex_hash (\<lambda>_. False) (ex_sealed\<lparr>db_rows := butlast (db_rows ex_sealed)\<rparr>)) =
     Inr (True, 1)"
  by code_simp

text \<open>Fields are joined without quoting, so a separator can move from one field into the next.\<close>

lemma joined_fields_ambiguous:
  "ComputeChainHash H h (r\<lparr>cw_Source := ''a|b'', cw_Destination := ''c''\<rparr>) =
   ComputeChainHash H h (r\<lparr>cw_Source := ''a'', cw_Destination := ''b|c''\<rparr>)"
  by (simp add: ComputeChainHash_def row_fields_def)

end
