(* ===== verification/History.thy ===== *)
theory History
  imports Ledger "HOL-Library.Multiset"
begin

text \<open>
  Balances as the sum of their history (\<open>database/balance.go\<close>: snapshots and
  \<open>GetBalanceAtTime\<close>; \<open>balance.go\<close>: the service around them; \<open>sql/1740493523.sql\<close>: the function
  that takes the daily snapshots). The audit invariant says that every balance row is the replay
  of its applied transactions; from it follow the historical queries, with and without
  snapshots.
\<close>

section \<open>The model\<close>

subsection \<open>Snapshots\<close>

record snapshot =
  sn_BalanceID :: string
  sn_LedgerID :: string
  sn_Balance :: int
  sn_CreditBalance :: int
  sn_DebitBalance :: int
  sn_InflightBalance :: int
  sn_InflightCreditBalance :: int
  sn_InflightDebitBalance :: int
  sn_Currency :: string
  sn_SnapshotTime :: int
  sn_CreatedAt :: int
  sn_LastTxID :: "string option"

record history =
  hs_store :: store
  hs_snapshots :: "snapshot list"

text \<open>\<open>DATE_TRUNC('day', t)\<close>, as the number of the day.\<close>

definition trunc_day :: "int \<Rightarrow> int" where
  "trunc_day t = t div 86400000000000"

definition has_snapshot :: "int \<Rightarrow> snapshot list \<Rightarrow> Balance \<Rightarrow> bool" where
  "has_snapshot now snaps b =
     list_ex (\<lambda>sn. sn_BalanceID sn = b_BalanceID b \<and> trunc_day (sn_SnapshotTime sn) = trunc_day now) snaps"

definition last_tx_id :: "string \<Rightarrow> store \<Rightarrow> string option" where
  "last_tx_id bid s =
     (case sort_key (\<lambda>t. - t_CreatedAt t) (filter (\<lambda>t. t_Source t = bid \<or> t_Destination t = bid) (st_transactions s)) of
        [] \<Rightarrow> None | t # _ \<Rightarrow> Some (t_TransactionID t))"

definition snapshot_of :: "int \<Rightarrow> store \<Rightarrow> Balance \<Rightarrow> snapshot" where
  "snapshot_of now s b = \<lparr>sn_BalanceID = b_BalanceID b, sn_LedgerID = b_LedgerID b, sn_Balance = or0 (b_Balance b),
     sn_CreditBalance = or0 (b_CreditBalance b), sn_DebitBalance = or0 (b_DebitBalance b),
     sn_InflightBalance = or0 (b_InflightBalance b), sn_InflightCreditBalance = or0 (b_InflightCreditBalance b),
     sn_InflightDebitBalance = or0 (b_InflightDebitBalance b), sn_Currency = b_Currency b, sn_SnapshotTime = now,
     sn_CreatedAt = now, sn_LastTxID = last_tx_id (b_BalanceID b) s\<rparr>"

text \<open>
  The loop of \<open>take_daily_balance_snapshots_batched\<close>. The serial id of a row is its place in the
  table, \<open>lastID\<close> is \<open>v_last_processed_id\<close>; it moves over all rows, the batch over those without a
  snapshot of the day.
\<close>

function snapshot_loop :: "nat \<Rightarrow> int \<Rightarrow> store \<Rightarrow> nat \<Rightarrow> snapshot list \<Rightarrow> nat \<Rightarrow> snapshot list \<times> nat" where
  "snapshot_loop n now s lastID snaps cnt =
     (let rows = drop lastID (st_balances s);
          batch = take n (filter (\<lambda>b. \<not> has_snapshot now snaps b) rows);
          snaps' = snaps @ map (snapshot_of now s) batch;
          lastID' = lastID + length (take n rows)
      in if batch = [] then (snaps, cnt)
         else if length (st_balances s) \<le> lastID' then (snaps', cnt + length batch)
         else snapshot_loop n now s lastID' snaps' (cnt + length batch))"
  by pat_completeness auto
termination
  by (relation "measure (\<lambda>(n, now, s, l, snaps, t). length (st_balances s) - l)") auto

declare snapshot_loop.simps [simp del]

definition TakeBalanceSnapshots :: "faults \<Rightarrow> int \<Rightarrow> int \<Rightarrow> history \<Rightarrow> history \<times> int res" where
  "TakeBalanceSnapshots F now batchSize hs =
     (if F ''TakeBalanceSnapshots'' \<or> batchSize < 0 then (hs, Inl (internal ''Failed to take balance snapshots''))
      else case snapshot_loop (nat batchSize) now (hs_store hs) 0 (hs_snapshots hs) 0 of
             (snaps, cnt) \<Rightarrow> (hs\<lparr>hs_snapshots := snaps\<rparr>, Inr (int cnt)))"

subsection \<open>The balance at a time\<close>

definition validateBalanceTimeParams :: "string \<Rightarrow> int \<Rightarrow> unit res" where
  "validateBalanceTimeParams bid targetTime =
     (if bid = [] then Inl (APIError ErrBadRequest ''Balance ID cannot be empty'')
      else if targetTime = 0 then Inl (APIError ErrBadRequest ''Target time cannot be zero'')
      else Inr ())"

definition getBalanceInfo :: "faults \<Rightarrow> string \<Rightarrow> store \<Rightarrow> (string \<times> int) res" where
  "getBalanceInfo F bid s =
     (if F ''getBalanceInfo'' then Inl (internal ''Failed to get balance information'')
      else case find_balance bid s of
             None \<Rightarrow> Inl (APIError ErrNotFound (''Balance '' @ quoted bid @ '' not found''))
           | Some b \<Rightarrow> Inr (b_Currency b, b_CreatedAt b))"

text \<open>Credit, debit and time of the most recent snapshot, or zeros and the zero time.\<close>

definition getMostRecentSnapshot :: "faults \<Rightarrow> string \<Rightarrow> int \<Rightarrow> snapshot list \<Rightarrow> (int \<times> int \<times> int) res" where
  "getMostRecentSnapshot F bid targetTime snaps =
     (if F ''getMostRecentSnapshot'' then Inl (internal ''Failed to get balance snapshot'')
      else case sort_key (\<lambda>sn. - sn_SnapshotTime sn)
                  (filter (\<lambda>sn. sn_BalanceID sn = bid \<and> sn_SnapshotTime sn \<le> targetTime) snaps) of
             [] \<Rightarrow> Inr (0, 0, 0)
           | sn # _ \<Rightarrow> Inr (sn_CreditBalance sn, sn_DebitBalance sn, sn_SnapshotTime sn))"

definition effective_date :: "Transaction \<Rightarrow> int" where
  "effective_date t = (case t_EffectiveDate t of Some e \<Rightarrow> e | None \<Rightarrow> t_CreatedAt t)"

definition fetchTransactions :: "faults \<Rightarrow> string \<Rightarrow> int \<Rightarrow> int \<Rightarrow> store \<Rightarrow> Transaction list res" where
  "fetchTransactions F bid startTime targetTime s =
     (if F ''fetchTransactions'' then Inl (internal ''Failed to get transactions'')
      else Inr (sort_key effective_date (filter (\<lambda>t. (t_Source t = bid \<or> t_Destination t = bid) \<and>
             startTime < effective_date t \<and> effective_date t \<le> targetTime \<and> t_Status t = StatusApplied) (st_transactions s))))"

definition applyTransaction :: "string \<Rightarrow> Transaction \<Rightarrow> int \<times> int \<Rightarrow> (int \<times> int) res" where
  "applyTransaction bid t = (\<lambda>(credit, debit).
     case t_PreciseAmount t of
       None \<Rightarrow> Inl (internal ''Invalid transaction amount'')
     | Some a \<Rightarrow> Inr (if t_Destination t = bid then credit + a else credit,
                      if t_Source t = bid then debit + a else debit))"

text \<open>The loop over the rows; a null amount does not scan.\<close>

fun apply_all :: "string \<Rightarrow> Transaction list \<Rightarrow> int \<times> int \<Rightarrow> (int \<times> int) res" where
  "apply_all bid [] cd = Inr cd"
| "apply_all bid (t # ts) cd =
     (if t_PreciseAmount t = None then Inl (internal ''Failed to scan transaction'')
      else case applyTransaction bid t cd of Inl e \<Rightarrow> Inl e | Inr cd' \<Rightarrow> apply_all bid ts cd')"

definition calculateBalanceFromTransactions ::
    "faults \<Rightarrow> string \<Rightarrow> int \<Rightarrow> int \<Rightarrow> int \<times> int \<Rightarrow> store \<Rightarrow> (int \<times> int) res" where
  "calculateBalanceFromTransactions F bid startTime targetTime initial s =
     (case fetchTransactions F bid startTime targetTime s of
        Inl e \<Rightarrow> Inl e
      | Inr rows \<Rightarrow>
          if F ''calculateBalance.Scan'' then Inl (internal ''Failed to scan transaction'')
          else case apply_all bid rows initial of
                 Inl e \<Rightarrow> Inl e
               | Inr cd \<Rightarrow> if F ''calculateBalance.Rows'' then Inl (internal ''Error processing transactions'') else Inr cd)"

definition GetBalanceAtTime_db :: "faults \<Rightarrow> string \<Rightarrow> int \<Rightarrow> bool \<Rightarrow> history \<Rightarrow> Balance res" where
  "GetBalanceAtTime_db F bid targetTime fromSource hs =
     (case validateBalanceTimeParams bid targetTime of Inl e \<Rightarrow> Inl e
      | Inr _ \<Rightarrow>
        if F ''BeginTx'' then Inl (internal ''Failed to start transaction'')
        else case getBalanceInfo F bid (hs_store hs) of Inl e \<Rightarrow> Inl e
        | Inr (currency, createdAt) \<Rightarrow>
          (case (if fromSource then Inr (0, 0, 0) else getMostRecentSnapshot F bid targetTime (hs_snapshots hs)) of
             Inl e \<Rightarrow> Inl e
           | Inr (c0, d0, startTime) \<Rightarrow>
             (case calculateBalanceFromTransactions F bid startTime targetTime (c0, d0) (hs_store hs) of
                Inl e \<Rightarrow> Inl e
              | Inr (c, d) \<Rightarrow>
                  if F ''Commit'' then Inl (internal ''Failed to commit transaction'')
                  else Inr (zero_Balance\<lparr>b_BalanceID := bid, b_Balance := Some (c - d), b_CreditBalance := Some c,
                         b_DebitBalance := Some d, b_Currency := currency, b_CreatedAt := createdAt\<rparr>))))"

definition GetBalanceAtTime :: "faults \<Rightarrow> string \<Rightarrow> int \<Rightarrow> bool \<Rightarrow> history \<Rightarrow> Balance res" where
  "GetBalanceAtTime F bid targetTime fromSource hs =
     (case GetBalanceAtTime_db F bid targetTime fromSource hs of
        Inl e \<Rightarrow> Inl (Wrap ''failed to get balance at time'' e)
      | Inr b \<Rightarrow> Inr b)"

definition UpdateBalanceIdentity_db :: "faults \<Rightarrow> string \<Rightarrow> string \<Rightarrow> store \<Rightarrow> store \<times> unit res" where
  "UpdateBalanceIdentity_db F bid iid s =
     (if F ''UpdateBalanceIdentity'' then (s, Inl (internal ''Failed to update balance identity''))
      else case find_balance bid s of
             None \<Rightarrow> (s, Inl (if F ''UpdateBalanceIdentity.RowsAffected'' then internal ''Failed to get rows affected'' else not_found_balance bid))
           | Some b \<Rightarrow> (put_balance (b\<lparr>b_IdentityID := iid\<rparr>) s,
                         if F ''UpdateBalanceIdentity.RowsAffected'' then Inl (internal ''Failed to get rows affected'') else Inr ()))"

text \<open>\<open>identity\<close> is the answer of \<open>GetIdentityByID\<close>.\<close>

definition UpdateBalanceIdentity :: "faults \<Rightarrow> unit res \<Rightarrow> string \<Rightarrow> string \<Rightarrow> store \<Rightarrow> store \<times> unit res" where
  "UpdateBalanceIdentity F identity bid iid s =
     (case identity of Inl e \<Rightarrow> (s, Inl (Wrap ''identity validation failed'' e))
      | Inr _ \<Rightarrow>
        (case GetBalanceByIDLite F bid s of Inl e \<Rightarrow> (s, Inl (Wrap ''balance validation failed'' e))
         | Inr _ \<Rightarrow> UpdateBalanceIdentity_db F bid iid s))"

section \<open>Facts\<close>

subsection \<open>The audit invariant\<close>

text \<open>The applied amounts that a balance received and gave, over a selection of transactions.\<close>

definition applied_in :: "string \<Rightarrow> Transaction list \<Rightarrow> int" where
  "applied_in k ts = sum_list (map (\<lambda>t. or0 (t_PreciseAmount t)) (filter (\<lambda>t. t_Status t = StatusApplied \<and> t_Destination t = k) ts))"

definition applied_out :: "string \<Rightarrow> Transaction list \<Rightarrow> int" where
  "applied_out k ts = sum_list (map (\<lambda>t. or0 (t_PreciseAmount t)) (filter (\<lambda>t. t_Status t = StatusApplied \<and> t_Source t = k) ts))"

lemma applied_append [simp]:
  "applied_in k (ts @ us) = applied_in k ts + applied_in k us"
  "applied_out k (ts @ us) = applied_out k ts + applied_out k us"
  by (simp_all add: applied_in_def applied_out_def)

lemma applied_one:
  "applied_in k [t] = (if t_Status t = StatusApplied \<and> t_Destination t = k then or0 (t_PreciseAmount t) else 0)"
  "applied_out k [t] = (if t_Status t = StatusApplied \<and> t_Source t = k then or0 (t_PreciseAmount t) else 0)"
  by (simp_all add: applied_in_def applied_out_def)

definition audited :: "store \<Rightarrow> bool" where
  "audited s \<longleftrightarrow> store_ok s \<and>
     (\<forall>t \<in> set (st_transactions s). find_balance (t_Source t) s \<noteq> None \<and> find_balance (t_Destination t) s \<noteq> None) \<and>
     (\<forall>k b. find_balance k s = Some b \<longrightarrow> cr b = applied_in k (st_transactions s) \<and> dr b = applied_out k (st_transactions s))"

lemma applied_unknown:
  assumes "\<forall>t \<in> set ts. t_Source t \<noteq> k \<and> t_Destination t \<noteq> k"
  shows "applied_in k ts = 0" "applied_out k ts = 0"
  using assms by (induction ts) (auto simp: applied_in_def applied_out_def)

lemma grows_audited:
  assumes "grows s s'" "audited s"
  shows "audited s'"
  unfolding audited_def
proof (intro conjI allI impI ballI)
  have tx: "st_transactions s' = st_transactions s" using assms(1) by (simp add: grows_def)
  have keep: "find_balance k s = Some b \<Longrightarrow> find_balance k s' = Some b" for k b using assms(1) by (simp add: grows_def)
  show "store_ok s'" by (rule grows_ok [OF assms(1)])
  fix t assume t: "t \<in> set (st_transactions s')"
  have "find_balance k s \<noteq> None \<Longrightarrow> find_balance k s' \<noteq> None" for k using keep by fastforce
  then show "find_balance (t_Source t) s' \<noteq> None" "find_balance (t_Destination t) s' \<noteq> None"
    using assms(2) t unfolding audited_def tx by blast+
next
  fix k b assume b: "find_balance k s' = Some b"
  have tx: "st_transactions s' = st_transactions s" using assms(1) by (simp add: grows_def)
  show "cr b = applied_in k (st_transactions s')" "dr b = applied_out k (st_transactions s')"
  proof (atomize(full), cases "find_balance k s")
    case None
    have "find_balance k s = Some b \<or> cr b = 0 \<and> dr b = 0" using assms(1) b unfolding grows_def by blast
    with None have "cr b = 0 \<and> dr b = 0" by simp
    moreover have "\<forall>t \<in> set (st_transactions s). t_Source t \<noteq> k \<and> t_Destination t \<noteq> k"
      using None assms(2) by (auto simp: audited_def)
    ultimately show "cr b = applied_in k (st_transactions s') \<and> dr b = applied_out k (st_transactions s')"
      using applied_unknown tx by simp
  next
    case (Some c)
    then have "c = b" using assms(1) b by (auto simp: grows_def)
    then show "cr b = applied_in k (st_transactions s') \<and> dr b = applied_out k (st_transactions s')"
      using Some assms(2) tx by (simp add: audited_def)
  qed
qed

text \<open>
  The statuses with which the code calls the recorder: a commit or void that is not itself
  inflight, an inflight transaction, or one that is queued, applied or scheduled.
\<close>

definition recordable :: "Transaction \<Rightarrow> bool" where
  "recordable t \<longleftrightarrow> (if t_Status t = StatusCommit \<or> t_Status t = StatusVoid then \<not> t_Inflight t
     else t_Inflight t \<or> t_Status t \<in> {StatusQueued, StatusApplied, StatusScheduled})"

lemma recordable_ends [simp]: "recordable (t\<lparr>t_Source := i, t_Destination := j\<rparr>) = recordable t"
  by (simp add: recordable_def)

text \<open>The two balances after an application, in the settled columns.\<close>

lemma apply_settled:
  assumes "applyTransactionToBalances D t True False h = Inr (t2, h')" "recordable t"
    and "st = t_Status (updateTransactionDetails t2 sb db)" "a = or0 (t_PreciseAmount t2)"
  shows "cr (h' True) = cr (h True) \<and> dr (h' True) = dr (h True) + (if st = StatusApplied then a else 0) \<and>
    cr (h' False) = cr (h False) + (if st = StatusApplied then a else 0) \<and> dr (h' False) = dr (h False)"
proof -
  have k: "t_Status t2 = t_Status t" "t_Inflight t2 = t_Inflight t" using apply_keeps_identity [OF assms(1)] by simp_all
  then have st: "st = (if t_Inflight t then StatusInflight else applicableStatus (t_Status t))"
    by (simp add: assms(3) updateTransactionDetails_def)
  consider "t_Status t = StatusCommit" | "t_Status t = StatusVoid"
    | "t_Status t \<noteq> StatusCommit" "t_Status t \<noteq> StatusVoid" by blast
  then show ?thesis
  proof cases
    case 1
    then have "st = StatusApplied" using assms(2) st by (simp add: recordable_def applicableStatus_def)
    then show ?thesis using assms(1,4) 1 ApplyPrecision_precise_idem [of D t]
      by (auto simp: apply_commit Let_def)
  next
    case 2
    then have "st = StatusVoid" using assms(2) st by (simp add: recordable_def applicableStatus_def)
    then show ?thesis using assms(1) 2 by (auto simp: apply_void)
  next
    case 3
    then obtain b where b: "h' = posted b (t_Inflight t) True False h" "t_PreciseAmount t2 = Some b"
      using assms(1) by (auto simp: apply_other UpdateBalances_iff)
    then have h: "h' True = post_debit b (t_Inflight t) (h True)" "h' False = post_credit b (t_Inflight t) (h False)"
      by (simp_all add: posted_def Let_def)
    have "(st = StatusApplied) = (\<not> t_Inflight t)"
      using 3 assms(2) st by (auto simp: recordable_def applicableStatus_def split: if_splits)
    then show ?thesis unfolding h using assms(4) b(2) by (cases "t_Inflight t") simp_all
  qed
qed

lemma executed_audited:
  assumes "audited s" "executed E t s s' t3" "recordable t"
  shows "audited s'"
proof -
  from assms(2) obtain t2 h s1 sb db where g: "grows s s1" and sb: "in_table s1 sb" and db: "in_table s1 db"
    and ap: "applyTransactionToBalances (e_D E) (t\<lparr>t_Source := b_BalanceID sb, t_Destination := b_BalanceID db\<rparr>)
       True False (two_balances sb db) = Inr (t2, h)"
    and t3: "t3 = updateTransactionDetails t2 (h True) (h False)"
    and fin: "if t_PreciseAmount t2 = Some 0 then s' = s1
      else persisted t3 (h True) (h False) (prepareTransactionOutbox t3 (h True) (h False)) s1 s'"
    unfolding executed_def by blast
  have a1: "audited s1" by (rule grows_audited [OF g assms(1)])
  show ?thesis
  proof (cases "t_PreciseAmount t2 = Some 0")
    case True
    with fin a1 show ?thesis by simp
  next
    case False
    with fin have pe: "persisted t3 (h True) (h False) (prepareTransactionOutbox t3 (h True) (h False)) s1 s'" by simp
    let ?k = "if t_Status t3 = StatusApplied then or0 (t_PreciseAmount t3) else 0"
    have mv: "moved True False (two_balances sb db) h" using apply_moved [OF ap] by simp
    have id: "b_BalanceID (h True) = b_BalanceID sb" "b_BalanceID (h False) = b_BalanceID db"
      "b_Version (h True) = b_Version sb" "b_Version (h False) = b_Version db"
      using mv by (auto simp: moved_def two_balances_def)
    have ne: "b_BalanceID sb \<noteq> b_BalanceID db" using persisted_self [OF sb db _ id(1,3,2,4)] pe by blast
    from sb db obtain rs rd where rs: "find_balance (b_BalanceID sb) s1 = Some rs" "loaded rs sb"
      and rd: "find_balance (b_BalanceID db) s1 = Some rd" "loaded rd db" by (auto simp: in_table_def)
    have "recordable (t\<lparr>t_Source := b_BalanceID sb, t_Destination := b_BalanceID db\<rparr>)" using assms(3) by simp
    from apply_settled [OF ap this refl refl, of "h True" "h False"]
    have eff: "cr (h True) = cr rs" "dr (h True) = dr rs + ?k" "cr (h False) = cr rd + ?k" "dr (h False) = dr rd"
      using loaded_fields(1,2) [OF rs(2)] loaded_fields(1,2) [OF rd(2)] by (simp_all add: t3 two_balances_def)
    note rows = persisted_rows [OF pe, of rs rd]
    have fb: "find_balance k s' = (if k = b_BalanceID db then Some (written (h False) rd)
        else if k = b_BalanceID sb then Some (written (h True) rs) else find_balance k s1)" for k
      using rows(1) ne id rs(1) rd(1) by simp
    obtain am where tx: "st_transactions s' = st_transactions s1 @ [row_of t3 am]" using rows(2) ne id rs(1) rd(1) by auto
    have ends: "t_Source t3 = b_BalanceID sb" "t_Destination t3 = b_BalanceID db" by (simp_all add: t3 id)
    have "audited s'"
      unfolding audited_def
    proof (intro conjI ballI allI impI)
      show "store_ok s'" using executed_safe [OF _ assms(2)] assms(1) by (simp add: audited_def)
      fix u assume u: "u \<in> set (st_transactions s')"
      show "find_balance (t_Source u) s' \<noteq> None" "find_balance (t_Destination u) s' \<noteq> None"
        using u a1 ends rs rd unfolding tx fb by (auto simp: audited_def)
    next
      fix k b assume b: "find_balance k s' = Some b"
      show "cr b = applied_in k (st_transactions s')" "dr b = applied_out k (st_transactions s')"
        using b a1 ends rs(1) rd(1) ne eff unfolding tx fb
        by (auto simp: audited_def applied_one split: if_splits)
    qed
    then show ?thesis .
  qed
qed

lemma RecordTransaction_audited:
  assumes "audited (w_store w)" "uuids_ok E" "recordable t" "RecordTransaction E t w = Some (w', x)"
  shows "audited (w_store w')"
proof -
  have ok: "store_ok (w_store w)" using assms(1) by (simp add: audited_def)
  from RecordTransaction_cases [OF ok assms(2,4)] show ?thesis
  proof (elim disjE exE conjE)
    fix t3 s1 sid did assume g: "grows (w_store w) s1"
      and ex: "executed E (t\<lparr>t_Source := sid, t_Destination := did\<rparr>) s1 (w_store w') t3"
    show ?thesis
      by (rule executed_audited [OF grows_audited [OF g assms(1)] ex]) (use assms(3) in simp)
  qed (use grows_audited assms(1) in blast)
qed

subsection \<open>Replaying transactions\<close>

definition upto :: "int \<Rightarrow> int \<Rightarrow> Transaction list \<Rightarrow> Transaction list" where
  "upto a b ts = filter (\<lambda>t. a < effective_date t \<and> effective_date t \<le> b) ts"

lemma apply_all_sums:
  assumes "\<forall>t \<in> set ts. t_PreciseAmount t \<noteq> None \<and> t_Status t = StatusApplied"
  shows "apply_all k ts (c, d) = Inr (c + applied_in k ts, d + applied_out k ts)"
  using assms
  by (induction ts arbitrary: c d) (auto simp: applyTransaction_def applied_in_def applied_out_def)

lemma applied_filter:
  "applied_in k (filter (\<lambda>t. (t_Source t = k \<or> t_Destination t = k) \<and> P t \<and> t_Status t = StatusApplied) ts) = applied_in k (filter P ts)"
  "applied_out k (filter (\<lambda>t. (t_Source t = k \<or> t_Destination t = k) \<and> P t \<and> t_Status t = StatusApplied) ts) = applied_out k (filter P ts)"
  unfolding applied_in_def applied_out_def filter_filter by (intro arg_cong [where f = "\<lambda>xs. sum_list (map _ xs)"] filter_cong; auto)+

lemma applied_sort: "applied_in k (sort_key f ts) = applied_in k ts" "applied_out k (sort_key f ts) = applied_out k ts"
proof -
  have "sum_list (map g (filter P (sort_key f ts))) = (sum_list (map g (filter P ts)) :: int)" for g P
    by (metis mset_filter mset_map mset_sort sum_mset_sum_list)
  then show "applied_in k (sort_key f ts) = applied_in k ts" "applied_out k (sort_key f ts) = applied_out k ts"
    by (simp_all add: applied_in_def applied_out_def)
qed

lemma calculate_sums:
  assumes "store_ok s" "\<forall>p. \<not> F p"
  shows "calculateBalanceFromTransactions F k a b (c, d) s =
    Inr (c + applied_in k (upto a b (st_transactions s)), d + applied_out k (upto a b (st_transactions s)))"
proof -
  let ?ts = "filter (\<lambda>t. (t_Source t = k \<or> t_Destination t = k) \<and> (a < effective_date t \<and> effective_date t \<le> b) \<and> t_Status t = StatusApplied) (st_transactions s)"
  have "fetchTransactions F k a b s = Inr (sort_key effective_date ?ts)" using assms(2) by (simp add: fetchTransactions_def)
  moreover have "\<forall>t \<in> set (sort_key effective_date ?ts). t_PreciseAmount t \<noteq> None \<and> t_Status t = StatusApplied"
    using assms(1) by (simp add: store_ok_def)
  ultimately have "calculateBalanceFromTransactions F k a b (c, d) s =
      Inr (c + applied_in k (sort_key effective_date ?ts), d + applied_out k (sort_key effective_date ?ts))"
    unfolding calculateBalanceFromTransactions_def using assms(2) by (simp only: sum.case apply_all_sums if_False)
  then show ?thesis unfolding applied_sort applied_filter upto_def .
qed

lemma upto_split:
  assumes "a \<le> b" "b \<le> c"
  shows "applied_in k (upto a c ts) = applied_in k (upto a b ts) + applied_in k (upto b c ts)"
    "applied_out k (upto a c ts) = applied_out k (upto a b ts) + applied_out k (upto b c ts)"
  using assms by (induction ts) (auto simp: upto_def applied_in_def applied_out_def)

subsection \<open>Snapshots\<close>

text \<open>A snapshot is sound when it is the replay up to its time.\<close>

definition snapshots_ok :: "history \<Rightarrow> bool" where
  "snapshots_ok hs \<longleftrightarrow> (\<forall>sn \<in> set (hs_snapshots hs). 0 \<le> sn_SnapshotTime sn \<and>
     sn_CreditBalance sn = applied_in (sn_BalanceID sn) (upto 0 (sn_SnapshotTime sn) (st_transactions (hs_store hs))) \<and>
     sn_DebitBalance sn = applied_out (sn_BalanceID sn) (upto 0 (sn_SnapshotTime sn) (st_transactions (hs_store hs))))"

lemma snapshot_agrees:
  assumes "snapshots_ok hs" "store_ok (hs_store hs)" "\<forall>p. \<not> F p"
  shows "GetBalanceAtTime_db F k T False hs = GetBalanceAtTime_db F k T True hs"
proof -
  let ?s = "hs_store hs" and ?ts = "st_transactions (hs_store hs)"
  obtain c d a where m: "getMostRecentSnapshot F k T (hs_snapshots hs) = Inr (c, d, a)"
    and cd: "c = applied_in k (upto 0 a ?ts)" "d = applied_out k (upto 0 a ?ts)" "(a = 0 \<and> c = 0 \<and> d = 0) \<or> 0 \<le> a \<and> a \<le> T"
  proof (cases "sort_key (\<lambda>sn. - sn_SnapshotTime sn) (filter (\<lambda>sn. sn_BalanceID sn = k \<and> sn_SnapshotTime sn \<le> T) (hs_snapshots hs))")
    case Nil
    have "upto 0 0 ?ts = []" by (auto simp: upto_def filter_empty_conv)
    with Nil show thesis using assms(3) by (intro that [of 0 0 0]) (simp_all add: getMostRecentSnapshot_def applied_in_def applied_out_def)
  next
    case (Cons sn rest)
    then have "sn \<in> set (sort_key (\<lambda>sn. - sn_SnapshotTime sn) (filter (\<lambda>sn. sn_BalanceID sn = k \<and> sn_SnapshotTime sn \<le> T) (hs_snapshots hs)))" by simp
    then have "sn \<in> set (hs_snapshots hs)" "sn_BalanceID sn = k" "sn_SnapshotTime sn \<le> T" by simp_all
    with Cons show thesis using assms(1,3)
      by (intro that [of "sn_CreditBalance sn" "sn_DebitBalance sn" "sn_SnapshotTime sn"])
         (auto simp: getMostRecentSnapshot_def snapshots_ok_def)
  qed
  have "calculateBalanceFromTransactions F k a T (c, d) ?s = calculateBalanceFromTransactions F k 0 T (0, 0) ?s"
    using cd upto_split [of 0 a T k ?ts] by (auto simp: calculate_sums [OF assms(2,3)])
  then show ?thesis
    unfolding GetBalanceAtTime_db_def m by (simp split: sum.split prod.split)
qed

lemma has_snapshot_append:
  "has_snapshot now (snaps @ map (snapshot_of now s) bs) b \<longleftrightarrow> has_snapshot now snaps b \<or> b_BalanceID b \<in> b_BalanceID ` set bs"
  by (induction bs) (auto simp: has_snapshot_def snapshot_of_def)

lemma filter_front:
  assumes "distinct (xs @ ys @ zs)"
  shows "filter (\<lambda>x. x \<notin> set (xs @ ys)) (ys @ zs) = zs"
proof -
  have "filter (\<lambda>x. x \<notin> set (xs @ ys)) ys = []" by (simp add: filter_empty_conv)
  moreover have "filter (\<lambda>x. x \<notin> set (xs @ ys)) zs = zs" using assms by (intro filter_True) auto
  ultimately show ?thesis by simp
qed

lemma take_filter_split:
  assumes "distinct xs"
  shows "take n (filter P xs) @ filter (\<lambda>x. P x \<and> x \<notin> set (take n (filter P xs))) (drop n xs) = filter P xs"
proof -
  define X Y1 Y2 where "X = filter P (take n xs)" and "Y1 = take (n - length X) (filter P (drop n xs))"
    and "Y2 = drop (n - length X) (filter P (drop n xs))"
  have y: "filter P (drop n xs) = Y1 @ Y2" by (simp add: Y1_def Y2_def)
  have f: "filter P xs = X @ Y1 @ Y2" unfolding y [symmetric] X_def by (metis append_take_drop_id filter_append)
  have "length X \<le> n" unfolding X_def by (rule order_trans [OF length_filter_le]) simp
  then have t: "take n (filter P xs) = X @ Y1" unfolding f by (simp add: Y1_def Y2_def)
  have "filter (\<lambda>x. P x \<and> x \<notin> set (X @ Y1)) (drop n xs) = filter (\<lambda>x. x \<notin> set (X @ Y1)) (Y1 @ Y2)"
    unfolding y [symmetric] filter_filter by (simp only: conj_commute)
  also have "\<dots> = Y2" using distinct_filter [OF assms, of P] unfolding f by (rule filter_front)
  finally show ?thesis unfolding t unfolding f by simp
qed

text \<open>The batches are invisible: the loop adds one snapshot for every balance that had none today.\<close>

lemma snapshot_loop_spec:
  assumes "distinct (map b_BalanceID (st_balances s))" "0 < n"
  shows "snapshot_loop n now s l snaps cnt =
    (let new = filter (\<lambda>b. \<not> has_snapshot now snaps b) (drop l (st_balances s))
     in (snaps @ map (snapshot_of now s) new, cnt + length new))"
  using assms
proof (induction n now s l snaps cnt rule: snapshot_loop.induct)
  case (1 n now s l snaps cnt)
  let ?B = "drop l (st_balances s)" and ?P = "\<lambda>b. \<not> has_snapshot now snaps b"
  let ?batch = "take n (filter ?P ?B)" and ?l = "l + length (take n (drop l (st_balances s)))"
  let ?snaps = "snaps @ map (snapshot_of now s) ?batch"
  have d: "distinct ?B" "inj_on b_BalanceID (set ?B)"
    using 1(2) by (metis distinct_drop distinct_map, meson distinct_map inj_on_subset set_drop_subset)
  show ?case
  proof (cases "?batch = []")
    case True
    then have "filter ?P ?B = []" using 1(3) by simp
    then show ?thesis by (subst snapshot_loop.simps) (simp add: Let_def)
  next
    case ne: False
    have rest: "drop ?l (st_balances s) = drop n ?B"
      by (cases "n \<le> length ?B") (simp_all add: add.commute)
    have left: "filter (\<lambda>b. \<not> has_snapshot now ?snaps b) (drop n ?B) = filter (\<lambda>b. ?P b \<and> b \<notin> set ?batch) (drop n ?B)"
    proof (rule filter_cong [OF refl])
      fix b assume b: "b \<in> set (drop n ?B)"
      have "b_BalanceID b \<in> b_BalanceID ` set ?batch \<longleftrightarrow> b \<in> set ?batch"
        by (rule inj_on_image_mem_iff [OF d(2) in_set_dropD [OF b]]) (auto dest: in_set_takeD)
      then show "(\<not> has_snapshot now ?snaps b) = (?P b \<and> b \<notin> set ?batch)" by (simp add: has_snapshot_append)
    qed
    have all: "?batch @ filter (\<lambda>b. \<not> has_snapshot now ?snaps b) (drop n ?B) = filter ?P ?B"
      unfolding left by (rule take_filter_split [OF d(1)])
    show ?thesis
    proof (cases "length (st_balances s) \<le> ?l")
      case True
      then have "drop n ?B = []" unfolding rest [symmetric] by simp
      with all have "filter ?P ?B = ?batch" by simp
      moreover have "snapshot_loop n now s l snaps cnt = (?snaps, cnt + length ?batch)"
        using ne True by (subst snapshot_loop.simps) (simp only: Let_def if_False if_True)
      ultimately show ?thesis unfolding Let_def by simp
    next
      case False
      have "snapshot_loop n now s l snaps cnt = snapshot_loop n now s ?l ?snaps (cnt + length ?batch)"
        using ne False by (subst snapshot_loop.simps) (simp only: Let_def if_False)
      also have "\<dots> = (?snaps @ map (snapshot_of now s) (filter (\<lambda>b. \<not> has_snapshot now ?snaps b) (drop n ?B)),
          cnt + length ?batch + length (filter (\<lambda>b. \<not> has_snapshot now ?snaps b) (drop n ?B)))"
        using 1(1) [OF refl refl refl refl ne False 1(2,3)] unfolding rest Let_def .
      also have "\<dots> = (snaps @ map (snapshot_of now s) (filter ?P ?B), cnt + length (filter ?P ?B))"
        by (simp only: append_assoc add.assoc map_append [symmetric] length_append [symmetric] all)
      finally show ?thesis by (simp only: Let_def)
    qed
  qed
qed

lemma TakeBalanceSnapshots_spec:
  assumes "store_ok (hs_store hs)" "TakeBalanceSnapshots F now n hs = (hs', x)"
  shows "hs_store hs' = hs_store hs \<and> (\<forall>sn \<in> set (hs_snapshots hs'). sn \<in> set (hs_snapshots hs) \<or>
    (\<exists>b \<in> set (st_balances (hs_store hs)). sn = snapshot_of now (hs_store hs) b))"
proof (cases "F ''TakeBalanceSnapshots'' \<or> n \<le> 0")
  case True
  then show ?thesis using assms(2)
    by (auto simp: TakeBalanceSnapshots_def snapshot_loop.simps [where n = 0] Let_def split: if_splits prod.splits)
next
  case False
  have "distinct (map b_BalanceID (st_balances (hs_store hs)))" using assms(1) by (simp add: store_ok_def)
  from snapshot_loop_spec [OF this, of "nat n"] False show ?thesis using assms(2)
    by (auto simp: TakeBalanceSnapshots_def Let_def split: if_splits prod.splits)
qed

subsection \<open>Histories\<close>

text \<open>A new ledger: accounts that hold nothing and no transaction.\<close>

definition fresh_store :: "store \<Rightarrow> bool" where
  "fresh_store s \<longleftrightarrow> store_ok s \<and> st_transactions s = [] \<and> (\<forall>b \<in> set (st_balances s). cr b = 0 \<and> dr b = 0)"

text \<open>
  Transactions recorded and snapshots taken in any order and with any dates. The transactions are in a
  status with which the code records them (\<open>recordable\<close>).
\<close>

inductive history_run :: "'d decimal \<Rightarrow> 'r redis \<Rightarrow> history \<Rightarrow> bool" for D R where
  start: "fresh_store s \<Longrightarrow> history_run D R \<lparr>hs_store = s, hs_snapshots = []\<rparr>"
| record_txn: "\<lbrakk>history_run D R hs; uuids_ok E; e_D E = D; e_R E = R; recordable t;
     RecordTransaction E t \<lparr>w_store = hs_store hs, w_redis = r\<rparr> = Some (w', x)\<rbrakk>
   \<Longrightarrow> history_run D R (hs\<lparr>hs_store := w_store w'\<rparr>)"
| take_snapshots: "\<lbrakk>history_run D R hs; TakeBalanceSnapshots F now n hs = (hs', x)\<rbrakk> \<Longrightarrow> history_run D R hs'"

text \<open>
  The same with dates in order: a transaction takes effect after the snapshots that exist, a snapshot
  is taken after the transactions that exist. The code accepts other dates too.
\<close>

inductive dated_run :: "'d decimal \<Rightarrow> 'r redis \<Rightarrow> history \<Rightarrow> bool" for D R where
  start: "fresh_store s \<Longrightarrow> dated_run D R \<lparr>hs_store = s, hs_snapshots = []\<rparr>"
| record_txn: "\<lbrakk>dated_run D R hs; uuids_ok E; e_D E = D; e_R E = R; recordable t; 0 < effective_date t;
     \<forall>sn \<in> set (hs_snapshots hs). sn_SnapshotTime sn < effective_date t;
     RecordTransaction E t \<lparr>w_store = hs_store hs, w_redis = r\<rparr> = Some (w', x)\<rbrakk>
   \<Longrightarrow> dated_run D R (hs\<lparr>hs_store := w_store w'\<rparr>)"
| take_snapshots: "\<lbrakk>dated_run D R hs; 0 \<le> now; \<forall>t \<in> set (st_transactions (hs_store hs)). effective_date t \<le> now;
     TakeBalanceSnapshots F now n hs = (hs', x)\<rbrakk> \<Longrightarrow> dated_run D R hs'"

lemma effective_date_cong:
  "t_EffectiveDate t = t_EffectiveDate u \<Longrightarrow> t_CreatedAt t = t_CreatedAt u \<Longrightarrow> effective_date t = effective_date u"
  by (simp add: effective_date_def split: option.split)

lemma effective_date_ends [simp]: "effective_date (t\<lparr>t_Source := i, t_Destination := j\<rparr>) = effective_date t"
  by (rule effective_date_cong) simp_all

lemma apply_keeps_dates:
  assumes "applyTransactionToBalances D t0 True False h = Inr (t2, h')"
  shows "effective_date t2 = effective_date t0"
proof -
  have ap: "effective_date (ApplyPrecision D t) = effective_date t" for t :: Transaction
    by (rule effective_date_cong) (simp_all add: ApplyPrecision_def applyPrecisionLogic_def convertPreciseToDecimal_def Let_def split: option.split)
  consider "t_Status t0 = StatusCommit" | "t_Status t0 = StatusVoid"
    | "t_Status t0 \<noteq> StatusCommit" "t_Status t0 \<noteq> StatusVoid" by blast
  then show ?thesis
    by cases (use assms in \<open>auto simp: apply_commit apply_void apply_other UpdateBalances_iff ap\<close>)
qed

lemma executed_appends:
  assumes "executed E t s s' t3"
  shows "(st_transactions s' = st_transactions s \<or>
    (\<exists>u. st_transactions s' = st_transactions s @ [u] \<and> effective_date u = effective_date t)) \<and>
    (\<forall>k. find_balance k s \<noteq> None \<longrightarrow> find_balance k s' \<noteq> None)"
proof -
  from assms obtain t2 h s1 sb db where g: "grows s s1" and sb: "in_table s1 sb" and db: "in_table s1 db"
    and ap: "applyTransactionToBalances (e_D E) (t\<lparr>t_Source := b_BalanceID sb, t_Destination := b_BalanceID db\<rparr>)
       True False (two_balances sb db) = Inr (t2, h)"
    and t3: "t3 = updateTransactionDetails t2 (h True) (h False)"
    and fin: "if t_PreciseAmount t2 = Some 0 then s' = s1
      else persisted t3 (h True) (h False) (prepareTransactionOutbox t3 (h True) (h False)) s1 s'"
    unfolding executed_def by blast
  have tx: "st_transactions s1 = st_transactions s" and old: "\<forall>k. find_balance k s \<noteq> None \<longrightarrow> find_balance k s1 \<noteq> None"
    using g by (auto simp: grows_def)
  show ?thesis
  proof (cases "t_PreciseAmount t2 = Some 0")
    case False
    with fin have pe: "persisted t3 (h True) (h False) (prepareTransactionOutbox t3 (h True) (h False)) s1 s'" by simp
    have mv: "moved True False (two_balances sb db) h" using apply_moved [OF ap] by simp
    have id: "b_BalanceID (h True) = b_BalanceID sb" "b_BalanceID (h False) = b_BalanceID db"
      "b_Version (h True) = b_Version sb" "b_Version (h False) = b_Version db"
      using mv by (auto simp: moved_def two_balances_def)
    have ne: "b_BalanceID sb \<noteq> b_BalanceID db" using persisted_self [OF sb db _ id(1,3,2,4)] pe by blast
    from sb db obtain rs rd where rs: "find_balance (b_BalanceID sb) s1 = Some rs" 
      and rd: "find_balance (b_BalanceID db) s1 = Some rd" by (auto simp: in_table_def)
    from persisted_rows(2) [OF pe, of rs rd] obtain am where "st_transactions s' = st_transactions s1 @ [row_of t3 am]"
      using ne id rs(1) rd(1) by auto
    moreover have "effective_date (row_of t3 am) = effective_date t2"
      by (rule effective_date_cong) (simp_all add: t3 row_of_def updateTransactionDetails_def)
    moreover have "effective_date t2 = effective_date t" using apply_keeps_dates [OF ap] by simp
    moreover have "find_balance k s1 \<noteq> None \<longrightarrow> find_balance k s' \<noteq> None" for k
      using persisted_rows(1) [OF pe, of rs rd k] ne id rs rd by simp
    ultimately show ?thesis using tx old by simp
  qed (use fin tx old in simp)
qed

lemma RecordTransaction_appends:
  assumes "store_ok (w_store w)" "uuids_ok E" "RecordTransaction E t w = Some (w', x)"
  shows "(st_transactions (w_store w') = st_transactions (w_store w) \<or>
    (\<exists>u. st_transactions (w_store w') = st_transactions (w_store w) @ [u] \<and> effective_date u = effective_date t)) \<and>
    (\<forall>k. find_balance k (w_store w) \<noteq> None \<longrightarrow> find_balance k (w_store w') \<noteq> None)"
  using RecordTransaction_cases [OF assms]
proof (elim disjE exE conjE)
  fix t3 s1 sid did assume g: "grows (w_store w) s1"
    and ex: "executed E (t\<lparr>t_Source := sid, t_Destination := did\<rparr>) s1 (w_store w') t3"
  have "\<forall>k. find_balance k (w_store w) \<noteq> None \<longrightarrow> find_balance k s1 \<noteq> None" using g by (auto simp: grows_def)
  then show ?thesis using executed_appends [OF ex] g by (simp add: grows_def)
qed (auto simp: grows_def)

lemma upto_all: "\<forall>t \<in> set ts. 0 < effective_date t \<and> effective_date t \<le> b \<Longrightarrow> upto 0 b ts = ts"
  by (simp add: upto_def)

lemma history_run_audited: "history_run D R hs \<Longrightarrow> audited (hs_store hs)"
proof (induction rule: history_run.induct)
  case (start s)
  then show ?case by (auto simp: fresh_store_def audited_def applied_in_def applied_out_def dest!: find_balance_SomeD)
next
  case (record_txn hs E t r w' x)
  then show ?case using RecordTransaction_audited [of "\<lparr>w_store = hs_store hs, w_redis = r\<rparr>" E t w' x] by simp
next
  case (take_snapshots hs F now n hs' x)
  then show ?case using TakeBalanceSnapshots_spec [of hs F now n hs' x] by (simp add: audited_def)
qed

lemma dated_run_history: "dated_run D R hs \<Longrightarrow> history_run D R hs"
  by (induction rule: dated_run.induct) (rule history_run.intros, assumption+)+

lemma dated_run_keeps:
  assumes "dated_run D R hs"
  shows "audited (hs_store hs) \<and> snapshots_ok hs \<and> (\<forall>t \<in> set (st_transactions (hs_store hs)). 0 < effective_date t)"
  using assms
proof (induction rule: dated_run.induct)
  case (start s)
  then show ?case
    by (auto simp: fresh_store_def audited_def snapshots_ok_def applied_in_def applied_out_def dest!: find_balance_SomeD)
next
  case (record_txn hs E t r w' x)
  let ?w = "\<lparr>w_store = hs_store hs, w_redis = r\<rparr>"
  have au: "audited (w_store w')" using RecordTransaction_audited [of ?w E t w' x] record_txn by simp
  have ok: "store_ok (w_store ?w)" using record_txn by (simp add: audited_def)
  from conjunct1 [OF RecordTransaction_appends [OF ok record_txn(2,8)]] show ?case
  proof (elim disjE exE conjE)
    fix u assume u: "st_transactions (w_store w') = st_transactions (w_store ?w) @ [u]" "effective_date u = effective_date t"
    have "upto 0 (sn_SnapshotTime sn) (st_transactions (w_store w')) = upto 0 (sn_SnapshotTime sn) (st_transactions (hs_store hs))"
      if "sn \<in> set (hs_snapshots hs)" for sn
      using that record_txn(7) u by (auto simp: upto_def)
    then show ?case using au record_txn u by (auto simp: snapshots_ok_def)
  qed (use au record_txn in \<open>simp add: snapshots_ok_def\<close>)
next
  case (take_snapshots hs now F n hs' x)
  let ?s = "hs_store hs"
  have au: "audited ?s" using take_snapshots by simp
  then have T: "hs_store hs' = ?s" "\<forall>sn \<in> set (hs_snapshots hs'). sn \<in> set (hs_snapshots hs) \<or>
      (\<exists>b \<in> set (st_balances ?s). sn = snapshot_of now ?s b)"
    using TakeBalanceSnapshots_spec [OF _ take_snapshots(4)] by (auto simp: audited_def)
  have all: "upto 0 now (st_transactions ?s) = st_transactions ?s" using take_snapshots by (intro upto_all) auto
  have "sn_CreditBalance (snapshot_of now ?s b) = applied_in (b_BalanceID b) (st_transactions ?s) \<and>
      sn_DebitBalance (snapshot_of now ?s b) = applied_out (b_BalanceID b) (st_transactions ?s)"
    if "b \<in> set (st_balances ?s)" for b
    using au that find_row_mem [of b_BalanceID "st_balances ?s" b]
    by (auto simp: audited_def snapshot_of_def store_ok_def find_balance_def)
  then have "snapshots_ok hs'"
    unfolding snapshots_ok_def T(1)
  proof (intro ballI, goal_cases)
    case 1
    then show ?case using T(2) take_snapshots(2,5) all
      by (auto simp: snapshots_ok_def snapshot_of_def)
  qed
  then show ?case using T(1) take_snapshots by simp
qed

section \<open>Properties\<close>

text \<open>An account that overdraws into another, then the daily snapshots.\<close>

definition ex_fresh :: store where
  "ex_fresh = ex_store\<lparr>st_balances := [ex_row ''bln_a'' 0, ex_row ''bln_b'' 0]\<rparr>"

definition ex_overdraw :: Transaction where
  "ex_overdraw = ex_txn\<lparr>t_AllowOverdraft := True, t_CreatedAt := 5\<rparr>"

lemma ex_fresh_ok: "fresh_store ex_fresh"
  by (simp add: fresh_store_def store_ok_def ex_fresh_def ex_store_def ex_row_ok)
     (simp add: ex_row_def InitializeBalanceFields_def zero_Balance_def)

lemma ex_overdraw_run:
  obtains w' t' where "RecordTransaction ex_env ex_overdraw \<lparr>w_store = ex_fresh, w_redis = w_redis ex_world\<rparr> = Some (w', Inr t')"
    "find_balance ''bln_a'' ex_fresh = Some (ex_row ''bln_a'' 0)" "find_balance ''bln_b'' ex_fresh = Some (ex_row ''bln_b'' 0)"
    "st_transactions (w_store w') \<noteq> []"
proof -
  have f: "find_balance ''bln_a'' ex_fresh = Some (ex_row ''bln_a'' 0)" "find_balance ''bln_b'' ex_fresh = Some (ex_row ''bln_b'' 0)"
    by (simp_all add: find_balance_def ex_fresh_def ex_store_def) (simp_all add: ex_row_def)
  have "\<exists>w' t' am rs' rd'. RecordTransaction ex_env ex_overdraw \<lparr>w_store = ex_fresh, w_redis = w_redis ex_world\<rparr> = Some (w', Inr t') \<and>
      t_Status t' = (if t_Inflight ex_overdraw then StatusInflight else StatusApplied) \<and>
      st_transactions (w_store w') = st_transactions (w_store \<lparr>w_store = ex_fresh, w_redis = w_redis ex_world\<rparr>) @ [row_of t' am] \<and>
      find_balance (t_Source ex_overdraw) (w_store w') = Some rs' \<and> row_moved (ex_row ''bln_a'' 0) rs' 0 (250 - 0) 0 0 \<and>
      find_balance (t_Destination ex_overdraw) (w_store w') = Some rd' \<and> row_moved (ex_row ''bln_b'' 0) rd' (250 - 0) 0 0 0 \<and>
      (\<forall>k. k \<noteq> t_Source ex_overdraw \<and> k \<noteq> t_Destination ex_overdraw \<longrightarrow>
         find_balance k (w_store w') = find_balance k (w_store \<lparr>w_store = ex_fresh, w_redis = w_redis ex_world\<rparr>))"
    by (rule RecordTransaction_transfers [OF ex_env_ok(3,2,1) _ ex_env_ok(4), where a = 250])
       (use ex_fresh_ok in \<open>simp_all add: fresh_store_def ex_world_def ex_overdraw_def ex_txn_def f has_prefix_def ex_env_def kv_def rs_get_def
         zero_Transaction_def\<close>, simp_all add: ex_fresh_def ex_store_def)
  then obtain w' t' am where "RecordTransaction ex_env ex_overdraw \<lparr>w_store = ex_fresh, w_redis = w_redis ex_world\<rparr> = Some (w', Inr t')"
    "st_transactions (w_store w') = st_transactions (w_store \<lparr>w_store = ex_fresh, w_redis = w_redis ex_world\<rparr>) @ [row_of t' am]" by blast
  then show ?thesis using that f by simp
qed

lemma ex_history:
  obtains hs where "dated_run rat_decimal rs_redis hs" "find_balance ''bln_a'' (hs_store hs) \<noteq> None"
    "\<forall>t \<in> set (st_transactions (hs_store hs)). effective_date t \<le> 9"
proof -
  obtain w' t' where R: "RecordTransaction ex_env ex_overdraw \<lparr>w_store = ex_fresh, w_redis = w_redis ex_world\<rparr> = Some (w', Inr t')"
    and f: "find_balance ''bln_a'' ex_fresh = Some (ex_row ''bln_a'' 0)" by (rule ex_overdraw_run)
  let ?h0 = "\<lparr>hs_store = ex_fresh, hs_snapshots = []\<rparr>" and ?h1 = "\<lparr>hs_store = w_store w', hs_snapshots = []\<rparr>"
  have r0: "dated_run rat_decimal rs_redis ?h0" by (rule dated_run.start [OF ex_fresh_ok])
  have e: "effective_date ex_overdraw = 5" by (simp add: effective_date_def ex_overdraw_def ex_txn_def zero_Transaction_def)
  have r1: "dated_run rat_decimal rs_redis ?h1"
    using dated_run.record_txn [OF r0 ex_env_ok(1) _ _ _ _ _, of ex_overdraw "w_redis ex_world" w' "Inr t'"] R e
    by (simp add: ex_env_def recordable_def) (simp add: ex_overdraw_def ex_txn_def zero_Transaction_def)
  have ok: "store_ok ex_fresh" using ex_fresh_ok by (simp add: fresh_store_def)
  have dates: "\<forall>t \<in> set (st_transactions (w_store w')). effective_date t = 5"
    using RecordTransaction_appends [OF _ ex_env_ok(1) R] ok e by (auto simp: ex_fresh_def ex_store_def)
  obtain hs' y where T: "TakeBalanceSnapshots (\<lambda>_. False) 6 100 ?h1 = (hs', y)" by force
  have r2: "dated_run rat_decimal rs_redis hs'"
    by (rule dated_run.take_snapshots [OF r1 _ _ T]) (use dates in auto)
  have "audited (w_store w')" using dated_run_keeps [OF r1] by simp
  then have s: "hs_store hs' = w_store w'" using TakeBalanceSnapshots_spec [OF _ T] by (simp add: audited_def)
  have "find_balance ''bln_a'' (w_store w') \<noteq> None"
    using RecordTransaction_appends [OF _ ex_env_ok(1) R] ok f by simp
  then show ?thesis using that [OF r2] s dates by simp
qed

lemma ex_snapshot_taken: "\<exists>sn \<in> set (hs_snapshots (fst (TakeBalanceSnapshots (\<lambda>_. False) 6 100 \<lparr>hs_store = ex_fresh, hs_snapshots = []\<rparr>))). sn_SnapshotTime sn = 6"
  by code_simp

lemma ex_backdated:
  obtains hs where "history_run rat_decimal rs_redis hs" "find_balance ''bln_a'' (hs_store hs) \<noteq> None"
    "\<exists>sn \<in> set (hs_snapshots hs). \<exists>t \<in> set (st_transactions (hs_store hs)). effective_date t < sn_SnapshotTime sn"
proof -
  obtain w' t' where R: "RecordTransaction ex_env ex_overdraw \<lparr>w_store = ex_fresh, w_redis = w_redis ex_world\<rparr> = Some (w', Inr t')"
    and f: "find_balance ''bln_a'' ex_fresh = Some (ex_row ''bln_a'' 0)" and ne: "st_transactions (w_store w') \<noteq> []"
    by (rule ex_overdraw_run)
  let ?h0 = "\<lparr>hs_store = ex_fresh, hs_snapshots = []\<rparr>"
  obtain h1 y where T: "TakeBalanceSnapshots (\<lambda>_. False) 6 100 ?h0 = (h1, y)" by force
  have ok: "store_ok ex_fresh" using ex_fresh_ok by (simp add: fresh_store_def)
  have s: "hs_store h1 = ex_fresh" using TakeBalanceSnapshots_spec [OF _ T] ok by simp
  have r1: "history_run rat_decimal rs_redis h1"
    by (rule history_run.take_snapshots [OF history_run.start [OF ex_fresh_ok] T])
  have rc: "recordable ex_overdraw" "e_D ex_env = rat_decimal" "e_R ex_env = rs_redis"
    by (simp_all add: recordable_def ex_overdraw_def ex_txn_def zero_Transaction_def ex_env_def)
  have r2: "history_run rat_decimal rs_redis (h1\<lparr>hs_store := w_store w'\<rparr>)"
    by (rule history_run.record_txn [OF r1 ex_env_ok(1) rc(2,3,1), of "w_redis ex_world" w' "Inr t'"]) (use R s in simp)
  have e: "effective_date ex_overdraw = 5" by (simp add: effective_date_def ex_overdraw_def ex_txn_def zero_Transaction_def)
  note ap = RecordTransaction_appends [OF _ ex_env_ok(1) R]
  have "find_balance ''bln_a'' (w_store w') \<noteq> None" using ap ok f by simp
  moreover have "\<exists>t \<in> set (st_transactions (w_store w')). effective_date t < 6"
    using ap ok e ne by (auto simp: ex_fresh_def ex_store_def)
  moreover have "\<exists>sn \<in> set (hs_snapshots h1). sn_SnapshotTime sn = 6" using ex_snapshot_taken T by simp
  ultimately show ?thesis using that [OF r2] by force
qed





end
