(* ===== verification/PositionTable.thy ===== *)
theory PositionTable
  imports Positions
begin

text \<open>
  The persistence of the brokerage component (\<open>database/brokerage.go\<close>): positions are the rows of
  \<open>blnk.balances\<close> with an account reference (a NULL text column is the empty string), and lots,
  venue holidays, instrument settings and the settlement journal have tables of their own. As
  in the ledger tables, \<open>F\<close> says which labelled driver calls fail; the ids and the time a
  statement uses are arguments. The unique index \<open>idx_balances_position_key\<close> makes an insert of
  an existing position do nothing. The identity table is not part of the model: that the
  server refuses an unknown identity is the label \<open>identity_fk\<close>.
\<close>

record BalanceLot =
  l_ID :: int
  l_LotID :: string
  l_BalanceID :: string
  l_Instrument :: string
  l_Quantity :: "int option"
  l_Precision :: int
  l_Price :: string
  l_Currency :: string
  l_Reference :: string
  l_PurchasedAt :: int
  l_CreatedAt :: int

record MarketHoliday =
  h_ID :: int
  h_Venue :: string
  h_HolidayDate :: int
  h_Description :: string
  h_CreatedAt :: int

record InstrumentSettings =
  s_ID :: int
  s_Instrument :: string
  s_Venue :: string
  s_TradesOnTheWay :: bool
  s_SettleOffset :: int
  s_MinOrderQuantity :: string
  s_MaxOrderQuantity :: string
  s_CreatedAt :: int
  s_UpdatedAt :: int

record SettlementJournalEntry =
  j_SecurityTxnID :: string
  j_TradeRef :: string
  j_SpotBalanceID :: string
  j_Instrument :: string
  j_Side :: string
  j_WABefore :: string
  j_QtyBefore :: string
  j_Price :: string
  j_Quantity :: string
  j_Precision :: int
  j_Currency :: string
  j_WAAfter :: string
  j_LotID :: string
  j_Status :: string
  j_CreatedAt :: int
  j_UpdatedAt :: int

record tables =
  tb_lots :: "BalanceLot list"
  tb_holidays :: "MarketHoliday list"
  tb_settings :: "InstrumentSettings list"
  tb_journal :: "SettlementJournalEntry list"

text \<open>
  A literal stored in a \<open>NUMERIC\<close> column and read back with \<open>::text\<close>: the value, with the
  decimals of the literal, or with the scale \<open>k\<close> of a \<open>NUMERIC(34, k)\<close> column (rounded half away
  from zero, refused when it does not fit). \<open>BIGINT\<close> columns refuse what does not fit 64 bits.
\<close>

definition numeric_text :: "nat \<Rightarrow> rat \<Rightarrow> string" where
  "numeric_text k v = (if v < 0 then ''-'' else []) @ show_scaled (nat \<lfloor>\<bar>v\<bar> * 10 ^ k\<rfloor>) k"

definition literal_decimals :: "string \<Rightarrow> nat" where
  "literal_decimals s = (case split_point s of (_, None) \<Rightarrow> 0 | (_, Some f) \<Rightarrow> length f)"

definition numeric_col :: "string \<Rightarrow> string option" where
  "numeric_col s = map_option (numeric_text (literal_decimals s)) (parse_decimal s)"

definition numeric_scaled :: "nat \<Rightarrow> string \<Rightarrow> string option" where
  "numeric_scaled k s =
     (case parse_decimal s of
        None \<Rightarrow> None
      | Some v \<Rightarrow> let r = round_places round_half_away k v
                  in if \<bar>r\<bar> < 10 ^ (34 - k) then Some (numeric_text k r) else None)"

text \<open>\<open>NULLIF(s, '')::numeric\<close>: the outer option is the failed cast.\<close>

definition nullable_numeric :: "string \<Rightarrow> string option" where
  "nullable_numeric s = (if s = [] then Some [] else numeric_col s)"

definition fits_bigint :: "int \<Rightarrow> bool" where
  "fits_bigint n \<longleftrightarrow> - (2 ^ 63) \<le> n \<and> n < 2 ^ 63"

subsection \<open>Positions\<close>

definition date_col :: "int option \<Rightarrow> int" where
  "date_col d = (case d of None \<Rightarrow> 0 | Some x \<Rightarrow> x)"

definition same_dims :: "string \<Rightarrow> string \<Rightarrow> string \<Rightarrow> string \<Rightarrow> string \<Rightarrow> Balance \<Rightarrow> bool" where
  "same_dims ledgerID identityID accountRef instrument currency b \<longleftrightarrow>
     b_LedgerID b = ledgerID \<and> b_IdentityID b = identityID \<and> b_AccountRef b = accountRef \<and> b_AccountRef b \<noteq> [] \<and>
     b_Instrument b = instrument \<and> b_Currency b = currency"

definition positionKeyPredicate :: "PositionKey \<Rightarrow> Balance \<Rightarrow> bool" where
  "positionKeyPredicate k b \<longleftrightarrow>
     same_dims (k_LedgerID k) (k_IdentityID k) (k_AccountRef k) (k_Instrument k) (k_Currency k) b \<and>
     date_col (b_SettleDate b) = date_col (k_SettleDate k)"

text \<open>The struct of \<open>scanPositionRow\<close>: the columns of \<open>positionSelectColumns\<close>.\<close>

definition scanPositionRow :: "Balance \<Rightarrow> Balance" where
  "scanPositionRow b = b\<lparr>b_Indicator := [], b_TrackFundLineage := False, b_AllocationStrategy := [],
     b_QueuedDebitBalance := None, b_QueuedCreditBalance := None\<rparr>"

definition GetPosition :: "faults \<Rightarrow> PositionKey \<Rightarrow> store \<Rightarrow> Balance res" where
  "GetPosition F k s =
     (if F (''GetPosition:'' @ LockKey k) then Inl (internal ''Failed to scan position'')
      else case find (positionKeyPredicate k) (st_balances s) of
             None \<Rightarrow> Inl (APIError ErrNotFound (''Position not found for key '' @ quoted (LockKey k)))
           | Some b \<Rightarrow> Inr (scanPositionRow b))"

fun is_not_found :: "error \<Rightarrow> bool" where
  "is_not_found (APIError ErrNotFound m) = True"
| "is_not_found _ = False"

text \<open>\<open>INSERT INTO blnk.balances ... ON CONFLICT DO NOTHING\<close>; \<open>Inl True\<close> is a foreign key violation.\<close>

definition new_position :: "string \<Rightarrow> int \<Rightarrow> PositionKey \<Rightarrow> Balance" where
  "new_position bid now k = zero_Balance\<lparr>b_BalanceID := bid, b_Balance := Some 0, b_CreditBalance := Some 0,
     b_DebitBalance := Some 0, b_InflightBalance := Some 0, b_InflightCreditBalance := Some 0,
     b_InflightDebitBalance := Some 0, b_Version := 1, b_Currency := k_Currency k, b_LedgerID := k_LedgerID k,
     b_IdentityID := k_IdentityID k, b_CreatedAt := now, b_AllocationStrategy := ''FIFO'',
     b_AccountRef := k_AccountRef k, b_Instrument := k_Instrument k, b_SettleDate := k_SettleDate k,
     b_SettleCode := k_SettleCode k\<rparr>"

definition insert_position :: "faults \<Rightarrow> string \<Rightarrow> string \<Rightarrow> int \<Rightarrow> PositionKey \<Rightarrow> store \<Rightarrow> bool + store" where
  "insert_position F call bid now k s =
     (if F call then Inl False
      else if bid \<in> b_BalanceID ` set (st_balances s) \<or> list_ex (positionKeyPredicate k) (st_balances s) then Inr s
      else if k_LedgerID k \<notin> set (st_ledgers s) \<or> k_IdentityID k \<noteq> [] \<and> F (''identity_fk:'' @ k_IdentityID k)
        then Inl True
      else Inr (s\<lparr>st_balances := st_balances s @ [new_position bid now k]\<rparr>))"

definition FindOrCreatePosition :: "faults \<Rightarrow> string \<Rightarrow> int \<Rightarrow> PositionKey \<Rightarrow> store \<Rightarrow> store \<times> Balance res" where
  "FindOrCreatePosition F bid now k s =
     (case PositionKey_Validate k of
        Inl e \<Rightarrow> (s, Inl (APIError ErrBadRequest (err_msg e)))
      | Inr _ \<Rightarrow>
          (case GetPosition F k s of
             Inr b \<Rightarrow> (s, Inr b)
           | Inl e \<Rightarrow>
               if \<not> is_not_found e then (s, Inl e)
               else case insert_position F ''FindOrCreatePosition'' bid now k s of
                      Inl True \<Rightarrow> (s, Inl (APIError ErrBadRequest ''Invalid ledger ID''))
                    | Inl False \<Rightarrow> (s, Inl (internal ''Failed to create position''))
                    | Inr s' \<Rightarrow> (s', GetPosition F k s')))"

definition GetPositionByID :: "faults \<Rightarrow> string \<Rightarrow> store \<Rightarrow> Balance res" where
  "GetPositionByID F bid s =
     (if F (''GetPositionByID:'' @ bid) then Inl (internal ''Failed to scan position'')
      else case find_balance bid s of
             None \<Rightarrow> Inl (not_found_balance bid)
           | Some b \<Rightarrow> Inr (scanPositionRow b))"

text \<open>
  The settle cascade: \<open>ORDER BY settle_date DESC NULLS LAST LIMIT 1\<close> over the rows that settle by
  the given date and the spot row.
\<close>

definition GetActivePosition ::
    "faults \<Rightarrow> string \<Rightarrow> string \<Rightarrow> string \<Rightarrow> string \<Rightarrow> string \<Rightarrow> int option \<Rightarrow> store \<Rightarrow> Balance res" where
  "GetActivePosition F ledgerID identityID accountRef instrument currency maxSettleDate s =
     (let rows = filter (same_dims ledgerID identityID accountRef instrument currency) (st_balances s);
          spot = filter (\<lambda>b. b_SettleDate b = None) rows;
          future = (case maxSettleDate of
                      None \<Rightarrow> []
                    | Some m \<Rightarrow> filter (\<lambda>b. b_SettleDate b \<noteq> None \<and> date_col (b_SettleDate b) \<le> m) rows)
      in if F ''GetActivePosition'' then Inl (internal ''Failed to scan active position'')
         else case sort_key (\<lambda>b. - date_col (b_SettleDate b)) future @ spot of
                [] \<Rightarrow> Inl (APIError ErrNotFound ''No active position found for the requested dimensions'')
              | b # _ \<Rightarrow> Inr (scanPositionRow b))"

definition GetMaturedPositions :: "faults \<Rightarrow> int \<Rightarrow> nat \<Rightarrow> store \<Rightarrow> Balance list res" where
  "GetMaturedPositions F asOf limit s =
     (if F ''GetMaturedPositions'' then Inl (internal ''Failed to query matured positions'')
      else if F ''GetMaturedPositions.Scan'' then Inl (internal ''Failed to scan matured position'')
      else if F ''GetMaturedPositions.Rows'' then Inl (internal ''Failed to iterate matured positions'')
      else Inr (map scanPositionRow (take limit (sort_key (\<lambda>b. date_col (b_SettleDate b))
             (filter (\<lambda>b. b_AccountRef b \<noteq> [] \<and> b_SettleDate b \<noteq> None \<and> date_col (b_SettleDate b) \<le> asOf \<and>
                (bal b \<noteq> 0 \<or> icr b \<noteq> 0 \<or> idr b \<noteq> 0)) (st_balances s))))))"

definition SumFutureHolds ::
    "faults \<Rightarrow> string \<Rightarrow> string \<Rightarrow> string \<Rightarrow> string \<Rightarrow> string \<Rightarrow> int \<Rightarrow> store \<Rightarrow> (int \<times> int) res" where
  "SumFutureHolds F ledgerID identityID accountRef instrument currency asOf s =
     (let rows = filter (\<lambda>b. same_dims ledgerID identityID accountRef instrument currency b \<and>
                   b_SettleDate b \<noteq> None \<and> date_col (b_SettleDate b) \<le> asOf) (st_balances s)
      in if F ''SumFutureHolds'' then Inl (internal ''Failed to sum future holds'')
         else Inr (sum_list (map (\<lambda>b. icr b) rows), sum_list (map (\<lambda>b. idr b) rows)))"

subsection \<open>Deltas\<close>

text \<open>The mutable fields of \<open>lockPositionRow\<close>; in one database transaction the lock is the row itself.\<close>

definition lockPositionRow :: "faults \<Rightarrow> PositionKey \<Rightarrow> store \<Rightarrow> (string \<times> int \<times> int \<times> int \<times> int) res" where
  "lockPositionRow F k s =
     (if F (''lockPositionRow:'' @ LockKey k) then Inl (Errorf ''sql: query failed'')
      else case find (positionKeyPredicate k) (st_balances s) of
             None \<Rightarrow> Inl SqlErrNoRows
           | Some b \<Rightarrow> Inr (b_BalanceID b, cr b, dr b, icr b, idr b))"

definition apply_amounts :: "BalanceDelta \<Rightarrow> int \<times> int \<times> int \<times> int \<Rightarrow> int \<times> int \<times> int \<times> int" where
  "apply_amounts d x =
     (case x of (credit, debit, inflightCredit, inflightDebit) \<Rightarrow>
        (if 0 < or0 (dl_Amount d) then credit + or0 (dl_Amount d) else credit,
         if or0 (dl_Amount d) < 0 then debit - or0 (dl_Amount d) else debit,
         inflightCredit + or0 (dl_Waiting d), inflightDebit + or0 (dl_Blocked d)))"

definition write_amounts :: "int \<times> int \<times> int \<times> int \<Rightarrow> Balance \<Rightarrow> Balance" where
  "write_amounts x b =
     (case x of (credit, debit, inflightCredit, inflightDebit) \<Rightarrow>
        b\<lparr>b_Balance := Some (credit - debit), b_CreditBalance := Some credit, b_DebitBalance := Some debit,
          b_InflightBalance := Some (inflightCredit - inflightDebit), b_InflightCreditBalance := Some inflightCredit,
          b_InflightDebitBalance := Some inflightDebit, b_Version := b_Version b + 1\<rparr>)"

text \<open>Locking the row, after creating the position when there is none.\<close>

definition lock_or_create :: "faults \<Rightarrow> string \<Rightarrow> int \<Rightarrow> PositionKey \<Rightarrow> store \<Rightarrow> (store \<times> string \<times> int \<times> int \<times> int \<times> int) res" where
  "lock_or_create F bid now k s =
     (case lockPositionRow F k s of
        Inr row \<Rightarrow> Inr (s, row)
      | Inl e \<Rightarrow>
          if e = SqlErrNoRows then
            (case insert_position F ''applyOneDelta.insert'' bid now k s of
               Inl _ \<Rightarrow> Inl (internal ''Failed to create position for mutation'')
             | Inr s1 \<Rightarrow>
                 (case lockPositionRow F k s1 of
                    Inl _ \<Rightarrow> Inl (internal (''Failed to lock position '' @ quoted (LockKey k)))
                  | Inr row \<Rightarrow> Inr (s1, row)))
          else Inl (internal (''Failed to lock position '' @ quoted (LockKey k))))"

definition applyOneDelta :: "faults \<Rightarrow> string \<Rightarrow> int \<Rightarrow> BalanceDelta \<Rightarrow> store \<Rightarrow> store res" where
  "applyOneDelta F bid now d s =
     (case lock_or_create F bid now (dl_Key d) s of
        Inl e \<Rightarrow> Inl e
      | Inr (s1, rid, amounts) \<Rightarrow>
          (case apply_amounts d amounts of (credit, debit, inflightCredit, inflightDebit) \<Rightarrow>
             if inflightDebit < 0 \<or> inflightCredit < 0 then
               Inl (APIError ErrBadRequest (''Mutation would drive holds negative for position '' @ quoted (LockKey (dl_Key d))))
             else if F (''applyOneDelta.update:'' @ LockKey (dl_Key d)) then
               Inl (internal (''Failed to update position '' @ quoted (LockKey (dl_Key d))))
             else Inr (s1\<lparr>st_balances :=
                    map (\<lambda>b. if b_BalanceID b = rid
                             then write_amounts (credit, debit, inflightCredit, inflightDebit) b else b) (st_balances s1)\<rparr>)))"

text \<open>The fresh ids of a pass are numbered by the rows of the table they join.\<close>

fun apply_deltas :: "faults \<Rightarrow> (nat \<Rightarrow> string) \<Rightarrow> int \<Rightarrow> BalanceDelta list \<Rightarrow> store \<Rightarrow> store res" where
  "apply_deltas F ids now [] s = Inr s"
| "apply_deltas F ids now (d # ds) s =
     (case applyOneDelta F (ids (length (st_balances s))) now d s of
        Inl e \<Rightarrow> Inl e
      | Inr s' \<Rightarrow> apply_deltas F ids now ds s')"

definition ApplyBalanceDeltas :: "faults \<Rightarrow> (nat \<Rightarrow> string) \<Rightarrow> int \<Rightarrow> BalanceDelta list \<Rightarrow> store \<Rightarrow> store \<times> unit res" where
  "ApplyBalanceDeltas F ids now ds s =
     (if ds = [] then (s, Inr ())
      else if F ''ApplyBalanceDeltas.Begin'' then (s, Inl (internal ''Failed to begin mutation transaction''))
      else case apply_deltas F ids now ds s of
             Inl e \<Rightarrow> (s, Inl e)
           | Inr s' \<Rightarrow> if F ''ApplyBalanceDeltas.Commit'' then (s, Inl (internal ''Failed to commit mutation transaction''))
                       else (s', Inr ()))"

subsection \<open>Holds and pending legs\<close>

definition void_child :: "Transaction \<Rightarrow> store \<Rightarrow> bool" where
  "void_child t s \<longleftrightarrow> (\<exists>v \<in> set (st_transactions s). t_ParentTransaction v = t_TransactionID t \<and> t_Status v = StatusVoid)"

definition live_hold :: "string \<Rightarrow> store \<Rightarrow> Transaction \<Rightarrow> bool" where
  "live_hold bid s t \<longleftrightarrow> t_Status t = StatusInflight \<and> (t_Source t = bid \<or> t_Destination t = bid) \<and> \<not> void_child t s"

definition remaining_hold :: "store \<Rightarrow> Transaction \<Rightarrow> int" where
  "remaining_hold s t = max (or0 (t_PreciseAmount t) - total_committed (t_TransactionID t) s) 0"

definition live_holds :: "string \<Rightarrow> store \<Rightarrow> int \<times> int" where
  "live_holds bid s =
     (let live = filter (live_hold bid s) (st_transactions s)
      in (sum_list (map (\<lambda>t. if t_Source t = bid then remaining_hold s t else 0) live),
          sum_list (map (\<lambda>t. if t_Destination t = bid then remaining_hold s t else 0) live)))"

definition RecomputeHolds :: "faults \<Rightarrow> string \<Rightarrow> store \<Rightarrow> store \<times> (int \<times> int) res" where
  "RecomputeHolds F bid s =
     (if F ''RecomputeHolds.Begin'' then (s, Inl (internal ''Failed to begin holds transaction''))
      else if F (''RecomputeHolds.Lock:'' @ bid) then (s, Inl (internal ''Failed to lock balance''))
      else case find_balance bid s of
             None \<Rightarrow> (s, Inl (not_found_balance bid))
           | Some b \<Rightarrow>
               if F (''RecomputeHolds.Query:'' @ bid) then (s, Inl (internal ''Failed to recompute holds''))
               else case live_holds bid s of (inflightDebit, inflightCredit) \<Rightarrow>
                 if F (''RecomputeHolds.Update:'' @ bid) then (s, Inl (internal ''Failed to write recomputed holds''))
                 else if F (''RecomputeHolds.Commit:'' @ bid) then (s, Inl (internal ''Failed to commit recomputed holds''))
                 else (put_balance (b\<lparr>b_InflightBalance := Some (inflightCredit - inflightDebit),
                         b_InflightCreditBalance := Some inflightCredit, b_InflightDebitBalance := Some inflightDebit,
                         b_Version := b_Version b + 1\<rparr>) s, Inr (inflightDebit, inflightCredit)))"

text \<open>The columns the pending queries select; \<open>ORDER BY created_at\<close> on rows in insertion order.\<close>

definition pending_struct :: "Transaction \<Rightarrow> Transaction" where
  "pending_struct t = t\<lparr>t_Hash := [], t_EffectiveDate := None, t_ScheduledFor := 0\<rparr>"

definition pending_leg :: "store \<Rightarrow> Transaction \<Rightarrow> bool" where
  "pending_leg s t \<longleftrightarrow> t_Status t = StatusInflight \<and> \<not> void_child t s \<and>
     total_committed (t_TransactionID t) s < or0 (t_PreciseAmount t)"

definition GetPendingInflightByDestination :: "faults \<Rightarrow> string \<Rightarrow> store \<Rightarrow> Transaction list res" where
  "GetPendingInflightByDestination F bid s =
     (if F ''GetPendingInflight'' then Inl (internal ''Failed to query pending inflight transactions'')
      else if F ''GetPendingInflight.Scan'' then Inl (internal ''Failed to scan pending inflight transaction'')
      else if F ''GetPendingInflight.Rows'' then Inl (internal ''Failed to iterate pending inflight transactions'')
      else Inr (map pending_struct (sort_key t_CreatedAt
             (filter (\<lambda>t. t_Destination t = bid \<and> pending_leg s t) (st_transactions s)))))"

definition GetPendingInflightByBalance :: "faults \<Rightarrow> string \<Rightarrow> store \<Rightarrow> Transaction list res" where
  "GetPendingInflightByBalance F bid s =
     (if F ''GetPendingInflight'' then Inl (internal ''Failed to query pending inflight transactions'')
      else if F ''GetPendingInflight.Scan'' then Inl (internal ''Failed to scan pending inflight transaction'')
      else if F ''GetPendingInflight.Rows'' then Inl (internal ''Failed to iterate pending inflight transactions'')
      else Inr (map pending_struct (sort_key t_CreatedAt
             (filter (\<lambda>t. (t_Source t = bid \<or> t_Destination t = bid) \<and> pending_leg s t) (st_transactions s)))))"

subsection \<open>Prices, lots, settings and holidays\<close>

definition UpdateWAPrice :: "faults \<Rightarrow> string \<Rightarrow> string \<Rightarrow> store \<Rightarrow> store \<times> unit res" where
  "UpdateWAPrice F bid waPrice s =
     (case (if F ''UpdateWAPrice'' then None else numeric_scaled 2 waPrice) of
        None \<Rightarrow> (s, Inl (internal ''Failed to update wa price''))
      | Some p \<Rightarrow>
          (case find_balance bid s of
             None \<Rightarrow> if F ''UpdateWAPrice.RowsAffected'' then (s, Inr ()) else (s, Inl (not_found_balance bid))
           | Some b \<Rightarrow> (put_balance (b\<lparr>b_WAPrice := p, b_Version := b_Version b + 1\<rparr>) s, Inr ())))"

definition insert_lot :: "string \<Rightarrow> BalanceLot \<Rightarrow> store \<Rightarrow> tables \<Rightarrow> tables option" where
  "insert_lot lotID lot s T =
     (case numeric_scaled 8 (l_Price lot) of
        None \<Rightarrow> None
      | Some p \<Rightarrow>
          if lotID \<in> l_LotID ` set (tb_lots T) \<or> \<not> fits_bigint (or0 (l_Quantity lot)) then None
          else Some (T\<lparr>tb_lots := tb_lots T @ [lot\<lparr>l_ID := int (length (tb_lots T)) + 1, l_LotID := lotID, l_Price := p\<rparr>]\<rparr>))"

definition lot_conflict :: "BalanceLot \<Rightarrow> BalanceLot \<Rightarrow> bool" where
  "lot_conflict lot r \<longleftrightarrow> l_Reference lot \<noteq> [] \<and> l_BalanceID r = l_BalanceID lot \<and> l_Reference r = l_Reference lot"

definition CreateLot :: "faults \<Rightarrow> string \<Rightarrow> int \<Rightarrow> BalanceLot \<Rightarrow> store \<Rightarrow> tables \<Rightarrow> tables \<times> BalanceLot res" where
  "CreateLot F lotID now lot0 s T =
     (if or0 (l_Quantity lot0) \<le> 0 then (T, Inl (APIError ErrBadRequest ''Lot quantity must be positive''))
      else let lot = lot0\<lparr>l_Precision := (if l_Precision lot0 < 1 then 1 else l_Precision lot0), l_LotID := lotID,
                        l_CreatedAt := now, l_PurchasedAt := (if l_PurchasedAt lot0 = 0 then now else l_PurchasedAt lot0)\<rparr>
           in if F ''CreateLot'' then (T, Inl (internal ''Failed to create lot''))
              else if list_ex (lot_conflict lot) (tb_lots T) then (T, Inl (internal ''Failed to create lot''))
              else if find_balance (l_BalanceID lot) s = None then (T, Inl (APIError ErrBadRequest ''Invalid balance ID''))
              else case insert_lot lotID lot s T of
                     None \<Rightarrow> (T, Inl (internal ''Failed to create lot''))
                   | Some T' \<Rightarrow> (T', Inr (lot\<lparr>l_ID := int (length (tb_lots T)) + 1\<rparr>)))"

definition GetLots :: "faults \<Rightarrow> string \<Rightarrow> tables \<Rightarrow> BalanceLot list res" where
  "GetLots F bid T =
     (if F ''GetLots'' then Inl (internal ''Failed to query lots'')
      else if F ''GetLots.Scan'' then Inl (internal ''Failed to scan lot'')
      else if F ''GetLots.Rows'' then Inl (internal ''Failed to iterate lots'')
      else Inr (sort_key l_PurchasedAt (sort_key l_ID (filter (\<lambda>l. l_BalanceID l = bid) (tb_lots T)))))"

text \<open>
  The upsert of the settings keeps the id and the creation time of an existing row. The order
  limits are nullable numerics; a settle offset beyond the \<open>INT\<close> column is refused.
\<close>

definition UpsertInstrumentSettings ::
    "faults \<Rightarrow> int \<Rightarrow> InstrumentSettings \<Rightarrow> tables \<Rightarrow> tables \<times> InstrumentSettings res" where
  "UpsertInstrumentSettings F now x T =
     (if s_Instrument x = [] then (T, Inl (APIError ErrBadRequest ''Instrument is required''))
      else if s_SettleOffset x < 0 then (T, Inl (APIError ErrBadRequest ''settle_offset must be >= 0''))
      else case (nullable_numeric (s_MinOrderQuantity x), nullable_numeric (s_MaxOrderQuantity x)) of
        (Some lo, Some hi) \<Rightarrow>
          if F ''UpsertInstrumentSettings'' \<or> 2 ^ 31 \<le> s_SettleOffset x then
            (T, Inl (internal ''Failed to upsert instrument settings''))
          else let old = find_row s_Instrument (s_Instrument x) (tb_settings T);
                   row = x\<lparr>s_ID := (case old of None \<Rightarrow> int (length (tb_settings T)) + 1 | Some r \<Rightarrow> s_ID r),
                         s_CreatedAt := (case old of None \<Rightarrow> now | Some r \<Rightarrow> s_CreatedAt r), s_UpdatedAt := now\<rparr>;
                   stored = row\<lparr>s_MinOrderQuantity := lo, s_MaxOrderQuantity := hi\<rparr>
               in (T\<lparr>tb_settings := (if old = None then tb_settings T @ [stored] else set_row s_Instrument stored (tb_settings T))\<rparr>,
                   Inr row)
      | _ \<Rightarrow> (T, Inl (internal ''Failed to upsert instrument settings'')))"

definition GetInstrumentSettings :: "faults \<Rightarrow> string \<Rightarrow> tables \<Rightarrow> InstrumentSettings res" where
  "GetInstrumentSettings F instrument T =
     (if F ''GetInstrumentSettings'' then Inl (internal ''Failed to scan instrument settings'')
      else case find_row s_Instrument instrument (tb_settings T) of
             None \<Rightarrow> Inl (APIError ErrNotFound (''No settings configured for instrument '' @ quoted instrument))
           | Some x \<Rightarrow> Inr x)"

definition CreateHoliday :: "faults \<Rightarrow> int \<Rightarrow> MarketHoliday \<Rightarrow> tables \<Rightarrow> tables \<times> MarketHoliday res" where
  "CreateHoliday F now h T =
     (if h_Venue h = [] then (T, Inl (APIError ErrBadRequest ''Holiday venue is required''))
      else if F ''CreateHoliday'' then (T, Inl (internal ''Failed to create holiday''))
      else if \<exists>r \<in> set (tb_holidays T). h_Venue r = h_Venue h \<and> h_HolidayDate r = h_HolidayDate h then
        (T, Inl (APIError ErrConflict (''Holiday already exists for venue '' @ quoted (h_Venue h) @ '' on '' @
           format_date (h_HolidayDate h))))
      else let row = h\<lparr>h_CreatedAt := now, h_ID := int (length (tb_holidays T)) + 1\<rparr>
           in (T\<lparr>tb_holidays := tb_holidays T @ [row]\<rparr>, Inr row))"

definition GetHolidays :: "faults \<Rightarrow> string \<Rightarrow> int \<Rightarrow> int \<Rightarrow> tables \<Rightarrow> MarketHoliday list res" where
  "GetHolidays F venue from_day to_day T =
     (if F ''GetHolidays'' then Inl (internal ''Failed to query holidays'')
      else if F ''GetHolidays.Scan'' then Inl (internal ''Failed to scan holiday'')
      else if F ''GetHolidays.Rows'' then Inl (internal ''Failed to iterate holidays'')
      else Inr (sort_key h_HolidayDate (filter (\<lambda>h. h_Venue h = venue \<and> from_day \<le> h_HolidayDate h \<and>
             h_HolidayDate h \<le> to_day) (tb_holidays T))))"

subsection \<open>The settlement journal\<close>

abbreviation SettlementPending :: string where "SettlementPending \<equiv> ''pending''"
abbreviation SettlementApplied :: string where "SettlementApplied \<equiv> ''applied''"

definition GetSettlementJournal :: "faults \<Rightarrow> string \<Rightarrow> tables \<Rightarrow> SettlementJournalEntry res" where
  "GetSettlementJournal F tid T =
     (if F (''GetSettlementJournal:'' @ tid) then Inl (internal ''Failed to scan settlement journal'')
      else case find_row j_SecurityTxnID tid (tb_journal T) of
             None \<Rightarrow> Inl (APIError ErrNotFound (''No settlement journal for '' @ quoted tid))
           | Some e \<Rightarrow> Inr e)"

definition BeginSettlementJournal ::
    "faults \<Rightarrow> int \<Rightarrow> SettlementJournalEntry \<Rightarrow> tables \<Rightarrow> tables \<times> (SettlementJournalEntry \<times> bool) res" where
  "BeginSettlementJournal F now e T =
     (case (nullable_numeric (j_WABefore e), nullable_numeric (j_QtyBefore e), nullable_numeric (j_Price e),
            nullable_numeric (j_Quantity e)) of
        (Some wa, Some qty, Some price, Some quantity) \<Rightarrow>
          if F ''BeginSettlementJournal'' then (T, Inl (internal ''Failed to begin settlement journal''))
          else let old = find_row j_SecurityTxnID (j_SecurityTxnID e) (tb_journal T);
                   row = e\<lparr>j_WABefore := wa, j_QtyBefore := qty, j_Price := price, j_Quantity := quantity,
                         j_WAAfter := [], j_LotID := [], j_Status := SettlementPending, j_CreatedAt := now, j_UpdatedAt := now\<rparr>;
                   T1 = (if old = None then T\<lparr>tb_journal := tb_journal T @ [row]\<rparr> else T)
               in (case GetSettlementJournal F (j_SecurityTxnID e) T1 of
                     Inl err \<Rightarrow> (T1, Inl err)
                   | Inr r \<Rightarrow> (T1, Inr (r, old = None \<and> \<not> F ''BeginSettlementJournal.RowsAffected'')))
      | _ \<Rightarrow> (T, Inl (internal ''Failed to begin settlement journal'')))"

text \<open>
  One database transaction: the lot (idempotent on balance and reference), the price on the
  spot balance, and the journal row.
\<close>

definition upsert_lot :: "faults \<Rightarrow> string \<Rightarrow> int \<Rightarrow> BalanceLot \<Rightarrow> store \<Rightarrow> tables \<Rightarrow> (tables \<times> string) option" where
  "upsert_lot F lotID now lot0 s T =
     (if or0 (l_Quantity lot0) \<le> 0 then Some (T, [])
      else let lot = lot0\<lparr>l_Precision := (if l_Precision lot0 < 1 then 1 else l_Precision lot0),
                     l_PurchasedAt := (if l_PurchasedAt lot0 = 0 then now else l_PurchasedAt lot0), l_CreatedAt := now\<rparr>
           in if F ''CompleteSettlementJournal.Lot'' \<or> find_balance (l_BalanceID lot) s = None then None
              else case insert_lot lotID lot s T of
                     None \<Rightarrow> None
                   | Some T' \<Rightarrow> (case find (lot_conflict lot) (tb_lots T) of
                                    Some r \<Rightarrow> Some (T, l_LotID r)
                                  | None \<Rightarrow> Some (T', lotID)))"

definition CompleteSettlementJournal ::
    "faults \<Rightarrow> string \<Rightarrow> int \<Rightarrow> string \<Rightarrow> string \<Rightarrow> BalanceLot \<Rightarrow> store \<times> tables \<Rightarrow> (store \<times> tables) \<times> string res" where
  "CompleteSettlementJournal F lotID now tid waAfter lot sT =
     (case sT of (s, T) \<Rightarrow>
       if F ''CompleteSettlementJournal.Begin'' then (sT, Inl (internal ''Failed to begin journal completion''))
       else case upsert_lot F lotID now lot s T of
         None \<Rightarrow> (sT, Inl (internal ''Failed to upsert lot''))
       | Some (T1, lid) \<Rightarrow>
           (case (if waAfter = [] then Some s
                  else if F ''CompleteSettlementJournal.WA'' then None
                  else case numeric_scaled 2 waAfter of
                         None \<Rightarrow> None
                       | Some p \<Rightarrow> (case find_balance (l_BalanceID lot) s of
                                       None \<Rightarrow> Some s
                                     | Some b \<Rightarrow> Some (put_balance (b\<lparr>b_WAPrice := p, b_Version := b_Version b + 1\<rparr>) s))) of
              None \<Rightarrow> (sT, Inl (internal ''Failed to update wa price''))
            | Some s1 \<Rightarrow>
                (case (if F ''CompleteSettlementJournal.Mark'' then None else nullable_numeric waAfter) of
                   None \<Rightarrow> (sT, Inl (internal ''Failed to mark journal applied''))
                 | Some wa \<Rightarrow>
                     if F ''CompleteSettlementJournal.Commit'' then (sT, Inl (internal ''Failed to commit journal completion''))
                     else ((s1, T1\<lparr>tb_journal := map (\<lambda>e. if j_SecurityTxnID e = tid
                                then e\<lparr>j_Status := SettlementApplied, j_WAAfter := wa, j_LotID := lid, j_UpdatedAt := now\<rparr> else e)
                              (tb_journal T1)\<rparr>), Inr lid))))"

definition ListPendingSettlementJournals :: "faults \<Rightarrow> nat \<Rightarrow> tables \<Rightarrow> SettlementJournalEntry list res" where
  "ListPendingSettlementJournals F limit T =
     (if F ''ListPendingSettlementJournals'' then Inl (internal ''Failed to query pending journals'')
      else if F ''ListPendingSettlementJournals.Scan'' then Inl (internal ''Failed to scan pending journal'')
      else if F ''ListPendingSettlementJournals.Rows'' then Inl (internal ''Failed to iterate pending journals'')
      else Inr (take limit (sort_key j_CreatedAt (filter (\<lambda>e. j_Status e = SettlementPending) (tb_journal T)))))"


section \<open>Facts\<close>

subsection \<open>The identity of a position\<close>

type_synonym position_id = "string \<times> string \<times> string \<times> string \<times> string \<times> int"

definition key_id :: "PositionKey \<Rightarrow> position_id" where
  "key_id k = (k_LedgerID k, k_IdentityID k, k_AccountRef k, k_Instrument k, k_Currency k, date_col (k_SettleDate k))"

definition row_id :: "Balance \<Rightarrow> position_id" where
  "row_id b = (b_LedgerID b, b_IdentityID b, b_AccountRef b, b_Instrument b, b_Currency b, date_col (b_SettleDate b))"

definition is_position :: "Balance \<Rightarrow> bool" where
  "is_position b \<longleftrightarrow> b_AccountRef b \<noteq> []"

lemma predicate_iff: "positionKeyPredicate k b \<longleftrightarrow> is_position b \<and> row_id b = key_id k"
  by (auto simp: positionKeyPredicate_def same_dims_def is_position_def row_id_def key_id_def)

text \<open>The invariant of the unique index.\<close>

definition positions_unique :: "store \<Rightarrow> bool" where
  "positions_unique s \<longleftrightarrow> distinct (map row_id (filter is_position (st_balances s)))"

text \<open>Keys whose lock key identifies the row: no separator in a field, no date before 1970.\<close>

definition key_plain :: "PositionKey \<Rightarrow> bool" where
  "key_plain k \<longleftrightarrow> CHR ''|'' \<notin> set (k_LedgerID k) \<union> set (k_IdentityID k) \<union> set (k_AccountRef k) \<union>
     set (k_Instrument k) \<union> set (k_Currency k) \<and> 0 \<le> date_col (k_SettleDate k)"

lemma settleDateKey_date: "settleDateKey k = format_date (date_col (k_SettleDate k))"
  by (simp add: settleDateKey_def date_col_def example_dates SpotSettleDateSentinel_def split: option.splits)

lemma lock_key_iff:
  assumes "key_plain k" "key_plain k'"
  shows "LockKey k = LockKey k' \<longleftrightarrow> key_id k = key_id k'"
proof
  let ?fs = "\<lambda>k. [''brokerage'', k_LedgerID k, k_IdentityID k, k_AccountRef k, k_Instrument k, k_Currency k, settleDateKey k]"
  assume "LockKey k = LockKey k'"
  then have "?fs k = ?fs k'"
    using assms settleDateKey_no_pipe
    by (intro str_join_inj [where c = "CHR ''|''"]) (auto simp: key_plain_def LockKey_def)
  then show "key_id k = key_id k'"
    using assms format_date_inj [of "date_col (k_SettleDate k)" "date_col (k_SettleDate k')"]
    by (simp add: key_id_def key_plain_def settleDateKey_date)
qed (simp add: key_id_def LockKey_def settleDateKey_date)

subsection \<open>The abstract view of the positions\<close>

text \<open>
  A client of the positions sees, for every identity, the settled amount, the blocked amount
  and the amount waited for; a position that is not stored is all zero.
\<close>

definition find_position :: "position_id \<Rightarrow> store \<Rightarrow> Balance option" where
  "find_position i s = find (\<lambda>b. is_position b \<and> row_id b = i) (st_balances s)"

definition position_of :: "Balance option \<Rightarrow> int \<times> int \<times> int" where
  "position_of r = (case r of None \<Rightarrow> (0, 0, 0) | Some b \<Rightarrow> (net b, idr b, icr b))"

definition abs_positions :: "store \<Rightarrow> position_id \<Rightarrow> int \<times> int \<times> int" where
  "abs_positions s i = position_of (find_position i s)"

definition add3 :: "int \<times> int \<times> int \<Rightarrow> int \<times> int \<times> int \<Rightarrow> int \<times> int \<times> int" where
  "add3 x y = (fst x + fst y, fst (snd x) + fst (snd y), snd (snd x) + snd (snd y))"

definition delta_at :: "BalanceDelta \<Rightarrow> position_id \<Rightarrow> int \<times> int \<times> int" where
  "delta_at d i = (if key_id (dl_Key d) = i then (or0 (dl_Amount d), or0 (dl_Blocked d), or0 (dl_Waiting d)) else (0, 0, 0))"

lemma find_predicate: "find (positionKeyPredicate k) (st_balances s) = find_position (key_id k) s"
  unfolding find_position_def predicate_iff [abs_def] ..

lemma find_map_same:
  "(\<And>x. x \<in> set xs \<Longrightarrow> P (f x) \<longleftrightarrow> P x) \<Longrightarrow> find P (map f xs) = map_option f (find P xs)"
  by (induction xs) auto

lemma find_append: "find P (xs @ ys) = (case find P xs of None \<Rightarrow> find P ys | Some x \<Rightarrow> Some x)"
  by (induction xs) auto

lemma write_amounts_keeps [simp]:
  "b_BalanceID (write_amounts x b) = b_BalanceID b" "is_position (write_amounts x b) = is_position b"
  "row_id (write_amounts x b) = row_id b"
  by (simp_all add: write_amounts_def is_position_def row_id_def split: prod.splits)

lemma find_position_write:
  assumes "distinct (map b_BalanceID (st_balances s))" "find_position i s = Some r"
  shows "find_position j (s\<lparr>st_balances := map (\<lambda>b. if b_BalanceID b = b_BalanceID r then write_amounts x b else b) (st_balances s)\<rparr>) =
    (if j = i then Some (write_amounts x r) else find_position j s)"
proof -
  let ?f = "\<lambda>b. if b_BalanceID b = b_BalanceID r then write_amounts x b else b"
  have eq: "find_position j (s\<lparr>st_balances := map ?f (st_balances s)\<rparr>) = map_option ?f (find_position j s)"
    unfolding find_position_def by (simp, rule find_map_same) auto
  have r: "r \<in> set (st_balances s)" "row_id r = i"
    using assms(2) by (auto simp: find_position_def find_Some_iff in_set_conv_nth)
  show ?thesis
  proof (cases "j = i")
    case False
    have "?f b = b" if "find_position j s = Some b" for b
    proof -
      have "b \<in> set (st_balances s)" "row_id b = j"
        using that by (auto simp: find_position_def find_Some_iff in_set_conv_nth)
      with r False assms(1) have "b_BalanceID b \<noteq> b_BalanceID r" by (metis inj_onD distinct_map)
      then show ?thesis by simp
    qed
    then show ?thesis using False by (cases "find_position j s") (simp_all only: eq option.map if_False)
  next
    case True
    have "find_position j (s\<lparr>st_balances := map ?f (st_balances s)\<rparr>) = Some (?f r)"
      unfolding eq using assms(2) True by (simp only: option.map)
    with True show ?thesis by (simp only: refl if_True)
  qed
qed

lemma find_position_new:
  assumes "k_AccountRef k \<noteq> []"
  shows "find_position i (s\<lparr>st_balances := st_balances s @ [new_position bid now k]\<rparr>) =
    (case find_position i s of Some b \<Rightarrow> Some b | None \<Rightarrow> if i = key_id k then Some (new_position bid now k) else None)"
  using assms by (auto simp: find_position_def find_append is_position_def row_id_def key_id_def new_position_def split: option.splits)


subsection \<open>One delta\<close>

definition positions_ok :: "store \<Rightarrow> bool" where
  "positions_ok s \<longleftrightarrow> store_ok s \<and> positions_unique s"

lemma new_position_ok: "bid \<noteq> [] \<Longrightarrow> row_ok (new_position bid now k)"
  by (simp add: row_ok_def new_position_def initialised_iff nil_numeric_def holds_ok_def consistent_def zero_Balance_def)

lemma write_amounts_ok:
  assumes "row_ok b" "0 \<le> ic" "0 \<le> ib"
  shows "row_ok (write_amounts (c, d, ic, ib) b)"
  using assms by (simp add: row_ok_def write_amounts_def initialised_iff nil_numeric_def holds_ok_def consistent_def)

text \<open>What \<open>applyOneDelta\<close> locked: the row of the key, in a table that gained at most that row.\<close>

definition locked_in :: "string \<Rightarrow> int \<Rightarrow> PositionKey \<Rightarrow> store \<Rightarrow> store \<Rightarrow> bool" where
  "locked_in bid now k s s1 \<longleftrightarrow> s1 = s \<or>
     (find_position (key_id k) s = None \<and> bid \<notin> b_BalanceID ` set (st_balances s) \<and>
      s1 = s\<lparr>st_balances := st_balances s @ [new_position bid now k]\<rparr>)"

lemma insert_position_locked:
  assumes "insert_position F call bid now k s = Inr s1"
  shows "locked_in bid now k s s1"
  using assms find_predicate [of k s]
  by (auto simp: insert_position_def locked_in_def list_ex_iff find_None_iff find_predicate [symmetric] split: if_splits)

lemma lock_or_create_cases:
  assumes "lock_or_create F bid now k s = Inr (s1, rid, amounts)"
  obtains r where "locked_in bid now k s s1" "find_position (key_id k) s1 = Some r"
    "rid = b_BalanceID r" "amounts = (cr r, dr r, icr r, idr r)"
proof -
  have lock: "\<exists>r. find_position (key_id k) s2 = Some r \<and> rid = b_BalanceID r \<and> amounts = (cr r, dr r, icr r, idr r)"
    if "lockPositionRow F k s2 = Inr (rid, amounts)" for s2
    using that by (auto simp: lockPositionRow_def find_predicate split: if_splits option.splits)
  have "lockPositionRow F k s1 = Inr (rid, amounts) \<and> locked_in bid now k s s1"
    using assms insert_position_locked [of F "''applyOneDelta.insert''" bid now k s]
    by (auto simp: lock_or_create_def locked_in_def split: sum.splits if_splits)
  with lock that show thesis by blast
qed

lemma applyOneDelta_cases:
  assumes "applyOneDelta F bid now d s = Inr s'"
  obtains s1 r c dd ic ib where "locked_in bid now (dl_Key d) s s1" "find_position (key_id (dl_Key d)) s1 = Some r"
    "apply_amounts d (cr r, dr r, icr r, idr r) = (c, dd, ic, ib)" "0 \<le> ic" "0 \<le> ib"
    "s' = s1\<lparr>st_balances := map (\<lambda>b. if b_BalanceID b = b_BalanceID r then write_amounts (c, dd, ic, ib) b else b) (st_balances s1)\<rparr>"
proof -
  from assms obtain s1 rid amounts where L: "lock_or_create F bid now (dl_Key d) s = Inr (s1, rid, amounts)"
    by (auto simp: applyOneDelta_def split: sum.splits)
  from L show thesis
  proof (rule lock_or_create_cases)
    fix r
    assume r: "locked_in bid now (dl_Key d) s s1" "find_position (key_id (dl_Key d)) s1 = Some r"
      "rid = b_BalanceID r" "amounts = (cr r, dr r, icr r, idr r)"
    obtain c dd ic ib where A: "apply_amounts d (cr r, dr r, icr r, idr r) = (c, dd, ic, ib)"
      by (cases "apply_amounts d (cr r, dr r, icr r, idr r)") auto
    with assms L r(3,4) show thesis
      by (intro that [OF r(1,2) A]) (auto simp: applyOneDelta_def split: if_splits)
  qed
qed

definition native_rows :: "store \<Rightarrow> Balance list" where
  "native_rows s = filter (\<lambda>b. \<not> is_position b) (st_balances s)"

lemma filter_map_same:
  "(\<And>x. x \<in> set xs \<Longrightarrow> P (f x) \<longleftrightarrow> P x) \<Longrightarrow> (\<And>x. x \<in> set xs \<Longrightarrow> P x \<Longrightarrow> g (f x) = g x) \<Longrightarrow>
   map g (filter P (map f xs)) = map g (filter P xs)"
  by (induction xs) auto

lemma find_positionD: "find_position i s = Some r \<Longrightarrow> r \<in> set (st_balances s) \<and> is_position r \<and> row_id r = i"
  by (auto simp: find_position_def find_Some_iff in_set_conv_nth)

lemma positions_ok_replace:
  assumes "positions_ok s" "map b_BalanceID bs = map b_BalanceID (st_balances s)"
    "map row_id (filter is_position bs) = map row_id (filter is_position (st_balances s))" "\<forall>b \<in> set bs. row_ok b"
  shows "positions_ok (s\<lparr>st_balances := bs\<rparr>)"
  using assms by (simp add: positions_ok_def positions_unique_def store_ok_def)

lemma locked_in_ok:
  assumes "positions_ok s" "locked_in bid now k s s1" "k_AccountRef k \<noteq> []" "bid \<noteq> []"
  shows "positions_ok s1" "abs_positions s1 = abs_positions s" "native_rows s1 = native_rows s"
    "st_transactions s1 = st_transactions s"
proof -
  have new: "is_position (new_position bid now k)" "row_id (new_position bid now k) = key_id k"
    "b_BalanceID (new_position bid now k) = bid"
    using assms(3) by (simp_all add: is_position_def new_position_def row_id_def key_id_def)
  have zero: "position_of (Some (new_position bid now k)) = (0, 0, 0)" by (simp add: position_of_def new_position_def)
  from assms(2) show "positions_ok s1"
  proof (unfold locked_in_def, elim disjE conjE)
    assume n: "find_position (key_id k) s = None" "bid \<notin> b_BalanceID ` set (st_balances s)"
      and s1: "s1 = s\<lparr>st_balances := st_balances s @ [new_position bid now k]\<rparr>"
    from n(1) have "key_id k \<notin> row_id ` set (filter is_position (st_balances s))"
      by (auto simp: find_position_def find_None_iff)
    with assms(1) s1 new have "positions_unique s1" by (simp add: positions_ok_def positions_unique_def)
    moreover have "store_ok s1"
      using assms(1) n(2) s1 new new_position_ok [OF assms(4)] by (auto simp: positions_ok_def store_ok_def)
    ultimately show ?thesis by (simp add: positions_ok_def)
  qed (use assms(1) in simp)
  have "position_of (find_position i (s\<lparr>st_balances := st_balances s @ [new_position bid now k]\<rparr>)) = position_of (find_position i s)" for i
    unfolding find_position_new [OF assms(3)] using zero by (cases "find_position i s") (simp_all add: position_of_def)
  with assms(2) show "abs_positions s1 = abs_positions s" by (auto simp: locked_in_def abs_positions_def)
  from assms(2) new show "native_rows s1 = native_rows s" "st_transactions s1 = st_transactions s"
    by (auto simp: locked_in_def native_rows_def)
qed

lemma applyOneDelta_refines:
  assumes "applyOneDelta F bid now d s = Inr s'" "positions_ok s" "k_AccountRef (dl_Key d) \<noteq> []" "bid \<noteq> []"
  shows "positions_ok s'" "abs_positions s' i = add3 (abs_positions s i) (delta_at d i)"
    "native_rows s' = native_rows s" "st_transactions s' = st_transactions s"
proof -
  from assms(1) obtain s1 r c dd ic ib where L: "locked_in bid now (dl_Key d) s s1"
    and r: "find_position (key_id (dl_Key d)) s1 = Some r"
    and A: "apply_amounts d (cr r, dr r, icr r, idr r) = (c, dd, ic, ib)" "0 \<le> ic" "0 \<le> ib"
    and s': "s' = s1\<lparr>st_balances := map (\<lambda>b. if b_BalanceID b = b_BalanceID r then write_amounts (c, dd, ic, ib) b else b) (st_balances s1)\<rparr>"
    by (rule applyOneDelta_cases)
  note L' = locked_in_ok [OF assms(2) L assms(3,4)]
  let ?f = "\<lambda>b. if b_BalanceID b = b_BalanceID r then write_amounts (c, dd, ic, ib) b else b"
  have ids: "distinct (map b_BalanceID (st_balances s1))" and rows: "\<forall>b \<in> set (st_balances s1). row_ok b"
    using L'(1) by (simp_all add: positions_ok_def store_ok_def)
  have same: "b = r" if "b \<in> set (st_balances s1)" "b_BalanceID b = b_BalanceID r" for b
    using that find_positionD [OF r] ids by (metis distinct_map inj_onD)
  have ids': "map b_BalanceID (map ?f (st_balances s1)) = map b_BalanceID (st_balances s1)" by simp
  have pos': "map row_id (filter is_position (map ?f (st_balances s1))) = map row_id (filter is_position (st_balances s1))"
    by (rule filter_map_same) auto
  have "\<forall>b \<in> set (map ?f (st_balances s1)). row_ok b" using rows write_amounts_ok A(2,3) by auto
  with L'(1) ids' pos' show "positions_ok s'" unfolding s' by (rule positions_ok_replace)
  have nat': "map (\<lambda>b. b) (filter (\<lambda>b. \<not> is_position b) (map ?f (st_balances s1))) =
      map (\<lambda>b. b) (filter (\<lambda>b. \<not> is_position b) (st_balances s1))"
    using same find_positionD [OF r] by (intro filter_map_same) auto
  with L'(3) show "native_rows s' = native_rows s" by (simp add: s' native_rows_def)
  from L'(4) show "st_transactions s' = st_transactions s" by (simp add: s')
  have "position_of (Some (write_amounts (c, dd, ic, ib) r)) =
      add3 (position_of (Some r)) (or0 (dl_Amount d), or0 (dl_Blocked d), or0 (dl_Waiting d))"
    using A(1) by (auto simp: position_of_def write_amounts_def add3_def apply_amounts_def split: if_splits)
  moreover have "abs_positions s' i =
      (if i = key_id (dl_Key d) then position_of (Some (write_amounts (c, dd, ic, ib) r)) else abs_positions s1 i)"
    unfolding s' abs_positions_def find_position_write [OF ids r] by simp
  moreover have "abs_positions s1 (key_id (dl_Key d)) = position_of (Some r)" by (simp add: abs_positions_def r)
  ultimately show "abs_positions s' i = add3 (abs_positions s i) (delta_at d i)"
    unfolding L'(2) [symmetric] by (simp add: delta_at_def add3_def)
qed


subsection \<open>The interface to the plans\<close>

text \<open>
  What a mutation plan needs of the store: one delta, applied successfully, keeps the
  invariant and adds itself to the view of its own position only. The client runs a whole
  list and stops at the first error.
\<close>

fun run_all :: "('a \<Rightarrow> 's \<Rightarrow> error + 's) \<Rightarrow> 'a list \<Rightarrow> 's \<Rightarrow> error + 's" where
  "run_all f [] s = Inr s"
| "run_all f (x # xs) s = (case f x s of Inl e \<Rightarrow> Inl e | Inr s' \<Rightarrow> run_all f xs s')"

definition deltas_at :: "BalanceDelta list \<Rightarrow> position_id \<Rightarrow> int \<times> int \<times> int" where
  "deltas_at ds i = foldr (\<lambda>d x. add3 (delta_at d i) x) ds (0, 0, 0)"

lemma add3_assoc: "add3 (add3 x y) z = add3 x (add3 y z)" and add3_zero: "add3 x (0, 0, 0) = x"
  by (simp_all add: add3_def add.assoc)

locale delta_store =
  fixes apply_delta :: "BalanceDelta \<Rightarrow> 's \<Rightarrow> error + 's"
    and view :: "'s \<Rightarrow> position_id \<Rightarrow> int \<times> int \<times> int"
    and ok :: "'s \<Rightarrow> bool" and admissible :: "BalanceDelta \<Rightarrow> bool"
  assumes delta_ok: "ok s \<Longrightarrow> admissible d \<Longrightarrow> apply_delta d s = Inr s' \<Longrightarrow> ok s'"
    and delta_view: "ok s \<Longrightarrow> admissible d \<Longrightarrow> apply_delta d s = Inr s' \<Longrightarrow> view s' i = add3 (view s i) (delta_at d i)"
begin

lemma run_refines:
  assumes "run_all apply_delta ds s = Inr s'" "ok s" "\<forall>d \<in> set ds. admissible d"
  shows "ok s' \<and> (\<forall>i. view s' i = add3 (view s i) (deltas_at ds i))"
  using assms
proof (induction ds arbitrary: s)
  case Nil
  then show ?case by (simp add: deltas_at_def add3_zero)
next
  case (Cons d ds)
  from Cons.prems(1) obtain s1 where s1: "apply_delta d s = Inr s1" "run_all apply_delta ds s1 = Inr s'"
    by (auto split: sum.splits)
  with Cons.prems have "ok s1" and v: "\<And>i. view s1 i = add3 (view s i) (delta_at d i)"
    using delta_ok delta_view by auto
  with Cons.IH [OF s1(2)] Cons.prems(3) show ?case
    by (simp add: deltas_at_def add3_assoc)
qed

end

definition delta_valid :: "BalanceDelta \<Rightarrow> bool" where
  "delta_valid d \<longleftrightarrow> k_AccountRef (dl_Key d) \<noteq> [] \<and> key_plain (dl_Key d)"

definition ids_ok :: "(nat \<Rightarrow> string) \<Rightarrow> bool" where
  "ids_ok ids \<longleftrightarrow> (\<forall>n. ids n \<noteq> [])"

interpretation pos: delta_store "\<lambda>d s. applyOneDelta F (ids (length (st_balances s))) now d s"
  abs_positions positions_ok "\<lambda>d. delta_valid d \<and> ids_ok ids" for F ids now
  using applyOneDelta_refines by unfold_locales (auto simp: delta_valid_def ids_ok_def)

lemma apply_deltas_run:
  "apply_deltas F ids now ds s = run_all (\<lambda>d s. applyOneDelta F (ids (length (st_balances s))) now d s) ds s"
  by (induction ds arbitrary: s) (auto split: sum.splits)

lemma apply_deltas_frame:
  assumes "apply_deltas F ids now ds s = Inr s'" "positions_ok s" "\<forall>d \<in> set ds. delta_valid d" "ids_ok ids"
  shows "native_rows s' = native_rows s \<and> st_transactions s' = st_transactions s"
  using assms
proof (induction ds arbitrary: s)
  case (Cons d ds)
  from Cons.prems(1) obtain s1 where s1: "applyOneDelta F (ids (length (st_balances s))) now d s = Inr s1"
      "apply_deltas F ids now ds s1 = Inr s'"
    by (auto split: sum.splits)
  from Cons.prems have "k_AccountRef (dl_Key d) \<noteq> []" "ids (length (st_balances s)) \<noteq> []"
    by (simp_all add: delta_valid_def ids_ok_def)
  note r = applyOneDelta_refines [OF s1(1) Cons.prems(2) this]
  from Cons.IH [OF s1(2) r(1)] Cons.prems(3,4) r(3,4) show ?case by simp
qed simp

text \<open>On plain keys, the plan's effect by lock key is its effect by position.\<close>

lemma plan_effect_at:
  assumes "\<forall>d \<in> set ds. key_plain (dl_Key d)" "key_plain k"
  shows "plan_effect ds (LockKey k) = deltas_at ds (key_id k)"
  using assms(1)
proof (induction ds)
  case (Cons d ds)
  have "plan_effect (d # ds) (LockKey k) = add3 (delta_at d (key_id k)) (plan_effect ds (LockKey k))"
    using lock_key_iff [of "dl_Key d" k] assms(2) Cons.prems
    by (simp add: plan_effect_def delta_at_def add3_def)
  with Cons show ?case by (simp add: deltas_at_def)
qed (simp add: plan_effect_def deltas_at_def)

lemma normalized_keys:
  assumes "iterates ord" "d \<in> set (Normalized ord p)"
  shows "\<exists>d' \<in> set p. dl_Key d = dl_Key d'"
proof -
  have "snd e \<in> A" if "e \<in> set (merge_deltas ds m)" "snd ` set m \<subseteq> A" "\<And>d. d \<in> set ds \<Longrightarrow> normalizedFields d \<in> A"
      "\<And>x y. x \<in> A \<Longrightarrow> Merge x y \<in> A" for ds m A e
    using that
  proof (induction ds m rule: merge_deltas.induct)
    case (2 d ds m)
    have "snd ` set (map_put k v m) \<subseteq> A" if "v \<in> A" for k v
      using that "2.prems"(2) by (auto simp: map_put_def set_row_def)
    moreover have "v \<in> A" if "find_row fst (LockKey (dl_Key d)) m = Some (k, v)" for k v
      using find_row_Some [OF that] "2.prems"(2) by force
    ultimately show ?case
      using "2.prems" by (intro "2.IH") (auto split: option.splits)
  qed auto
  from this [of _ p "[]" "{x. \<exists>d' \<in> set p. dl_Key x = dl_Key d'}"] assms show ?thesis
    by (auto simp: Normalized_def iterates_set)
qed

end
