(* ===== verification/Trades.thy ===== *)
theory Trades
  imports PositionTable Inflight
begin

text \<open>
  The brokerage service (\<open>brokerage.go\<close>): settlement dates, tradable positions, booking of buys
  and sells as two inflight legs, mutation plans under the distributed lock, and the settlement
  of matured buckets with its journal. The state is a ledger world together with the brokerage
  tables; \<open>None\<close> is a lock wait that outlasts the rounds given, as in the ledger. \<open>time.Now()\<close>
  is in nanoseconds, read in UTC. Metrics and logging are left out, and contexts are not
  cancelled while a pass over holds runs.
\<close>

record 'r desk =
  dk_world :: "'r world"
  dk_tables :: tables

abbreviation dk_store :: "'r desk \<Rightarrow> store" where "dk_store k \<equiv> w_store (dk_world k)"

definition set_store :: "store \<Rightarrow> 'r desk \<Rightarrow> 'r desk" where
  "set_store s k = k\<lparr>dk_world := (dk_world k)\<lparr>w_store := s\<rparr>\<rparr>"

definition day_of_time :: "int \<Rightarrow> int" where
  "day_of_time t = t div 86400000000000"

definition settleDateHorizonDays :: int where "settleDateHorizonDays = 366"
definition defaultSettlementBatch :: int where "defaultSettlementBatch = 100"

definition position_uuid :: "('d, 'r, 'q) sys \<Rightarrow> nat \<Rightarrow> string" where
  "position_uuid Y n = e_uuid (y_env Y) (''bln#'' @ show_nat n)"

subsection \<open>Calendar and trading mode\<close>

definition marketHolidaySet :: "faults \<Rightarrow> string \<Rightarrow> int \<Rightarrow> tables \<Rightarrow> holidays res" where
  "marketHolidaySet F venue from_day T =
     (if venue = [] then Inr []
      else case GetHolidays F venue from_day (from_day + settleDateHorizonDays) T of
             Inl e \<Rightarrow> Inl e
           | Inr hs \<Rightarrow> Inr (map (\<lambda>h. format_date (h_HolidayDate h)) hs))"

definition Blnk_ComputeSettleDate :: "faults \<Rightarrow> string \<Rightarrow> int \<Rightarrow> int \<Rightarrow> tables \<Rightarrow> int res" where
  "Blnk_ComputeSettleDate F venue tradeDate settleOffset T =
     (case marketHolidaySet F venue tradeDate T of
        Inl e \<Rightarrow> Inl e
      | Inr hs \<Rightarrow> ComputeSettleDate tradeDate settleOffset hs)"

record tradeParams =
  tp_onTheWay :: bool
  tp_settleOffset :: int
  tp_venue :: string

definition resolveTradeParams :: "faults \<Rightarrow> string \<Rightarrow> int \<Rightarrow> string \<Rightarrow> tables \<Rightarrow> tradeParams res" where
  "resolveTradeParams F instrument requestedOffset requestedVenue T =
     (case GetInstrumentSettings F instrument T of
        Inl e \<Rightarrow>
          if is_not_found e
          then Inr \<lparr>tp_onTheWay = False, tp_settleOffset = requestedOffset, tp_venue = requestedVenue\<rparr>
          else Inl e
      | Inr x \<Rightarrow>
          Inr \<lparr>tp_onTheWay = s_TradesOnTheWay x,
               tp_settleOffset = (if s_TradesOnTheWay x then s_SettleOffset x else 0),
               tp_venue = (if s_Venue x = [] then requestedVenue else s_Venue x)\<rparr>)"

definition resolveSettlement :: "faults \<Rightarrow> tradeParams \<Rightarrow> int \<Rightarrow> int option \<Rightarrow> tables \<Rightarrow> (int \<times> int option) res" where
  "resolveSettlement F params tradeDate explicit T =
     (case explicit of
        Some d \<Rightarrow> Inr (d, None)
      | None \<Rightarrow>
          (case Blnk_ComputeSettleDate F (tp_venue params) tradeDate (tp_settleOffset params) T of
             Inl e \<Rightarrow> Inl e
           | Inr d \<Rightarrow> Inr (d, Some (tp_settleOffset params))))"

subsection \<open>Positions\<close>

definition GetOrCreatePosition :: "('d, 'r, 'q) sys \<Rightarrow> PositionKey \<Rightarrow> 'r desk \<Rightarrow> 'r desk \<times> Balance res" where
  "GetOrCreatePosition Y k dk =
     (case FindOrCreatePosition (y_F Y) (position_uuid Y (length (st_balances (dk_store dk)))) (y_now Y) k (dk_store dk) of
        (s, x) \<Rightarrow> (set_store s dk, x))"

record TradablePosition =
  tr_Settled :: int
  tr_Blocked :: int
  tr_Incoming :: int
  tr_Outgoing :: int
  tr_Tradable :: int
  tr_OnTheWay :: bool
  tr_AsOfSettle :: string

definition spot_key :: "string \<Rightarrow> string \<Rightarrow> string \<Rightarrow> string \<Rightarrow> string \<Rightarrow> PositionKey" where
  "spot_key ledgerID identityID accountRef instrument currency =
     \<lparr>k_LedgerID = ledgerID, k_IdentityID = identityID, k_AccountRef = accountRef, k_Instrument = instrument,
      k_Currency = currency, k_SettleDate = None, k_SettleCode = None\<rparr>"

definition GetTradablePosition ::
    "faults \<Rightarrow> string \<Rightarrow> string \<Rightarrow> string \<Rightarrow> string \<Rightarrow> string \<Rightarrow> int \<Rightarrow> store \<Rightarrow> tables \<Rightarrow> TradablePosition res" where
  "GetTradablePosition F ledgerID identityID accountRef instrument currency asOf s T =
     (case (case GetInstrumentSettings F instrument T of
              Inr x \<Rightarrow> Inr (s_TradesOnTheWay x)
            | Inl e \<Rightarrow> if is_not_found e then Inr False else Inl e) of
        Inl e \<Rightarrow> Inl e
      | Inr onTheWay \<Rightarrow>
          (case (case GetPosition F (spot_key ledgerID identityID accountRef instrument currency) s of
                   Inr b \<Rightarrow> (let b' = InitializeBalanceFields b in Inr (bal b', idr b'))
                 | Inl e \<Rightarrow> if is_not_found e then Inr (0, 0) else Inl e) of
             Inl e \<Rightarrow> Inl e
           | Inr (settled, blocked) \<Rightarrow>
               (case SumFutureHolds F ledgerID identityID accountRef instrument currency asOf s of
                  Inl e \<Rightarrow> Inl e
                | Inr (incoming, outgoing) \<Rightarrow>
                    Inr \<lparr>tr_Settled = settled, tr_Blocked = blocked,
                         tr_Incoming = (if onTheWay then incoming else 0), tr_Outgoing = outgoing,
                         tr_Tradable = ComputeTradable (Some settled) (Some blocked) (Some incoming) (Some outgoing) onTheWay,
                         tr_OnTheWay = onTheWay, tr_AsOfSettle = format_date asOf\<rparr>)))"

record FreeBalanceResult =
  fb_IsSuccess :: bool
  fb_AvailableAmount :: "int option"
  fb_Currency :: string
  fb_ErrorMessage :: string

definition GetFreeBalance :: "faults \<Rightarrow> string \<Rightarrow> int option \<Rightarrow> store \<Rightarrow> FreeBalanceResult \<times> error option" where
  "GetFreeBalance F bid limit s =
     (case GetBalanceByID F bid True s of
        Inl e \<Rightarrow> (\<lparr>fb_IsSuccess = False, fb_AvailableAmount = None, fb_Currency = [], fb_ErrorMessage = err_msg e\<rparr>, Some e)
      | Inr b0 \<Rightarrow>
          let b = InitializeBalanceFields b0
          in (\<lparr>fb_IsSuccess = True,
               fb_AvailableAmount = Some (FreeBalance limit (Some (bal b - idr b)) (b_QueuedDebitBalance b)),
               fb_Currency = b_Currency b, fb_ErrorMessage = []\<rparr>, None))"

subsection \<open>Mutation plans\<close>

definition ApplyMutationPlan ::
    "('d, 'r, 'q) sys \<Rightarrow> ((string \<times> BalanceDelta) list \<Rightarrow> (string \<times> BalanceDelta) list) \<Rightarrow> BalanceDelta list \<Rightarrow> 'r desk
       \<Rightarrow> ('r desk \<times> unit res) option" where
  "ApplyMutationPlan Y ord plan dk =
     (let E = y_env Y; w = dk_world dk
      in case MutationPlan_Validate plan of
           Inl e \<Rightarrow> Some (dk, Inl e)
         | Inr _ \<Rightarrow>
             (let normalized = Normalized ord plan
              in if normalized = [] then Some (dk, Inr ())
                 else let locker = NewMultiLocker (LockKeys ord plan) (fresh_uuid Y ''loc'' (w_store w))
                      in case MultiWaitLock (e_R E) locker (e_LockDuration E) (e_LockWaitTimeout E) (e_now E) (e_ctxErr E)
                                (e_ticks E) (w_redis w) of
                           None \<Rightarrow> None
                         | Some (r1, Inl e) \<Rightarrow>
                             Some (dk\<lparr>dk_world := w\<lparr>w_redis := r1\<rparr>\<rparr>, Inl (Wrap ''failed to acquire mutation locks'' e))
                         | Some (r1, Inr _) \<Rightarrow>
                             (case ApplyBalanceDeltas (y_F Y) (position_uuid Y) (y_now Y) normalized (w_store w) of
                                (s, x) \<Rightarrow>
                                  Some (dk\<lparr>dk_world := w\<lparr>w_store := s, w_redis := fst (MultiUnlock (e_R E) locker r1)\<rparr>\<rparr>, x))))"

text \<open>
  \<open>RecalculateHolds\<close> starts a goroutine per id: each recomputation is one database transaction,
  so any interleaving is a sequence of them, in the order \<open>sched\<close> gives.
\<close>

record HoldsRecalcResult =
  hr_Recalculated :: "string list"
  hr_Errors :: "(string \<times> string) list"

fun recalc_all :: "faults \<Rightarrow> string list \<Rightarrow> store \<times> HoldsRecalcResult \<Rightarrow> store \<times> HoldsRecalcResult" where
  "recalc_all F [] sr = sr"
| "recalc_all F (i # is) (s, r) =
     (case RecomputeHolds F i s of
        (s', Inl e) \<Rightarrow> recalc_all F is (s', r\<lparr>hr_Errors := map_put i (err_msg e) (hr_Errors r)\<rparr>)
      | (s', Inr _) \<Rightarrow> recalc_all F is (s', r\<lparr>hr_Recalculated := hr_Recalculated r @ [i]\<rparr>))"

definition RecalculateHolds ::
    "faults \<Rightarrow> (string list \<Rightarrow> string list) \<Rightarrow> string list \<Rightarrow> store \<Rightarrow> store \<times> HoldsRecalcResult res" where
  "RecalculateHolds F sched ids s =
     (if ids = [] then (s, Inl (Errorf ''at least one balance id is required''))
      else case recalc_all F (sched ids) (s, \<lparr>hr_Recalculated = [], hr_Errors = []\<rparr>) of (s', r) \<Rightarrow> (s', Inr r))"

subsection \<open>Booking\<close>

abbreviation TradeMetaRef :: string where "TradeMetaRef \<equiv> ''trade_ref''"
abbreviation TradeMetaLeg :: string where "TradeMetaLeg \<equiv> ''trade_leg''"
abbreviation TradeMetaSide :: string where "TradeMetaSide \<equiv> ''trade_side''"
abbreviation TradeMetaLegMoney :: string where "TradeMetaLegMoney \<equiv> ''money''"
abbreviation TradeMetaLegSecurity :: string where "TradeMetaLegSecurity \<equiv> ''security''"
abbreviation TradeMetaMoneyLegID :: string where "TradeMetaMoneyLegID \<equiv> ''money_leg_id''"
abbreviation TradeMetaInstrument :: string where "TradeMetaInstrument \<equiv> ''instrument''"
abbreviation TradeMetaVenue :: string where "TradeMetaVenue \<equiv> ''venue''"
abbreviation TradeMetaQuantity :: string where "TradeMetaQuantity \<equiv> ''quantity''"
abbreviation TradeMetaPrice :: string where "TradeMetaPrice \<equiv> ''price''"
abbreviation TradeMetaSettleDate :: string where "TradeMetaSettleDate \<equiv> ''settle_date''"
abbreviation TradeSideBuy :: string where "TradeSideBuy \<equiv> ''buy''"
abbreviation TradeSideSell :: string where "TradeSideSell \<equiv> ''sell''"

definition sharedMeta :: "Booking \<Rightarrow> string \<Rightarrow> string \<Rightarrow> int \<Rightarrow> string \<Rightarrow> string \<rightharpoonup> json" where
  "sharedMeta g side venue settleDate leg =
     [TradeMetaRef \<mapsto> JStr (g_Reference g), TradeMetaLeg \<mapsto> JStr leg, TradeMetaSide \<mapsto> JStr side,
      TradeMetaInstrument \<mapsto> JStr (g_Instrument g), TradeMetaVenue \<mapsto> JStr venue,
      TradeMetaQuantity \<mapsto> JStr (g_Quantity g), TradeMetaPrice \<mapsto> JStr (g_Price g),
      TradeMetaSettleDate \<mapsto> JStr (format_date settleDate)]"

text \<open>
  The two legs of a trade: money from \<open>ms\<close> to \<open>md\<close>, securities from \<open>ss\<close> to \<open>sd\<close>. Only the money
  leg of a buy is held to the client's funds.
\<close>

definition money_leg :: "('d, 'r, 'q) sys \<Rightarrow> Booking \<Rightarrow> string \<Rightarrow> string \<Rightarrow> int \<Rightarrow> string \<Rightarrow> string \<Rightarrow> int \<Rightarrow> store \<Rightarrow> Transaction" where
  "money_leg Y g side venue settleDate ms md amount s =
     zero_Transaction\<lparr>t_TransactionID := fresh_uuid Y ''txn'' s, t_Source := ms, t_Destination := md,
       t_PreciseAmount := Some amount, t_Precision := of_int (g_MoneyPrecision g), t_Currency := g_Currency g,
       t_Reference := g_Reference g @ ''_money'',
       t_Description := ''Trade '' @ g_Reference g @ '' money leg: '' @ side @ '' '' @ g_Quantity g @ '' '' @ g_Instrument g @
         '' @ '' @ g_Price g,
       t_Inflight := True, t_SkipQueue := True, t_AllowOverdraft := (side = TradeSideSell),
       t_MetaData := Some (sharedMeta g side venue settleDate TradeMetaLegMoney)\<rparr>"

definition security_leg ::
    "('d, 'r, 'q) sys \<Rightarrow> Booking \<Rightarrow> string \<Rightarrow> tradeParams \<Rightarrow> int \<Rightarrow> string \<Rightarrow> string \<Rightarrow> int \<Rightarrow> string \<Rightarrow> store \<Rightarrow> Transaction" where
  "security_leg Y g side params settleDate ss sd qty moneyID s =
     zero_Transaction\<lparr>t_TransactionID := fresh_uuid Y ''txn'' s, t_Source := ss, t_Destination := sd,
       t_PreciseAmount := Some qty, t_Precision := of_int (g_QuantityPrecision g), t_Currency := g_Currency g,
       t_Reference := g_Reference g @ ''_sec'',
       t_Description := ''Trade '' @ g_Reference g @ '' security leg: deliver '' @ g_Quantity g @ '' '' @ g_Instrument g @
         '' (T+'' @ show_int (tp_settleOffset params) @ '')'',
       t_Inflight := True, t_SkipQueue := True, t_AllowOverdraft := True,
       t_MetaData := Some ((sharedMeta g side (tp_venue params) settleDate TradeMetaLegSecurity)(TradeMetaMoneyLegID \<mapsto> JStr moneyID))\<rparr>"

text \<open>
  Recording both legs; a failed security leg voids the money leg (the void's own error is only
  logged). \<open>what\<close> is \<open>sell\<close> followed by a space in the messages of a sell.
\<close>

definition book_legs ::
    "('d, 'r, 'q) sys \<Rightarrow> 'q \<Rightarrow> nat \<Rightarrow> string \<Rightarrow> (store \<Rightarrow> Transaction) \<Rightarrow> (string \<Rightarrow> store \<Rightarrow> Transaction) \<Rightarrow> 'r world
       \<Rightarrow> ('r world \<times> (Transaction \<times> Transaction) res) option" where
  "book_legs Y q n what money security w =
     (case RecordTransaction (y_env Y) (money (w_store w)) w of
        None \<Rightarrow> None
      | Some (w1, Inl e) \<Rightarrow> Some (w1, Inl (Wrap (''failed to book '' @ what @ ''money leg'') e))
      | Some (w1, Inr m) \<Rightarrow>
          (case RecordTransaction (y_env Y) (security (t_TransactionID m) (w_store w1)) w1 of
             None \<Rightarrow> None
           | Some (w2, Inr x) \<Rightarrow> Some (w2, Inr (m, x))
           | Some (w2, Inl e) \<Rightarrow>
               (case VoidInflightTransaction Y q n (t_TransactionID m) w2 of
                  None \<Rightarrow> None
                | Some (w3, _) \<Rightarrow> Some (w3, Inl (Wrap (''failed to book '' @ what @ ''security leg'') e)))))"

record TradeBookingResult =
  br_TradeRef :: string
  br_MoneyTxnID :: string
  br_SecurityTxnID :: string
  br_MoneyBalanceID :: string
  br_PositionBalanceID :: string
  br_SettleDate :: int
  br_Tradable :: "TradablePosition option"

definition future_key :: "Booking \<Rightarrow> int \<Rightarrow> int option \<Rightarrow> PositionKey" where
  "future_key g settleDate settleCode =
     (spot_key (g_LedgerID g) (g_IdentityID g) (g_AccountRef g) (g_Instrument g) (g_Currency g))
       \<lparr>k_SettleDate := Some settleDate, k_SettleCode := settleCode\<rparr>"

definition booking_date :: "('d, 'r, 'q) sys \<Rightarrow> Booking \<Rightarrow> int" where
  "booking_date Y g = (case g_TradeDate g of Some d \<Rightarrow> d | None \<Rightarrow> day_of_time (y_now Y))"

definition money_key :: "Booking \<Rightarrow> PositionKey" where
  "money_key g = spot_key (g_LedgerID g) (g_IdentityID g) (g_AccountRef g) [] (g_Currency g)"

definition BookTrade :: "('d, 'r, 'q) sys \<Rightarrow> 'q \<Rightarrow> nat \<Rightarrow> Booking \<Rightarrow> 'r desk \<Rightarrow> ('r desk \<times> TradeBookingResult res) option" where
  "BookTrade Y q n g dk =
     (let D = e_D (y_env Y); F = y_F Y; T = dk_tables dk
      in case TradeBooking_Validate D g of Inl e \<Rightarrow> Some (dk, Inl e) | Inr _ \<Rightarrow>
        (case resolveTradeParams F (g_Instrument g) (g_SettleOffset g) (g_Venue g) T of Inl e \<Rightarrow> Some (dk, Inl e) | Inr params \<Rightarrow>
         (case resolveSettlement F params (booking_date Y g) (g_SettleDate g) T of
            Inl e \<Rightarrow> Some (dk, Inl e) | Inr (settleDate, settleCode) \<Rightarrow>
          (case GetOrCreatePosition Y (money_key g) dk of (dk1, Inl e) \<Rightarrow> Some (dk1, Inl e) | (dk1, Inr moneyBalance) \<Rightarrow>
           (case GetOrCreatePosition Y (future_key g settleDate settleCode) dk1 of
              (dk2, Inl e) \<Rightarrow> Some (dk2, Inl e) | (dk2, Inr futurePosition) \<Rightarrow>
            (case PreciseQuantity D (g_Quantity g) (g_QuantityPrecision g) of
               Inl e \<Rightarrow> Some (dk2, Inl (APIError ErrBadRequest (err_msg e))) | Inr qty \<Rightarrow>
             (case PreciseMoney D (g_Quantity g) (g_Price g) (g_MoneyPrecision g) of Inl e \<Rightarrow> Some (dk2, Inl e) | Inr money \<Rightarrow>
              (case book_legs Y q n []
                      (money_leg Y g TradeSideBuy (tp_venue params) settleDate (b_BalanceID moneyBalance) (g_SettlementBalanceID g) money)
                      (security_leg Y g TradeSideBuy params settleDate (g_MarketBalanceID g) (b_BalanceID futurePosition) qty)
                      (dk_world dk2) of
                 None \<Rightarrow> None
               | Some (w, Inl e) \<Rightarrow> Some (dk2\<lparr>dk_world := w\<rparr>, Inl e)
               | Some (w, Inr (m, x)) \<Rightarrow>
                   Some (dk2\<lparr>dk_world := w\<rparr>,
                     Inr \<lparr>br_TradeRef = g_Reference g, br_MoneyTxnID = t_TransactionID m, br_SecurityTxnID = t_TransactionID x,
                          br_MoneyBalanceID = b_BalanceID moneyBalance, br_PositionBalanceID = b_BalanceID futurePosition,
                          br_SettleDate = settleDate, br_Tradable = None\<rparr>)))))))))"

definition insufficient_tradable :: "Booking \<Rightarrow> TradablePosition \<Rightarrow> error" where
  "insufficient_tradable g t = APIError ErrBadRequest
     (''insufficient tradable quantity for '' @ g_Instrument g @ '': requested '' @ g_Quantity g @ '', available '' @
      show_int (tr_Tradable t) @ '' (settled '' @ show_int (tr_Settled t) @ '', blocked '' @ show_int (tr_Blocked t) @
      '', incoming '' @ show_int (tr_Incoming t) @ '', outgoing '' @ show_int (tr_Outgoing t) @ '', on_the_way '' @
      (if tr_OnTheWay t then ''true'' else ''false'') @ '')'')"

definition SellTrade :: "('d, 'r, 'q) sys \<Rightarrow> 'q \<Rightarrow> nat \<Rightarrow> Booking \<Rightarrow> 'r desk \<Rightarrow> ('r desk \<times> TradeBookingResult res) option" where
  "SellTrade Y q n g dk =
     (let D = e_D (y_env Y); F = y_F Y; T = dk_tables dk
      in case SellBooking_Validate D g of Inl e \<Rightarrow> Some (dk, Inl e) | Inr _ \<Rightarrow>
        (case resolveTradeParams F (g_Instrument g) (g_SettleOffset g) (g_Venue g) T of Inl e \<Rightarrow> Some (dk, Inl e) | Inr params \<Rightarrow>
         (case resolveSettlement F params (booking_date Y g) (g_SettleDate g) T of
            Inl e \<Rightarrow> Some (dk, Inl e) | Inr (settleDate, settleCode) \<Rightarrow>
          (case GetTradablePosition F (g_LedgerID g) (g_IdentityID g) (g_AccountRef g) (g_Instrument g) (g_Currency g)
                  settleDate (dk_store dk) T of Inl e \<Rightarrow> Some (dk, Inl e) | Inr tradable \<Rightarrow>
           (case PreciseQuantity D (g_Quantity g) (g_QuantityPrecision g) of
              Inl e \<Rightarrow> Some (dk, Inl (APIError ErrBadRequest (err_msg e))) | Inr qty \<Rightarrow>
            if tr_Tradable tradable < qty then Some (dk, Inl (insufficient_tradable g tradable)) else
            (case GetOrCreatePosition Y (money_key g) dk of (dk1, Inl e) \<Rightarrow> Some (dk1, Inl e) | (dk1, Inr moneyBalance) \<Rightarrow>
             (case GetOrCreatePosition Y (future_key g settleDate settleCode) dk1 of
                (dk2, Inl e) \<Rightarrow> Some (dk2, Inl e) | (dk2, Inr deliverPosition) \<Rightarrow>
              (case PreciseMoney D (g_Quantity g) (g_Price g) (g_MoneyPrecision g) of Inl e \<Rightarrow> Some (dk2, Inl e) | Inr money \<Rightarrow>
               (case book_legs Y q n ''sell ''
                       (money_leg Y g TradeSideSell (tp_venue params) settleDate (g_SettlementBalanceID g) (b_BalanceID moneyBalance) money)
                       (security_leg Y g TradeSideSell params settleDate (b_BalanceID deliverPosition) (g_MarketBalanceID g) qty)
                       (dk_world dk2) of
                  None \<Rightarrow> None
                | Some (w, Inl e) \<Rightarrow> Some (dk2\<lparr>dk_world := w\<rparr>, Inl e)
                | Some (w, Inr (m, x)) \<Rightarrow>
                    Some (dk2\<lparr>dk_world := w\<rparr>,
                      Inr \<lparr>br_TradeRef = g_Reference g, br_MoneyTxnID = t_TransactionID m, br_SecurityTxnID = t_TransactionID x,
                           br_MoneyBalanceID = b_BalanceID moneyBalance, br_PositionBalanceID = b_BalanceID deliverPosition,
                           br_SettleDate = settleDate, br_Tradable = Some tradable\<rparr>))))))))))"

subsection \<open>Settlement\<close>

definition metaString :: "metadata \<Rightarrow> string \<Rightarrow> string" where
  "metaString meta key = (case meta_get meta key of Some (JStr s) \<Rightarrow> s | _ \<Rightarrow> [])"

record TradeSettlementResult =
  sr_TradeRef :: string
  sr_MoneyTxnID :: string
  sr_SecurityTxnID :: string
  sr_RollTxnID :: string
  sr_SpotBalanceID :: string
  sr_FutureBalanceID :: string
  sr_WAPrice :: string
  sr_LotID :: string

definition computeWAAfter :: "'d decimal \<Rightarrow> string \<Rightarrow> int \<Rightarrow> int \<Rightarrow> float64 \<Rightarrow> 'd \<Rightarrow> string res" where
  "computeWAAfter D waBefore qtyBefore tradeQtyPrecise precision price =
     (let qtyPrecision = NewFromFloat D precision;
          currentQty = Div D (NewFromInt D qtyBefore) qtyPrecision;
          tradeQty = Div D (NewFromInt D tradeQtyPrecise) qtyPrecision;
          tradeMoney = Mul D tradeQty price
      in case RecalculateWAPrice D waBefore currentQty tradeQty tradeMoney of
           Inl e \<Rightarrow> Inl e
         | Inr wa \<Rightarrow> Inr (StringFixed D wa 2))"

definition trade_lot :: "string \<Rightarrow> string \<Rightarrow> int \<Rightarrow> int \<Rightarrow> string \<Rightarrow> string \<Rightarrow> string \<Rightarrow> BalanceLot" where
  "trade_lot bid instrument qty precision price currency reference =
     \<lparr>l_ID = 0, l_LotID = [], l_BalanceID = bid, l_Instrument = instrument, l_Quantity = Some qty, l_Precision = precision,
      l_Price = price, l_Currency = currency, l_Reference = reference, l_PurchasedAt = 0, l_CreatedAt = 0\<rparr>"

definition complete_journal ::
    "('d, 'r, 'q) sys \<Rightarrow> string \<Rightarrow> string \<Rightarrow> BalanceLot \<Rightarrow> 'r desk \<Rightarrow> 'r desk \<times> string res" where
  "complete_journal Y tid waAfter lot dk =
     (case CompleteSettlementJournal (y_F Y) (e_uuid (y_env Y) (''lot#'' @ show_nat (length (tb_lots (dk_tables dk))))) (y_now Y)
             tid waAfter lot (dk_store dk, dk_tables dk) of
        ((s, T), x) \<Rightarrow> ((set_store s dk)\<lparr>dk_tables := T\<rparr>, x))"

text \<open>
  One security leg: the pending journal row, the commits of the money and the security hold,
  and for a buy with a price the lot, the price and the applied journal row. The third result
  is the spot struct, whose price the loop over the legs keeps up to date.
\<close>

definition has_side_effects :: "Transaction \<Rightarrow> bool" where
  "has_side_effects t \<longleftrightarrow> metaString (t_MetaData t) TradeMetaSide \<noteq> TradeSideSell \<and> 1 \<le> t_Precision t \<and>
     metaString (t_MetaData t) TradeMetaPrice \<noteq> []"

definition journal_entry :: "Transaction \<Rightarrow> Balance \<Rightarrow> Balance \<Rightarrow> int \<Rightarrow> SettlementJournalEntry" where
  "journal_entry t spot future added =
     \<lparr>j_SecurityTxnID = t_TransactionID t, j_TradeRef = metaString (t_MetaData t) TradeMetaRef, j_SpotBalanceID = b_BalanceID spot,
      j_Instrument = b_Instrument future, j_Side = TradeSideBuy, j_WABefore = b_WAPrice spot,
      j_QtyBefore = show_int (bal spot + added), j_Price = metaString (t_MetaData t) TradeMetaPrice,
      j_Quantity = show_int (or0 (t_PreciseAmount t)), j_Precision = trunc (t_Precision t), j_Currency = t_Currency t,
      j_WAAfter = [], j_LotID = [], j_Status = [], j_CreatedAt = 0, j_UpdatedAt = 0\<rparr>"

definition commit_trade_holds ::
    "('d, 'r, 'q) sys \<Rightarrow> 'q \<Rightarrow> nat \<Rightarrow> Transaction \<Rightarrow> 'r world \<Rightarrow> ('r world \<times> string res) option" where
  "commit_trade_holds Y q n t w =
     (let moneyLegID = metaString (t_MetaData t) TradeMetaMoneyLegID
      in case (if moneyLegID = [] then Some (w, Inr None)
               else case CommitInflightTransaction Y q n moneyLegID (Some 0) w of
                      None \<Rightarrow> None
                    | Some (w1, Inl e) \<Rightarrow> Some (w1, Inl (Wrap (''failed to commit money leg '' @ moneyLegID) e))
                    | Some (w1, Inr _) \<Rightarrow> Some (w1, Inr (Some ()))) of
           None \<Rightarrow> None
         | Some (w1, Inl e) \<Rightarrow> Some (w1, Inl e)
         | Some (w1, Inr _) \<Rightarrow>
             (case CommitInflightTransaction Y q n (t_TransactionID t) (Some 0) w1 of
                None \<Rightarrow> None
              | Some (w2, Inl e) \<Rightarrow> Some (w2, Inl (Wrap (''failed to commit security leg '' @ t_TransactionID t) e))
              | Some (w2, Inr _) \<Rightarrow> Some (w2, Inr moneyLegID)))"

definition leg_result :: "Transaction \<Rightarrow> Balance \<Rightarrow> Balance \<Rightarrow> string \<Rightarrow> TradeSettlementResult" where
  "leg_result t spot future moneyLegID =
     \<lparr>sr_TradeRef = metaString (t_MetaData t) TradeMetaRef, sr_MoneyTxnID = moneyLegID, sr_SecurityTxnID = t_TransactionID t,
      sr_RollTxnID = [], sr_SpotBalanceID = b_BalanceID spot, sr_FutureBalanceID = b_BalanceID future,
      sr_WAPrice = [], sr_LotID = []\<rparr>"

definition settleSecurityLeg ::
    "('d, 'r, 'q) sys \<Rightarrow> 'q \<Rightarrow> nat \<Rightarrow> Transaction \<Rightarrow> Balance \<Rightarrow> Balance \<Rightarrow> int \<Rightarrow> 'r desk
       \<Rightarrow> ('r desk \<times> (TradeSettlementResult \<times> int \<times> Balance) res) option" where
  "settleSecurityLeg Y q n t spot future added dk =
     (let D = e_D (y_env Y); tradeRef = metaString (t_MetaData t) TradeMetaRef;
          priceStr = metaString (t_MetaData t) TradeMetaPrice; qty = or0 (t_PreciseAmount t)
      in case (if \<not> has_side_effects t then (dk, Inr ())
               else case BeginSettlementJournal (y_F Y) (y_now Y) (journal_entry t spot future added) (dk_tables dk) of
                      (T, Inl e) \<Rightarrow> (dk\<lparr>dk_tables := T\<rparr>, Inl e)
                    | (T, Inr _) \<Rightarrow> (dk\<lparr>dk_tables := T\<rparr>, Inr ())) of
           (dk1, Inl e) \<Rightarrow> Some (dk1, Inl e)
         | (dk1, Inr _) \<Rightarrow>
             (case commit_trade_holds Y q n t (dk_world dk1) of
                None \<Rightarrow> None
              | Some (w, Inl e) \<Rightarrow> Some (dk1\<lparr>dk_world := w\<rparr>, Inl e)
              | Some (w, Inr moneyLegID) \<Rightarrow>
                  (let dk2 = dk1\<lparr>dk_world := w\<rparr>; result = leg_result t spot future moneyLegID
                   in if \<not> has_side_effects t then Some (dk2, Inr (result, 0, spot))
                      else case NewFromString D priceStr of
                        None \<Rightarrow> Some (dk2, Inr (result, 0, spot))
                      | Some price \<Rightarrow>
                          (case computeWAAfter D (b_WAPrice spot) (bal spot + added) qty (t_Precision t) price of
                             Inl e \<Rightarrow> Some (dk2, Inl (Wrap ''failed to recalculate wa price'' e))
                           | Inr waAfter \<Rightarrow>
                               (case complete_journal Y (t_TransactionID t) waAfter
                                       (trade_lot (b_BalanceID spot) (b_Instrument future) qty (trunc (t_Precision t))
                                          (String D price) (t_Currency t) tradeRef) dk2 of
                                  (dk3, Inl e) \<Rightarrow> Some (dk3, Inl e)
                                | (dk3, Inr lotID) \<Rightarrow>
                                    Some (dk3, Inr (result\<lparr>sr_WAPrice := waAfter, sr_LotID := lotID\<rparr>, qty,
                                                    spot\<lparr>b_WAPrice := waAfter\<rparr>)))))))"

fun settle_legs ::
    "('d, 'r, 'q) sys \<Rightarrow> 'q \<Rightarrow> nat \<Rightarrow> Transaction list \<Rightarrow> Balance \<Rightarrow> Balance \<Rightarrow> int \<Rightarrow> TradeSettlementResult list \<Rightarrow> 'r desk
       \<Rightarrow> ('r desk \<times> (TradeSettlementResult list \<times> int \<times> Balance) res) option" where
  "settle_legs Y q n [] spot future added acc dk = Some (dk, Inr (acc, added, spot))"
| "settle_legs Y q n (t # ts) spot future added acc dk =
     (case settleSecurityLeg Y q n t spot future added dk of
        None \<Rightarrow> None
      | Some (dk1, Inl e) \<Rightarrow> Some (dk1, Inl e)
      | Some (dk1, Inr (res, qty, spot1)) \<Rightarrow> settle_legs Y q n ts spot1 future (added + qty) (acc @ [res]) dk1)"

definition roll_transaction :: "('d, 'r, 'q) sys \<Rightarrow> string \<Rightarrow> string \<Rightarrow> int \<Rightarrow> string \<Rightarrow> store \<Rightarrow> Transaction" where
  "roll_transaction Y source destination amount currency s =
     zero_Transaction\<lparr>t_TransactionID := fresh_uuid Y ''txn'' s, t_Source := source, t_Destination := destination,
       t_PreciseAmount := Some amount, t_Precision := 1, t_Currency := currency, t_Reference := fresh_uuid Y ''roll'' s,
       t_Description := ''Settlement net roll T+N <-> spot'', t_SkipQueue := True, t_AllowOverdraft := True,
       t_MetaData := Some [TradeMetaLeg \<mapsto> JStr ''roll'']\<rparr>"

definition netRollToSpot ::
    "('d, 'r, 'q) sys \<Rightarrow> string \<Rightarrow> string \<Rightarrow> 'r world \<Rightarrow> ('r world \<times> unit res) option" where
  "netRollToSpot Y futureID spotID w =
     (case GetPositionByID (y_F Y) futureID (w_store w) of
        Inl e \<Rightarrow> Some (w, Inl e)
      | Inr b \<Rightarrow>
          (let future = InitializeBalanceFields b; amount = bal future
           in if amount = 0 then Some (w, Inr ())
              else let t = (if amount < 0 then roll_transaction Y spotID futureID (- amount) (b_Currency future) (w_store w)
                            else roll_transaction Y futureID spotID amount (b_Currency future) (w_store w))
                   in case RecordTransaction (y_env Y) t w of
                        None \<Rightarrow> None
                      | Some (w', Inl e) \<Rightarrow> Some (w', Inl e)
                      | Some (w', Inr _) \<Rightarrow> Some (w', Inr ())))"

text \<open>Buys before sells, then one roll of the net quantity.\<close>

definition is_security_leg :: "Transaction \<Rightarrow> bool" where
  "is_security_leg t \<longleftrightarrow> metaString (t_MetaData t) TradeMetaLeg = TradeMetaLegSecurity"

definition is_sell :: "Transaction \<Rightarrow> bool" where
  "is_sell t \<longleftrightarrow> metaString (t_MetaData t) TradeMetaSide = TradeSideSell"

definition settleFutureBalance ::
    "('d, 'r, 'q) sys \<Rightarrow> 'q \<Rightarrow> nat \<Rightarrow> string \<Rightarrow> 'r desk \<Rightarrow> ('r desk \<times> TradeSettlementResult list res) option" where
  "settleFutureBalance Y q n futureID dk =
     (case GetPositionByID (y_F Y) futureID (dk_store dk) of Inl e \<Rightarrow> Some (dk, Inl e) | Inr future \<Rightarrow>
       if b_AccountRef future = [] \<or> b_Instrument future = [] then
         Some (dk, Inl (Errorf (''balance '' @ futureID @ '' is not a brokerage security position'')))
       else
       (case GetOrCreatePosition Y (spot_key (b_LedgerID future) (b_IdentityID future) (b_AccountRef future)
               (b_Instrument future) (b_Currency future)) dk of (dk1, Inl e) \<Rightarrow> Some (dk1, Inl e) | (dk1, Inr spot) \<Rightarrow>
        (case GetPendingInflightByBalance (y_F Y) futureID (dk_store dk1) of Inl e \<Rightarrow> Some (dk1, Inl e) | Inr legs \<Rightarrow>
         (let legs' = filter is_security_leg legs
          in case settle_legs Y q n (filter (\<lambda>t. \<not> is_sell t) legs') spot future 0 [] dk1 of
               None \<Rightarrow> None
             | Some (dk2, Inl e) \<Rightarrow> Some (dk2, Inl e)
             | Some (dk2, Inr (res, added, spot1)) \<Rightarrow>
                 (case settle_legs Y q n (filter is_sell legs') spot1 future added res dk2 of
                    None \<Rightarrow> None
                  | Some (dk3, Inl e) \<Rightarrow> Some (dk3, Inl e)
                  | Some (dk3, Inr (res', _, _)) \<Rightarrow>
                      (case netRollToSpot Y futureID (b_BalanceID spot) (dk_world dk3) of
                         None \<Rightarrow> None
                       | Some (w, Inl e) \<Rightarrow> Some (dk3\<lparr>dk_world := w\<rparr>, Inl e)
                       | Some (w, Inr _) \<Rightarrow> Some (dk3\<lparr>dk_world := w\<rparr>, Inr res')))))))"

definition SettleTrade ::
    "('d, 'r, 'q) sys \<Rightarrow> 'q \<Rightarrow> nat \<Rightarrow> string \<Rightarrow> 'r desk \<Rightarrow> ('r desk \<times> TradeSettlementResult res) option" where
  "SettleTrade Y q n tid dk =
     (case GetTransaction (y_F Y) tid (dk_store dk) of
        Inl e \<Rightarrow> Some (dk, Inl e)
      | Inr t \<Rightarrow>
          if \<not> is_security_leg t then Some (dk, Inl (Errorf (''transaction '' @ tid @ '' is not a trade security leg'')))
          else let futureID = (if is_sell t then t_Source t else t_Destination t)
               in case settleFutureBalance Y q n futureID dk of
                    None \<Rightarrow> None
                  | Some (dk1, Inl e) \<Rightarrow> Some (dk1, Inl e)
                  | Some (dk1, Inr settled) \<Rightarrow>
                      Some (dk1, Inr (case find (\<lambda>r. sr_SecurityTxnID r = tid) settled of
                        Some r \<Rightarrow> r
                      | None \<Rightarrow> \<lparr>sr_TradeRef = metaString (t_MetaData t) TradeMetaRef, sr_MoneyTxnID = [], sr_SecurityTxnID = tid,
                                 sr_RollTxnID = [], sr_SpotBalanceID = [], sr_FutureBalanceID = futureID, sr_WAPrice = [], sr_LotID = []\<rparr>)))"

text \<open>Recovery of pending journal rows: what cannot be recomputed or completed is skipped.\<close>

definition reconcile_one :: "('d, 'r, 'q) sys \<Rightarrow> SettlementJournalEntry \<Rightarrow> 'r desk \<Rightarrow> 'r desk \<times> bool" where
  "reconcile_one Y e dk =
     (let D = e_D (y_env Y)
      in case NewFromString D (j_Price e) of None \<Rightarrow> (dk, False) | Some price \<Rightarrow>
        (case SetString10 (j_Quantity e) of None \<Rightarrow> (dk, False) | Some tradeQty \<Rightarrow>
         (case computeWAAfter D (j_WABefore e) (or0 (SetString10 (j_QtyBefore e))) tradeQty (of_int (j_Precision e)) price of
            Inl _ \<Rightarrow> (dk, False)
          | Inr waAfter \<Rightarrow>
              (case complete_journal Y (j_SecurityTxnID e) waAfter
                      (trade_lot (j_SpotBalanceID e) (j_Instrument e) tradeQty (j_Precision e) (String D price) (j_Currency e) (j_TradeRef e)) dk of
                 (dk1, Inl _) \<Rightarrow> (dk1, False)
               | (dk1, Inr _) \<Rightarrow> (dk1, True)))))"

fun reconcile_all :: "('d, 'r, 'q) sys \<Rightarrow> SettlementJournalEntry list \<Rightarrow> 'r desk \<times> int \<Rightarrow> 'r desk \<times> int" where
  "reconcile_all Y [] dn = dn"
| "reconcile_all Y (e # es) (dk, n) =
     (case reconcile_one Y e dk of (dk1, done) \<Rightarrow> reconcile_all Y es (dk1, if done then n + 1 else n))"

definition ReconcileSettlement :: "('d, 'r, 'q) sys \<Rightarrow> int \<Rightarrow> 'r desk \<Rightarrow> 'r desk \<times> int res" where
  "ReconcileSettlement Y limit dk =
     (let limit' = (if limit \<le> 0 then defaultSettlementBatch else limit)
      in case ListPendingSettlementJournals (y_F Y) (nat limit') (dk_tables dk) of
           Inl e \<Rightarrow> (dk, Inl e)
         | Inr es \<Rightarrow> (case reconcile_all Y es (dk, 0) of (dk1, n) \<Rightarrow> (dk1, Inr n)))"

record SettlementRunResult =
  rr_AsOf :: int
  rr_Settled :: "TradeSettlementResult list"
  rr_Errors :: "(string \<times> string) list"
  rr_Examined :: nat

fun settle_matured ::
    "('d, 'r, 'q) sys \<Rightarrow> 'q \<Rightarrow> nat \<Rightarrow> Balance list \<Rightarrow> SettlementRunResult \<Rightarrow> 'r desk
       \<Rightarrow> ('r desk \<times> SettlementRunResult) option" where
  "settle_matured Y q n [] r dk = Some (dk, r)"
| "settle_matured Y q n (b # bs) r dk =
     (case settleFutureBalance Y q n (b_BalanceID b) dk of
        None \<Rightarrow> None
      | Some (dk1, Inl e) \<Rightarrow>
          settle_matured Y q n bs (r\<lparr>rr_Examined := rr_Examined r + 1, rr_Errors := map_put (b_BalanceID b) (err_msg e) (rr_Errors r)\<rparr>) dk1
      | Some (dk1, Inr res) \<Rightarrow>
          settle_matured Y q n bs (r\<lparr>rr_Examined := rr_Examined r + 1, rr_Settled := rr_Settled r @ res\<rparr>) dk1)"

definition RunSettlement ::
    "('d, 'r, 'q) sys \<Rightarrow> 'q \<Rightarrow> nat \<Rightarrow> int \<Rightarrow> int \<Rightarrow> 'r desk \<Rightarrow> ('r desk \<times> SettlementRunResult res) option" where
  "RunSettlement Y q n asOf limit dk =
     (let limit' = (if limit \<le> 0 then defaultSettlementBatch else limit);
          dk1 = fst (ReconcileSettlement Y limit' dk)
      in case GetMaturedPositions (y_F Y) asOf (nat limit') (dk_store dk1) of
           Inl e \<Rightarrow> Some (dk1, Inl e)
         | Inr matured \<Rightarrow>
             (case settle_matured Y q n matured \<lparr>rr_AsOf = asOf, rr_Settled = [], rr_Errors = [], rr_Examined = 0\<rparr> dk1 of
                None \<Rightarrow> None
              | Some (dk2, r) \<Rightarrow> Some (dk2, Inr r)))"


section \<open>Facts\<close>

subsection \<open>Mutation plans\<close>

lemma plan_keys_valid:
  assumes "MutationPlan_Validate p = Inr ()" "d \<in> set p"
  shows "k_AccountRef (dl_Key d) \<noteq> []"
proof -
  have "validate_deltas i p = Inr () \<Longrightarrow> d \<in> set p \<Longrightarrow> k_AccountRef (dl_Key d) \<noteq> []" for i
    by (induction i p rule: validate_deltas.induct)
       (auto simp: PositionKey_Validate_def split: sum.splits if_splits)
  with assms show ?thesis by (auto simp: MutationPlan_Validate_def split: if_splits)
qed

lemma ApplyMutationPlan_cases:
  assumes "ApplyMutationPlan Y ord p dk = Some (dk', x)"
  shows "dk_tables dk' = dk_tables dk \<and>
    ((\<exists>e. x = Inl e) \<and> dk_store dk' = dk_store dk \<or>
     x = Inr () \<and> MutationPlan_Validate p = Inr () \<and>
       (if Normalized ord p = [] then dk_store dk' = dk_store dk
        else apply_deltas (y_F Y) (position_uuid Y) (y_now Y) (Normalized ord p) (dk_store dk) = Inr (dk_store dk')))"
proof (cases "MutationPlan_Validate p")
  case (Inl e)
  with assms have "dk' = dk" "x = Inl e" by (simp_all add: ApplyMutationPlan_def)
  then show ?thesis by simp
next
  case (Inr u)
  show ?thesis
  proof (cases "Normalized ord p = []")
    case True
    with Inr assms show ?thesis by (auto simp: ApplyMutationPlan_def)
  next
    case False
    obtain s y where A: "ApplyBalanceDeltas (y_F Y) (position_uuid Y) (y_now Y) (Normalized ord p) (dk_store dk) = (s, y)"
      by force
    have y: "(\<exists>e. y = Inl e) \<and> s = dk_store dk \<or>
        y = Inr () \<and> apply_deltas (y_F Y) (position_uuid Y) (y_now Y) (Normalized ord p) (dk_store dk) = Inr s"
      using A False by (auto simp: ApplyBalanceDeltas_def split: if_splits sum.splits)
    show ?thesis
      using assms Inr False A y
      by (auto simp: ApplyMutationPlan_def Let_def split: option.splits sum.splits prod.splits)
  qed
qed

subsection \<open>Rows that keep their identity\<close>

lemma find_position_put:
  assumes "distinct (map b_BalanceID (st_balances s))" "find_balance (b_BalanceID r) s = Some r0"
    "row_id r = row_id r0" "is_position r = is_position r0"
  shows "find_position i (put_balance r s) =
    map_option (\<lambda>b. if b_BalanceID b = b_BalanceID r then r else b) (find_position i s)"
proof -
  have same: "b = r0" if "b \<in> set (st_balances s)" "b_BalanceID b = b_BalanceID r" for b
    using that find_balance_SomeD [OF assms(2)] assms(1) by (metis distinct_map inj_onD)
  show ?thesis
    unfolding find_position_def put_balance_def set_row_def
    by (simp, rule find_map_same) (use same assms(3,4) in auto)
qed

lemma positions_ok_put:
  assumes "positions_ok s" "find_balance (b_BalanceID r) s = Some r0" "row_id r = row_id r0" "is_position r = is_position r0" "row_ok r"
  shows "positions_ok (put_balance r s)"
proof -
  have ids: "distinct (map b_BalanceID (st_balances s))" and rows: "\<forall>b \<in> set (st_balances s). row_ok b"
    using assms(1) by (simp_all add: positions_ok_def store_ok_def)
  have same: "b = r0" if "b \<in> set (st_balances s)" "b_BalanceID b = b_BalanceID r" for b
    using that find_balance_SomeD [OF assms(2)] ids by (metis distinct_map inj_onD)
  let ?bs = "map (\<lambda>b. if b_BalanceID b = b_BalanceID r then r else b) (st_balances s)"
  have "map b_BalanceID ?bs = map b_BalanceID (st_balances s)" by simp
  moreover have "map row_id (filter is_position ?bs) = map row_id (filter is_position (st_balances s))"
    using same assms(3,4) by (intro filter_map_same) auto
  moreover have "\<forall>b \<in> set ?bs. row_ok b" using rows assms(5) by auto
  ultimately show ?thesis
    using positions_ok_replace [OF assms(1), of ?bs] by (simp add: put_balance_def set_row_def)
qed

lemma GetOrCreatePosition_cases:
  assumes "GetOrCreatePosition Y k dk = (dk', Inr b)"
  obtains r where "locked_in (position_uuid Y (length (st_balances (dk_store dk)))) (y_now Y) k (dk_store dk) (dk_store dk')"
    "find_position (key_id k) (dk_store dk') = Some r" "b = scanPositionRow r" "k_AccountRef k \<noteq> []"
    "dk_tables dk' = dk_tables dk"
proof -
  let ?F = "y_F Y" and ?bid = "position_uuid Y (length (st_balances (dk_store dk)))" and ?s = "dk_store dk"
  have get: "\<exists>r. find_position (key_id k) s = Some r \<and> b = scanPositionRow r" if "GetPosition ?F k s = Inr b" for s
    using that by (auto simp: GetPosition_def find_predicate split: if_splits option.splits)
  obtain s1 where F: "FindOrCreatePosition ?F ?bid (y_now Y) k ?s = (s1, Inr b)" and dk': "dk' = set_store s1 dk"
    using assms by (auto simp: GetOrCreatePosition_def split: prod.splits)
  have val: "k_AccountRef k \<noteq> []"
    using F by (auto simp: FindOrCreatePosition_def PositionKey_Validate_def split: sum.splits if_splits)
  have "GetPosition ?F k s1 = Inr b \<and> locked_in ?bid (y_now Y) k ?s s1"
    using F insert_position_locked [of ?F "''FindOrCreatePosition''" ?bid "y_now Y" k ?s]
    by (auto simp: FindOrCreatePosition_def locked_in_def split: sum.splits if_splits bool.splits)
  with get val dk' that show thesis by (auto simp: set_store_def)
qed

subsection \<open>Recording a hold\<close>

text \<open>
  A recorded hold replaces two rows by rows of the same identity, the inflight debit of the
  source and the inflight credit of the destination raised by its amount.
\<close>

definition hold_moved :: "string \<Rightarrow> string \<Rightarrow> int \<Rightarrow> store \<Rightarrow> store \<Rightarrow> bool" where
  "hold_moved src dst a s s' \<longleftrightarrow> (\<exists>rs rd rs' rd'.
     find_balance src s = Some rs \<and> find_balance dst s = Some rd \<and> src \<noteq> dst \<and> 0 < a \<and>
     b_BalanceID rs' = src \<and> b_BalanceID rd' = dst \<and> row_ok rs' \<and> row_ok rd' \<and>
     (row_id rs' = row_id rs \<and> b_SettleDate rs' = b_SettleDate rs) \<and> (row_id rd' = row_id rd \<and> b_SettleDate rd' = b_SettleDate rd) \<and>
     bal rs' = bal rs \<and> bal rd' = bal rd \<and> idr rs' = idr rs + a \<and> icr rs' = icr rs \<and> idr rd' = idr rd \<and> icr rd' = icr rd + a \<and>
     st_balances s' = st_balances (put_balance rd' (put_balance rs' s)))"

lemma loaded_dims:
  assumes "loaded row b"
  shows "b_LedgerID b = b_LedgerID row" "b_CreatedAt b = b_CreatedAt row"
  using assms by (auto simp: loaded_def)

lemma post_keeps_more [simp]:
  "b_LedgerID (post_debit a i b) = b_LedgerID b" "b_LedgerID (post_credit a i b) = b_LedgerID b"
  by (simp_all add: post_debit_def post_credit_def ledger_simps)

lemma written_dims:
  assumes "b_Currency b = b_Currency row" "b_LedgerID b = b_LedgerID row"
  shows "row_id (written b row) = row_id row" "b_SettleDate (written b row) = b_SettleDate row"
  using assms by (simp_all add: written_def row_id_def)

lemma executed_hold:
  assumes "executed E t s s' t3" "store_ok s" "plain_ids t" "t_Inflight t" "t_Status t = []"
  shows "\<exists>a. hold_moved (t_Source t) (t_Destination t) a s s' \<and> (\<forall>p. t_PreciseAmount t = Some p \<longrightarrow> 0 < p \<longrightarrow> a = p)"
proof -
  from assms(1,3) obtain t2 h sb db where sb: "in_table s sb" and db: "in_table s db"
    and ids: "b_BalanceID sb = t_Source t" "b_BalanceID db = t_Destination t"
    and ap: "applyTransactionToBalances (e_D E) (t\<lparr>t_Source := b_BalanceID sb, t_Destination := b_BalanceID db\<rparr>)
       True False (two_balances sb db) = Inr (t2, h)"
    and t3: "t3 = updateTransactionDetails t2 (h True) (h False)"
    and fin: "if t_PreciseAmount t2 = Some 0 then s' = s
      else persisted t3 (h True) (h False) (prepareTransactionOutbox t3 (h True) (h False)) s s'"
    unfolding executed_def by blast
  from ap assms(4,5) obtain a where a: "0 < a" "t_PreciseAmount t2 = Some a"
    and t2: "t2 = ApplyPrecision (e_D E) (t\<lparr>t_Source := b_BalanceID sb, t_Destination := b_BalanceID db\<rparr>)"
    and h: "h = posted a True True False (two_balances sb db)"
    by (auto simp: apply_other UpdateBalances_iff)
  have hs: "h True = post_debit a True sb" "h False = post_credit a True db"
    by (simp_all add: h posted_def two_balances_def Let_def)
  from fin a have pe: "persisted t3 (h True) (h False) (prepareTransactionOutbox t3 (h True) (h False)) s s'" by simp
  have ne: "b_BalanceID sb \<noteq> b_BalanceID db" using persisted_self [OF sb db] pe hs by fastforce
  from sb db obtain rs rd where rs: "find_balance (b_BalanceID sb) s = Some rs" "loaded rs sb"
    and rd: "find_balance (b_BalanceID db) s = Some rd" "loaded rd db" by (auto simp: in_table_def)
  have "b_BalanceID (h True) \<noteq> b_BalanceID (h False)" using ne by (simp add: hs)
  from persisted_two [OF pe this] rs(1) rd(1) obtain amount where nn: "\<not> nil_numeric (h True)" "\<not> nil_numeric (h False)"
    and s': "s' = (put_balance (written (h False) rd) (put_balance (written (h True) rs) s))
            \<lparr>st_transactions := st_transactions s @ [row_of t3 amount],
             st_outbox := st_outbox s @ (case prepareTransactionOutbox t3 (h True) (h False) of None \<Rightarrow> [] | Some w \<Rightarrow> [pending w])\<rparr>"
    by (metis hs post_keeps(1,2) option.inject)
  have rows: "row_ok rs" "row_ok rd" using store_okD(2) [OF assms(2)] rs rd by auto
  then have ho: "holds_ok (h True)" "holds_ok (h False)"
    using loaded_holds_ok [OF rs(2)] loaded_holds_ok [OF rd(2)] a(1) by (auto simp: hs row_ok_def intro: post_holds_ok)
  have "hold_moved (t_Source t) (t_Destination t) a s s'"
    unfolding hold_moved_def
    by (rule exI [of _ rs], rule exI [of _ rd], rule exI [of _ "written (h True) rs"], rule exI [of _ "written (h False) rd"])
       (use rs rd ids ne a nn rows ho s' loaded_fields [OF rs(2)] loaded_fields [OF rd(2)] loaded_dims [OF rs(2)] loaded_dims [OF rd(2)]
        in \<open>simp add: hs written_dims row_ok_written post_debit_fields post_credit_fields\<close>)
  moreover have "\<forall>p. t_PreciseAmount t = Some p \<longrightarrow> 0 < p \<longrightarrow> a = p"
    using executed_amount [OF assms(1)] assms(5) a(2) by (auto simp: t3)
  ultimately show ?thesis by blast
qed

lemma hold_recorded:
  assumes "store_ok (w_store w)" "uuids_ok E" "RecordTransaction E t w = Some (w', Inr t3)"
    "plain_ids t" "t_Inflight t" "t_Status t = []"
  shows "\<exists>a. hold_moved (t_Source t) (t_Destination t) a (w_store w) (w_store w') \<and>
    (\<forall>p. t_PreciseAmount t = Some p \<longrightarrow> 0 < p \<longrightarrow> a = p)" "store_ok (w_store w')"
proof -
  have "resolveBalanceIDs E t (w_store w) = (w_store w, Inr (t_Source t, t_Destination t))"
    using assms(4) by (intro resolveBalanceIDs_plain) (auto simp: plain_ids_def)
  with RecordTransaction_cases [OF assms(1-3)] have ex: "executed E t (w_store w) (w_store w') t3" by auto
  from executed_hold [OF ex assms(1,4-6)]
  show "\<exists>a. hold_moved (t_Source t) (t_Destination t) a (w_store w) (w_store w') \<and>
    (\<forall>p. t_PreciseAmount t = Some p \<longrightarrow> 0 < p \<longrightarrow> a = p)" .
  from executed_safe [OF assms(1) ex] show "store_ok (w_store w')" by blast
qed

lemma hold_listed:
  assumes "store_ok (w_store w)" "uuids_ok E" "RecordTransaction E t w = Some (w', Inr t3)"
    "plain_ids t" "t_Inflight t" "t_Status t = []" "t_PreciseAmount t = Some a" "0 < a"
  shows "\<exists>r. st_transactions (w_store w') = st_transactions (w_store w) @ [r] \<and> t_TransactionID r = t_TransactionID t \<and>
    t_Reference r = t_Reference t" "o_TransactionID ` set (st_outbox (w_store w')) \<subseteq> insert (t_TransactionID t) (o_TransactionID ` set (st_outbox (w_store w)))"
proof -
  have "resolveBalanceIDs E t (w_store w) = (w_store w, Inr (t_Source t, t_Destination t))"
    using assms(4) by (intro resolveBalanceIDs_plain) (auto simp: plain_ids_def)
  with RecordTransaction_cases [OF assms(1-3)] have ex: "executed E t (w_store w) (w_store w') t3" by auto
  then obtain t2 h sb db where ap: "applyTransactionToBalances (e_D E) (t\<lparr>t_Source := b_BalanceID sb, t_Destination := b_BalanceID db\<rparr>)
       True False (two_balances sb db) = Inr (t2, h)" and t3: "t3 = updateTransactionDetails t2 (h True) (h False)"
    and fin: "if t_PreciseAmount t2 = Some 0 then w_store w' = w_store w
      else persisted t3 (h True) (h False) (prepareTransactionOutbox t3 (h True) (h False)) (w_store w) (w_store w')"
    unfolding executed_def using assms(4) by blast
  note k = apply_keeps_identity [OF ap]
  with fin assms(7,8) have P: "persisted t3 (h True) (h False) (prepareTransactionOutbox t3 (h True) (h False)) (w_store w) (w_store w')"
    by (auto split: if_splits)
  then show "\<exists>r. st_transactions (w_store w') = st_transactions (w_store w) @ [r] \<and> t_TransactionID r = t_TransactionID t \<and>
    t_Reference r = t_Reference t" using k t3 by (fastforce simp: persisted_def row_of_def)
  have "\<forall>o'. prepareTransactionOutbox t3 (h True) (h False) = Some o' \<longrightarrow> o_TransactionID o' = t_TransactionID t"
    using k t3 by (auto simp: prepareTransactionOutbox_def PrepareLineageOutbox_def Let_def split: if_splits)
  with P show "o_TransactionID ` set (st_outbox (w_store w')) \<subseteq> insert (t_TransactionID t) (o_TransactionID ` set (st_outbox (w_store w)))"
    by (auto simp: persisted_def pending_def split: option.splits)
qed

lemma hold_moved_elsewhere:
  assumes "hold_moved src dst a s s'" "k \<noteq> src" "k \<noteq> dst"
  shows "find_balance k s' = find_balance k s"
proof -
  from assms(1) obtain rs rd rs' rd' where h: "find_balance src s = Some rs" "find_balance dst s = Some rd" "src \<noteq> dst"
    "b_BalanceID rs' = src" "b_BalanceID rd' = dst" "st_balances s' = st_balances (put_balance rd' (put_balance rs' s))"
    unfolding hold_moved_def by auto
  have "find_balance k s' = find_balance k (put_balance rd' (put_balance rs' s))"
    by (simp only: find_balance_def h(6))
  with assms(2,3) tbl.get_two [where s = s and b = rs' and c = rd'] h show ?thesis by simp
qed

lemma hold_moved_ok:
  assumes "positions_ok s" "store_ok s'" "hold_moved src dst a s s'"
  shows "positions_ok s'"
proof -
  from assms(3) obtain rs rd rs' rd' where h: "find_balance src s = Some rs" "find_balance dst s = Some rd" "src \<noteq> dst"
    "b_BalanceID rs' = src" "b_BalanceID rd' = dst" "row_ok rs'" "row_ok rd'" "row_id rs' = row_id rs" "row_id rd' = row_id rd"
    "st_balances s' = st_balances (put_balance rd' (put_balance rs' s))"
    unfolding hold_moved_def by blast
  have pos: "is_position rs' = is_position rs" "is_position rd' = is_position rd"
    using h(8,9) by (simp_all add: row_id_def is_position_def)
  have "positions_ok (put_balance rs' s)"
    by (rule positions_ok_put [OF assms(1) _ h(8) pos(1) h(6)]) (simp add: h(1,4))
  moreover have "find_balance dst (put_balance rs' s) = Some rd"
    using h(1-4) tbl.get_put [where s = s and b = rs'] by simp
  ultimately have "positions_ok (put_balance rd' (put_balance rs' s))"
    by (intro positions_ok_put [OF _ _ h(9) pos(2) h(7)]) (simp_all add: h(5))
  with h(10) assms(2) show ?thesis by (simp add: positions_ok_def positions_unique_def)
qed

lemma hold_moved_sums:
  assumes "positions_ok s" "hold_moved src dst a s s'" "find_balance src s = Some rs" "find_balance dst s = Some rd"
    and "\<And>b b'. row_id b = row_id b' \<Longrightarrow> b_SettleDate b = b_SettleDate b' \<Longrightarrow> P b = P b'"
  shows "total (\<lambda>b. if P b then idr b else 0) s' = total (\<lambda>b. if P b then idr b else 0) s + (if P rs then a else 0)"
    "total (\<lambda>b. if P b then icr b else 0) s' = total (\<lambda>b. if P b then icr b else 0) s + (if P rd then a else 0)"
proof -
  from assms(2-4) obtain rs' rd' where h: "src \<noteq> dst" "b_BalanceID rs' = src" "b_BalanceID rd' = dst"
    "row_id rs' = row_id rs" "row_id rd' = row_id rd" "b_SettleDate rs' = b_SettleDate rs" "b_SettleDate rd' = b_SettleDate rd"
    "idr rs' = idr rs + a" "icr rs' = icr rs" "idr rd' = idr rd" "icr rd' = icr rd + a"
    "st_balances s' = st_balances (put_balance rd' (put_balance rs' s))"
    unfolding hold_moved_def by auto
  have ids: "distinct (map b_BalanceID (st_balances s))" using assms(1) by (simp add: positions_ok_def store_ok_def)
  have P: "P rs' = P rs" "P rd' = P rd" using assms(5) h by blast+
  have "total f s' = total f s - f rs + f rs' - f rd + f rd'" for f
    using tbl.tot_two [OF ids, of rs' rs rd' rd f] assms(3,4) h by (simp add: total_def)
  from this [of "\<lambda>b. if P b then idr b else 0"] this [of "\<lambda>b. if P b then icr b else 0"] P h(8-11)
  show "total (\<lambda>b. if P b then idr b else 0) s' = total (\<lambda>b. if P b then idr b else 0) s + (if P rs then a else 0)"
    "total (\<lambda>b. if P b then icr b else 0) s' = total (\<lambda>b. if P b then icr b else 0) s + (if P rd then a else 0)"
    by auto
qed

lemma hold_moved_other:
  assumes "positions_ok s" "hold_moved src dst a s s'" "find_balance src s = Some rs" "find_balance dst s = Some rd"
    "i \<noteq> row_id rs" "i \<noteq> row_id rd"
  shows "find_position i s' = find_position i s"
proof -
  from assms(2-4) obtain rs' rd' where h: "src \<noteq> dst" "b_BalanceID rs' = src" "b_BalanceID rd' = dst"
    "row_id rs' = row_id rs" "row_id rd' = row_id rd"
    "st_balances s' = st_balances (put_balance rd' (put_balance rs' s))"
    unfolding hold_moved_def by auto
  have ids: "distinct (map b_BalanceID (st_balances s))" using assms(1) by (simp add: positions_ok_def store_ok_def)
  have pos: "is_position rs' = is_position rs" "is_position rd' = is_position rd"
    using h(4,5) by (simp_all add: row_id_def is_position_def)
  have ne: "b_BalanceID b \<noteq> src \<and> b_BalanceID b \<noteq> dst" if "find_position i s = Some b" for b
    using find_positionD [OF that] find_balance_SomeD [OF assms(3)] find_balance_SomeD [OF assms(4)] ids assms(5,6)
    by (metis distinct_map inj_onD)
  have "find_balance (b_BalanceID rd') (put_balance rs' s) = Some rd"
    using h(1-3) assms(3,4) tbl.get_put [where s = s and b = rs'] by simp
  then have "find_position i (put_balance rd' (put_balance rs' s)) =
      map_option (\<lambda>b. if b_BalanceID b = dst then rd' else b)
        (map_option (\<lambda>b. if b_BalanceID b = src then rs' else b) (find_position i s))"
    using find_position_put [OF _ _ h(5) pos(2), of "put_balance rs' s" i] find_position_put [OF ids _ h(4) pos(1), of i]
      h(2,3) assms(3) ids by simp
  moreover have "find_position i s' = find_position i (put_balance rd' (put_balance rs' s))"
    by (simp only: find_position_def h(6))
  ultimately show ?thesis using ne by (cases "find_position i s") auto
qed

text \<open>Creating a position on the way changes no other position and no hold.\<close>

lemma locked_in_sums:
  assumes "locked_in bid now k s s1"
  shows "total (\<lambda>b. if P b then idr b else 0) s1 = total (\<lambda>b. if P b then idr b else 0) s"
    "total (\<lambda>b. if P b then icr b else 0) s1 = total (\<lambda>b. if P b then icr b else 0) s"
  using assms by (auto simp: locked_in_def total_def new_position_def)

lemma locked_in_other:
  assumes "locked_in bid now k s s1" "k_AccountRef k \<noteq> []" "i \<noteq> key_id k \<or> find_position (key_id k) s \<noteq> None"
  shows "find_position i s1 = find_position i s"
  using assms find_position_new [OF assms(2), of i s bid now] by (auto simp: locked_in_def split: option.splits)

lemma SumFutureHolds_total:
  "SumFutureHolds F l i a ins c d s =
     (if F ''SumFutureHolds'' then Inl (internal ''Failed to sum future holds'')
      else Inr (total (\<lambda>b. if same_dims l i a ins c b \<and> b_SettleDate b \<noteq> None \<and> date_col (b_SettleDate b) \<le> d then icr b else 0) s,
                total (\<lambda>b. if same_dims l i a ins c b \<and> b_SettleDate b \<noteq> None \<and> date_col (b_SettleDate b) \<le> d then idr b else 0) s))"
  by (simp add: SumFutureHolds_def total_def sum_list_map_filter')

subsection \<open>A sell that went through\<close>

lemma SellTrade_cases:
  assumes "SellTrade Y q n g dk = Some (dk', Inr r)"
  obtains params settleDate settleCode t qty dk1 mb dk2 dp money w m x where
    "GetTradablePosition (y_F Y) (g_LedgerID g) (g_IdentityID g) (g_AccountRef g) (g_Instrument g) (g_Currency g)
       settleDate (dk_store dk) (dk_tables dk) = Inr t"
    "PreciseQuantity (e_D (y_env Y)) (g_Quantity g) (g_QuantityPrecision g) = Inr qty" "qty \<le> tr_Tradable t"
    "GetOrCreatePosition Y (money_key g) dk = (dk1, Inr mb)"
    "GetOrCreatePosition Y (future_key g settleDate settleCode) dk1 = (dk2, Inr dp)"
    "book_legs Y q n ''sell ''
       (money_leg Y g TradeSideSell (tp_venue params) settleDate (g_SettlementBalanceID g) (b_BalanceID mb) money)
       (security_leg Y g TradeSideSell params settleDate (b_BalanceID dp) (g_MarketBalanceID g) qty)
       (dk_world dk2) = Some (w, Inr (m, x))"
    "dk' = dk2\<lparr>dk_world := w\<rparr>" "br_Tradable r = Some t" "br_SettleDate r = settleDate"
    "br_PositionBalanceID r = b_BalanceID dp" "g_Instrument g \<noteq> []"
proof -
  have ins: "g_Instrument g \<noteq> []"
    using assms by (auto simp: SellTrade_def SellBooking_Validate_def booking_validate_def Let_def split: sum.splits if_splits)
  from assms obtain params where 1: "resolveTradeParams (y_F Y) (g_Instrument g) (g_SettleOffset g) (g_Venue g) (dk_tables dk) = Inr params"
    by (auto simp: SellTrade_def Let_def split: sum.splits)
  from assms 1 obtain sd sc where 2: "resolveSettlement (y_F Y) params (booking_date Y g) (g_SettleDate g) (dk_tables dk) = Inr (sd, sc)"
    by (auto simp: SellTrade_def Let_def split: sum.splits)
  from assms 1 2 obtain t where 3: "GetTradablePosition (y_F Y) (g_LedgerID g) (g_IdentityID g) (g_AccountRef g) (g_Instrument g)
      (g_Currency g) sd (dk_store dk) (dk_tables dk) = Inr t"
    by (auto simp: SellTrade_def Let_def split: sum.splits)
  from assms 1 2 3 obtain qty where 4: "PreciseQuantity (e_D (y_env Y)) (g_Quantity g) (g_QuantityPrecision g) = Inr qty" "qty \<le> tr_Tradable t"
    by (auto simp: SellTrade_def Let_def not_less split: sum.splits if_splits)
  from assms 1 2 3 4 obtain dk1 mb where 5: "GetOrCreatePosition Y (money_key g) dk = (dk1, Inr mb)"
    by (auto simp: SellTrade_def Let_def not_less split: sum.splits prod.splits)
  from assms 1 2 3 4 5 obtain dk2 dp where 6: "GetOrCreatePosition Y (future_key g sd sc) dk1 = (dk2, Inr dp)"
    by (auto simp: SellTrade_def Let_def not_less split: sum.splits prod.splits)
  from assms 1 2 3 4 5 6 obtain money where 7: "PreciseMoney (e_D (y_env Y)) (g_Quantity g) (g_Price g) (g_MoneyPrecision g) = Inr money"
    by (auto simp: SellTrade_def Let_def not_less split: sum.splits)
  from assms 1 2 3 4 5 6 7 obtain w m x where 8: "book_legs Y q n ''sell ''
       (money_leg Y g TradeSideSell (tp_venue params) sd (g_SettlementBalanceID g) (b_BalanceID mb) money)
       (security_leg Y g TradeSideSell params sd (b_BalanceID dp) (g_MarketBalanceID g) qty)
       (dk_world dk2) = Some (w, Inr (m, x))" "dk' = dk2\<lparr>dk_world := w\<rparr>" "br_Tradable r = Some t" "br_SettleDate r = sd"
       "br_PositionBalanceID r = b_BalanceID dp"
    by (auto simp: SellTrade_def Let_def not_less split: sum.splits option.splits prod.splits)
  show thesis by (rule that [OF 3 4 5 6 8 ins])
qed

lemma book_legs_cases:
  assumes "book_legs Y q n what money security w = Some (w', Inr (m, x))"
  obtains w1 where "RecordTransaction (y_env Y) (money (w_store w)) w = Some (w1, Inr m)"
    "RecordTransaction (y_env Y) (security (t_TransactionID m) (w_store w1)) w1 = Some (w', Inr x)"
  using assms by (auto simp: book_legs_def split: option.splits sum.splits prod.splits)

text \<open>The client's own rows in the instrument, and what the tradable quantity reads of the store.\<close>

definition own :: "Booking \<Rightarrow> Balance \<Rightarrow> bool" where
  "own g b \<longleftrightarrow> same_dims (g_LedgerID g) (g_IdentityID g) (g_AccountRef g) (g_Instrument g) (g_Currency g) b"

definition maturing :: "Booking \<Rightarrow> int \<Rightarrow> Balance \<Rightarrow> bool" where
  "maturing g d b \<longleftrightarrow> own g b \<and> b_SettleDate b \<noteq> None \<and> date_col (b_SettleDate b) \<le> d"

definition own_spot :: "Booking \<Rightarrow> position_id" where
  "own_spot g = key_id (spot_key (g_LedgerID g) (g_IdentityID g) (g_AccountRef g) (g_Instrument g) (g_Currency g))"

lemma own_row_id:
  assumes "g_AccountRef g \<noteq> []" "\<not> own g b"
  shows "row_id b \<noteq> own_spot g" "row_id b \<noteq> key_id (future_key g d c)"
  using assms by (auto simp: own_def same_dims_def row_id_def own_spot_def key_id_def spot_key_def future_key_def)

lemma own_cong: "row_id b = row_id b' \<Longrightarrow> own g b = own g b'"
  by (auto simp: own_def same_dims_def row_id_def)

lemma maturing_cong: "row_id b = row_id b' \<Longrightarrow> b_SettleDate b = b_SettleDate b' \<Longrightarrow> maturing g d b = maturing g d b'"
  using own_cong [of b b' g] by (simp add: maturing_def)

lemma key_ids_differ:
  assumes "g_Instrument g \<noteq> []"
  shows "own_spot g \<noteq> key_id (money_key g)" "key_id (future_key g d c) \<noteq> key_id (money_key g)"
    "d \<noteq> 0 \<Longrightarrow> own_spot g \<noteq> key_id (future_key g d c)"
  using assms by (auto simp: own_spot_def key_id_def spot_key_def money_key_def future_key_def date_col_def)

lemma hold_moved_find:
  assumes "hold_moved src dst a s s'" "find_balance k s' = Some b'"
  shows "\<exists>b. find_balance k s = Some b \<and> row_id b = row_id b'"
proof -
  from assms(1) obtain rs rd rs' rd' where h: "find_balance src s = Some rs" "find_balance dst s = Some rd" "src \<noteq> dst"
    "b_BalanceID rs' = src" "b_BalanceID rd' = dst" "row_id rs' = row_id rs" "row_id rd' = row_id rd"
    "st_balances s' = st_balances (put_balance rd' (put_balance rs' s))"
    unfolding hold_moved_def by auto
  have "find_balance k s' = find_balance k (put_balance rd' (put_balance rs' s))"
    by (simp only: find_balance_def h(8))
  also have "\<dots> = (if k = dst then Some rd' else if k = src then Some rs' else find_balance k s)"
    using tbl.get_two [where s = s and b = rs' and c = rd'] h by simp
  finally have "Some b' = (if k = dst then Some rd' else if k = src then Some rs' else find_balance k s)"
    using assms(2) by simp
  then show ?thesis using h(1,2,6,7) by (auto split: if_splits intro: sym)
qed

lemma find_position_balance:
  assumes "positions_ok s" "find_position i s = Some r"
  shows "find_balance (b_BalanceID r) s = Some r"
  using assms find_positionD [OF assms(2)] find_row_mem [of b_BalanceID "st_balances s" r]
  by (simp add: find_balance_def positions_ok_def store_ok_def)

lemma locked_in_not_own:
  assumes "locked_in bid now k s s1" "find_balance j s1 = Some b" "\<forall>b. find_balance j s = Some b \<longrightarrow> \<not> own g b"
    and "k_Instrument k \<noteq> g_Instrument g \<or> (\<forall>r. find_position (key_id k) s1 = Some r \<longrightarrow> b_BalanceID r \<noteq> j)" "k_AccountRef k \<noteq> []"
  shows "\<not> own g b"
proof (cases "find_balance j s = Some b")
  case False
  with assms(1,2) have new: "s1 = s\<lparr>st_balances := st_balances s @ [new_position bid now k]\<rparr>" "find_position (key_id k) s = None"
    by (auto simp: locked_in_def)
  have "b = new_position bid now k \<and> b_BalanceID b = j"
    using assms(2) False new(1) by (auto simp: find_balance_def find_row_def find_append split: option.splits if_splits)
  moreover have "find_position (key_id k) s1 = Some (new_position bid now k)"
    using find_position_new [OF assms(5), of "key_id k" s bid now] new by simp
  ultimately show ?thesis using assms(4) by (auto simp: own_def same_dims_def new_position_def)
qed (use assms(3) in blast)

lemma tradable_after:
  assumes "GetTradablePosition F l i a ins c d s T = Inr t"
    and "find_position (key_id (spot_key l i a ins c)) s' = find_position (key_id (spot_key l i a ins c)) s"
    and "\<And>inc out. SumFutureHolds F l i a ins c d s = Inr (inc, out) \<Longrightarrow> SumFutureHolds F l i a ins c d s' = Inr (inc, out + qty)"
    and "0 < qty" "qty \<le> tr_Tradable t"
  shows "\<exists>t'. GetTradablePosition F l i a ins c d s' T = Inr t' \<and> tr_Tradable t' = tr_Tradable t - qty"
proof -
  let ?k = "spot_key l i a ins c"
  have pos: "GetPosition F ?k s' = GetPosition F ?k s" by (simp add: GetPosition_def find_predicate assms(2))
  from assms(1) obtain inc out where sums: "SumFutureHolds F l i a ins c d s = Inr (inc, out)"
    by (auto simp: GetTradablePosition_def split: sum.splits if_splits prod.splits)
  with assms(3) have "SumFutureHolds F l i a ins c d s' = Inr (inc, out + qty)" by blast
  with sums assms(1,4,5) show ?thesis
    by (auto simp: GetTradablePosition_def pos Let_def ComputeTradable_def split: sum.splits if_splits)
qed

text \<open>
  The two holds of a sell on stores with the positions in place: the money leg moves nothing
  of the client's in the instrument, the security leg holds the quantity on the delivering row.
\<close>

lemma two_holds_effect:
  assumes "positions_ok s2" "positions_ok s3" "hold_moved sid mid a s2 s3" "hold_moved pid kid qty s3 s4"
    and "find_balance sid s2 = Some rs" "find_balance mid s2 = Some rm" "find_balance pid s3 = Some rp" "find_balance kid s3 = Some rk"
    and "\<not> own g rs" "\<not> own g rm" "maturing g d rp" "\<not> own g rk" "g_AccountRef g \<noteq> []" "row_id rp \<noteq> own_spot g"
  shows "total (\<lambda>b. if maturing g d b then idr b else 0) s4 = total (\<lambda>b. if maturing g d b then idr b else 0) s2 + qty"
    "total (\<lambda>b. if maturing g d b then icr b else 0) s4 = total (\<lambda>b. if maturing g d b then icr b else 0) s2"
    "find_position (own_spot g) s4 = find_position (own_spot g) s2"
proof -
  have n: "\<not> maturing g d rs" "\<not> maturing g d rm" "\<not> maturing g d rk" using assms(9,10,12) by (simp_all add: maturing_def)
  note A = hold_moved_sums [where P = "maturing g d", OF assms(1,3,5,6) maturing_cong]
  note B = hold_moved_sums [where P = "maturing g d", OF assms(2,4,7,8) maturing_cong]
  show "total (\<lambda>b. if maturing g d b then idr b else 0) s4 = total (\<lambda>b. if maturing g d b then idr b else 0) s2 + qty"
    "total (\<lambda>b. if maturing g d b then icr b else 0) s4 = total (\<lambda>b. if maturing g d b then icr b else 0) s2"
    by (simp_all only: A B n assms(11) if_True if_False add_0_right)
  show "find_position (own_spot g) s4 = find_position (own_spot g) s2"
    using hold_moved_other [OF assms(2,4,7,8), of "own_spot g"] hold_moved_other [OF assms(1,3,5,6), of "own_spot g"]
      own_row_id(1) [OF assms(13,9)] own_row_id(1) [OF assms(13,10)] own_row_id(1) [OF assms(13,12)] assms(14) by metis
qed

lemma tradable_after_sell:
  assumes "GetTradablePosition F (g_LedgerID g) (g_IdentityID g) (g_AccountRef g) (g_Instrument g) (g_Currency g) d s T = Inr t"
    and "total (\<lambda>b. if maturing g d b then idr b else 0) s4 = total (\<lambda>b. if maturing g d b then idr b else 0) s + qty"
    and "total (\<lambda>b. if maturing g d b then icr b else 0) s4 = total (\<lambda>b. if maturing g d b then icr b else 0) s"
    and "find_position (own_spot g) s4 = find_position (own_spot g) s" "0 < qty" "qty \<le> tr_Tradable t"
  shows "\<exists>t'. GetTradablePosition F (g_LedgerID g) (g_IdentityID g) (g_AccountRef g) (g_Instrument g) (g_Currency g) d s4 T = Inr t' \<and>
    tr_Tradable t' = tr_Tradable t - qty"
proof (rule tradable_after [OF assms(1)])
  let ?sum = "SumFutureHolds F (g_LedgerID g) (g_IdentityID g) (g_AccountRef g) (g_Instrument g) (g_Currency g) d"
  show "?sum s4 = Inr (i, o' + qty)" if "?sum s = Inr (i, o')" for i o'
    using that assms(2,3) unfolding SumFutureHolds_total own_def [symmetric] maturing_def [symmetric] by (simp split: if_splits)
qed (use assms(4-6) in \<open>simp_all add: own_spot_def\<close>)

text \<open>The stores a successful sell goes through, up to the recording of its legs.\<close>

lemma sell_positions:
  assumes "positions_ok s" "locked_in b1 now (money_key g) s s1" "locked_in b2 now (future_key g d sc) s1 s2"
    and "find_position (key_id (money_key g)) s1 = Some rm" "find_position (key_id (future_key g d sc)) s2 = Some rp"
    and "g_AccountRef g \<noteq> []" "g_Instrument g \<noteq> []" "d \<noteq> 0" "b1 \<noteq> []" "b2 \<noteq> []"
  shows "positions_ok s2" "find_balance (b_BalanceID rm) s2 = Some rm" "find_position (own_spot g) s2 = find_position (own_spot g) s"
    "\<not> own g rm" "maturing g d rp" "row_id rp \<noteq> own_spot g"
    "\<forall>b. find_balance j s = Some b \<longrightarrow> \<not> own g b \<Longrightarrow> j \<noteq> b_BalanceID rp \<Longrightarrow> find_balance j s2 = Some b \<Longrightarrow> \<not> own g b"
proof -
  have acc: "k_AccountRef (money_key g) \<noteq> []" "k_AccountRef (future_key g d sc) \<noteq> []"
    using assms(6) by (simp_all add: money_key_def future_key_def spot_key_def)
  note kd = key_ids_differ [OF assms(7)]
  have ok1: "positions_ok s1" by (rule locked_in_ok(1) [OF assms(1,2) acc(1) assms(9)])
  show ok2: "positions_ok s2" by (rule locked_in_ok(1) [OF ok1 assms(3) acc(2) assms(10)])
  have rm2: "find_position (key_id (money_key g)) s2 = Some rm"
    using locked_in_other [OF assms(3) acc(2)] kd(2) assms(4) by metis
  then show "find_balance (b_BalanceID rm) s2 = Some rm" by (rule find_position_balance [OF ok2])
  show "find_position (own_spot g) s2 = find_position (own_spot g) s"
    using locked_in_other [OF assms(3) acc(2)] locked_in_other [OF assms(2) acc(1)] kd(1) kd(3) [OF assms(8)] by metis
  have "row_id rm = key_id (money_key g)" using find_positionD [OF rm2] by simp
  then show "\<not> own g rm" using assms(7) by (auto simp: own_def same_dims_def row_id_def key_id_def money_key_def spot_key_def)
  have rp: "row_id rp = key_id (future_key g d sc)" using find_positionD [OF assms(5)] by simp
  then show "row_id rp \<noteq> own_spot g" using kd(3) [OF assms(8)] by metis
  from rp show "maturing g d rp"
    using assms(6,8)
    by (auto simp: maturing_def own_def same_dims_def row_id_def key_id_def future_key_def spot_key_def date_col_def split: option.splits)
  show "\<not> own g b" if "\<forall>b. find_balance j s = Some b \<longrightarrow> \<not> own g b" "j \<noteq> b_BalanceID rp" "find_balance j s2 = Some b"
  proof -
    have "\<forall>b. find_balance j s1 = Some b \<longrightarrow> \<not> own g b"
      using locked_in_not_own [OF assms(2) _ that(1)] acc assms(7) by (auto simp: money_key_def spot_key_def)
    with locked_in_not_own [OF assms(3) that(3)] that(2) assms(5) acc show ?thesis by auto
  qed
qed

lemma sell_legs:
  assumes "book_legs Y q n what
       (money_leg Y g TradeSideSell venue d (g_SettlementBalanceID g) mid money)
       (security_leg Y g TradeSideSell params d pid (g_MarketBalanceID g) qty) w0 = Some (w, Inr (m, x))"
    and "store_ok (w_store w0)" "uuids_ok (y_env Y)" "\<not> has_prefix (g_SettlementBalanceID g) ''@''"
    "\<not> has_prefix (g_MarketBalanceID g) ''@''" "\<not> has_prefix mid ''@''" "\<not> has_prefix pid ''@''" "0 < qty"
  shows "\<exists>s1 a. store_ok s1 \<and> hold_moved (g_SettlementBalanceID g) mid a (w_store w0) s1 \<and>
    hold_moved pid (g_MarketBalanceID g) qty s1 (w_store w)"
proof -
  let ?m = "money_leg Y g TradeSideSell venue d (g_SettlementBalanceID g) mid money (w_store w0)"
  from assms(1) obtain w1 where R1: "RecordTransaction (y_env Y) ?m w0 = Some (w1, Inr m)"
    and R2: "RecordTransaction (y_env Y) (security_leg Y g TradeSideSell params d pid (g_MarketBalanceID g) qty (t_TransactionID m)
      (w_store w1)) w1 = Some (w, Inr x)"
    by (rule book_legs_cases)
  have pl: "plain_ids ?m" "plain_ids (security_leg Y g TradeSideSell params d pid (g_MarketBalanceID g) qty (t_TransactionID m) (w_store w1))"
    using assms(4-7) by (simp_all add: plain_ids_def money_leg_def security_leg_def)
  have "\<exists>a. hold_moved (g_SettlementBalanceID g) mid a (w_store w0) (w_store w1)" and so: "store_ok (w_store w1)"
    using hold_recorded [OF assms(2,3) R1 pl(1)] by (auto simp: money_leg_def zero_Transaction_def)
  moreover have "hold_moved pid (g_MarketBalanceID g) qty (w_store w1) (w_store w)"
    using hold_recorded(1) [OF so assms(3) R2 pl(2)] assms(8) by (auto simp: security_leg_def zero_Transaction_def)
  ultimately show ?thesis by blast
qed

section \<open>Properties\<close>

text \<open>
  \<open>PositionKey.Validate\<close> accepts the separator in the fields, and keys of different positions can
  then have the same lock key: their deltas become one delta, of the first position.
\<close>

definition ex_bar_key :: "string \<Rightarrow> string \<Rightarrow> PositionKey" where
  "ex_bar_key l i = \<lparr>k_LedgerID = l, k_IdentityID = i, k_AccountRef = ''acc'', k_Instrument = [], k_Currency = ''USD'',
     k_SettleDate = None, k_SettleCode = None\<rparr>"

definition ex_bar_delta :: "string \<Rightarrow> string \<Rightarrow> int \<Rightarrow> BalanceDelta" where
  "ex_bar_delta l i n = \<lparr>dl_Key = ex_bar_key l i, dl_Amount = Some n, dl_Blocked = None, dl_Waiting = None\<rparr>"

lemma lock_keys_merge:
  "key_id (ex_bar_key ''a|b'' ''c'') \<noteq> key_id (ex_bar_key ''a'' ''b|c'') \<and>
   MutationPlan_Validate [ex_bar_delta ''a|b'' ''c'' 5, ex_bar_delta ''a'' ''b|c'' 7] = Inr () \<and>
   map (\<lambda>d. (dl_Key d, dl_Amount d)) (Normalized (\<lambda>m. m) [ex_bar_delta ''a|b'' ''c'' 5, ex_bar_delta ''a'' ''b|c'' 7]) =
     [(ex_bar_key ''a|b'' ''c'', Some 12)]"
  by code_simp

text \<open>
  C29: Mutation plans refine the abstract positions, for keys whose fields do not contain the separator
  | of the lock key and whose settle dates are not before 1970. Seen as a map from the identities of such
  positions to settled, blocked and awaited amounts, a plan over such keys that \<open>ApplyMutationPlan\<close> accepts
  adds exactly its own effect to every position (missing rows counting as zero and created on the fly), keeps
  the table invariants (one row per position, net fields consistent, no negative hold), and
  touches neither native balances nor transactions; a plan that fails at any step changes
  nothing. (The table is sound at the start and generated ids are not empty. With a | in a field two different
  positions can share a lock key, and the plan merges their deltas, as the lemma above shows.)
\<close>

theorem mutation_plan_refines:
  assumes "iterates ord" "positions_ok (dk_store dk)" "uuids_ok (y_env Y)"
    and "\<forall>d \<in> set p. key_plain (dl_Key d)"
    and "ApplyMutationPlan Y ord p dk = Some (dk', x)"
  shows "positions_ok (dk_store dk') \<and> native_rows (dk_store dk') = native_rows (dk_store dk) \<and>
    st_transactions (dk_store dk') = st_transactions (dk_store dk) \<and>
    (x = Inr () \<longrightarrow> (\<forall>k. key_plain k \<longrightarrow>
       abs_positions (dk_store dk') (key_id k) = add3 (abs_positions (dk_store dk) (key_id k)) (plan_effect p (LockKey k)))) \<and>
    (x \<noteq> Inr () \<longrightarrow> dk_store dk' = dk_store dk)"
proof -
  let ?s = "dk_store dk" and ?s' = "dk_store dk'" and ?n = "Normalized ord p"
  note c = ApplyMutationPlan_cases [OF assms(5)]
  show ?thesis
  proof (cases "x = Inr ()")
    case False
    with c assms(2) show ?thesis by auto
  next
    case True
    with c have val: "MutationPlan_Validate p = Inr ()"
      and run: "if ?n = [] then ?s' = ?s else apply_deltas (y_F Y) (position_uuid Y) (y_now Y) ?n ?s = Inr ?s'" by auto
    from run have run': "apply_deltas (y_F Y) (position_uuid Y) (y_now Y) ?n ?s = Inr ?s'" by (auto split: if_splits)
    have ids: "ids_ok (position_uuid Y)" using assms(3) by (simp add: ids_ok_def position_uuid_def uuids_ok_def)
    have nv: "delta_valid d" if "d \<in> set ?n" for d
      using normalized_keys [OF assms(1) that] plan_keys_valid [OF val] assms(4) by (auto simp: delta_valid_def)
    have eff: "plan_effect ?n (LockKey k) = plan_effect p (LockKey k)" for k
      using normalized_parts(4) [OF assms(1)] additive_components by (simp add: plan_effect_def)
    have r: "positions_ok ?s'" "abs_positions ?s' i = add3 (abs_positions ?s i) (deltas_at ?n i)" for i
      using pos.run_refines [OF run' [unfolded apply_deltas_run] assms(2)] nv ids by blast+
    have "abs_positions ?s' (key_id k) = add3 (abs_positions ?s (key_id k)) (plan_effect p (LockKey k))"
      if "key_plain k" for k
      using r(2) plan_effect_at [of ?n k] nv that eff by (auto simp: delta_valid_def)
    with r(1) apply_deltas_frame [OF run' assms(2) _ ids] nv True show ?thesis by auto
  qed
qed

definition ex_desk :: "rstore desk" where
  "ex_desk = \<lparr>dk_world = ex_world\<lparr>w_store := ex_store\<lparr>st_ledgers := [''ldg'']\<rparr>\<rparr>,
     dk_tables = \<lparr>tb_lots = [], tb_holidays = [], tb_settings = [], tb_journal = []\<rparr>\<rparr>"

lemma ex_row_native [simp]: "\<not> is_position (ex_row bid a)"
  by (simp add: is_position_def ex_row_def InitializeBalanceFields_def zero_Balance_def)

lemma ex_desk_ok: "positions_ok (dk_store ex_desk)"
  using ex_store_ok by (simp add: positions_ok_def positions_unique_def store_ok_def ex_desk_def ex_store_def)

definition ex_trade_sys :: "(rat, rstore, task list) sys" where
  "ex_trade_sys = ex_sys\<lparr>y_env := ex_env\<lparr>e_ticks := [\<lparr>tk_now = 0, tk_world = (\<lambda>r. r), tk_ctx = None, tk_sleep = None\<rparr>]\<rparr>\<rparr>"

theorem mutation_plan_refines_witness:
  "\<exists>dk'. ApplyMutationPlan ex_trade_sys rev ex_plan ex_desk = Some (dk', Inr ()) \<and>
     abs_positions (dk_store dk') (key_id (ex_key ''AAA'')) = (7, 1, 0)"
proof -
  have run: "map_option snd (ApplyMutationPlan ex_trade_sys rev ex_plan ex_desk) = Some (Inr ())" by code_simp
  then obtain dk' where D: "ApplyMutationPlan ex_trade_sys rev ex_plan ex_desk = Some (dk', Inr ())" by auto
  have u: "uuids_ok (y_env ex_trade_sys)" using ex_env_ok by (simp add: ex_trade_sys_def uuids_ok_def)
  have pl: "\<forall>d \<in> set ex_plan. key_plain (dl_Key d)" "key_plain (ex_key ''AAA'')"
    by (simp_all add: ex_plan_def key_plain_def ex_key_def date_col_def)
  have "iterates rev" by (simp add: iterates_def)
  from mutation_plan_refines [OF this ex_desk_ok u pl(1) D] pl(2)
  have "abs_positions (dk_store dk') (key_id (ex_key ''AAA'')) =
      add3 (abs_positions (dk_store ex_desk) (key_id (ex_key ''AAA''))) (plan_effect ex_plan (LockKey (ex_key ''AAA'')))" by blast
  moreover have "abs_positions (dk_store ex_desk) (key_id (ex_key ''AAA'')) = (0, 0, 0)"
    by (simp add: abs_positions_def find_position_def ex_desk_def ex_store_def position_of_def)
  moreover have "plan_effect ex_plan (LockKey (ex_key ''AAA'')) = (7, 1, 0)" by code_simp
  ultimately show ?thesis using D by (auto simp: add3_def)
qed


text \<open>
  C28: A sell is covered and counted. When \<open>SellTrade\<close> of a positive quantity goes through, the
  quantity was covered by the tradable position it checked, and right afterwards the tradable position at that
  settle date is smaller by exactly the quantity sold, since the delivery hold it placed counts against
  it. (Conditions: the position table is sound, with one row per position; generated ids are not empty; no
  balance id and no generated id starts with @; the settlement and market balances belong to the broker: they
  are not rows of the client in the instrument, nor the delivering position; the settle date is not the
  sentinel day.)
\<close>

theorem sell_reduces_tradable:
  assumes "positions_ok (dk_store dk)" "uuids_ok (y_env Y)" "\<forall>x. \<not> has_prefix (e_uuid (y_env Y) x) ''@''"
    and "\<forall>b \<in> set (st_balances (dk_store dk)). \<not> has_prefix (b_BalanceID b) ''@''"
    and "\<not> has_prefix (g_SettlementBalanceID g) ''@''" "\<not> has_prefix (g_MarketBalanceID g) ''@''"
    and "\<forall>b. find_balance (g_SettlementBalanceID g) (dk_store dk) = Some b \<longrightarrow> \<not> own g b"
    and "\<forall>b. find_balance (g_MarketBalanceID g) (dk_store dk) = Some b \<longrightarrow> \<not> own g b"
    and "SellTrade Y q n g dk = Some (dk', Inr r)"
    and "PreciseQuantity (e_D (y_env Y)) (g_Quantity g) (g_QuantityPrecision g) = Inr qty" "0 < qty"
    and "br_SettleDate r \<noteq> 0" "g_SettlementBalanceID g \<noteq> br_PositionBalanceID r"
  shows "\<exists>t t'. br_Tradable r = Some t \<and> qty \<le> tr_Tradable t \<and>
    GetTradablePosition (y_F Y) (g_LedgerID g) (g_IdentityID g) (g_AccountRef g) (g_Instrument g) (g_Currency g)
      (br_SettleDate r) (dk_store dk') (dk_tables dk') = Inr t' \<and>
    tr_Tradable t' = tr_Tradable t - qty"
proof -
  from assms(9) obtain params d sc t qty' dk1 mb dk2 dp money w m x where
    T: "GetTradablePosition (y_F Y) (g_LedgerID g) (g_IdentityID g) (g_AccountRef g) (g_Instrument g) (g_Currency g)
       d (dk_store dk) (dk_tables dk) = Inr t"
    and Q: "PreciseQuantity (e_D (y_env Y)) (g_Quantity g) (g_QuantityPrecision g) = Inr qty'" "qty' \<le> tr_Tradable t"
    and M: "GetOrCreatePosition Y (money_key g) dk = (dk1, Inr mb)"
    and P: "GetOrCreatePosition Y (future_key g d sc) dk1 = (dk2, Inr dp)"
    and B: "book_legs Y q n ''sell ''
       (money_leg Y g TradeSideSell (tp_venue params) d (g_SettlementBalanceID g) (b_BalanceID mb) money)
       (security_leg Y g TradeSideSell params d (b_BalanceID dp) (g_MarketBalanceID g) qty')
       (dk_world dk2) = Some (w, Inr (m, x))"
    and dk': "dk' = dk2\<lparr>dk_world := w\<rparr>" and r: "br_Tradable r = Some t" "br_SettleDate r = d" "br_PositionBalanceID r = b_BalanceID dp"
    and ins: "g_Instrument g \<noteq> []"
    by (rule SellTrade_cases)
  let ?s = "dk_store dk" and ?s1 = "dk_store dk1" and ?s2 = "dk_store dk2" and ?fk = "future_key g d sc"
  have qty: "qty' = qty" using Q assms(10) by simp
  obtain rm where L1: "locked_in (position_uuid Y (length (st_balances ?s))) (y_now Y) (money_key g) ?s ?s1"
    and rm: "find_position (key_id (money_key g)) ?s1 = Some rm" "mb = scanPositionRow rm" "g_AccountRef g \<noteq> []"
    and T1: "dk_tables dk1 = dk_tables dk"
    using GetOrCreatePosition_cases [OF M] by (auto simp: money_key_def spot_key_def)
  obtain rp where L2: "locked_in (position_uuid Y (length (st_balances ?s1))) (y_now Y) ?fk ?s1 ?s2"
    and rp: "find_position (key_id ?fk) ?s2 = Some rp" "dp = scanPositionRow rp" and T2: "dk_tables dk2 = dk_tables dk1"
    using GetOrCreatePosition_cases [OF P] by auto
  have uuid: "position_uuid Y j \<noteq> []" "\<not> has_prefix (position_uuid Y j) ''@''" for j
    using assms(2,3) by (simp_all add: position_uuid_def uuids_ok_def)
  have d0: "d \<noteq> 0" using assms(12) r by simp
  note S = sell_positions [OF assms(1) L1 L2 rm(1) rp(1) rm(3) ins d0 uuid(1) uuid(1)]
  have ids: "b_BalanceID mb = b_BalanceID rm" "b_BalanceID dp = b_BalanceID rp"
    by (simp_all add: rm(2) rp(2) scanPositionRow_def)
  have plain: "\<forall>b \<in> set (st_balances ?s2). \<not> has_prefix (b_BalanceID b) ''@''"
    using L1 L2 assms(4) uuid by (auto simp: locked_in_def new_position_def)
  obtain s3 a where so3: "store_ok s3" and a: "hold_moved (g_SettlementBalanceID g) (b_BalanceID rm) a ?s2 s3"
    and h: "hold_moved (b_BalanceID rp) (g_MarketBalanceID g) qty s3 (w_store w)"
    using sell_legs [OF B] S(1) assms(2,5,6,11) plain find_balance_SomeD [OF S(2)] find_positionD [OF rp(1)] ids qty
    by (auto simp: positions_ok_def)
  obtain rs where rs: "find_balance (g_SettlementBalanceID g) ?s2 = Some rs" using a by (auto simp: hold_moved_def)
  obtain rk where rk: "find_balance (g_MarketBalanceID g) s3 = Some rk" and ne: "b_BalanceID rp \<noteq> g_MarketBalanceID g"
    using h by (auto simp: hold_moved_def)
  have nrs: "\<not> own g rs" using S(7) [OF assms(7) _ rs] assms(13) r ids by simp
  have ok3: "positions_ok s3" by (rule hold_moved_ok [OF S(1) so3 a])
  have rp3: "find_position (key_id ?fk) s3 = Some rp"
    using hold_moved_other [OF S(1) a rs S(2)] own_row_id(2) [OF rm(3) nrs] own_row_id(2) [OF rm(3) S(4)] rp(1) by metis
  have nrk: "\<not> own g rk"
    using hold_moved_find [OF a rk] S(7) [OF assms(8)] ne own_cong by metis
  note E = two_holds_effect [OF S(1) ok3 a h rs S(2) find_position_balance [OF ok3 rp3] rk nrs S(4,5) nrk rm(3) S(6)]
  have "\<exists>t'. GetTradablePosition (y_F Y) (g_LedgerID g) (g_IdentityID g) (g_AccountRef g) (g_Instrument g) (g_Currency g)
      d (w_store w) (dk_tables dk) = Inr t' \<and> tr_Tradable t' = tr_Tradable t - qty"
    using tradable_after_sell [OF T] E S(3) locked_in_sums [OF L2] locked_in_sums [OF L1] Q(2) qty assms(11) by simp
  with r Q(2) qty dk' T1 T2 show ?thesis by simp
qed

definition ex_position :: "string \<Rightarrow> string \<Rightarrow> int \<Rightarrow> Balance" where
  "ex_position bid ins a = (ex_row bid a)\<lparr>b_LedgerID := ''ldg'', b_IdentityID := ''idt'', b_AccountRef := ''acc'', b_Instrument := ins\<rparr>"

definition ex_sell_store :: store where
  "ex_sell_store = ex_store\<lparr>st_ledgers := [''ldg''],
     st_balances := [ex_row ''bln_s'' 0, ex_row ''bln_k'' 0, ex_position ''bln_p'' ''AAA'' 100, ex_position ''bln_m'' [] 0,
       (ex_position ''bln_f'' ''AAA'' 0)\<lparr>b_SettleDate := Some 19786, b_SettleCode := Some 2\<rparr>]\<rparr>"

definition ex_sell_desk :: "rstore desk" where
  "ex_sell_desk = ex_desk\<lparr>dk_world := ex_world\<lparr>w_store := ex_sell_store\<rparr>\<rparr>"

definition ex_sell :: Booking where
  "ex_sell = \<lparr>g_LedgerID = ''ldg'', g_IdentityID = ''idt'', g_AccountRef = ''acc'', g_Instrument = ''AAA'', g_Venue = [],
     g_Currency = ''USD'', g_Quantity = ''30'', g_QuantityPrecision = 1, g_Price = ''2'', g_MoneyPrecision = 100,
     g_SettleOffset = 2, g_TradeDate = None, g_SettleDate = Some 19786, g_SettlementBalanceID = ''bln_s'',
     g_MarketBalanceID = ''bln_k'', g_Reference = ''ref''\<rparr>"

lemmas ex_rows = ex_position_def ex_row_def InitializeBalanceFields_def zero_Balance_def

lemma ex_sell_ok: "positions_ok ex_sell_store"
  by (simp add: positions_ok_def store_ok_def positions_unique_def ex_sell_store_def ex_store_def ex_row_ok,
      simp add: ex_rows row_ok_def holds_ok_def consistent_def initialised_def is_position_def row_id_def position_of_def date_col_def)

lemma ex_sell_found:
  "find_balance ''bln_s'' ex_sell_store = Some (ex_row ''bln_s'' 0)"
  "find_balance ''bln_k'' ex_sell_store = Some (ex_row ''bln_k'' 0)"
  "find_balance ''bln_m'' ex_sell_store = Some (ex_position ''bln_m'' [] 0)"
  "find_balance ''bln_f'' ex_sell_store = Some ((ex_position ''bln_f'' ''AAA'' 0)\<lparr>b_SettleDate := Some 19786, b_SettleCode := Some 2\<rparr>)"
  by (simp_all add: find_balance_def ex_sell_store_def) (simp_all add: ex_rows)

lemma ex_sell_positions:
  "GetOrCreatePosition ex_sys (money_key ex_sell) ex_sell_desk = (ex_sell_desk, Inr (scanPositionRow (ex_position ''bln_m'' [] 0)))"
  "GetOrCreatePosition ex_sys (future_key ex_sell 19786 None) ex_sell_desk =
     (ex_sell_desk, Inr (scanPositionRow ((ex_position ''bln_f'' ''AAA'' 0)\<lparr>b_SettleDate := Some 19786, b_SettleCode := Some 2\<rparr>)))"
  by (simp_all add: GetOrCreatePosition_def FindOrCreatePosition_def PositionKey_Validate_def GetPosition_def money_key_def future_key_def
    spot_key_def ex_sell_def ex_sys_def ex_env_def ex_sell_desk_def ex_sell_store_def positionKeyPredicate_def same_dims_def set_store_def ex_desk_def,
    simp_all add: ex_rows date_col_def ex_world_def)

definition ex_params :: tradeParams where
  "ex_params = \<lparr>tp_onTheWay = False, tp_settleOffset = 2, tp_venue = []\<rparr>"

lemma ex_sell_checks:
  "SellBooking_Validate rat_decimal ex_sell = Inr ()"
  "resolveTradeParams (\<lambda>_. False) ''AAA'' 2 [] (dk_tables ex_sell_desk) = Inr ex_params"
  "resolveSettlement (\<lambda>_. False) ex_params 0 (Some 19786) (dk_tables ex_sell_desk) = Inr (19786, None)"
  "PreciseQuantity rat_decimal ''30'' 1 = Inr 30" "PreciseMoney rat_decimal ''30'' ''2'' 100 = Inr 6000"
  "map_sum err_msg tr_Tradable (GetTradablePosition (\<lambda>_. False) ''ldg'' ''idt'' ''acc'' ''AAA'' ''USD'' 19786 ex_sell_store (dk_tables ex_sell_desk)) = Inr 100"
  by code_simp+

lemma ex_sell_leg:
  assumes w: "store_ok (w_store w)" "find_balance (t_Source t) (w_store w) = Some rs" "find_balance (t_Destination t) (w_store w) = Some rd"
    and k: "plain_ids t" "t_Source t \<noteq> t_Destination t" "kv rs_redis (w_redis w) (t_Source t) = None" "kv rs_redis (w_redis w) (t_Destination t) = None"
    and fresh: "t_TransactionID t \<notin> t_TransactionID ` set (st_transactions (w_store w))"
      "t_Reference t \<notin> t_Reference ` set (st_transactions (w_store w))"
      "t_TransactionID t \<notin> o_TransactionID ` set (st_outbox (w_store w))"
    and t: "t_Status t = []" "t_PreciseAmount t = Some a" "0 < a" "t_AllowOverdraft t" "t_OverdraftLimit t = 0"
  obtains s' m where "RecordTransaction ex_env t w =
    Some (\<lparr>w_store = s', w_redis = (case acquireLock ex_env (t_Source t) (t_Destination t) (w_redis w) of Some (r, Inr l) \<Rightarrow> releaseLock ex_env l r)\<rparr>, Inr m)"
proof -
  have "\<exists>s' m. record_locked ex_env t (w_store w) = (s', Inr m)"
    by (rule record_locked_succeeds [OF ex_env_ok(3,2) w(1) ex_env_ok(4) _ _ k(2) w(2,3) fresh]) (use k t in \<open>auto simp: plain_ids_def\<close>)
  then obtain s' m where R: "record_locked ex_env t (w_store w) = (s', Inr m)" by blast
  obtain r where "RecordTransaction ex_env t w = Some (\<lparr>w_store = s', w_redis = r\<rparr>, Inr m)"
    using RecordTransaction_locked [OF ex_env_ok(2) _ _ _ _ R] k by (auto simp: plain_ids_def ex_env_def)
  then show ?thesis
    using that R resolveBalanceIDs_plain [of t ex_env] k(1)
    by (auto simp: RecordTransaction_def recordTransactionSingle_def planTransactionExecution_def executeWithLock_def plain_ids_def
        split: option.splits prod.splits sum.splits)
qed

lemma ex_sell_fields:
  "g_LedgerID ex_sell = ''ldg''" "g_IdentityID ex_sell = ''idt''" "g_AccountRef ex_sell = ''acc''" "g_Instrument ex_sell = ''AAA''"
  "g_Venue ex_sell = []" "g_Currency ex_sell = ''USD''" "g_Quantity ex_sell = ''30''" "g_QuantityPrecision ex_sell = 1"
  "g_Price ex_sell = ''2''" "g_MoneyPrecision ex_sell = 100" "g_SettleOffset ex_sell = 2" "g_TradeDate ex_sell = None"
  "g_SettleDate ex_sell = Some 19786" "g_SettlementBalanceID ex_sell = ''bln_s''" "g_MarketBalanceID ex_sell = ''bln_k''"
  "day_of_time (y_now ex_sys) = 0" "e_D (y_env ex_sys) = rat_decimal" "y_F ex_sys = (\<lambda>_. False)" "dk_world ex_sell_desk = ex_world\<lparr>w_store := ex_sell_store\<rparr>"
  "b_BalanceID (scanPositionRow (ex_position ''bln_m'' [] 0)) = ''bln_m''"
  "b_BalanceID (scanPositionRow ((ex_position ''bln_f'' ''AAA'' 0)\<lparr>b_SettleDate := Some 19786, b_SettleCode := Some 2\<rparr>)) = ''bln_f''"
  by (simp_all add: ex_sell_def ex_sys_def ex_env_def ex_sell_desk_def ex_rows scanPositionRow_def day_of_time_def)

lemma ex_sell_runs: "\<exists>dk' r. SellTrade ex_sys [] 0 ex_sell ex_sell_desk = Some (dk', Inr r) \<and> br_SettleDate r = 19786 \<and>
    br_PositionBalanceID r = ''bln_f''"
proof -
  let ?w = "ex_world\<lparr>w_store := ex_sell_store\<rparr>" and ?d = 19786
  let ?m = "money_leg ex_sys ex_sell TradeSideSell [] ?d ''bln_s'' ''bln_m'' 6000"
  let ?x = "security_leg ex_sys ex_sell TradeSideSell ex_params ?d ''bln_f'' ''bln_k'' 30"
  note leg = money_leg_def security_leg_def ex_sell_def zero_Transaction_def plain_ids_def has_prefix_def fresh_uuid_def ex_sys_def ex_env_def
  have n: "show_nat 0 = ''0''" "show_nat (Suc 0) = ''1''" by code_simp+
  have so: "store_ok ex_sell_store" using ex_sell_ok by (simp add: positions_ok_def)
  have s0: "st_transactions ex_sell_store = []" "st_outbox ex_sell_store = []" by (simp_all add: ex_sell_store_def ex_store_def)
  let ?r = "case acquireLock ex_env ''bln_s'' ''bln_m'' (w_redis ex_world) of Some (r, Inr l) \<Rightarrow> releaseLock ex_env l r"
  have ids: "t_Source (?m s) = ''bln_s''" "t_Destination (?m s) = ''bln_m''" for s by (simp_all add: leg)
  obtain s1 m where R1: "RecordTransaction ex_env (?m ex_sell_store) ?w = Some (\<lparr>w_store = s1, w_redis = ?r\<rparr>, Inr m)"
    by (rule ex_sell_leg [of ?w "?m ex_sell_store" "ex_row ''bln_s'' 0" "ex_position ''bln_m'' [] 0" 6000, unfolded ids])
       (simp_all add: so ex_sell_found s0, simp_all add: leg ex_world_def kv_def rs_get_def)
  have pl: "plain_ids (?m ex_sell_store)" "t_Inflight (?m ex_sell_store)" "t_Status (?m ex_sell_store) = []"
    "t_PreciseAmount (?m ex_sell_store) = Some 6000" by (simp_all add: leg)
  note h = hold_recorded [OF _ ex_env_ok(1) R1 pl(1-3)] and l = hold_listed [OF _ ex_env_ok(1) R1 pl]
  have free: "kv rs_redis ?r ''bln_f'' = None" "kv rs_redis ?r ''bln_k'' = None" by code_simp+
  have f: "find_balance ''bln_f'' s1 = find_balance ''bln_f'' ex_sell_store" "find_balance ''bln_k'' s1 = find_balance ''bln_k'' ex_sell_store"
    using h(1) so by (auto simp: ids intro: hold_moved_elsewhere)
  have tx: "t_TransactionID (?m ex_sell_store) = ''id_txn:0''" "t_Reference (?m ex_sell_store) = ''ref_money''" by (simp_all add: leg s0 n)
  have l1: "t_TransactionID ` set (st_transactions s1) = {''id_txn:0''}" "t_Reference ` set (st_transactions s1) = {''ref_money''}"
    "length (st_transactions s1) = 1" "o_TransactionID ` set (st_outbox s1) \<subseteq> {''id_txn:0''}"
    using l so s0 tx by auto
  have ids': "t_Source (?x i s) = ''bln_f''" "t_Destination (?x i s) = ''bln_k''" for s i by (simp_all add: leg)
  have xt: "t_TransactionID (?x i s1) = ''id_txn:1''" "t_Reference (?x i s1) = ''ref_sec''" for i
    by (simp_all add: leg l1(3) n)
  have px: "plain_ids (?x i s)" "t_Status (?x i s) = []" "t_PreciseAmount (?x i s) = Some 30" "t_AllowOverdraft (?x i s)"
    "t_OverdraftLimit (?x i s) = 0" for i s by (simp_all add: leg)
  have so1: "store_ok s1" using h(2) so by simp
  obtain r1 where r1: "r1 = ?r" by blast
  obtain s2 x r2 where R2: "RecordTransaction ex_env (?x (t_TransactionID m) s1) \<lparr>w_store = s1, w_redis = r1\<rparr> = Some (\<lparr>w_store = s2, w_redis = r2\<rparr>, Inr x)"
  proof (rule ex_sell_leg [of "\<lparr>w_store = s1, w_redis = r1\<rparr>" "?x (t_TransactionID m) s1", unfolded ids' xt world.simps, OF so1 f [unfolded ex_sell_found]
        px(1) _ free [folded r1] _ _ _ px(2,3) _ px(4,5)])
    show "''id_txn:1'' \<notin> o_TransactionID ` set (st_outbox s1)" using l1(4) by auto
  qed (simp_all add: l1)
  obtain t where t: "GetTradablePosition (\<lambda>_. False) ''ldg'' ''idt'' ''acc'' ''AAA'' ''USD'' 19786 ex_sell_store (dk_tables ex_sell_desk) = Inr t"
    "tr_Tradable t = 100" using ex_sell_checks(6) by (auto simp: map_sum_def split: sum.splits)
  have B: "book_legs ex_sys [] 0 ''sell '' ?m ?x ?w = Some (\<lparr>w_store = s2, w_redis = r2\<rparr>, Inr (m, x))"
    using R1 [folded r1] R2 by (simp add: book_legs_def ex_sys_def)
  show ?thesis
    using t B ex_sell_positions ex_sell_checks(1-5) ex_sell_fields
    by (simp add: SellTrade_def Let_def booking_date_def ex_params_def)
qed

theorem sell_reduces_tradable_witness:
  "\<exists>t t' dk' r. SellTrade ex_sys [] 0 ex_sell ex_sell_desk = Some (dk', Inr r) \<and> br_Tradable r = Some t \<and>
     GetTradablePosition (\<lambda>_. False) ''ldg'' ''idt'' ''acc'' ''AAA'' ''USD'' 19786 (dk_store dk') (dk_tables dk') = Inr t' \<and>
     tr_Tradable t' = tr_Tradable t - 30"
proof -
  obtain dk' r where R: "SellTrade ex_sys [] 0 ex_sell ex_sell_desk = Some (dk', Inr r)" "br_SettleDate r = 19786" "br_PositionBalanceID r = ''bln_f''"
    using ex_sell_runs by blast
  have ok: "positions_ok (dk_store ex_sell_desk)" "uuids_ok (y_env ex_sys)"
    using ex_sell_ok ex_env_ok by (simp_all add: ex_sell_desk_def ex_sys_def)
  have at: "\<forall>x. \<not> has_prefix (e_uuid (y_env ex_sys) x) ''@''" "\<not> has_prefix (g_SettlementBalanceID ex_sell) ''@''"
    "\<not> has_prefix (g_MarketBalanceID ex_sell) ''@''" "g_SettlementBalanceID ex_sell \<noteq> br_PositionBalanceID r" "br_SettleDate r \<noteq> 0"
    by (simp_all add: has_prefix_def ex_sys_def ex_env_def ex_sell_def R)
  have rows: "\<forall>b \<in> set (st_balances (dk_store ex_sell_desk)). \<not> has_prefix (b_BalanceID b) ''@''"
    by (simp add: ex_sell_desk_def ex_sell_store_def) (simp add: ex_rows has_prefix_def)
  have broker: "\<forall>b. find_balance (g_SettlementBalanceID ex_sell) (dk_store ex_sell_desk) = Some b \<longrightarrow> \<not> own ex_sell b"
    "\<forall>b. find_balance (g_MarketBalanceID ex_sell) (dk_store ex_sell_desk) = Some b \<longrightarrow> \<not> own ex_sell b"
    by (simp_all add: ex_sell_desk_def ex_sell_def ex_sell_found) (simp_all add: own_def same_dims_def ex_rows)
  have q: "PreciseQuantity (e_D (y_env ex_sys)) (g_Quantity ex_sell) (g_QuantityPrecision ex_sell) = Inr 30"
    using ex_sell_checks(4) by (simp add: ex_sys_def ex_env_def ex_sell_def)
  from sell_reduces_tradable [OF ok at(1) rows at(2,3) broker R(1) q _ at(5,4)] R show ?thesis
    by (auto simp: ex_sys_def ex_env_def ex_sell_def)
qed

end
