(* ===== verification/Orders.thy ===== *)
theory Orders
  imports Trades
begin

text \<open>
  Orders in front of trade booking (\<open>src/model/order.go\<close>, \<open>src/database/order.go\<close>,
  \<open>src/order.go\<close>): the lifecycle table, the order, dictionary, stop list and trading window
  tables, the checks of an order and the operations that move it from draft to executed. A
  step relation interleaves the operations with any other use of the trading desk.
\<close>

section \<open>The model\<close>

subsection \<open>The lifecycle\<close>

abbreviation OrderStatusDraft :: string where "OrderStatusDraft \<equiv> ''DRAFT''"
abbreviation OrderStatusChecked :: string where "OrderStatusChecked \<equiv> ''CHECKED''"
abbreviation OrderStatusApproved :: string where "OrderStatusApproved \<equiv> ''APPROVED''"
abbreviation OrderStatusExecuted :: string where "OrderStatusExecuted \<equiv> ''EXECUTED''"
abbreviation OrderStatusRejected :: string where "OrderStatusRejected \<equiv> ''REJECTED''"
abbreviation OrderStatusCancelled :: string where "OrderStatusCancelled \<equiv> ''CANCELLED''"
abbreviation AMLStatusPassed :: string where "AMLStatusPassed \<equiv> ''PASSED''"
abbreviation AMLStatusBlocked :: string where "AMLStatusBlocked \<equiv> ''BLOCKED''"

definition orderTransitions :: "(string \<times> string list) list" where
  "orderTransitions =
     [(OrderStatusDraft, [OrderStatusChecked, OrderStatusRejected, OrderStatusCancelled]),
      (OrderStatusChecked, [OrderStatusApproved, OrderStatusRejected, OrderStatusCancelled]),
      (OrderStatusApproved, [OrderStatusExecuted, OrderStatusRejected, OrderStatusCancelled])]"

definition CanTransitionOrder :: "string \<Rightarrow> string \<Rightarrow> bool" where
  "CanTransitionOrder x y = (case map_of orderTransitions x of None \<Rightarrow> False | Some ys \<Rightarrow> y \<in> set ys)"

definition IsTerminalOrderStatus :: "string \<Rightarrow> bool" where
  "IsTerminalOrderStatus x = (map_of orderTransitions x = None)"

subsection \<open>Records\<close>

record Order =
  od_OrderID :: string
  od_Reference :: string
  od_LedgerID :: string
  od_IdentityID :: string
  od_AccountRef :: string
  od_Instrument :: string
  od_Venue :: string
  od_Currency :: string
  od_Side :: string
  od_Quantity :: string
  od_QuantityPrecision :: int
  od_Price :: string
  od_MoneyPrecision :: int
  od_SettleOffset :: int
  od_SettleDate :: "int option"
  od_Status :: string
  od_StatusMessage :: string
  od_RejectReason :: string
  od_AMLStatus :: string
  od_SettlementBalanceID :: string
  od_MarketBalanceID :: string
  od_TradeRef :: string
  od_SecurityTxnID :: string
  od_MoneyTxnID :: string
  od_CreatedAt :: int
  od_UpdatedAt :: int

definition Order_Validate :: "'d decimal \<Rightarrow> Order \<Rightarrow> unit res" where
  "Order_Validate D ord =
     (if od_Reference ord = [] then Inl (Errorf ''order: reference is required'')
      else if od_LedgerID ord = [] \<or> od_AccountRef ord = [] \<or> od_Currency ord = [] then
        Inl (Errorf ''order: ledger_id, account_ref and currency are required'')
      else if od_Instrument ord = [] then Inl (Errorf ''order: instrument is required'')
      else if od_Side ord \<noteq> TradeSideBuy \<and> od_Side ord \<noteq> TradeSideSell then
        Inl (Errorf ''order: side must be buy or sell'')
      else if od_QuantityPrecision ord < 1 \<or> od_MoneyPrecision ord < 1 then
        Inl (Errorf ''order: quantity_precision and money_precision must be >= 1'')
      else case PreciseQuantity D (od_Quantity ord) (od_QuantityPrecision ord) of
        Inl e \<Rightarrow> Inl (Wrap ''order'' e)
      | Inr _ \<Rightarrow>
          (case PreciseMoney D (od_Quantity ord) (od_Price ord) (od_MoneyPrecision ord) of
             Inl e \<Rightarrow> Inl (Wrap ''order'' e)
           | Inr _ \<Rightarrow>
               if od_SettlementBalanceID ord = [] \<or> od_MarketBalanceID ord = [] then
                 Inl (Errorf ''order: settlement_balance_id and market_balance_id are required'')
               else Inr ()))"

record DictEntry =
  dc_Category :: string
  dc_Code :: string
  dc_Name :: string
  dc_Sort :: int
  dc_Active :: bool
  dc_CreatedAt :: int

record StopListEntry =
  sl_ID :: int
  sl_IdentityID :: string
  sl_Instrument :: string
  sl_Reason :: string
  sl_Active :: bool
  sl_CreatedAt :: int

record TradingTime =
  tt_ID :: int
  tt_Venue :: string
  tt_Weekday :: int
  tt_OpenTime :: string
  tt_CloseTime :: string
  tt_CreatedAt :: int

definition IsOpenAt :: "TradingTime \<Rightarrow> string \<Rightarrow> bool" where
  "IsOpenAt w hhmm = (tt_OpenTime w \<le> hhmm \<and> hhmm \<le> tt_CloseTime w)"

record OrderCheckResult =
  ck_Passed :: bool
  ck_RejectReason :: string
  ck_Checks :: "string list"

text \<open>The trading desk together with the tables of the order module.\<close>

record 'r book =
  bk_desk :: "'r desk"
  bk_orders :: "Order list"
  bk_dict :: "DictEntry list"
  bk_stops :: "StopListEntry list"
  bk_times :: "TradingTime list"

subsection \<open>Tables\<close>

text \<open>
  \<open>INSERT INTO blnk.orders\<close>: the two numeric columns must parse, the integer columns hold 32
  bits, the primary key and the reference are unique. The row starts with the outcome columns
  empty (\<open>NULL\<close>, read back as the empty string).
\<close>

definition fits_int4 :: "int \<Rightarrow> bool" where
  "fits_int4 n = (- (2 ^ 31) \<le> n \<and> n < 2 ^ 31)"

definition DB_CreateOrder :: "faults \<Rightarrow> string \<Rightarrow> int \<Rightarrow> Order \<Rightarrow> Order list \<Rightarrow> Order list \<times> Order res" where
  "DB_CreateOrder F oid now ord rows =
     (let x = ord\<lparr>od_OrderID := oid, od_CreatedAt := now, od_UpdatedAt := now,
                 od_Status := (if od_Status ord = [] then OrderStatusDraft else od_Status ord)\<rparr>
      in if F ''CreateOrder'' then (rows, Inl (internal ''Failed to create order''))
         else case (numeric_col (od_Quantity x), numeric_col (od_Price x)) of
           (Some qty, Some price) \<Rightarrow>
             if \<not> fits_int4 (od_QuantityPrecision x) \<or> \<not> fits_int4 (od_MoneyPrecision x) \<or> \<not> fits_int4 (od_SettleOffset x)
             then (rows, Inl (internal ''Failed to create order''))
             else if oid \<in> od_OrderID ` set rows \<or> od_Reference x \<in> od_Reference ` set rows then
               (rows, Inl (APIError ErrConflict (''Order with reference '' @ quoted (od_Reference x) @ '' already exists'')))
             else (rows @ [x\<lparr>od_Quantity := qty, od_Price := price, od_StatusMessage := [], od_RejectReason := [],
                             od_TradeRef := [], od_SecurityTxnID := [], od_MoneyTxnID := []\<rparr>], Inr x)
         | _ \<Rightarrow> (rows, Inl (internal ''Failed to create order'')))"

definition DB_GetOrder :: "faults \<Rightarrow> string \<Rightarrow> Order list \<Rightarrow> Order res" where
  "DB_GetOrder F oid rows =
     (if F ''GetOrder'' then Inl (internal ''Failed to scan order'')
      else case find_row od_OrderID oid rows of
             None \<Rightarrow> Inl (APIError ErrNotFound (''Order '' @ quoted oid @ '' not found''))
           | Some x \<Rightarrow> Inr x)"

text \<open>The columns \<open>UPDATE blnk.orders\<close> writes, on the row as it is then.\<close>

definition write_outcome :: "int \<Rightarrow> Order \<Rightarrow> Order \<Rightarrow> Order" where
  "write_outcome now x row = row\<lparr>od_Status := od_Status x, od_StatusMessage := od_StatusMessage x,
     od_RejectReason := od_RejectReason x, od_AMLStatus := od_AMLStatus x, od_TradeRef := od_TradeRef x,
     od_SecurityTxnID := od_SecurityTxnID x, od_MoneyTxnID := od_MoneyTxnID x, od_UpdatedAt := now\<rparr>"

definition DB_UpdateOrder :: "faults \<Rightarrow> int \<Rightarrow> Order \<Rightarrow> Order list \<Rightarrow> Order list \<times> unit res" where
  "DB_UpdateOrder F now x rows =
     (if F ''UpdateOrder'' then (rows, Inl (internal ''Failed to update order''))
      else case find_row od_OrderID (od_OrderID x) rows of
             None \<Rightarrow> (rows, Inl (APIError ErrNotFound (''Order '' @ quoted (od_OrderID x) @ '' not found'')))
           | Some row \<Rightarrow> (set_row od_OrderID (write_outcome now x row) rows, Inr ()))"

definition ListOrdersByStatus :: "faults \<Rightarrow> string \<Rightarrow> nat \<Rightarrow> nat \<Rightarrow> Order list \<Rightarrow> Order list res" where
  "ListOrdersByStatus F status limit offset rows =
     (if F ''ListOrdersByStatus'' then Inl (internal ''Failed to query orders'')
      else if F ''ListOrdersByStatus.Scan'' then Inl (internal ''Failed to scan order'')
      else if F ''ListOrdersByStatus.Rows'' then Inl (Errorf ''rows'')
      else Inr (take limit (drop offset (sort_key od_CreatedAt (filter (\<lambda>x. od_Status x = status) rows)))))"

text \<open>The dictionary; \<open>by_code\<close> sorts by the code column under the collation of the database.\<close>

definition UpsertDict :: "faults \<Rightarrow> int \<Rightarrow> DictEntry \<Rightarrow> DictEntry list \<Rightarrow> DictEntry list \<times> DictEntry res" where
  "UpsertDict F now x rows =
     (if dc_Category x = [] \<or> dc_Code x = [] then (rows, Inl (APIError ErrBadRequest ''dict category and code are required''))
      else if F ''UpsertDict'' \<or> \<not> fits_int4 (dc_Sort x) then (rows, Inl (internal ''Failed to upsert dict''))
      else let key = (\<lambda>r. (dc_Category r, dc_Code r))
           in case find_row key (key x) rows of
                None \<Rightarrow> (rows @ [x\<lparr>dc_CreatedAt := now\<rparr>], Inr (x\<lparr>dc_CreatedAt := now\<rparr>))
              | Some r \<Rightarrow> (let x' = x\<lparr>dc_CreatedAt := dc_CreatedAt r\<rparr> in (set_row key x' rows, Inr x')))"

definition GetDict ::
    "faults \<Rightarrow> (DictEntry list \<Rightarrow> DictEntry list) \<Rightarrow> string \<Rightarrow> DictEntry list \<Rightarrow> DictEntry list res" where
  "GetDict F by_code category rows =
     (if F ''GetDict'' then Inl (internal ''Failed to query dict'')
      else if F ''GetDict.Scan'' then Inl (internal ''Failed to scan dict'')
      else if F ''GetDict.Rows'' then Inl (Errorf ''rows'')
      else Inr (sort_key dc_Sort (by_code (filter (\<lambda>r. dc_Category r = category \<and> dc_Active r) rows))))"

definition AddStopList :: "faults \<Rightarrow> int \<Rightarrow> StopListEntry \<Rightarrow> StopListEntry list \<Rightarrow> StopListEntry list \<times> StopListEntry res" where
  "AddStopList F now x rows =
     (if sl_IdentityID x = [] then (rows, Inl (APIError ErrBadRequest ''identity_id is required''))
      else if F ''AddStopList'' then (rows, Inl (internal ''Failed to add stop list entry''))
      else let key = (\<lambda>r. (sl_IdentityID r, sl_Instrument r))
           in case find_row key (key x) rows of
                None \<Rightarrow> (let x' = x\<lparr>sl_ID := int (length rows) + 1, sl_CreatedAt := now, sl_Active := True\<rparr> in (rows @ [x'], Inr x'))
              | Some r \<Rightarrow> (let x' = x\<lparr>sl_ID := sl_ID r, sl_CreatedAt := sl_CreatedAt r, sl_Active := True\<rparr> in (set_row key x' rows, Inr x')))"

text \<open>An instrument-specific entry comes before the global one (\<open>ORDER BY instrument DESC\<close>).\<close>

definition IsStopListed :: "faults \<Rightarrow> string \<Rightarrow> string \<Rightarrow> StopListEntry list \<Rightarrow> (bool \<times> string) res" where
  "IsStopListed F identity instrument rows =
     (if F ''IsStopListed'' then Inl (internal ''Failed to query stop list'')
      else let live = filter (\<lambda>r. sl_IdentityID r = identity \<and> sl_Active r) rows
           in case find_row sl_Instrument instrument live of
                Some r \<Rightarrow> Inr (True, sl_Reason r)
              | None \<Rightarrow> (case find_row sl_Instrument [] live of
                  Some r \<Rightarrow> Inr (True, sl_Reason r)
                | None \<Rightarrow> Inr (False, [])))"

definition SetTradingTime :: "faults \<Rightarrow> int \<Rightarrow> TradingTime \<Rightarrow> TradingTime list \<Rightarrow> TradingTime list \<times> TradingTime res" where
  "SetTradingTime F now x rows =
     (if tt_Venue x = [] \<or> tt_Weekday x < 0 \<or> 6 < tt_Weekday x then
        (rows, Inl (APIError ErrBadRequest ''venue and weekday 0..6 are required''))
      else if F ''SetTradingTime'' then (rows, Inl (internal ''Failed to set trading time''))
      else let key = (\<lambda>r. (tt_Venue r, tt_Weekday r))
           in case find_row key (key x) rows of
                None \<Rightarrow> (let x' = x\<lparr>tt_ID := int (length rows) + 1, tt_CreatedAt := now\<rparr> in (rows @ [x'], Inr x'))
              | Some r \<Rightarrow> (let x' = x\<lparr>tt_ID := tt_ID r, tt_CreatedAt := tt_CreatedAt r\<rparr> in (set_row key x' rows, Inr x')))"

definition GetTradingTimes :: "faults \<Rightarrow> string \<Rightarrow> TradingTime list \<Rightarrow> TradingTime list res" where
  "GetTradingTimes F venue rows =
     (if F ''GetTradingTimes'' then Inl (internal ''Failed to query trading times'')
      else if F ''GetTradingTimes.Scan'' then Inl (internal ''Failed to scan trading time'')
      else if F ''GetTradingTimes.Rows'' then Inl (Errorf ''rows'')
      else Inr (sort_key tt_Weekday (filter (\<lambda>w. tt_Venue w = venue) rows)))"


subsection \<open>Checks\<close>

definition orderSettleDate :: "('d, 'r, 'q) sys \<Rightarrow> Order \<Rightarrow> tables \<Rightarrow> int res" where
  "orderSettleDate Y ord T =
     (case resolveTradeParams (y_F Y) (od_Instrument ord) (od_SettleOffset ord) (od_Venue ord) T of
        Inl e \<Rightarrow> Inl e
      | Inr params \<Rightarrow>
          (case resolveSettlement (y_F Y) params (day_of_time (y_now Y)) (od_SettleDate ord) T of
             Inl e \<Rightarrow> Inl e
           | Inr (settleDate, _) \<Rightarrow> Inr settleDate))"

text \<open>\<open>Format\<close> with the layout \<open>15:04\<close>.\<close>

definition clock_time :: "int \<Rightarrow> string" where
  "clock_time t = (let m = (t mod 86400000000000) div 60000000000
                   in zero_pad 2 (m div 60) @ '':'' @ zero_pad 2 (m mod 60))"

definition isVenueOpen :: "faults \<Rightarrow> string \<Rightarrow> int \<Rightarrow> TradingTime list \<Rightarrow> bool res" where
  "isVenueOpen F venue at_time rows =
     (if venue = [] then Inr True
      else case GetTradingTimes F venue rows of
        Inl e \<Rightarrow> Inl e
      | Inr windows \<Rightarrow>
          if windows = [] then Inr True
          else Inr (list_ex (\<lambda>w. tt_Weekday w = Weekday (day_of_time at_time) \<and> IsOpenAt w (clock_time at_time)) windows))"

definition outside_limit :: "'d decimal \<Rightarrow> string \<Rightarrow> int \<Rightarrow> (int \<Rightarrow> bool) \<Rightarrow> bool" where
  "outside_limit D limit precision beyond =
     (limit \<noteq> [] \<and> (case PreciseQuantity D limit precision of Inl _ \<Rightarrow> False | Inr l \<Rightarrow> beyond l))"

definition checkSizeLimits :: "('d, 'r, 'q) sys \<Rightarrow> Order \<Rightarrow> tables \<Rightarrow> (bool \<times> string) res" where
  "checkSizeLimits Y ord T =
     (let D = e_D (y_env Y) in
      case GetInstrumentSettings (y_F Y) (od_Instrument ord) T of
        Inl e \<Rightarrow> if is_not_found e then Inr (True, []) else Inl e
      | Inr x \<Rightarrow>
          (case PreciseQuantity D (od_Quantity ord) (od_QuantityPrecision ord) of
             Inl e \<Rightarrow> Inl (APIError ErrBadRequest (err_msg e))
           | Inr qty \<Rightarrow>
               if outside_limit D (s_MinOrderQuantity x) (od_QuantityPrecision ord) (\<lambda>l. qty < l) then
                 Inr (False, ''below minimum order quantity'')
               else if outside_limit D (s_MaxOrderQuantity x) (od_QuantityPrecision ord) (\<lambda>l. l < qty) then
                 Inr (False, ''above maximum order quantity'')
               else Inr (True, [])))"

definition checkFunds :: "('d, 'r, 'q) sys \<Rightarrow> Order \<Rightarrow> 'r desk \<Rightarrow> 'r desk \<times> (bool \<times> string) res" where
  "checkFunds Y ord dk =
     (let D = e_D (y_env Y); F = y_F Y in
      case orderSettleDate Y ord (dk_tables dk) of
        Inl e \<Rightarrow> (dk, Inl e)
      | Inr settleDate \<Rightarrow>
          if od_Side ord = TradeSideSell then
            (case PreciseQuantity D (od_Quantity ord) (od_QuantityPrecision ord) of
               Inl e \<Rightarrow> (dk, Inl (APIError ErrBadRequest (err_msg e)))
             | Inr qty \<Rightarrow>
                 (case GetTradablePosition F (od_LedgerID ord) (od_IdentityID ord) (od_AccountRef ord) (od_Instrument ord)
                         (od_Currency ord) settleDate (dk_store dk) (dk_tables dk) of
                    Inl e \<Rightarrow> (dk, Inl e)
                  | Inr tradable \<Rightarrow>
                      (dk, Inr (if tr_Tradable tradable < qty then (False, ''insufficient tradable position'') else (True, [])))))
          else
            (case PreciseMoney D (od_Quantity ord) (od_Price ord) (od_MoneyPrecision ord) of
               Inl e \<Rightarrow> (dk, Inl (APIError ErrBadRequest (err_msg e)))
             | Inr money \<Rightarrow>
                 (case GetOrCreatePosition Y (spot_key (od_LedgerID ord) (od_IdentityID ord) (od_AccountRef ord) [] (od_Currency ord)) dk of
                    (dk1, Inl e) \<Rightarrow> (dk1, Inl e)
                  | (dk1, Inr moneyPos) \<Rightarrow>
                      (case GetFreeBalance F (b_BalanceID moneyPos) None (dk_store dk1) of
                         (_, Some e) \<Rightarrow> (dk1, Inl e)
                       | (free, None) \<Rightarrow>
                           (case fb_AvailableAmount free of
                              None \<Rightarrow> (dk1, Inl NilPanic)
                            | Some a \<Rightarrow> (dk1, Inr (if a < money then (False, ''insufficient funds'') else (True, []))))))))"

text \<open>The handlers in order, stopping at the first failure; an error is passed on as such.\<close>

definition failed_check :: "string list \<Rightarrow> string \<Rightarrow> OrderCheckResult" where
  "failed_check checks reason = \<lparr>ck_Passed = False, ck_RejectReason = reason, ck_Checks = checks\<rparr>"

definition stop_check :: "faults \<Rightarrow> Order \<Rightarrow> StopListEntry list \<Rightarrow> bool res" where
  "stop_check F ord rows =
     (if od_IdentityID ord = [] then Inr False
      else case IsStopListed F (od_IdentityID ord) (od_Instrument ord) rows of
             Inl e \<Rightarrow> Inl e | Inr (blocked, _) \<Rightarrow> Inr blocked)"

definition runOrderChecks :: "('d, 'r, 'q) sys \<Rightarrow> Order \<Rightarrow> 'r book \<Rightarrow> 'r book \<times> OrderCheckResult res" where
  "runOrderChecks Y ord bk =
     (case stop_check (y_F Y) ord (bk_stops bk) of
        Inl e \<Rightarrow> (bk, Inl e)
      | Inr blocked \<Rightarrow>
          if blocked then (bk, Inr (failed_check [''stop_list''] ''stop list''))
          else case isVenueOpen (y_F Y) (od_Venue ord) (y_now Y) (bk_times bk) of
            Inl e \<Rightarrow> (bk, Inl e)
          | Inr opened \<Rightarrow>
              if \<not> opened then (bk, Inr (failed_check [''stop_list'', ''trading_time''] ''outside trading hours''))
              else case checkSizeLimits Y ord (dk_tables (bk_desk bk)) of
                Inl e \<Rightarrow> (bk, Inl e)
              | Inr (ok, reason) \<Rightarrow>
                  if \<not> ok then (bk, Inr (failed_check [''stop_list'', ''trading_time'', ''size_limits''] reason))
                  else case checkFunds Y ord (bk_desk bk) of
                    (dk, Inl e) \<Rightarrow> (bk\<lparr>bk_desk := dk\<rparr>, Inl e)
                  | (dk, Inr (ok, reason)) \<Rightarrow>
                      (let checks = [''stop_list'', ''trading_time'', ''size_limits'', ''funds'']
                       in (bk\<lparr>bk_desk := dk\<rparr>,
                           Inr (if ok then \<lparr>ck_Passed = True, ck_RejectReason = [], ck_Checks = checks\<rparr>
                                else failed_check checks reason))))"

subsection \<open>Operations\<close>

definition CreateOrder :: "('d, 'r, 'q) sys \<Rightarrow> Order \<Rightarrow> 'r book \<Rightarrow> 'r book \<times> Order res" where
  "CreateOrder Y ord bk =
     (case Order_Validate (e_D (y_env Y)) ord of
        Inl e \<Rightarrow> (bk, Inl (APIError ErrBadRequest (err_msg e)))
      | Inr _ \<Rightarrow>
          (case DB_CreateOrder (y_F Y) (e_uuid (y_env Y) (''ord#'' @ show_nat (length (bk_orders bk)))) (y_now Y)
                  (ord\<lparr>od_Status := OrderStatusDraft\<rparr>) (bk_orders bk) of
             (rows, x) \<Rightarrow> (bk\<lparr>bk_orders := rows\<rparr>, x)))"

text \<open>The changed order is written back; the operation then returns it.\<close>

definition save_order :: "('d, 'r, 'q) sys \<Rightarrow> Order \<Rightarrow> 'r book \<Rightarrow> 'r book \<times> Order res" where
  "save_order Y x bk =
     (case DB_UpdateOrder (y_F Y) (y_now Y) x (bk_orders bk) of
        (rows, Inl e) \<Rightarrow> (bk\<lparr>bk_orders := rows\<rparr>, Inl e)
      | (rows, Inr _) \<Rightarrow> (bk\<lparr>bk_orders := rows\<rparr>, Inr x))"

definition wrong_status :: "string \<Rightarrow> string \<Rightarrow> Order \<Rightarrow> error" where
  "wrong_status oid what x = APIError ErrBadRequest
     (''order '' @ oid @ '' cannot be '' @ what @ '' from status '' @ od_Status x)"

definition CheckOrder :: "('d, 'r, 'q) sys \<Rightarrow> string \<Rightarrow> 'r book \<Rightarrow> 'r book \<times> Order res" where
  "CheckOrder Y oid bk =
     (case DB_GetOrder (y_F Y) oid (bk_orders bk) of
        Inl e \<Rightarrow> (bk, Inl e)
      | Inr x \<Rightarrow>
          if od_Status x \<noteq> OrderStatusDraft then (bk, Inl (wrong_status oid ''checked'' x))
          else case runOrderChecks Y x bk of
            (bk1, Inl e) \<Rightarrow> (bk1, Inl e)
          | (bk1, Inr r) \<Rightarrow>
              if \<not> ck_Passed r then
                save_order Y (x\<lparr>od_Status := OrderStatusRejected, od_RejectReason := ck_RejectReason r,
                   od_StatusMessage := ''validation failed: '' @ ck_RejectReason r,
                   od_AMLStatus := (if ck_RejectReason r = ''stop list'' then AMLStatusBlocked else od_AMLStatus x)\<rparr>) bk1
              else
                save_order Y (x\<lparr>od_Status := OrderStatusChecked, od_AMLStatus := AMLStatusPassed,
                   od_StatusMessage := ''checks passed''\<rparr>) bk1)"

definition ApproveOrder :: "('d, 'r, 'q) sys \<Rightarrow> string \<Rightarrow> 'r book \<Rightarrow> 'r book \<times> Order res" where
  "ApproveOrder Y oid bk =
     (case DB_GetOrder (y_F Y) oid (bk_orders bk) of
        Inl e \<Rightarrow> (bk, Inl e)
      | Inr x \<Rightarrow>
          if \<not> CanTransitionOrder (od_Status x) OrderStatusApproved then (bk, Inl (wrong_status oid ''approved'' x))
          else save_order Y (x\<lparr>od_Status := OrderStatusApproved, od_StatusMessage := ''approved''\<rparr>) bk)"

definition rejectOrderOnExecute :: "('d, 'r, 'q) sys \<Rightarrow> Order \<Rightarrow> error \<Rightarrow> 'r book \<Rightarrow> 'r book \<times> Order res" where
  "rejectOrderOnExecute Y x cause bk =
     save_order Y (x\<lparr>od_Status := OrderStatusRejected, od_RejectReason := ''execution failed'',
       od_StatusMessage := err_msg cause\<rparr>) bk"

definition order_booking :: "Order \<Rightarrow> Booking" where
  "order_booking x = \<lparr>g_LedgerID = od_LedgerID x, g_IdentityID = od_IdentityID x, g_AccountRef = od_AccountRef x,
     g_Instrument = od_Instrument x, g_Venue = od_Venue x, g_Currency = od_Currency x, g_Quantity = od_Quantity x,
     g_QuantityPrecision = od_QuantityPrecision x, g_Price = od_Price x, g_MoneyPrecision = od_MoneyPrecision x,
     g_SettleOffset = od_SettleOffset x, g_TradeDate = None, g_SettleDate = od_SettleDate x,
     g_SettlementBalanceID = od_SettlementBalanceID x, g_MarketBalanceID = od_MarketBalanceID x,
     g_Reference = od_Reference x\<rparr>"

definition ExecuteOrder :: "('d, 'r, 'q) sys \<Rightarrow> 'q \<Rightarrow> nat \<Rightarrow> string \<Rightarrow> 'r book \<Rightarrow> ('r book \<times> Order res) option" where
  "ExecuteOrder Y q n oid bk =
     (case DB_GetOrder (y_F Y) oid (bk_orders bk) of
        Inl e \<Rightarrow> Some (bk, Inl e)
      | Inr x \<Rightarrow>
          if \<not> CanTransitionOrder (od_Status x) OrderStatusExecuted then Some (bk, Inl (wrong_status oid ''executed'' x))
          else case (if od_Side x = TradeSideSell then SellTrade Y q n (order_booking x) (bk_desk bk)
                     else BookTrade Y q n (order_booking x) (bk_desk bk)) of
            None \<Rightarrow> None
          | Some (dk, Inl e) \<Rightarrow> Some (rejectOrderOnExecute Y x e (bk\<lparr>bk_desk := dk\<rparr>))
          | Some (dk, Inr r) \<Rightarrow>
              Some (save_order Y (x\<lparr>od_Status := OrderStatusExecuted, od_StatusMessage := ''executed'',
                od_TradeRef := br_TradeRef r, od_SecurityTxnID := br_SecurityTxnID r, od_MoneyTxnID := br_MoneyTxnID r\<rparr>)
                (bk\<lparr>bk_desk := dk\<rparr>)))"

definition CancelOrder :: "('d, 'r, 'q) sys \<Rightarrow> string \<Rightarrow> 'r book \<Rightarrow> 'r book \<times> Order res" where
  "CancelOrder Y oid bk =
     (case DB_GetOrder (y_F Y) oid (bk_orders bk) of
        Inl e \<Rightarrow> (bk, Inl e)
      | Inr x \<Rightarrow>
          if \<not> CanTransitionOrder (od_Status x) OrderStatusCancelled then (bk, Inl (wrong_status oid ''cancelled'' x))
          else save_order Y (x\<lparr>od_Status := OrderStatusCancelled, od_StatusMessage := ''cancelled''\<rparr>) bk)"

definition SubmitOrder :: "('d, 'r, 'q) sys \<Rightarrow> 'q \<Rightarrow> nat \<Rightarrow> Order \<Rightarrow> 'r book \<Rightarrow> ('r book \<times> Order res) option" where
  "SubmitOrder Y q n ord bk =
     (case CreateOrder Y ord bk of
        (bk1, Inl e) \<Rightarrow> Some (bk1, Inl e)
      | (bk1, Inr created) \<Rightarrow>
          (case CheckOrder Y (od_OrderID created) bk1 of
             (bk2, Inl e) \<Rightarrow> Some (bk2, Inl e)
           | (bk2, Inr checked) \<Rightarrow>
               if od_Status checked = OrderStatusRejected then Some (bk2, Inr checked)
               else case ApproveOrder Y (od_OrderID checked) bk2 of
                 (bk3, Inl e) \<Rightarrow> Some (bk3, Inl e)
               | (bk3, Inr approved) \<Rightarrow> ExecuteOrder Y q n (od_OrderID approved) bk3))"


subsection \<open>Serial runs\<close>

text \<open>
  Any number of clients use the module, each with its own clock, failures and environment
  (\<open>S\<close> holds the systems that can run). A step is a whole operation: the order it reads is not
  changed by another operation before it writes it. The code does not enforce this: \<open>UpdateOrder\<close> has no
  condition on the status. Between two steps the trading desk may change in any way: bookings,
  settlements and corrections made elsewhere.
\<close>

inductive order_step :: "(('d, 'r, 'q) sys \<times> 'q) set \<Rightarrow> 'r book \<Rightarrow> 'r book \<Rightarrow> bool" for S where
  create: "\<lbrakk>(Y, q) \<in> S; CreateOrder Y ord bk = (bk', x)\<rbrakk> \<Longrightarrow> order_step S bk bk'"
| check: "\<lbrakk>(Y, q) \<in> S; CheckOrder Y oid bk = (bk', x)\<rbrakk> \<Longrightarrow> order_step S bk bk'"
| approve: "\<lbrakk>(Y, q) \<in> S; ApproveOrder Y oid bk = (bk', x)\<rbrakk> \<Longrightarrow> order_step S bk bk'"
| execute: "\<lbrakk>(Y, q) \<in> S; ExecuteOrder Y q n oid bk = Some (bk', x)\<rbrakk> \<Longrightarrow> order_step S bk bk'"
| cancel: "\<lbrakk>(Y, q) \<in> S; CancelOrder Y oid bk = (bk', x)\<rbrakk> \<Longrightarrow> order_step S bk bk'"
| submit: "\<lbrakk>(Y, q) \<in> S; SubmitOrder Y q n ord bk = Some (bk', x)\<rbrakk> \<Longrightarrow> order_step S bk bk'"
| dict: "\<lbrakk>(Y, q) \<in> S; UpsertDict (y_F Y) (y_now Y) d (bk_dict bk) = (ds, x)\<rbrakk> \<Longrightarrow> order_step S bk (bk\<lparr>bk_dict := ds\<rparr>)"
| stop: "\<lbrakk>(Y, q) \<in> S; AddStopList (y_F Y) (y_now Y) l (bk_stops bk) = (ls, x)\<rbrakk> \<Longrightarrow> order_step S bk (bk\<lparr>bk_stops := ls\<rparr>)"
| window: "\<lbrakk>(Y, q) \<in> S; SetTradingTime (y_F Y) (y_now Y) t (bk_times bk) = (ts, x)\<rbrakk> \<Longrightarrow> order_step S bk (bk\<lparr>bk_times := ts\<rparr>)"
| desk: "order_step S bk (bk\<lparr>bk_desk := dk\<rparr>)"

section \<open>Facts\<close>

subsection \<open>The lifecycle table\<close>

lemma transition_iff:
  "CanTransitionOrder x y \<longleftrightarrow>
     x = OrderStatusDraft \<and> y \<in> {OrderStatusChecked, OrderStatusRejected, OrderStatusCancelled} \<or>
     x = OrderStatusChecked \<and> y \<in> {OrderStatusApproved, OrderStatusRejected, OrderStatusCancelled} \<or>
     x = OrderStatusApproved \<and> y \<in> {OrderStatusExecuted, OrderStatusRejected, OrderStatusCancelled}"
  by (cases "x = OrderStatusDraft"; cases "x = OrderStatusChecked"; cases "x = OrderStatusApproved")
    (simp_all add: CanTransitionOrder_def orderTransitions_def)

lemma terminal_stays:
  assumes "IsTerminalOrderStatus x"
  shows "\<not> CanTransitionOrder x y"
proof -
  have "x \<noteq> OrderStatusDraft \<and> x \<noteq> OrderStatusChecked \<and> x \<noteq> OrderStatusApproved"
    using assms by (simp add: IsTerminalOrderStatus_def orderTransitions_def split: if_splits)
  then show ?thesis by (simp add: transition_iff)
qed

subsection \<open>One change of one order\<close>

text \<open>The part of an order that is fixed when it is created.\<close>

definition order_terms :: "Order \<Rightarrow> Order" where
  "order_terms x = x\<lparr>od_Status := [], od_StatusMessage := [], od_RejectReason := [], od_AMLStatus := [], od_TradeRef := [],
     od_SecurityTxnID := [], od_MoneyTxnID := [], od_UpdatedAt := 0\<rparr>"

text \<open>\<open>moved_to x y\<close>: the order \<open>x\<close> became \<open>y\<close> by one allowed transition.\<close>

definition moved_to :: "Order \<Rightarrow> Order \<Rightarrow> bool" where
  "moved_to x y \<longleftrightarrow> order_terms y = order_terms x \<and> CanTransitionOrder (od_Status x) (od_Status y)"

text \<open>\<open>outcome_ok x\<close>: exactly the executed orders carry a trade, under their own reference.\<close>

definition outcome_ok :: "Order \<Rightarrow> bool" where
  "outcome_ok x \<longleftrightarrow>
     (if od_Status x = OrderStatusExecuted then od_TradeRef x = od_Reference x
      else od_TradeRef x = [] \<and> od_SecurityTxnID x = [] \<and> od_MoneyTxnID x = [])"

definition order_ok :: "Order \<Rightarrow> bool" where
  "order_ok x \<longleftrightarrow> od_Status x \<in> {OrderStatusDraft, OrderStatusChecked, OrderStatusApproved, OrderStatusExecuted,
       OrderStatusRejected, OrderStatusCancelled} \<and> od_Side x \<in> {TradeSideBuy, TradeSideSell} \<and>
     od_Reference x \<noteq> [] \<and> od_AccountRef x \<noteq> [] \<and> od_Instrument x \<noteq> [] \<and>
     1 \<le> od_QuantityPrecision x \<and> 1 \<le> od_MoneyPrecision x \<and>
     fits_int4 (od_QuantityPrecision x) \<and> fits_int4 (od_MoneyPrecision x) \<and> outcome_ok x"

definition orders_ok :: "Order list \<Rightarrow> bool" where
  "orders_ok xs \<longleftrightarrow> distinct (map od_OrderID xs) \<and> distinct (map od_Reference xs) \<and> (\<forall>x \<in> set xs. order_ok x)"

text \<open>What one write does to the table: nothing, one new draft, or one allowed transition.\<close>

inductive table_step :: "Order list \<Rightarrow> Order list \<Rightarrow> bool" where
  same: "table_step xs xs"
| new: "\<lbrakk>od_OrderID x \<notin> od_OrderID ` set xs; od_Reference x \<notin> od_Reference ` set xs; od_Status x = OrderStatusDraft; order_ok x\<rbrakk>
    \<Longrightarrow> table_step xs (xs @ [x])"
| move: "\<lbrakk>find_row od_OrderID (od_OrderID x) xs = Some x; moved_to x y; order_ok x \<Longrightarrow> order_ok y\<rbrakk>
    \<Longrightarrow> table_step xs (set_row od_OrderID y xs)"

lemma terms_fields:
  assumes "order_terms y = order_terms x"
  shows "od_OrderID y = od_OrderID x" "od_Reference y = od_Reference x" "od_Side y = od_Side x" "od_AccountRef y = od_AccountRef x"
    "od_Instrument y = od_Instrument x" "od_QuantityPrecision y = od_QuantityPrecision x" "od_MoneyPrecision y = od_MoneyPrecision x"
  using assms by (cases x; cases y; simp add: order_terms_def)+


lemma write_outcome_eq: "order_terms y = order_terms x \<Longrightarrow> write_outcome now y x = y\<lparr>od_UpdatedAt := now\<rparr>"
  by (cases x; cases y) (simp add: write_outcome_def order_terms_def)

lemma terms_simps [simp]:
  "order_terms (x\<lparr>od_Status := v\<rparr>) = order_terms x" "order_terms (x\<lparr>od_StatusMessage := v\<rparr>) = order_terms x"
  "order_terms (x\<lparr>od_RejectReason := v\<rparr>) = order_terms x" "order_terms (x\<lparr>od_AMLStatus := v\<rparr>) = order_terms x"
  "order_terms (x\<lparr>od_TradeRef := v\<rparr>) = order_terms x" "order_terms (x\<lparr>od_SecurityTxnID := v\<rparr>) = order_terms x"
  "order_terms (x\<lparr>od_MoneyTxnID := v\<rparr>) = order_terms x" "order_terms (x\<lparr>od_UpdatedAt := t\<rparr>) = order_terms x"
  by (simp_all add: order_terms_def)

text \<open>An order keeps its soundness when only its outcome changes, and that fits its new status.\<close>

lemma order_ok_outcome:
  assumes "order_ok x" "order_terms y = order_terms x" "CanTransitionOrder (od_Status x) (od_Status y)" "outcome_ok y"
  shows "order_ok y"
  using assms(1,4) terms_fields [OF assms(2)] assms(3) unfolding order_ok_def transition_iff by auto

lemma outcome_open:
  assumes "order_ok x" "CanTransitionOrder (od_Status x) v"
  shows "od_TradeRef x = [] \<and> od_SecurityTxnID x = [] \<and> od_MoneyTxnID x = []"
proof -
  have "od_Status x \<noteq> OrderStatusExecuted" using assms(2) by (auto simp: transition_iff)
  with assms(1) show ?thesis by (simp add: order_ok_def outcome_ok_def)
qed

lemma save_order_step:
  assumes "find_row od_OrderID oid (bk_orders bk) = Some x" "order_terms y = order_terms x"
    and "CanTransitionOrder (od_Status x) (od_Status y)" "order_ok x \<Longrightarrow> outcome_ok y" "save_order Y y bk = (bk', r)"
  shows "table_step (bk_orders bk) (bk_orders bk')" "r = Inr z \<Longrightarrow> z = y \<and> find_row od_OrderID (od_OrderID x) (bk_orders bk') =
    Some (y\<lparr>od_UpdatedAt := y_now Y\<rparr>)" "bk_desk bk' = bk_desk bk"
proof -
  have id: "od_OrderID x = oid" using find_row_Some [OF assms(1)] by simp
  have idy: "od_OrderID y = oid" using terms_fields(1) [OF assms(2)] id by simp
  let ?z = "y\<lparr>od_UpdatedAt := y_now Y\<rparr>"
  have "order_ok ?z" if "order_ok x"
    using order_ok_outcome [OF that assms(2,3) assms(4) [OF that]] by (simp add: order_ok_def outcome_ok_def)
  then have "table_step (bk_orders bk) (set_row od_OrderID ?z (bk_orders bk))"
    by (intro table_step.move [of x]) (use assms id in \<open>simp_all add: moved_to_def\<close>)
  then show "table_step (bk_orders bk) (bk_orders bk')"
    using assms(1,5) idy write_outcome_eq [OF assms(2)] table_step.same
    by (auto simp: save_order_def DB_UpdateOrder_def split: if_splits)
  show "r = Inr z \<Longrightarrow> z = y \<and> find_row od_OrderID (od_OrderID x) (bk_orders bk') = Some ?z"
    using assms(1,5) idy id write_outcome_eq [OF assms(2)]
    by (auto simp: save_order_def DB_UpdateOrder_def find_row_set_row split: if_splits)
  show "bk_desk bk' = bk_desk bk" using assms(5) by (auto simp: save_order_def split: prod.splits sum.splits)
qed

lemma runOrderChecks_keeps: "runOrderChecks Y x bk = (bk', r) \<Longrightarrow> bk_orders bk' = bk_orders bk"
  by (auto simp: runOrderChecks_def Let_def split: sum.splits prod.splits if_splits)

lemma GetOrder_row: "DB_GetOrder F oid rows = Inr x \<Longrightarrow> find_row od_OrderID oid rows = Some x"
  by (auto simp: DB_GetOrder_def split: if_splits option.splits)

lemma sell_trade_ref: "SellTrade Y q n g dk = Some (dk', Inr r) \<Longrightarrow> br_TradeRef r = g_Reference g"
  by (auto simp: SellTrade_def Let_def split: sum.splits prod.splits option.splits if_splits)

lemma book_trade_ref: "BookTrade Y q n g dk = Some (dk', Inr r) \<Longrightarrow> br_TradeRef r = g_Reference g"
  by (auto simp: BookTrade_def Let_def split: sum.splits prod.splits option.splits if_splits)


subsection \<open>The operations on the order table\<close>

lemma CreateOrder_step:
  assumes "CreateOrder Y ord bk = (bk', x)"
  shows "table_step (bk_orders bk) (bk_orders bk')" "bk_desk bk' = bk_desk bk"
    "x = Inr z \<Longrightarrow> od_Status z = OrderStatusDraft \<and> (\<exists>r. find_row od_OrderID (od_OrderID z) (bk_orders bk') = Some r)"
proof -
  obtain rows where b: "bk' = bk\<lparr>bk_orders := rows\<rparr>" and c: "rows = bk_orders bk \<and> (\<exists>e. x = Inl e) \<or> (\<exists>qty price z.
     Order_Validate (e_D (y_env Y)) ord = Inr () \<and> z = ord\<lparr>od_OrderID := e_uuid (y_env Y) (''ord#'' @ show_nat (length (bk_orders bk))),
       od_CreatedAt := y_now Y, od_UpdatedAt := y_now Y, od_Status := OrderStatusDraft\<rparr> \<and> x = Inr z \<and>
     fits_int4 (od_QuantityPrecision z) \<and> fits_int4 (od_MoneyPrecision z) \<and>
     od_OrderID z \<notin> od_OrderID ` set (bk_orders bk) \<and> od_Reference z \<notin> od_Reference ` set (bk_orders bk) \<and>
     rows = bk_orders bk @ [z\<lparr>od_Quantity := qty, od_Price := price, od_StatusMessage := [], od_RejectReason := [],
                             od_TradeRef := [], od_SecurityTxnID := [], od_MoneyTxnID := []\<rparr>])"
    using assms by (auto simp: CreateOrder_def DB_CreateOrder_def Let_def split: sum.splits prod.splits option.splits if_splits)
  have v: "od_Reference ord \<noteq> [] \<and> od_AccountRef ord \<noteq> [] \<and> od_Instrument ord \<noteq> [] \<and> od_Side ord \<in> {TradeSideBuy, TradeSideSell} \<and>
     1 \<le> od_QuantityPrecision ord \<and> 1 \<le> od_MoneyPrecision ord" if "Order_Validate (e_D (y_env Y)) ord = Inr ()"
    using that by (simp add: Order_Validate_def not_less split: if_splits)
  have "table_step (bk_orders bk) rows"
    using c
  proof (elim disjE exE conjE)
    fix qty price and z :: Order
    let ?row = "z\<lparr>od_Quantity := qty, od_Price := price, od_StatusMessage := [], od_RejectReason := [],
                 od_TradeRef := [], od_SecurityTxnID := [], od_MoneyTxnID := []\<rparr>"
    assume h: "Order_Validate (e_D (y_env Y)) ord = Inr ()"
      "z = ord\<lparr>od_OrderID := e_uuid (y_env Y) (''ord#'' @ show_nat (length (bk_orders bk))),
       od_CreatedAt := y_now Y, od_UpdatedAt := y_now Y, od_Status := OrderStatusDraft\<rparr>"
      "fits_int4 (od_QuantityPrecision z)" "fits_int4 (od_MoneyPrecision z)" "od_OrderID z \<notin> od_OrderID ` set (bk_orders bk)"
      "od_Reference z \<notin> od_Reference ` set (bk_orders bk)" and rows: "rows = bk_orders bk @ [?row]"
    have "order_ok ?row" using v [OF h(1)] h(2-4) by (simp add: order_ok_def outcome_ok_def)
    then show ?thesis unfolding rows by (intro table_step.new) (use h in simp_all)
  qed (simp add: table_step.same)
  with b show "table_step (bk_orders bk) (bk_orders bk')" by simp
  show "bk_desk bk' = bk_desk bk" using b by simp
  show "x = Inr z \<Longrightarrow> od_Status z = OrderStatusDraft \<and> (\<exists>r. find_row od_OrderID (od_OrderID z) (bk_orders bk') = Some r)"
    using c b find_row_None [of od_OrderID "od_OrderID z" rows] by (auto simp: not_None_eq [symmetric] simp del: not_None_eq)
qed

text \<open>
  The other operations read one order and write it back: either they fail and leave the table,
  or the order makes one allowed transition to a status of \<open>V\<close>.
\<close>

definition writes_back :: "('d, 'r, 'q) sys \<Rightarrow> string \<Rightarrow> string set \<Rightarrow> 'r book \<Rightarrow> 'r book \<Rightarrow> Order res \<Rightarrow> bool" where
  "writes_back Y oid V bk bk' r \<longleftrightarrow> isl r \<and> bk_orders bk' = bk_orders bk \<or>
     (\<exists>x y bk1. find_row od_OrderID oid (bk_orders bk) = Some x \<and> bk_orders bk1 = bk_orders bk \<and> save_order Y y bk1 = (bk', r) \<and>
        order_terms y = order_terms x \<and> CanTransitionOrder (od_Status x) (od_Status y) \<and> od_Status y \<in> V \<and>
        (order_ok x \<longrightarrow> outcome_ok y))"

lemma isl_left: "Inl e = r \<Longrightarrow> isl r"
  by auto

lemma writes_back_same: "isl r \<Longrightarrow> bk_orders bk' = bk_orders bk \<Longrightarrow> writes_back Y oid V bk bk' r"
  by (simp add: writes_back_def)

lemma writes_backI:
  assumes "DB_GetOrder F oid (bk_orders bk) = Inr x" "save_order Y y bk1 = (bk', r)" "bk_orders bk1 = bk_orders bk"
    "order_terms y = order_terms x" "CanTransitionOrder (od_Status x) (od_Status y)" "od_Status y \<in> V" "order_ok x \<Longrightarrow> outcome_ok y"
  shows "writes_back Y oid V bk bk' r"
  unfolding writes_back_def using assms GetOrder_row [OF assms(1)] by metis

lemma writes_back_step:
  assumes "writes_back Y oid V bk bk' r"
  shows "table_step (bk_orders bk) (bk_orders bk')" "r = Inr z \<Longrightarrow> od_Status z \<in> V \<and> od_OrderID z = oid"
proof -
  have "table_step (bk_orders bk) (bk_orders bk') \<and> (r = Inr z \<longrightarrow> od_Status z \<in> V \<and> od_OrderID z = oid)"
    using assms unfolding writes_back_def
  proof (elim disjE exE conjE)
    fix x y bk1
    assume h: "find_row od_OrderID oid (bk_orders bk) = Some x" "bk_orders bk1 = bk_orders bk" "save_order Y y bk1 = (bk', r)"
      "order_terms y = order_terms x" "CanTransitionOrder (od_Status x) (od_Status y)" "od_Status y \<in> V" "order_ok x \<longrightarrow> outcome_ok y"
    have "od_OrderID y = oid" using find_row_Some [OF h(1)] terms_fields(1) [OF h(4)] by simp
    with save_order_step(1,2) [OF h(1) [folded h(2)] h(4,5) mp [OF h(7)] h(3)] h(2,6) show ?thesis by auto
  qed (auto simp: table_step.same)
  then show "table_step (bk_orders bk) (bk_orders bk')" "r = Inr z \<Longrightarrow> od_Status z \<in> V \<and> od_OrderID z = oid" by blast+
qed

lemma open_outcome_ok:
  assumes "order_ok x" "CanTransitionOrder (od_Status x) (od_Status y)" "od_Status y \<noteq> OrderStatusExecuted"
    "od_TradeRef y = od_TradeRef x" "od_SecurityTxnID y = od_SecurityTxnID x" "od_MoneyTxnID y = od_MoneyTxnID x"
  shows "outcome_ok y"
  using outcome_open [OF assms(1,2)] assms(3-) by (simp add: outcome_ok_def)

lemma CheckOrder_writes:
  assumes "CheckOrder Y oid bk = (bk', r)"
  shows "writes_back Y oid {OrderStatusRejected, OrderStatusChecked} bk bk' r"
proof (cases "DB_GetOrder (y_F Y) oid (bk_orders bk)")
  case (Inl e)
  with assms show ?thesis by (intro writes_back_same) (auto simp: CheckOrder_def intro: isl_left)
next
  case (Inr x)
  obtain bk1 c where c: "runOrderChecks Y x bk = (bk1, c)" by force
  note k = runOrderChecks_keeps [OF c]
  show ?thesis
  proof (cases "od_Status x = OrderStatusDraft \<and> (\<exists>v. c = Inr v)")
    case True
    then obtain v where v: "od_Status x = OrderStatusDraft" "c = Inr v" by blast
    have tr: "CanTransitionOrder (od_Status x) OrderStatusRejected" "CanTransitionOrder (od_Status x) OrderStatusChecked"
      using v by (simp_all add: transition_iff)
    obtain y where y: "save_order Y y bk1 = (bk', r)" "order_terms y = order_terms x" "od_Status y \<in> {OrderStatusRejected, OrderStatusChecked}"
      "od_TradeRef y = od_TradeRef x" "od_SecurityTxnID y = od_SecurityTxnID x" "od_MoneyTxnID y = od_MoneyTxnID x"
      using assms Inr v c by (cases "ck_Passed v") (simp_all add: CheckOrder_def that)
    have "CanTransitionOrder (od_Status x) (od_Status y)" "od_Status y \<noteq> OrderStatusExecuted" using y(3) tr by auto
    with y k open_outcome_ok show ?thesis by (intro writes_backI [OF Inr y(1)]) auto
  next
    case False
    with assms Inr c k show ?thesis by (intro writes_back_same) (auto simp: CheckOrder_def split: sum.splits if_splits)
  qed
qed

lemma ApproveOrder_writes:
  assumes "ApproveOrder Y oid bk = (bk', r)"
  shows "writes_back Y oid {OrderStatusApproved} bk bk' r"
proof (cases "\<exists>x. DB_GetOrder (y_F Y) oid (bk_orders bk) = Inr x \<and> CanTransitionOrder (od_Status x) OrderStatusApproved")
  case True
  then obtain x where x: "DB_GetOrder (y_F Y) oid (bk_orders bk) = Inr x" "CanTransitionOrder (od_Status x) OrderStatusApproved" by blast
  with assms have "save_order Y (x\<lparr>od_Status := OrderStatusApproved, od_StatusMessage := ''approved''\<rparr>) bk = (bk', r)"
    by (simp add: ApproveOrder_def)
  from writes_backI [OF x(1) this] x(2) show ?thesis by (simp add: open_outcome_ok)
next
  case False
  with assms show ?thesis by (intro writes_back_same) (auto simp: ApproveOrder_def intro: isl_left split: sum.splits)
qed

lemma CancelOrder_writes:
  assumes "CancelOrder Y oid bk = (bk', r)"
  shows "writes_back Y oid {OrderStatusCancelled} bk bk' r"
proof (cases "\<exists>x. DB_GetOrder (y_F Y) oid (bk_orders bk) = Inr x \<and> CanTransitionOrder (od_Status x) OrderStatusCancelled")
  case True
  then obtain x where x: "DB_GetOrder (y_F Y) oid (bk_orders bk) = Inr x" "CanTransitionOrder (od_Status x) OrderStatusCancelled" by blast
  with assms have "save_order Y (x\<lparr>od_Status := OrderStatusCancelled, od_StatusMessage := ''cancelled''\<rparr>) bk = (bk', r)"
    by (simp add: CancelOrder_def)
  from writes_backI [OF x(1) this] x(2) show ?thesis by (simp add: open_outcome_ok)
next
  case False
  with assms show ?thesis by (intro writes_back_same) (auto simp: CancelOrder_def intro: isl_left split: sum.splits)
qed

text \<open>The booking an execution makes, and what it does with the outcome.\<close>

definition place_trade :: "('d, 'r, 'q) sys \<Rightarrow> 'q \<Rightarrow> nat \<Rightarrow> Order \<Rightarrow> 'r desk \<Rightarrow> ('r desk \<times> TradeBookingResult res) option" where
  "place_trade Y q n x dk =
     (if od_Side x = TradeSideSell then SellTrade Y q n (order_booking x) dk else BookTrade Y q n (order_booking x) dk)"

lemma ExecuteOrder_cases:
  assumes "ExecuteOrder Y q n oid bk = Some (bk', r)"
  obtains "isl r" "bk' = bk"
  | x dk e where "DB_GetOrder (y_F Y) oid (bk_orders bk) = Inr x" "CanTransitionOrder (od_Status x) OrderStatusExecuted"
      "place_trade Y q n x (bk_desk bk) = Some (dk, Inl e)" "save_order Y (x\<lparr>od_Status := OrderStatusRejected,
         od_RejectReason := ''execution failed'', od_StatusMessage := err_msg e\<rparr>) (bk\<lparr>bk_desk := dk\<rparr>) = (bk', r)"
  | x dk b where "DB_GetOrder (y_F Y) oid (bk_orders bk) = Inr x" "CanTransitionOrder (od_Status x) OrderStatusExecuted"
      "place_trade Y q n x (bk_desk bk) = Some (dk, Inr b)" "save_order Y (x\<lparr>od_Status := OrderStatusExecuted, od_StatusMessage := ''executed'',
                od_TradeRef := br_TradeRef b, od_SecurityTxnID := br_SecurityTxnID b, od_MoneyTxnID := br_MoneyTxnID b\<rparr>)
                (bk\<lparr>bk_desk := dk\<rparr>) = (bk', r)"
proof (cases "\<exists>x. DB_GetOrder (y_F Y) oid (bk_orders bk) = Inr x \<and> CanTransitionOrder (od_Status x) OrderStatusExecuted")
  case True
  then obtain x where x: "DB_GetOrder (y_F Y) oid (bk_orders bk) = Inr x" "CanTransitionOrder (od_Status x) OrderStatusExecuted" by blast
  with assms obtain dk o' where p: "place_trade Y q n x (bk_desk bk) = Some (dk, o')"
    by (cases "place_trade Y q n x (bk_desk bk)") (auto simp: ExecuteOrder_def place_trade_def)
  with assms x that(2,3) show ?thesis
    by (cases o') (simp_all add: ExecuteOrder_def place_trade_def [symmetric] rejectOrderOnExecute_def)
next
  case False
  with assms that(1) show ?thesis by (auto simp: ExecuteOrder_def intro: isl_left split: sum.splits)
qed

lemma place_trade_ref: "place_trade Y q n x dk = Some (dk', Inr b) \<Longrightarrow> br_TradeRef b = od_Reference x"
  using sell_trade_ref [of Y q n "order_booking x"] book_trade_ref [of Y q n "order_booking x"]
  by (auto simp: place_trade_def order_booking_def split: if_splits)

lemma ExecuteOrder_writes:
  assumes "ExecuteOrder Y q n oid bk = Some (bk', r)"
  shows "writes_back Y oid {OrderStatusRejected, OrderStatusExecuted} bk bk' r"
  using assms
proof (cases rule: ExecuteOrder_cases)
  case 1
  then show ?thesis by (simp add: writes_back_same)
next
  case (2 x dk e)
  have "CanTransitionOrder (od_Status x) OrderStatusRejected" using 2(2) by (auto simp: transition_iff)
  with writes_backI [OF 2(1,4)] show ?thesis by (simp add: open_outcome_ok)
next
  case (3 x dk b)
  from writes_backI [OF 3(1,4)] 3(2) place_trade_ref [OF 3(3)] show ?thesis by (simp add: outcome_ok_def)
qed

lemma SubmitOrder_steps:
  assumes "SubmitOrder Y q n ord bk = Some (bk', r)"
  shows "table_step\<^sup>*\<^sup>* (bk_orders bk) (bk_orders bk')" "r = Inr z \<Longrightarrow> od_Status z \<in> {OrderStatusRejected, OrderStatusExecuted}"
proof -
  obtain bk1 x1 where c: "CreateOrder Y ord bk = (bk1, x1)" by force
  note s1 = r_into_rtranclp [of table_step, OF CreateOrder_step(1) [OF c]]
  have "table_step\<^sup>*\<^sup>* (bk_orders bk) (bk_orders bk') \<and> (r = Inr z \<longrightarrow> od_Status z \<in> {OrderStatusRejected, OrderStatusExecuted})"
  proof (cases x1)
    case (Inl e)
    with assms c s1 show ?thesis by (auto simp: SubmitOrder_def)
  next
    case (Inr created)
    obtain bk2 x2 where k: "CheckOrder Y (od_OrderID created) bk1 = (bk2, x2)" by force
    note w2 = writes_back_step [OF CheckOrder_writes [OF k]]
    have s2: "table_step\<^sup>*\<^sup>* (bk_orders bk) (bk_orders bk2)" using s1 w2(1) by (rule rtranclp.rtrancl_into_rtrancl)
    show ?thesis
    proof (cases "\<exists>x. x2 = Inr x \<and> od_Status x \<noteq> OrderStatusRejected")
      case False
      with assms c Inr k s2 show ?thesis by (auto simp: SubmitOrder_def split: sum.splits)
    next
      case True
      then obtain x where x: "x2 = Inr x" "od_Status x \<noteq> OrderStatusRejected" by blast
      obtain bk3 x3 where a: "ApproveOrder Y (od_OrderID x) bk2 = (bk3, x3)" by force
      note s3 = rtranclp.rtrancl_into_rtrancl [OF s2 writes_back_step(1) [OF ApproveOrder_writes [OF a]]]
      show ?thesis
      proof (cases x3)
        case (Inl e)
        with assms c Inr k x a s3 \<open>x1 = Inr created\<close> show ?thesis by (auto simp: SubmitOrder_def)
      next
        case (Inr y)
        with assms c \<open>x1 = Inr created\<close> k x a have e: "ExecuteOrder Y q n (od_OrderID y) bk3 = Some (bk', r)"
          by (simp add: SubmitOrder_def)
        note w = writes_back_step [OF ExecuteOrder_writes [OF e]]
        show ?thesis using rtranclp.rtrancl_into_rtrancl [OF s3 w(1)] w(2) by blast
      qed
    qed
  qed
  then show "table_step\<^sup>*\<^sup>* (bk_orders bk) (bk_orders bk')" "r = Inr z \<Longrightarrow> od_Status z \<in> {OrderStatusRejected, OrderStatusExecuted}"
    by blast+
qed

lemma order_step_table: "order_step S bk bk' \<Longrightarrow> table_step\<^sup>*\<^sup>* (bk_orders bk) (bk_orders bk')"
  by (induction rule: order_step.induct)
    (auto intro: CreateOrder_step(1) SubmitOrder_steps(1) writes_back_step(1) CheckOrder_writes ApproveOrder_writes
      ExecuteOrder_writes CancelOrder_writes r_into_rtranclp)

lemma order_steps_table: "(order_step S)\<^sup>*\<^sup>* bk bk' \<Longrightarrow> table_step\<^sup>*\<^sup>* (bk_orders bk) (bk_orders bk')"
  by (induction rule: rtranclp_induct) (auto dest: order_step_table)

subsection \<open>Invariants of the table\<close>

lemma table_step_ok: "table_step xs ys \<Longrightarrow> orders_ok xs \<Longrightarrow> orders_ok ys"
proof (induction rule: table_step.induct)
  case (move x xs y)
  have m: "x \<in> set xs" and t: "order_terms y = order_terms x" using move find_row_Some by (fastforce simp: moved_to_def)+
  have "order_ok y" using move m by (simp add: orders_ok_def)
  moreover have "map od_Reference (set_row od_OrderID y xs) = map od_Reference xs"
    using move.prems m terms_fields(1,2) [OF t] unfolding orders_ok_def set_row_def
    by (auto simp: distinct_map dest: inj_onD)
  ultimately show ?case
    using move.prems set_row_all [of xs order_ok y _ od_OrderID] by (simp add: orders_ok_def)
qed (auto simp: orders_ok_def)

lemma table_steps_ok: "table_step\<^sup>*\<^sup>* xs ys \<Longrightarrow> orders_ok xs \<Longrightarrow> orders_ok ys"
  by (induction rule: rtranclp_induct) (auto intro: table_step_ok)

lemma table_step_order:
  assumes "table_step xs ys" "orders_ok xs" "x \<in> set xs"
  shows "\<exists>y \<in> set ys. y = x \<or> moved_to x y"
  using assms
proof (induction rule: table_step.induct)
  case (move z xs y)
  then show ?case
  proof (cases "x = z")
    case True
    have "od_OrderID y = od_OrderID z" using terms_fields(1) [of y z] move.hyps(2) by (simp add: moved_to_def)
    with True find_row_Some [OF move.hyps(1)] have "y \<in> set (set_row od_OrderID y xs)" by (auto simp: set_row_def image_iff)
    with True move.hyps(2) show ?thesis by blast
  next
    case False
    then have "od_OrderID x \<noteq> od_OrderID y"
      using move find_row_Some [OF move.hyps(1)] terms_fields(1) [of y z] by (auto simp: orders_ok_def distinct_map moved_to_def dest: inj_onD)
    with move.prems(2) have "x \<in> set (set_row od_OrderID y xs)" by (auto simp: set_row_def image_iff)
    then show ?thesis by blast
  qed
qed auto

lemma table_steps_order:
  assumes "table_step\<^sup>*\<^sup>* xs ys" "orders_ok xs" "x \<in> set xs"
  shows "\<exists>y \<in> set ys. moved_to\<^sup>*\<^sup>* x y"
  using assms
proof (induction rule: rtranclp_induct)
  case (step ys zs)
  then obtain y where y: "y \<in> set ys" "moved_to\<^sup>*\<^sup>* x y" by blast
  from table_step_order [OF step.hyps(2) table_steps_ok [OF step.hyps(1) step.prems(1)] y(1)] y(2) show ?case
    by (auto intro: rtranclp.rtrancl_into_rtrancl)
qed auto

lemma moved_to_steps:
  assumes "moved_to\<^sup>*\<^sup>* x y"
  shows "order_terms y = order_terms x" "CanTransitionOrder\<^sup>*\<^sup>* (od_Status x) (od_Status y)"
    "IsTerminalOrderStatus (od_Status x) \<Longrightarrow> y = x"
  using assms
proof (induction rule: rtranclp_induct)
  case (step y z)
  {
    case 1
    with step show ?case by (simp add: moved_to_def)
  next
    case 2
    with step show ?case by (auto simp: moved_to_def intro: rtranclp.rtrancl_into_rtrancl)
  next
    case 3
    with step terminal_stays show ?case by (auto simp: moved_to_def)
  }
qed simp_all


subsection \<open>What an execution books\<close>

lemma leg_recorded:
  assumes "store_ok (w_store w)" "uuids_ok E" "RecordTransaction E t w = Some (w', Inr t3)" "t_Status t = []"
  shows "store_ok (w_store w')" "\<exists>am. st_transactions (w_store w') = st_transactions (w_store w) @ [row_of t3 am]"
    "t_TransactionID t3 = t_TransactionID t" "t_Reference t3 = t_Reference t"
    "t_Status t3 = (if t_Inflight t then StatusInflight else applicableStatus [])"
    "t_Reference t \<notin> t_Reference ` set (st_transactions (w_store w))"
proof -
  from RecordTransaction_cases [OF assms(1-3)] obtain s1 sid did where g: "grows (w_store w) s1"
    and ex: "executed E (t\<lparr>t_Source := sid, t_Destination := did\<rparr>) s1 (w_store w') t3" by auto
  let ?t = "t\<lparr>t_Source := sid, t_Destination := did\<rparr>"
  obtain a where a: "0 < a" "t_PreciseAmount t3 = Some a" and r: "t_Reference t3 = t_Reference t"
    "t_Status t3 = (if t_Inflight t then StatusInflight else applicableStatus [])"
    by (rule executed_effect [OF ex]) (use assms(4) in auto)
  from ex obtain t2 h s2 sb db where g2: "grows s1 s2"
    and ap: "applyTransactionToBalances (e_D E) (?t\<lparr>t_Source := b_BalanceID sb, t_Destination := b_BalanceID db\<rparr>)
       True False (two_balances sb db) = Inr (t2, h)" and t3: "t3 = updateTransactionDetails t2 (h True) (h False)"
    and fin: "if t_PreciseAmount t2 = Some 0 then w_store w' = s2
      else persisted t3 (h True) (h False) (prepareTransactionOutbox t3 (h True) (h False)) s2 (w_store w')"
    unfolding executed_def by blast
  have p: "persisted t3 (h True) (h False) (prepareTransactionOutbox t3 (h True) (h False)) s2 (w_store w')"
    using fin a t3 by (auto split: if_splits)
  have tx: "st_transactions s2 = st_transactions (w_store w)" using g g2 by (simp add: grows_def)
  show "store_ok (w_store w')" using executed_safe [OF _ ex] g assms(1) by (simp add: grows_def)
  show "\<exists>am. st_transactions (w_store w') = st_transactions (w_store w) @ [row_of t3 am]"
    "t_Reference t \<notin> t_Reference ` set (st_transactions (w_store w))" using p tx r(1) by (auto simp: persisted_def)
  show "t_TransactionID t3 = t_TransactionID t" using apply_keeps_identity [OF ap] t3 by simp
  show "t_Reference t3 = t_Reference t" "t_Status t3 = (if t_Inflight t then StatusInflight else applicableStatus [])"
    by (rule r)+
qed

lemma GetOrCreatePosition_ledger:
  assumes "GetOrCreatePosition Y k dk = (dk', Inr b)" "positions_ok (dk_store dk)" "uuids_ok (y_env Y)"
  shows "positions_ok (dk_store dk')" "st_transactions (dk_store dk') = st_transactions (dk_store dk)"
proof -
  have "position_uuid Y j \<noteq> []" for j using assms(3) by (simp add: position_uuid_def uuids_ok_def)
  with GetOrCreatePosition_cases [OF assms(1)] locked_in_ok(1,4) [OF assms(2)]
  show "positions_ok (dk_store dk')" "st_transactions (dk_store dk') = st_transactions (dk_store dk)" by metis+
qed

definition leg_of :: "Booking \<Rightarrow> string \<Rightarrow> Transaction \<Rightarrow> bool" where
  "leg_of g suffix t \<longleftrightarrow> t_Status t = [] \<and> t_Inflight t \<and> t_Reference t = g_Reference g @ suffix"

lemma legs: "leg_of g ''_money'' (money_leg Y g side venue d ms md amount s)"
  "leg_of g ''_sec'' (security_leg Y g side params d ss sd qty mid s)"
  by (simp_all add: leg_of_def money_leg_def security_leg_def zero_Transaction_def)

lemma trade_legs:
  assumes "SellTrade Y q n g dk = Some (dk', Inr r) \<or> BookTrade Y q n g dk = Some (dk', Inr r)"
  obtains k1 k2 dk1 dk2 mb dp w m x money security what where "GetOrCreatePosition Y k1 dk = (dk1, Inr mb)"
    "GetOrCreatePosition Y k2 dk1 = (dk2, Inr dp)" "book_legs Y q n what money security (dk_world dk2) = Some (w, Inr (m, x))"
    "\<forall>s. leg_of g ''_money'' (money s)" "\<forall>i s. leg_of g ''_sec'' (security i s)"
    "dk' = dk2\<lparr>dk_world := w\<rparr>" "br_MoneyTxnID r = t_TransactionID m" "br_SecurityTxnID r = t_TransactionID x"
  using assms
proof (elim disjE)
  assume "SellTrade Y q n g dk = Some (dk', Inr r)"
  then show ?thesis
    by (auto simp: SellTrade_def Let_def split: sum.splits prod.splits option.splits if_splits intro!: that legs)
next
  assume "BookTrade Y q n g dk = Some (dk', Inr r)"
  then show ?thesis
    by (auto simp: BookTrade_def Let_def split: sum.splits prod.splits option.splits if_splits intro!: that legs)
qed

text \<open>Both legs stand at the end of the ledger, in the order they were booked.\<close>

definition legs_booked :: "string \<Rightarrow> string \<Rightarrow> string \<Rightarrow> store \<Rightarrow> store \<Rightarrow> bool" where
  "legs_booked reference mid xid s s' \<longleftrightarrow> (\<exists>m x. st_transactions s' = st_transactions s @ [m, x] \<and>
     t_TransactionID m = mid \<and> t_Reference m = reference @ ''_money'' \<and> t_Status m = StatusInflight \<and>
     t_TransactionID x = xid \<and> t_Reference x = reference @ ''_sec'' \<and> t_Status x = StatusInflight) \<and>
     {reference @ ''_money'', reference @ ''_sec''} \<inter> t_Reference ` set (st_transactions s) = {}"

lemma trade_books_legs:
  assumes "SellTrade Y q n g dk = Some (dk', Inr r) \<or> BookTrade Y q n g dk = Some (dk', Inr r)"
    and "positions_ok (dk_store dk)" "uuids_ok (y_env Y)"
  shows "legs_booked (g_Reference g) (br_MoneyTxnID r) (br_SecurityTxnID r) (dk_store dk) (dk_store dk')"
proof -
  from assms(1) obtain k1 k2 dk1 dk2 mb dp w m x money security what where
    g1: "GetOrCreatePosition Y k1 dk = (dk1, Inr mb)" and g2: "GetOrCreatePosition Y k2 dk1 = (dk2, Inr dp)"
    and B: "book_legs Y q n what money security (dk_world dk2) = Some (w, Inr (m, x))"
    and L: "\<forall>s. leg_of g ''_money'' (money s)" "\<forall>i s. leg_of g ''_sec'' (security i s)"
    and e: "dk' = dk2\<lparr>dk_world := w\<rparr>" "br_MoneyTxnID r = t_TransactionID m" "br_SecurityTxnID r = t_TransactionID x"
    by (rule trade_legs)
  note p1 = GetOrCreatePosition_ledger [OF g1 assms(2,3)] and p2 = GetOrCreatePosition_ledger [OF g2 _ assms(3)]
  have so: "store_ok (dk_store dk2)" using p2(1) p1(1) by (simp add: positions_ok_def)
  obtain w1 where R1: "RecordTransaction (y_env Y) (money (dk_store dk2)) (dk_world dk2) = Some (w1, Inr m)"
    and R2: "RecordTransaction (y_env Y) (security (t_TransactionID m) (w_store w1)) w1 = Some (w, Inr x)"
    by (rule book_legs_cases [OF B])
  note l1 = leg_recorded [OF so assms(3) R1] and l2 = leg_recorded [OF _ assms(3) R2]
  have st: "t_Status (money s) = []" "t_Status (security i s) = []" "t_Inflight (money s)" "t_Inflight (security i s)"
    "t_Reference (money s) = g_Reference g @ ''_money''" "t_Reference (security i s) = g_Reference g @ ''_sec''" for i s
    using L by (simp_all add: leg_of_def)
  note l1 = l1 [OF st(1)] and l2 = l2 [OF _ st(2)]
  from l1(2) l2(2) [OF l1(1)] obtain am am' where
    "st_transactions (w_store w) = st_transactions (dk_store dk2) @ [row_of m am, row_of x am']" by auto
  moreover have "st_transactions (dk_store dk2) = st_transactions (dk_store dk)" using p1 p2 by simp
  ultimately show ?thesis
    using l1 l2 [OF l1(1)] st e unfolding legs_booked_def by auto
qed


section \<open>Properties\<close>

text \<open>
  C30: Orders move only along the lifecycle, when the operations run one after the other: each of them
  reads, checks and writes its order before the next one starts. Whatever sequence of operations clients run
  on a sound order table, with any failures, and however the desk changes between them, an order that is
  in the table stays in it with the terms it was created with, and its status has moved only by
  transitions of the table in \<open>model/order.go\<close>; an order that was executed, rejected or
  cancelled is never changed again. (Overlapping operations can leave the lifecycle, as the lemma
  \<open>cancelled_order_executed\<close> shows.)
\<close>

theorem order_lifecycle:
  assumes "(order_step S)\<^sup>*\<^sup>* bk bk'" "orders_ok (bk_orders bk)" "x \<in> set (bk_orders bk)"
  shows "\<exists>y \<in> set (bk_orders bk'). order_terms y = order_terms x \<and>
    CanTransitionOrder\<^sup>*\<^sup>* (od_Status x) (od_Status y) \<and> (IsTerminalOrderStatus (od_Status x) \<longrightarrow> y = x)"
  using table_steps_order [OF order_steps_table [OF assms(1)] assms(2,3)] moved_to_steps by metis

definition ex_order :: Order where
  "ex_order = \<lparr>od_OrderID = ''ord_1'', od_Reference = ''ref'', od_LedgerID = ''ldg'', od_IdentityID = ''idt'', od_AccountRef = ''acc'',
     od_Instrument = ''AAA'', od_Venue = [], od_Currency = ''USD'', od_Side = TradeSideSell, od_Quantity = ''30'',
     od_QuantityPrecision = 1, od_Price = ''2'', od_MoneyPrecision = 100, od_SettleOffset = 2, od_SettleDate = Some 19786,
     od_Status = OrderStatusApproved, od_StatusMessage = [], od_RejectReason = [], od_AMLStatus = [],
     od_SettlementBalanceID = ''bln_s'', od_MarketBalanceID = ''bln_k'', od_TradeRef = [], od_SecurityTxnID = [],
     od_MoneyTxnID = [], od_CreatedAt = 0, od_UpdatedAt = 0\<rparr>"

definition ex_book :: "rstore book" where
  "ex_book = \<lparr>bk_desk = ex_sell_desk, bk_orders = [ex_order], bk_dict = [], bk_stops = [], bk_times = []\<rparr>"

lemma ex_book_ok: "orders_ok (bk_orders ex_book)"
  by (simp add: orders_ok_def ex_book_def order_ok_def outcome_ok_def ex_order_def fits_int4_def)

lemma ex_booking: "order_booking ex_order = ex_sell"
  by (simp add: order_booking_def ex_order_def ex_sell_def)

lemma ex_cancel:
  "\<exists>bk' y. CancelOrder ex_sys ''ord_1'' ex_book = (bk', Inr y) \<and> map od_Status (bk_orders bk') = [OrderStatusCancelled]"
  by (simp add: CancelOrder_def DB_GetOrder_def ex_sys_def ex_env_def ex_book_def ex_order_def transition_iff save_order_def
      DB_UpdateOrder_def set_row_def write_outcome_def)

text \<open>
  Two overlapping operations: an execution that has read the approved order before it is cancelled
  writes it as executed afterwards.
\<close>

lemma cancelled_order_executed:
  "\<exists>bk1 y bk2 z. CancelOrder ex_sys ''ord_1'' ex_book = (bk1, Inr y) \<and> map od_Status (bk_orders bk1) = [OrderStatusCancelled] \<and>
     DB_GetOrder (y_F ex_sys) ''ord_1'' (bk_orders ex_book) = Inr ex_order \<and>
     save_order ex_sys (ex_order\<lparr>od_Status := OrderStatusExecuted\<rparr>) bk1 = (bk2, Inr z) \<and>
     map od_Status (bk_orders bk2) = [OrderStatusExecuted]"
  by (simp add: CancelOrder_def DB_GetOrder_def ex_sys_def ex_env_def ex_book_def ex_order_def transition_iff save_order_def
      DB_UpdateOrder_def set_row_def write_outcome_def)

theorem order_lifecycle_witness:
  "\<exists>bk' y. (order_step {(ex_sys, [])})\<^sup>*\<^sup>* ex_book bk' \<and> y \<in> set (bk_orders bk') \<and> od_Status y = OrderStatusCancelled \<and>
     order_terms y = order_terms ex_order \<and> CanTransitionOrder\<^sup>*\<^sup>* OrderStatusApproved OrderStatusCancelled"
proof -
  obtain bk' y where c: "CancelOrder ex_sys ''ord_1'' ex_book = (bk', Inr y)" "map od_Status (bk_orders bk') = [OrderStatusCancelled]"
    using ex_cancel by (elim exE conjE)
  have s: "(order_step {(ex_sys, [])})\<^sup>*\<^sup>* ex_book bk'" by (rule r_into_rtranclp, rule order_step.cancel [OF _ c(1)]) simp
  have m: "ex_order \<in> set (bk_orders ex_book)" "od_Status ex_order = OrderStatusApproved" by (simp_all add: ex_book_def ex_order_def)
  from order_lifecycle [OF s ex_book_ok m(1)] obtain z where z: "z \<in> set (bk_orders bk')" "order_terms z = order_terms ex_order"
    "CanTransitionOrder\<^sup>*\<^sup>* (od_Status ex_order) (od_Status z)" by blast
  have "od_Status z = OrderStatusCancelled" using c(2) z(1) by auto
  with s z m show ?thesis by auto
qed

text \<open>
  C32: The order table is well-formed. Every operation, also one that fails half way, keeps the
  types the columns stand for: ids and references are unique, every status is one of the six
  of the lifecycle, the side is buy or sell, the precisions are positive 32-bit integers, and
  exactly the executed orders carry a trade, booked under the order's own reference.
\<close>

theorem order_table_well_formed:
  assumes "(order_step S)\<^sup>*\<^sup>* bk bk'" "orders_ok (bk_orders bk)"
  shows "orders_ok (bk_orders bk')"
  using table_steps_ok [OF order_steps_table [OF assms(1)] assms(2)] .

theorem order_table_well_formed_witness:
  "\<exists>bk'. (order_step {(ex_sys, [])})\<^sup>*\<^sup>* ex_book bk' \<and> orders_ok (bk_orders bk') \<and> map od_Status (bk_orders bk') = [OrderStatusCancelled]"
proof -
  obtain bk' y where c: "CancelOrder ex_sys ''ord_1'' ex_book = (bk', Inr y)" "map od_Status (bk_orders bk') = [OrderStatusCancelled]"
    using ex_cancel by (elim exE conjE)
  have s: "(order_step {(ex_sys, [])})\<^sup>*\<^sup>* ex_book bk'" by (rule r_into_rtranclp, rule order_step.cancel [OF _ c(1)]) simp
  show ?thesis using order_table_well_formed [OF s ex_book_ok] s c(2) by (intro exI [of _ bk'] conjI)
qed

text \<open>
  C31: An execution books the whole trade or rejects the order. When \<open>ExecuteOrder\<close> returns an
  order it is rejected or executed. It is executed only if both legs, money and securities,
  were appended to the ledger as inflight holds under the references of the order, which no
  earlier transaction used: one order never books two trades.
\<close>

theorem execute_books_both_legs:
  assumes "positions_ok (dk_store (bk_desk bk))" "uuids_ok (y_env Y)" "ExecuteOrder Y q n oid bk = Some (bk', Inr y)"
  shows "od_OrderID y = oid \<and> (od_Status y = OrderStatusRejected \<or> od_Status y = OrderStatusExecuted \<and>
    legs_booked (od_Reference y) (od_MoneyTxnID y) (od_SecurityTxnID y) (dk_store (bk_desk bk)) (dk_store (bk_desk bk')))"
  using assms(3)
proof (cases rule: ExecuteOrder_cases)
  case (2 x dk e)
  have "y = x\<lparr>od_Status := OrderStatusRejected, od_RejectReason := ''execution failed'', od_StatusMessage := err_msg e\<rparr>"
    using 2(4) by (auto simp: save_order_def split: prod.splits sum.splits)
  with find_row_Some [OF GetOrder_row [OF 2(1)]] show ?thesis by simp
next
  case (3 x dk b)
  have y: "y = x\<lparr>od_Status := OrderStatusExecuted, od_StatusMessage := ''executed'', od_TradeRef := br_TradeRef b,
      od_SecurityTxnID := br_SecurityTxnID b, od_MoneyTxnID := br_MoneyTxnID b\<rparr>" and d: "bk_desk bk' = dk"
    using 3(4) by (auto simp: save_order_def split: prod.splits sum.splits)
  have "legs_booked (od_Reference x) (br_MoneyTxnID b) (br_SecurityTxnID b) (dk_store (bk_desk bk)) (dk_store dk)"
    using trade_books_legs [of Y q n "order_booking x" "bk_desk bk" dk b] 3(3) assms(1,2)
    by (auto simp: place_trade_def order_booking_def split: if_splits)
  with y d find_row_Some [OF GetOrder_row [OF 3(1)]] show ?thesis by simp
qed simp

theorem execute_books_both_legs_witness:
  "\<exists>bk' y. ExecuteOrder ex_sys [] 0 ''ord_1'' ex_book = Some (bk', Inr y) \<and> od_Status y = OrderStatusExecuted \<and>
     legs_booked ''ref'' (od_MoneyTxnID y) (od_SecurityTxnID y) ex_sell_store (dk_store (bk_desk bk'))"
proof -
  obtain dk r where "SellTrade ex_sys [] 0 ex_sell ex_sell_desk = Some (dk, Inr r)" using ex_sell_runs by blast
  moreover have "od_Side ex_order = TradeSideSell" "od_OrderID ex_order = ''ord_1''" "od_Status ex_order = OrderStatusApproved"
    "od_Reference ex_order = ''ref''" by (simp_all add: ex_order_def)
  moreover have "bk_desk ex_book = ex_sell_desk" "bk_orders ex_book = [ex_order]" by (simp_all add: ex_book_def)
  ultimately have "\<exists>bk' y. ExecuteOrder ex_sys [] 0 ''ord_1'' ex_book = Some (bk', Inr y) \<and> od_Status y = OrderStatusExecuted \<and>
      od_Reference y = ''ref''"
    by (simp add: ExecuteOrder_def DB_GetOrder_def ex_sell_fields transition_iff ex_booking save_order_def DB_UpdateOrder_def)
  then obtain bk' y where E: "ExecuteOrder ex_sys [] 0 ''ord_1'' ex_book = Some (bk', Inr y)"
    and y: "od_Status y = OrderStatusExecuted" "od_Reference y = ''ref''" by blast
  have "positions_ok (dk_store (bk_desk ex_book))" "uuids_ok (y_env ex_sys)"
    using ex_sell_ok ex_env_ok by (simp_all add: ex_book_def ex_sell_desk_def ex_sys_def)
  from execute_books_both_legs [OF this E] y E show ?thesis by (auto simp: ex_book_def ex_sell_desk_def)
qed


end
